(* ===== verification/Prelude.thy ===== *)
theory Prelude
  imports Main "HOL-Library.Word" "HOL-Library.Monad_Syntax" "HOL-Library.Multiset"
begin

section \<open>Shared types, collections and lemmas\<close>

text \<open>
  The vocabulary of the development: the C integer types as words of their width, the status
  codes of \<^verbatim>\<open>common/fh_errors.h\<close>, pointers, and the lemmas on words, lists and options that
  several components use.

  A C function that can end in a fault (a NULL dereference, an access outside an array, a
  division by zero, a failed \<^verbatim>\<open>FH_ASSERT\<close>, which calls \<^verbatim>\<open>exit\<close>) returns an \<open>option\<close>, with
  \<open>None\<close> for the fault; its ordinary error codes are values.  A nullable pointer is an
  \<open>addr option\<close>, with \<open>None\<close> for NULL.
\<close>

unbundle bit_operations_syntax

named_theorems pool_simps \<open>unfolding rules of the memory pool\<close>
named_theorems ht_simps \<open>unfolding rules of the hash table\<close>
named_theorems gap_simps \<open>unfolding rules of the gap list\<close>
named_theorems fast_simps \<open>unfolding rules of the FAST codec\<close>

type_synonym u8 = "8 word"
type_synonym u16 = "16 word"
type_synonym u32 = "32 word"
type_synonym u64 = "64 word"

text \<open>Addresses are those of a 64-bit machine; a pointer may be NULL.\<close>

type_synonym addr = "64 word"
type_synonym ptr = "addr option"

subsection \<open>Status codes\<close>

type_synonym fh_status = int

abbreviation (input) FH_OK :: fh_status where "FH_OK \<equiv> 0"
abbreviation (input) FH_ERROR :: fh_status where "FH_ERROR \<equiv> -1"
abbreviation (input) FH_ERR_NOTFOUND :: fh_status where "FH_ERR_NOTFOUND \<equiv> 1"
abbreviation (input) FH_ERR_DUP :: fh_status where "FH_ERR_DUP \<equiv> 2"
abbreviation (input) FH_ERR_END_OF_FILE :: fh_status where "FH_ERR_END_OF_FILE \<equiv> 3"

subsection \<open>Words\<close>

lemma unat_inc: "unat (x :: 'a::len word) < 2 ^ LENGTH('a) - 1 \<Longrightarrow> unat (x + 1) = Suc (unat x)"
  using unat_add_lem [of x 1] by (simp add: less_diff_conv)

lemma unat_lt: "unat (x :: 'a::len word) < 2 ^ LENGTH('a)"
  by (rule unsigned_less)

lemma unat_ucast_up:
  "LENGTH('a) \<le> LENGTH('b) \<Longrightarrow> unat (ucast (x :: 'a::len word) :: 'b::len word) = unat x"
  by (simp add: unsigned_ucast_eq take_bit_nat_eq_self_iff)
    (rule order.strict_trans2 [OF unat_lt], simp)

lemma unat_dec: "(x :: 'a::len word) \<noteq> 0 \<Longrightarrow> unat (x - 1) = unat x - 1"
  by (rule unat_minus_one)

lemma unat_and_le: "unat (x AND y :: 'a::len word) \<le> unat y"
  using word_and_le1 [of x y] by (simp add: word_le_nat_alt)

lemma take_bit_diff_up:
  "m \<le> n \<Longrightarrow> take_bit m (take_bit n a - take_bit n b) = take_bit m (a - b :: int)"
  by (metis min.absorb1 take_bit_diff take_bit_take_bit)

lemma take_bit_add_up:
  "m \<le> n \<Longrightarrow> take_bit m (take_bit n a + take_bit n b) = take_bit m (a + b :: int)"
  by (metis min.absorb1 take_bit_add take_bit_take_bit)

lemma ucast_minus_down: "(ucast (a - b :: u64) :: u32) = ucast a - ucast b"
  by transfer (simp add: take_bit_diff_up)

lemma ucast_add_down: "(ucast (a + b :: u64) :: u32) = ucast a + ucast b"
  by transfer (simp add: take_bit_add_up)

lemma ucast_up_down [simp]: "ucast (ucast (z :: u32) :: u64) = z"
  by transfer (simp add: take_bit_take_bit)

lemma unat_add_ucast:
  "unat s + unat z < 2 ^ 64 \<Longrightarrow> unat (s + ucast (z :: u32) :: u64) = unat s + unat z"
  using unat_add_lem [of s "ucast z :: u64"] by (simp add: unat_ucast_up)

lemma unat_ucast_diff:
  assumes "unat s + unat z < 2 ^ 64" and "s \<le> seq" and "seq < s + ucast (z :: u32)"
  shows "unat (ucast (seq - s :: u64) :: u32) = unat seq - unat s"
proof -
  have "unat seq < unat s + unat z" "unat s \<le> unat seq"
    using assms by (simp_all add: word_less_nat_alt word_le_nat_alt unat_add_ucast)
  moreover have diff: "unat (seq - s) = unat seq - unat s" using assms by (simp add: unat_sub)
  ultimately have "unat (seq - s) < 2 ^ 32" using unat_lt [of z] by simp
  then show ?thesis using diff by (simp add: unsigned_ucast_eq take_bit_nat_eq_self_iff)
qed

subsection \<open>Lists of lists\<close>

text \<open>Changing one list of a list of lists, seen on the multiset of all elements.\<close>

lemma concat_update_split:
  assumes "i < length tab"
  shows "concat (tab[i := v]) = concat (take i tab) @ v @ concat (drop (Suc i) tab)"
    and "concat tab = concat (take i tab) @ tab ! i @ concat (drop (Suc i) tab)"
proof -
  show "concat (tab[i := v]) = concat (take i tab) @ v @ concat (drop (Suc i) tab)"
    using assms by (simp add: upd_conv_take_nth_drop)
  have "tab = take i tab @ tab ! i # drop (Suc i) tab"
    using assms by (simp add: id_take_nth_drop)
  then show "concat tab = concat (take i tab) @ tab ! i @ concat (drop (Suc i) tab)"
    by (metis concat.simps(2) concat_append)
qed

lemma mset_concat_insert:
  "i < length tab \<Longrightarrow> mset (concat (tab[i := x # tab ! i])) = add_mset x (mset (concat tab))"
  using concat_update_split [of i tab] by simp

lemma mset_concat_remove1:
  assumes "i < length tab" and "x \<in> set (tab ! i)"
  shows "mset (concat (tab[i := remove1 x (tab ! i)])) = mset (concat tab) - {#x#}"
  using assms concat_update_split [of i tab] by simp

lemma in_concat_nth: "x \<in> set (concat tab) \<longleftrightarrow> (\<exists>i<length tab. x \<in> set (tab ! i))"
  by (metis UN_iff in_set_conv_nth set_concat)

lemma mset_concat_rev: "mset (concat (rev xss)) = mset (concat xss)"
  by (induction xss) simp_all

lemma set_eq_of_mset: "mset xs = mset ys \<Longrightarrow> set xs = set ys"
  by (metis set_mset_mset)

lemma sint_small:
  assumes "unat (sz :: u32) < 2 ^ 31"
  shows "sint sz = int (unat sz)"
proof -
  have "int (unat sz) < int (2 ^ 31)" using assms by (simp only: of_nat_less_iff)
  then have "signed_take_bit 31 (int (unat sz)) = int (unat sz)"
    by (simp add: signed_take_bit_int_eq_self_iff del: of_nat_unat)
  then show ?thesis by (simp add: sint_uint)
qed

subsection \<open>Decimal numbers\<close>

fun dec_digits :: "nat \<Rightarrow> nat list" where
  "dec_digits n = (if n < 10 then [n] else dec_digits (n div 10) @ [n mod 10])"

declare dec_digits.simps [simp del]

definition digits_val :: "nat list \<Rightarrow> nat" where
  "digits_val ds = foldl (\<lambda>v d. 10 * v + d) 0 ds"

lemma digits_val_snoc [simp]: "digits_val (ds @ [d]) = 10 * digits_val ds + d" "digits_val [] = 0"
  by (simp_all add: digits_val_def)

lemma digits_val_dec [simp]: "digits_val (dec_digits n) = n"
  by (induction n rule: dec_digits.induct) (subst dec_digits.simps, auto simp: digits_val_def)

lemma dec_digits_lt: "d \<in> set (dec_digits n) \<Longrightarrow> d < 10"
  by (induction n rule: dec_digits.induct) (subst (asm) (2) dec_digits.simps, auto split: if_splits)

lemma dec_digits_length: "n < 10 ^ Suc k \<Longrightarrow> length (dec_digits n) \<le> Suc k"
proof (induction k arbitrary: n)
  case (Suc k)
  then have "n div 10 < 10 ^ Suc k" by auto
  then show ?case using Suc.IH [of "n div 10"] by (subst dec_digits.simps) auto
qed (subst dec_digits.simps, simp)

lemma dec_digits_nonempty [simp]: "dec_digits n \<noteq> []"
  by (subst dec_digits.simps) simp

lemma digits_val_Cons: "digits_val (d # ds) = d * 10 ^ length ds + digits_val ds"
proof (induction ds rule: rev_induct)
  case (snoc x ds)
  then show ?case using digits_val_snoc(1) [of "d # ds" x] by simp
qed (simp add: digits_val_def)

lemma digits_val_lt: "\<forall>x\<in>set ds. x < 10 \<Longrightarrow> digits_val ds < 10 ^ length ds"
  by (induction ds rule: rev_induct) auto

lemma digits_val_zeros: "digits_val (replicate k 0 @ ds) = digits_val ds"
  by (induction k) (simp_all add: digits_val_Cons)

lemma dec_digits_Cons:
  assumes "10 ^ k \<le> n" and "n < 10 ^ Suc k"
  obtains d ds where "dec_digits n = d # ds" "length ds = k" "\<forall>x\<in>set ds. x < 10" "d < 10"
    "n = d * 10 ^ k + digits_val ds" "digits_val ds < 10 ^ k"
proof -
  have lt: "\<forall>x\<in>set (dec_digits n). x < 10" using dec_digits_lt by blast
  then have "n < 10 ^ length (dec_digits n)" using digits_val_lt [OF lt] by (metis digits_val_dec)
  then have "(10::nat) ^ k < 10 ^ length (dec_digits n)" using assms(1) by (rule le_less_trans [rotated])
  then have "k < length (dec_digits n)" by (rule power_less_imp_less_exp [rotated]) simp
  then have "length (dec_digits n) = Suc k" using dec_digits_length [OF assms(2)] by simp
  then obtain d ds where d: "dec_digits n = d # ds" "length ds = k" by (auto simp: length_Suc_conv)
  moreover from this have "n = d * 10 ^ k + digits_val ds" by (metis digits_val_Cons digits_val_dec)
  moreover have "digits_val ds < 10 ^ k" using digits_val_lt [of ds] lt d by simp
  ultimately show ?thesis using that lt by simp
qed

text \<open>A number as characters, right justified in a field and padded with spaces.\<close>

definition digit_char :: "nat \<Rightarrow> u8" where
  "digit_char d = 48 + word_of_nat d"

definition num_field :: "nat \<Rightarrow> nat \<Rightarrow> u8 list" where
  "num_field w n = replicate (w - length (dec_digits n)) 32 @ map digit_char (dec_digits n)"

lemma num_field_length: "length (dec_digits n) \<le> w \<Longrightarrow> length (num_field w n) = w"
  by (simp add: num_field_def)

lemma digit_char_nat: "d < 10 \<Longrightarrow> unat (digit_char d) = 48 + d"
  by (simp add: digit_char_def unat_word_ariths unat_of_nat)

lemma digit_char_space: "d < 10 \<Longrightarrow> digit_char d \<noteq> 32"
  using digit_char_nat [of d] by auto

lemma digit_char_diff:
  assumes "d < 10" and "LENGTH('a) \<ge> 8"
  shows "(ucast (digit_char d) :: 'a::len word) - 48 = word_of_nat d"
proof -
  have "(ucast (digit_char d) :: 'a word) = word_of_nat (unat (digit_char d))" by simp
  then show ?thesis using digit_char_nat [OF assms(1)] by simp
qed

end
