(* ===== verification/Mpool.thy ===== *)
theory Mpool
  imports Prelude
begin

section \<open>Memory pools (\<^verbatim>\<open>common/fh_mpool.c\<close>)\<close>

text \<open>
  A pool owns blocks of \<^verbatim>\<open>mp_nchunks\<close> chunks each; a chunk is a link word followed by the
  payload the client gets.  The two singly linked lists (\<^verbatim>\<open>mp_mblocks\<close>, \<^verbatim>\<open>mp_mchunks\<close>) run
  through words only this file touches and are lists of addresses here; the payloads are
  \<open>mp_data\<close>, indexed by payload address, so that \<^verbatim>\<open>memset\<close> and reuse of a chunk are visible
  to clients.  The results of \<^verbatim>\<open>malloc\<close> and \<^verbatim>\<open>strdup\<close> are arguments.  The mutex is the
  balance of its \<^verbatim>\<open>lock\<close> and \<^verbatim>\<open>unlock\<close> calls.
\<close>

record 'a fh_mpool =
  mp_name :: string
  mp_mblocks :: "addr list"
  mp_mchunks :: "addr list"
  mp_chunksize :: u32
  mp_nchunks :: u32
  mp_nblocks :: u32
  mp_flags :: u32
  mp_free :: u32
  mp_inuse :: u32
  mp_lock :: int
  mp_data :: "addr \<Rightarrow> 'a"

definition FH_MPOOL_FL_GROW :: u32 where "FH_MPOOL_FL_GROW = 1"
definition FH_MPOOL_FL_LOCK :: u32 where "FH_MPOOL_FL_LOCK = 2"
definition FH_MPOOL_FL_CLEAR :: u32 where "FH_MPOOL_FL_CLEAR = 4"

definition mp_flag :: "'a fh_mpool \<Rightarrow> u32 \<Rightarrow> bool" where
  "mp_flag mp fl \<longleftrightarrow> mp_flags mp AND fl \<noteq> 0"

definition mp_lock_acquire :: "'a fh_mpool \<Rightarrow> 'a fh_mpool" where
  "mp_lock_acquire mp = (if mp_flag mp FH_MPOOL_FL_LOCK then mp\<lparr>mp_lock := mp_lock mp + 1\<rparr> else mp)"

definition mp_lock_release :: "'a fh_mpool \<Rightarrow> 'a fh_mpool" where
  "mp_lock_release mp = (if mp_flag mp FH_MPOOL_FL_LOCK then mp\<lparr>mp_lock := mp_lock mp - 1\<rparr> else mp)"

text \<open>
  Both header structs are one pointer (8 bytes).  The sizes are computed in \<^verbatim>\<open>size_t\<close> and
  stored in an \<^verbatim>\<open>int\<close>, and the products are 32 bits wide, so every step is modulo \<open>2^32\<close>.
\<close>

definition mp_chunk_size :: "'a fh_mpool \<Rightarrow> u32" where
  "mp_chunk_size mp = 8 + mp_chunksize mp"

definition mp_block_size :: "'a fh_mpool \<Rightarrow> u32" where
  "mp_block_size mp = 8 + mp_nchunks mp * mp_chunk_size mp"

definition fh_mpool_memuse :: "'a fh_mpool \<Rightarrow> u32" where
  "fh_mpool_memuse mp = mp_nblocks mp * mp_block_size mp"

text \<open>The address of chunk \<open>i\<close> of the block at \<open>arena\<close>, past the block header.\<close>

definition mp_chunk_at :: "'a fh_mpool \<Rightarrow> addr \<Rightarrow> nat \<Rightarrow> addr" where
  "mp_chunk_at mp arena i = arena + 8 + ucast (of_nat i * mp_chunk_size mp)"

definition mpool_grow :: "'a \<Rightarrow> ptr \<Rightarrow> 'a fh_mpool \<Rightarrow> fh_status \<times> 'a fh_mpool" where
  "mpool_grow zero arena mp =
    (case arena of
       None \<Rightarrow> (FH_ERROR, mp)
     | Some a \<Rightarrow>
         let mp1 = mp\<lparr>mp_data := (\<lambda>e. if unat (e - a) < unat (mp_block_size mp) then zero
                                       else mp_data mp e),
                      mp_mblocks := a # mp_mblocks mp,
                      mp_nblocks := mp_nblocks mp + 1\<rparr>
         in (FH_OK,
             fold (\<lambda>i m. m\<lparr>mp_mchunks := mp_chunk_at m a i # mp_mchunks m,
                            mp_free := mp_free m + 1\<rparr>)
                  [0..<unat (mp_nchunks mp)] mp1))"

definition fh_mpool_new ::
  "'a \<Rightarrow> bool \<Rightarrow> bool \<Rightarrow> ptr \<Rightarrow> string \<Rightarrow> u32 \<Rightarrow> u32 \<Rightarrow> u32 \<Rightarrow> 'a fh_mpool option" where
  "fh_mpool_new zero malloc_ok strdup_ok arena name chunk_size nchunks flags =
    (if \<not> malloc_ok then None
     else if \<not> strdup_ok then None
     else
       let mp = \<lparr>mp_name = name, mp_mblocks = [], mp_mchunks = [],
                 mp_chunksize = chunk_size, mp_nchunks = nchunks, mp_nblocks = 0,
                 mp_flags = flags, mp_free = 0, mp_inuse = 0, mp_lock = 0,
                 mp_data = (\<lambda>_. zero)\<rparr>
       in case mpool_grow zero arena mp of
            (st, mp1) \<Rightarrow> if st \<noteq> FH_OK then None else Some mp1)"

text \<open>Freeing a pool releases its blocks, newest first.\<close>

fun mp_free_blocks :: "addr list \<Rightarrow> addr list \<Rightarrow> addr list" where
  "mp_free_blocks [] freed = freed"
| "mp_free_blocks (mb # rest) freed = mp_free_blocks rest (freed @ [mb])"

definition fh_mpool_free :: "'a fh_mpool \<Rightarrow> addr list \<times> int" where
  "fh_mpool_free mp =
    (let mp1 = mp_lock_acquire mp;
         freed = mp_free_blocks (mp_mblocks mp1) []
     in (freed, mp_lock (mp_lock_release mp1)))"

definition mpool_take :: "'a fh_mpool \<Rightarrow> ('a fh_mpool \<times> ptr) option" where
  "mpool_take mp =
    (case mp_mchunks mp of
       [] \<Rightarrow> None
     | mc # rest \<Rightarrow>
         let mp1 = mp\<lparr>mp_mchunks := rest, mp_inuse := mp_inuse mp + 1,
                      mp_free := mp_free mp - 1\<rparr>
         in Some (mp_lock_release (mp_lock_release mp1), Some (mc + 8)))"

definition fh_mpool_get :: "'a \<Rightarrow> ptr \<Rightarrow> 'a fh_mpool \<Rightarrow> ('a fh_mpool \<times> ptr) option" where
  "fh_mpool_get zero arena mp0 =
    (let mp = mp_lock_acquire mp0 in
     if mp_free mp = 0 then
       if \<not> mp_flag mp FH_MPOOL_FL_GROW then Some (mp_lock_release mp, None)
       else
         case mpool_grow zero arena mp of
           (st, mp1) \<Rightarrow> if st \<noteq> FH_OK then Some (mp_lock_release mp1, None)
                         else mpool_take mp1
     else mpool_take mp)"

definition fh_mpool_put :: "'a \<Rightarrow> 'a fh_mpool \<Rightarrow> addr \<Rightarrow> 'a fh_mpool" where
  "fh_mpool_put zero mp0 e =
    (let mp = mp_lock_acquire mp0;
         mp1 = (if mp_flag mp FH_MPOOL_FL_CLEAR then mp\<lparr>mp_data := (mp_data mp)(e := zero)\<rparr>
                else mp)
     in mp_lock_release
          (mp1\<lparr>mp_mchunks := (e - 8) # mp_mchunks mp1,
               mp_inuse := mp_inuse mp1 - 1,
               mp_free := mp_free mp1 + 1\<rparr>))"

text \<open>A client's write through a payload pointer.\<close>

definition mp_write :: "addr \<Rightarrow> 'a \<Rightarrow> 'a fh_mpool \<Rightarrow> 'a fh_mpool" where
  "mp_write e v mp = mp\<lparr>mp_data := (mp_data mp)(e := v)\<rparr>"

subsection \<open>The pool invariant\<close>

text \<open>
  \<open>mpool_ok mp U\<close>: the client holds exactly the payloads \<open>U\<close>; the free list has no repeats,
  none of its chunks is held, and the counters are exact.
\<close>

definition mpool_ok :: "'a fh_mpool \<Rightarrow> addr set \<Rightarrow> bool" where
  "mpool_ok mp U \<longleftrightarrow>
     finite U \<and> distinct (mp_mchunks mp) \<and>
     (\<forall>mc\<in>set (mp_mchunks mp). mc + 8 \<notin> U) \<and>
     unat (mp_free mp) = length (mp_mchunks mp) \<and>
     unat (mp_inuse mp) = card U \<and>
     length (mp_mchunks mp) + card U < 2 ^ 32"

text \<open>What a client needs of a block \<^verbatim>\<open>malloc\<close> returns: its chunks are new.\<close>

definition arena_fresh :: "'a fh_mpool \<Rightarrow> addr set \<Rightarrow> addr \<Rightarrow> bool" where
  "arena_fresh mp U a \<longleftrightarrow>
     (let cs = map (mp_chunk_at mp a) [0..<unat (mp_nchunks mp)] in
      distinct cs \<and>
      (\<forall>mc\<in>set cs. mc \<notin> set (mp_mchunks mp) \<and> mc + 8 \<notin> U) \<and>
      (\<forall>e\<in>U. \<not> unat (e - a) < unat (mp_block_size mp)) \<and>
      length cs + length (mp_mchunks mp) + card U < 2 ^ 32)"

definition arena_ok :: "'a fh_mpool \<Rightarrow> addr set \<Rightarrow> ptr \<Rightarrow> bool" where
  "arena_ok mp U arena \<longleftrightarrow>
     (mp_flag mp FH_MPOOL_FL_GROW \<longrightarrow>
        0 < mp_nchunks mp \<and> (case arena of None \<Rightarrow> True | Some a \<Rightarrow> arena_fresh mp U a))"

lemmas mp_defs [pool_simps] =
  mp_lock_acquire_def mp_lock_release_def mpool_take_def fh_mpool_get_def
  fh_mpool_put_def mp_write_def Let_def

subsection \<open>Growing\<close>

lemma mp_chunk_at_cong [simp]:
  "mp_chunk_at (mp\<lparr>mp_mchunks := cs\<rparr>) = mp_chunk_at mp"
  "mp_chunk_at (mp\<lparr>mp_free := n\<rparr>) = mp_chunk_at mp"
  "mp_chunk_at (mp\<lparr>mp_data := d\<rparr>) = mp_chunk_at mp"
  "mp_chunk_at (mp\<lparr>mp_nblocks := b\<rparr>) = mp_chunk_at mp"
  "mp_chunk_at (mp\<lparr>mp_mblocks := bs\<rparr>) = mp_chunk_at mp"
  "mp_chunk_at (mp\<lparr>mp_lock := l\<rparr>) = mp_chunk_at mp"
  by (simp_all add: fun_eq_iff mp_chunk_at_def mp_chunk_size_def)

lemma mpool_link_eq:
  "fold (\<lambda>i m. m\<lparr>mp_mchunks := mp_chunk_at m a i # mp_mchunks m, mp_free := mp_free m + 1\<rparr>)
        [0..<n] mp =
   mp\<lparr>mp_mchunks := rev (map (mp_chunk_at mp a) [0..<n]) @ mp_mchunks mp,
      mp_free := mp_free mp + of_nat n\<rparr>"
  by (induction n) (simp_all add: add.assoc add.commute [of 1])

lemma mpool_grow_None [simp]: "mpool_grow zero None mp = (FH_ERROR, mp)"
  by (simp add: mpool_grow_def)

lemma mpool_grow_Some:
  "mpool_grow zero (Some a) mp =
     (FH_OK, mp\<lparr>mp_data := (\<lambda>e. if unat (e - a) < unat (mp_block_size mp) then zero
                                   else mp_data mp e),
                mp_mblocks := a # mp_mblocks mp,
                mp_nblocks := mp_nblocks mp + 1,
                mp_mchunks := rev (map (mp_chunk_at mp a) [0..<unat (mp_nchunks mp)]) @ mp_mchunks mp,
                mp_free := mp_free mp + mp_nchunks mp\<rparr>)"
  by (simp add: mpool_grow_def mpool_link_eq Let_def)

lemma unat_add_small:
  "unat (a::u32) + unat b < 2 ^ 32 \<Longrightarrow> unat (a + b) = unat a + unat b"
  using unat_add_lem [of a b] by simp

lemma mpool_grow_ok:
  assumes "mpool_ok mp U" and "arena_fresh mp U a"
  shows "mpool_ok (snd (mpool_grow zero (Some a) mp)) U"
    and "\<forall>e\<in>U. mp_data (snd (mpool_grow zero (Some a) mp)) e = mp_data mp e"
proof -
  have "unat (mp_free mp) + unat (mp_nchunks mp) < 2 ^ 32"
    using assms by (auto simp: mpool_ok_def arena_fresh_def Let_def)
  then show "mpool_ok (snd (mpool_grow zero (Some a) mp)) U"
    using assms
    by (auto simp: mpool_grow_Some mpool_ok_def arena_fresh_def Let_def unat_add_small
        distinct_map)
  show "\<forall>e\<in>U. mp_data (snd (mpool_grow zero (Some a) mp)) e = mp_data mp e"
    using assms by (auto simp: mpool_grow_Some arena_fresh_def Let_def)
qed

subsection \<open>Taking and returning chunks\<close>

lemma mp_lock_data [simp]:
  "mp_data (mp_lock_acquire mp) = mp_data mp" "mp_data (mp_lock_release mp) = mp_data mp"
  "mp_mchunks (mp_lock_acquire mp) = mp_mchunks mp" "mp_mchunks (mp_lock_release mp) = mp_mchunks mp"
  "mp_free (mp_lock_acquire mp) = mp_free mp" "mp_free (mp_lock_release mp) = mp_free mp"
  "mp_inuse (mp_lock_acquire mp) = mp_inuse mp" "mp_inuse (mp_lock_release mp) = mp_inuse mp"
  "mp_nchunks (mp_lock_acquire mp) = mp_nchunks mp" "mp_nchunks (mp_lock_release mp) = mp_nchunks mp"
  "mp_flags (mp_lock_acquire mp) = mp_flags mp" "mp_flags (mp_lock_release mp) = mp_flags mp"
  "mp_chunksize (mp_lock_acquire mp) = mp_chunksize mp"
  "mp_chunksize (mp_lock_release mp) = mp_chunksize mp"
  "mp_flag (mp_lock_acquire mp) fl = mp_flag mp fl" "mp_flag (mp_lock_release mp) fl = mp_flag mp fl"
  "mp_chunk_at (mp_lock_acquire mp) = mp_chunk_at mp"
  "mp_block_size (mp_lock_acquire mp) = mp_block_size mp"
  by (simp_all add: mp_lock_acquire_def mp_lock_release_def mp_flag_def mp_block_size_def
      mp_chunk_size_def)

lemma mpool_ok_lock [simp]:
  "mpool_ok (mp_lock_acquire mp) U = mpool_ok mp U"
  "mpool_ok (mp_lock_release mp) U = mpool_ok mp U"
  by (simp_all add: mpool_ok_def)

lemma arena_fresh_lock [simp]: "arena_fresh (mp_lock_acquire mp) U a = arena_fresh mp U a"
  by (simp add: arena_fresh_def Let_def)

lemma mpool_take_ok:
  assumes "mpool_ok mp U" and "mp_mchunks mp \<noteq> []"
  obtains mp' e where "mpool_take mp = Some (mp', Some e)" "e \<notin> U" "mpool_ok mp' (insert e U)"
    "mp_data mp' = mp_data mp" "e = hd (mp_mchunks mp) + 8" "mp_flags mp' = mp_flags mp"
    "mp_mchunks mp' = tl (mp_mchunks mp)" "mp_nchunks mp' = mp_nchunks mp"
proof -
  obtain mc rest where cs: "mp_mchunks mp = mc # rest"
    using assms(2) by (cases "mp_mchunks mp") auto
  let ?mp' = "mp_lock_release (mp_lock_release
    (mp\<lparr>mp_mchunks := rest, mp_inuse := mp_inuse mp + 1, mp_free := mp_free mp - 1\<rparr>))"
  have e: "mc + 8 \<notin> U"
    using assms cs by (auto simp: mpool_ok_def)
  have free: "unat (mp_free mp - 1) = length rest"
    using assms cs by (subst unat_dec) (auto simp: mpool_ok_def)
  have inuse: "unat (mp_inuse mp + 1) = Suc (card U)"
    using assms cs by (subst unat_inc) (auto simp: mpool_ok_def)
  have "mpool_ok ?mp' (insert (mc + 8) U)"
    using assms cs e free inuse by (auto simp: mpool_ok_def)
  with e cs show thesis
    by (intro that [of ?mp' "mc + 8"]) (simp_all add: mpool_take_def)
qed

lemma fh_mpool_get_ok:
  assumes "mpool_ok mp U" and "arena_ok mp U arena"
  shows "\<exists>mp' r. fh_mpool_get zero arena mp = Some (mp', r) \<and>
           (case r of None \<Rightarrow> mpool_ok mp' U | Some e \<Rightarrow> e \<notin> U \<and> mpool_ok mp' (insert e U)) \<and>
           (\<forall>x\<in>U. mp_data mp' x = mp_data mp x)"
proof (cases "mp_free mp = 0")
  case False
  then have "mp_mchunks (mp_lock_acquire mp) \<noteq> []"
    using assms(1) by (auto simp: mpool_ok_def unat_eq_zero)
  then obtain mp' e where "mpool_take (mp_lock_acquire mp) = Some (mp', Some e)" "e \<notin> U"
    "mpool_ok mp' (insert e U)" "mp_data mp' = mp_data mp"
    using assms(1) mpool_take_ok [of "mp_lock_acquire mp" U] by (metis mpool_ok_lock(1) mp_lock_data(1))
  with False show ?thesis
    by (auto simp: fh_mpool_get_def Let_def)
next
  case True
  note free0 = True
  show ?thesis
  proof (cases "mp_flag mp FH_MPOOL_FL_GROW \<and> arena \<noteq> None")
    case False
    with free0 assms(1) show ?thesis
      by (auto simp: fh_mpool_get_def Let_def)
  next
    case True
    then obtain a where a: "arena = Some a" by auto
    let ?g = "snd (mpool_grow zero (Some a) (mp_lock_acquire mp))"
    have fresh: "arena_fresh (mp_lock_acquire mp) U a" "0 < mp_nchunks mp"
      using assms(2) a True by (auto simp: arena_ok_def)
    have ok: "mpool_ok ?g U" "\<forall>e\<in>U. mp_data ?g e = mp_data mp e"
      using mpool_grow_ok [of "mp_lock_acquire mp" U a zero] assms(1) fresh by simp_all
    have "mp_mchunks ?g \<noteq> []"
      using fresh by (simp add: mpool_grow_Some word_gt_0 unat_eq_zero)
    then obtain mp' e where "mpool_take ?g = Some (mp', Some e)" "e \<notin> U"
      "mpool_ok mp' (insert e U)" "mp_data mp' = mp_data ?g"
      using mpool_take_ok [OF ok(1)] by metis
    moreover have "fst (mpool_grow zero (Some a) (mp_lock_acquire mp)) = FH_OK"
      by (simp add: mpool_grow_Some)
    ultimately show ?thesis
      using True free0 a ok(2)
      by (auto simp: fh_mpool_get_def Let_def split: prod.splits)
  qed
qed

lemma fh_mpool_put_ok:
  assumes "mpool_ok mp U" and "e \<in> U"
  shows "mpool_ok (fh_mpool_put zero mp e) (U - {e})"
    and "x \<noteq> e \<Longrightarrow> mp_data (fh_mpool_put zero mp e) x = mp_data mp x"
    and "mp_flag mp FH_MPOOL_FL_CLEAR \<or> mp_data (fh_mpool_put zero mp e) = mp_data mp"
proof -
  have fin: "finite U" using assms by (simp add: mpool_ok_def)
  have card: "0 < card U" "card (U - {e}) = card U - 1"
    using assms fin by (auto simp: card_gt_0_iff)
  have inuse: "unat (mp_inuse mp - 1) = card U - 1"
    using assms card by (subst unat_dec) (auto simp: mpool_ok_def)
  have free: "unat (mp_free mp + 1) = Suc (length (mp_mchunks mp))"
    using assms card by (subst unat_inc) (auto simp: mpool_ok_def)
  have new: "e - 8 \<notin> set (mp_mchunks mp)"
    using assms by (force simp: mpool_ok_def)
  show "mpool_ok (fh_mpool_put zero mp e) (U - {e})"
    using assms card inuse free new by (auto simp: mpool_ok_def fh_mpool_put_def Let_def)
  show "x \<noteq> e \<Longrightarrow> mp_data (fh_mpool_put zero mp e) x = mp_data mp x"
    and "mp_flag mp FH_MPOOL_FL_CLEAR \<or> mp_data (fh_mpool_put zero mp e) = mp_data mp"
    by (auto simp: fh_mpool_put_def Let_def)
qed

lemma mp_write_ok [simp]: "mpool_ok (mp_write e v mp) U = mpool_ok mp U"
  by (simp add: mp_write_def mpool_ok_def)

lemma mp_write_data [simp]: "mp_data (mp_write e v mp) = (mp_data mp)(e := v)"
  by (simp add: mp_write_def)

subsection \<open>Pools that do not grow\<close>

definition mp_total :: "'a fh_mpool \<Rightarrow> nat" where
  "mp_total mp = unat (mp_free mp) + unat (mp_inuse mp)"

definition mp_fixed :: "nat \<Rightarrow> 'a fh_mpool \<Rightarrow> bool" where
  "mp_fixed n mp \<longleftrightarrow> \<not> mp_flag mp FH_MPOOL_FL_GROW \<and> mp_total mp = n"

lemma mp_fixed_arena_ok: "mp_fixed n mp \<Longrightarrow> arena_ok mp U arena"
  by (simp add: mp_fixed_def arena_ok_def)

lemma mp_fixed_write [simp]: "mp_fixed n (mp_write e v mp) = mp_fixed n mp"
  by (simp add: mp_fixed_def mp_total_def mp_write_def mp_flag_def)

lemma mp_flag_write [simp]: "mp_flag (mp_write a v mp) fl = mp_flag mp fl"
  by (simp add: mp_write_def mp_flag_def)

lemma mp_fixed_lock [simp]:
  "mp_fixed n (mp_lock_acquire mp) = mp_fixed n mp" "mp_fixed n (mp_lock_release mp) = mp_fixed n mp"
  by (simp_all add: mp_fixed_def mp_total_def)

lemma fh_mpool_get_fixed:
  assumes ok: "mpool_ok mp U" and fixed: "mp_fixed n mp"
    and get: "fh_mpool_get zero arena mp = Some (mp', r)"
  shows "mp_fixed n mp'" and "r = None \<longleftrightarrow> card U = n" and "r = None \<Longrightarrow> mp_data mp' = mp_data mp"
proof -
  have tot: "unat (mp_free mp) + card U = n"
    using ok fixed by (simp add: mpool_ok_def mp_fixed_def mp_total_def)
  have "mp_fixed n mp' \<and> (r = None \<longleftrightarrow> card U = n) \<and> (r = None \<longrightarrow> mp_data mp' = mp_data mp)"
  proof (cases "mp_free mp = 0")
    case True
    then show ?thesis
      using get fixed tot by (auto simp: fh_mpool_get_def Let_def mp_fixed_def mp_total_def)
  next
    case False
    then obtain mp'' e where t: "mpool_take (mp_lock_acquire mp) = Some (mp'', Some e)"
      "e \<notin> U" "mpool_ok mp'' (insert e U)" "mp_flags mp'' = mp_flags mp"
      "mp_mchunks mp'' = tl (mp_mchunks mp)"
      using mpool_take_ok [of "mp_lock_acquire mp" U] ok
      by (metis mpool_ok_def mpool_ok_lock(1) mp_lock_data(3,11) list.size(3) unat_eq_zero)
    have "0 < unat (mp_free mp)" using False by (simp add: unat_gt_0)
    with ok have len: "length (mp_mchunks mp) = unat (mp_free mp)" "0 < unat (mp_free mp)" "finite U"
      unfolding mpool_ok_def by simp_all
    have "mp_total mp'' = n"
      using t tot len by (auto simp: mpool_ok_def mp_total_def)
    moreover have "card U \<noteq> n" using tot len by simp
    ultimately show ?thesis
      using get t fixed False by (auto simp: fh_mpool_get_def Let_def mp_fixed_def mp_flag_def)
  qed
  then show "mp_fixed n mp'" "r = None \<longleftrightarrow> card U = n" "r = None \<Longrightarrow> mp_data mp' = mp_data mp"
    by blast+
qed

lemma fh_mpool_put_fixed:
  assumes "mpool_ok mp U" and "e \<in> U" and "mp_fixed n mp"
  shows "mp_fixed n (fh_mpool_put zero mp e)"
proof -
  have "finite U" "0 < card U" using assms by (auto simp: mpool_ok_def card_gt_0_iff)
  then show ?thesis
    using assms fh_mpool_put_ok(1) [OF assms(1,2), of zero]
    by (auto simp: mpool_ok_def mp_fixed_def mp_total_def mp_flag_def fh_mpool_put_def Let_def
        split: if_splits)
qed

subsection \<open>Layout of a block\<close>

definition block_fits :: "'a fh_mpool \<Rightarrow> addr \<Rightarrow> bool" where
  "block_fits mp a \<longleftrightarrow>
     8 + unat (mp_nchunks mp) * (8 + unat (mp_chunksize mp)) < 2 ^ 32 \<and>
     unat a + (8 + unat (mp_nchunks mp) * (8 + unat (mp_chunksize mp))) < 2 ^ 64"

lemma mp_sizes_unat:
  assumes "block_fits mp a" and "0 < unat (mp_nchunks mp)"
  shows "unat (mp_chunk_size mp) = 8 + unat (mp_chunksize mp)"
    and "unat (mp_block_size mp) = 8 + unat (mp_nchunks mp) * (8 + unat (mp_chunksize mp))"
proof -
  let ?n = "unat (mp_nchunks mp)" and ?c = "8 + unat (mp_chunksize mp)"
  have "?c \<le> ?n * ?c" using assms(2) by (cases ?n) auto
  then have c: "?c < 2 ^ 32" using assms(1) unfolding block_fits_def by linarith
  then show cs: "unat (mp_chunk_size mp) = ?c"
    by (simp add: mp_chunk_size_def unat_word_ariths)
  have "?n * ?c < 2 ^ 32" using assms(1) by (simp add: block_fits_def)
  then show "unat (mp_block_size mp) = 8 + ?n * ?c"
    using assms(1) cs by (simp add: mp_block_size_def unat_word_ariths block_fits_def)
qed

lemma mp_chunk_at_unat:
  assumes fits: "block_fits mp a" and i: "i < unat (mp_nchunks mp)"
  shows "unat (mp_chunk_at mp a i) = unat a + 8 + i * (8 + unat (mp_chunksize mp))"
proof -
  let ?n = "unat (mp_nchunks mp)" and ?c = "8 + unat (mp_chunksize mp)"
  have "i * ?c \<le> ?n * ?c" using i by (intro mult_right_mono) auto
  then have lt: "i * ?c < 2 ^ 32" "unat a + 8 + i * ?c < 2 ^ 64"
    using fits unfolding block_fits_def by linarith+
  have "i < 2 ^ 32" using i unat_lt [of "mp_nchunks mp"] by simp
  then have "unat (of_nat i * mp_chunk_size mp :: u32) = i * ?c"
    using lt(1) mp_sizes_unat(1) [OF fits] i
    by (simp add: unat_word_ariths unat_of_nat)
  then have "unat (ucast (of_nat i * mp_chunk_size mp :: u32) :: addr) = i * ?c"
    by (simp add: unat_ucast_up)
  then show ?thesis
    using lt(2) by (simp add: mp_chunk_at_def unat_word_ariths)
qed

lemma block_fits_distinct:
  assumes "block_fits mp a"
  shows "distinct (map (mp_chunk_at mp a) [0..<unat (mp_nchunks mp)])"
proof -
  have "inj_on (mp_chunk_at mp a) {0..<unat (mp_nchunks mp)}"
  proof (rule inj_onI)
    fix i j
    assume i: "i \<in> {0..<unat (mp_nchunks mp)}" and j: "j \<in> {0..<unat (mp_nchunks mp)}"
      and eq: "mp_chunk_at mp a i = mp_chunk_at mp a j"
    have "unat a + 8 + i * (8 + unat (mp_chunksize mp)) = unat (mp_chunk_at mp a i)"
      by (rule mp_chunk_at_unat [OF assms, symmetric]) (use i in simp)
    also have "\<dots> = unat a + 8 + j * (8 + unat (mp_chunksize mp))"
      unfolding eq by (rule mp_chunk_at_unat [OF assms]) (use j in simp)
    finally have "i * (8 + unat (mp_chunksize mp)) = j * (8 + unat (mp_chunksize mp))"
      by (rule add_left_imp_eq)
    then show "i = j" by (simp only: mult_cancel2) simp
  qed
  then show ?thesis by (simp add: distinct_map)
qed

lemma fh_mpool_new_pool_ok:
  assumes new: "fh_mpool_new zero m s (Some a) name cs n fl = Some mp"
    and fits: "block_fits mp a"
  shows "mpool_ok mp {}" and "mp_free mp = n" and "mp_nchunks mp = n" and "mp_flags mp = fl"
proof -
  have mp: "mp_nchunks mp = n" "mp_chunksize mp = cs" "mp_inuse mp = 0" "mp_free mp = n"
    "mp_flags mp = fl" "mp_mchunks mp = rev (map (mp_chunk_at mp a) [0..<unat n])"
    using new
    by (auto simp: fh_mpool_new_def Let_def mpool_grow_Some mp_chunk_at_def mp_chunk_size_def
        split: if_splits)
  then show "mpool_ok mp {}" "mp_free mp = n" "mp_nchunks mp = n" "mp_flags mp = fl"
    using block_fits_distinct [OF fits] unat_lt [of n] by (auto simp: mpool_ok_def distinct_map)
qed

subsection \<open>The interface clients rely on\<close>

locale chunk_pool =
  fixes get :: "'m \<Rightarrow> 'p \<Rightarrow> ('p \<times> ptr) option"
    and put :: "'p \<Rightarrow> addr \<Rightarrow> 'p"
    and wr :: "addr \<Rightarrow> 'a \<Rightarrow> 'p \<Rightarrow> 'p"
    and rd :: "'p \<Rightarrow> addr \<Rightarrow> 'a"
    and inv :: "'p \<Rightarrow> addr set \<Rightarrow> bool"
    and fits :: "'p \<Rightarrow> addr set \<Rightarrow> 'm \<Rightarrow> bool"
  assumes get_spec: "inv p U \<Longrightarrow> fits p U m \<Longrightarrow>
      \<exists>p' r. get m p = Some (p', r) \<and>
        (case r of None \<Rightarrow> inv p' U | Some e \<Rightarrow> e \<notin> U \<and> inv p' (insert e U)) \<and>
        (\<forall>x\<in>U. rd p' x = rd p x)"
    and put_inv: "inv p U \<Longrightarrow> e \<in> U \<Longrightarrow> inv (put p e) (U - {e})"
    and put_frame: "inv p U \<Longrightarrow> e \<in> U \<Longrightarrow> x \<noteq> e \<Longrightarrow> rd (put p e) x = rd p x"
    and wr_inv: "inv p U \<Longrightarrow> inv (wr e v p) U"
    and wr_rd: "rd (wr e v p) x = (if x = e then v else rd p x)"
begin

text \<open>
  What the client believes the pool holds: a map from the payloads it owns to their contents.
  Every operation keeps the belief true.
\<close>

definition agrees :: "'p \<Rightarrow> (addr \<rightharpoonup> 'a) \<Rightarrow> bool" where
  "agrees p S \<longleftrightarrow> inv p (dom S) \<and> (\<forall>e v. S e = Some v \<longrightarrow> rd p e = v)"

lemma get_returns:
  assumes "agrees p S" and "fits p (dom S) m"
  shows "\<exists>p' r. get m p = Some (p', r)"
  using get_spec [of p "dom S" m] assms by (auto simp: agrees_def)

lemma get_agrees_Some:
  assumes "agrees p S" and "fits p (dom S) m" and "get m p = Some (p', Some e)"
  shows "S e = None" and "agrees p' (S(e \<mapsto> rd p' e))"
proof -
  have "e \<notin> dom S" "inv p' (insert e (dom S))" "\<forall>x\<in>dom S. rd p' x = rd p x"
    using get_spec [of p "dom S" m] assms by (auto simp: agrees_def)
  then show "S e = None" "agrees p' (S(e \<mapsto> rd p' e))"
    using assms(1) by (auto simp: agrees_def)
qed

lemma get_agrees_None:
  assumes "agrees p S" and "fits p (dom S) m" and "get m p = Some (p', None)"
  shows "agrees p' S"
  using get_spec [of p "dom S" m] assms by (force simp: agrees_def)

lemma put_agrees:
  assumes "agrees p S" and "S e \<noteq> None"
  shows "agrees (put p e) (S(e := None))"
proof -
  have "e \<in> dom S" using assms(2) by auto
  then show ?thesis
    using assms(1) put_inv [of p "dom S" e] put_frame [of p "dom S" e]
    by (auto simp: agrees_def)
qed

lemma wr_agrees:
  assumes "agrees p S" and "S e \<noteq> None"
  shows "agrees (wr e v p) (S(e \<mapsto> v))"
proof -
  have "insert e (dom S) = dom S" using assms(2) by auto
  then show ?thesis
    using assms(1) wr_inv [of p "dom S" e v] by (auto simp: agrees_def wr_rd)
qed

end

interpretation mp: chunk_pool "fh_mpool_get zero" "fh_mpool_put zero" mp_write mp_data mpool_ok arena_ok
  for zero :: 'a
  by unfold_locales (use fh_mpool_get_ok fh_mpool_put_ok in \<open>auto simp: fun_upd_def\<close>)

subsection \<open>Runs of a client\<close>

text \<open>
  A client that returns and writes only chunks it holds, starting from a pool in any consistent
  state; \<open>S\<close> records what it has written where.
\<close>

inductive mpool_steps :: "'a \<Rightarrow> 'a fh_mpool \<times> (addr \<rightharpoonup> 'a) \<Rightarrow> 'a fh_mpool \<times> (addr \<rightharpoonup> 'a) \<Rightarrow> bool"
  for zero where
  stop: "mpool_steps zero s s"
| get: "mpool_steps zero s (mp, S) \<Longrightarrow> arena_ok mp (dom S) arena \<Longrightarrow>
    fh_mpool_get zero arena mp = Some (mp', Some e) \<Longrightarrow>
    mpool_steps zero s (mp', S(e \<mapsto> mp_data mp' e))"
| get_null: "mpool_steps zero s (mp, S) \<Longrightarrow> arena_ok mp (dom S) arena \<Longrightarrow>
    fh_mpool_get zero arena mp = Some (mp', None) \<Longrightarrow> mpool_steps zero s (mp', S)"
| put: "mpool_steps zero s (mp, S) \<Longrightarrow> S e = Some v \<Longrightarrow>
    mpool_steps zero s (fh_mpool_put zero mp e, S(e := None))"
| wr: "mpool_steps zero s (mp, S) \<Longrightarrow> S e = Some v \<Longrightarrow>
    mpool_steps zero s (mp_write e w mp, S(e \<mapsto> w))"

lemma mpool_steps_agrees:
  assumes "mpool_steps zero s t" and "mp.agrees (fst s) (snd s)"
  shows "mp.agrees (fst t) (snd t)"
  using assms
proof (induction rule: mpool_steps.induct)
  case (get s mp S arena mp' e)
  then show ?case
    unfolding fst_conv snd_conv by (blast intro: mp.get_agrees_Some(2))
next
  case (get_null s mp S arena mp')
  then show ?case
    using mp.get_agrees_None [of mp S arena zero mp'] by simp
qed (auto intro: mp.put_agrees mp.wr_agrees)

subsection \<open>Properties\<close>

text \<open>
  C35.  Allocator safety: whatever sequence of gets, puts and writes a client makes, holding only
  what it was given, the pool stays consistent, every chunk the client holds reads back what
  the client last wrote there, a further get does not fault, and the chunk it returns is
  none of those the client holds.
\<close>

theorem mpool_no_aliasing:
  assumes "mpool_ok mp0 {}"
    and "mpool_steps zero (mp0, Map.empty) (mp, S)"
    and "arena_ok mp (dom S) arena"
  shows "(\<forall>e v. S e = Some v \<longrightarrow> mp_data mp e = v) \<and> mpool_ok mp (dom S) \<and>
         (\<exists>mp' r. fh_mpool_get zero arena mp = Some (mp', r) \<and> (\<forall>e. r = Some e \<longrightarrow> S e = None))"
proof -
  have "mp.agrees mp0 Map.empty"
    using assms(1) by (simp add: mp.agrees_def)
  then have ag: "mp.agrees mp S"
    using mpool_steps_agrees [OF assms(2)] by simp
  then have 1: "(\<forall>e v. S e = Some v \<longrightarrow> mp_data mp e = v)" "mpool_ok mp (dom S)"
    by (simp_all add: mp.agrees_def)
  obtain mp' r where "fh_mpool_get zero arena mp = Some (mp', r)"
    using mp.get_returns [OF ag assms(3)] by blast
  then show ?thesis
    using 1 mp.get_agrees_Some(1) [OF ag assms(3)] by blast
qed

text \<open>
  Layout: for a block that does not wrap around, the payloads of its chunks lie inside the
  block and are disjoint, in order of index.
\<close>

lemma mpool_block_layout:
  assumes "block_fits mp a" and "i < j" and "j < unat (mp_nchunks mp)"
  shows "unat a + 8 \<le> unat (mp_chunk_at mp a i) \<and>
         unat (mp_chunk_at mp a i) + 8 + unat (mp_chunksize mp) \<le> unat (mp_chunk_at mp a j) \<and>
         unat (mp_chunk_at mp a j) + 8 + unat (mp_chunksize mp) \<le> unat a + unat (mp_block_size mp)"
proof -
  let ?c = "8 + unat (mp_chunksize mp)"
  have "Suc i * ?c \<le> j * ?c" "Suc j * ?c \<le> unat (mp_nchunks mp) * ?c"
    using assms(2,3) by (intro mult_right_mono; simp)+
  then show ?thesis
    using mp_chunk_at_unat [OF assms(1), of i] mp_chunk_at_unat [OF assms(1), of j]
      mp_sizes_unat(2) [OF assms(1)] assms(2,3) by simp
qed

text \<open>
  The mutex of a lock-protected pool: a successful get unlocks it once more than it locks it
  (the success path falls through to the \<^verbatim>\<open>end\<close> label, which unlocks again), while a failed
  get and a put are balanced.
\<close>

lemma mpool_get_lock_balance:
  assumes "mp_flag mp FH_MPOOL_FL_LOCK" and "fh_mpool_get zero arena mp = Some (mp', r)"
  shows "mp_lock mp' = (if r = None then mp_lock mp else mp_lock mp - 1) \<and>
         mp_lock (fh_mpool_put zero mp e) = mp_lock mp"
proof (rule conjI)
  have grow: "mp_lock (snd (mpool_grow zero arena m)) = mp_lock m \<and>
    mp_flags (snd (mpool_grow zero arena m)) = mp_flags m" for m :: "'a fh_mpool"
    by (cases arena) (simp_all add: mpool_grow_Some)
  show "mp_lock mp' = (if r = None then mp_lock mp else mp_lock mp - 1)"
    using assms grow [of "mp\<lparr>mp_lock := mp_lock mp + 1\<rparr>"]
    by (auto simp: pool_simps mp_flag_def split: if_splits list.splits prod.splits)
  show "mp_lock (fh_mpool_put zero mp e) = mp_lock mp"
    using assms(1) by (simp add: pool_simps mp_flag_def)
qed

subsection \<open>Witnesses\<close>

definition ex_pool :: "nat fh_mpool" where
  "ex_pool = the (fh_mpool_new 0 True True (Some 4096) ''ex'' 16 2 FH_MPOOL_FL_LOCK)"

lemma ex_pool_eq:
  "ex_pool = \<lparr>mp_name = ''ex'', mp_mblocks = [4096], mp_mchunks = [4128, 4104],
     mp_chunksize = 16, mp_nchunks = 2, mp_nblocks = 1, mp_flags = 2, mp_free = 2,
     mp_inuse = 0, mp_lock = 0, mp_data = (\<lambda>_. 0)\<rparr>"
  by (simp add: ex_pool_def fh_mpool_new_def mpool_grow_Some FH_MPOOL_FL_LOCK_def mp_chunk_at_def
      mp_chunk_size_def upt_rec Let_def fun_eq_iff)

lemma ex_pool_get:
  "fh_mpool_get 0 None ex_pool =
     Some (ex_pool\<lparr>mp_mchunks := [4104], mp_inuse := 1, mp_free := 1, mp_lock := -1\<rparr>, Some 4136)"
  by (simp add: pool_simps ex_pool_eq mp_flag_def FH_MPOOL_FL_LOCK_def)

definition ex_pool_written :: "nat fh_mpool" where
  "ex_pool_written = mp_write 4136 7 (fst (the (fh_mpool_get 0 None ex_pool)))"

lemma ex_pool_written_eq:
  "ex_pool_written = ex_pool\<lparr>mp_mchunks := [4104], mp_inuse := 1, mp_free := 1, mp_lock := -1,
                              mp_data := (\<lambda>_. 0)(4136 := 7)\<rparr>"
  unfolding ex_pool_written_def ex_pool_get by (simp add: mp_write_def ex_pool_eq)

theorem mpool_no_aliasing_witness:
  "mp_data ex_pool_written 4136 = 7 \<and>
   (\<exists>mp' r. fh_mpool_get 0 None ex_pool_written = Some (mp', r) \<and> (\<forall>e. r = Some e \<longrightarrow> e \<noteq> 4136))"
proof -
  let ?S = "[4136 \<mapsto> (7 :: nat)]"
  have ok: "mpool_ok ex_pool {}"
    and fits: "\<And>U. arena_ok ex_pool U None" "\<And>U. arena_ok ex_pool_written U None"
    by (simp_all add: ex_pool_written_eq ex_pool_eq mpool_ok_def arena_ok_def mp_flag_def
        FH_MPOOL_FL_GROW_def)
  have "mpool_steps 0 (ex_pool, Map.empty)
    (fst (the (fh_mpool_get 0 None ex_pool)),
     Map.empty(4136 \<mapsto> mp_data (fst (the (fh_mpool_get 0 None ex_pool))) 4136))"
    by (rule mpool_steps.get [OF mpool_steps.stop fits(1)]) (simp add: ex_pool_get)
  then have "mpool_steps 0 (ex_pool, Map.empty) (ex_pool_written, ?S)"
    using mpool_steps.wr [of 0 "(ex_pool, Map.empty)" _ _ 4136 _ 7]
    by (force simp: ex_pool_written_def)
  from mpool_no_aliasing [OF ok this fits(2)] show ?thesis by force
qed

end
