(* ===== verification/GapFill.thy ===== *)
theory GapFill
  imports Mpool
begin

section \<open>Gap lists (\<^verbatim>\<open>feeds/shared/gap_mgmt\<close>)\<close>

text \<open>
  The list of the sequence-number gaps a line handler still hopes to fill.  A gap is a node of
  a doubly linked list; the nodes are payloads of a pool of \<^verbatim>\<open>max\<close> nodes, and every read and
  write of \<^verbatim>\<open>next\<close>, \<^verbatim>\<open>prev\<close> and the other fields goes through that pool, so the model keeps the
  aliasing of the C code: the reuse of the oldest node when the list is full, and the read of a
  node just returned to the pool in \<^verbatim>\<open>fh_shr_gap_fill_flush\<close>.  The back pointer \<^verbatim>\<open>list\<close> of a node is
  the list the operations take as an argument.  The clock (\<^verbatim>\<open>time(NULL)\<close>, in seconds) is the
  argument \<open>now\<close>.  \<open>None\<close> is a dereference of NULL.
\<close>

record gap_node =
  gn_seq_no :: u64
  gn_size :: u32
  gn_timestamp :: int
  gn_next :: ptr
  gn_prev :: ptr

record gap_list =
  gl_count :: u32
  gl_max :: u32
  gl_timeout :: u32
  gl_head :: ptr
  gl_tail :: ptr
  gl_data :: "gap_node fh_mpool option"

text \<open>Reading the node at an address, and writing it.\<close>

definition gap_at :: "gap_list \<Rightarrow> addr \<Rightarrow> gap_node" where
  "gap_at l a = mp_data (the (gl_data l)) a"

definition gap_upd :: "addr \<Rightarrow> (gap_node \<Rightarrow> gap_node) \<Rightarrow> gap_list \<Rightarrow> gap_list" where
  "gap_upd a f l = l\<lparr>gl_data := map_option (mp_write a (f (gap_at l a))) (gl_data l)\<rparr>"

definition gap_zero :: gap_node where
  "gap_zero = \<lparr>gn_seq_no = 0, gn_size = 0, gn_timestamp = 0, gn_next = None, gn_prev = None\<rparr>"

text \<open>A pool that could not be created leaves a list with a NULL \<^verbatim>\<open>data\<close>.\<close>

definition fh_shr_gap_fill_new ::
  "bool \<Rightarrow> bool \<Rightarrow> bool \<Rightarrow> ptr \<Rightarrow> u32 \<Rightarrow> u32 \<Rightarrow> gap_list option" where
  "fh_shr_gap_fill_new list_ok mp_ok name_ok arena mx timeout =
    (if \<not> list_ok then None
     else Some \<lparr>gl_count = 0, gl_max = mx, gl_timeout = timeout, gl_head = None, gl_tail = None,
                gl_data = fh_mpool_new gap_zero mp_ok name_ok arena ''gap_list'' 48 mx 0\<rparr>)"

text \<open>
  Choosing the node of a new gap: the head of a full list, or a node of the pool; NULL when the
  pool has none.  The second component is \<^verbatim>\<open>rc\<close>, the size of the gap that is given up.
\<close>

definition gap_push_node :: "gap_list \<Rightarrow> (gap_list \<times> ptr \<times> int) option" where
  "gap_push_node l =
    (if gl_count l + 1 > gl_max l then do {
       node \<leftarrow> gl_head l;
       Some (l\<lparr>gl_head := gn_next (gap_at l node)\<rparr>, Some node, sint (gn_size (gap_at l node)))
     }
     else do {
       mp \<leftarrow> gl_data l;
       (mp1, node) \<leftarrow> fh_mpool_get gap_zero None mp;
       case node of
         None \<Rightarrow> Some (l\<lparr>gl_data := Some mp1\<rparr>, None, -1)
       | Some n \<Rightarrow> Some (l\<lparr>gl_data := Some mp1, gl_count := gl_count l + 1\<rparr>, Some n, 0)
     })"

definition fh_shr_gap_fill_push :: "int \<Rightarrow> gap_list \<Rightarrow> u64 \<Rightarrow> u32 \<Rightarrow> (gap_list \<times> int) option" where
  "fh_shr_gap_fill_push now l seq_no sz =
    do {
      (l1, p, rc) \<leftarrow> gap_push_node l;
      case p of
        None \<Rightarrow> Some (l1, -1)
      | Some node \<Rightarrow>
          let l2 = gap_upd node (\<lambda>_. \<lparr>gn_seq_no = seq_no, gn_size = sz, gn_timestamp = now,
                                      gn_next = None, gn_prev = gl_tail l1\<rparr>) l1
          in case gl_tail l2 of
               None \<Rightarrow> Some (l2\<lparr>gl_tail := Some node, gl_head := Some node\<rparr>, rc)
             | Some t \<Rightarrow> Some ((gap_upd t (gn_next_update (\<lambda>_. Some node)) l2)\<lparr>gl_tail := Some node\<rparr>, rc)
    }"

definition gap_holds :: "gap_node \<Rightarrow> u64 \<Rightarrow> bool" where
  "gap_holds n seq_no \<longleftrightarrow> seq_no \<ge> gn_seq_no n \<and> seq_no < gn_seq_no n + ucast (gn_size n)"

text \<open>
  The search follows \<^verbatim>\<open>next\<close> from the head; it does not return when the list is cyclic
  (\<open>None\<close>).
\<close>

partial_function (option) gap_find_from :: "gap_list \<Rightarrow> u64 \<Rightarrow> ptr \<Rightarrow> ptr option" where
  "gap_find_from l seq_no cur =
    (case cur of
       None \<Rightarrow> Some None
     | Some c \<Rightarrow> if gap_holds (gap_at l c) seq_no then Some (Some c)
                 else gap_find_from l seq_no (gn_next (gap_at l c)))"

definition fh_shr_gap_fill_find :: "gap_list \<Rightarrow> u64 \<Rightarrow> ptr option" where
  "fh_shr_gap_fill_find l seq_no = gap_find_from l seq_no (gl_head l)"

text \<open>Linking a node after \<open>cur\<close>, the same statements in both ways of splitting a gap.\<close>

definition gap_link_after :: "gap_list \<Rightarrow> addr \<Rightarrow> addr \<Rightarrow> gap_list option" where
  "gap_link_after l cur new_node =
    do {
      let l = gap_upd new_node (\<lambda>n. n\<lparr>gn_next := gn_next (gap_at l cur), gn_prev := Some cur\<rparr>) l;
      let l = gap_upd cur (gn_next_update (\<lambda>_. Some new_node)) l;
      if Some cur = gl_tail l then Some (l\<lparr>gl_tail := Some new_node\<rparr>)
      else do { nn \<leftarrow> gn_next (gap_at l new_node);
                Some (gap_upd nn (gn_prev_update (\<lambda>_. Some new_node)) l) }
    }"

text \<open>Splitting a gap when the list is full: the head node becomes the node of the second part.\<close>

definition gap_split_reuse :: "gap_list \<Rightarrow> addr \<Rightarrow> u64 \<Rightarrow> (gap_list \<times> ptr \<times> int) option" where
  "gap_split_reuse l cur seq_no =
    do {
      new_node \<leftarrow> gl_head l;
      head2 \<leftarrow> gn_next (gap_at l new_node);
      let l = gap_upd head2 (gn_prev_update (\<lambda>_. None)) (l\<lparr>gl_head := Some head2\<rparr>);
      l \<leftarrow> gap_link_after l cur new_node;
      let rc = sint (gn_size (gap_at l cur));
      let nsize = ucast (ucast (gn_size (gap_at l cur)) - (seq_no - gn_seq_no (gap_at l cur)) - 1 :: u64);
      let l = gap_upd new_node (\<lambda>n. n\<lparr>gn_seq_no := seq_no + 1, gn_size := nsize\<rparr>) l;
      let l = gap_upd cur (\<lambda>n. n\<lparr>gn_size := gn_size n - (nsize + 1)\<rparr>) l;
      Some (l, Some new_node, rc)
    }"

text \<open>Splitting a gap with a node of the pool; NULL and \<open>-1\<close> when the pool has none.\<close>

definition gap_split_new :: "gap_list \<Rightarrow> addr \<Rightarrow> u64 \<Rightarrow> (gap_list \<times> ptr \<times> int) option" where
  "gap_split_new l cur seq_no =
    do {
      mp \<leftarrow> gl_data l;
      (mp1, p) \<leftarrow> fh_mpool_get gap_zero None mp;
      let l = l\<lparr>gl_data := Some mp1\<rparr>;
      case p of
        None \<Rightarrow> Some (l, None, -1)
      | Some new_node \<Rightarrow> do {
          l \<leftarrow> gap_link_after l cur new_node;
          let l = l\<lparr>gl_count := gl_count l + 1\<rparr>;
          let nsize = ucast (ucast (gn_size (gap_at l cur)) - (seq_no - gn_seq_no (gap_at l cur)) - 1 :: u64);
          let l = gap_upd new_node (\<lambda>n. n\<lparr>gn_seq_no := seq_no + 1, gn_size := nsize,
                                          gn_timestamp := gn_timestamp (gap_at l cur)\<rparr>) l;
          let l = gap_upd cur (\<lambda>n. n\<lparr>gn_size := gn_size n - (nsize + 1)\<rparr>) l;
          Some (l, Some new_node, 0)
        }
    }"

text \<open>The pointer updates that take a node out of the list, before it goes back to the pool.\<close>

definition gap_cut :: "gap_list \<Rightarrow> addr \<Rightarrow> gap_list option" where
  "gap_cut l cur =
    (if gl_head l = gl_tail l then Some (l\<lparr>gl_head := None, gl_tail := None\<rparr>)
     else if Some cur = gl_head l then do {
       head2 \<leftarrow> gn_next (gap_at l cur);
       Some (gap_upd head2 (gn_prev_update (\<lambda>_. None)) (l\<lparr>gl_head := Some head2\<rparr>))
     }
     else if Some cur = gl_tail l then do {
       tail2 \<leftarrow> gn_prev (gap_at l cur);
       Some (gap_upd tail2 (gn_next_update (\<lambda>_. None)) (l\<lparr>gl_tail := Some tail2\<rparr>))
     }
     else do {
       pr \<leftarrow> gn_prev (gap_at l cur);
       let l = gap_upd pr (gn_next_update (\<lambda>_. gn_next (gap_at l cur))) l;
       nx \<leftarrow> gn_next (gap_at l cur);
       Some (gap_upd nx (gn_prev_update (\<lambda>_. gn_prev (gap_at l cur))) l)
     })"

text \<open>Unlinking a gap that has been filled, and returning its node to the pool.\<close>

definition gap_unlink :: "gap_list \<Rightarrow> addr \<Rightarrow> gap_list option" where
  "gap_unlink l cur =
    do {
      l \<leftarrow> gap_cut l cur;
      mp \<leftarrow> gl_data l;
      Some (l\<lparr>gl_data := Some (fh_mpool_put gap_zero mp cur), gl_count := gl_count l - 1\<rparr>)
    }"

text \<open>
  Taking the sequence number out of the gap of \<open>cur\<close>: at its start, at its end, or in its
  middle.  The result is the list, the caller's node pointer (NULL when the pool had no node,
  where the C code returns \<open>-1\<close> at once) and \<^verbatim>\<open>rc\<close>.
\<close>

definition gap_del_step :: "gap_list \<Rightarrow> addr \<Rightarrow> u64 \<Rightarrow> (gap_list \<times> ptr \<times> int) option" where
  "gap_del_step l cur seq_no =
    (let c = gap_at l cur in
     if gn_seq_no c = seq_no then
       Some (gap_upd cur (\<lambda>n. n\<lparr>gn_seq_no := gn_seq_no n + 1, gn_size := gn_size n - 1\<rparr>) l,
             Some cur, 0)
     else if gn_seq_no c + ucast (gn_size c) - 1 = seq_no then
       Some (gap_upd cur (\<lambda>n. n\<lparr>gn_size := gn_size n - 1\<rparr>) l, Some cur, 0)
     else if seq_no > gn_seq_no c \<and> seq_no < gn_seq_no c + ucast (gn_size c) - 1 then
       if gl_count l \<ge> gl_max l then
         if Some cur = gl_head l then
           let rc = sint (ucast (seq_no - gn_seq_no c) :: u32) in
           Some (gap_upd cur (\<lambda>n. n\<lparr>gn_size := gn_size n - word_of_int (rc + 1),
                                     gn_seq_no := seq_no + 1\<rparr>) l, Some cur, rc)
         else gap_split_reuse l cur seq_no
       else gap_split_new l cur seq_no
     else Some (l, Some cur, 0))"

text \<open>A gap that has become empty is unlinked, and the caller's pointer becomes NULL.\<close>

definition gap_del_finish :: "addr \<Rightarrow> gap_list \<times> ptr \<times> int \<Rightarrow> (gap_list \<times> ptr \<times> int) option" where
  "gap_del_finish cur = (\<lambda>(l, node, rc).
     if node = None then Some (l, Some cur, rc)
     else if gn_size (gap_at l cur) = 0 then do {
       l \<leftarrow> gap_unlink l cur;
       Some (l, None, rc)
     }
     else Some (l, node, rc))"

definition fh_shr_gap_fill_del :: "gap_list \<Rightarrow> addr \<Rightarrow> u64 \<Rightarrow> (gap_list \<times> ptr \<times> int) option" where
  "fh_shr_gap_fill_del l cur seq_no =
     do { r \<leftarrow> gap_del_step l cur seq_no; gap_del_finish cur r }"

text \<open>
  Dropping the expired gaps.  The head's \<^verbatim>\<open>next\<close> is read after the node went back to the pool.
  \<^verbatim>\<open>lost\<close> is an \<^verbatim>\<open>int\<close>.
\<close>

partial_function (option) gap_flush_loop :: "int \<Rightarrow> gap_list \<Rightarrow> u32 \<Rightarrow> (gap_list \<times> u32) option" where
  "gap_flush_loop limit l lost =
    (case gl_head l of
       None \<Rightarrow> Some (l, lost)
     | Some h \<Rightarrow>
         if gn_timestamp (gap_at l h) \<ge> limit then Some (l, lost)
         else
           Option.bind (gl_data l) (\<lambda>mp.
             let lost = lost + gn_size (gap_at l h);
                 l = l\<lparr>gl_data := Some (fh_mpool_put gap_zero mp h)\<rparr>;
                 l = l\<lparr>gl_head := gn_next (gap_at l h)\<rparr>;
                 l = (case gl_head l of
                        None \<Rightarrow> l\<lparr>gl_tail := None\<rparr>
                      | Some h2 \<Rightarrow> gap_upd h2 (gn_prev_update (\<lambda>_. None)) l)
             in gap_flush_loop limit (l\<lparr>gl_count := gl_count l - 1\<rparr>) lost))"

definition fh_shr_gap_fill_flush :: "int \<Rightarrow> gap_list \<Rightarrow> (gap_list \<times> int) option" where
  "fh_shr_gap_fill_flush now l =
    (let limit = now - uint (gl_timeout l) in
     map_option (\<lambda>(l, lost). (l, sint lost)) (gap_flush_loop limit l 0))"

subsection \<open>Reading and writing nodes\<close>

definition gap_pool :: "gap_list \<Rightarrow> addr set \<Rightarrow> bool" where
  "gap_pool l U \<longleftrightarrow>
    (\<exists>mp. gl_data l = Some mp \<and> mpool_ok mp U \<and> mp_fixed (unat (gl_max l)) mp \<and>
          \<not> mp_flag mp FH_MPOOL_FL_CLEAR)"

lemma gap_upd_sel [simp]:
  "gl_head (gap_upd a f l) = gl_head l" "gl_tail (gap_upd a f l) = gl_tail l"
  "gl_count (gap_upd a f l) = gl_count l" "gl_max (gap_upd a f l) = gl_max l"
  "gl_timeout (gap_upd a f l) = gl_timeout l"
  "gl_data (gap_upd a f l) = map_option (mp_write a (f (gap_at l a))) (gl_data l)"
  by (simp_all add: gap_upd_def)

lemma gap_at_upd:
  "gl_data l \<noteq> None \<Longrightarrow> gap_at (gap_upd a f l) b = (if b = a then f (gap_at l a) else gap_at l b)"
  by (auto simp: gap_at_def gap_upd_def)

lemma gap_at_sel [simp]:
  "gap_at (l\<lparr>gl_head := h\<rparr>) = gap_at l" "gap_at (l\<lparr>gl_tail := t\<rparr>) = gap_at l"
  "gap_at (l\<lparr>gl_count := c\<rparr>) = gap_at l"
  by (simp_all add: gap_at_def fun_eq_iff)

lemma gap_pool_sel [simp]:
  "gap_pool (l\<lparr>gl_head := h\<rparr>) U = gap_pool l U" "gap_pool (l\<lparr>gl_tail := t\<rparr>) U = gap_pool l U"
  "gap_pool (l\<lparr>gl_count := c\<rparr>) U = gap_pool l U"
  "gap_pool (gap_upd a f l) U = gap_pool l U"
  by (auto simp: gap_pool_def)

lemma gap_pool_data [simp, dest]: "gap_pool l U \<Longrightarrow> gl_data l \<noteq> None"
  by (auto simp: gap_pool_def)

subsection \<open>Segments of the list\<close>

definition first_or :: "addr list \<Rightarrow> ptr \<Rightarrow> ptr" where
  "first_or as n = (case as of [] \<Rightarrow> n | a # _ \<Rightarrow> Some a)"

lemma first_or_simps [simp]:
  "first_or [] n = n" "first_or (a # as) n = Some a"
  "as \<noteq> [] \<Longrightarrow> first_or (as @ bs) n = first_or as n"
  "first_or (as @ a # bs) n = Some (hd (as @ [a]))"
  by (cases as; simp add: first_or_def)+

text \<open>
  \<open>dseg h as n\<close>: the nodes \<open>as\<close> are linked in both directions and the last one is followed by
  \<open>n\<close>.  The \<^verbatim>\<open>prev\<close> of the first node is not constrained: the code never reads it.
\<close>

fun dseg :: "(addr \<Rightarrow> gap_node) \<Rightarrow> addr list \<Rightarrow> ptr \<Rightarrow> bool" where
  "dseg h [] n = True"
| "dseg h (a # as) n =
     (gn_next (h a) = first_or as n \<and> (as \<noteq> [] \<longrightarrow> gn_prev (h (hd as)) = Some a) \<and> dseg h as n)"

lemma dseg_append:
  "dseg h (xs @ ys) n \<longleftrightarrow>
     dseg h xs (first_or ys n) \<and> dseg h ys n \<and>
     (xs \<noteq> [] \<and> ys \<noteq> [] \<longrightarrow> gn_prev (h (hd ys)) = Some (last xs))"
proof (induction xs)
  case (Cons a xs)
  then show ?case by (cases xs) auto
qed simp

lemma dseg_cong:
  assumes "\<And>a. a \<in> set as \<Longrightarrow> gn_next (h' a) = gn_next (h a)"
    and "\<And>a. a \<in> set (tl as) \<Longrightarrow> gn_prev (h' a) = gn_prev (h a)"
  shows "dseg h' as n = dseg h as n"
  using assms
proof (induction as)
  case (Cons a as)
  then show ?case by (cases as) auto
qed simp

lemma in_set_tlD: "a \<in> set (tl as) \<Longrightarrow> a \<in> set as"
  by (cases as) auto

lemma dseg_eq: "(\<And>a. a \<in> set as \<Longrightarrow> h' a = h a) \<Longrightarrow> dseg h' as n = dseg h as n"
  by (rule dseg_cong) (auto dest: in_set_tlD)

definition gap_rep :: "gap_list \<Rightarrow> addr list \<Rightarrow> bool" where
  "gap_rep l as \<longleftrightarrow>
     distinct as \<and> dseg (gap_at l) as None \<and> gl_head l = first_or as None \<and>
     gl_tail l = (if as = [] then None else Some (last as)) \<and>
     gap_pool l (set as) \<and> unat (gl_count l) = length as \<and> length as \<le> unat (gl_max l) \<and>
     unat (gl_max l) < 2 ^ 32 - 1"

definition gap_val :: "gap_node \<Rightarrow> u64 \<times> u32 \<times> int" where
  "gap_val n = (gn_seq_no n, gn_size n, gn_timestamp n)"

definition gap_vals :: "gap_list \<Rightarrow> addr list \<Rightarrow> (u64 \<times> u32 \<times> int) list" where
  "gap_vals l as = map (\<lambda>a. gap_val (gap_at l a)) as"

text \<open>The node of a pool that still has some.\<close>

lemma gap_pool_get:
  assumes "gap_pool l U" and "card U < unat (gl_max l)"
  obtains mp mp1 a where "gl_data l = Some mp" "fh_mpool_get gap_zero None mp = Some (mp1, Some a)"
    "a \<notin> U" "gap_pool (l\<lparr>gl_data := Some mp1\<rparr>) (insert a U)"
    "\<And>x. x \<in> U \<Longrightarrow> mp_data mp1 x = mp_data mp x"
proof -
  obtain mp where mp: "gl_data l = Some mp" "mpool_ok mp U" "mp_fixed (unat (gl_max l)) mp"
    "\<not> mp_flag mp FH_MPOOL_FL_CLEAR" using assms(1) by (auto simp: gap_pool_def)
  obtain mp1 r where get: "fh_mpool_get gap_zero None mp = Some (mp1, r)"
    and r: "case r of None \<Rightarrow> mpool_ok mp1 U | Some e \<Rightarrow> e \<notin> U \<and> mpool_ok mp1 (insert e U)"
    and d: "\<forall>x\<in>U. mp_data mp1 x = mp_data mp x"
    using fh_mpool_get_ok [OF mp(2) mp_fixed_arena_ok [OF mp(3)], of gap_zero None] by blast
  note f = fh_mpool_get_fixed [OF mp(2,3) get]
  obtain a where a: "r = Some a"
    using f assms(2) by (cases r) auto
  have "\<not> mp_flag mp1 FH_MPOOL_FL_CLEAR"
    using get mp(3,4) by (auto simp: pool_simps mp_fixed_def mp_flag_def split: if_splits list.splits)
  with mp get r a d f show thesis
    by (intro that [of mp mp1 a]) (auto simp: gap_pool_def)
qed

text \<open>Linking a node at the end of a segment.\<close>

lemma dseg_snoc:
  assumes "dseg h as None" and "n \<notin> set as" and "distinct as"
    and next_n: "gn_next (h' n) = None" and prev_n: "as \<noteq> [] \<Longrightarrow> gn_prev (h' n) = Some (last as)"
    and last: "as \<noteq> [] \<Longrightarrow> gn_next (h' (last as)) = Some n"
    and nxt: "\<And>a. a \<in> set (butlast as) \<Longrightarrow> gn_next (h' a) = gn_next (h a)"
    and prv: "\<And>a. a \<in> set (tl as) \<Longrightarrow> gn_prev (h' a) = gn_prev (h a)"
  shows "dseg h' (as @ [n]) None"
proof (cases as rule: rev_cases)
  case Nil
  with next_n show ?thesis by simp
next
  case (snoc bs t)
  have "dseg h bs (Some t) \<and> (bs \<noteq> [] \<longrightarrow> gn_prev (h t) = Some (last bs))"
    using assms(1) by (simp add: snoc dseg_append)
  moreover have "a \<in> set (tl as)" if "a \<in> set (tl bs)" for a
    using that by (cases bs) (simp_all add: snoc)
  then have "dseg h' bs (Some t) = dseg h bs (Some t)"
    using nxt prv by (intro dseg_cong) (simp_all add: snoc)
  moreover have "bs \<noteq> [] \<Longrightarrow> gn_prev (h' t) = gn_prev (h t)"
    using prv by (auto simp: snoc)
  ultimately show ?thesis
    using next_n prev_n last by (simp add: snoc dseg_append)
qed

abbreviation gap_cfg :: "gap_list \<Rightarrow> u32 \<times> u32" where
  "gap_cfg l \<equiv> (gl_max l, gl_timeout l)"

definition gap_link_tail :: "int \<Rightarrow> u64 \<Rightarrow> u32 \<Rightarrow> addr \<Rightarrow> gap_list \<Rightarrow> gap_list" where
  "gap_link_tail now seq_no sz node l =
     (let l2 = gap_upd node (\<lambda>_. \<lparr>gn_seq_no = seq_no, gn_size = sz, gn_timestamp = now,
                                 gn_next = None, gn_prev = gl_tail l\<rparr>) l
      in case gl_tail l of
           None \<Rightarrow> l2\<lparr>gl_tail := Some node, gl_head := Some node\<rparr>
         | Some t \<Rightarrow> (gap_upd t (gn_next_update (\<lambda>_. Some node)) l2)\<lparr>gl_tail := Some node\<rparr>)"

lemma gap_push_eq:
  "fh_shr_gap_fill_push now l seq_no sz =
     Option.bind (gap_push_node l) (\<lambda>(l1, p, rc). Some
       (case p of None \<Rightarrow> (l1, -1) | Some node \<Rightarrow> (gap_link_tail now seq_no sz node l1, rc)))"
  by (simp add: fh_shr_gap_fill_push_def gap_link_tail_def Let_def split: option.splits
      Option.bind_splits)

lemma gap_link_tail_at:
  assumes "gl_data l \<noteq> None" and "gl_tail l \<noteq> Some node"
  shows "gap_at (gap_link_tail now seq_no sz node l) a =
    (if a = node then \<lparr>gn_seq_no = seq_no, gn_size = sz, gn_timestamp = now, gn_next = None,
                       gn_prev = gl_tail l\<rparr>
     else if gl_tail l = Some a then (gap_at l a)\<lparr>gn_next := Some node\<rparr> else gap_at l a)"
  using assms by (auto simp: gap_link_tail_def Let_def gap_at_upd split: option.splits)

lemma gap_link_tail_sel [simp]:
  "gl_count (gap_link_tail now s z n l) = gl_count l" "gl_max (gap_link_tail now s z n l) = gl_max l"
  "gl_timeout (gap_link_tail now s z n l) = gl_timeout l"
  "gl_tail (gap_link_tail now s z n l) = Some n"
  "gl_head (gap_link_tail now s z n l) = (if gl_tail l = None then Some n else gl_head l)"
  "gap_pool (gap_link_tail now s z n l) U = gap_pool l U"
  by (simp_all add: gap_link_tail_def Let_def split: option.splits)

text \<open>The list that \<open>gap_link_tail\<close> extends has already claimed the node.\<close>

lemma gap_link_tail_rep:
  assumes d: "distinct as" "n \<notin> set as" and seg: "dseg (gap_at l) as None"
    and head: "gl_head l = first_or as None" and tail: "gl_tail l = (if as = [] then None else Some (last as))"
    and pool: "gap_pool l (set (as @ [n]))"
    and c: "unat (gl_count l) = Suc (length as)" "Suc (length as) \<le> unat (gl_max l)"
      "unat (gl_max l) < 2 ^ 32 - 1"
  shows "gap_rep (gap_link_tail now s z n l) (as @ [n])"
    and "gap_vals (gap_link_tail now s z n l) (as @ [n]) = gap_vals l as @ [(s, z, now)]"
proof -
  have ne: "gl_data l \<noteq> None" "gl_tail l \<noteq> Some n"
    using pool d tail by (auto simp: gap_pool_def)
  note at = gap_link_tail_at [OF ne, of now s z]
  have "last as \<notin> set (butlast as)"
    using d(1) by (cases as rule: rev_cases) auto
  then have "dseg (gap_at (gap_link_tail now s z n l)) (as @ [n]) None"
    using d tail by (intro dseg_snoc [OF seg]) (auto simp: at dest: in_set_butlastD in_set_tlD)
  with d head tail pool c show "gap_rep (gap_link_tail now s z n l) (as @ [n])"
    by (auto simp: gap_rep_def first_or_def split: list.splits)
  show "gap_vals (gap_link_tail now s z n l) (as @ [n]) = gap_vals l as @ [(s, z, now)]"
    using d(2) by (auto simp: gap_vals_def gap_val_def at)
qed

lemma push_room:
  assumes rep: "gap_rep l as" and room: "length as < unat (gl_max l)"
  shows "\<exists>l' a. fh_shr_gap_fill_push now l seq_no sz = Some (l', 0) \<and> gap_rep l' (as @ [a]) \<and>
    gap_vals l' (as @ [a]) = gap_vals l as @ [(seq_no, sz, now)] \<and> gap_cfg l' = gap_cfg l"
proof -
  note r = rep [unfolded gap_rep_def]
  have card: "card (set as) = length as" using r by (simp add: distinct_card)
  obtain mp mp1 a where g: "gl_data l = Some mp" "fh_mpool_get gap_zero None mp = Some (mp1, Some a)"
    "a \<notin> set as" "gap_pool (l\<lparr>gl_data := Some mp1\<rparr>) (insert a (set as))"
    "\<And>x. x \<in> set as \<Longrightarrow> mp_data mp1 x = mp_data mp x"
    using gap_pool_get [of l "set as"] r room card by auto
  let ?l1 = "l\<lparr>gl_data := Some mp1, gl_count := gl_count l + 1\<rparr>"
  have "length as < 2 ^ 32 - 1" using room unat_lt [of "gl_max l"] by simp
  then have cnt: "unat (gl_count l + 1) = Suc (length as)"
    using r by (subst unat_inc) simp_all
  then have "\<not> gl_count l + 1 > gl_max l"
    using room by (simp add: word_less_nat_alt)
  then have node: "gap_push_node l = Some (?l1, Some a, 0)"
    using g(1,2) by (simp add: gap_push_node_def)
  have at: "gap_at ?l1 x = gap_at l x" if "x \<in> set as" for x
    using g that by (simp add: gap_at_def)
  have "dseg (gap_at ?l1) as None"
    using r at dseg_eq [of as "gap_at ?l1" "gap_at l" None] by simp
  moreover have "gap_pool ?l1 (set (as @ [a]))" using g(4) by (simp add: gap_pool_def)
  ultimately have "gap_rep (gap_link_tail now seq_no sz a ?l1) (as @ [a])"
    "gap_vals (gap_link_tail now seq_no sz a ?l1) (as @ [a]) = gap_vals ?l1 as @ [(seq_no, sz, now)]"
    using r g(3) cnt room by (auto intro!: gap_link_tail_rep)
  moreover have "gap_vals ?l1 as = gap_vals l as" using at by (simp add: gap_vals_def)
  ultimately show ?thesis using node by (auto simp: gap_push_eq)
qed

lemma push_full:
  assumes rep: "gap_rep l (a # b # as)" and full: "length (a # b # as) = unat (gl_max l)"
  shows "\<exists>l'. fh_shr_gap_fill_push now l seq_no sz = Some (l', sint (gn_size (gap_at l a))) \<and>
    gap_rep l' (b # as @ [a]) \<and> gap_vals l' (b # as @ [a]) = gap_vals l (b # as) @ [(seq_no, sz, now)] \<and>
    gap_cfg l' = gap_cfg l"
proof -
  note r = rep [unfolded gap_rep_def]
  let ?l1 = "l\<lparr>gl_head := Some b\<rparr>"
  have cnt: "unat (gl_count l + 1) = Suc (unat (gl_count l))" "unat (gl_count l) = unat (gl_max l)"
    using r full by (simp_all add: unat_inc)
  then have "gl_count l + 1 > gl_max l" by (simp add: word_less_nat_alt)
  then have node: "gap_push_node l = Some (?l1, Some a, sint (gn_size (gap_at l a)))"
    using r by (simp add: gap_push_node_def)
  have "gap_pool ?l1 (set ((b # as) @ [a]))" using r by (simp add: insert_commute)
  then have "gap_rep (gap_link_tail now seq_no sz a ?l1) ((b # as) @ [a])"
    "gap_vals (gap_link_tail now seq_no sz a ?l1) ((b # as) @ [a]) = gap_vals ?l1 (b # as) @ [(seq_no, sz, now)]"
    using r full cnt by - ((rule gap_link_tail_rep; simp), (rule gap_link_tail_rep; simp))
  then show ?thesis using node by (auto simp: gap_push_eq gap_vals_def)
qed

subsection \<open>Searching\<close>

lemma gap_find_from_dseg:
  "dseg (gap_at l) as None \<Longrightarrow>
     gap_find_from l seq_no (first_or as None) = Some (List.find (\<lambda>a. gap_holds (gap_at l a) seq_no) as)"
  by (induction as) (simp_all add: gap_find_from.simps)

lemma find_rep:
  "gap_rep l as \<Longrightarrow>
     fh_shr_gap_fill_find l seq_no = Some (List.find (\<lambda>a. gap_holds (gap_at l a) seq_no) as)"
  by (simp add: fh_shr_gap_fill_find_def gap_rep_def gap_find_from_dseg)

subsection \<open>Changing values, unlinking and inserting\<close>

lemma gap_rep_upd_val:
  assumes "gap_rep l as" and "\<And>n. gn_next (f n) = gn_next n" and "\<And>n. gn_prev (f n) = gn_prev n"
  shows "gap_rep (gap_upd a f l) as"
proof -
  have "gl_data l \<noteq> None" using assms(1) by (auto simp: gap_rep_def)
  then have "dseg (gap_at (gap_upd a f l)) as None = dseg (gap_at l) as None"
    using assms(2,3) by (intro dseg_cong) (simp_all add: gap_at_upd)
  with assms(1) show ?thesis by (simp add: gap_rep_def)
qed

lemma gap_pool_put:
  assumes "gap_pool l U" and "a \<in> U"
  obtains mp where "gl_data l = Some mp"
    "gap_pool (l\<lparr>gl_data := Some (fh_mpool_put gap_zero mp a)\<rparr>) (U - {a})"
    "mp_data (fh_mpool_put gap_zero mp a) = mp_data mp"
proof -
  obtain mp where mp: "gl_data l = Some mp" "mpool_ok mp U" "mp_fixed (unat (gl_max l)) mp"
    "\<not> mp_flag mp FH_MPOOL_FL_CLEAR" using assms(1) by (auto simp: gap_pool_def)
  moreover have "\<not> mp_flag (fh_mpool_put gap_zero mp a) FH_MPOOL_FL_CLEAR"
    using mp(4) by (simp add: pool_simps mp_flag_def)
  ultimately show thesis
    using fh_mpool_put_ok [OF mp(2) assms(2), where zero = gap_zero] fh_mpool_put_fixed [OF mp(2) assms(2) mp(3)]
    by (intro that [of mp]) (auto simp: gap_pool_def)
qed

lemma gap_cut_rep:
  assumes r: "distinct (xs @ c # ys)" "dseg (gap_at l) (xs @ c # ys) None"
      "gl_head l = first_or (xs @ c # ys) None" "gl_tail l = Some (last (xs @ c # ys))"
      "gl_data l \<noteq> None"
  shows "\<exists>l'. gap_cut l c = Some l' \<and> dseg (gap_at l') (xs @ ys) None \<and>
    gl_head l' = first_or (xs @ ys) None \<and>
    gl_tail l' = (if xs @ ys = [] then None else Some (last (xs @ ys))) \<and>
    gap_cfg l' = gap_cfg l \<and> gl_count l' = gl_count l \<and> (\<forall>U. gap_pool l' U = gap_pool l U) \<and>
    (\<forall>a. gap_val (gap_at l' a) = gap_val (gap_at l a)) \<and> gn_next (gap_at l' c) = gn_next (gap_at l c)"
proof (cases xs rule: rev_cases)
  case Nil
  note xs = this
  show ?thesis
  proof (cases ys)
    case Nil
    with xs r show ?thesis by (simp add: gap_cut_def)
  next
    case (Cons y ys')
    let ?l' = "gap_upd y (gn_prev_update (\<lambda>_. None)) (l\<lparr>gl_head := Some y\<rparr>)"
    have "last ys \<noteq> c" using r(1) Cons by (metis append_Nil distinct.simps(2) last_in_set list.discI xs)
    then have "gap_cut l c = Some ?l'" using xs Cons r by (auto simp: gap_cut_def split: if_splits)
    moreover have at: "gap_at ?l' x = (if x = y then (gap_at l y)\<lparr>gn_prev := None\<rparr> else gap_at l x)" for x
      using r(5) by (simp add: gap_at_upd)
    moreover have "dseg (gap_at ?l') ys None = dseg (gap_at l) ys None"
      using r(1) Cons xs by (intro dseg_cong) (auto simp: at)
    ultimately show ?thesis
      using r xs Cons by (auto simp: gap_val_def)
  qed
next
  case (snoc bs b)
  note xs = this
  have b: "gn_prev (gap_at l c) = Some b" "dseg (gap_at l) bs (Some b)"
    "bs \<noteq> [] \<Longrightarrow> gn_prev (gap_at l b) = Some (last bs)" "gn_next (gap_at l b) = Some c"
    "dseg (gap_at l) ys None" "gn_next (gap_at l c) = first_or ys None"
    "ys \<noteq> [] \<Longrightarrow> gn_prev (gap_at l (hd ys)) = Some c"
    using r(2) xs by (auto simp: dseg_append)
  have ne: "gl_head l \<noteq> Some c" using r(1,3) xs by (cases bs) auto
  have hd_ne: "gl_head l \<noteq> gl_tail l"
  proof
    assume "gl_head l = gl_tail l"
    then have "hd (xs @ c # ys) = last (c # ys)" using r(3,4) xs by (cases bs) auto
    moreover have "hd (xs @ c # ys) \<in> set xs" using xs by (cases bs) auto
    ultimately show False using r(1) by (metis disjoint_iff distinct_append last_in_set list.discI)
  qed
  show ?thesis
  proof (cases ys)
    case Nil
    define l' where "l' = gap_upd b (gn_next_update (\<lambda>_. None)) (l\<lparr>gl_tail := Some b\<rparr>)"
    have "gap_cut l c = Some l'" using xs Nil r b ne hd_ne by (simp add: gap_cut_def l'_def)
    moreover have at: "gap_at l' x = (if x = b then (gap_at l b)\<lparr>gn_next := None\<rparr> else gap_at l x)" for x
      using r(5) by (simp add: gap_at_upd l'_def)
    moreover have "dseg (gap_at l') bs (Some b) = dseg (gap_at l) bs (Some b)"
      using r(1) xs by (intro dseg_eq) (auto simp: at)
    moreover have "gl_head l' = gl_head l" "gl_tail l' = Some b" "gap_cfg l' = gap_cfg l"
      "gl_count l' = gl_count l" "\<And>U. gap_pool l' U = gap_pool l U" by (simp_all add: l'_def)
    ultimately show ?thesis
      using r xs Nil b by (simp add: gap_val_def dseg_append)
  next
    case (Cons y ys')
    let ?l1 = "gap_upd b (gn_next_update (\<lambda>_. Some y)) l"
    define l' where "l' = gap_upd y (gn_prev_update (\<lambda>_. Some b)) ?l1"
    have neq: "b \<noteq> c" "y \<noteq> c" "y \<noteq> b" "Some c \<noteq> gl_tail l"
      using r(1,4) xs Cons by auto
    have "gap_at ?l1 c = gap_at l c" using neq r(5) by (simp add: gap_at_upd)
    then have "gap_cut l c = Some l'" using xs Cons r b ne hd_ne neq by (simp add: gap_cut_def l'_def)
    moreover have at: "gap_at l' x = (if x = y then (gap_at l y)\<lparr>gn_prev := Some b\<rparr>
        else if x = b then (gap_at l b)\<lparr>gn_next := Some y\<rparr> else gap_at l x)" for x
      using r(5) neq by (simp add: gap_at_upd l'_def)
    moreover have "dseg (gap_at l') bs (Some b) = dseg (gap_at l) bs (Some b)"
      using r(1) xs Cons by (intro dseg_eq) (auto simp: at)
    moreover have "dseg (gap_at l') ys None = dseg (gap_at l) ys None"
      using r(1) xs Cons by (intro dseg_cong) (auto simp: at)
    moreover have "gl_head l' = gl_head l" "gl_tail l' = gl_tail l" "gap_cfg l' = gap_cfg l"
      "gl_count l' = gl_count l" "\<And>U. gap_pool l' U = gap_pool l U" by (simp_all add: l'_def)
    ultimately show ?thesis
      using r xs Cons b neq by (simp add: gap_val_def dseg_append)
  qed
qed

lemma unlink_rep:
  assumes rep: "gap_rep l (xs @ c # ys)"
  shows "\<exists>l'. gap_unlink l c = Some l' \<and> gap_rep l' (xs @ ys) \<and> gap_cfg l' = gap_cfg l \<and>
    (\<forall>a. gap_val (gap_at l' a) = gap_val (gap_at l a))"
proof -
  note r = rep [unfolded gap_rep_def]
  have "gl_data l \<noteq> None" using rep by (auto simp: gap_rep_def)
  then obtain l1 where l1: "gap_cut l c = Some l1" "dseg (gap_at l1) (xs @ ys) None"
    "gl_head l1 = first_or (xs @ ys) None"
    "gl_tail l1 = (if xs @ ys = [] then None else Some (last (xs @ ys)))"
    "gap_cfg l1 = gap_cfg l" "gl_count l1 = gl_count l" "\<And>U. gap_pool l1 U = gap_pool l U"
    "\<And>a. gap_val (gap_at l1 a) = gap_val (gap_at l a)"
    using gap_cut_rep [of xs c ys l] r by auto
  have "gap_pool l1 (set (xs @ c # ys))" using r l1(7) by simp
  then obtain mp where mp: "gl_data l1 = Some mp"
    "gap_pool (l1\<lparr>gl_data := Some (fh_mpool_put gap_zero mp c)\<rparr>) (set (xs @ c # ys) - {c})"
    "mp_data (fh_mpool_put gap_zero mp c) = mp_data mp"
    by (rule gap_pool_put) auto
  let ?l' = "l1\<lparr>gl_data := Some (fh_mpool_put gap_zero mp c), gl_count := gl_count l1 - 1\<rparr>"
  have at: "gap_at ?l' = gap_at l1" using mp(1,3) by (simp add: gap_at_def fun_eq_iff)
  have set: "set (xs @ c # ys) - {c} = set (xs @ ys)" using r by auto
  have "gl_count l \<noteq> 0" using r by auto
  then have cnt: "unat (gl_count l - 1) = length (xs @ ys)" using r by (simp add: unat_dec)
  have "gap_rep ?l' (xs @ ys)"
    unfolding gap_rep_def using r l1 mp(2) cnt unfolding at set by simp
  with l1 mp(1) at show ?thesis by (auto simp: gap_unlink_def)
qed

lemma link_after_rep:
  assumes r: "distinct (xs @ c # ys)" "n \<notin> set (xs @ c # ys)" "dseg (gap_at l) (xs @ c # ys) None"
      "gl_tail l = Some (last (c # ys))" "gl_data l \<noteq> None"
  shows "\<exists>l'. gap_link_after l c n = Some l' \<and> dseg (gap_at l') (xs @ c # n # ys) None \<and>
    gl_tail l' = Some (last (c # n # ys)) \<and> gl_head l' = gl_head l \<and> gl_count l' = gl_count l \<and>
    gap_cfg l' = gap_cfg l \<and> gl_data l' \<noteq> None \<and> (\<forall>U. gap_pool l' U = gap_pool l U) \<and>
    (\<forall>a. gap_val (gap_at l' a) = gap_val (gap_at l a))"
proof -
  let ?l1 = "gap_upd n (\<lambda>m. m\<lparr>gn_next := gn_next (gap_at l c), gn_prev := Some c\<rparr>) l"
  define l2 where "l2 = gap_upd c (gn_next_update (\<lambda>_. Some n)) ?l1"
  have d: "gl_data l2 \<noteq> None" "n \<noteq> c" using r by (auto simp: l2_def)
  have at2: "gap_at l2 x = (if x = c then (gap_at l c)\<lparr>gn_next := Some n\<rparr>
      else if x = n then (gap_at l n)\<lparr>gn_next := first_or ys None, gn_prev := Some c\<rparr> else gap_at l x)" for x
    using r d by (auto simp: gap_at_upd dseg_append l2_def)
  have sel2: "gl_head l2 = gl_head l" "gl_tail l2 = gl_tail l" "gap_cfg l2 = gap_cfg l"
      "gl_count l2 = gl_count l" "\<And>U. gap_pool l2 U = gap_pool l U" by (simp_all add: l2_def)
  have after: "gap_link_after l c n =
      (if Some c = gl_tail l then Some (l2\<lparr>gl_tail := Some n\<rparr>)
       else do { nn \<leftarrow> gn_next (gap_at l2 n); Some (gap_upd nn (gn_prev_update (\<lambda>_. Some n)) l2) })"
    by (simp add: gap_link_after_def Let_def l2_def)
  have xs: "dseg (gap_at l) xs (Some c)" "xs \<noteq> [] \<Longrightarrow> gn_prev (gap_at l c) = Some (last xs)"
    "dseg (gap_at l) ys None"
    using r(3) by (auto simp: dseg_append)
  show ?thesis
  proof (cases ys)
    case Nil
    have "dseg (gap_at l2) xs (Some c) = dseg (gap_at l) xs (Some c)"
      using r(1,2) by (intro dseg_eq) (auto simp: at2)
    then show ?thesis
      using r Nil xs d sel2 by (simp add: after dseg_append at2 gap_val_def)
  next
    case (Cons y ys')
    define l3 where "l3 = gap_upd y (gn_prev_update (\<lambda>_. Some n)) l2"
    have neq: "y \<noteq> c" "y \<noteq> n" "gl_tail l \<noteq> Some c" using r(1,2,4) Cons by auto
    then have "gap_link_after l c n = Some l3"
      using Cons d(2) by (simp add: after at2 l3_def)
    moreover have at3: "gap_at l3 x = (if x = y then (gap_at l y)\<lparr>gn_prev := Some n\<rparr> else gap_at l2 x)" for x
      using d(1) neq at2 [of y] by (simp add: gap_at_upd l3_def)
    moreover have "dseg (gap_at l3) xs (Some c) = dseg (gap_at l) xs (Some c)"
      using r(1,2) Cons by (intro dseg_eq) (auto simp: at2 at3)
    moreover have "dseg (gap_at l3) ys None = dseg (gap_at l) ys None"
      using r(1,2) Cons by (intro dseg_cong) (auto simp: at2 at3)
    moreover have "gl_head l3 = gl_head l" "gl_tail l3 = gl_tail l" "gap_cfg l3 = gap_cfg l"
      "gl_count l3 = gl_count l" "\<And>U. gap_pool l3 U = gap_pool l U" "gl_data l3 \<noteq> None"
      using sel2 d by (auto simp: l3_def)
    ultimately show ?thesis
      using r Cons xs d(2) neq by (simp add: dseg_append at2 gap_val_def)
  qed
qed

subsection \<open>Filling a sequence number\<close>

text \<open>
  What \<^verbatim>\<open>fh_shr_gap_fill_del\<close> does to the gaps: \<open>(s, z, t)\<close> is the gap that holds the sequence
  number, \<open>pre\<close> and \<open>post\<close> the gaps before and after it.
\<close>

definition gaps_del ::
  "bool \<Rightarrow> (u64 \<times> u32 \<times> int) list \<Rightarrow> u64 \<times> u32 \<times> int \<Rightarrow> (u64 \<times> u32 \<times> int) list \<Rightarrow> u64
   \<Rightarrow> (u64 \<times> u32 \<times> int) list \<times> int" where
  "gaps_del full pre g post q =
    (case g of (s, z, t) \<Rightarrow>
       let d = ucast (q - s) in
       if q = s then (pre @ (if z = 1 then [] else [(s + 1, z - 1, t)]) @ post, 0)
       else if s + ucast z - 1 = q then (pre @ (s, z - 1, t) # post, 0)
       else if \<not> full then (pre @ (s, d, t) # (q + 1, z - d - 1, t) # post, 0)
       else case pre of
              [] \<Rightarrow> ((q + 1, z - d - 1, t) # post, sint d)
            | (s0, z0, t0) # pre' \<Rightarrow> (pre' @ (s, d, t) # (q + 1, z - d - 1, t0) # post, sint z))"

lemma gap_vals_simps [simp]:
  "gap_vals l [] = []" "gap_vals l (a # as) = gap_val (gap_at l a) # gap_vals l as"
  "gap_vals l (as @ bs) = gap_vals l as @ gap_vals l bs"
  by (simp_all add: gap_vals_def)

lemma gap_vals_cong:
  "(\<And>a. a \<in> set as \<Longrightarrow> gap_val (gap_at l' a) = gap_val (gap_at l a)) \<Longrightarrow> gap_vals l' as = gap_vals l as"
  by (simp add: gap_vals_def)

lemma split_vals:
  assumes rep: "gap_rep l (xs @ c # n # ys)" and val: "gap_val (gap_at l c) = (s, z, t)"
    and ns: "ns = z - ucast (q - s) - 1"
    and f: "\<And>m. gn_next (f m) = gn_next m" "\<And>m. gn_prev (f m) = gn_prev m"
      "gap_val (f (gap_at l n)) = (q + 1, ns, t')"
    and l': "l' = gap_upd c (\<lambda>m. m\<lparr>gn_size := gn_size m - (ns + 1)\<rparr>) (gap_upd n f l)"
  shows "gap_rep l' (xs @ c # n # ys)" and "gap_cfg l' = gap_cfg l"
    and "gap_vals l' (xs @ c # n # ys) =
      gap_vals l xs @ (s, ucast (q - s), t) # (q + 1, z - ucast (q - s) - 1, t') # gap_vals l ys"
proof -
  have d: "distinct (xs @ c # n # ys)" "gl_data l \<noteq> None" using rep by (auto simp: gap_rep_def)
  show "gap_rep l' (xs @ c # n # ys)" unfolding l' using rep f by (intro gap_rep_upd_val) simp_all
  show "gap_cfg l' = gap_cfg l" by (simp add: l')
  have at: "gap_at l' x = (if x = c then (gap_at l c)\<lparr>gn_size := gn_size (gap_at l c) - (ns + 1)\<rparr>
      else if x = n then f (gap_at l n) else gap_at l x)" for x
    using d by (auto simp: l' gap_at_upd)
  have "gap_vals l' xs = gap_vals l xs" "gap_vals l' ys = gap_vals l ys"
    using d(1) by (auto intro!: gap_vals_cong simp: at)
  moreover have "gap_val (gap_at l' c) = (s, ucast (q - s), t)"
    "gap_val (gap_at l' n) = (q + 1, z - ucast (q - s) - 1, t')"
    using d(1) val f(3) unfolding at ns by (auto simp: gap_val_def)
  ultimately show "gap_vals l' (xs @ c # n # ys) =
      gap_vals l xs @ (s, ucast (q - s), t) # (q + 1, z - ucast (q - s) - 1, t') # gap_vals l ys"
    by simp
qed

lemma split_new_rep:
  assumes rep: "gap_rep l (xs @ c # ys)" and room: "length (xs @ c # ys) < unat (gl_max l)"
    and val: "gap_val (gap_at l c) = (s, z, t)"
  shows "\<exists>l' n. gap_split_new l c q = Some (l', Some n, 0) \<and> gap_rep l' (xs @ c # n # ys) \<and>
    gap_vals l' (xs @ c # n # ys) = gap_vals l xs @ (s, ucast (q - s), t) #
      (q + 1, z - ucast (q - s) - 1, t) # gap_vals l ys \<and> gap_cfg l' = gap_cfg l"
proof -
  note r = rep [unfolded gap_rep_def]
  let ?as = "xs @ c # ys"
  have card: "card (set ?as) = length ?as" using r by (metis distinct_card)
  obtain mp mp1 n where g: "gl_data l = Some mp" "fh_mpool_get gap_zero None mp = Some (mp1, Some n)"
    "n \<notin> set ?as" "gap_pool (l\<lparr>gl_data := Some mp1\<rparr>) (insert n (set ?as))"
    "\<And>x. x \<in> set ?as \<Longrightarrow> mp_data mp1 x = mp_data mp x"
    using gap_pool_get [of l "set ?as"] r room card by metis
  define l1 where "l1 = l\<lparr>gl_data := Some mp1\<rparr>"
  have at1: "gap_at l1 x = gap_at l x" if "x \<in> set ?as" for x
    using g that by (simp add: gap_at_def l1_def)
  have "dseg (gap_at l1) ?as None" using r at1 dseg_eq [of ?as "gap_at l1" "gap_at l" None] by simp
  moreover have "gl_tail l1 = Some (last (c # ys))" "gl_data l1 \<noteq> None"
    using r by (simp_all add: l1_def)
  ultimately obtain l2 where l2: "gap_link_after l1 c n = Some l2"
    "dseg (gap_at l2) (xs @ c # n # ys) None" "gl_tail l2 = Some (last (c # n # ys))"
    "gl_head l2 = gl_head l1" "gl_count l2 = gl_count l1" "gap_cfg l2 = gap_cfg l1" "gl_data l2 \<noteq> None"
    "\<And>U. gap_pool l2 U = gap_pool l1 U" "\<And>a. gap_val (gap_at l2 a) = gap_val (gap_at l1 a)"
    using link_after_rep [of xs c ys n l1] r g(3) by auto
  let ?l3 = "l2\<lparr>gl_count := gl_count l2 + 1\<rparr>"
  have val2: "gap_val (gap_at ?l3 c) = (s, z, t)" using l2(9) at1 [of c] val by simp
  let ?ns = "ucast (ucast (gn_size (gap_at l2 c)) - (q - gn_seq_no (gap_at l2 c)) - 1 :: u64) :: u32"
  have ns: "?ns = z - ucast (q - s) - 1" using val2 by (simp add: gap_val_def ucast_minus_down)
  have "gl_count l1 = gl_count l" by (simp add: l1_def)
  moreover have "unat (gl_count l + 1) = Suc (length ?as)"
    using r room by (subst unat_inc) auto
  moreover have "gap_pool l1 (set (xs @ c # n # ys))" using g(4) by (simp add: l1_def insert_commute)
  moreover have "gl_max l2 = gl_max l" "gl_head l1 = gl_head l" using l2(6) by (auto simp: l1_def)
  ultimately have "gap_rep ?l3 (xs @ c # n # ys)"
    using r g(3) l2 room by (auto simp: gap_rep_def)
  note v = split_vals [OF this val2 ns, of "\<lambda>m. m\<lparr>gn_seq_no := q + 1, gn_size := ?ns,
      gn_timestamp := gn_timestamp (gap_at l2 c)\<rparr>" t, OF _ _ _ refl]
  have "gap_vals ?l3 xs = gap_vals l xs" "gap_vals ?l3 ys = gap_vals l ys"
    using l2(9) at1 by (auto intro!: gap_vals_cong)
  moreover have "gap_cfg l2 = gap_cfg l" using l2(6) by (simp add: l1_def)
  moreover have "gap_split_new l c q = Some (gap_upd c (\<lambda>m. m\<lparr>gn_size := gn_size m - (?ns + 1)\<rparr>)
      (gap_upd n (\<lambda>m. m\<lparr>gn_seq_no := q + 1, gn_size := ?ns,
      gn_timestamp := gn_timestamp (gap_at l2 c)\<rparr>) ?l3), Some n, 0)"
    using g(1,2) l2(1) by (simp add: gap_split_new_def Let_def l1_def)
  ultimately show ?thesis using v val2 by (auto simp: gap_val_def)
qed

lemma split_reuse_rep:
  assumes rep: "gap_rep l (x # xs @ c # ys)"
    and val: "gap_val (gap_at l c) = (s, z, t)" "gap_val (gap_at l x) = (s0, z0, t0)"
  shows "\<exists>l'. gap_split_reuse l c q = Some (l', Some x, sint z) \<and> gap_rep l' (xs @ c # x # ys) \<and>
    gap_vals l' (xs @ c # x # ys) = gap_vals l xs @ (s, ucast (q - s), t) #
      (q + 1, z - ucast (q - s) - 1, t0) # gap_vals l ys \<and> gap_cfg l' = gap_cfg l"
proof -
  note r = rep [unfolded gap_rep_def]
  let ?as = "xs @ c # ys" and ?h = "hd (xs @ [c])"
  have d: "gl_data l \<noteq> None" using rep by (auto simp: gap_rep_def)
  define l1 where "l1 = gap_upd ?h (gn_prev_update (\<lambda>_. None)) (l\<lparr>gl_head := Some ?h\<rparr>)"
  have at1: "gap_at l1 a = (if a = ?h then (gap_at l a)\<lparr>gn_prev := None\<rparr> else gap_at l a)" for a
    using d by (simp add: l1_def gap_at_upd)
  have "?h \<notin> set (tl ?as)" using r by (cases xs) auto
  then have "dseg (gap_at l1) ?as None = dseg (gap_at l) ?as None"
    by (intro dseg_cong) (auto simp: at1)
  then have "dseg (gap_at l1) ?as None" using r by simp
  moreover have "gl_tail l1 = Some (last (c # ys))" "gl_data l1 \<noteq> None"
    using r d by (auto simp: l1_def)
  ultimately obtain l2 where l2: "gap_link_after l1 c x = Some l2"
    "dseg (gap_at l2) (xs @ c # x # ys) None" "gl_tail l2 = Some (last (c # x # ys))"
    "gl_head l2 = gl_head l1" "gl_count l2 = gl_count l1" "gap_cfg l2 = gap_cfg l1" "gl_data l2 \<noteq> None"
    "\<And>U. gap_pool l2 U = gap_pool l1 U" "\<And>a. gap_val (gap_at l2 a) = gap_val (gap_at l1 a)"
    using link_after_rep [of xs c ys x l1] r by auto
  have v2: "gap_val (gap_at l2 a) = gap_val (gap_at l a)" for a
    unfolding l2(9) by (simp add: at1 gap_val_def)
  then have val2: "gap_val (gap_at l2 c) = (s, z, t)" "gap_val (gap_at l2 x) = (s0, z0, t0)"
    using val by simp_all
  let ?ns = "ucast (ucast (gn_size (gap_at l2 c)) - (q - gn_seq_no (gap_at l2 c)) - 1 :: u64) :: u32"
  have ns: "?ns = z - ucast (q - s) - 1" using val2 by (simp add: gap_val_def ucast_minus_down)
  have "gap_pool l1 (set (xs @ c # x # ys))" using r by (simp add: l1_def insert_commute)
  moreover have "gl_max l2 = gl_max l" "gl_head l1 = Some ?h" "gl_count l1 = gl_count l"
    using l2(6) by (auto simp: l1_def)
  ultimately have "gap_rep l2 (xs @ c # x # ys)"
    using r l2 by (auto simp: gap_rep_def)
  note v = split_vals [OF this val2(1) ns, of "\<lambda>m. m\<lparr>gn_seq_no := q + 1, gn_size := ?ns\<rparr>" t0,
      OF _ _ _ refl]
  have "gap_vals l2 xs = gap_vals l xs" "gap_vals l2 ys = gap_vals l ys" "gap_cfg l2 = gap_cfg l"
    using v2 l2(6) by (auto intro!: gap_vals_cong simp: l1_def)
  moreover have "gap_split_reuse l c q = Some (gap_upd c (\<lambda>m. m\<lparr>gn_size := gn_size m - (?ns + 1)\<rparr>)
      (gap_upd x (\<lambda>m. m\<lparr>gn_seq_no := q + 1, gn_size := ?ns\<rparr>) l2), Some x, sint z)"
    using r l2(1) val2 by (simp add: gap_split_reuse_def Let_def l1_def gap_val_def)
  ultimately show ?thesis using v val2 by (auto simp: gap_val_def)
qed

lemma gap_holds_iff:
  assumes "unat (gn_seq_no n) + unat (gn_size n) < 2 ^ 64"
  shows "gap_holds n q \<longleftrightarrow> unat (gn_seq_no n) \<le> unat q \<and> unat q < unat (gn_seq_no n) + unat (gn_size n)"
  using assms by (simp add: gap_holds_def word_le_nat_alt word_less_nat_alt unat_add_ucast)

text \<open>Filling one end of a gap.\<close>

lemma del_edge_rep:
  assumes rep: "gap_rep l (xs @ c # ys)"
    and f: "\<And>m. gn_next (f m) = gn_next m" "\<And>m. gn_prev (f m) = gn_prev m"
    and l1: "l1 = gap_upd c f l" and v: "gap_val (f (gap_at l c)) = (s', z', t)"
  shows "\<exists>l' p as'. gap_del_finish c (l1, Some c, rc) = Some (l', p, rc) \<and> gap_rep l' as' \<and> gap_cfg l' = gap_cfg l \<and>
    gap_vals l' as' = gap_vals l xs @ (if z' = 0 then [] else [(s', z', t)]) @ gap_vals l ys"
proof -
  have d: "distinct (xs @ c # ys)" "gl_data l \<noteq> None" using rep by (auto simp: gap_rep_def)
  have rep1: "gap_rep l1 (xs @ c # ys)" unfolding l1 using rep f by (intro gap_rep_upd_val) simp_all
  have at: "gap_at l1 x = (if x = c then f (gap_at l c) else gap_at l x)" for x
    using d(2) by (simp add: l1 gap_at_upd)
  then have vals: "gap_vals l1 xs = gap_vals l xs" "gap_vals l1 ys = gap_vals l ys"
    "gap_val (gap_at l1 c) = (s', z', t)" "gap_cfg l1 = gap_cfg l"
    using d(1) v by (auto intro!: gap_vals_cong simp: l1)
  show ?thesis
  proof (cases "z' = 0")
    case True
    obtain l' where "gap_unlink l1 c = Some l'" "gap_rep l' (xs @ ys)" "gap_cfg l' = gap_cfg l1"
      "\<And>a. gap_val (gap_at l' a) = gap_val (gap_at l1 a)"
      using unlink_rep [OF rep1] by auto
    moreover from this(4) have "gap_vals l' (xs @ ys) = gap_vals l1 (xs @ ys)"
      by (intro gap_vals_cong) simp
    ultimately show ?thesis using True vals by (auto simp: gap_val_def gap_del_finish_def)
  next
    case False
    then show ?thesis
      using rep1 vals by (intro exI [of _ l1] exI [of _ "Some c"] exI [of _ "xs @ c # ys"])
        (auto simp: gap_val_def gap_del_finish_def)
  qed
qed

lemma gap_middle:
  assumes wf: "unat (s :: u64) + unat (z :: u32) < 2 ^ 64" and q: "unat s \<le> unat q" "unat q < unat s + unat z"
    and ne: "s \<noteq> q" "s + ucast z - 1 \<noteq> q"
  shows "q > s" and "q < s + ucast z - 1" and "ucast (q - s) \<noteq> (0 :: u32)"
    and "unat (ucast (q - s) :: u32) = unat q - unat s"
    and "unat (z - ucast (q - s) - 1) = unat s + unat z - unat q - 1"
    and "unat q < unat s + unat z - 1" and "unat s < unat q"
proof -
  have "unat s \<noteq> unat q" using ne(1) by (simp add: word_unat_eq_iff)
  then show lt: "unat s < unat q" using q(1) by linarith
  then show "q > s" by (simp add: word_less_nat_alt)
  have sz: "unat (s + ucast z) = unat s + unat z" using wf by (rule unat_add_ucast)
  then have "s + ucast z \<noteq> 0" using q by auto
  then have u: "unat (s + ucast z - 1) = unat s + unat z - 1" using sz by (simp add: unat_dec)
  have "unat (s + ucast z - 1) \<noteq> unat q" using ne(2) by (simp add: word_unat_eq_iff)
  then show q1: "unat q < unat s + unat z - 1" using q u by linarith
  then show "q < s + ucast z - 1" using u by (simp only: word_less_nat_alt)
  show e: "unat (ucast (q - s) :: u32) = unat q - unat s"
    by (rule unat_ucast_diff [OF wf]) (use q sz in \<open>simp_all add: word_le_nat_alt word_less_nat_alt\<close>)
  then show "ucast (q - s) \<noteq> (0 :: u32)" using lt by auto
  have z: "unat (z - ucast (q - s)) = unat z - (unat q - unat s)"
    using e q by (subst unat_sub) (simp_all add: word_le_nat_alt)
  then have "z - ucast (q - s) \<noteq> 0" using q lt by auto
  then show "unat (z - ucast (q - s) - 1) = unat s + unat z - unat q - 1"
    using z lt q by (simp add: unat_dec)
qed

lemma del_finish_split:
  assumes "gap_rep l1 (xs @ c # n # ys)"
    and "gap_vals l1 (xs @ c # n # ys) = gap_vals l xs @ (s, d, t) # g # gap_vals l ys" and "d \<noteq> 0"
  shows "gap_del_finish c (l1, Some n, rc) = Some (l1, Some n, rc)"
proof -
  have "gap_val (gap_at l1 c) = (s, d, t)" using assms(2) by (simp add: gap_vals_def)
  with assms(3) show ?thesis by (auto simp: gap_del_finish_def gap_val_def)
qed

lemma del_rep:
  assumes rep: "gap_rep l (xs @ c # ys)" and val: "gap_val (gap_at l c) = (s, z, t)"
    and wf: "unat s + unat z < 2 ^ 64" and q: "gap_holds (gap_at l c) q"
  shows "\<exists>l' p rc as'. fh_shr_gap_fill_del l c q = Some (l', p, rc) \<and> gap_rep l' as' \<and>
    gap_cfg l' = gap_cfg l \<and>
    (gap_vals l' as', rc) = gaps_del (length (xs @ c # ys) = unat (gl_max l)) (gap_vals l xs) (s, z, t)
      (gap_vals l ys) q"
proof -
  note r = rep [unfolded gap_rep_def]
  have v: "gn_seq_no (gap_at l c) = s" "gn_size (gap_at l c) = z" "gn_timestamp (gap_at l c) = t"
    using val by (simp_all add: gap_val_def)
  have qs: "unat s \<le> unat q" "unat q < unat s + unat z"
    using q gap_holds_iff [of "gap_at l c" q] wf v by simp_all
  have edge: ?thesis if "gap_del_step l c q = Some (gap_upd c f l, Some c, rc)"
      "\<And>m. gn_next (f m) = gn_next m" "\<And>m. gn_prev (f m) = gn_prev m"
      "gap_val (f (gap_at l c)) = (s', z', t)"
      "gaps_del (length (xs @ c # ys) = unat (gl_max l)) (gap_vals l xs) (s, z, t) (gap_vals l ys) q =
        (gap_vals l xs @ (if z' = 0 then [] else [(s', z', t)]) @ gap_vals l ys, rc)" for f rc s' z'
    using del_edge_rep [OF rep that(2,3) refl that(4), of rc] that(1,5)
    by (auto simp: fh_shr_gap_fill_del_def)
  have full: "gl_count l \<ge> gl_max l \<longleftrightarrow> length (xs @ c # ys) = unat (gl_max l)"
    using r by (auto simp: word_le_nat_alt)
  consider (first) "s = q" | (last) "s \<noteq> q" "s + ucast z - 1 = q"
    | (room) "s \<noteq> q" "s + ucast z - 1 \<noteq> q" "length (xs @ c # ys) \<noteq> unat (gl_max l)"
    | (head) "s \<noteq> q" "s + ucast z - 1 \<noteq> q" "length (xs @ c # ys) = unat (gl_max l)" "xs = []"
    | (reuse) x xs' where "s \<noteq> q" "s + ucast z - 1 \<noteq> q" "length (xs @ c # ys) = unat (gl_max l)" "xs = x # xs'"
    by (cases xs) blast+
  then show ?thesis
  proof cases
    case first
    then have "gap_del_step l c q = Some (gap_upd c (\<lambda>n. n\<lparr>gn_seq_no := gn_seq_no n + 1,
        gn_size := gn_size n - 1\<rparr>) l, Some c, 0)"
      using v by (simp add: gap_del_step_def)
    from edge [OF this, of "q + 1" "z - 1"] first v show ?thesis
      by (simp add: gap_val_def gaps_del_def)
  next
    case last
    then have "gap_del_step l c q = Some (gap_upd c (\<lambda>n. n\<lparr>gn_size := gn_size n - 1\<rparr>) l, Some c, 0)"
      using v by (simp add: gap_del_step_def)
    moreover have "z \<noteq> 1" using last by auto
    ultimately show ?thesis using edge [of _ 0 s "z - 1"] last v
      by (simp add: gap_val_def gaps_del_def)
  next
    case room
    note m = gap_middle [OF wf qs room(1,2)]
    have "length (xs @ c # ys) < unat (gl_max l)" using r room by simp
    from split_new_rep [OF rep this val, of q] obtain l1 n where s1:
      "gap_split_new l c q = Some (l1, Some n, 0)" "gap_rep l1 (xs @ c # n # ys)"
      "gap_vals l1 (xs @ c # n # ys) = gap_vals l xs @ (s, ucast (q - s), t) #
        (q + 1, z - ucast (q - s) - 1, t) # gap_vals l ys" "gap_cfg l1 = gap_cfg l" by blast
    have "fh_shr_gap_fill_del l c q = Some (l1, Some n, 0)"
      using room m(1,2) v full s1(1) del_finish_split [OF s1(2,3) m(3)]
      by (simp add: fh_shr_gap_fill_del_def gap_del_step_def Let_def)
    with s1 room show ?thesis by (auto simp: gaps_del_def Let_def)
  next
    case head
    note m = gap_middle [OF wf qs head(1,2)]
    have "unat (z - ucast (q - s) - 1) \<noteq> 0" using m(5,6) by linarith
    then have nz: "z - ucast (q - s) - 1 \<noteq> 0" by (metis unat_0)
    have "gap_del_step l c q = Some (gap_upd c (\<lambda>n. n\<lparr>gn_size := gn_size n - (ucast (q - s) + 1),
        gn_seq_no := q + 1\<rparr>) l, Some c, sint (ucast (q - s) :: u32))"
      using head m(1,2) v full r by (simp add: gap_del_step_def Let_def)
    from edge [OF this, of "q + 1" "z - ucast (q - s) - 1"] nz head v show ?thesis
      by (simp add: gap_val_def gaps_del_def Let_def diff_diff_eq)
  next
    case reuse
    note m = gap_middle [OF wf qs reuse(1,2)]
    have hd: "gl_head l \<noteq> Some c" using r reuse by auto
    obtain s0 z0 t0 where v0: "gap_val (gap_at l x) = (s0, z0, t0)" by (metis prod_cases3)
    from split_reuse_rep [of l x xs' c ys, OF _ val v0, of q] rep reuse obtain l1 where s1:
      "gap_split_reuse l c q = Some (l1, Some x, sint z)" "gap_rep l1 (xs' @ c # x # ys)"
      "gap_vals l1 (xs' @ c # x # ys) = gap_vals l xs' @ (s, ucast (q - s), t) #
        (q + 1, z - ucast (q - s) - 1, t0) # gap_vals l ys" "gap_cfg l1 = gap_cfg l" by auto
    have "fh_shr_gap_fill_del l c q = Some (l1, Some x, sint z)"
      using reuse m(1,2) v full hd s1(1) del_finish_split [OF s1(2,3) m(3)]
      by (simp add: fh_shr_gap_fill_del_def gap_del_step_def Let_def)
    with s1 reuse v0 show ?thesis by (auto simp: gaps_del_def Let_def)
  qed
qed

subsection \<open>Dropping expired gaps\<close>

definition expired :: "int \<Rightarrow> u64 \<times> u32 \<times> int \<Rightarrow> bool" where
  "expired limit g \<longleftrightarrow> snd (snd g) < limit"

definition gap_flush_step :: "gap_list \<Rightarrow> addr \<Rightarrow> gap_list option" where
  "gap_flush_step l h =
     do { mp \<leftarrow> gl_data l;
          let l = l\<lparr>gl_data := Some (fh_mpool_put gap_zero mp h)\<rparr>;
          let l = l\<lparr>gl_head := gn_next (gap_at l h)\<rparr>;
          let l = (case gl_head l of
                     None \<Rightarrow> l\<lparr>gl_tail := None\<rparr>
                   | Some h2 \<Rightarrow> gap_upd h2 (gn_prev_update (\<lambda>_. None)) l);
          Some (l\<lparr>gl_count := gl_count l - 1\<rparr>) }"

lemma gap_flush_loop_step:
  "gap_flush_loop limit l lost =
    (case gl_head l of
       None \<Rightarrow> Some (l, lost)
     | Some h \<Rightarrow>
         if gn_timestamp (gap_at l h) \<ge> limit then Some (l, lost)
         else do { l1 \<leftarrow> gap_flush_step l h; gap_flush_loop limit l1 (lost + gn_size (gap_at l h)) })"
  by (subst gap_flush_loop.simps) (simp add: gap_flush_step_def Let_def split: option.split)

lemma flush_step_rep:
  assumes rep: "gap_rep l (h # as)"
  obtains l' where "gap_flush_step l h = Some l'" "gap_rep l' as" "gap_vals l' as = gap_vals l as"
    "gap_cfg l' = gap_cfg l"
proof -
  note r = rep [unfolded gap_rep_def]
  obtain mp where mp: "gl_data l = Some mp"
    "gap_pool (l\<lparr>gl_data := Some (fh_mpool_put gap_zero mp h)\<rparr>) (set (h # as) - {h})"
    "mp_data (fh_mpool_put gap_zero mp h) = mp_data mp"
    using gap_pool_put [of l "set (h # as)" h] r by auto
  define l1 where "l1 = l\<lparr>gl_data := Some (fh_mpool_put gap_zero mp h)\<rparr>"
  have at1: "gap_at l1 = gap_at l" using mp(1,3) by (simp add: gap_at_def fun_eq_iff l1_def)
  have nx: "gn_next (gap_at l h) = first_or as None" using r by simp
  define l2 where "l2 = l1\<lparr>gl_head := first_or as None\<rparr>"
  define l3 where "l3 = (case first_or as None of None \<Rightarrow> l2\<lparr>gl_tail := None\<rparr>
      | Some h2 \<Rightarrow> gap_upd h2 (gn_prev_update (\<lambda>_. None)) l2)"
  let ?l' = "l3\<lparr>gl_count := gl_count l3 - 1\<rparr>"
  have step: "gap_flush_step l h = Some ?l'"
    using mp(1) nx by (simp add: gap_flush_step_def Let_def l3_def l2_def at1 cong: option.case_cong
        flip: l1_def)
  have at2: "gap_at l2 = gap_at l" by (simp add: l2_def at1)
  have d2: "gl_data l2 \<noteq> None" by (simp add: l2_def l1_def)
  have at3: "gap_at ?l' a = (if first_or as None = Some a then (gap_at l a)\<lparr>gn_prev := None\<rparr> else gap_at l a)" for a
    using d2 by (cases as) (simp_all add: l3_def gap_at_upd at2)
  have "gl_count l \<noteq> 0" using r by auto
  then have cnt: "unat (gl_count l - 1) = length as" using r by (simp add: unat_dec)
  have "gl_count l3 = gl_count l" "gl_max l3 = gl_max l" "gl_timeout l3 = gl_timeout l"
    "gl_head l3 = first_or as None" "gl_tail l3 = (if as = [] then None else gl_tail l)"
    "gap_pool l3 U = gap_pool l1 U" for U
    by (simp_all add: l3_def l2_def l1_def split: option.split) (simp_all add: first_or_def split: list.splits)
  moreover have "dseg (gap_at ?l') as None = dseg (gap_at l) as None"
  proof (rule dseg_cong)
    fix a assume "a \<in> set (tl as)"
    then have "first_or as None \<noteq> Some a" using r by (cases as) auto
    then show "gn_prev (gap_at ?l' a) = gn_prev (gap_at l a)" unfolding at3 by simp
  qed (unfold at3, simp)
  moreover have "set (h # as) - {h} = set as" using r by auto
  ultimately have "gap_rep ?l' as" "gap_cfg ?l' = gap_cfg l"
    using r cnt mp(2) by (auto simp: gap_rep_def l1_def)
  moreover have "gap_vals ?l' as = gap_vals l as"
    by (rule gap_vals_cong) (unfold at3, simp add: gap_val_def)
  ultimately show thesis using step that by blast
qed

lemma flush_loop_rep:
  "gap_rep l as \<Longrightarrow> \<exists>l' as'. gap_flush_loop limit l lost =
      Some (l', lost + (\<Sum>g\<leftarrow>takeWhile (expired limit) (gap_vals l as). fst (snd g))) \<and>
    gap_rep l' as' \<and> gap_vals l' as' = dropWhile (expired limit) (gap_vals l as) \<and> gap_cfg l' = gap_cfg l"
proof (induction as arbitrary: l lost)
  case Nil
  then show ?case
    by (subst gap_flush_loop.simps) (auto simp: gap_rep_def)
next
  case (Cons h as)
  have hd: "gl_head l = Some h" using Cons.prems by (simp add: gap_rep_def)
  show ?case
  proof (cases "gn_timestamp (gap_at l h) \<ge> limit")
    case True
    then show ?thesis
      using hd Cons.prems by (auto simp: gap_flush_loop_step [of limit l] expired_def gap_val_def
          intro!: exI [of _ "h # as"])
  next
    case False
    obtain l1 where l1: "gap_flush_step l h = Some l1" "gap_rep l1 as" "gap_vals l1 as = gap_vals l as"
      "gap_cfg l1 = gap_cfg l" using flush_step_rep [OF Cons.prems] by blast
    with False hd Cons.IH [OF l1(2), of "lost + gn_size (gap_at l h)"] show ?thesis
      by (auto simp: gap_flush_loop_step [of limit l] expired_def gap_val_def add.assoc)
  qed
qed

lemma flush_rep:
  assumes "gap_rep l as"
  shows "\<exists>l' as'. fh_shr_gap_fill_flush now l =
      Some (l', sint (\<Sum>g\<leftarrow>takeWhile (expired (now - uint (gl_timeout l))) (gap_vals l as). fst (snd g))) \<and>
    gap_rep l' as' \<and> gap_cfg l' = gap_cfg l \<and>
    gap_vals l' as' = dropWhile (expired (now - uint (gl_timeout l))) (gap_vals l as)"
  using flush_loop_rep [OF assms, of "now - uint (gl_timeout l)" 0]
  by (auto simp: fh_shr_gap_fill_flush_def Let_def)

subsection \<open>A new list\<close>

lemma new_rep:
  assumes "fh_shr_gap_fill_new ok1 ok2 ok3 arena mx timeout = Some l" and "ok2" and "ok3"
    and "arena = Some a" and fits: "8 + unat mx * 56 < 2 ^ 32" "unat a + (8 + unat mx * 56) < 2 ^ 64"
  shows "gap_rep l []" and "gl_max l = mx" and "gl_timeout l = timeout"
proof -
  have l: "l = \<lparr>gl_count = 0, gl_max = mx, gl_timeout = timeout, gl_head = None, gl_tail = None,
      gl_data = fh_mpool_new gap_zero True True (Some a) ''gap_list'' 48 mx 0\<rparr>"
    using assms by (auto simp: fh_shr_gap_fill_new_def split: if_splits)
  obtain mp where mp: "fh_mpool_new gap_zero True True (Some a) ''gap_list'' 48 mx 0 = Some mp"
    "mp_nchunks mp = mx" "mp_chunksize mp = 48"
    by (simp add: fh_mpool_new_def mpool_grow_Some Let_def)
  then have "block_fits mp a" using fits by (simp add: block_fits_def)
  from fh_mpool_new_pool_ok [OF mp(1) this] have "gap_pool l {}"
    by (auto simp: gap_pool_def l mp(1) mp_fixed_def mp_total_def mp_flag_def mpool_ok_def)
  with l fits show "gap_rep l []" "gl_max l = mx" "gl_timeout l = timeout"
    by (auto simp: gap_rep_def)
qed

subsection \<open>The sequence numbers a list tracks\<close>

text \<open>The nodes of a list, following \<^verbatim>\<open>next\<close> at most \<^verbatim>\<open>count\<close> times.\<close>

fun gap_walk :: "gap_list \<Rightarrow> nat \<Rightarrow> ptr \<Rightarrow> addr list" where
  "gap_walk l 0 p = []"
| "gap_walk l (Suc k) None = []"
| "gap_walk l (Suc k) (Some a) = a # gap_walk l k (gn_next (gap_at l a))"

definition gap_addrs :: "gap_list \<Rightarrow> addr list" where
  "gap_addrs l = gap_walk l (unat (gl_count l)) (gl_head l)"

lemma gap_walk_dseg: "dseg (gap_at l) as None \<Longrightarrow> gap_walk l (length as) (first_or as None) = as"
  by (induction as) simp_all

lemma gap_addrs_rep: "gap_rep l as \<Longrightarrow> gap_addrs l = as"
  by (simp add: gap_addrs_def gap_rep_def gap_walk_dseg)

text \<open>The gaps of a list, oldest first, and the set of sequence numbers they cover.\<close>

definition gap_contents :: "gap_list \<Rightarrow> (u64 \<times> u32 \<times> int) list" where
  "gap_contents l = gap_vals l (gap_addrs l)"

definition gap_range :: "u64 \<times> u32 \<times> int \<Rightarrow> nat set" where
  "gap_range g = {unat (fst g)..<unat (fst g) + unat (fst (snd g))}"

definition gaps_cover :: "(u64 \<times> u32 \<times> int) list \<Rightarrow> nat set" where
  "gaps_cover gs = (\<Union>g\<in>set gs. gap_range g)"

abbreviation missing :: "gap_list \<Rightarrow> nat set" where
  "missing l \<equiv> gaps_cover (gap_contents l)"

text \<open>Gaps are not empty, do not wrap, and are in ascending order without overlap.\<close>

definition gap_wf :: "u64 \<times> u32 \<times> int \<Rightarrow> bool" where
  "gap_wf g \<longleftrightarrow> 0 < unat (fst (snd g)) \<and> unat (fst g) + unat (fst (snd g)) < 2 ^ 64"

definition gap_before :: "u64 \<times> u32 \<times> int \<Rightarrow> u64 \<times> u32 \<times> int \<Rightarrow> bool" where
  "gap_before g g' \<longleftrightarrow> unat (fst g) + unat (fst (snd g)) \<le> unat (fst g')"

definition gaps_wf :: "(u64 \<times> u32 \<times> int) list \<Rightarrow> bool" where
  "gaps_wf gs \<longleftrightarrow> (\<forall>g\<in>set gs. gap_wf g) \<and> sorted_wrt gap_before gs"

definition gap_inv :: "gap_list \<Rightarrow> bool" where
  "gap_inv l \<longleftrightarrow> gap_rep l (gap_addrs l) \<and> gaps_wf (gap_contents l) \<and> 2 \<le> unat (gl_max l)"

lemma gap_invI:
  "gap_rep l as \<Longrightarrow> gap_vals l as = gs \<Longrightarrow> gaps_wf gs \<Longrightarrow> 2 \<le> unat (gl_max l) \<Longrightarrow>
     gap_inv l \<and> gap_contents l = gs"
  by (simp add: gap_inv_def gap_contents_def gap_addrs_rep)

lemma gaps_cover_simps [simp]:
  "gaps_cover [] = {}" "gaps_cover (g # gs) = gap_range g \<union> gaps_cover gs"
  "gaps_cover (gs @ hs) = gaps_cover gs \<union> gaps_cover hs"
  by (auto simp: gaps_cover_def)

lemma gap_range_simps [simp]: "gap_range (s, z, t) = {unat s..<unat s + unat z}"
  by (simp add: gap_range_def)

lemma gaps_wf_append:
  "gaps_wf (gs @ hs) \<longleftrightarrow> gaps_wf gs \<and> gaps_wf hs \<and> (\<forall>g\<in>set gs. \<forall>h\<in>set hs. gap_before g h)"
  by (auto simp: gaps_wf_def sorted_wrt_append)

lemma gaps_wf_Cons:
  "gaps_wf (g # gs) \<longleftrightarrow> gap_wf g \<and> gaps_wf gs \<and> (\<forall>h\<in>set gs. gap_before g h)"
  by (auto simp: gaps_wf_def)

lemma gaps_wf_Nil [simp]: "gaps_wf []" by (simp add: gaps_wf_def)

text \<open>Disjointness of the gaps before and after one.\<close>

lemma gaps_before_cover:
  "\<forall>g\<in>set gs. gap_before g (s, z, t) \<Longrightarrow> x \<in> gaps_cover gs \<Longrightarrow> x < unat s"
  by (auto simp: gaps_cover_def gap_range_def gap_before_def)

lemma gaps_after_cover:
  "\<forall>g\<in>set gs. gap_before (s, z, t) g \<Longrightarrow> x \<in> gaps_cover gs \<Longrightarrow> unat s + unat z \<le> x"
  by (auto simp: gaps_cover_def gap_range_def gap_before_def)

lemma finite_gaps_cover [simp]: "finite (gaps_cover gs)"
  by (auto simp: gaps_cover_def gap_range_def)

lemma gap_range_holds:
  "gap_wf (gap_val n) \<Longrightarrow> gap_holds n q \<longleftrightarrow> unat q \<in> gap_range (gap_val n)"
  by (simp add: gap_holds_iff gap_wf_def gap_val_def)

subsection \<open>Operations on the tracked set\<close>

lemma push_cover:
  assumes inv: "gap_inv l" and sz: "0 < unat sz" "unat q + unat sz < 2 ^ 64"
    and above: "\<forall>x\<in>missing l. x < unat q"
  shows "\<exists>l' lost. fh_shr_gap_fill_push now l q sz = Some (l', sint (of_nat (card lost) :: u32)) \<and>
    gap_inv l' \<and> gap_cfg l' = gap_cfg l \<and>
    lost = (if length (gap_contents l) < unat (gl_max l) then {} else gap_range (hd (gap_contents l))) \<and>
    missing l' = missing l - lost \<union> {unat q..<unat q + unat sz}"
proof -
  let ?as = "gap_addrs l" and ?gs = "gap_contents l"
  have rep: "gap_rep l ?as" and wf: "gaps_wf ?gs" and mx: "2 \<le> unat (gl_max l)"
    using inv by (auto simp: gap_inv_def)
  have len: "length ?as = length ?gs" by (simp add: gap_contents_def gap_vals_def)
  have "gap_before g (q, sz, now)" if "g \<in> set ?gs" for g
  proof -
    have "gap_wf g" using wf that by (auto simp: gaps_wf_def)
    then have "unat (fst g) + unat (fst (snd g)) - 1 \<in> missing l"
      using that by (auto simp: gaps_cover_def gap_range_def gap_wf_def intro!: bexI [of _ g])
    then have "unat (fst g) + unat (fst (snd g)) - 1 < unat q" using above by blast
    then show ?thesis by (simp add: gap_before_def)
  qed
  then have wf1: "gaps_wf (?gs @ [(q, sz, now)])"
    using wf sz by (simp add: gaps_wf_append gaps_wf_Cons gap_wf_def)
  show ?thesis
  proof (cases "length ?gs < unat (gl_max l)")
    case True
    from push_room [OF rep, of now q sz] True len obtain l' a where
      "fh_shr_gap_fill_push now l q sz = Some (l', 0)" "gap_rep l' (?as @ [a])"
      "gap_vals l' (?as @ [a]) = ?gs @ [(q, sz, now)]" "gap_cfg l' = gap_cfg l"
      by (auto simp: gap_contents_def)
    moreover from this gap_invI [OF this(2,3) wf1] mx
    have "gap_inv l' \<and> gap_contents l' = ?gs @ [(q, sz, now)]" by simp
    ultimately show ?thesis using True by (intro exI [of _ l'] exI [of _ "{}"]) simp
  next
    case False
    then have full: "length ?as = unat (gl_max l)" using rep len by (simp add: gap_rep_def)
    then obtain a b as where as: "?as = a # b # as"
      using mx by (metis Suc_le_length_iff numeral_2_eq_2)
    let ?g = "gap_val (gap_at l a)" and ?gs1 = "gap_vals l (b # as)"
    have gs: "?gs = ?g # ?gs1" by (simp add: gap_contents_def as)
    from push_full [of l a b as now q sz] rep full as obtain l' where l':
      "fh_shr_gap_fill_push now l q sz = Some (l', sint (gn_size (gap_at l a)))"
      "gap_rep l' (b # as @ [a])" "gap_vals l' (b # as @ [a]) = ?gs1 @ [(q, sz, now)]"
      "gap_cfg l' = gap_cfg l" by auto
    have wf2: "gaps_wf (?gs1 @ [(q, sz, now)])" using wf1 by (simp add: gs gaps_wf_Cons)
    have inv': "gap_inv l' \<and> gap_contents l' = ?gs1 @ [(q, sz, now)]"
      using gap_invI [OF l'(2,3) wf2] mx l'(4) by simp
    have "\<forall>h\<in>set ?gs1. gap_before ?g h" using wf by (simp add: gs gaps_wf_Cons)
    then have "gap_range ?g \<inter> gaps_cover ?gs1 = {}"
      using gaps_after_cover [of ?gs1 "gn_seq_no (gap_at l a)" "gn_size (gap_at l a)"
          "gn_timestamp (gap_at l a)"] by (fastforce simp: gap_val_def)
    then have "missing l - gap_range ?g = gaps_cover ?gs1" unfolding gs by auto
    moreover have "card (gap_range ?g) = unat (gn_size (gap_at l a))" by (simp add: gap_val_def)
    ultimately show ?thesis
      using False l'(1,4) inv' by (intro exI [of _ l'] exI [of _ "gap_range ?g"]) (simp add: gs Un_assoc)
  qed
qed

lemma find_SomeE:
  assumes "List.find P as = Some c"
  obtains xs ys where "as = xs @ c # ys" "P c"
  using assms by (metis find_Some_iff id_take_nth_drop)

lemma find_cover:
  assumes "gap_inv l"
  shows "\<exists>p. fh_shr_gap_fill_find l q = Some p \<and> (p = None \<longleftrightarrow> unat q \<notin> missing l) \<and>
    (\<forall>c. p = Some c \<longrightarrow> (\<exists>xs ys. gap_addrs l = xs @ c # ys \<and> gap_holds (gap_at l c) q))"
proof -
  have rep: "gap_rep l (gap_addrs l)" and wf: "gaps_wf (gap_contents l)"
    using assms by (auto simp: gap_inv_def)
  have "gap_holds (gap_at l a) q \<longleftrightarrow> unat q \<in> gap_range (gap_val (gap_at l a))"
    if "a \<in> set (gap_addrs l)" for a
    using wf that by (intro gap_range_holds) (auto simp: gaps_wf_def gap_contents_def gap_vals_def)
  then have "List.find (\<lambda>a. gap_holds (gap_at l a) q) (gap_addrs l) = None \<longleftrightarrow> unat q \<notin> missing l"
    by (auto simp: find_None_iff gaps_cover_def gap_contents_def gap_vals_def)
  then show ?thesis
    using find_rep [OF rep, of q] find_SomeE [of "\<lambda>a. gap_holds (gap_at l a) q" "gap_addrs l"]
    by (metis (mono_tags, lifting))
qed

text \<open>
  A sequence number strictly inside a gap splits it; in a full list that gives up the part of the
  oldest gap below the sequence number.
\<close>

definition gap_inner :: "(u64 \<times> u32 \<times> int) list \<Rightarrow> nat \<Rightarrow> bool" where
  "gap_inner gs q \<longleftrightarrow> (\<exists>g\<in>set gs. unat (fst g) < q \<and> q + 1 < unat (fst g) + unat (fst (snd g)))"

definition fill_lost :: "bool \<Rightarrow> (u64 \<times> u32 \<times> int) list \<Rightarrow> nat \<Rightarrow> nat set" where
  "fill_lost full gs q = (if full \<and> gap_inner gs q then gap_range (hd gs) \<inter> {..<q} else {})"

lemma gap_inner_mid:
  assumes wf: "gaps_wf (pre @ (s, z, t) # post)" and q: "unat s \<le> q" "q < unat s + unat z"
  shows "gap_inner (pre @ (s, z, t) # post) q \<longleftrightarrow> unat s < q \<and> q + 1 < unat s + unat z"
proof -
  have pre: "\<forall>g\<in>set pre. gap_before g (s, z, t)" and post: "\<forall>g\<in>set post. gap_before (s, z, t) g"
    using wf by (auto simp: gaps_wf_append gaps_wf_Cons)
  have "\<not> (unat (fst g) < q \<and> q + 1 < unat (fst g) + unat (fst (snd g)))" if "g \<in> set pre \<union> set post" for g
    using that pre post q by (fastforce simp: gap_before_def)
  then show ?thesis by (auto simp: gap_inner_def)
qed

definition gap_parts :: "u64 \<Rightarrow> u32 \<Rightarrow> int \<Rightarrow> int \<Rightarrow> u64 \<Rightarrow> (u64 \<times> u32 \<times> int) list" where
  "gap_parts s z t t' q =
    (let d = ucast (q - s) in
     if q = s then if z = 1 then [] else [(s + 1, z - 1, t)]
     else if s + ucast z - 1 = q then [(s, z - 1, t)]
     else [(s, d, t), (q + 1, z - d - 1, t')])"

definition gap_within :: "u64 \<times> u32 \<times> int \<Rightarrow> u64 \<Rightarrow> u32 \<Rightarrow> bool" where
  "gap_within h s z \<longleftrightarrow>
     unat s \<le> unat (fst h) \<and> unat (fst h) + unat (fst (snd h)) \<le> unat s + unat z"

lemma gap_parts_ok:
  assumes w: "0 < unat z" "unat s + unat z < 2 ^ 64" and q: "unat s \<le> unat q" "unat q < unat s + unat z"
  shows "gaps_wf (gap_parts s z t t' q) \<and> (\<forall>h\<in>set (gap_parts s z t t' q). gap_within h s z) \<and>
    gaps_cover (gap_parts s z t t' q) = {unat s..<unat s + unat z} - {unat q}"
proof -
  have us: "unat (s + 1) = Suc (unat s)" using w by (subst unat_inc) simp_all
  have uz: "unat (z - 1) = unat z - 1" using w(1) by (intro unat_dec) auto
  have sz: "unat (s + ucast z) = unat s + unat z" by (rule unat_add_ucast [OF w(2)])
  then have ul: "unat (s + ucast z - 1) = unat s + unat z - 1"
    using w(1) by (subst unat_dec) auto
  have z1: "z = 1 \<longleftrightarrow> unat z = 1" by (simp add: word_unat_eq_iff)
  consider (one) "q = s" "z = 1" | (first) "q = s" "z \<noteq> 1" | (last) "q \<noteq> s" "s + ucast z - 1 = q"
    | (mid) "q \<noteq> s" "s + ucast z - 1 \<noteq> q" by blast
  then show ?thesis
  proof cases
    case one
    with z1 show ?thesis by (auto simp: gap_parts_def)
  next
    case first
    then have "1 < unat z" using z1 w(1) by simp
    with first w us uz show ?thesis
      by (auto simp: gap_parts_def gaps_wf_Cons gap_wf_def gap_within_def)
  next
    case last
    then have "unat q = unat s + unat z - 1" "unat q \<noteq> unat s" using ul by (auto simp: word_unat_eq_iff)
    with last w uz show ?thesis
      by (auto simp: gap_parts_def gaps_wf_Cons gap_wf_def gap_within_def)
  next
    case mid
    then have m: "s \<noteq> q" "s + ucast z - 1 \<noteq> q" by auto
    note m = gap_middle [OF w(2) q m]
    have uq: "unat (q + 1) = Suc (unat q)" using w q by (subst unat_inc) simp_all
    have "gap_parts s z t t' q = [(s, ucast (q - s), t), (q + 1, z - ucast (q - s) - 1, t')]"
      using mid by (simp add: gap_parts_def Let_def)
    with m(4-7) uq w q show ?thesis
      by (auto simp: gaps_wf_Cons gap_wf_def gap_within_def gap_before_def)
  qed
qed

lemma gaps_replace:
  assumes wf: "gaps_wf (pre @ (s, z, t) # post)" and hs: "gaps_wf hs" "\<forall>h\<in>set hs. gap_within h s z"
  shows "gaps_wf (pre @ hs @ post)"
    and "gaps_cover (pre @ hs @ post) = gaps_cover (pre @ (s, z, t) # post) - ({unat s..<unat s + unat z} - gaps_cover hs)"
proof -
  have pre: "\<forall>g\<in>set pre. gap_before g (s, z, t)" and post: "\<forall>g\<in>set post. gap_before (s, z, t) g"
    and w: "gaps_wf pre" "gaps_wf post" "\<forall>g\<in>set pre. \<forall>h\<in>set post. gap_before g h"
    using wf by (auto simp: gaps_wf_append gaps_wf_Cons)
  have "gap_before g h" if "g \<in> set pre" "h \<in> set hs" for g h
    using pre hs(2) that by (force simp: gap_before_def gap_within_def)
  moreover have "gap_before h g" if "g \<in> set post" "h \<in> set hs" for g h
    using post hs(2) that by (force simp: gap_before_def gap_within_def)
  ultimately show "gaps_wf (pre @ hs @ post)" using w hs(1) by (auto simp: gaps_wf_append)
  have "gaps_cover hs \<subseteq> {unat s..<unat s + unat z}"
    using hs(2) by (fastforce simp: gaps_cover_def gap_range_def gap_within_def)
  moreover have "gaps_cover pre \<inter> {unat s..<unat s + unat z} = {}"
    "gaps_cover post \<inter> {unat s..<unat s + unat z} = {}"
    using gaps_before_cover [OF pre] gaps_after_cover [OF post] by force+
  ultimately show "gaps_cover (pre @ hs @ post) =
      gaps_cover (pre @ (s, z, t) # post) - ({unat s..<unat s + unat z} - gaps_cover hs)"
    by auto
qed

lemma gaps_del_parts:
  assumes wf: "gaps_wf (pre @ (s, z, t) # post)" and q: "unat s \<le> unat q" "unat q < unat s + unat z"
  shows "gaps_del full pre (s, z, t) post q =
    (if fill_lost full (pre @ (s, z, t) # post) (unat q) = {} then (pre @ gap_parts s z t t q @ post, 0)
     else case pre of
            [] \<Rightarrow> (tl (gap_parts s z t t q) @ post, sint (ucast (q - s) :: u32))
          | g # pre' \<Rightarrow> (pre' @ gap_parts s z t (snd (snd g)) q @ post, sint z))"
    and "fill_lost full (pre @ (s, z, t) # post) (unat q) \<noteq> {} \<Longrightarrow> q \<noteq> s \<and> s + ucast z - 1 \<noteq> q"
proof -
  have w: "0 < unat z" "unat s + unat z < 2 ^ 64"
    using wf by (auto simp: gaps_wf_append gaps_wf_Cons gap_wf_def)
  have g0: "pre \<noteq> [] \<Longrightarrow> gap_before (hd pre) (s, z, t) \<and> gap_wf (hd pre)"
    using wf by (cases pre) (auto simp: gaps_wf_append gaps_wf_Cons)
  have ul: "unat (s + ucast z - 1) = unat s + unat z - 1"
    using w(1) unat_add_ucast [OF w(2)] by (subst unat_dec) auto
  have mid: "q \<noteq> s \<and> s + ucast z - 1 \<noteq> q \<longleftrightarrow> unat s < unat q \<and> unat q + 1 < unat s + unat z"
    using q ul by (auto simp: word_unat_eq_iff)
  have "fill_lost full (pre @ (s, z, t) # post) (unat q) \<noteq> {} \<longleftrightarrow> full \<and> q \<noteq> s \<and> s + ucast z - 1 \<noteq> q"
  proof (cases "full \<and> q \<noteq> s \<and> s + ucast z - 1 \<noteq> q")
    case True
    have "unat (fst (hd (pre @ (s, z, t) # post))) \<in> gap_range (hd (pre @ (s, z, t) # post)) \<inter> {..<unat q}"
      using g0 True mid q by (cases pre) (auto simp: gap_range_def gap_before_def gap_wf_def)
    then show ?thesis using True mid gap_inner_mid [OF wf q] by (auto simp: fill_lost_def)
  qed (use mid gap_inner_mid [OF wf q] in \<open>auto simp: fill_lost_def\<close>)
  then show "gaps_del full pre (s, z, t) post q =
    (if fill_lost full (pre @ (s, z, t) # post) (unat q) = {} then (pre @ gap_parts s z t t q @ post, 0)
     else case pre of
            [] \<Rightarrow> (tl (gap_parts s z t t q) @ post, sint (ucast (q - s) :: u32))
          | g # pre' \<Rightarrow> (pre' @ gap_parts s z t (snd (snd g)) q @ post, sint z))"
    "fill_lost full (pre @ (s, z, t) # post) (unat q) \<noteq> {} \<Longrightarrow> q \<noteq> s \<and> s + ucast z - 1 \<noteq> q"
    by (auto simp: gaps_del_def gap_parts_def Let_def split: list.split)
qed

lemma gaps_del_cover:
  fixes full :: bool
  assumes wf: "gaps_wf (pre @ (s, z, t) # post)" and q: "unat s \<le> unat q" "unat q < unat s + unat z"
  defines "lost \<equiv> fill_lost full (pre @ (s, z, t) # post) (unat q)"
  shows "\<exists>gs' rc. gaps_del full pre (s, z, t) post q = (gs', rc) \<and> gaps_wf gs' \<and>
    gaps_cover gs' = gaps_cover (pre @ (s, z, t) # post) - {unat q} - lost \<and>
    rc = (if lost = {} then 0 else if pre = [] then sint (of_nat (card lost) :: u32) else sint z)"
proof -
  have w: "0 < unat z" "unat s + unat z < 2 ^ 64"
    using wf by (auto simp: gaps_wf_append gaps_wf_Cons gap_wf_def)
  have parts: "gaps_wf (gap_parts s z t t' q)" "\<forall>h\<in>set (gap_parts s z t t' q). gap_within h s z"
    "gaps_cover (gap_parts s z t t' q) = {unat s..<unat s + unat z} - {unat q}" for t'
    using gap_parts_ok [OF w q, of t t'] by auto
  have mem: "{unat s..<unat s + unat z} - ({unat s..<unat s + unat z} - {unat q}) = {unat q}"
    using q by auto
  note del = gaps_del_parts(1) [OF wf q, of full, folded lost_def]
  show ?thesis
  proof (cases "lost = {}")
    case True
    with del gaps_replace [OF wf parts(1,2), of t] show ?thesis by (simp only: parts(3) mem) simp
  next
    case False
    then have mid: "q \<noteq> s \<and> s + ucast z - 1 \<noteq> q"
      using gaps_del_parts(2) [OF wf q, of full] by (simp add: lost_def)
    have lost: "lost = gap_range (hd (pre @ (s, z, t) # post)) \<inter> {..<unat q}"
      using False by (auto simp: lost_def fill_lost_def split: if_splits)
    show ?thesis
    proof (cases pre)
      case Nil
      let ?p = "(q + 1, z - ucast (q - s) - 1, t)"
      have pt: "gap_parts s z t t q = [(s, ucast (q - s), t), ?p]" using mid by (simp add: gap_parts_def Let_def)
      have m: "unat (ucast (q - s) :: u32) = unat q - unat s" "unat s < unat q"
        using gap_middle [OF w(2) q] mid by auto
      have lq: "lost = {unat s..<unat q}" using q m by (auto simp: lost Nil)
      have wf1: "gaps_wf ([] @ (s, z, t) # post)" using wf Nil by simp
      have "gaps_wf [?p]" "\<forall>h\<in>set [?p]. gap_within h s z"
        using parts(1,2) [of t] unfolding pt by (simp_all add: gaps_wf_Cons)
      note rep = gaps_replace [OF wf1 this]
      have "{unat s..<unat s + unat z} - gaps_cover [?p] = {unat q} \<union> lost"
      proof -
        have "{unat s..<unat s + (unat q - unat s)} \<union> gaps_cover [?p] = {unat s..<unat s + unat z} - {unat q}"
          using parts(3) [of t] unfolding pt m(1)[symmetric] by simp
        moreover have "\<forall>x\<in>gaps_cover [?p]. unat q < x"
          using parts(1) [of t] m gaps_after_cover [of "[?p]" s "ucast (q - s)" t] parts(3) [of t]
          unfolding pt by (fastforce simp: gaps_wf_Cons)
        ultimately show ?thesis using lq m q by auto
      qed
      moreover have "unat (of_nat (card lost) :: u32) = unat (ucast (q - s) :: u32)"
        using unat_lt [of "ucast (q - s) :: u32"] by (simp add: lq m(1) unat_of_nat)
      then have "(of_nat (card lost) :: u32) = ucast (q - s)" by (simp only: word_unat_eq_iff)
      ultimately show ?thesis
        using del rep False Nil pt by (auto simp: lost_def [symmetric])
    next
      case (Cons g pre')
      have wf1: "gaps_wf (pre' @ (s, z, t) # post)" and g: "\<forall>h\<in>set (pre' @ (s, z, t) # post). gap_before g h"
        using wf Cons by (auto simp: gaps_wf_Cons)
      obtain s0 z0 t0 where g0: "g = (s0, z0, t0)" by (metis prod_cases3)
      have dis: "\<forall>x\<in>gaps_cover (pre' @ (s, z, t) # post). x \<notin> gap_range g"
        using gaps_after_cover [OF g [unfolded g0]] by (force simp: g0)
      have "lost = gap_range g"
        using g q by (auto simp: lost Cons g0 gap_before_def)
      moreover have "gaps_cover (pre' @ gap_parts s z t t0 q @ post) = gaps_cover (pre' @ (s, z, t) # post) - {unat q}"
        using gaps_replace(2) [OF wf1 parts(1,2), of t0] by (simp only: parts(3) mem)
      moreover have "gaps_wf (pre' @ gap_parts s z t t0 q @ post)"
        by (rule gaps_replace(1) [OF wf1 parts(1,2)])
      ultimately show ?thesis
        using del dis False Cons g0 by (auto simp del: gap_range_simps)
    qed
  qed
qed

lemma del_cover:
  assumes inv: "gap_inv l" and find: "fh_shr_gap_fill_find l q = Some (Some c)"
  shows "\<exists>l' p rc. fh_shr_gap_fill_del l c q = Some (l', p, rc) \<and> gap_inv l' \<and> gap_cfg l' = gap_cfg l \<and>
    missing l' = missing l - {unat q} -
      fill_lost (length (gap_contents l) = unat (gl_max l)) (gap_contents l) (unat q) \<and>
    rc = (if fill_lost (length (gap_contents l) = unat (gl_max l)) (gap_contents l) (unat q) = {} then 0
          else if gl_head l = Some c
          then sint (of_nat (card (fill_lost (length (gap_contents l) = unat (gl_max l)) (gap_contents l) (unat q))) :: u32)
          else sint (gn_size (gap_at l c)))"
proof -
  have rep: "gap_rep l (gap_addrs l)" and wf: "gaps_wf (gap_contents l)" and mx: "2 \<le> unat (gl_max l)"
    using inv by (auto simp: gap_inv_def)
  obtain xs ys where as: "gap_addrs l = xs @ c # ys" and h: "gap_holds (gap_at l c) q"
    using find_cover [OF inv, of q] find by auto
  obtain s z t where v: "gap_val (gap_at l c) = (s, z, t)" by (metis prod_cases3)
  have cs: "gap_contents l = gap_vals l xs @ (s, z, t) # gap_vals l ys"
    by (simp add: gap_contents_def as v)
  have w: "0 < unat z" "unat s + unat z < 2 ^ 64"
    using wf by (auto simp: cs gaps_wf_append gaps_wf_Cons gap_wf_def)
  then have q: "unat s \<le> unat q" "unat q < unat s + unat z"
    using h gap_holds_iff [of "gap_at l c" q] v by (auto simp: gap_val_def)
  have rep': "gap_rep l (xs @ c # ys)" using rep as by simp
  have len: "length (xs @ c # ys) = length (gap_contents l)" by (simp add: gap_contents_def gap_vals_def as)
  let ?full = "length (gap_contents l) = unat (gl_max l)"
  obtain l' p rc as' where d: "fh_shr_gap_fill_del l c q = Some (l', p, rc)" "gap_rep l' as'"
    "gap_cfg l' = gap_cfg l" "(gap_vals l' as', rc) = gaps_del ?full (gap_vals l xs) (s, z, t) (gap_vals l ys) q"
    using del_rep [OF rep' v w(2) h] unfolding len by blast
  obtain gs' where g: "gaps_del ?full (gap_vals l xs) (s, z, t) (gap_vals l ys) q = (gs', rc)" "gaps_wf gs'"
    "gaps_cover gs' = missing l - {unat q} - fill_lost ?full (gap_contents l) (unat q)"
    "rc = (if fill_lost ?full (gap_contents l) (unat q) = {} then 0
       else if gap_vals l xs = [] then sint (of_nat (card (fill_lost ?full (gap_contents l) (unat q))) :: u32)
       else sint z)"
    using gaps_del_cover [OF wf [unfolded cs] q, of ?full] d(4) unfolding cs [symmetric] by auto
  have "gap_inv l' \<and> gap_contents l' = gs'"
    using d g mx by (intro gap_invI [of l' as']) auto
  moreover have "gl_head l = Some c \<longleftrightarrow> gap_vals l xs = []"
    using rep' by (cases xs) (auto simp: gap_rep_def)
  moreover have "gn_size (gap_at l c) = z" using v by (simp add: gap_val_def)
  ultimately show ?thesis using d(1,3) g(3,4) by auto
qed

lemma card_gaps_cover:
  "gaps_wf gs \<Longrightarrow> (\<Sum>g\<leftarrow>gs. fst (snd g)) = (of_nat (card (gaps_cover gs)) :: u32)"
proof (induction gs)
  case (Cons g gs)
  obtain s z t where g: "g = (s, z, t)" by (metis prod_cases3)
  have "gap_range g \<inter> gaps_cover gs = {}"
    using gaps_after_cover [of gs s z t] Cons.prems by (force simp: g gaps_wf_Cons)
  then have "card (gaps_cover (g # gs)) = unat z + card (gaps_cover gs)"
    by (simp add: card_Un_disjoint g)
  then show ?case using Cons by (simp add: g gaps_wf_Cons)
qed simp

lemma flush_cover:
  fixes now :: int
  assumes inv: "gap_inv l"
  defines "old \<equiv> takeWhile (expired (now - uint (gl_timeout l))) (gap_contents l)"
  shows "\<exists>l'. fh_shr_gap_fill_flush now l = Some (l', sint (of_nat (card (gaps_cover old)) :: u32)) \<and>
    gap_inv l' \<and> gap_cfg l' = gap_cfg l \<and>
    gap_contents l' = dropWhile (expired (now - uint (gl_timeout l))) (gap_contents l) \<and>
    missing l' = missing l - gaps_cover old"
proof -
  let ?e = "expired (now - uint (gl_timeout l))"
  have rep: "gap_rep l (gap_addrs l)" and wf: "gaps_wf (gap_contents l)" and mx: "2 \<le> unat (gl_max l)"
    using inv by (auto simp: gap_inv_def)
  have split: "gap_contents l = old @ dropWhile ?e (gap_contents l)" by (simp add: old_def)
  have w: "gaps_wf old" "gaps_wf (dropWhile ?e (gap_contents l))"
    "\<forall>g\<in>set old. \<forall>h\<in>set (dropWhile ?e (gap_contents l)). gap_before g h"
    using wf gaps_wf_append [of old "dropWhile ?e (gap_contents l)"] split by auto
  obtain l' as' where f: "fh_shr_gap_fill_flush now l = Some (l', sint (\<Sum>g\<leftarrow>old. fst (snd g)))"
    "gap_rep l' as'" "gap_cfg l' = gap_cfg l" "gap_vals l' as' = dropWhile ?e (gap_contents l)"
    using flush_rep [OF rep, of now] by (auto simp: gap_contents_def old_def)
  have i: "gap_inv l' \<and> gap_contents l' = dropWhile ?e (gap_contents l)"
    using f mx w(2) by (intro gap_invI [of l' as']) auto
  have "gaps_cover old \<inter> gaps_cover (dropWhile ?e (gap_contents l)) = {}"
    using w(3) by (fastforce simp: gaps_cover_def gap_range_def gap_before_def)
  then have "missing l - gaps_cover old = gaps_cover (dropWhile ?e (gap_contents l))"
    by (subst split) auto
  with f i card_gaps_cover [OF w(1)] show ?thesis by auto
qed

subsection \<open>The interface the line handlers rely on\<close>

text \<open>
  A tracker of missing sequence numbers: it never faults, never reports a number nobody pushed,
  and forgets a number once it has been filled.
\<close>

locale gap_tracker =
  fixes push :: "int \<Rightarrow> 't \<Rightarrow> u64 \<Rightarrow> u32 \<Rightarrow> ('t \<times> int) option"
    and look :: "'t \<Rightarrow> u64 \<Rightarrow> 'p option option"
    and del :: "'t \<Rightarrow> 'p \<Rightarrow> u64 \<Rightarrow> ('t \<times> 'p option \<times> int) option"
    and flush :: "int \<Rightarrow> 't \<Rightarrow> ('t \<times> int) option"
    and tracked :: "'t \<Rightarrow> nat set"
    and inv :: "'t \<Rightarrow> bool"
  assumes push_law: "inv t \<Longrightarrow> 0 < unat sz \<Longrightarrow> unat q + unat sz < 2 ^ 64 \<Longrightarrow>
      \<forall>x\<in>tracked t. x < unat q \<Longrightarrow>
      \<exists>t' rc. push now t q sz = Some (t', rc) \<and> inv t' \<and>
        tracked t' \<subseteq> tracked t \<union> {unat q..<unat q + unat sz} \<and> {unat q..<unat q + unat sz} \<subseteq> tracked t'"
    and look_law: "inv t \<Longrightarrow> \<exists>p. look t q = Some p \<and> (p = None \<longleftrightarrow> unat q \<notin> tracked t)"
    and del_law: "inv t \<Longrightarrow> look t q = Some (Some c) \<Longrightarrow>
      \<exists>t' p rc. del t c q = Some (t', p, rc) \<and> inv t' \<and> tracked t' \<subseteq> tracked t - {unat q}"
    and flush_law: "inv t \<Longrightarrow> \<exists>t' n. flush now t = Some (t', n) \<and> inv t' \<and> tracked t' \<subseteq> tracked t"
begin

lemma fill_cases:
  assumes "inv t"
  obtains (absent) "look t q = Some None" "unat q \<notin> tracked t"
  | (filled) c t' p rc where "look t q = Some (Some c)" "unat q \<in> tracked t"
      "del t c q = Some (t', p, rc)" "inv t'" "tracked t' \<subseteq> tracked t - {unat q}"
  using look_law [OF assms, of q] del_law [OF assms, of q] by (metis not_None_eq)

lemma filled_once:
  assumes "inv t" and "look t q = Some (Some c)" and "del t c q = Some (t', p, rc)"
  shows "look t' q = Some None" and "look t r = Some None \<Longrightarrow> look t' r = Some None"
proof -
  have i: "inv t'" "tracked t' \<subseteq> tracked t - {unat q}" using del_law [OF assms(1,2)] assms(3) by auto
  then show "look t' q = Some None" using look_law [OF i(1), of q] by auto
  show "look t' r = Some None" if "look t r = Some None"
    using look_law [OF i(1), of r] look_law [OF assms(1), of r] that i(2) by auto
qed

end

interpretation gl: gap_tracker fh_shr_gap_fill_push fh_shr_gap_fill_find fh_shr_gap_fill_del
  fh_shr_gap_fill_flush missing gap_inv
proof unfold_locales
  fix now l and q :: u64 and sz :: u32
  assume "gap_inv l" "0 < unat sz" "unat q + unat sz < 2 ^ 64" "\<forall>x\<in>missing l. x < unat q"
  from push_cover [OF this, of now] obtain l' lost where
    "fh_shr_gap_fill_push now l q sz = Some (l', sint (of_nat (card lost) :: u32))" "gap_inv l'"
    "missing l' = missing l - lost \<union> {unat q..<unat q + unat sz}" by blast
  then show "\<exists>t' rc. fh_shr_gap_fill_push now l q sz = Some (t', rc) \<and> gap_inv t' \<and>
      missing t' \<subseteq> missing l \<union> {unat q..<unat q + unat sz} \<and> {unat q..<unat q + unat sz} \<subseteq> missing t'"
    by auto
next
  fix l q assume "gap_inv l"
  then show "\<exists>p. fh_shr_gap_fill_find l q = Some p \<and> (p = None \<longleftrightarrow> unat q \<notin> missing l)"
    using find_cover [of l q] by blast
next
  fix l q c assume "gap_inv l" "fh_shr_gap_fill_find l q = Some (Some c)"
  then show "\<exists>t' p rc. fh_shr_gap_fill_del l c q = Some (t', p, rc) \<and> gap_inv t' \<and>
      missing t' \<subseteq> missing l - {unat q}"
    using del_cover [of l q c] by auto
next
  fix l now assume "gap_inv l"
  then show "\<exists>t' n. fh_shr_gap_fill_flush now l = Some (t', n) \<and> gap_inv t' \<and> missing t' \<subseteq> missing l"
    using flush_cover [of l now] by auto
qed

subsection \<open>Runs of operations\<close>

datatype gap_op = GPush int u64 u32 | GFill u64 | GFlush int

definition gap_step :: "gap_list \<Rightarrow> gap_op \<Rightarrow> gap_list option" where
  "gap_step l op =
    (case op of
       GPush now q sz \<Rightarrow> map_option fst (fh_shr_gap_fill_push now l q sz)
     | GFill q \<Rightarrow> do { p \<leftarrow> fh_shr_gap_fill_find l q;
                       case p of None \<Rightarrow> Some l | Some c \<Rightarrow> map_option fst (fh_shr_gap_fill_del l c q) }
     | GFlush now \<Rightarrow> map_option fst (fh_shr_gap_fill_flush now l))"

fun gap_run :: "gap_list \<Rightarrow> gap_op list \<Rightarrow> gap_list option" where
  "gap_run l [] = Some l"
| "gap_run l (op # ops) = do { l1 \<leftarrow> gap_step l op; gap_run l1 ops }"

text \<open>
  Gaps are pushed in ascending order, as a line handler does; the specification is the set of
  numbers pushed and not yet filled.
\<close>

fun pushes_ascend :: "nat \<Rightarrow> gap_op list \<Rightarrow> bool" where
  "pushes_ascend hw [] = True"
| "pushes_ascend hw (GPush now q sz # ops) =
     (hw \<le> unat q \<and> 0 < unat sz \<and> unat q + unat sz < 2 ^ 64 \<and> pushes_ascend (unat q + unat sz) ops)"
| "pushes_ascend hw (op # ops) = pushes_ascend hw ops"

fun outstanding :: "nat set \<Rightarrow> gap_op list \<Rightarrow> nat set" where
  "outstanding M [] = M"
| "outstanding M (GPush now q sz # ops) = outstanding (M \<union> {unat q..<unat q + unat sz}) ops"
| "outstanding M (GFill q # ops) = outstanding (M - {unat q}) ops"
| "outstanding M (GFlush now # ops) = outstanding M ops"

lemma outstanding_mono: "M \<subseteq> N \<Longrightarrow> outstanding M ops \<subseteq> outstanding N ops"
proof (induction M ops arbitrary: N rule: outstanding.induct)
  case (2 M now q sz ops)
  then show ?case by (metis outstanding.simps(2) Un_mono subset_refl)
next
  case (3 M q ops)
  then show ?case by (metis outstanding.simps(3) Diff_mono subset_refl)
qed simp_all

lemma gap_run_inv:
  assumes "gap_inv l" and "\<forall>x\<in>missing l. x < hw" and "pushes_ascend hw ops"
  shows "\<exists>l'. gap_run l ops = Some l' \<and> gap_inv l' \<and> missing l' \<subseteq> outstanding (missing l) ops"
  using assms
proof (induction ops arbitrary: l hw)
  case (Cons op ops)
  have "\<exists>l1 hw1. gap_step l op = Some l1 \<and> gap_inv l1 \<and> (\<forall>x\<in>missing l1. x < hw1) \<and>
      pushes_ascend hw1 ops \<and> outstanding (missing l1) ops \<subseteq> outstanding (missing l) (op # ops)"
  proof (cases op)
    case (GPush now q sz)
    with Cons.prems have p: "0 < unat sz" "unat q + unat sz < 2 ^ 64" "\<forall>x\<in>missing l. x < unat q"
      by auto
    obtain l1 rc where "fh_shr_gap_fill_push now l q sz = Some (l1, rc)" "gap_inv l1"
      "missing l1 \<subseteq> missing l \<union> {unat q..<unat q + unat sz}"
      using gl.push_law [OF Cons.prems(1) p, of now] by blast
    moreover have "x < unat q + unat sz" if "x \<in> missing l1" for x
      using that \<open>missing l1 \<subseteq> _\<close> p(3) by fastforce
    ultimately show ?thesis
      using GPush Cons.prems by (intro exI [of _ l1] exI [of _ "unat q + unat sz"])
        (auto simp: gap_step_def dest: outstanding_mono [THEN subsetD, rotated])
  next
    case (GFill q)
    show ?thesis
    proof (rule gl.fill_cases [OF Cons.prems(1), of q])
      assume "fh_shr_gap_fill_find l q = Some None" "unat q \<notin> missing l"
      with GFill Cons.prems show ?thesis
        by (intro exI [of _ l] exI [of _ hw]) (simp add: gap_step_def)
    next
      fix c l1 p rc
      assume "fh_shr_gap_fill_find l q = Some (Some c)" "unat q \<in> missing l"
        "fh_shr_gap_fill_del l c q = Some (l1, p, rc)" "gap_inv l1" "missing l1 \<subseteq> missing l - {unat q}"
      with GFill Cons.prems show ?thesis
        by (intro exI [of _ l1] exI [of _ hw])
          (auto simp: gap_step_def dest: outstanding_mono [THEN subsetD, rotated])
    qed
  next
    case (GFlush now)
    obtain l1 n where "fh_shr_gap_fill_flush now l = Some (l1, n)" "gap_inv l1" "missing l1 \<subseteq> missing l"
      using gl.flush_law [OF Cons.prems(1), of now] by blast
    with GFlush Cons.prems show ?thesis
      by (intro exI [of _ l1] exI [of _ hw])
        (auto simp: gap_step_def dest: outstanding_mono [THEN subsetD, rotated])
  qed
  then obtain l1 hw1 where s: "gap_step l op = Some l1" "gap_inv l1" "\<forall>x\<in>missing l1. x < hw1"
    "pushes_ascend hw1 ops" "outstanding (missing l1) ops \<subseteq> outstanding (missing l) (op # ops)" by blast
  from Cons.IH [OF s(2-4)] s show ?case by auto
qed simp

lemma new_inv:
  assumes "fh_shr_gap_fill_new True True True (Some a) mx timeout = Some l" and "2 \<le> unat mx"
    and "8 + unat mx * 56 < 2 ^ 32" and "unat a + (8 + unat mx * 56) < 2 ^ 64"
  shows "gap_inv l" and "gap_contents l = []" and "gap_rep l []" and "gl_max l = mx"
  using new_rep [OF assms(1) _ _ refl assms(3,4)] gap_invI [of l "[]" "[]"] assms(2) by auto

subsection \<open>Properties\<close>

text \<open>
  C25.  Safety and refinement: on a new list of at least two nodes, every sequence of pushes in
  ascending order, fills and flushes runs without a fault, keeps the list well formed, and the
  list only ever reports sequence numbers that were pushed and have not been filled since.
\<close>

theorem gap_run_safe:
  assumes "fh_shr_gap_fill_new True True True (Some a) mx timeout = Some l" and "2 \<le> unat mx"
    and "8 + unat mx * 56 < 2 ^ 32" and "unat a + (8 + unat mx * 56) < 2 ^ 64"
    and "pushes_ascend 0 ops"
  shows "\<exists>l'. gap_run l ops = Some l' \<and> gap_inv l' \<and> missing l' \<subseteq> outstanding {} ops"
  using gap_run_inv [OF new_inv(1) [OF assms(1-4)] _ assms(5)] new_inv(2) [OF assms(1-4)] by simp

text \<open>
  C26.  Pushing a gap adds exactly its sequence numbers; a full list gives up exactly its oldest
  gap, and the returned count is the number of sequence numbers given up.
\<close>

theorem gap_push_tracks:
  assumes "gap_inv l" and "0 < unat sz" and "unat q + unat sz < 2 ^ 64" and "\<forall>x\<in>missing l. x < unat q"
  shows "\<exists>l' lost. fh_shr_gap_fill_push now l q sz = Some (l', sint (of_nat (card lost) :: u32)) \<and>
    gap_inv l' \<and>
    lost = (if length (gap_contents l) < unat (gl_max l) then {} else gap_range (hd (gap_contents l))) \<and>
    missing l' = missing l - lost \<union> {unat q..<unat q + unat sz}"
  using push_cover [OF assms, of now] by blast

text \<open>
  C27.  A sequence number is found exactly when it is missing, and filling it removes it and
  nothing else, except that splitting a gap of a full list gives up the part of the oldest gap
  below the number.  The count returned for that loss is right when the gap split is the oldest
  one, and is the size of the gap split, whatever was lost, when it is not.
\<close>

theorem gap_fill_tracks:
  assumes "gap_inv l"
  shows "(unat q \<notin> missing l \<longrightarrow> fh_shr_gap_fill_find l q = Some None) \<and>
    (unat q \<in> missing l \<longrightarrow> (\<exists>c l' p rc lost. fh_shr_gap_fill_find l q = Some (Some c) \<and>
       fh_shr_gap_fill_del l c q = Some (l', p, rc) \<and> gap_inv l' \<and>
       lost = fill_lost (length (gap_contents l) = unat (gl_max l)) (gap_contents l) (unat q) \<and>
       missing l' = missing l - {unat q} - lost \<and>
       rc = (if lost = {} then 0 else if gl_head l = Some c then sint (of_nat (card lost) :: u32)
             else sint (gn_size (gap_at l c)))))"
proof (cases "unat q \<in> missing l")
  case True
  then obtain c where "fh_shr_gap_fill_find l q = Some (Some c)"
    using find_cover [OF assms, of q] by auto
  with True del_cover [OF assms this] show ?thesis by metis
next
  case False
  then show ?thesis using find_cover [OF assms, of q] by auto
qed

text \<open>
  C28.  A flush drops exactly the gaps at the front of the list that are older than the timeout,
  although it reads each node after returning it to the pool; the returned count is the number of
  sequence numbers dropped, and when the gaps are in the order of their time stamps no expired
  gap remains.
\<close>

theorem gap_flush_tracks:
  assumes "gap_inv l"
  shows "\<exists>l' old. fh_shr_gap_fill_flush now l = Some (l', sint (of_nat (card (gaps_cover old)) :: u32)) \<and>
    gap_inv l' \<and> gap_contents l = old @ gap_contents l' \<and>
    (\<forall>g\<in>set old. snd (snd g) < now - uint (gl_timeout l)) \<and>
    missing l' = missing l - gaps_cover old \<and>
    (sorted (map (snd \<circ> snd) (gap_contents l)) \<longrightarrow>
       (\<forall>g\<in>set (gap_contents l'). now - uint (gl_timeout l) \<le> snd (snd g)))"
proof -
  let ?e = "expired (now - uint (gl_timeout l))"
  have "\<forall>g\<in>set (dropWhile ?e gs). now - uint (gl_timeout l) \<le> snd (snd g)"
    if "sorted (map (snd \<circ> snd) gs)" for gs
    using that by (induction gs) (auto simp: expired_def)
  moreover obtain l' where "fh_shr_gap_fill_flush now l =
      Some (l', sint (of_nat (card (gaps_cover (takeWhile ?e (gap_contents l)))) :: u32))" "gap_inv l'"
    "gap_contents l' = dropWhile ?e (gap_contents l)"
    "missing l' = missing l - gaps_cover (takeWhile ?e (gap_contents l))"
    using flush_cover [OF assms, of now] by blast
  moreover have "\<forall>g\<in>set (takeWhile ?e (gap_contents l)). snd (snd g) < now - uint (gl_timeout l)"
    by (auto simp: expired_def dest: set_takeWhileD)
  ultimately show ?thesis
    by (intro exI [of _ l'] exI [of _ "takeWhile ?e (gap_contents l)"]) auto
qed

text \<open>
  A list of one node breaks on overflow: pushing onto the full list reuses the only node but
  leaves the head NULL, so the new gap is counted but is never found, and the next push
  dereferences NULL.
\<close>

lemma gap_push_single_node:
  assumes "gap_rep l [a]" and "gl_max l = 1"
  shows "\<exists>l'. fh_shr_gap_fill_push now l q sz = Some (l', sint (gn_size (gap_at l a))) \<and> gl_count l' = 1 \<and>
    fh_shr_gap_fill_find l' r = Some None \<and> fh_shr_gap_fill_push now' l' q' sz' = None"
proof -
  note r = assms(1) [unfolded gap_rep_def]
  have c: "gl_count l = 1" using r by (simp add: word_unat_eq_iff)
  have sel: "gl_head l = Some a" "gl_tail l = Some a" "gn_next (gap_at l a) = None" using r by auto
  have node: "gap_push_node l = Some (l\<lparr>gl_head := None\<rparr>, Some a, sint (gn_size (gap_at l a)))"
    by (simp add: gap_push_node_def c assms(2) sel)
  let ?l' = "gap_link_tail now q sz a (l\<lparr>gl_head := None\<rparr>)"
  have "gl_head ?l' = None" "gl_count ?l' = 1" "gl_max ?l' = 1" by (simp_all add: sel c assms(2))
  then have "fh_shr_gap_fill_find ?l' r = Some None" "gap_push_node ?l' = None"
    by (simp_all add: fh_shr_gap_fill_find_def gap_find_from.simps gap_push_node_def)
  with node \<open>gl_count ?l' = 1\<close> show ?thesis by (auto simp: gap_push_eq)
qed

subsection \<open>Examples\<close>

text \<open>A list of two nodes, empty and with the gaps 10 and 20--24.\<close>

definition ex_gaps0 :: gap_list where
  "ex_gaps0 = the (fh_shr_gap_fill_new True True True (Some 4096) 2 30)"

definition ex_gaps1 :: gap_list where
  "ex_gaps1 = fst (the (fh_shr_gap_fill_push 100 ex_gaps0 10 1))"

definition ex_gaps2 :: gap_list where
  "ex_gaps2 = fst (the (fh_shr_gap_fill_push 150 ex_gaps1 20 5))"

lemma ex_gaps0_new: "fh_shr_gap_fill_new True True True (Some 4096) 2 30 = Some ex_gaps0"
  by (simp add: ex_gaps0_def fh_shr_gap_fill_new_def)

lemma ex_gaps0_inv: "gap_inv ex_gaps0" "gap_contents ex_gaps0 = []" "gap_cfg ex_gaps0 = (2, 30)"
proof -
  note n = new_inv [OF ex_gaps0_new]
  show "gap_inv ex_gaps0" "gap_contents ex_gaps0 = []" using n by simp_all
  show "gap_cfg ex_gaps0 = (2, 30)" by (simp add: ex_gaps0_def fh_shr_gap_fill_new_def)
qed

lemma push_room_contents:
  assumes inv: "gap_inv l" and room: "length (gap_contents l) < unat (gl_max l)"
    and sz: "0 < unat sz" "unat q + unat sz < 2 ^ 64" and above: "\<forall>x\<in>missing l. x < unat q"
  shows "\<exists>l'. fh_shr_gap_fill_push now l q sz = Some (l', 0) \<and> gap_inv l' \<and> gap_cfg l' = gap_cfg l \<and>
    gap_contents l' = gap_contents l @ [(q, sz, now)]"
proof -
  have rep: "gap_rep l (gap_addrs l)" using inv by (simp add: gap_inv_def)
  have "length (gap_addrs l) < unat (gl_max l)" using room by (simp add: gap_contents_def gap_vals_def)
  from push_room [OF rep this, of now q sz] obtain l' a where p:
    "fh_shr_gap_fill_push now l q sz = Some (l', 0)" "gap_rep l' (gap_addrs l @ [a])"
    "gap_vals l' (gap_addrs l @ [a]) = gap_contents l @ [(q, sz, now)]" "gap_cfg l' = gap_cfg l"
    by (auto simp: gap_contents_def)
  moreover have "gap_inv l'" using push_cover [OF inv sz above, of now] p(1) by auto
  moreover have "gap_contents l' = gap_contents l @ [(q, sz, now)]"
    using p(2,3) by (simp add: gap_contents_def gap_addrs_rep)
  ultimately show ?thesis by blast
qed

lemma ex_gaps1_inv: "gap_inv ex_gaps1" "gap_contents ex_gaps1 = [(10, 1, 100)]" "gap_cfg ex_gaps1 = (2, 30)"
  using push_room_contents [OF ex_gaps0_inv(1), of 1 10 100] ex_gaps0_inv
  by (auto simp: ex_gaps1_def)

lemma ex_gaps2_inv:
  "gap_inv ex_gaps2" "gap_contents ex_gaps2 = [(10, 1, 100), (20, 5, 150)]" "gap_cfg ex_gaps2 = (2, 30)"
  using push_room_contents [OF ex_gaps1_inv(1), of 5 20 150] ex_gaps1_inv
  by (auto simp: ex_gaps2_def)

theorem gap_run_safe_witness:
  "\<exists>l'. gap_run ex_gaps0 [GPush 100 10 1, GPush 150 20 5, GFill 22, GFlush 160] = Some l' \<and> gap_inv l' \<and>
     missing l' \<subseteq> {10, 20, 21, 23, 24}"
proof -
  have "{10..<11} \<union> {20..<25} - {22 :: nat} \<subseteq> {10, 20, 21, 23, 24}" by auto
  with gap_run_safe [OF ex_gaps0_new, of "[GPush 100 10 1, GPush 150 20 5, GFill 22, GFlush 160]"]
  show ?thesis by auto
qed

theorem gap_push_tracks_witness:
  "\<exists>l' lost. fh_shr_gap_fill_push 200 ex_gaps2 30 2 = Some (l', sint (of_nat (card lost) :: u32)) \<and>
     lost = {10} \<and> missing l' = {20..<25} \<union> {30..<32}"
proof -
  have "\<forall>x\<in>missing ex_gaps2. x < unat (30 :: u64)" by (auto simp: ex_gaps2_inv)
  moreover have "{10..<Suc 10} = {10 :: nat}" by auto
  moreover have "{10..<Suc 10} \<union> {20..<25} - {10} = {20..<25 :: nat}" by auto
  ultimately show ?thesis
    using gap_push_tracks [OF ex_gaps2_inv(1), of 2 30 200] ex_gaps2_inv(2,3) by auto
qed

text \<open>
  Filling 22 splits the second gap of the full list: the oldest gap, one number, is given up, and
  the count returned is 5.
\<close>

theorem gap_fill_tracks_witness:
  "\<exists>c l' p. fh_shr_gap_fill_find ex_gaps2 22 = Some (Some c) \<and>
     fh_shr_gap_fill_del ex_gaps2 c 22 = Some (l', p, 5) \<and> missing l' = {20, 21, 23, 24}"
proof -
  have lost: "fill_lost True [(10, 1, 100), (20, 5, 150)] (unat (22 :: u64)) = {10}"
    by (auto simp: fill_lost_def gap_inner_def)
  obtain a b where ab: "gap_addrs ex_gaps2 = [a, b]"
    using ex_gaps2_inv(2) by (auto simp: gap_contents_def gap_vals_def)
  have rep: "gap_rep ex_gaps2 [a, b]" using ex_gaps2_inv(1) ab by (simp add: gap_inv_def)
  have val: "gap_val (gap_at ex_gaps2 a) = (10, 1, 100)" "gap_val (gap_at ex_gaps2 b) = (20, 5, 150)"
    using ex_gaps2_inv(2) by (simp_all add: gap_contents_def ab)
  have c: "fh_shr_gap_fill_find ex_gaps2 22 = Some (Some b)"
    using find_rep [OF rep, of 22] val by (simp add: gap_holds_def gap_val_def)
  have "missing ex_gaps2 = {10, 20, 21, 22, 23, 24}" by (auto simp: ex_gaps2_inv(2))
  then show ?thesis
    using gap_fill_tracks [OF ex_gaps2_inv(1), of 22] c ex_gaps2_inv(2,3) lost rep val
    by (auto simp: gap_rep_def gap_val_def)
qed

theorem gap_flush_tracks_witness:
  "\<exists>l' old. fh_shr_gap_fill_flush 150 ex_gaps2 = Some (l', sint (of_nat (card (gaps_cover old)) :: u32)) \<and>
     old @ gap_contents l' = [(10, 1, 100), (20, 5, 150)] \<and> (\<forall>g\<in>set (gap_contents l'). 120 \<le> snd (snd g))"
  using gap_flush_tracks [OF ex_gaps2_inv(1), of 150] ex_gaps2_inv(2,3) by auto

end
