(* ===== verification/Jhash.thy ===== *)
theory Jhash
  imports Prelude
begin

section \<open>Jenkins hash (\<^verbatim>\<open>common/missing/jhash.h\<close>)\<close>

text \<open>
  The hash of the lookup-table keys.  The C functions take a pointer and a length; the key is
  the list of exactly that many bytes (words) here.  Arithmetic is on 32-bit words throughout.
\<close>

definition jhash_mix :: "u32 \<times> u32 \<times> u32 \<Rightarrow> u32 \<times> u32 \<times> u32" where
  "jhash_mix = (\<lambda>(a, b, c).
    let a = a - b; a = a - c; a = a XOR drop_bit 13 c;
        b = b - c; b = b - a; b = b XOR push_bit 8 a;
        c = c - a; c = c - b; c = c XOR drop_bit 13 b;
        a = a - b; a = a - c; a = a XOR drop_bit 12 c;
        b = b - c; b = b - a; b = b XOR push_bit 16 a;
        c = c - a; c = c - b; c = c XOR drop_bit 5 b;
        a = a - b; a = a - c; a = a XOR drop_bit 3 c;
        b = b - c; b = b - a; b = b XOR push_bit 10 a;
        c = c - a; c = c - b; c = c XOR drop_bit 15 b
    in (a, b, c))"

definition JHASH_GOLDEN_RATIO :: u32 where
  "JHASH_GOLDEN_RATIO = 0x9e3779b9"

text \<open>One byte shifted into place, and four of them as the loop body adds them.\<close>

definition kbyte :: "u8 list \<Rightarrow> nat \<Rightarrow> nat \<Rightarrow> u32" where
  "kbyte k i s = push_bit s (ucast (k ! i))"

definition kword :: "u8 list \<Rightarrow> nat \<Rightarrow> u32" where
  "kword k i = kbyte k i 0 + kbyte k (i + 1) 8 + kbyte k (i + 2) 16 + kbyte k (i + 3) 24"

function jhash_loop :: "u8 list \<Rightarrow> u32 \<times> u32 \<times> u32 \<Rightarrow> u8 list \<times> (u32 \<times> u32 \<times> u32)" where
  "jhash_loop k (a, b, c) =
     (if length k \<ge> 12
      then jhash_loop (drop 12 k) (jhash_mix (a + kword k 0, b + kword k 4, c + kword k 8))
      else (k, (a, b, c)))"
  by pat_completeness auto
termination by (relation "measure (\<lambda>(k, _). length k)") auto

declare jhash_loop.simps [simp del]

text \<open>The \<^verbatim>\<open>switch\<close> falls through from \<^verbatim>\<open>case len\<close> down to \<^verbatim>\<open>case 1\<close>.\<close>

definition jhash_tail :: "u8 list \<Rightarrow> u32 \<times> u32 \<times> u32 \<Rightarrow> u32 \<times> u32 \<times> u32" where
  "jhash_tail k = (\<lambda>(a, b, c).
    let len = length k;
        c = (if len \<ge> 11 then c + kbyte k 10 24 else c);
        c = (if len \<ge> 10 then c + kbyte k 9 16 else c);
        c = (if len \<ge> 9 then c + kbyte k 8 8 else c);
        b = (if len \<ge> 8 then b + kbyte k 7 24 else b);
        b = (if len \<ge> 7 then b + kbyte k 6 16 else b);
        b = (if len \<ge> 6 then b + kbyte k 5 8 else b);
        b = (if len \<ge> 5 then b + kbyte k 4 0 else b);
        a = (if len \<ge> 4 then a + kbyte k 3 24 else a);
        a = (if len \<ge> 3 then a + kbyte k 2 16 else a);
        a = (if len \<ge> 2 then a + kbyte k 1 8 else a);
        a = (if len \<ge> 1 then a + kbyte k 0 0 else a)
    in (a, b, c))"

definition jhash :: "u8 list \<Rightarrow> u32 \<Rightarrow> u32" where
  "jhash key initval =
    (case jhash_loop key (JHASH_GOLDEN_RATIO, JHASH_GOLDEN_RATIO, initval) of
       (k, (a, b, c)) \<Rightarrow> snd (snd (jhash_mix (jhash_tail k (a, b, c + of_nat (length key))))))"

function jhash2_loop :: "u32 list \<Rightarrow> u32 \<times> u32 \<times> u32 \<Rightarrow> u32 list \<times> (u32 \<times> u32 \<times> u32)" where
  "jhash2_loop k (a, b, c) =
     (if length k \<ge> 3
      then jhash2_loop (drop 3 k) (jhash_mix (a + k ! 0, b + k ! 1, c + k ! 2))
      else (k, (a, b, c)))"
  by pat_completeness auto
termination by (relation "measure (\<lambda>(k, _). length k)") auto

declare jhash2_loop.simps [simp del]

definition jhash2_tail :: "u32 list \<Rightarrow> u32 \<times> u32 \<times> u32 \<Rightarrow> u32 \<times> u32 \<times> u32" where
  "jhash2_tail k = (\<lambda>(a, b, c).
    let len = length k;
        b = (if len \<ge> 2 then b + k ! 1 else b);
        a = (if len \<ge> 1 then a + k ! 0 else a)
    in (a, b, c))"

definition jhash2 :: "u32 list \<Rightarrow> u32 \<Rightarrow> u32" where
  "jhash2 key initval =
    (case jhash2_loop key (JHASH_GOLDEN_RATIO, JHASH_GOLDEN_RATIO, initval) of
       (k, (a, b, c)) \<Rightarrow> snd (snd (jhash_mix (jhash2_tail k (a, b, c + of_nat (length key) * 4)))))"

definition jhash_3words :: "u32 \<Rightarrow> u32 \<Rightarrow> u32 \<Rightarrow> u32 \<Rightarrow> u32" where
  "jhash_3words a b c initval =
    snd (snd (jhash_mix (a + JHASH_GOLDEN_RATIO, b + JHASH_GOLDEN_RATIO, c + initval)))"

definition jhash_2words :: "u32 \<Rightarrow> u32 \<Rightarrow> u32 \<Rightarrow> u32" where
  "jhash_2words a b initval = jhash_3words a b 0 initval"

definition jhash_1word :: "u32 \<Rightarrow> u32 \<Rightarrow> u32" where
  "jhash_1word a initval = jhash_3words a 0 0 initval"

subsection \<open>Words as they lie in memory\<close>

text \<open>The bytes of a 32-bit word on the little-endian machines the code runs on.\<close>

definition le_bytes :: "u32 \<Rightarrow> u8 list" where
  "le_bytes w = [ucast w, ucast (drop_bit 8 w), ucast (drop_bit 16 w), ucast (drop_bit 24 w)]"

definition mem_bytes :: "u32 list \<Rightarrow> u8 list" where
  "mem_bytes ws = concat (map le_bytes ws)"

lemma length_le_bytes [simp]: "length (le_bytes w) = 4"
  by (simp add: le_bytes_def)

lemma mem_bytes_simps [simp]:
  "mem_bytes [] = []" "mem_bytes (w # ws) = le_bytes w @ mem_bytes ws"
  by (simp_all add: mem_bytes_def)

lemma mem_bytes_append: "mem_bytes (xs @ ys) = mem_bytes xs @ mem_bytes ys"
  by (simp add: mem_bytes_def)

lemma length_mem_bytes [simp]: "length (mem_bytes ws) = 4 * length ws"
  by (induction ws) simp_all

lemma le_bytes_kword:
  fixes w :: u32
  shows "ucast (ucast w :: u8) + push_bit 8 (ucast (ucast (drop_bit 8 w) :: u8)) +
         push_bit 16 (ucast (ucast (drop_bit 16 w) :: u8)) +
         push_bit 24 (ucast (ucast (drop_bit 24 w) :: u8)) = w"
proof -
  let ?n = "unat w"
  have n: "?n < 4294967296" using unat_lt [of w] by simp
  have d: "?n div 256 mod 4294967296 = ?n div 256" "?n div 65536 mod 4294967296 = ?n div 65536"
    "?n div 16777216 mod 4294967296 = ?n div 16777216"
    using n by auto
  have split: "?n mod 256 + ?n div 256 mod 256 * 256 + ?n div 65536 mod 256 * 65536 +
     ?n div 16777216 mod 256 * 16777216 = ?n"
  proof -
    define q1 q2 q3 where "q1 = ?n div 256" and "q2 = q1 div 256" and "q3 = q2 div 256"
    have e: "?n div 65536 = q2" "?n div 16777216 = q3"
      by (simp_all add: q1_def q2_def q3_def flip: div_mult2_eq)
    have "?n = q1 * 256 + ?n mod 256" "q1 = q2 * 256 + q1 mod 256" "q2 = q3 * 256 + q2 mod 256"
      by (simp_all add: q1_def q2_def q3_def)
    moreover have m: "q3 mod 256 = q3"
      using n by (simp add: q1_def q2_def q3_def flip: div_mult2_eq)
    ultimately show ?thesis unfolding q1_def [symmetric] e m by linarith
  qed
  show ?thesis
    using n split
    by (simp add: word_unat_eq_iff unat_word_ariths unsigned_ucast_eq unsigned_push_bit_eq
        unsigned_drop_bit_eq take_bit_eq_mod push_bit_eq_mult drop_bit_eq_div mod_simps d)
qed

lemma kword_le_bytes:
  "kword (xs @ le_bytes w @ ys) (length xs) = w"
proof -
  have nth: "(xs @ le_bytes w @ ys) ! (length xs + i) = le_bytes w ! i" if "i < 4" for i
    using that by (simp add: nth_append)
  have "kword (xs @ le_bytes w @ ys) (length xs) =
    push_bit 0 (ucast (le_bytes w ! 0)) + push_bit 8 (ucast (le_bytes w ! 1)) +
    push_bit 16 (ucast (le_bytes w ! 2)) + push_bit 24 (ucast (le_bytes w ! 3))"
    unfolding kword_def kbyte_def using nth [of 0] nth [of 1] nth [of 2] nth [of 3] by simp
  also have "\<dots> = w"
    using le_bytes_kword [of w] by (simp add: le_bytes_def)
  finally show ?thesis .
qed

lemma kword_mem_bytes:
  assumes "i < length ws"
  shows "kword (mem_bytes ws) (4 * i) = ws ! i"
proof -
  have "ws = take i ws @ ws ! i # drop (Suc i) ws"
    using assms by (simp add: id_take_nth_drop)
  then have eq: "mem_bytes ws = mem_bytes (take i ws) @ le_bytes (ws ! i) @ mem_bytes (drop (Suc i) ws)"
    using mem_bytes_append [of "take i ws" "ws ! i # drop (Suc i) ws"] by simp
  have "4 * i = length (mem_bytes (take i ws))" using assms by simp
  then show ?thesis unfolding eq by (simp only: kword_le_bytes)
qed

lemma drop_mem_bytes: "drop (4 * i) (mem_bytes ws) = mem_bytes (drop i ws)"
proof (induction i arbitrary: ws)
  case (Suc i)
  then show ?case by (cases ws) simp_all
qed simp

subsection \<open>The word version computes the byte version\<close>

lemma jhash_loop_mem_bytes:
  "jhash_loop (mem_bytes ws) s = (case jhash2_loop ws s of (k, t) \<Rightarrow> (mem_bytes k, t))"
proof (induction ws s rule: jhash2_loop.induct)
  case (1 ws a b c)
  show ?case
  proof (cases "length ws \<ge> 3")
    case True
    have "kword (mem_bytes ws) 0 = ws ! 0" "kword (mem_bytes ws) 4 = ws ! 1"
      "kword (mem_bytes ws) 8 = ws ! 2"
      using kword_mem_bytes [of 0 ws] kword_mem_bytes [of 1 ws] kword_mem_bytes [of 2 ws] True
      by (auto simp del: length_greater_0_conv)
    moreover have "drop 12 (mem_bytes ws) = mem_bytes (drop 3 ws)"
      using drop_mem_bytes [of 3 ws] by simp
    ultimately show ?thesis
      using "1.IH" True by (simp add: jhash_loop.simps [of "mem_bytes ws"] jhash2_loop.simps [of ws])
  next
    case False
    then show ?thesis
      by (simp add: jhash_loop.simps [of "mem_bytes ws"] jhash2_loop.simps [of ws])
  qed
qed

lemma jhash2_loop_short: "length (fst (jhash2_loop ws s)) < 3"
proof (induction ws s rule: jhash2_loop.induct)
  case (1 ws a b c)
  then show ?case by (simp add: jhash2_loop.simps [of ws])
qed

lemma jhash_tail_mem_bytes:
  assumes "length ws < 3"
  shows "jhash_tail (mem_bytes ws) s = jhash2_tail ws s"
proof -
  obtain a b c where s: "s = (a, b, c)" by (metis prod_cases3)
  consider "ws = []" | w where "ws = [w]" | w v where "ws = [w, v]"
    using assms by (cases ws; cases "tl ws"; force)
  then show ?thesis
  proof cases
    case 1
    then show ?thesis by (simp add: jhash_tail_def jhash2_tail_def)
  next
    case (2 w)
    have "a + kbyte (le_bytes w) 3 24 + kbyte (le_bytes w) 2 16 + kbyte (le_bytes w) 1 8 +
          kbyte (le_bytes w) 0 0 = a + w"
      using kword_le_bytes [of "[]" w "[]"] by (simp add: kword_def add_ac flip: numeral_2_eq_2)
    with 2 s show ?thesis by (simp add: jhash_tail_def jhash2_tail_def Let_def)
  next
    case (3 w v)
    let ?k = "le_bytes w @ le_bytes v"
    have "a + kbyte ?k 3 24 + kbyte ?k 2 16 + kbyte ?k 1 8 + kbyte ?k 0 0 = a + w"
      using kword_le_bytes [of "[]" w "le_bytes v"] by (simp add: kword_def add_ac flip: numeral_2_eq_2)
    moreover have "b + kbyte ?k 7 24 + kbyte ?k 6 16 + kbyte ?k 5 8 + kbyte ?k 4 0 = b + v"
      using kword_le_bytes [of "le_bytes w" v "[]"] by (simp add: kword_def add_ac flip: numeral_2_eq_2)
    ultimately show ?thesis
      using 3 s by (simp add: jhash_tail_def jhash2_tail_def Let_def)
  qed
qed

text \<open>
  C40.  The optimised hash of a key made of 32-bit words is the generic hash of its bytes: on
  every word list, \<open>jhash2\<close> and \<open>jhash\<close> agree.
\<close>

theorem jhash2_eq_jhash: "jhash2 ws initval = jhash (mem_bytes ws) initval"
proof -
  obtain k a b c where r:
    "jhash2_loop ws (JHASH_GOLDEN_RATIO, JHASH_GOLDEN_RATIO, initval) = (k, (a, b, c))"
    by (metis prod_cases4)
  have "length k < 3"
    using jhash2_loop_short [of ws "(JHASH_GOLDEN_RATIO, JHASH_GOLDEN_RATIO, initval)"] r by simp
  then show ?thesis
    by (simp add: jhash_def jhash2_def jhash_loop_mem_bytes r jhash_tail_mem_bytes mult.commute)
qed

end
