(* ===== verification/Htable.thy ===== *)
theory Htable
  imports Mpool
begin

section \<open>Hash tables (\<^verbatim>\<open>common/fh_htable.c\<close>)\<close>

text \<open>
  A chained hash table whose elements come from a memory pool.  A collision list (a
  \<^verbatim>\<open>TAILQ\<close>) is the list of the addresses of its elements, and the element structs are the
  payloads of the table's pool, so relinking, in-place updates and reuse of freed elements are
  the C code's.  \<^verbatim>\<open>he_chead\<close>, the pointer back to the list head, is the index of the list.
  A key is the value its pointer refers to: the tables of this program keep the key inside the
  entry and never write it while the entry is in the table.  \<^verbatim>\<open>kops_kdump\<close> only formats log
  lines and is left out.  The outcomes of \<^verbatim>\<open>malloc\<close> and \<^verbatim>\<open>calloc\<close> are arguments.
\<close>

definition FH_HT_FL_GROW :: u32 where "FH_HT_FL_GROW = 1"

record ('k, 'v) fh_ht_elt =
  he_chead :: nat
  he_value :: 'v
  he_key :: 'k
  he_klen :: int
  he_hashval :: u32

record 'k fh_ht_kops =
  kops_khash :: "'k \<Rightarrow> int \<Rightarrow> u32"
  kops_kcmp :: "'k \<Rightarrow> 'k \<Rightarrow> int \<Rightarrow> bool"

record ('k, 'v) fh_ht =
  ht_mpool :: "('k, 'v) fh_ht_elt fh_mpool"
  ht_table :: "addr list list"
  ht_size :: u32
  ht_count :: u32
  ht_mask :: u32
  ht_flags :: u32
  ht_kops :: "'k fh_ht_kops"

text \<open>\<open>1 << k\<close> in an \<^verbatim>\<open>int\<close>: negative for \<open>k = 31\<close>.\<close>

function ht_npower_from :: "nat \<Rightarrow> int \<Rightarrow> int" where
  "ht_npower_from k n =
     (if k < 32 then
        let sz = sint (push_bit k 1 :: u32) in
        if sz \<ge> n then sz else ht_npower_from (k + 1) n
      else 0)"
  by pat_completeness auto
termination by (relation "measure (\<lambda>(k, _). 32 - k)") auto

declare ht_npower_from.simps [simp del]

definition ht_npower :: "int \<Rightarrow> int" where
  "ht_npower n = ht_npower_from 0 n"

definition ht_index :: "('k, 'v) fh_ht \<Rightarrow> u32 \<Rightarrow> nat" where
  "ht_index ht hval = unat (hval AND ht_mask ht)"

text \<open>Arithmetic on an \<^verbatim>\<open>int\<close> of 32 bits.\<close>

definition int32 :: "int \<Rightarrow> int" where
  "int32 i = sint (word_of_int i :: u32)"

record ht_env =
  env_arena :: ptr      \<comment> \<open>\<^verbatim>\<open>malloc\<close> of a pool block\<close>
  env_calloc :: bool    \<comment> \<open>\<^verbatim>\<open>calloc\<close> of a table\<close>

definition fh_ht_new ::
  "('k, 'v) fh_ht_elt \<Rightarrow> bool \<Rightarrow> bool \<Rightarrow> bool \<Rightarrow> ht_env \<Rightarrow> int \<Rightarrow> u32 \<Rightarrow> 'k fh_ht_kops
   \<Rightarrow> ('k, 'v) fh_ht option" where
  "fh_ht_new zero ht_ok mp_ok name_ok env sz flags kops =
    (let psize = sz in
     if \<not> ht_ok then None
     else
       let sz = int32 (sz * 2);
           sz = ht_npower sz in
       if \<not> env_calloc env then None
       else
         let pflags = (if flags AND FH_HT_FL_GROW \<noteq> 0 then FH_MPOOL_FL_GROW else 0) in
         case fh_mpool_new zero mp_ok name_ok (env_arena env) ''HASH_ELMT'' 48 (word_of_int psize) pflags of
           None \<Rightarrow> None
         | Some mp \<Rightarrow>
             Some \<lparr>ht_mpool = mp, ht_table = replicate (nat sz) [],
                   ht_size = word_of_int sz, ht_count = 0, ht_mask = word_of_int (sz - 1),
                   ht_flags = flags, ht_kops = kops\<rparr>)"

text \<open>Moving one element to the new table: the head of its new list, and its back pointer.\<close>

definition ht_relink ::
  "u32 \<Rightarrow> addr \<Rightarrow> addr list list \<times> ('k, 'v) fh_ht_elt fh_mpool
   \<Rightarrow> addr list list \<times> ('k, 'v) fh_ht_elt fh_mpool" where
  "ht_relink msk he = (\<lambda>(tab, mp).
     let e = mp_data mp he;
         i = unat (he_hashval e AND msk)
     in (tab[i := he # tab ! i], mp_write he (e\<lparr>he_chead := i\<rparr>) mp))"

definition ht_grow :: "ht_env \<Rightarrow> ('k, 'v) fh_ht \<Rightarrow> fh_status \<times> ('k, 'v) fh_ht" where
  "ht_grow env ht =
    (let sz = sint (ht_size ht);
         newsize = ht_npower (int32 (2 * sz)) in
     if \<not> env_calloc env then (FH_ERROR, ht)
     else
       let msk = word_of_int (newsize - 1);
           order = concat (map (\<lambda>i. ht_table ht ! i) (rev [0..<nat sz]));
           (tab, mp) = fold (ht_relink msk) order (replicate (nat newsize) [], ht_mpool ht)
       in (FH_OK, ht\<lparr>ht_mpool := mp, ht_table := tab, ht_size := word_of_int newsize,
                     ht_mask := msk\<rparr>))"

definition ht_match :: "('k, 'v) fh_ht \<Rightarrow> u32 \<Rightarrow> 'k \<Rightarrow> int \<Rightarrow> addr \<Rightarrow> bool" where
  "ht_match ht hashval key klen he \<longleftrightarrow>
     (let e = mp_data (ht_mpool ht) he in
      he_hashval e = hashval \<and> he_klen e = klen \<and> kops_kcmp (ht_kops ht) (he_key e) key klen)"

text \<open>The collision list an index selects; outside the table the access is a fault.\<close>

definition ht_bucket :: "('k, 'v) fh_ht \<Rightarrow> nat \<Rightarrow> addr list option" where
  "ht_bucket ht i = (if i < length (ht_table ht) then Some (ht_table ht ! i) else None)"

definition fh_ht_put ::
  "('k, 'v) fh_ht_elt \<Rightarrow> ht_env \<Rightarrow> ('k, 'v) fh_ht \<Rightarrow> 'k \<Rightarrow> int \<Rightarrow> 'v
   \<Rightarrow> (('k, 'v) fh_ht \<times> fh_status) option" where
  "fh_ht_put zero env ht key klen value =
    do {
      let hashval = kops_khash (ht_kops ht) key klen;
      bucket \<leftarrow> ht_bucket ht (ht_index ht hashval);
      if \<exists>he\<in>set bucket. ht_match ht hashval key klen he then Some (ht, FH_ERR_DUP)
      else do {
        (mp, r) \<leftarrow> fh_mpool_get zero (env_arena env) (ht_mpool ht);
        case r of
          None \<Rightarrow> Some (ht\<lparr>ht_mpool := mp\<rparr>, FH_ERROR)
        | Some he \<Rightarrow> do {
            let ht1 = ht\<lparr>ht_mpool := mp, ht_count := ht_count ht + 1\<rparr>;
            let ht2 = (if ht_flags ht1 AND FH_HT_FL_GROW \<noteq> 0 \<and> 4 * ht_size ht1 < 5 * ht_count ht1
                       then snd (ht_grow env ht1) else ht1);
            let index = ht_index ht2 hashval;
            bucket2 \<leftarrow> ht_bucket ht2 index;
            Some (ht2\<lparr>ht_mpool := mp_write he \<lparr>he_chead = index, he_value = value, he_key = key,
                                                he_klen = klen, he_hashval = hashval\<rparr>
                                              (ht_mpool ht2),
                      ht_table := (ht_table ht2)[index := he # bucket2]\<rparr>, FH_OK)
          }
      }
    }"

definition ht_lookup :: "('k, 'v) fh_ht \<Rightarrow> 'k \<Rightarrow> int \<Rightarrow> ptr option" where
  "ht_lookup ht key klen =
    (let hashval = kops_khash (ht_kops ht) key klen in
     map_option (List.find (ht_match ht hashval key klen)) (ht_bucket ht (ht_index ht hashval)))"

definition fh_ht_get :: "('k, 'v) fh_ht \<Rightarrow> 'k \<Rightarrow> int \<Rightarrow> (fh_status \<times> 'v option) option" where
  "fh_ht_get ht key klen =
    do {
      p \<leftarrow> ht_lookup ht key klen;
      case p of
        None \<Rightarrow> Some (FH_ERR_NOTFOUND, None)
      | Some he \<Rightarrow> Some (FH_OK, Some (he_value (mp_data (ht_mpool ht) he)))
    }"

definition fh_ht_delete ::
  "('k, 'v) fh_ht_elt \<Rightarrow> ('k, 'v) fh_ht \<Rightarrow> 'k \<Rightarrow> int
   \<Rightarrow> (('k, 'v) fh_ht \<times> fh_status \<times> 'v option) option" where
  "fh_ht_delete zero ht key klen =
    (if \<not> 0 < ht_size ht then None
     else do {
       p \<leftarrow> ht_lookup ht key klen;
       case p of
         None \<Rightarrow> Some (ht, FH_ERR_NOTFOUND, None)
       | Some he \<Rightarrow>
           let e = mp_data (ht_mpool ht) he;
               tab = (ht_table ht)[he_chead e := remove1 he (ht_table ht ! he_chead e)];
               mp = fh_mpool_put zero (ht_mpool ht) he
           in if \<not> 0 < ht_count ht then None
              else Some (ht\<lparr>ht_mpool := mp, ht_table := tab, ht_count := ht_count ht - 1\<rparr>,
                         FH_OK, Some (he_value e))
     })"

text \<open>The struct sizes are 56 bytes for the table and 16 for a list head.\<close>

definition fh_ht_memuse :: "('k, 'v) fh_ht \<Rightarrow> u32" where
  "fh_ht_memuse ht = 56 + ht_size ht * 16 + fh_mpool_memuse (ht_mpool ht)"

subsection \<open>Table sizes\<close>

lemma uint_pow2: "k < 32 \<Longrightarrow> uint (2 ^ k :: u32) = 2 ^ k"
proof -
  assume "k < 32"
  then have "(2 :: int) ^ k < 2 ^ 32" by (rule power_strict_increasing) simp
  then have "(2 :: int) ^ k mod 2 ^ 32 = 2 ^ k" by (intro mod_pos_pos_trivial) simp_all
  moreover have "uint (word_of_int (2 ^ k) :: u32) = 2 ^ k mod 2 ^ 32"
    by (simp only: uint_word_of_int) simp
  ultimately show ?thesis by simp
qed

lemma sint_pow2: "k < 31 \<Longrightarrow> sint (2 ^ k :: u32) = 2 ^ k"
proof -
  assume k: "k < 31"
  then have "(2 :: int) ^ k < 2 ^ 31" by (rule power_strict_increasing) simp
  moreover have "- (2 ^ 31) \<le> (2 :: int) ^ k"
    by (rule order_trans [of _ 0]) simp_all
  ultimately show ?thesis
    using k by (simp add: sint_uint uint_pow2 signed_take_bit_int_eq_self_iff)
qed

lemma unat_pow2: "k < 32 \<Longrightarrow> unat (2 ^ k :: u32) = 2 ^ k"
  by (simp only: unat_eq_nat_uint uint_pow2) (simp add: nat_power_eq)

lemma ht_npower_from_pow2:
  assumes "k \<le> 30" and "n \<le> 2 ^ 30" and "k = 0 \<or> 2 ^ (k - 1) < n"
  shows "\<exists>j\<le>30. ht_npower_from k n = 2 ^ j \<and> n \<le> 2 ^ j \<and> (j = 0 \<or> 2 ^ (j - 1) < n)"
  using assms
proof (induction "30 - k" arbitrary: k)
  case 0
  then have "k = 30" by simp
  with 0 show ?case
    by (intro exI [of _ 30]) (simp add: ht_npower_from.simps [of 30] sint_pow2 Let_def)
next
  case (Suc d)
  show ?case
  proof (cases "n \<le> 2 ^ k")
    case True
    with Suc.prems Suc.hyps show ?thesis
      by (intro exI [of _ k]) (simp add: ht_npower_from.simps [of k] sint_pow2 Let_def)
  next
    case False
    with Suc.hyps(2) Suc.prems
    have "\<exists>j\<le>30. ht_npower_from (k + 1) n = 2 ^ j \<and> n \<le> 2 ^ j \<and> (j = 0 \<or> 2 ^ (j - 1) < n)"
      by (intro Suc.hyps(1)) auto
    with False Suc.hyps(2) Suc.prems show ?thesis
      by (simp add: ht_npower_from.simps [of k] sint_pow2 Let_def)
  qed
qed

lemma ht_npower_pow2:
  "n \<le> 2 ^ 30 \<Longrightarrow> \<exists>j\<le>30. ht_npower n = 2 ^ j \<and> n \<le> 2 ^ j \<and> (j = 0 \<or> 2 ^ (j - 1) < n)"
  unfolding ht_npower_def by (rule ht_npower_from_pow2) simp_all

definition pow2_size :: "u32 \<Rightarrow> bool" where
  "pow2_size n \<longleftrightarrow> (\<exists>k\<le>30. unat n = 2 ^ k)"

subsection \<open>Invariant and abstraction\<close>

abbreviation ht_elt :: "('k, 'v) fh_ht \<Rightarrow> addr \<Rightarrow> ('k, 'v) fh_ht_elt" where
  "ht_elt ht he \<equiv> mp_data (ht_mpool ht) he"

abbreviation ht_elts :: "('k, 'v) fh_ht \<Rightarrow> addr list" where
  "ht_elts ht \<equiv> concat (ht_table ht)"

definition elt_key :: "('k, 'v) fh_ht_elt \<Rightarrow> 'k \<times> int" where
  "elt_key e = (he_key e, he_klen e)"

text \<open>Every element is on the list its hash selects, and knows which list that is.\<close>

definition linked :: "u32 \<Rightarrow> (addr \<Rightarrow> ('k, 'v) fh_ht_elt) \<Rightarrow> addr list list \<Rightarrow> bool" where
  "linked msk d tab \<longleftrightarrow>
     distinct (concat tab) \<and>
     (\<forall>i<length tab. \<forall>he\<in>set (tab ! i). he_chead (d he) = i \<and> unat (he_hashval (d he) AND msk) = i)"

definition keys_ok :: "'k fh_ht_kops \<Rightarrow> (addr \<Rightarrow> ('k, 'v) fh_ht_elt) \<Rightarrow> addr set \<Rightarrow> bool" where
  "keys_ok kops d A \<longleftrightarrow>
     (\<forall>he\<in>A. he_hashval (d he) = kops_khash kops (he_key (d he)) (he_klen (d he))) \<and>
     inj_on (\<lambda>he. elt_key (d he)) A"

text \<open>
  \<open>ht_inv X ht\<close>: the table is consistent, and besides the linked elements the pool has handed
  out the elements \<open>X\<close> (an insertion in progress).
\<close>

definition ht_inv :: "addr set \<Rightarrow> ('k, 'v) fh_ht \<Rightarrow> bool" where
  "ht_inv X ht \<longleftrightarrow>
     pow2_size (ht_size ht) \<and> length (ht_table ht) = unat (ht_size ht) \<and>
     ht_mask ht = ht_size ht - 1 \<and>
     linked (ht_mask ht) (mp_data (ht_mpool ht)) (ht_table ht) \<and>
     keys_ok (ht_kops ht) (mp_data (ht_mpool ht)) (set (ht_elts ht)) \<and>
     finite X \<and> X \<inter> set (ht_elts ht) = {} \<and>
     mpool_ok (ht_mpool ht) (X \<union> set (ht_elts ht)) \<and>
     unat (ht_count ht) = card X + length (ht_elts ht)"

lemma ht_invD:
  assumes "ht_inv X ht"
  shows "pow2_size (ht_size ht)" and "length (ht_table ht) = unat (ht_size ht)"
    and "ht_mask ht = ht_size ht - 1"
    and "linked (ht_mask ht) (mp_data (ht_mpool ht)) (ht_table ht)"
    and "keys_ok (ht_kops ht) (mp_data (ht_mpool ht)) (set (ht_elts ht))"
    and "X \<inter> set (ht_elts ht) = {}"
    and "mpool_ok (ht_mpool ht) (X \<union> set (ht_elts ht))"
    and "unat (ht_count ht) = card X + length (ht_elts ht)"
  using assms unfolding ht_inv_def by blast+

lemma linked_cong:
  assumes "\<And>x. x \<in> set (concat tab) \<Longrightarrow> d' x = d x"
  shows "linked msk d' tab = linked msk d tab"
proof -
  have "d' x = d x" if "i < length tab" "x \<in> set (tab ! i)" for i x
    using assms that unfolding in_concat_nth by blast
  then show ?thesis by (simp add: linked_def)
qed

abbreviation ht_ok :: "('k, 'v) fh_ht \<Rightarrow> bool" where
  "ht_ok \<equiv> ht_inv {}"

definition kops_ok :: "'k fh_ht_kops \<Rightarrow> bool" where
  "kops_ok kops \<longleftrightarrow> (\<forall>a b l. kops_kcmp kops a b l \<longleftrightarrow> a = b)"

text \<open>The finite map a table stands for, from (key, length) to value.\<close>

definition ht_map :: "('k, 'v) fh_ht \<Rightarrow> 'k \<times> int \<rightharpoonup> 'v" where
  "ht_map ht = map_of (map (\<lambda>he. (elt_key (ht_elt ht he), he_value (ht_elt ht he))) (ht_elts ht))"

lemma ht_map_Some_iff:
  assumes "ht_inv X ht"
  shows "ht_map ht kl = Some v \<longleftrightarrow>
    (\<exists>he\<in>set (ht_elts ht). elt_key (ht_elt ht he) = kl \<and> he_value (ht_elt ht he) = v)"
proof -
  have "distinct (map (\<lambda>he. elt_key (ht_elt ht he)) (ht_elts ht))"
    using assms by (simp add: ht_inv_def linked_def keys_ok_def distinct_map)
  then show ?thesis
    unfolding ht_map_def by (subst map_of_eq_Some_iff) (auto simp: comp_def image_iff)
qed

lemma ht_map_None_iff:
  "ht_map ht kl = None \<longleftrightarrow> (\<forall>he\<in>set (ht_elts ht). elt_key (ht_elt ht he) \<noteq> kl)"
  unfolding ht_map_def by (auto simp: map_of_eq_None_iff image_iff)

lemma ht_index_less:
  assumes "ht_inv X ht"
  shows "ht_index ht h < length (ht_table ht)"
proof -
  have "ht_size ht \<noteq> 0" using assms by (auto simp: ht_inv_def pow2_size_def)
  then have "unat (ht_size ht - 1) < unat (ht_size ht)"
    by (simp add: unat_dec unat_gt_0)
  moreover have "ht_index ht h \<le> unat (ht_size ht - 1)"
    using assms unat_and_le [of h "ht_size ht - 1"] by (simp add: ht_index_def ht_inv_def)
  ultimately show ?thesis using assms by (simp add: ht_inv_def)
qed

lemma ht_bucket_eq:
  "ht_inv X ht \<Longrightarrow> ht_bucket ht (ht_index ht h) = Some (ht_table ht ! ht_index ht h)"
  by (simp add: ht_bucket_def ht_index_less)

text \<open>The collision list of a key holds every element with that key.\<close>

lemma ht_bucket_complete:
  assumes "ht_inv X ht" and "he \<in> set (ht_elts ht)" and "elt_key (ht_elt ht he) = (key, klen)"
  shows "he \<in> set (ht_table ht ! ht_index ht (kops_khash (ht_kops ht) key klen))"
proof -
  obtain i where i: "i < length (ht_table ht)" "he \<in> set (ht_table ht ! i)"
    using assms(2) unfolding in_concat_nth by blast
  then have "unat (he_hashval (ht_elt ht he) AND ht_mask ht) = i"
    using assms(1) unfolding ht_inv_def linked_def by blast
  moreover have "he_hashval (ht_elt ht he) = kops_khash (ht_kops ht) key klen"
    using assms by (auto simp: ht_inv_def keys_ok_def elt_key_def)
  ultimately show ?thesis using i by (simp add: ht_index_def)
qed

lemma ht_match_iff:
  assumes "ht_inv X ht" and "kops_ok (ht_kops ht)" and "he \<in> set (ht_elts ht)"
  shows "ht_match ht (kops_khash (ht_kops ht) key klen) key klen he \<longleftrightarrow>
    elt_key (ht_elt ht he) = (key, klen)"
  using assms by (auto simp: ht_match_def kops_ok_def elt_key_def ht_inv_def keys_ok_def Let_def)

lemma ht_bucket_subset:
  "ht_inv X ht \<Longrightarrow> set (ht_table ht ! ht_index ht h) \<subseteq> set (ht_elts ht)"
  using ht_index_less [of X ht h] by (auto simp: in_concat_nth simp del: set_concat)

lemma ht_lookup_spec:
  assumes inv: "ht_inv X ht" and kops: "kops_ok (ht_kops ht)"
  shows "\<exists>p. ht_lookup ht key klen = Some p \<and>
    (case p of None \<Rightarrow> ht_map ht (key, klen) = None
     | Some he \<Rightarrow> he \<in> set (ht_elts ht) \<and> elt_key (ht_elt ht he) = (key, klen) \<and>
         ht_map ht (key, klen) = Some (he_value (ht_elt ht he)))"
proof -
  let ?h = "kops_khash (ht_kops ht) key klen"
  let ?b = "ht_table ht ! ht_index ht ?h"
  have sub: "set ?b \<subseteq> set (ht_elts ht)" by (rule ht_bucket_subset [OF inv])
  have look: "ht_lookup ht key klen = Some (List.find (ht_match ht ?h key klen) ?b)"
    by (simp add: ht_lookup_def Let_def ht_bucket_eq [OF inv])
  show ?thesis
  proof (cases "List.find (ht_match ht ?h key klen) ?b")
    case None
    then have "\<forall>he\<in>set (ht_elts ht). elt_key (ht_elt ht he) \<noteq> (key, klen)"
      using ht_bucket_complete [OF inv] ht_match_iff [OF inv kops] by (force simp: find_None_iff)
    with None look show ?thesis by (simp add: ht_map_None_iff)
  next
    case (Some he)
    then have "he \<in> set ?b" and m: "ht_match ht ?h key klen he"
      by (auto simp: find_Some_iff)
    with sub have he: "he \<in> set (ht_elts ht)" by auto
    with m have "elt_key (ht_elt ht he) = (key, klen)"
      using ht_match_iff [OF inv kops] by blast
    with he Some look show ?thesis
      using ht_map_Some_iff [OF inv] by auto
  qed
qed

subsection \<open>Linking an element\<close>

lemma linked_insert:
  assumes lk: "linked msk d tab" and new: "he \<notin> set (concat tab)" and i: "i < length tab"
    and e: "he_chead e = i" "unat (he_hashval e AND msk) = i"
  shows "linked msk (d(he := e)) (tab[i := he # tab ! i])"
proof -
  have "distinct (he # concat tab)" using lk new by (simp add: linked_def)
  then have "distinct (concat (tab[i := he # tab ! i]))"
    using mset_concat_insert [OF i, of he] mset_eq_imp_distinct_iff
    by (metis mset.simps(2))
  moreover have "he_chead ((d(he := e)) x) = j \<and> unat (he_hashval ((d(he := e)) x) AND msk) = j"
    if j: "j < length tab" and x: "x \<in> set (tab[i := he # tab ! i] ! j)" for j x
  proof (cases "x = he")
    case True
    have "he \<notin> set (tab ! j)" if "j < length tab" for j
      using new that unfolding in_concat_nth by blast
    with True x j i have "j = i" by (auto simp: nth_list_update split: if_splits)
    with True e show ?thesis by simp
  next
    case False
    then have "x \<in> set (tab ! j)" using x j i by (auto simp: nth_list_update split: if_splits)
    with lk j False show ?thesis unfolding linked_def by simp
  qed
  ultimately show ?thesis by (simp add: linked_def)
qed

text \<open>What relinking leaves alone: the pool's bookkeeping and all of an element but its back pointer.\<close>

definition same_elts :: "(addr \<Rightarrow> ('k, 'v) fh_ht_elt) \<Rightarrow> (addr \<Rightarrow> ('k, 'v) fh_ht_elt) \<Rightarrow> bool" where
  "same_elts d d' \<longleftrightarrow>
     (\<forall>x. he_key (d' x) = he_key (d x) \<and> he_klen (d' x) = he_klen (d x) \<and>
          he_value (d' x) = he_value (d x) \<and> he_hashval (d' x) = he_hashval (d x))"

lemma same_elts_refl [simp]: "same_elts d d"
  by (simp add: same_elts_def)

lemma same_elts_keys_ok: "same_elts d d' \<Longrightarrow> keys_ok kops d' A = keys_ok kops d A"
  by (simp add: same_elts_def keys_ok_def elt_key_def)

lemma ht_relink_apply:
  "ht_relink msk he (tab, mp) =
     (let i = unat (he_hashval (mp_data mp he) AND msk)
      in (tab[i := he # tab ! i], mp_write he ((mp_data mp he)\<lparr>he_chead := i\<rparr>) mp))"
  by (simp add: ht_relink_def Let_def)

lemma ht_relink_fold:
  assumes "linked msk (mp_data mp) tab"
    and "distinct xs" and "set xs \<inter> set (concat tab) = {}"
    and "\<forall>x\<in>set xs. unat (he_hashval (mp_data mp x) AND msk) < length tab"
    and "fold (ht_relink msk) xs (tab, mp) = (tab', mp')"
  shows "linked msk (mp_data mp') tab' \<and> length tab' = length tab \<and>
    mset (concat tab') = mset xs + mset (concat tab) \<and>
    same_elts (mp_data mp) (mp_data mp') \<and> (\<forall>U. mpool_ok mp' U = mpool_ok mp U)"
  using assms
proof (induction xs arbitrary: tab mp)
  case Nil
  then show ?case by simp
next
  case (Cons x xs)
  let ?e = "mp_data mp x" and ?i = "unat (he_hashval (mp_data mp x) AND msk)"
  let ?e' = "?e\<lparr>he_chead := ?i\<rparr>"
  let ?tab1 = "tab[?i := x # tab ! ?i]" and ?mp1 = "mp_write x ?e' mp"
  have i: "?i < length tab" using Cons.prems(4) by simp
  have new: "x \<notin> set (concat tab)" using Cons.prems(3) by auto
  have ms: "mset (concat ?tab1) = add_mset x (mset (concat tab))"
    by (rule mset_concat_insert [OF i])
  then have set1: "set (concat ?tab1) = insert x (set (concat tab))"
    by (metis set_eq_of_mset mset.simps(2) list.simps(15))
  have lk: "linked msk (mp_data ?mp1) ?tab1"
    using linked_insert [OF Cons.prems(1) new i, of ?e'] by simp
  have run: "fold (ht_relink msk) xs (?tab1, ?mp1) = (tab', mp')"
    using Cons.prems(5) by (simp add: ht_relink_apply Let_def)
  have "set xs \<inter> set (concat ?tab1) = {}" "distinct xs"
    using Cons.prems(2,3) set1 by (simp_all only: set1) auto
  moreover have "\<forall>y\<in>set xs. unat (he_hashval (mp_data ?mp1 y) AND msk) < length ?tab1"
    using Cons.prems(4) by auto
  ultimately have "linked msk (mp_data mp') tab' \<and> length tab' = length ?tab1 \<and>
    mset (concat tab') = mset xs + mset (concat ?tab1) \<and>
    same_elts (mp_data ?mp1) (mp_data mp') \<and> (\<forall>U. mpool_ok mp' U = mpool_ok ?mp1 U)"
    using Cons.IH [OF lk _ _ _ run] by blast
  then show ?case
    using ms by (auto simp: same_elts_def)
qed

lemma concat_nth_rev:
  "mset (concat (map (\<lambda>i. tab ! i) (rev [0..<length tab]))) = mset (concat tab)"
proof -
  have "map (\<lambda>i. tab ! i) (rev [0..<length tab]) = rev tab"
    by (simp add: map_nth flip: rev_map)
  then show ?thesis by (simp add: mset_concat_rev)
qed

lemma pow2_sizeE:
  assumes "pow2_size n"
  obtains k where "k \<le> 30" "n = 2 ^ k" "unat n = 2 ^ k" "sint n = 2 ^ k"
proof -
  obtain k where k: "k \<le> 30" "unat n = 2 ^ k" using assms by (auto simp: pow2_size_def)
  moreover have "unat (2 ^ k :: u32) = 2 ^ k" by (rule unat_pow2) (use k in simp)
  ultimately have "n = 2 ^ k" by (simp add: word_unat_eq_iff)
  moreover from this k have "sint n = 2 ^ k" by (simp add: sint_pow2)
  ultimately show thesis using that k by blast
qed

lemma ht_grow_size:
  assumes "pow2_size n"
  shows "\<exists>j\<le>30. ht_npower (int32 (2 * sint n)) = 2 ^ j"
proof -
  obtain k where k: "k \<le> 30" "sint n = 2 ^ k" using assms by (elim pow2_sizeE)
  have "int32 (2 * sint n) \<le> 2 ^ 30"
  proof (cases "k = 30")
    case True
    with k show ?thesis by (simp add: int32_def)
  next
    case False
    then have "sint (2 ^ Suc k :: u32) = 2 ^ Suc k" using k by (intro sint_pow2) simp
    moreover have "(2 :: int) ^ Suc k \<le> 2 ^ 30"
      using False k by (intro power_increasing) simp_all
    ultimately show ?thesis using k by (simp add: int32_def)
  qed
  then show ?thesis using ht_npower_pow2 by blast
qed

lemma ht_grow_inv:
  assumes inv: "ht_inv X ht"
  shows "ht_inv X (snd (ht_grow env ht))"
    and "ht_map (snd (ht_grow env ht)) = ht_map ht"
    and "ht_kops (snd (ht_grow env ht)) = ht_kops ht"
    and "set (ht_elts (snd (ht_grow env ht))) = set (ht_elts ht)"
proof -
  have main: "ht_inv X (snd (ht_grow env ht)) \<and> ht_kops (snd (ht_grow env ht)) = ht_kops ht \<and>
    set (ht_elts (snd (ht_grow env ht))) = set (ht_elts ht) \<and>
    same_elts (ht_elt ht) (ht_elt (snd (ht_grow env ht)))"
  proof (cases "env_calloc env")
    case False
    with inv show ?thesis by (simp add: ht_grow_def Let_def)
  next
    case True
    obtain j where j: "j \<le> 30" "ht_npower (int32 (2 * sint (ht_size ht))) = 2 ^ j"
      using ht_grow_size [of "ht_size ht"] inv unfolding ht_inv_def by blast
    let ?n = "2 ^ j :: nat" and ?msk = "word_of_int (2 ^ j - 1) :: u32"
    let ?xs = "concat (map (\<lambda>i. ht_table ht ! i) (rev [0..<nat (sint (ht_size ht))]))"
    obtain tab mp where run: "fold (ht_relink ?msk) ?xs (replicate ?n [], ht_mpool ht) = (tab, mp)"
      by (metis prod.exhaust)
    have g: "snd (ht_grow env ht) =
      ht\<lparr>ht_mpool := mp, ht_table := tab, ht_size := word_of_int (2 ^ j), ht_mask := ?msk\<rparr>"
      using True run j by (simp add: ht_grow_def Let_def nat_power_eq)
    have usz: "unat (2 ^ j :: u32) = 2 ^ j" using j by (intro unat_pow2) simp
    have msk: "?msk = 2 ^ j - 1" by simp
    have "nat (sint (ht_size ht)) = length (ht_table ht)"
      using inv by (auto simp: ht_inv_def elim!: pow2_sizeE simp: nat_power_eq)
    then have xs: "mset ?xs = mset (ht_elts ht)" by (simp only: concat_nth_rev)
    have dx: "distinct ?xs"
      using inv mset_eq_imp_distinct_iff [OF xs] by (simp add: ht_inv_def linked_def)
    have lk0: "linked ?msk (mp_data (ht_mpool ht)) (replicate ?n [])"
      by (simp add: linked_def)
    have "unat (h AND ?msk) < ?n" for h :: u32
    proof -
      have "unat (2 ^ j - 1 :: u32) < ?n"
        using usz by (subst unat_dec) (auto simp: unat_eq_zero simp del: exp_eq_zero_iff)
      then show ?thesis
        using unat_and_le [of h ?msk] unfolding msk by (rule le_less_trans [rotated])
    qed
    then have r: "linked ?msk (mp_data mp) tab" "length tab = ?n"
      "mset (concat tab) = mset (ht_elts ht)" "same_elts (ht_elt ht) (mp_data mp)"
      "\<And>U. mpool_ok mp U = mpool_ok (ht_mpool ht) U"
      using ht_relink_fold [OF lk0 dx _ _ run] xs by simp_all
    have set_tab: "set (concat tab) = set (ht_elts ht)" by (rule set_eq_of_mset [OF r(3)])
    have "length (concat tab) = length (ht_elts ht)" by (rule mset_eq_length [OF r(3)])
    moreover have "pow2_size (word_of_int (2 ^ j))"
      using j usz by (auto simp: pow2_size_def)
    ultimately show ?thesis
      using inv r(1,2,4,5) usz unfolding g ht_inv_def
      by (simp del: set_concat add: set_tab same_elts_keys_ok)
  qed
  then show "ht_inv X (snd (ht_grow env ht))" "ht_kops (snd (ht_grow env ht)) = ht_kops ht"
    "set (ht_elts (snd (ht_grow env ht))) = set (ht_elts ht)"
    by blast+
  have "ht_map (snd (ht_grow env ht)) kl = Some v \<longleftrightarrow> ht_map ht kl = Some v" for kl v
    using main ht_map_Some_iff [of X "snd (ht_grow env ht)" kl v] ht_map_Some_iff [OF inv, of kl v]
    by (auto simp del: set_concat simp: same_elts_def elt_key_def)
  then show "ht_map (snd (ht_grow env ht)) = ht_map ht"
    by (intro ext) (metis option.exhaust)
qed

subsection \<open>Insertion\<close>

lemma ht_get_elt_inv:
  assumes inv: "ht_ok ht" and ok: "mpool_ok mp (insert he (set (ht_elts ht)))"
    and new: "he \<notin> set (ht_elts ht)" and frame: "\<forall>x\<in>set (ht_elts ht). mp_data mp x = ht_elt ht x"
  shows "ht_inv {he} (ht\<lparr>ht_mpool := mp, ht_count := ht_count ht + 1\<rparr>)"
    and "ht_map (ht\<lparr>ht_mpool := mp, ht_count := ht_count ht + 1\<rparr>) = ht_map ht"
proof -
  have "linked (ht_mask ht) (mp_data mp) (ht_table ht)"
    using linked_cong [of "ht_table ht" "mp_data mp" "ht_elt ht"] frame ht_invD(4) [OF inv] by blast
  moreover have "keys_ok (ht_kops ht) (mp_data mp) (set (ht_elts ht))"
    using inv frame by (simp add: ht_inv_def keys_ok_def inj_on_def del: set_concat)
  moreover have "unat (ht_count ht + 1) = Suc (length (ht_elts ht))"
  proof -
    have "distinct (ht_elts ht)" using inv by (simp add: ht_inv_def linked_def)
    then have "length (ht_elts ht) + 1 < 2 ^ 32"
      using ok new by (simp add: mpool_ok_def distinct_card del: set_concat)
    then show ?thesis using inv by (subst unat_inc) (simp_all add: ht_inv_def)
  qed
  ultimately show "ht_inv {he} (ht\<lparr>ht_mpool := mp, ht_count := ht_count ht + 1\<rparr>)"
    using inv ok new by (simp add: ht_inv_def del: set_concat)
  show "ht_map (ht\<lparr>ht_mpool := mp, ht_count := ht_count ht + 1\<rparr>) = ht_map ht"
    using frame by (simp add: ht_map_def del: set_concat cong: map_cong)
qed

lemma ht_link_elt:
  assumes inv: "ht_inv {he} ht" and free: "ht_map ht (key, klen) = None"
    and h: "hashval = kops_khash (ht_kops ht) key klen" and i: "i = ht_index ht hashval"
    and e: "e = \<lparr>he_chead = i, he_value = value, he_key = key, he_klen = klen, he_hashval = hashval\<rparr>"
    and ht': "ht' = ht\<lparr>ht_mpool := mp_write he e (ht_mpool ht),
                      ht_table := (ht_table ht)[i := he # ht_table ht ! i]\<rparr>"
  shows "ht_ok ht'" and "ht_map ht' = (ht_map ht)((key, klen) \<mapsto> value)"
proof -
  have il: "i < length (ht_table ht)" unfolding i by (rule ht_index_less [OF inv])
  have new: "he \<notin> set (ht_elts ht)" using inv by (simp add: ht_inv_def del: set_concat)
  have ms: "mset (ht_elts ht') = add_mset he (mset (ht_elts ht))"
    using mset_concat_insert [OF il] by (simp add: ht')
  have set': "set (ht_elts ht') = insert he (set (ht_elts ht))"
    using ms by (metis list.simps(15) mset.simps(2) set_eq_of_mset)
  have len': "length (ht_elts ht') = Suc (length (ht_elts ht))"
    using ms by (metis size_add_mset size_mset)
  have d': "ht_elt ht' x = (if x = he then e else ht_elt ht x)" for x
    by (simp add: ht')
  have "linked (ht_mask ht) ((ht_elt ht)(he := e)) (ht_table ht')"
    using linked_insert [OF ht_invD(4) [OF inv] new il, of e] by (simp add: ht' e i ht_index_def)
  moreover have "keys_ok (ht_kops ht) (ht_elt ht') (set (ht_elts ht'))"
    unfolding set' keys_ok_def
  proof (intro conjI)
    show "\<forall>x\<in>insert he (set (ht_elts ht)).
        he_hashval (ht_elt ht' x) = kops_khash (ht_kops ht) (he_key (ht_elt ht' x)) (he_klen (ht_elt ht' x))"
      using inv h by (auto simp: d' e ht_inv_def keys_ok_def simp del: set_concat)
    have k: "elt_key e = (key, klen)" by (simp add: e elt_key_def)
    have "inj_on (\<lambda>x. elt_key (ht_elt ht x)) (set (ht_elts ht))"
      using inv by (simp add: ht_inv_def keys_ok_def)
    moreover have "\<forall>x\<in>set (ht_elts ht). elt_key (ht_elt ht x) \<noteq> (key, klen)"
      using free by (simp add: ht_map_None_iff del: set_concat)
    ultimately show "inj_on (\<lambda>x. elt_key (ht_elt ht' x)) (insert he (set (ht_elts ht)))"
      using new k by (auto simp: inj_on_def d' simp del: set_concat split: if_splits)
  qed
  ultimately show ok': "ht_ok ht'"
    using inv set' len' unfolding ht_inv_def
    by (simp add: ht' fun_upd_def del: set_concat)
  have "ht_map ht' kl = Some v \<longleftrightarrow> ((ht_map ht)((key, klen) \<mapsto> value)) kl = Some v" for kl v
    using ht_map_Some_iff [OF ok', of kl v] ht_map_Some_iff [OF inv, of kl v] new free
    unfolding set' by (auto simp: d' e elt_key_def ht_map_None_iff simp del: set_concat)
  then show "ht_map ht' = (ht_map ht)((key, klen) \<mapsto> value)"
    by (intro ext) (metis option.exhaust)
qed

definition ht_fits :: "('k, 'v) fh_ht \<Rightarrow> ht_env \<Rightarrow> bool" where
  "ht_fits ht env \<longleftrightarrow> arena_ok (ht_mpool ht) (set (ht_elts ht)) (env_arena env)"

lemma ht_pool_inv:
  assumes inv: "ht_ok ht" and ok: "mpool_ok mp (set (ht_elts ht))"
    and frame: "\<forall>x\<in>set (ht_elts ht). mp_data mp x = ht_elt ht x"
  shows "ht_ok (ht\<lparr>ht_mpool := mp\<rparr>)" and "ht_map (ht\<lparr>ht_mpool := mp\<rparr>) = ht_map ht"
proof -
  have "linked (ht_mask ht) (mp_data mp) (ht_table ht)"
    using linked_cong [of "ht_table ht" "mp_data mp" "ht_elt ht"] frame ht_invD(4) [OF inv] by blast
  moreover have "keys_ok (ht_kops ht) (mp_data mp) (set (ht_elts ht))"
    using inv frame by (simp add: ht_inv_def keys_ok_def inj_on_def del: set_concat)
  ultimately show "ht_ok (ht\<lparr>ht_mpool := mp\<rparr>)"
    using inv ok unfolding ht_inv_def by (simp del: set_concat)
  show "ht_map (ht\<lparr>ht_mpool := mp\<rparr>) = ht_map ht"
    using frame by (simp add: ht_map_def del: set_concat cong: map_cong)
qed

lemma ht_dup_iff:
  assumes inv: "ht_ok ht" and kops: "kops_ok (ht_kops ht)"
  shows "(\<exists>he\<in>set (ht_table ht ! ht_index ht (kops_khash (ht_kops ht) key klen)).
      ht_match ht (kops_khash (ht_kops ht) key klen) key klen he) \<longleftrightarrow> ht_map ht (key, klen) \<noteq> None"
  using ht_bucket_subset [OF inv, of "kops_khash (ht_kops ht) key klen"]
    ht_match_iff [OF inv kops, of _ key klen] ht_bucket_complete [OF inv, of _ key klen]
  unfolding ht_map_None_iff by blast

lemma fh_ht_put_spec:
  assumes inv: "ht_ok ht" and kops: "kops_ok (ht_kops ht)" and fits: "ht_fits ht env"
  shows "\<exists>ht' st. fh_ht_put zero env ht key klen value = Some (ht', st) \<and> ht_ok ht' \<and>
    ht_kops ht' = ht_kops ht \<and>
    (st = FH_ERR_DUP \<and> ht_map ht (key, klen) \<noteq> None \<and> ht' = ht \<or>
     st = FH_ERROR \<and> ht_map ht (key, klen) = None \<and> ht_map ht' = ht_map ht \<or>
     st = FH_OK \<and> ht_map ht (key, klen) = None \<and> ht_map ht' = (ht_map ht)((key, klen) \<mapsto> value))"
proof -
  let ?h = "kops_khash (ht_kops ht) key klen"
  let ?b = "ht_table ht ! ht_index ht ?h"
  have dup: "(\<exists>he\<in>set ?b. ht_match ht ?h key klen he) \<longleftrightarrow> ht_map ht (key, klen) \<noteq> None"
    by (rule ht_dup_iff [OF inv kops])
  show ?thesis
  proof (cases "ht_map ht (key, klen) = None")
    case False
    with dup inv show ?thesis
      by (simp add: fh_ht_put_def Let_def ht_bucket_eq [OF inv])
  next
    case True
    note free = True
    obtain mp r where get: "fh_mpool_get zero (env_arena env) (ht_mpool ht) = Some (mp, r)"
      and r: "case r of None \<Rightarrow> mpool_ok mp (set (ht_elts ht))
              | Some he \<Rightarrow> he \<notin> set (ht_elts ht) \<and> mpool_ok mp (insert he (set (ht_elts ht)))"
      and frame: "\<forall>x\<in>set (ht_elts ht). mp_data mp x = ht_elt ht x"
      using mp.get_spec [of "ht_mpool ht" "set (ht_elts ht)" "env_arena env" zero]
        ht_invD(7) [OF inv] fits by (auto simp: ht_fits_def simp del: set_concat)
    have nodup: "\<not> (\<exists>he\<in>set ?b. ht_match ht ?h key klen he)" using dup free by simp
    show ?thesis
    proof (cases r)
      case None
      with r have "mpool_ok mp (set (ht_elts ht))" by simp
      from ht_pool_inv [OF inv this frame] None get nodup free show ?thesis
        by (simp add: fh_ht_put_def Let_def ht_bucket_eq [OF inv])
    next
      case (Some he)
      let ?ht1 = "ht\<lparr>ht_mpool := mp, ht_count := ht_count ht + 1\<rparr>"
      let ?ht2 = "if ht_flags ?ht1 AND FH_HT_FL_GROW \<noteq> 0 \<and> 4 * ht_size ?ht1 < 5 * ht_count ?ht1
                  then snd (ht_grow env ?ht1) else ?ht1"
      have 1: "ht_inv {he} ?ht1" "ht_map ?ht1 = ht_map ht"
        using ht_get_elt_inv [OF inv _ _ frame, of he] r Some by simp_all
      have 2: "ht_inv {he} ?ht2" "ht_map ?ht2 = ht_map ht" "ht_kops ?ht2 = ht_kops ht"
        using 1 ht_grow_inv [OF 1(1), of env] by simp_all
      let ?i = "ht_index ?ht2 ?h"
      let ?ht' = "?ht2\<lparr>ht_mpool := mp_write he \<lparr>he_chead = ?i, he_value = value, he_key = key,
          he_klen = klen, he_hashval = ?h\<rparr> (ht_mpool ?ht2),
          ht_table := (ht_table ?ht2)[?i := he # ht_table ?ht2 ! ?i]\<rparr>"
      have put: "fh_ht_put zero env ht key klen value = Some (?ht', FH_OK)"
        using get Some nodup
        by (simp only: fh_ht_put_def Let_def ht_bucket_eq [OF inv] ht_bucket_eq [OF 2(1)]
            bind.bind_lunit if_False option.case prod.case)
      have "ht_map ?ht2 (key, klen) = None" using free 2(2) by simp
      note ht_link_elt [OF 2(1) this refl refl refl refl, of "value"]
      then have "ht_ok ?ht'" "ht_map ?ht' = (ht_map ht)((key, klen) \<mapsto> value)"
        unfolding 2(2,3) by blast+
      moreover have "ht_kops ?ht' = ht_kops ht" using 2(3) by simp
      ultimately show ?thesis using put free by blast
    qed
  qed
qed

subsection \<open>Lookup and deletion\<close>

lemma fh_ht_get_spec:
  assumes "ht_ok ht" and "kops_ok (ht_kops ht)"
  shows "fh_ht_get ht key klen =
    Some (case ht_map ht (key, klen) of None \<Rightarrow> (FH_ERR_NOTFOUND, None) | Some v \<Rightarrow> (FH_OK, Some v))"
  using ht_lookup_spec [OF assms, of key klen]
  by (auto simp: fh_ht_get_def split: option.splits)

lemma linked_remove:
  assumes lk: "linked msk d tab" and i: "i < length tab" and he: "he \<in> set (tab ! i)"
  shows "linked msk d (tab[i := remove1 he (tab ! i)])"
proof -
  have "distinct (concat tab)" using lk by (simp add: linked_def)
  then have "distinct (remove1 he (concat tab))" by (rule distinct_remove1)
  moreover have "mset (concat (tab[i := remove1 he (tab ! i)])) = mset (remove1 he (concat tab))"
    using mset_concat_remove1 [OF i he] by simp
  ultimately have "distinct (concat (tab[i := remove1 he (tab ! i)]))"
    by (metis mset_eq_imp_distinct_iff)
  then show ?thesis
    using lk i set_remove1_subset [of he "tab ! i"]
    by (auto simp: linked_def nth_list_update split: if_splits)
qed

lemma ht_unlink_elt:
  assumes inv: "ht_ok ht" and he: "he \<in> set (ht_elts ht)"
    and ht': "ht' = ht\<lparr>ht_mpool := fh_mpool_put zero (ht_mpool ht) he,
        ht_table := (ht_table ht)[he_chead (ht_elt ht he) := remove1 he (ht_table ht ! he_chead (ht_elt ht he))],
        ht_count := ht_count ht - 1\<rparr>"
  shows "0 < ht_count ht" and "ht_ok ht'" and "ht_map ht' = (ht_map ht)(elt_key (ht_elt ht he) := None)"
proof -
  let ?i = "he_chead (ht_elt ht he)"
  obtain i where i: "i < length (ht_table ht)" "he \<in> set (ht_table ht ! i)"
    using he unfolding in_concat_nth by blast
  moreover have "?i = i" using ht_invD(4) [OF inv] i unfolding linked_def by blast
  ultimately have il: "?i < length (ht_table ht)" "he \<in> set (ht_table ht ! ?i)" by simp_all
  have ms: "mset (ht_elts ht') = mset (remove1 he (ht_elts ht))"
    using mset_concat_remove1 [OF il] by (simp add: ht')
  have dist: "distinct (ht_elts ht)" using ht_invD(4) [OF inv] by (simp add: linked_def)
  have set': "set (ht_elts ht') = set (ht_elts ht) - {he}"
    using set_eq_of_mset [OF ms] dist by (simp add: set_remove1_eq)
  have len: "length (ht_elts ht') = length (ht_elts ht) - 1" "0 < length (ht_elts ht)"
    using mset_eq_length [OF ms] he length_pos_if_in_set [OF he]
    by (simp_all add: length_remove1 del: set_concat)
  have pool: "mpool_ok (ht_mpool ht') (set (ht_elts ht'))"
    "\<And>x. x \<noteq> he \<Longrightarrow> ht_elt ht' x = ht_elt ht x"
    using mp.put_inv [of "ht_mpool ht" "set (ht_elts ht)" he zero]
      mp.put_frame [of "ht_mpool ht" "set (ht_elts ht)" he _ zero] ht_invD(7) [OF inv] he
    unfolding set' by (simp_all add: ht' del: set_concat)
  have cnt: "unat (ht_count ht) = length (ht_elts ht)" using ht_invD(8) [OF inv] by simp
  then show pos: "0 < ht_count ht" using len(2) by (metis gr0I unat_0 word_neq_0_conv less_irrefl)
  have cnt': "unat (ht_count ht - 1) = length (ht_elts ht')"
    using pos cnt len(1) by (simp add: unat_dec word_gt_0)
  have eq: "\<And>x. x \<in> set (ht_elts ht') \<Longrightarrow> ht_elt ht' x = ht_elt ht x"
    using pool(2) set' by blast
  have "linked (ht_mask ht) (ht_elt ht) (ht_table ht')"
    using linked_remove [OF ht_invD(4) [OF inv] il] by (simp add: ht')
  then have "linked (ht_mask ht) (ht_elt ht') (ht_table ht')"
    using linked_cong [of "ht_table ht'" "ht_elt ht'" "ht_elt ht", OF eq] by blast
  moreover have "keys_ok (ht_kops ht) (ht_elt ht') (set (ht_elts ht'))"
    using ht_invD(5) [OF inv] eq unfolding keys_ok_def set' by (auto simp: inj_on_def simp del: set_concat)
  ultimately show ok': "ht_ok ht'"
    using ht_invD(1-3) [OF inv] pool(1) cnt' unfolding ht_inv_def
    by (simp add: ht' del: set_concat)
  have "ht_map ht' kl = Some v \<longleftrightarrow> ((ht_map ht)(elt_key (ht_elt ht he) := None)) kl = Some v" for kl v
    using ht_map_Some_iff [OF ok', of kl v] ht_map_Some_iff [OF inv, of kl v] eq he
      ht_invD(5) [OF inv] unfolding set' keys_ok_def inj_on_def
    by (auto simp del: set_concat)
  then show "ht_map ht' = (ht_map ht)(elt_key (ht_elt ht he) := None)"
    by (intro ext) (metis option.exhaust)
qed

lemma fh_ht_delete_spec:
  assumes inv: "ht_ok ht" and kops: "kops_ok (ht_kops ht)"
  shows "\<exists>ht'. fh_ht_delete zero ht key klen =
      Some (ht', if ht_map ht (key, klen) = None then FH_ERR_NOTFOUND else FH_OK, ht_map ht (key, klen)) \<and>
    ht_ok ht' \<and> ht_kops ht' = ht_kops ht \<and> ht_map ht' = (ht_map ht)((key, klen) := None)"
proof -
  have sz: "0 < ht_size ht" using ht_invD(1) [OF inv] by (auto simp: pow2_size_def word_gt_0)
  obtain p where look: "ht_lookup ht key klen = Some p"
    and p: "case p of None \<Rightarrow> ht_map ht (key, klen) = None
     | Some he \<Rightarrow> he \<in> set (ht_elts ht) \<and> elt_key (ht_elt ht he) = (key, klen) \<and>
         ht_map ht (key, klen) = Some (he_value (ht_elt ht he))"
    using ht_lookup_spec [OF inv kops] by blast
  show ?thesis
  proof (cases p)
    case None
    with look p sz inv show ?thesis
      by (auto simp: fh_ht_delete_def fun_upd_idem)
  next
    case (Some he)
    with p have he: "he \<in> set (ht_elts ht)" "elt_key (ht_elt ht he) = (key, klen)"
      "ht_map ht (key, klen) = Some (he_value (ht_elt ht he))" by simp_all
    from ht_unlink_elt [where zero = zero, OF inv he(1) refl] look Some sz he show ?thesis
      by (simp add: fh_ht_delete_def Let_def)
  qed
qed

subsection \<open>Tables over a pool that does not grow\<close>

lemma ht_relink_fold_fixed:
  "fold (ht_relink msk) xs (tab, mp) = (tab', mp') \<Longrightarrow> mp_fixed n mp' = mp_fixed n mp"
  by (induction xs arbitrary: tab mp) (auto simp: ht_relink_apply Let_def)

lemma ht_grow_fixed: "mp_fixed n (ht_mpool (snd (ht_grow env ht))) = mp_fixed n (ht_mpool ht)"
  by (auto simp: ht_grow_def Let_def split: prod.splits dest: ht_relink_fold_fixed [where n = n])

lemma ht_fixed_fits: "mp_fixed n (ht_mpool ht) \<Longrightarrow> ht_fits ht env"
  by (simp add: ht_fits_def mp_fixed_arena_ok)

lemma fh_ht_put_fixed:
  assumes inv: "ht_ok ht" and fixed: "mp_fixed n (ht_mpool ht)"
    and put: "fh_ht_put zero env ht key klen v = Some (ht', st)"
  shows "mp_fixed n (ht_mpool ht')" and "st = FH_ERROR \<longleftrightarrow>
    \<not> (\<exists>he\<in>set (ht_table ht ! ht_index ht (kops_khash (ht_kops ht) key klen)).
        ht_match ht (kops_khash (ht_kops ht) key klen) key klen he) \<and> length (ht_elts ht) = n"
proof -
  let ?h = "kops_khash (ht_kops ht) key klen"
  let ?dup = "\<exists>he\<in>set (ht_table ht ! ht_index ht ?h). ht_match ht ?h key klen he"
  have pool: "mpool_ok (ht_mpool ht) (set (ht_elts ht))" using ht_invD(7) [OF inv] by simp
  have card: "card (set (ht_elts ht)) = length (ht_elts ht)"
    using ht_invD(4) [OF inv] unfolding linked_def by (blast intro: distinct_card)
  have "mp_fixed n (ht_mpool ht') \<and> (st = FH_ERROR \<longleftrightarrow> \<not> ?dup \<and> length (ht_elts ht) = n)"
  proof (cases ?dup)
    case True
    with put fixed show ?thesis by (auto simp: fh_ht_put_def Let_def ht_bucket_eq [OF inv])
  next
    case False
    obtain mp r where get: "fh_mpool_get zero (env_arena env) (ht_mpool ht) = Some (mp, r)"
      using put False
      by (auto simp: fh_ht_put_def Let_def ht_bucket_eq [OF inv] bind_eq_Some_conv split: if_splits)
    note f = fh_mpool_get_fixed [OF pool fixed get] card
    show ?thesis
      using put False get f ht_grow_fixed [of n env "ht\<lparr>ht_mpool := mp, ht_count := ht_count ht + 1\<rparr>"]
      by (auto simp: fh_ht_put_def Let_def ht_bucket_eq [OF inv] bind_eq_Some_conv
          split: if_splits option.splits simp del: set_concat)
  qed
  then show "mp_fixed n (ht_mpool ht')" "st = FH_ERROR \<longleftrightarrow> \<not> ?dup \<and> length (ht_elts ht) = n"
    by blast+
qed

lemma fh_ht_delete_fixed:
  assumes inv: "ht_ok ht" and kops: "kops_ok (ht_kops ht)" and fixed: "mp_fixed n (ht_mpool ht)"
    and del: "fh_ht_delete zero ht key klen = Some (ht', st, r)"
  shows "mp_fixed n (ht_mpool ht')"
proof -
  obtain p where look: "ht_lookup ht key klen = Some p"
    and p: "\<And>he. p = Some he \<Longrightarrow> he \<in> set (ht_elts ht)"
    using ht_lookup_spec [OF inv kops, of key klen] by (force simp del: set_concat)
  have pool: "mpool_ok (ht_mpool ht) (set (ht_elts ht))" using ht_invD(7) [OF inv] by simp
  show ?thesis
    using del look fixed fh_mpool_put_fixed [OF pool p fixed, of _ zero]
    by (auto simp: fh_ht_delete_def Let_def split: if_splits option.splits)
qed

lemma finite_ht_map: "finite (dom (ht_map ht))"
  by (simp add: ht_map_def finite_dom_map_of)

lemma card_ht_map:
  assumes "ht_ok ht"
  shows "card (dom (ht_map ht)) = length (ht_elts ht)"
proof -
  have "dom (ht_map ht) = (\<lambda>he. elt_key (ht_elt ht he)) ` set (ht_elts ht)"
    by (auto simp: ht_map_def dom_map_of_conv_image_fst image_image simp del: set_concat)
  then show ?thesis
    using ht_invD(4,5) [OF assms] unfolding linked_def keys_ok_def
    by (metis card_image distinct_card)
qed

subsection \<open>A new table\<close>

lemma int32_id: "- (2 ^ 31) \<le> i \<Longrightarrow> i < 2 ^ 31 \<Longrightarrow> int32 i = i"
  by (simp add: int32_def sint_sbintrunc' signed_take_bit_int_eq_self_iff)

lemma fh_ht_new_ok:
  assumes new: "fh_ht_new zero m1 m2 m3 env n flags kops = Some ht"
    and n: "0 \<le> n" "n \<le> 2 ^ 29"
    and fits: "block_fits (ht_mpool ht) (the (env_arena env))"
  shows "ht_ok ht" and "ht_map ht = Map.empty" and "ht_kops ht = kops"
    and "flags AND FH_HT_FL_GROW = 0 \<Longrightarrow> mp_fixed (nat n) (ht_mpool ht)"
proof -
  let ?pfl = "if flags AND FH_HT_FL_GROW \<noteq> 0 then FH_MPOOL_FL_GROW else 0"
  have "n * 2 \<le> 2 ^ 30" using n by simp
  then have i32: "int32 (n * 2) = n * 2"
    using n by (intro int32_id) simp_all
  obtain j where j: "j \<le> 30" "ht_npower (n * 2) = 2 ^ j"
    using ht_npower_pow2 [of "n * 2"] \<open>n * 2 \<le> 2 ^ 30\<close> by blast
  have "m1" using new by (cases m1) (simp_all add: fh_ht_new_def)
  moreover from this have "env_calloc env"
    using new by (cases "env_calloc env") (simp_all add: fh_ht_new_def Let_def)
  ultimately have m: "m1 = True" "env_calloc env = True" by simp_all
  let ?mk = "fh_mpool_new zero m2 m3 (env_arena env) ''HASH_ELMT'' 48 (word_of_int n) ?pfl"
  have mk: "(case ?mk of None \<Rightarrow> None | Some mp \<Rightarrow>
      Some \<lparr>ht_mpool = mp, ht_table = replicate (nat (2 ^ j)) [], ht_size = word_of_int (2 ^ j),
      ht_count = 0, ht_mask = word_of_int (2 ^ j - 1), ht_flags = flags, ht_kops = kops\<rparr>) = Some ht"
    using new unfolding fh_ht_new_def Let_def i32 j m by (simp only: not_True_eq_False if_False)
  then obtain mp where mp: "?mk = Some mp" by (cases ?mk) simp_all
  have ht: "ht = \<lparr>ht_mpool = mp, ht_table = replicate (nat (2 ^ j)) [], ht_size = word_of_int (2 ^ j),
      ht_count = 0, ht_mask = word_of_int (2 ^ j - 1), ht_flags = flags, ht_kops = kops\<rparr>"
    using mk unfolding mp by simp
  obtain a where a: "env_arena env = Some a"
    using mp unfolding fh_mpool_new_def Let_def
    by (cases "env_arena env") (simp_all split: if_splits)
  have "block_fits mp a" using fits ht a by simp
  note pool = fh_mpool_new_pool_ok [OF mp [unfolded a] this]
  have usz: "unat (2 ^ j :: u32) = 2 ^ j" using j by (intro unat_pow2) simp
  have sel: "ht_mpool ht = mp" "ht_table ht = replicate (2 ^ j) []" "ht_size ht = 2 ^ j"
    "ht_count ht = 0" "ht_mask ht = 2 ^ j - 1" "ht_kops ht = kops"
    unfolding ht by (simp_all add: nat_power_eq)
  have "concat (ht_table ht) = []" unfolding sel by simp
  moreover have "linked (ht_mask ht) (mp_data mp) (ht_table ht)"
    unfolding sel linked_def by simp
  moreover have "pow2_size (ht_size ht)" unfolding sel pow2_size_def using usz j by blast
  ultimately show "ht_ok ht"
    unfolding ht_inv_def using pool(1) usz by (simp add: sel(1,3,4,5,6) keys_ok_def) (simp add: sel)
  show "ht_map ht = Map.empty" "ht_kops ht = kops"
    using \<open>concat (ht_table ht) = []\<close> by (simp_all add: sel(6) ht_map_def)
  have "uint (word_of_int n :: u32) = n mod 2 ^ 32" by (simp only: uint_word_of_int) simp
  also have "\<dots> = n" using n by (intro mod_pos_pos_trivial) simp_all
  finally have "unat (word_of_int n :: u32) = nat n" by (simp only: unat_eq_nat_uint)
  then show "flags AND FH_HT_FL_GROW = 0 \<Longrightarrow> mp_fixed (nat n) (ht_mpool ht)"
    using pool by (simp add: sel(1) mp_fixed_def mp_total_def mp_flag_def mpool_ok_def)
qed

subsection \<open>The interface the lookup tables rely on\<close>

locale keyed_table =
  fixes put :: "'m \<Rightarrow> 't \<Rightarrow> 'k \<Rightarrow> 'v \<Rightarrow> ('t \<times> fh_status) option"
    and get :: "'t \<Rightarrow> 'k \<Rightarrow> (fh_status \<times> 'v option) option"
    and del :: "'t \<Rightarrow> 'k \<Rightarrow> ('t \<times> fh_status \<times> 'v option) option"
    and tmap :: "'t \<Rightarrow> 'k \<rightharpoonup> 'v"
    and inv :: "'t \<Rightarrow> bool"
    and fits :: "'t \<Rightarrow> 'm \<Rightarrow> bool"
  assumes put_law: "inv t \<Longrightarrow> fits t m \<Longrightarrow> \<exists>t' st. put m t k v = Some (t', st) \<and> inv t' \<and>
      (st = FH_ERR_DUP \<and> tmap t k \<noteq> None \<and> t' = t \<or>
       st = FH_ERROR \<and> tmap t k = None \<and> tmap t' = tmap t \<or>
       st = FH_OK \<and> tmap t k = None \<and> tmap t' = (tmap t)(k \<mapsto> v))"
    and get_law: "inv t \<Longrightarrow>
      get t k = Some (case tmap t k of None \<Rightarrow> (FH_ERR_NOTFOUND, None) | Some v \<Rightarrow> (FH_OK, Some v))"
    and del_law: "inv t \<Longrightarrow> \<exists>t'. del t k =
        Some (t', if tmap t k = None then FH_ERR_NOTFOUND else FH_OK, tmap t k) \<and>
      inv t' \<and> tmap t' = (tmap t)(k := None)"
begin

lemma put_cases:
  assumes "inv t" and "fits t m" and "put m t k v = Some (t', st)"
  obtains (dup) "st = FH_ERR_DUP" "tmap t k \<noteq> None" "t' = t" "inv t'"
  | (full) "st = FH_ERROR" "tmap t k = None" "tmap t' = tmap t" "inv t'"
  | (ok) "st = FH_OK" "tmap t k = None" "tmap t' = (tmap t)(k \<mapsto> v)" "inv t'"
  using put_law [OF assms(1,2), of k v] assms(3) that by auto

lemma put_then_get:
  assumes "inv t" and "fits t m" and "put m t k v = Some (t', FH_OK)"
  shows "get t' k = Some (FH_OK, Some v)" and "k' \<noteq> k \<Longrightarrow> get t' k' = get t k'"
proof -
  have "inv t'" "tmap t' = (tmap t)(k \<mapsto> v)"
    using put_law [OF assms(1,2), of k v] assms(3) by auto
  then show "get t' k = Some (FH_OK, Some v)" "k' \<noteq> k \<Longrightarrow> get t' k' = get t k'"
    using assms(1) by (simp_all add: get_law)
qed

lemma del_cases:
  assumes "inv t" and "del t k = Some (t', st, r)"
  shows "inv t'" and "tmap t' = (tmap t)(k := None)" and "r = tmap t k"
    and "st = (if tmap t k = None then FH_ERR_NOTFOUND else FH_OK)"
  using del_law [OF assms(1), of k] assms(2) by auto

lemma del_then_get:
  assumes "inv t" and "del t k = Some (t', st, r)"
  shows "get t' k = Some (FH_ERR_NOTFOUND, None)" and "k' \<noteq> k \<Longrightarrow> get t' k' = get t k'"
  using del_cases [OF assms] assms(1) by (simp_all add: get_law)

end

definition ht_good :: "('k, 'v) fh_ht \<Rightarrow> bool" where
  "ht_good ht \<longleftrightarrow> ht_ok ht \<and> kops_ok (ht_kops ht)"

interpretation ht: keyed_table
  "\<lambda>env ht k v. fh_ht_put zero env ht k klen v" "\<lambda>ht k. fh_ht_get ht k klen"
  "\<lambda>ht k. fh_ht_delete zero ht k klen" "\<lambda>ht k. ht_map ht (k, klen)" ht_good ht_fits
  for zero :: "('k, 'v) fh_ht_elt" and klen :: int
proof unfold_locales
  fix t :: "('k, 'v) fh_ht" and m k v
  assume "ht_good t" and "ht_fits t m"
  then show "\<exists>t' st. fh_ht_put zero m t k klen v = Some (t', st) \<and> ht_good t' \<and>
      (st = FH_ERR_DUP \<and> ht_map t (k, klen) \<noteq> None \<and> t' = t \<or>
       st = FH_ERROR \<and> ht_map t (k, klen) = None \<and>
         (\<lambda>k. ht_map t' (k, klen)) = (\<lambda>k. ht_map t (k, klen)) \<or>
       st = FH_OK \<and> ht_map t (k, klen) = None \<and>
         (\<lambda>k. ht_map t' (k, klen)) = (\<lambda>k. ht_map t (k, klen))(k \<mapsto> v))"
    using fh_ht_put_spec [of t m zero k klen v] by (auto simp: ht_good_def fun_eq_iff)
next
  fix t :: "('k, 'v) fh_ht" and k
  assume "ht_good t"
  then show "fh_ht_get t k klen = Some (case ht_map t (k, klen) of None \<Rightarrow> (FH_ERR_NOTFOUND, None)
      | Some v \<Rightarrow> (FH_OK, Some v))"
    and "\<exists>t'. fh_ht_delete zero t k klen =
        Some (t', if ht_map t (k, klen) = None then FH_ERR_NOTFOUND else FH_OK, ht_map t (k, klen)) \<and>
      ht_good t' \<and> (\<lambda>k. ht_map t' (k, klen)) = (\<lambda>k. ht_map t (k, klen))(k := None)"
    using fh_ht_get_spec [of t k klen] fh_ht_delete_spec [of t zero k klen]
    by (auto simp: ht_good_def fun_eq_iff)
qed

subsection \<open>Runs of operations against a map\<close>

datatype ('k, 'v) ht_op = HPut ht_env 'k 'v | HGet 'k | HDel 'k

definition ht_step ::
  "('k, 'v) fh_ht_elt \<Rightarrow> int \<Rightarrow> ('k, 'v) fh_ht \<Rightarrow> ('k, 'v) ht_op
   \<Rightarrow> (('k, 'v) fh_ht \<times> fh_status \<times> 'v option) option" where
  "ht_step zero klen ht op =
    (case op of
       HPut env k v \<Rightarrow> map_option (\<lambda>(ht', st). (ht', st, None)) (fh_ht_put zero env ht k klen v)
     | HGet k \<Rightarrow> map_option (\<lambda>(st, r). (ht, st, r)) (fh_ht_get ht k klen)
     | HDel k \<Rightarrow> fh_ht_delete zero ht k klen)"

text \<open>The specification: a map of at most \<open>n\<close> keys.\<close>

definition map_step ::
  "nat \<Rightarrow> ('k \<rightharpoonup> 'v) \<Rightarrow> ('k, 'v) ht_op \<Rightarrow> ('k \<rightharpoonup> 'v) \<times> fh_status \<times> 'v option" where
  "map_step n m op =
    (case op of
       HPut env k v \<Rightarrow> if k \<in> dom m then (m, FH_ERR_DUP, None)
                       else if card (dom m) = n then (m, FH_ERROR, None)
                       else (m(k \<mapsto> v), FH_OK, None)
     | HGet k \<Rightarrow> (m, if k \<in> dom m then FH_OK else FH_ERR_NOTFOUND, m k)
     | HDel k \<Rightarrow> (m(k := None), if k \<in> dom m then FH_OK else FH_ERR_NOTFOUND, m k))"

fun ht_run ::
  "('k, 'v) fh_ht_elt \<Rightarrow> int \<Rightarrow> ('k, 'v) fh_ht \<Rightarrow> ('k, 'v) ht_op list
   \<Rightarrow> (('k, 'v) fh_ht \<times> (fh_status \<times> 'v option) list) option" where
  "ht_run zero klen ht [] = Some (ht, [])"
| "ht_run zero klen ht (op # ops) =
     do { (ht1, r) \<leftarrow> ht_step zero klen ht op;
          (ht2, rs) \<leftarrow> ht_run zero klen ht1 ops;
          Some (ht2, r # rs) }"

fun map_run ::
  "nat \<Rightarrow> ('k \<rightharpoonup> 'v) \<Rightarrow> ('k, 'v) ht_op list \<Rightarrow> ('k \<rightharpoonup> 'v) \<times> (fh_status \<times> 'v option) list" where
  "map_run n m [] = (m, [])"
| "map_run n m (op # ops) =
     (case map_step n m op of (m1, r) \<Rightarrow> case map_run n m1 ops of (m2, rs) \<Rightarrow> (m2, r # rs))"

text \<open>A table all of whose keys have length \<open>klen\<close>, over a pool of \<open>n\<close> elements.\<close>

definition ht_sized :: "nat \<Rightarrow> int \<Rightarrow> ('k, 'v) fh_ht \<Rightarrow> bool" where
  "ht_sized n klen ht \<longleftrightarrow>
     ht_good ht \<and> mp_fixed n (ht_mpool ht) \<and> (\<forall>k l. ht_map ht (k, l) \<noteq> None \<longrightarrow> l = klen)"

lemma ht_sized_klen:
  assumes "ht_sized n klen ht" and "ht_map ht (k, l) = Some v"
  shows "l = klen"
proof -
  have "\<forall>k l. ht_map ht (k, l) \<noteq> None \<longrightarrow> l = klen" using assms(1) unfolding ht_sized_def by simp
  then have "ht_map ht (k, l) \<noteq> None \<longrightarrow> l = klen" by (elim allE)
  with assms(2) show ?thesis by simp
qed

lemma ht_sizedI:
  assumes "ht_ok ht" and "kops_ok (ht_kops ht)" and "mp_fixed n (ht_mpool ht)"
    and "\<And>k l v. ht_map ht (k, l) = Some v \<Longrightarrow> l = klen"
  shows "ht_sized n klen ht"
  unfolding ht_sized_def ht_good_def not_None_eq using assms by (intro conjI allI impI) blast+

lemma ht_sized_card:
  assumes "ht_sized n klen ht"
  shows "card (dom (\<lambda>k. ht_map ht (k, klen))) = length (ht_elts ht)"
proof -
  have "dom (ht_map ht) = (\<lambda>k. (k, klen)) ` dom (\<lambda>k. ht_map ht (k, klen))"
    using ht_sized_klen [OF assms] by (fastforce simp: image_iff)
  moreover have "inj_on (\<lambda>k. (k, klen)) A" for A :: "'a set" by (auto intro: inj_onI)
  ultimately have "card (dom (ht_map ht)) = card (dom (\<lambda>k. ht_map ht (k, klen)))"
    by (simp only: card_image)
  then show ?thesis
    using card_ht_map [of ht] assms by (simp add: ht_sized_def ht_good_def)
qed

lemma ht_sized_put:
  assumes s: "ht_sized n klen ht"
  shows "\<exists>ht' st. fh_ht_put zero env ht k klen v = Some (ht', st) \<and> ht_sized n klen ht' \<and>
    ht_kops ht' = ht_kops ht \<and>
    ((\<lambda>k. ht_map ht' (k, klen)), st) =
      (if ht_map ht (k, klen) \<noteq> None then ((\<lambda>k. ht_map ht (k, klen)), FH_ERR_DUP)
       else if length (ht_elts ht) = n then ((\<lambda>k. ht_map ht (k, klen)), FH_ERROR)
       else ((\<lambda>k. ht_map ht (k, klen))(k \<mapsto> v), FH_OK))"
proof -
  have ok: "ht_ok ht" "kops_ok (ht_kops ht)" "mp_fixed n (ht_mpool ht)"
    using s by (simp_all add: ht_sized_def ht_good_def)
  obtain ht' st where put: "fh_ht_put zero env ht k klen v = Some (ht', st)" "ht_ok ht'"
    "ht_kops ht' = ht_kops ht"
    and c: "st = FH_ERR_DUP \<and> ht_map ht (k, klen) \<noteq> None \<and> ht' = ht \<or>
      st = FH_ERROR \<and> ht_map ht (k, klen) = None \<and> ht_map ht' = ht_map ht \<or>
      st = FH_OK \<and> ht_map ht (k, klen) = None \<and> ht_map ht' = (ht_map ht)((k, klen) \<mapsto> v)"
    using fh_ht_put_spec [OF ok(1,2) ht_fixed_fits [OF ok(3)], of zero env k klen v] by blast
  note f = fh_ht_put_fixed [OF ok(1,3) put(1)] ht_dup_iff [OF ok(1,2), of k klen]
  have err: "st = FH_ERROR \<longleftrightarrow> ht_map ht (k, klen) = None \<and> length (ht_elts ht) = n"
    using f(2) unfolding f(3) by blast
  have "ht_sized n klen ht'"
  proof (rule ht_sizedI)
    fix k' l v' assume "ht_map ht' (k', l) = Some v'"
    then show "l = klen" using c ht_sized_klen [OF s, of k' l v'] by (auto split: if_splits)
  qed (use put f(1) ok(2) in simp_all)
  then show ?thesis
    using put c err by (auto simp: fun_eq_iff)
qed

lemma ht_sized_del:
  assumes s: "ht_sized n klen ht"
  shows "\<exists>ht'. fh_ht_delete zero ht k klen =
      Some (ht', if ht_map ht (k, klen) = None then FH_ERR_NOTFOUND else FH_OK, ht_map ht (k, klen)) \<and>
    ht_sized n klen ht' \<and> ht_kops ht' = ht_kops ht \<and>
    (\<lambda>k. ht_map ht' (k, klen)) = (\<lambda>k. ht_map ht (k, klen))(k := None)"
proof -
  have ok: "ht_ok ht" "kops_ok (ht_kops ht)" "mp_fixed n (ht_mpool ht)"
    using s by (simp_all add: ht_sized_def ht_good_def)
  obtain ht' where d: "fh_ht_delete zero ht k klen =
      Some (ht', if ht_map ht (k, klen) = None then FH_ERR_NOTFOUND else FH_OK, ht_map ht (k, klen))"
    "ht_ok ht'" "ht_kops ht' = ht_kops ht" "ht_map ht' = (ht_map ht)((k, klen) := None)"
    using fh_ht_delete_spec [OF ok(1,2), of zero k klen] by blast
  moreover have "mp_fixed n (ht_mpool ht')"
    by (rule fh_ht_delete_fixed [OF ok d(1)])
  ultimately have "ht_sized n klen ht'"
  proof (intro ht_sizedI)
    fix k' l v' assume "ht_map ht' (k', l) = Some v'"
    then show "l = klen" using d(4) ht_sized_klen [OF s, of k' l v'] by (simp split: if_splits)
  qed (use ok(2) in simp_all)
  with d show ?thesis by (auto simp: fun_eq_iff)
qed

lemma ht_step_map_step:
  assumes s: "ht_sized n klen ht"
  shows "\<exists>ht' r. ht_step zero klen ht op = Some (ht', r) \<and> ht_sized n klen ht' \<and>
    map_step n (\<lambda>k. ht_map ht (k, klen)) op = ((\<lambda>k. ht_map ht' (k, klen)), r)"
proof (cases op)
  case (HPut env k v)
  obtain ht' st where p: "fh_ht_put zero env ht k klen v = Some (ht', st)" "ht_sized n klen ht'"
    "((\<lambda>k. ht_map ht' (k, klen)), st) =
      (if ht_map ht (k, klen) \<noteq> None then ((\<lambda>k. ht_map ht (k, klen)), FH_ERR_DUP)
       else if length (ht_elts ht) = n then ((\<lambda>k. ht_map ht (k, klen)), FH_ERROR)
       else ((\<lambda>k. ht_map ht (k, klen))(k \<mapsto> v), FH_OK))"
    using ht_sized_put [OF s, of zero env k v] by blast
  have "map_step n (\<lambda>k. ht_map ht (k, klen)) op = ((\<lambda>k. ht_map ht' (k, klen)), st, None)"
    using p(3) unfolding map_step_def HPut ht_op.case ht_sized_card [OF s] domIff
    by (simp split: if_splits)
  with p(1,2) HPut show ?thesis by (simp add: ht_step_def)
next
  case (HGet k)
  have "fh_ht_get ht k klen = Some (case ht_map ht (k, klen) of None \<Rightarrow> (FH_ERR_NOTFOUND, None)
      | Some v \<Rightarrow> (FH_OK, Some v))"
    using s by (intro ht.get_law) (simp add: ht_sized_def)
  with HGet s show ?thesis
    by (cases "ht_map ht (k, klen)") (simp_all add: ht_step_def map_step_def domIff)
next
  case (HDel k)
  obtain ht' where "fh_ht_delete zero ht k klen =
      Some (ht', if ht_map ht (k, klen) = None then FH_ERR_NOTFOUND else FH_OK, ht_map ht (k, klen))"
    "ht_sized n klen ht'" "(\<lambda>k. ht_map ht' (k, klen)) = (\<lambda>k. ht_map ht (k, klen))(k := None)"
    using ht_sized_del [OF s, of zero k] by blast
  with HDel show ?thesis by (simp add: ht_step_def map_step_def domIff)
qed

lemma ht_run_map_run:
  "ht_sized n klen ht \<Longrightarrow> \<exists>ht' rs. ht_run zero klen ht ops = Some (ht', rs) \<and>
     map_run n (\<lambda>k. ht_map ht (k, klen)) ops = ((\<lambda>k. ht_map ht' (k, klen)), rs)"
proof (induction ops arbitrary: ht)
  case Nil
  then show ?case by simp
next
  case (Cons op ops)
  obtain ht1 r where st: "ht_step zero klen ht op = Some (ht1, r)" "ht_sized n klen ht1"
    "map_step n (\<lambda>k. ht_map ht (k, klen)) op = ((\<lambda>k. ht_map ht1 (k, klen)), r)"
    using ht_step_map_step [OF Cons.prems, of zero op] by blast
  then show ?case using Cons.IH [OF st(2)] by (cases r) (force simp: case_prod_beta)
qed

lemma fh_ht_new_sized:
  assumes new: "fh_ht_new zero m1 m2 m3 env n 0 kops = Some ht"
    and n: "0 \<le> n" "n \<le> 2 ^ 29" and fits: "block_fits (ht_mpool ht) (the (env_arena env))"
    and kops: "kops_ok kops"
  shows "ht_sized (nat n) klen ht" and "ht_map ht = Map.empty"
  using fh_ht_new_ok [OF new n fits] kops by (simp_all add: ht_sized_def ht_good_def)

subsection \<open>Properties\<close>

text \<open>
  C33.  Refinement: a table created for \<open>n\<close> elements without the growth flag behaves, on every
  sequence of insertions, lookups and deletions, exactly as a finite map of at most \<open>n\<close> keys:
  it never faults, and every status and every value it returns is the map's.
\<close>

theorem ht_refines_map:
  assumes "fh_ht_new zero m1 m2 m3 env n 0 kops = Some ht"
    and "0 \<le> n" and "n \<le> 2 ^ 29" and "block_fits (ht_mpool ht) (the (env_arena env))"
    and "kops_ok kops"
  shows "\<exists>ht'. ht_run zero klen ht ops = Some (ht', snd (map_run (nat n) Map.empty ops))"
proof -
  note new = fh_ht_new_sized(1) [OF assms(1-5), where klen = klen] fh_ht_new_sized(2) [OF assms(1-5)]
  show ?thesis
    using ht_run_map_run [OF new(1), of zero ops] unfolding new(2) by auto
qed

text \<open>
  C34.  Growing the table (twice the buckets, every element relinked at the head of its new list)
  changes no lookup, keeps the invariant, and gives a bucket count that is again a power of two.
\<close>

theorem ht_grow_preserves_lookups:
  assumes "ht_ok ht" and "kops_ok (ht_kops ht)"
  shows "ht_ok (snd (ht_grow env ht)) \<and> pow2_size (ht_size (snd (ht_grow env ht))) \<and>
         fh_ht_get (snd (ht_grow env ht)) key klen = fh_ht_get ht key klen"
proof -
  note g = ht_grow_inv [OF assms(1), of env]
  then show ?thesis
    using fh_ht_get_spec [OF assms, of key klen] fh_ht_get_spec [OF g(1), of key klen] assms(2)
      ht_invD(1) [OF g(1)] by simp
qed

text \<open>
  \<^verbatim>\<open>ht_npower\<close> returns the least power of two that is at least \<open>n\<close>, for every \<open>n\<close> up to
  \<open>2^30\<close>, and 0 beyond, where \<open>1 << 31\<close> is negative.
\<close>

lemma ht_npower_least:
  "n \<le> 2 ^ 30 \<Longrightarrow> \<exists>j\<le>30. ht_npower n = 2 ^ j \<and> n \<le> 2 ^ j \<and> (\<forall>i<j. 2 ^ i < n)"
proof -
  assume "n \<le> 2 ^ 30"
  then obtain j where j: "j \<le> 30" "ht_npower n = 2 ^ j" "n \<le> 2 ^ j" "j = 0 \<or> 2 ^ (j - 1) < n"
    using ht_npower_pow2 by blast
  have "2 ^ i < n" if "i < j" for i
  proof -
    have "(2 :: int) ^ i \<le> 2 ^ (j - 1)" using that by (intro power_increasing) simp_all
    moreover have "2 ^ (j - 1) < n" using j(4) that by auto
    ultimately show ?thesis by (rule le_less_trans)
  qed
  with j show ?thesis by blast
qed

text \<open>A table of three elements, keyed by four-byte integers, for the examples.\<close>

definition ex_kops :: "nat fh_ht_kops" where
  "ex_kops = \<lparr>kops_khash = \<lambda>k l. of_nat k, kops_kcmp = \<lambda>a b l. a = b\<rparr>"

definition ex_elt :: "(nat, nat) fh_ht_elt" where
  "ex_elt = \<lparr>he_chead = 0, he_value = 0, he_key = 0, he_klen = 0, he_hashval = 0\<rparr>"

definition ex_env :: ht_env where
  "ex_env = \<lparr>env_arena = Some 4096, env_calloc = True\<rparr>"

definition ex_ht :: "(nat, nat) fh_ht" where
  "ex_ht = the (fh_ht_new ex_elt True True True ex_env 3 0 ex_kops)"

lemma ex_ht_new: "fh_ht_new ex_elt True True True ex_env 3 0 ex_kops = Some ex_ht"
  and ex_ht_fits: "block_fits (ht_mpool ex_ht) (the (env_arena ex_env))"
  and ex_kops_ok: "kops_ok ex_kops" and ex_ht_kops: "ht_kops ex_ht = ex_kops"
proof -
  have "ht_npower 6 = 8"
    unfolding ht_npower_def by (simp add: ht_npower_from.simps Let_def)
  then obtain mp where mp: "fh_mpool_new ex_elt True True (Some 4096) ''HASH_ELMT'' 48 3 0 = Some mp"
    "mp_nchunks mp = 3" "mp_chunksize mp = 48"
    by (simp add: fh_mpool_new_def Let_def mpool_grow_Some)
  with \<open>ht_npower 6 = 8\<close> show new: "fh_ht_new ex_elt True True True ex_env 3 0 ex_kops = Some ex_ht"
    unfolding ex_ht_def by (simp add: fh_ht_new_def ex_env_def int32_id Let_def)
  have "ht_mpool ex_ht = mp" "ht_kops ex_ht = ex_kops"
    unfolding ex_ht_def using mp \<open>ht_npower 6 = 8\<close>
    by (simp_all add: fh_ht_new_def ex_env_def int32_id Let_def)
  with mp show "block_fits (ht_mpool ex_ht) (the (env_arena ex_env))" "ht_kops ex_ht = ex_kops"
    by (simp_all add: block_fits_def ex_env_def)
  show "kops_ok ex_kops" by (simp add: kops_ok_def ex_kops_def)
qed

theorem ht_refines_map_witness:
  "\<exists>ht'. ht_run ex_elt 4 ex_ht
     [HPut ex_env 1 10, HPut ex_env 9 90, HPut ex_env 1 11, HPut ex_env 2 20, HPut ex_env 3 30,
      HDel 1, HGet 1, HGet 9] =
     Some (ht', [(FH_OK, None), (FH_OK, None), (FH_ERR_DUP, None), (FH_OK, None), (FH_ERROR, None),
                 (FH_OK, Some 10), (FH_ERR_NOTFOUND, None), (FH_OK, Some 90)])"
  using ht_refines_map [OF ex_ht_new _ _ ex_ht_fits ex_kops_ok, of 4
    "[HPut ex_env 1 10, HPut ex_env 9 90, HPut ex_env 1 11, HPut ex_env 2 20, HPut ex_env 3 30,
      HDel 1, HGet 1, HGet 9]"]
  by (simp add: map_step_def)

definition ex_ht1 :: "(nat, nat) fh_ht" where
  "ex_ht1 = fst (the (fh_ht_put ex_elt ex_env ex_ht 1 4 10))"

theorem ht_grow_preserves_lookups_witness:
  "pow2_size (ht_size (snd (ht_grow ex_env ex_ht1))) \<and>
   fh_ht_get (snd (ht_grow ex_env ex_ht1)) 1 4 = Some (FH_OK, Some 10)"
proof -
  note ok = fh_ht_new_ok [OF ex_ht_new _ _ ex_ht_fits]
  have z: "ht_sized 3 4 ex_ht" using fh_ht_new_sized(1) [OF ex_ht_new _ _ ex_ht_fits ex_kops_ok] by simp
  have "length (ht_elts ex_ht) = 0" using ht_sized_card [OF z] ok(2) by simp
  with ht_sized_put [OF z, of ex_elt ex_env 1 10] ok(2)
  have s: "ht_sized 3 4 ex_ht1" and m: "ht_map ex_ht1 (1, 4) = Some 10"
    unfolding ex_ht1_def by (auto simp: fun_eq_iff split: if_splits)
  then have k: "ht_ok ex_ht1" "kops_ok (ht_kops ex_ht1)" by (simp_all add: ht_sized_def ht_good_def)
  have "fh_ht_get ex_ht1 1 4 = Some (FH_OK, Some 10)"
    using fh_ht_get_spec [OF k, of 1 4] m by simp
  with ht_grow_preserves_lookups [OF k, of ex_env 1 4] show ?thesis by simp
qed

end
