(* ===== verification/Lookup.thy ===== *)
theory Lookup
  imports Jhash Htable
begin

section \<open>Order and symbol tables (\<^verbatim>\<open>feeds/shared/lookup_tables\<close>)\<close>

text \<open>
  A lookup table is a pool of entries and a hash table from keys to entries.  The hash table's
  values are the addresses of the entries, and clients read and write the entries through those
  addresses, so the model keeps both levels: \<open>lt_hash\<close> maps a key to an address, \<open>lt_mempool\<close> holds
  the entry at an address.  A table that is not enabled has NULL for both, and using it is a
  fault (\<open>None\<close>).  The key structs are compared and hashed as raw memory; the order key is 28 bytes
  of fields and 4 bytes of padding, which the model takes to be zero.  The length every call
  passes is the size of the key struct, so the assertions on it hold.
\<close>

record ord_key =
  ok_order_no :: u64
  ok_order_no_str :: "u8 list"      \<comment> \<open>20 bytes\<close>

record lkp_ord =
  lo_key :: ord_key
  lo_order_no :: u64
  lo_order_no_str :: "u8 list"      \<comment> \<open>20 bytes\<close>
  lo_price :: u64
  lo_shares :: u32
  lo_buy_sell_ind :: u8
  lo_stock :: "u8 list"             \<comment> \<open>6 bytes\<close>
  lo_sym_entry :: ptr
  lo_context :: ptr

record lkp_sym =
  ls_key :: "u8 list"               \<comment> \<open>20 bytes\<close>
  ls_symbol :: "u8 list"            \<comment> \<open>20 bytes\<close>
  ls_context :: ptr

record ('k, 'e) lkp_tbl =
  lt_mempool :: "'e fh_mpool option"
  lt_hash :: "('k, addr) fh_ht option"
  lt_size :: u32
  lt_count :: u32

subsection \<open>Keys\<close>

text \<open>The 32-bit words of a byte array in memory.\<close>

fun bytes_words :: "u8 list \<Rightarrow> u32 list" where
  "bytes_words (a # b # c # d # bs) =
     (ucast a OR push_bit 8 (ucast b) OR push_bit 16 (ucast c) OR push_bit 24 (ucast d)) # bytes_words bs"
| "bytes_words _ = []"

definition ord_key_words :: "ord_key \<Rightarrow> u32 list" where
  "ord_key_words k =
     [ucast (ok_order_no k), ucast (drop_bit 32 (ok_order_no k))] @ bytes_words (ok_order_no_str k) @ [0]"

definition ord_key_hash :: "ord_key \<Rightarrow> int \<Rightarrow> u32" where
  "ord_key_hash k klen = jhash2 (ord_key_words k) 0"

definition ord_key_compare :: "ord_key \<Rightarrow> ord_key \<Rightarrow> int \<Rightarrow> bool" where
  "ord_key_compare k1 k2 klen \<longleftrightarrow> k1 = k2"

definition ord_kops :: "ord_key fh_ht_kops" where
  "ord_kops = \<lparr>kops_khash = ord_key_hash, kops_kcmp = ord_key_compare\<rparr>"

definition sym_key_hash :: "u8 list \<Rightarrow> int \<Rightarrow> u32" where
  "sym_key_hash k klen = jhash2 (bytes_words k) 0"

definition sym_key_compare :: "u8 list \<Rightarrow> u8 list \<Rightarrow> int \<Rightarrow> bool" where
  "sym_key_compare k1 k2 klen \<longleftrightarrow> k1 = k2"

definition sym_kops :: "u8 list fh_ht_kops" where
  "sym_kops = \<lparr>kops_khash = sym_key_hash, kops_kcmp = sym_key_compare\<rparr>"

subsection \<open>Zeroed structs and the outcomes of allocation\<close>

definition ord_key_zero :: ord_key where
  "ord_key_zero = \<lparr>ok_order_no = 0, ok_order_no_str = replicate 20 0\<rparr>"

definition ord_zero :: lkp_ord where
  "ord_zero = \<lparr>lo_key = ord_key_zero, lo_order_no = 0, lo_order_no_str = replicate 20 0, lo_price = 0,
               lo_shares = 0, lo_buy_sell_ind = 0, lo_stock = replicate 6 0, lo_sym_entry = None,
               lo_context = None\<rparr>"

definition sym_zero :: lkp_sym where
  "sym_zero = \<lparr>ls_key = replicate 20 0, ls_symbol = replicate 20 0, ls_context = None\<rparr>"

definition elt_zero :: "'k \<Rightarrow> ('k, addr) fh_ht_elt" where
  "elt_zero k = \<lparr>he_chead = 0, he_value = 0, he_key = k, he_klen = 0, he_hashval = 0\<rparr>"

record lkp_mem =
  lm_mp_ok :: bool         \<comment> \<open>\<^verbatim>\<open>malloc\<close> of the entry pool\<close>
  lm_name_ok :: bool       \<comment> \<open>\<^verbatim>\<open>strdup\<close> of its name\<close>
  lm_arena :: ptr          \<comment> \<open>\<^verbatim>\<open>malloc\<close> of its block\<close>
  lm_ht_ok :: bool         \<comment> \<open>\<^verbatim>\<open>malloc\<close> of the hash table\<close>
  lm_htmp_ok :: bool       \<comment> \<open>\<^verbatim>\<open>malloc\<close> of its pool\<close>
  lm_htname_ok :: bool     \<comment> \<open>\<^verbatim>\<open>strdup\<close> of the pool's name\<close>
  lm_env :: ht_env

text \<open>
  The tables are created without the growth flags, so nothing is allocated later: the
  environment of later insertions is the one in which no allocation succeeds.
\<close>

definition no_env :: ht_env where
  "no_env = \<lparr>env_arena = None, env_calloc = False\<rparr>"

subsection \<open>Operations\<close>

text \<open>
  Both tables are set up the same way.  When the hash table cannot be created the pool is freed;
  the pointer to it is left behind and must not be used, which \<open>None\<close> says.
\<close>

definition lkp_tbl_init ::
  "'e \<Rightarrow> 'k \<Rightarrow> lkp_mem \<Rightarrow> string \<Rightarrow> u32 \<Rightarrow> 'k fh_ht_kops \<Rightarrow> bool \<Rightarrow> u32 \<Rightarrow> ('k, 'e) lkp_tbl \<times> fh_status" where
  "lkp_tbl_init zero kzero mem name esize kops enabled sz =
    (let t0 = \<lparr>lt_mempool = None, lt_hash = None, lt_size = 0, lt_count = 0\<rparr> in
     if \<not> enabled then (t0, FH_OK)
     else
       case fh_mpool_new zero (lm_mp_ok mem) (lm_name_ok mem) (lm_arena mem) name esize sz 0 of
         None \<Rightarrow> (t0, FH_ERROR)
       | Some mp \<Rightarrow>
           case fh_ht_new (elt_zero kzero) (lm_ht_ok mem) (lm_htmp_ok mem) (lm_htname_ok mem)
                  (lm_env mem) (sint sz) 0 kops of
             None \<Rightarrow> (t0, FH_ERROR)
           | Some ht \<Rightarrow> (\<lparr>lt_mempool = Some mp, lt_hash = Some ht, lt_size = sz, lt_count = 0\<rparr>, FH_OK))"

definition fh_shr_lkp_ord_init :: "lkp_mem \<Rightarrow> bool \<Rightarrow> u32 \<Rightarrow> (ord_key, lkp_ord) lkp_tbl \<times> fh_status" where
  "fh_shr_lkp_ord_init mem enabled sz =
     lkp_tbl_init ord_zero ord_key_zero mem ''OrderTable'' 104 ord_kops enabled sz"

definition fh_shr_lkp_sym_init :: "lkp_mem \<Rightarrow> bool \<Rightarrow> u32 \<Rightarrow> (u8 list, lkp_sym) lkp_tbl \<times> fh_status" where
  "fh_shr_lkp_sym_init mem enabled sz =
     lkp_tbl_init sym_zero (replicate 20 0) mem ''SymbolTable'' 48 sym_kops enabled sz"

text \<open>
  Storing a new entry: a node of the pool, filled by \<open>mk\<close> from its old contents, and a hash table
  element for its key.  The count is incremented on every status but \<^verbatim>\<open>FH_ERR_DUP\<close>.
\<close>

definition lkp_store ::
  "'e \<Rightarrow> 'k \<Rightarrow> int \<Rightarrow> ('e \<Rightarrow> 'k) \<Rightarrow> ('k, 'e) lkp_tbl \<Rightarrow> ('e \<Rightarrow> 'e option)
   \<Rightarrow> (('k, 'e) lkp_tbl \<times> fh_status \<times> ptr) option" where
  "lkp_store zero kzero klen keyf t mk =
    do {
      mp \<leftarrow> lt_mempool t;
      (mp1, p) \<leftarrow> fh_mpool_get zero None mp;
      case p of
        None \<Rightarrow> Some (t\<lparr>lt_mempool := Some mp1\<rparr>, FH_ERROR, None)
      | Some nentry \<Rightarrow> do {
          e \<leftarrow> mk (mp_data mp1 nentry);
          let mp2 = mp_write nentry e mp1;
          ht \<leftarrow> lt_hash t;
          (ht1, st) \<leftarrow> fh_ht_put (elt_zero kzero) no_env ht (keyf e) klen nentry;
          if st = FH_ERR_DUP then
            Some (t\<lparr>lt_mempool := Some (fh_mpool_put zero mp2 nentry), lt_hash := Some ht1\<rparr>,
                  FH_ERR_DUP, Some nentry)
          else
            Some (t\<lparr>lt_mempool := Some mp2, lt_hash := Some ht1, lt_count := lt_count t + 1\<rparr>,
                  FH_OK, Some nentry)
        }
    }"

definition fh_shr_lkp_ord_get ::
  "(ord_key, lkp_ord) lkp_tbl \<Rightarrow> ord_key \<Rightarrow> (fh_status \<times> ptr) option" where
  "fh_shr_lkp_ord_get t key = do { ht \<leftarrow> lt_hash t; fh_ht_get ht key 32 }"

text \<open>The caller's entry pointer is assigned on success only (\<open>Some\<close>).\<close>

definition fh_shr_lkp_ord_add ::
  "(ord_key, lkp_ord) lkp_tbl \<Rightarrow> lkp_ord \<Rightarrow> ((ord_key, lkp_ord) lkp_tbl \<times> fh_status \<times> ptr) option" where
  "fh_shr_lkp_ord_add t entry =
    do {
      (t1, st, p) \<leftarrow> lkp_store ord_zero ord_key_zero 32 lo_key t
        (\<lambda>_. Some (entry\<lparr>lo_key := \<lparr>ok_order_no = lo_order_no entry,
                                    ok_order_no_str = lo_order_no_str entry\<rparr>\<rparr>));
      Some (t1, st, if st = FH_OK then p else None)
    }"

definition fh_shr_lkp_ord_del ::
  "(ord_key, lkp_ord) lkp_tbl \<Rightarrow> ord_key \<Rightarrow> ((ord_key, lkp_ord) lkp_tbl \<times> fh_status \<times> ptr) option" where
  "fh_shr_lkp_ord_del t key =
    do {
      ht \<leftarrow> lt_hash t;
      (ht1, rc, old_entry) \<leftarrow> fh_ht_delete (elt_zero ord_key_zero) ht key 32;
      if rc = FH_OK then do {
        mp \<leftarrow> lt_mempool t;
        e \<leftarrow> old_entry;
        Some (t\<lparr>lt_hash := Some ht1, lt_mempool := Some (fh_mpool_put ord_zero mp e),
                lt_count := lt_count t - 1\<rparr>, rc, Some e)
      }
      else Some (t\<lparr>lt_hash := Some ht1\<rparr>, rc, None)
    }"

text \<open>\<^verbatim>\<open>strcpy\<close> into an array of the source's size; without a terminator it runs past both.\<close>

definition c_strcpy :: "u8 list \<Rightarrow> u8 list \<Rightarrow> u8 list option" where
  "c_strcpy dst src =
    (if 0 \<in> set src then
       let s = takeWhile (\<lambda>b. b \<noteq> 0) src @ [0] in Some (s @ drop (length s) dst)
     else None)"

definition fh_shr_lkp_sym_get ::
  "(u8 list, lkp_sym) lkp_tbl \<Rightarrow> u8 list \<Rightarrow> ((u8 list, lkp_sym) lkp_tbl \<times> fh_status \<times> ptr) option" where
  "fh_shr_lkp_sym_get t key =
    do {
      ht \<leftarrow> lt_hash t;
      (rc, p) \<leftarrow> fh_ht_get ht key 20;
      if rc = FH_ERR_NOTFOUND then
        lkp_store sym_zero (replicate 20 0) 20 ls_key t
          (\<lambda>old. do { s \<leftarrow> c_strcpy (ls_symbol old) key; Some (old\<lparr>ls_symbol := s, ls_key := key\<rparr>) })
      else if rc \<noteq> FH_OK then Some (t, rc, p)
      else Some (t, FH_OK, p)
    }"

text \<open>Reading and writing an entry through its address.\<close>

definition lkp_entry :: "('k, 'e) lkp_tbl \<Rightarrow> addr \<Rightarrow> 'e" where
  "lkp_entry t a = mp_data (the (lt_mempool t)) a"

definition lkp_write :: "addr \<Rightarrow> 'e \<Rightarrow> ('k, 'e) lkp_tbl \<Rightarrow> ('k, 'e) lkp_tbl" where
  "lkp_write a e t = t\<lparr>lt_mempool := map_option (mp_write a e) (lt_mempool t)\<rparr>"

subsection \<open>Invariant and view\<close>

text \<open>
  \<open>lkp_ok n klen keyf t\<close>: an enabled table of capacity \<open>n\<close>; the hash table points exactly at the
  entries the pool has handed out, and every entry's own key field is the key it is filed under.
\<close>

definition tbl_map :: "int \<Rightarrow> ('k, 'e) lkp_tbl \<Rightarrow> 'k \<rightharpoonup> addr" where
  "tbl_map klen t = (\<lambda>k. ht_map (the (lt_hash t)) (k, klen))"

definition tbl_view :: "int \<Rightarrow> ('k, 'e) lkp_tbl \<Rightarrow> 'k \<rightharpoonup> 'e" where
  "tbl_view klen t = (\<lambda>k. map_option (lkp_entry t) (tbl_map klen t k))"

definition lkp_ok :: "nat \<Rightarrow> int \<Rightarrow> ('e \<Rightarrow> 'k) \<Rightarrow> ('k, 'e) lkp_tbl \<Rightarrow> bool" where
  "lkp_ok n klen keyf t \<longleftrightarrow>
     (\<exists>mp ht. lt_mempool t = Some mp \<and> lt_hash t = Some ht \<and> ht_sized n klen ht \<and>
        mp_fixed n mp \<and> \<not> mp_flag mp FH_MPOOL_FL_CLEAR \<and> mpool_ok mp (ran (tbl_map klen t))) \<and>
     (\<forall>k a. tbl_map klen t k = Some a \<longrightarrow> keyf (lkp_entry t a) = k) \<and>
     unat (lt_count t) = card (dom (tbl_map klen t)) \<and> n < 2 ^ 32 - 1"

lemma lkp_okD:
  assumes "lkp_ok n klen keyf t"
  obtains mp ht where "lt_mempool t = Some mp" "lt_hash t = Some ht" "ht_sized n klen ht" "mp_fixed n mp"
    "\<not> mp_flag mp FH_MPOOL_FL_CLEAR" "mpool_ok mp (ran (tbl_map klen t))"
    "\<And>k. tbl_map klen t k = ht_map ht (k, klen)" "\<And>a. lkp_entry t a = mp_data mp a"
  using assms unfolding lkp_ok_def by (auto simp: tbl_map_def lkp_entry_def)

lemma lkp_ok_parts:
  assumes "lkp_ok n klen keyf t"
  shows "tbl_map klen t k = Some a \<Longrightarrow> keyf (lkp_entry t a) = k" and "unat (lt_count t) = card (dom (tbl_map klen t))" and "n < 2 ^ 32 - 1"
  using assms by (simp_all add: lkp_ok_def)

lemma finite_tbl_map:
  assumes "lkp_ok n klen keyf t"
  shows "finite (dom (tbl_map klen t))"
proof -
  have "dom (tbl_map klen t) \<subseteq> fst ` dom (ht_map (the (lt_hash t)))"
    by (force simp: tbl_map_def image_iff dom_def)
  then show ?thesis using finite_ht_map finite_subset by blast
qed

lemma card_ran_tbl_map:
  assumes ok: "lkp_ok n klen keyf t"
  shows "card (ran (tbl_map klen t)) = card (dom (tbl_map klen t))"
proof -
  have "inj_on (tbl_map klen t) (dom (tbl_map klen t))"
    using ok by (intro inj_onI) (auto simp: lkp_ok_def, metis)
  moreover have "tbl_map klen t ` dom (tbl_map klen t) = Some ` ran (tbl_map klen t)"
    by (auto simp: ran_def image_iff dom_def) (metis option.inject)
  ultimately show ?thesis by (metis card_image inj_Some inj_on_subset subset_UNIV)
qed

lemma lkp_count:
  assumes ok: "lkp_ok n klen keyf t"
  shows "card (dom (tbl_map klen t)) \<le> n" and "unat (lt_count t) = card (dom (tbl_map klen t))"
proof -
  obtain mp where "lt_mempool t = Some mp" "mp_fixed n mp" "mpool_ok mp (ran (tbl_map klen t))"
    using ok unfolding lkp_ok_def by blast
  then show "card (dom (tbl_map klen t)) \<le> n"
    using card_ran_tbl_map [OF ok] by (simp add: mp_fixed_def mp_total_def mpool_ok_def)
  show "unat (lt_count t) = card (dom (tbl_map klen t))" using ok by (simp add: lkp_ok_def)
qed

lemma card_dom_view: "card (dom (tbl_view klen t)) = card (dom (tbl_map klen t))"
  by (rule arg_cong [where f = card]) (auto simp: tbl_view_def)

subsection \<open>Storing, deleting and writing entries\<close>

lemma lkp_okI:
  assumes "lt_mempool t = Some mp" "lt_hash t = Some ht" "ht_sized n klen ht" "mp_fixed n mp"
    "\<not> mp_flag mp FH_MPOOL_FL_CLEAR" "mpool_ok mp (ran (\<lambda>k. ht_map ht (k, klen)))"
    "\<And>k a. ht_map ht (k, klen) = Some a \<Longrightarrow> keyf (mp_data mp a) = k"
    "unat (lt_count t) = card (dom (\<lambda>k. ht_map ht (k, klen)))" "n < 2 ^ 32 - 1"
  shows "lkp_ok n klen keyf t"
  using assms by (auto simp: lkp_ok_def tbl_map_def lkp_entry_def)

lemma lkp_okI':
  assumes "lt_mempool t = Some mp" "lt_hash t = Some ht" "ht_sized n klen ht" "mp_fixed n mp"
    "\<not> mp_flag mp FH_MPOOL_FL_CLEAR" "mpool_ok mp (ran (tbl_map klen t))"
    "\<And>k a. tbl_map klen t k = Some a \<Longrightarrow> keyf (lkp_entry t a) = k"
    "unat (lt_count t) = card (dom (tbl_map klen t))" "n < 2 ^ 32 - 1"
  shows "lkp_ok n klen keyf t"
  unfolding lkp_ok_def using assms by blast

lemma mp_flag_get:
  assumes "fh_mpool_get zero arena mp = Some (mp1, p)" and "mp_fixed n mp"
  shows "mp_flag mp1 fl = mp_flag mp fl"
  using assms by (auto simp: pool_simps mp_fixed_def mp_flag_def split: if_splits list.splits)

lemma mp_flag_put: "mp_flag (fh_mpool_put zero mp a) fl = mp_flag mp fl"
  by (simp add: pool_simps mp_flag_def)

text \<open>A node of the pool: there is one unless the table is full, and it is none of the entries.\<close>

lemma lkp_chunk:
  assumes ok: "lkp_ok n klen keyf t"
  obtains mp mp1 p where "lt_mempool t = Some mp" "fh_mpool_get zero None mp = Some (mp1, p)" "mp_data mp1 = mp_data mp"
    "p = None \<longleftrightarrow> card (dom (tbl_map klen t)) = n" "mp_fixed n mp1" "\<not> mp_flag mp1 FH_MPOOL_FL_CLEAR"
    "case p of None \<Rightarrow> mpool_ok mp1 (ran (tbl_map klen t))
     | Some a \<Rightarrow> a \<notin> ran (tbl_map klen t) \<and> mpool_ok mp1 (insert a (ran (tbl_map klen t)))"
proof -
  obtain mp where t: "lt_mempool t = Some mp" "mp_fixed n mp" "\<not> mp_flag mp FH_MPOOL_FL_CLEAR" "mpool_ok mp (ran (tbl_map klen t))"
    using ok by (auto simp: lkp_ok_def)
  obtain mp1 p where get: "fh_mpool_get zero None mp = Some (mp1, p)"
    and p: "case p of None \<Rightarrow> mpool_ok mp1 (ran (tbl_map klen t))
      | Some e \<Rightarrow> e \<notin> ran (tbl_map klen t) \<and> mpool_ok mp1 (insert e (ran (tbl_map klen t)))"
    using fh_mpool_get_ok [OF t(4) mp_fixed_arena_ok [OF t(2)], of zero None] by blast
  note f = fh_mpool_get_fixed [OF t(4,2) get] card_ran_tbl_map [OF ok]
  have "mp_data mp1 = mp_data mp" using get t(2) by (auto simp: pool_simps mp_fixed_def mp_flag_def split: if_splits list.splits)
  moreover have "p = None \<longleftrightarrow> card (dom (tbl_map klen t)) = n" using f by auto
  moreover have "\<not> mp_flag mp1 FH_MPOOL_FL_CLEAR" using mp_flag_get [OF get t(2)] t(3) by simp
  ultimately show ?thesis using that [OF t(1) get _ _ f(1) _ p] by blast
qed

text \<open>Filing an entry, and giving its node back.\<close>

lemma lkp_filed:
  assumes ok: "lkp_ok n klen keyf t" and mp: "lt_mempool t = Some mp" "mp_data mp1 = mp_data mp" "mp_fixed n mp1"
    "\<not> mp_flag mp1 FH_MPOOL_FL_CLEAR" and a: "a \<notin> ran (tbl_map klen t)" "mpool_ok mp1 (insert a (ran (tbl_map klen t)))"
    and ht: "ht_sized n klen ht1" "(\<lambda>k. ht_map ht1 (k, klen)) = (tbl_map klen t)(key \<mapsto> a)"
    and key: "tbl_map klen t key = None" "keyf e = key"
  defines "t' \<equiv> t\<lparr>lt_mempool := Some (mp_write a e mp1), lt_hash := Some ht1, lt_count := lt_count t + 1\<rparr>"
  shows "lkp_ok n klen keyf t'" "tbl_map klen t' = (tbl_map klen t)(key \<mapsto> a)" "lkp_entry t' = (lkp_entry t)(a := e)"
    "tbl_view klen t' = (tbl_view klen t)(key \<mapsto> e)"
proof -
  note k = lkp_ok_parts(1) [OF ok] and cnt = lkp_ok_parts(2) [OF ok] and n = lkp_ok_parts(3) [OF ok]
  show m: "tbl_map klen t' = (tbl_map klen t)(key \<mapsto> a)" using ht(2) by (simp add: t'_def tbl_map_def)
  show e: "lkp_entry t' = (lkp_entry t)(a := e)" using mp(1,2) by (simp add: fun_eq_iff lkp_entry_def t'_def)
  have ran: "ran ((tbl_map klen t)(key \<mapsto> a)) = insert a (ran (tbl_map klen t))" using key(1) by (rule ran_map_upd)
  have ne: "b \<noteq> a" if "tbl_map klen t k = Some b" for k b using that a(1) by (auto intro: ranI)
  have "card (dom ((tbl_map klen t)(key \<mapsto> a))) = Suc (card (dom (tbl_map klen t)))"
    using key(1) finite_tbl_map [OF ok] by (simp add: domIff)
  moreover have "unat (lt_count t + 1) = Suc (unat (lt_count t))" using cnt lkp_count(1) [OF ok] n by (intro unat_inc) simp
  ultimately have c: "unat (lt_count t') = card (dom (tbl_map klen t'))" unfolding m using cnt by (simp add: t'_def)
  have kk: "keyf (lkp_entry t' b) = k'" if "tbl_map klen t' k' = Some b" for k' b
    using that k ne key(2) unfolding m e by (auto split: if_splits)
  show "lkp_ok n klen keyf t'"
    by (rule lkp_okI' [of _ "mp_write a e mp1" ht1]) (use ht(1) mp(3,4) a(2) ran m kk c n in \<open>simp_all add: t'_def\<close>)
  show "tbl_view klen t' = (tbl_view klen t)(key \<mapsto> e)"
    unfolding tbl_view_def m e using ne by (auto simp: fun_eq_iff intro!: option.map_cong)
qed

lemma lkp_put_back:
  fixes zero e :: 'e
  assumes ok: "lkp_ok n klen keyf t" and mp: "lt_mempool t = Some mp" "mp_data mp1 = mp_data mp" "mp_fixed n mp1"
    "\<not> mp_flag mp1 FH_MPOOL_FL_CLEAR" and a: "a \<notin> ran (tbl_map klen t)" "mpool_ok mp1 (insert a (ran (tbl_map klen t)))"
    and ht: "ht_sized n klen ht1" "(\<lambda>k. ht_map ht1 (k, klen)) = tbl_map klen t"
  defines "t' \<equiv> t\<lparr>lt_mempool := Some (fh_mpool_put zero (mp_write a e mp1) a), lt_hash := Some ht1\<rparr>"
  shows "lkp_ok n klen keyf t'" "tbl_map klen t' = tbl_map klen t" "lkp_entry t' = (lkp_entry t)(a := e)"
    "tbl_view klen t' = tbl_view klen t"
proof -
  let ?mp2 = "mp_write a e mp1" and ?mp3 = "fh_mpool_put zero (mp_write a e mp1) a"
  have a2: "mpool_ok ?mp2 (insert a (ran (tbl_map klen t)))" using a(2) by simp
  note k = lkp_ok_parts(1) [OF ok] and cnt = lkp_ok_parts(2) [OF ok] and n = lkp_ok_parts(3) [OF ok]
  show m: "tbl_map klen t' = tbl_map klen t" using ht(2) by (simp add: t'_def tbl_map_def)
  have "mp_data ?mp3 = mp_data ?mp2"
    using fh_mpool_put_ok(3) [OF a2, where e = a and zero = zero] mp(4) by auto
  then show e: "lkp_entry t' = (lkp_entry t)(a := e)" using mp(1,2) by (simp add: fun_eq_iff lkp_entry_def t'_def)
  have ne: "b \<noteq> a" if "tbl_map klen t k = Some b" for k b using that a(1) by (auto intro: ranI)
  have ok3: "mpool_ok ?mp3 (ran (tbl_map klen t))" "mp_fixed n ?mp3" "\<not> mp_flag ?mp3 FH_MPOOL_FL_CLEAR"
    using fh_mpool_put_ok(1) [OF a2, where e = a and zero = zero] fh_mpool_put_fixed [OF a2, where e = a and n = n and zero = zero] a(1) mp(3,4)
    by (simp_all add: mp_flag_put)
  have kk: "keyf (lkp_entry t' b) = k'" if "tbl_map klen t' k' = Some b" for k' b using that k ne unfolding m e by auto
  show "lkp_ok n klen keyf t'"
    by (rule lkp_okI' [of _ ?mp3 ht1]) (use ht(1) ok3 m kk cnt n in \<open>simp_all add: t'_def\<close>)
  show "tbl_view klen t' = tbl_view klen t"
    unfolding tbl_view_def m e using ne by (auto simp: fun_eq_iff intro!: option.map_cong)
qed

text \<open>What storing does, on each of its branches.\<close>

lemma lkp_store_ok:
  assumes ok: "lkp_ok n klen keyf t" and mk: "\<And>old. \<exists>e. mk old = Some e \<and> keyf e = key"
  shows "\<exists>t' st p. lkp_store zero kzero klen keyf t mk = Some (t', st, p) \<and> lkp_ok n klen keyf t' \<and>
    (if card (dom (tbl_map klen t)) = n then st = FH_ERROR \<and> p = None \<and> tbl_view klen t' = tbl_view klen t
     else if tbl_map klen t key \<noteq> None then st = FH_ERR_DUP \<and> tbl_view klen t' = tbl_view klen t
     else st = FH_OK \<and> (\<exists>a old e. p = Some a \<and> mk old = Some e \<and> tbl_map klen t' = (tbl_map klen t)(key \<mapsto> a) \<and>
            tbl_view klen t' = (tbl_view klen t)(key \<mapsto> e)))"
proof -
  obtain mp0 ht where h: "lt_mempool t = Some mp0" "lt_hash t = Some ht" "ht_sized n klen ht" "mp_fixed n mp0"
    "\<not> mp_flag mp0 FH_MPOOL_FL_CLEAR" "mpool_ok mp0 (ran (tbl_map klen t))"
    "\<And>k. tbl_map klen t k = ht_map ht (k, klen)" "\<And>a. lkp_entry t a = mp_data mp0 a"
    using lkp_okD [OF ok] by blast
  note h = h(2,3,7)
  have tm: "tbl_map klen t = (\<lambda>k. ht_map ht (k, klen))" using h(3) by blast
  have len: "length (ht_elts ht) = card (dom (tbl_map klen t))" using ht_sized_card [OF h(2)] tm by simp
  obtain mp mp1 p where g: "lt_mempool t = Some mp" "fh_mpool_get zero None mp = Some (mp1, p)" "mp_data mp1 = mp_data mp"
    "p = None \<longleftrightarrow> card (dom (tbl_map klen t)) = n" "mp_fixed n mp1" "\<not> mp_flag mp1 FH_MPOOL_FL_CLEAR"
    "case p of None \<Rightarrow> mpool_ok mp1 (ran (tbl_map klen t))
     | Some a \<Rightarrow> a \<notin> ran (tbl_map klen t) \<and> mpool_ok mp1 (insert a (ran (tbl_map klen t)))"
    by (rule lkp_chunk [OF ok])
  show ?thesis
  proof (cases p)
    case None
    let ?t' = "t\<lparr>lt_mempool := Some mp1\<rparr>"
    have m: "tbl_map klen ?t' = tbl_map klen t" by (simp add: tbl_map_def)
    have e: "lkp_entry ?t' = lkp_entry t" using g(1,3) by (simp add: fun_eq_iff lkp_entry_def)
    note ok0 = lkp_ok_parts [OF ok]
    have "lkp_ok n klen keyf ?t'"
      by (rule lkp_okI' [of _ mp1 ht]) (use ok0 h(1,2) g(5-7) None m e in simp_all)
    then show ?thesis using None g(1,2,4) m e by (simp add: lkp_store_def tbl_view_def)
  next
    case (Some a)
    then have room: "card (dom (tbl_map klen t)) \<noteq> n" and a: "a \<notin> ran (tbl_map klen t)" "mpool_ok mp1 (insert a (ran (tbl_map klen t)))"
      using g(4,7) by simp_all
    obtain e where e: "mk (mp_data mp1 a) = Some e" "keyf e = key" using mk by blast
    obtain ht1 st where put: "fh_ht_put (elt_zero kzero) no_env ht key klen a = Some (ht1, st)" "ht_sized n klen ht1"
      "((\<lambda>k. ht_map ht1 (k, klen)), st) =
        (if ht_map ht (key, klen) \<noteq> None then ((\<lambda>k. ht_map ht (k, klen)), FH_ERR_DUP)
         else if length (ht_elts ht) = n then ((\<lambda>k. ht_map ht (k, klen)), FH_ERROR)
         else ((\<lambda>k. ht_map ht (k, klen))(key \<mapsto> a), FH_OK))"
      using ht_sized_put [OF h(2), of "elt_zero kzero" no_env key a] by blast
    show ?thesis
    proof (cases "tbl_map klen t key")
      case None
      then have "(\<lambda>k. ht_map ht1 (k, klen)) = (tbl_map klen t)(key \<mapsto> a)" "st = FH_OK"
        using put(3) room len tm by (auto split: if_splits)
      then show ?thesis
        using lkp_filed [where keyf = keyf, OF ok g(1,3,5,6) a put(2) _ None e(2)] g(1,2) h(1) put(1) e room None Some
        by (auto simp: lkp_store_def)
    next
      case (Some b)
      then have "(\<lambda>k. ht_map ht1 (k, klen)) = tbl_map klen t" "st = FH_ERR_DUP" using put(3) tm by (auto split: if_splits)
      then show ?thesis
        using lkp_put_back [OF ok g(1,3,5,6) a put(2), of zero e] g(1,2) h(1) put(1) e room Some \<open>p = Some a\<close>
        by (auto simp: lkp_store_def)
    qed
  qed
qed

lemma lkp_get_ok:
  assumes "lkp_ok n klen keyf t"
  shows "do { ht \<leftarrow> lt_hash t; fh_ht_get ht key klen } =
    Some (case tbl_map klen t key of None \<Rightarrow> (FH_ERR_NOTFOUND, None) | Some a \<Rightarrow> (FH_OK, Some a))"
proof -
  obtain ht where "lt_hash t = Some ht" "ht_sized n klen ht"
    using assms unfolding lkp_ok_def by blast
  then show ?thesis
    using ht.get_law [of ht key klen] by (simp add: ht_sized_def tbl_map_def)
qed

text \<open>A deleted entry is still readable through its address until the pool hands it out again.\<close>

lemma lkp_del_ok:
  assumes ok: "lkp_ok n klen keyf t"
  shows "\<exists>t'. do { ht \<leftarrow> lt_hash t;
       (ht1, rc, old) \<leftarrow> fh_ht_delete (elt_zero kzero) ht key klen;
       if rc = FH_OK then do { mp \<leftarrow> lt_mempool t; e \<leftarrow> old;
         Some (t\<lparr>lt_hash := Some ht1, lt_mempool := Some (fh_mpool_put zero mp e),
                 lt_count := lt_count t - 1\<rparr>, rc, Some e) }
       else Some (t\<lparr>lt_hash := Some ht1\<rparr>, rc, None) } =
      Some (t', if tbl_map klen t key = None then FH_ERR_NOTFOUND else FH_OK, tbl_map klen t key) \<and>
    lkp_ok n klen keyf t' \<and> tbl_map klen t' = (tbl_map klen t)(key := None) \<and>
    tbl_view klen t' = (tbl_view klen t)(key := None) \<and> lkp_entry t' = lkp_entry t"
proof -
  obtain mp ht where t: "lt_mempool t = Some mp" "lt_hash t = Some ht" "ht_sized n klen ht" "mp_fixed n mp"
    "\<not> mp_flag mp FH_MPOOL_FL_CLEAR" "mpool_ok mp (ran (tbl_map klen t))"
    "\<And>k. tbl_map klen t k = ht_map ht (k, klen)" "\<And>a. lkp_entry t a = mp_data mp a"
    using lkp_okD [OF ok] by blast
  have cnt: "unat (lt_count t) = card (dom (tbl_map klen t))" and n: "n < 2 ^ 32 - 1"
    and key: "\<And>k a. tbl_map klen t k = Some a \<Longrightarrow> keyf (lkp_entry t a) = k"
    using ok by (auto simp: lkp_ok_def)
  obtain ht1 where d: "fh_ht_delete (elt_zero kzero) ht key klen =
      Some (ht1, if tbl_map klen t key = None then FH_ERR_NOTFOUND else FH_OK, tbl_map klen t key)"
    "ht_sized n klen ht1" "(\<lambda>k. ht_map ht1 (k, klen)) = (tbl_map klen t)(key := None)"
    using ht_sized_del [OF t(3), of "elt_zero kzero" key] t(7) by (auto simp: fun_eq_iff)
  show ?thesis
  proof (cases "tbl_map klen t key")
    case None
    let ?t' = "t\<lparr>lt_hash := Some ht1\<rparr>"
    have "(tbl_map klen t)(key := None) = tbl_map klen t" using None by (simp add: fun_upd_idem)
    then have map': "tbl_map klen ?t' = tbl_map klen t" using d(3) by (simp add: tbl_map_def)
    have e': "lkp_entry ?t' = lkp_entry t" by (simp add: fun_eq_iff lkp_entry_def)
    have "lkp_ok n klen keyf ?t'"
      by (rule lkp_okI' [of _ mp ht1]) (use d(2) t(1,4-6) cnt n key map' e' in simp_all)
    then show ?thesis
      using None d(1) t(1,2) map' e' by (auto simp: tbl_view_def fun_upd_idem)
  next
    case (Some a)
    let ?mp = "fh_mpool_put zero mp a"
    let ?t' = "t\<lparr>lt_hash := Some ht1, lt_mempool := Some ?mp, lt_count := lt_count t - 1\<rparr>"
    have a: "a \<in> ran (tbl_map klen t)" using Some by (rule ranI)
    have map': "tbl_map klen ?t' = (tbl_map klen t)(key := None)" using d(3) by (simp add: tbl_map_def)
    have ran: "ran ((tbl_map klen t)(key := None)) = ran (tbl_map klen t) - {a}"
    proof -
      have "b \<noteq> a" if "tbl_map klen t k' = Some b" "k' \<noteq> key" for k' b
        using key [OF that(1)] key [OF Some] that by auto
      then show ?thesis using Some by (auto simp: ran_def) (metis option.inject)
    qed
    have e': "lkp_entry ?t' = lkp_entry t"
      using fh_mpool_put_ok(3) [OF t(6) a, where zero = zero] t(1,5) by (auto simp: fun_eq_iff lkp_entry_def)
    have "card (dom (tbl_map klen t)) \<noteq> 0" using Some finite_tbl_map [OF ok] by auto
    moreover from this have "lt_count t \<noteq> 0" using cnt by auto
    ultimately have "unat (lt_count t - 1) = card (dom ((tbl_map klen t)(key := None)))"
      using cnt Some finite_tbl_map [OF ok] by (simp add: unat_dec domI)
    moreover have "mpool_ok ?mp (ran (tbl_map klen t) - {a})" "mp_fixed n ?mp"
      using fh_mpool_put_ok(1) [OF t(6) a] fh_mpool_put_fixed [OF t(6) a t(4)] by simp_all
    ultimately have "lkp_ok n klen keyf ?t'"
      by (intro lkp_okI' [of _ ?mp ht1])
        (use d(2) t(5) n key map' e' ran in \<open>simp_all add: mp_flag_put split: if_splits\<close>)
    moreover have "tbl_view klen ?t' = (tbl_view klen t)(key := None)"
      unfolding tbl_view_def map' e' by (simp add: fun_eq_iff)
    ultimately show ?thesis using Some d(1) t(1,2) map' e' by simp
  qed
qed

lemma lkp_write_ok:
  assumes ok: "lkp_ok n klen keyf t" and k: "tbl_map klen t key = Some a" and e: "keyf e = key"
  shows "lkp_ok n klen keyf (lkp_write a e t)" and "tbl_map klen (lkp_write a e t) = tbl_map klen t"
    and "tbl_view klen (lkp_write a e t) = (tbl_view klen t)(key \<mapsto> e)"
proof -
  obtain mp where mp: "lt_mempool t = Some mp" using ok by (auto simp: lkp_ok_def)
  show map': "tbl_map klen (lkp_write a e t) = tbl_map klen t"
    by (simp add: tbl_map_def lkp_write_def)
  have e': "lkp_entry (lkp_write a e t) = (lkp_entry t)(a := e)"
    using mp by (simp add: fun_eq_iff lkp_entry_def lkp_write_def)
  have key: "\<And>k' b. tbl_map klen t k' = Some b \<Longrightarrow> keyf (lkp_entry t b) = k'"
    using ok by (auto simp: lkp_ok_def)
  show "lkp_ok n klen keyf (lkp_write a e t)"
  proof -
    obtain ht where ht: "lt_hash t = Some ht" "ht_sized n klen ht" "mp_fixed n mp"
      "\<not> mp_flag mp FH_MPOOL_FL_CLEAR" "mpool_ok mp (ran (tbl_map klen t))"
      using ok mp by (auto simp: lkp_ok_def)
    have kk: "keyf (((lkp_entry t)(a := e)) b) = k'" if "tbl_map klen t k' = Some b" for k' b
      using key [OF that] key [OF k] that k e by auto
    show ?thesis
      by (rule lkp_okI' [of _ "mp_write a e mp" ht])
        (use ok ht mp kk map' e' in \<open>simp_all add: lkp_write_def lkp_ok_def\<close>)
  qed
  have "b \<noteq> a" if "tbl_map klen t k' = Some b" "k' \<noteq> key" for k' b using key k that by auto
  with k show "tbl_view klen (lkp_write a e t) = (tbl_view klen t)(key \<mapsto> e)"
    unfolding tbl_view_def map' e' by (auto simp: fun_eq_iff intro!: option.map_cong)
qed

lemma lkp_init_fits:
  assumes init: "lkp_tbl_init zero kzero mem name esize kops True sz = (t, FH_OK)"
    and kops: "kops_ok kops" and sz: "unat sz \<le> 2 ^ 25" and es: "8 + unat sz * (8 + unat esize) < 2 ^ 32"
    and a: "lm_arena mem = Some a" "unat a < 2 ^ 63" and b: "env_arena (lm_env mem) = Some b" "unat b < 2 ^ 63"
  shows "lkp_ok (unat sz) klen keyf t" and "tbl_view klen t = Map.empty" and "lkp_entry t = (\<lambda>_. zero)"
proof -
  have si: "sint sz = int (unat sz)" using sint_small [of sz] sz by simp
  then have s: "0 \<le> sint sz" "nat (sint sz) = unat sz" "sint sz \<le> 2 ^ 29"
  proof -
    have "int (unat sz) \<le> int (2 ^ 25)" using sz by (simp only: of_nat_le_iff)
    then show "sint sz \<le> 2 ^ 29" unfolding si by (simp del: of_nat_unat)
  qed simp_all
  obtain mp ht where t: "t = \<lparr>lt_mempool = Some mp, lt_hash = Some ht, lt_size = sz, lt_count = 0\<rparr>"
    and mp: "fh_mpool_new zero (lm_mp_ok mem) (lm_name_ok mem) (Some a) name esize sz 0 = Some mp"
    and ht: "fh_ht_new (elt_zero kzero) (lm_ht_ok mem) (lm_htmp_ok mem) (lm_htname_ok mem)
                  (lm_env mem) (sint sz) 0 kops = Some ht"
    using init a by (auto simp: lkp_tbl_init_def Let_def split: option.splits)
  have "mp_nchunks mp = sz" "mp_chunksize mp = esize"
    using mp by (auto simp: fh_mpool_new_def mpool_grow_Some Let_def split: if_splits)
  then have "block_fits mp a" using a es by (simp add: block_fits_def)
  note pool = fh_mpool_new_pool_ok [OF mp this]
  have "mp_nchunks (ht_mpool ht) = sz" "mp_chunksize (ht_mpool ht) = 48"
    using ht b by (auto simp: fh_ht_new_def fh_mpool_new_def mpool_grow_Some Let_def
        split: if_splits option.splits)
  moreover have "unat sz * 56 \<le> 2 ^ 25 * 56" using sz by simp
  ultimately have "block_fits (ht_mpool ht) (the (env_arena (lm_env mem)))"
    using b by (simp add: block_fits_def)
  note h = fh_ht_new_sized(1) [OF ht s(1,3) this kops, where klen = klen, unfolded s(2)]
    fh_ht_new_sized(2) [OF ht s(1,3) this kops]
  have map': "tbl_map klen t = Map.empty" by (simp add: tbl_map_def t h(2))
  have "mp_fixed (unat sz) mp"
    using pool by (simp add: mp_fixed_def mp_total_def mp_flag_def mpool_ok_def)
  then show "lkp_ok (unat sz) klen keyf t"
    by (intro lkp_okI' [of _ mp ht]) (use h(1) pool map' sz in \<open>simp_all add: t mp_flag_def\<close>)
  show "tbl_view klen t = Map.empty" by (simp add: tbl_view_def map')
  have "mp_data mp = (\<lambda>_. zero)" using mp by (auto simp: fh_mpool_new_def mpool_grow_Some Let_def split: if_splits)
  then show "lkp_entry t = (\<lambda>_. zero)" by (simp add: fun_eq_iff lkp_entry_def t)
qed

lemma lkp_init_ok:
  assumes init: "lkp_tbl_init zero kzero mem name esize kops True sz = (t, FH_OK)"
    and kops: "kops_ok kops" and sz: "unat sz \<le> 2 ^ 25" and es: "unat esize \<le> 104"
    and a: "lm_arena mem = Some a" "unat a < 2 ^ 63" and b: "env_arena (lm_env mem) = Some b" "unat b < 2 ^ 63"
  shows "lkp_ok (unat sz) klen keyf t" and "tbl_view klen t = Map.empty"
proof -
  have "unat sz * (8 + unat esize) \<le> 2 ^ 25 * (8 + 104)" using sz es by (intro mult_mono) simp_all
  then have "8 + unat sz * (8 + unat esize) < 2 ^ 32" by simp
  from lkp_init_fits [OF init kops sz this a b] show "lkp_ok (unat sz) klen keyf t" "tbl_view klen t = Map.empty" by simp_all
qed

subsection \<open>The interface of the order table\<close>

text \<open>
  What the parsers rely on: entries are reached through pointers, the table is a bounded map from
  keys to entries, and writing an entry through its pointer (its key field unchanged) changes that
  entry only.
\<close>

locale entry_table =
  fixes add :: "'t \<Rightarrow> 'e \<Rightarrow> ('t \<times> fh_status \<times> 'p option) option"
    and get :: "'t \<Rightarrow> 'k \<Rightarrow> (fh_status \<times> 'p option) option"
    and del :: "'t \<Rightarrow> 'k \<Rightarrow> ('t \<times> fh_status \<times> 'p option) option"
    and deref :: "'t \<Rightarrow> 'p \<Rightarrow> 'e"
    and upd :: "'p \<Rightarrow> 'e \<Rightarrow> 't \<Rightarrow> 't"
    and stored :: "'e \<Rightarrow> 'e"
    and fkey :: "'e \<Rightarrow> 'k"
    and view :: "'t \<Rightarrow> 'k \<rightharpoonup> 'e"
    and inv :: "'t \<Rightarrow> bool"
    and cap :: nat
  assumes add_law: "inv t \<Longrightarrow> \<exists>t' st p. add t e = Some (t', st, p) \<and> inv t' \<and>
      (if card (dom (view t)) = cap then st = FH_ERROR \<and> p = None \<and> view t' = view t
       else if view t (fkey (stored e)) \<noteq> None then st = FH_ERR_DUP \<and> p = None \<and> view t' = view t
       else st = FH_OK \<and> view t' = (view t)(fkey (stored e) \<mapsto> stored e) \<and>
            (\<exists>a. p = Some a \<and> get t' (fkey (stored e)) = Some (FH_OK, Some a)))"
    and get_law: "inv t \<Longrightarrow> \<exists>p. get t k = Some (if view t k = None then FH_ERR_NOTFOUND else FH_OK, p) \<and>
      map_option (deref t) p = view t k"
    and del_law: "inv t \<Longrightarrow> \<exists>t' p. del t k = Some (t', if view t k = None then FH_ERR_NOTFOUND else FH_OK, p) \<and>
      inv t' \<and> view t' = (view t)(k := None) \<and> map_option (deref t') p = view t k"
    and upd_law: "inv t \<Longrightarrow> get t k = Some (FH_OK, Some p) \<Longrightarrow> fkey e = k \<Longrightarrow>
      inv (upd p e t) \<and> view (upd p e t) = (view t)(k \<mapsto> e)"
    and fkey_law: "inv t \<Longrightarrow> view t k = Some e \<Longrightarrow> fkey e = k"
begin

lemma get_cases:
  assumes "inv t"
  obtains (absent) "get t k = Some (FH_ERR_NOTFOUND, None)" "view t k = None"
  | (present) p where "get t k = Some (FH_OK, Some p)" "view t k = Some (deref t p)" "fkey (deref t p) = k"
proof (cases "view t k")
  case None
  then show thesis using get_law [OF assms, of k] absent by auto
next
  case (Some e)
  then obtain p where "get t k = Some (FH_OK, Some p)" "deref t p = e"
    using get_law [OF assms, of k] by auto
  then show thesis using present [of p] Some fkey_law [OF assms Some] by simp
qed

lemma del_result:
  assumes "inv t"
  obtains t' p where "del t k = Some (t', if view t k = None then FH_ERR_NOTFOUND else FH_OK, p)"
    "inv t'" "view t' = (view t)(k := None)" "map_option (deref t') p = view t k"
  using del_law [OF assms, of k] by blast

text \<open>Reading an entry, changing its fields and writing it back through the pointer.\<close>

lemma read_modify_write:
  assumes "inv t" and "get t k = Some (FH_OK, Some p)" and "fkey (f (deref t p)) = fkey (deref t p)"
  shows "inv (upd p (f (deref t p)) t)"
    and "view (upd p (f (deref t p)) t) = (view t)(k \<mapsto> f (the (view t k)))"
proof -
  have v: "view t k = Some (deref t p)" using get_law [OF assms(1), of k] assms(2) by auto
  then have "fkey (deref t p) = k" by (rule fkey_law [OF assms(1)])
  with upd_law [OF assms(1,2), of "f (deref t p)"] assms(3) v
  show "inv (upd p (f (deref t p)) t)"
    "view (upd p (f (deref t p)) t) = (view t)(k \<mapsto> f (the (view t k)))" by simp_all
qed

lemma add_then_get:
  assumes "inv t" and "add t e = Some (t', FH_OK, p)"
  shows "\<exists>a. get t' (fkey (stored e)) = Some (FH_OK, Some a) \<and> deref t' a = stored e"
proof -
  have "inv t'" "view t' (fkey (stored e)) = Some (stored e)"
    using add_law [OF assms(1), of e] assms(2) by (auto split: if_splits)
  then show ?thesis using get_law [of t' "fkey (stored e)"] by auto
qed

end

definition ord_stored :: "lkp_ord \<Rightarrow> lkp_ord" where
  "ord_stored e = e\<lparr>lo_key := \<lparr>ok_order_no = lo_order_no e, ok_order_no_str = lo_order_no_str e\<rparr>\<rparr>"

abbreviation ord_view :: "(ord_key, lkp_ord) lkp_tbl \<Rightarrow> ord_key \<rightharpoonup> lkp_ord" where
  "ord_view \<equiv> tbl_view 32"

interpretation ob: entry_table fh_shr_lkp_ord_add fh_shr_lkp_ord_get fh_shr_lkp_ord_del lkp_entry
  lkp_write ord_stored lo_key ord_view "lkp_ok n 32 lo_key" n for n
proof unfold_locales
  fix t :: "(ord_key, lkp_ord) lkp_tbl" and e assume ok: "lkp_ok n 32 lo_key t"
  note st = lkp_store_ok [OF ok, where mk = "\<lambda>_. Some (ord_stored e)" and
      key = "lo_key (ord_stored e)" and zero = ord_zero and kzero = ord_key_zero]
  have "\<exists>ea. Some (ord_stored e) = Some ea \<and> lo_key ea = lo_key (ord_stored e)" by simp
  from st [OF this] obtain t' st p where s: "lkp_store ord_zero ord_key_zero 32 lo_key t (\<lambda>_. Some (ord_stored e)) = Some (t', st, p)"
    "lkp_ok n 32 lo_key t'"
    and c: "if card (dom (tbl_map 32 t)) = n then st = FH_ERROR \<and> p = None \<and> tbl_view 32 t' = tbl_view 32 t
       else if tbl_map 32 t (lo_key (ord_stored e)) \<noteq> None then st = FH_ERR_DUP \<and> tbl_view 32 t' = tbl_view 32 t
       else st = FH_OK \<and> (\<exists>a. p = Some a \<and>
              tbl_map 32 t' = (tbl_map 32 t)(lo_key (ord_stored e) \<mapsto> a) \<and>
              tbl_view 32 t' = (tbl_view 32 t)(lo_key (ord_stored e) \<mapsto> ord_stored e))"
    by (auto cong: if_cong)
  have "fh_shr_lkp_ord_add t e = Some (t', st, if st = FH_OK then p else None)"
    using s(1) by (simp add: fh_shr_lkp_ord_add_def ord_stored_def)
  moreover have "\<And>a. tbl_map 32 t' k = Some a \<Longrightarrow> fh_shr_lkp_ord_get t' k = Some (FH_OK, Some a)" for k
    using lkp_get_ok [OF s(2)] by (simp add: fh_shr_lkp_ord_get_def)
  moreover have "tbl_view 32 t k = None \<longleftrightarrow> tbl_map 32 t k = None" for k by (simp add: tbl_view_def)
  ultimately show "\<exists>t' st p. fh_shr_lkp_ord_add t e = Some (t', st, p) \<and> lkp_ok n 32 lo_key t' \<and>
      (if card (dom (ord_view t)) = n then st = FH_ERROR \<and> p = None \<and> ord_view t' = ord_view t
       else if ord_view t (lo_key (ord_stored e)) \<noteq> None then st = FH_ERR_DUP \<and> p = None \<and> ord_view t' = ord_view t
       else st = FH_OK \<and> ord_view t' = (ord_view t)(lo_key (ord_stored e) \<mapsto> ord_stored e) \<and>
            (\<exists>a. p = Some a \<and> fh_shr_lkp_ord_get t' (lo_key (ord_stored e)) = Some (FH_OK, Some a)))"
    using s(2) c unfolding card_dom_view by (auto split: if_splits)
next
  fix t :: "(ord_key, lkp_ord) lkp_tbl" and k assume ok: "lkp_ok n 32 lo_key t"
  then show "\<exists>p. fh_shr_lkp_ord_get t k = Some (if ord_view t k = None then FH_ERR_NOTFOUND else FH_OK, p) \<and>
      map_option (lkp_entry t) p = ord_view t k"
    using lkp_get_ok [OF ok, of k]
    by (cases "tbl_map 32 t k") (simp_all add: fh_shr_lkp_ord_get_def tbl_view_def)
  from lkp_del_ok [OF ok, of ord_key_zero k ord_zero]
  show "\<exists>t' p. fh_shr_lkp_ord_del t k = Some (t', if ord_view t k = None then FH_ERR_NOTFOUND else FH_OK, p) \<and>
      lkp_ok n 32 lo_key t' \<and> ord_view t' = (ord_view t)(k := None) \<and> map_option (lkp_entry t') p = ord_view t k"
    unfolding fh_shr_lkp_ord_del_def by (auto simp: tbl_view_def)
next
  fix t :: "(ord_key, lkp_ord) lkp_tbl" and k p and e :: lkp_ord
  assume ok: "lkp_ok n 32 lo_key t" and get: "fh_shr_lkp_ord_get t k = Some (FH_OK, Some p)" and e: "lo_key e = k"
  have "tbl_map 32 t k = Some p"
    using lkp_get_ok [OF ok, of k] get by (simp add: fh_shr_lkp_ord_get_def split: option.splits)
  then show "lkp_ok n 32 lo_key (lkp_write p e t) \<and> ord_view (lkp_write p e t) = (ord_view t)(k \<mapsto> e)"
    using lkp_write_ok [OF ok _ e] by blast
next
  fix t :: "(ord_key, lkp_ord) lkp_tbl" and k e assume "lkp_ok n 32 lo_key t" "ord_view t k = Some e"
  then show "lo_key e = k" by (auto simp: lkp_ok_def tbl_view_def)
qed

subsection \<open>Runs on the order table\<close>

text \<open>
  The operations of a parser: adding an order, looking one up, deleting one, and changing the
  share count of one through the pointer a lookup returned.
\<close>

datatype ord_op = OAdd lkp_ord | OGet ord_key | ODel ord_key | OShares ord_key u32

definition ord_step ::
  "(ord_key, lkp_ord) lkp_tbl \<Rightarrow> ord_op \<Rightarrow> ((ord_key, lkp_ord) lkp_tbl \<times> fh_status \<times> lkp_ord option) option" where
  "ord_step t op =
    (case op of
       OAdd e \<Rightarrow> do { (t', st, p) \<leftarrow> fh_shr_lkp_ord_add t e; Some (t', st, None) }
     | OGet k \<Rightarrow> do { (st, p) \<leftarrow> fh_shr_lkp_ord_get t k; Some (t, st, map_option (lkp_entry t) p) }
     | ODel k \<Rightarrow> do { (t', st, p) \<leftarrow> fh_shr_lkp_ord_del t k; Some (t', st, map_option (lkp_entry t') p) }
     | OShares k n \<Rightarrow> do { (st, p) \<leftarrow> fh_shr_lkp_ord_get t k;
                           case p of
                             None \<Rightarrow> Some (t, st, None)
                           | Some a \<Rightarrow> Some (lkp_write a ((lkp_entry t a)\<lparr>lo_shares := n\<rparr>) t, st, None) })"

definition ord_spec ::
  "nat \<Rightarrow> (ord_key \<rightharpoonup> lkp_ord) \<Rightarrow> ord_op \<Rightarrow> (ord_key \<rightharpoonup> lkp_ord) \<times> fh_status \<times> lkp_ord option" where
  "ord_spec n m op =
    (case op of
       OAdd e \<Rightarrow> if card (dom m) = n then (m, FH_ERROR, None)
                 else if m (lo_key (ord_stored e)) \<noteq> None then (m, FH_ERR_DUP, None)
                 else (m(lo_key (ord_stored e) \<mapsto> ord_stored e), FH_OK, None)
     | OGet k \<Rightarrow> (m, if m k = None then FH_ERR_NOTFOUND else FH_OK, m k)
     | ODel k \<Rightarrow> (m(k := None), if m k = None then FH_ERR_NOTFOUND else FH_OK, m k)
     | OShares k n \<Rightarrow> case m k of None \<Rightarrow> (m, FH_ERR_NOTFOUND, None)
                                | Some e \<Rightarrow> (m(k \<mapsto> e\<lparr>lo_shares := n\<rparr>), FH_OK, None))"

fun ord_run ::
  "(ord_key, lkp_ord) lkp_tbl \<Rightarrow> ord_op list \<Rightarrow> ((ord_key, lkp_ord) lkp_tbl \<times> (fh_status \<times> lkp_ord option) list) option" where
  "ord_run t [] = Some (t, [])"
| "ord_run t (op # ops) = do { (t1, r) \<leftarrow> ord_step t op; (t2, rs) \<leftarrow> ord_run t1 ops; Some (t2, r # rs) }"

fun ord_spec_run ::
  "nat \<Rightarrow> (ord_key \<rightharpoonup> lkp_ord) \<Rightarrow> ord_op list \<Rightarrow> (ord_key \<rightharpoonup> lkp_ord) \<times> (fh_status \<times> lkp_ord option) list" where
  "ord_spec_run n m [] = (m, [])"
| "ord_spec_run n m (op # ops) =
     (case ord_spec n m op of (m1, r) \<Rightarrow> case ord_spec_run n m1 ops of (m2, rs) \<Rightarrow> (m2, r # rs))"

lemma ord_step_spec:
  assumes ok: "lkp_ok n 32 lo_key t"
  shows "\<exists>t' r. ord_step t op = Some (t', r) \<and> lkp_ok n 32 lo_key t' \<and>
    ord_spec n (ord_view t) op = (ord_view t', r)"
proof (cases op)
  case (OAdd e)
  obtain t' st p where a: "fh_shr_lkp_ord_add t e = Some (t', st, p)" "lkp_ok n 32 lo_key t'"
    "if card (dom (ord_view t)) = n then st = FH_ERROR \<and> p = None \<and> ord_view t' = ord_view t
       else if ord_view t (lo_key (ord_stored e)) \<noteq> None then st = FH_ERR_DUP \<and> p = None \<and> ord_view t' = ord_view t
       else st = FH_OK \<and> ord_view t' = (ord_view t)(lo_key (ord_stored e) \<mapsto> ord_stored e) \<and>
            (\<exists>a. p = Some a \<and> fh_shr_lkp_ord_get t' (lo_key (ord_stored e)) = Some (FH_OK, Some a))"
    using ob.add_law [OF ok, of e] by blast
  then have "ord_spec n (ord_view t) op = (ord_view t', st, None)"
    by (simp add: ord_spec_def OAdd split: if_splits)
  with a show ?thesis by (simp add: ord_step_def OAdd)
next
  case (OGet k)
  then show ?thesis using ob.get_law [OF ok, of k] ok by (auto simp: ord_step_def ord_spec_def)
next
  case (ODel k)
  then show ?thesis using ob.del_law [OF ok, of k] by (auto simp: ord_step_def ord_spec_def)
next
  case (OShares k sh)
  show ?thesis
  proof (rule ob.get_cases [OF ok, of k])
    assume "fh_shr_lkp_ord_get t k = Some (FH_ERR_NOTFOUND, None)" "ord_view t k = None"
    then show ?thesis using ok by (simp add: ord_step_def ord_spec_def OShares)
  next
    fix p assume p: "fh_shr_lkp_ord_get t k = Some (FH_OK, Some p)" "ord_view t k = Some (lkp_entry t p)"
    show ?thesis
      using ob.read_modify_write [OF ok p(1), of "lo_shares_update (\<lambda>_. sh)"] p
      by (simp add: ord_step_def ord_spec_def OShares)
  qed
qed

lemma ord_run_spec:
  "lkp_ok n 32 lo_key t \<Longrightarrow> \<exists>t' rs. ord_run t ops = Some (t', rs) \<and> lkp_ok n 32 lo_key t' \<and>
     ord_spec_run n (ord_view t) ops = (ord_view t', rs)"
proof (induction ops arbitrary: t)
  case (Cons op ops)
  obtain t1 r where s: "ord_step t op = Some (t1, r)" "lkp_ok n 32 lo_key t1"
    "ord_spec n (ord_view t) op = (ord_view t1, r)"
    using ord_step_spec [OF Cons.prems, of op] by blast
  then show ?case using Cons.IH [OF s(2)] by force
qed simp

lemma kops_ok_tables: "kops_ok ord_kops" "kops_ok sym_kops"
  by (simp_all add: kops_ok_def ord_kops_def sym_kops_def ord_key_compare_def sym_key_compare_def)

lemma sym_get_ok:
  assumes "lkp_ok n 20 ls_key t" and "0 \<in> set key"
  shows "\<exists>t' st p. fh_shr_lkp_sym_get t key = Some (t', st, p) \<and> lkp_ok n 20 ls_key t' \<and>
    (if tbl_map 20 t key \<noteq> None then t' = t \<and> st = FH_OK \<and> p = tbl_map 20 t key
     else if card (dom (tbl_map 20 t)) = n then st = FH_ERROR \<and> p = None \<and> tbl_view 20 t' = tbl_view 20 t
     else st = FH_OK \<and> (\<exists>a e. p = Some a \<and> tbl_map 20 t' = (tbl_map 20 t)(key \<mapsto> a) \<and>
            tbl_view 20 t' = (tbl_view 20 t)(key \<mapsto> e) \<and> ls_key e = key))"
proof -
  let ?mk = "\<lambda>old. do { s \<leftarrow> c_strcpy (ls_symbol old) key; Some (old\<lparr>ls_symbol := s, ls_key := key\<rparr>) }"
  have mk: "\<exists>e. ?mk old = Some e \<and> ls_key e = key" for old :: lkp_sym
    using assms(2) by (simp add: c_strcpy_def Let_def)
  have get: "fh_shr_lkp_sym_get t key = (case tbl_map 20 t key of
      None \<Rightarrow> lkp_store sym_zero (replicate 20 0) 20 ls_key t ?mk | Some a \<Rightarrow> Some (t, FH_OK, Some a))"
    using lkp_get_ok [OF assms(1), of key]
    by (auto simp: fh_shr_lkp_sym_get_def bind_eq_Some_conv split: option.splits)
  show ?thesis
  proof (cases "tbl_map 20 t key")
    case None
    note st = lkp_store_ok [OF assms(1), where mk = ?mk and key = key and zero = sym_zero and
        kzero = "replicate 20 0", OF mk]
    then obtain t' st p where "lkp_store sym_zero (replicate 20 0) 20 ls_key t ?mk = Some (t', st, p)"
      "lkp_ok n 20 ls_key t'" "if card (dom (tbl_map 20 t)) = n then st = FH_ERROR \<and> p = None \<and> tbl_view 20 t' = tbl_view 20 t
       else st = FH_OK \<and> (\<exists>a old e. p = Some a \<and> ?mk old = Some e \<and> tbl_map 20 t' = (tbl_map 20 t)(key \<mapsto> a) \<and>
            tbl_view 20 t' = (tbl_view 20 t)(key \<mapsto> e))" using None by (auto cong: if_cong)
    moreover have "ls_key e = key" if "?mk old = Some e" for old e :: lkp_sym
      using mk [of old] that by simp
    ultimately show ?thesis using None get by (auto split: if_splits)
  next
    case (Some a)
    then show ?thesis using get assms(1) by simp
  qed
qed

subsection \<open>Properties\<close>

text \<open>
  C31.  Refinement: an order table that was initialised successfully for \<open>sz\<close> orders returns, on
  every sequence of additions, lookups, deletions and changes through a returned pointer, exactly
  the statuses and order records of a finite map of at most \<open>sz\<close> orders, and never faults; a
  deleted order's record is still readable through the pointer the deletion returns.
\<close>

theorem ord_table_refines_map:
  assumes "fh_shr_lkp_ord_init mem True sz = (t, FH_OK)" and "unat sz \<le> 2 ^ 25"
    and "lm_arena mem = Some a" and "unat a < 2 ^ 63"
    and "env_arena (lm_env mem) = Some b" and "unat b < 2 ^ 63"
  shows "\<exists>t'. ord_run t ops = Some (t', snd (ord_spec_run (unat sz) Map.empty ops)) \<and>
    ord_view t' = fst (ord_spec_run (unat sz) Map.empty ops)"
proof -
  note i = lkp_init_ok [OF assms(1) [unfolded fh_shr_lkp_ord_init_def] kops_ok_tables(1) assms(2) _ assms(3-6)]
  have "lkp_ok (unat sz) 32 lo_key t" "ord_view t = Map.empty" using i by simp_all
  then show ?thesis using ord_run_spec [of "unat sz" t ops] by auto
qed

text \<open>
  C32.  \<^verbatim>\<open>fh_shr_lkp_sym_get\<close> finds or creates: for a terminated symbol it returns the entry filed
  under the symbol, creating it when there is none and room is left, and every other symbol keeps
  its entry and its address; a full table refuses a new symbol with \<^verbatim>\<open>FH_ERROR\<close> and is unchanged.
\<close>

theorem sym_get_find_or_create:
  assumes "lkp_ok n 20 ls_key t" and "0 \<in> set key"
  shows "\<exists>t' st p. fh_shr_lkp_sym_get t key = Some (t', st, p) \<and> lkp_ok n 20 ls_key t' \<and>
    (if tbl_map 20 t key \<noteq> None then t' = t \<and> st = FH_OK \<and> p = tbl_map 20 t key
     else if card (dom (tbl_map 20 t)) = n then st = FH_ERROR \<and> p = None \<and> tbl_view 20 t' = tbl_view 20 t
     else st = FH_OK \<and> (\<exists>a e. p = Some a \<and> tbl_map 20 t' = (tbl_map 20 t)(key \<mapsto> a) \<and>
            tbl_view 20 t' = (tbl_view 20 t)(key \<mapsto> e) \<and> ls_key e = key))"
  by (rule sym_get_ok [OF assms])

subsection \<open>Examples\<close>

definition ex_mem :: lkp_mem where
  "ex_mem = \<lparr>lm_mp_ok = True, lm_name_ok = True, lm_arena = Some 4096, lm_ht_ok = True, lm_htmp_ok = True,
             lm_htname_ok = True, lm_env = \<lparr>env_arena = Some 65536, env_calloc = True\<rparr>\<rparr>"

definition ex_orders :: "(ord_key, lkp_ord) lkp_tbl" where
  "ex_orders = fst (fh_shr_lkp_ord_init ex_mem True 2)"

definition ex_symbols :: "(u8 list, lkp_sym) lkp_tbl" where
  "ex_symbols = fst (fh_shr_lkp_sym_init ex_mem True 2)"

definition ex_order :: "u64 \<Rightarrow> u32 \<Rightarrow> lkp_ord" where
  "ex_order no sh = ord_zero\<lparr>lo_order_no := no, lo_shares := sh\<rparr>"

definition ex_key :: "u64 \<Rightarrow> ord_key" where
  "ex_key no = \<lparr>ok_order_no = no, ok_order_no_str = replicate 20 0\<rparr>"

lemma ex_tables_init:
  "fh_shr_lkp_ord_init ex_mem True 2 = (ex_orders, FH_OK)"
  "fh_shr_lkp_sym_init ex_mem True 2 = (ex_symbols, FH_OK)"
proof -
  have np: "ht_npower 4 = 4" unfolding ht_npower_def by (simp add: ht_npower_from.simps Let_def)
  have "int32 4 = 4" by (simp add: int32_id)
  with np show "fh_shr_lkp_ord_init ex_mem True 2 = (ex_orders, FH_OK)"
    "fh_shr_lkp_sym_init ex_mem True 2 = (ex_symbols, FH_OK)"
    by (simp_all add: ex_orders_def ex_symbols_def fh_shr_lkp_ord_init_def fh_shr_lkp_sym_init_def
        lkp_tbl_init_def ex_mem_def fh_mpool_new_def mpool_grow_Some fh_ht_new_def Let_def)
qed

theorem ord_table_refines_map_witness:
  "\<exists>t'. ord_run ex_orders [OAdd (ex_order 7 100), OAdd (ex_order 7 1), OShares (ex_key 7) 40,
          OAdd (ex_order 8 1), OAdd (ex_order 9 1), ODel (ex_key 7), OGet (ex_key 7)] =
     Some (t', [(FH_OK, None), (FH_ERR_DUP, None), (FH_OK, None), (FH_OK, None), (FH_ERROR, None),
       (FH_OK, Some ((ord_stored (ex_order 7 100))\<lparr>lo_shares := 40\<rparr>)), (FH_ERR_NOTFOUND, None)])"
proof -
  have k: "lo_key (ord_stored (ex_order no sh)) = ex_key no" for no sh
    by (simp add: ord_stored_def ex_order_def ex_key_def ord_zero_def)
  have d: "ex_key 7 \<noteq> ex_key 8" "ex_key 9 \<noteq> ex_key 8" "ex_key 7 \<noteq> ex_key 9" by (simp_all add: ex_key_def)
  show ?thesis
    using ord_table_refines_map [OF ex_tables_init(1), of 4096 65536 "[OAdd (ex_order 7 100), OAdd (ex_order 7 1),
      OShares (ex_key 7) 40, OAdd (ex_order 8 1), OAdd (ex_order 9 1), ODel (ex_key 7), OGet (ex_key 7)]"] d
    by (auto simp: ord_spec_def k ex_mem_def)
qed

theorem sym_get_find_or_create_witness:
  "\<exists>t' a e. fh_shr_lkp_sym_get ex_symbols (65 # replicate 19 0) = Some (t', FH_OK, Some a) \<and>
     tbl_view 20 t' = [65 # replicate 19 0 \<mapsto> e] \<and> ls_key e = 65 # replicate 19 0"
proof -
  note init = ex_tables_init(2) [unfolded fh_shr_lkp_sym_init_def]
  note i = lkp_init_ok(1) [OF init kops_ok_tables(2), where a = 4096 and b = 65536 and klen = 20 and keyf = ls_key]
    lkp_init_ok(2) [OF init kops_ok_tables(2), where a = 4096 and b = 65536 and klen = 20]
  have ok: "lkp_ok 2 20 ls_key ex_symbols" and v: "tbl_view 20 ex_symbols = Map.empty"
    using i by (simp_all add: ex_mem_def)
  then have m: "tbl_map 20 ex_symbols = Map.empty" by (auto simp: tbl_view_def fun_eq_iff)
  show ?thesis
    using sym_get_find_or_create [OF ok, of "65 # replicate 19 0"] m v by auto
qed

end
