(* ===== verification/Feed.thy ===== *)
theory Feed
  imports GapFill Lookup
begin

section \<open>What the feed parsers share\<close>

text \<open>
  The state of a line handler as its parser sees it (\<^verbatim>\<open>fh_shr_lh_proc_t\<close>, \<^verbatim>\<open>fh_shr_lh_line_t\<close> and
  \<^verbatim>\<open>fh_shr_lh_conn_t\<close> of \<^verbatim>\<open>feeds/shared/line_handler/fh_shr_lh.h\<close>, the counters of
  \<^verbatim>\<open>common/fh_info.h\<close>, and the parser's file-scope gap list), the byte-order macros of
  \<^verbatim>\<open>common/fh_ntoh.h\<close>, and reads of a receive buffer.

  A pointer into the receive buffer is the list of the bytes from there to the end of the buffer,
  which is longer than the datagram in it; a read past the end of the buffer is a fault.

  Plugins are loaded at run time and are not part of the sources: a hook is a parameter, a function
  from what it is passed (and from everything the plugins have been told before, the trace) to the
  status and the data it hands back.  A hook does not write the parser's own state.
\<close>

subsection \<open>Reading the receive buffer\<close>

definition rd :: "u8 list \<Rightarrow> nat \<Rightarrow> u8 option" where
  "rd b i = (if i < length b then Some (b ! i) else None)"

definition rd_bytes :: "u8 list \<Rightarrow> nat \<Rightarrow> nat \<Rightarrow> u8 list option" where
  "rd_bytes b i n = (if i + n \<le> length b then Some (take n (drop i b)) else None)"

text \<open>Loads of 16-bit, 32-bit and 64-bit integers on a little-endian machine.\<close>

definition ld16 :: "u8 list \<Rightarrow> nat \<Rightarrow> u16 option" where
  "ld16 b i = do { x0 \<leftarrow> rd b i; x1 \<leftarrow> rd b (i + 1); Some (ucast x0 OR push_bit 8 (ucast x1)) }"

definition ld32 :: "u8 list \<Rightarrow> nat \<Rightarrow> u32 option" where
  "ld32 b i =
    do { bs \<leftarrow> rd_bytes b i 4;
         Some (ucast (bs ! 0) OR push_bit 8 (ucast (bs ! 1)) OR push_bit 16 (ucast (bs ! 2)) OR
               push_bit 24 (ucast (bs ! 3))) }"

definition ld64 :: "u8 list \<Rightarrow> nat \<Rightarrow> u64 option" where
  "ld64 b i =
    do { bs \<leftarrow> rd_bytes b i 8;
         Some (ucast (bs ! 0) OR push_bit 8 (ucast (bs ! 1)) OR push_bit 16 (ucast (bs ! 2)) OR
               push_bit 24 (ucast (bs ! 3)) OR push_bit 32 (ucast (bs ! 4)) OR push_bit 40 (ucast (bs ! 5)) OR
               push_bit 48 (ucast (bs ! 6)) OR push_bit 56 (ucast (bs ! 7))) }"

definition ntoh16 :: "u16 \<Rightarrow> u16" where
  "ntoh16 x = drop_bit 8 x OR push_bit 8 x"

definition ntoh64 :: "u64 \<Rightarrow> u64" where
  "ntoh64 x =
     drop_bit 56 (x AND 0xff00000000000000) OR
     drop_bit 40 (x AND 0x00ff000000000000) OR
     drop_bit 24 (x AND 0x0000ff0000000000) OR
     drop_bit 8 (x AND 0x000000ff00000000) OR
     push_bit 8 (x AND 0x00000000ff000000) OR
     push_bit 24 (x AND 0x0000000000ff0000) OR
     push_bit 40 (x AND 0x000000000000ff00) OR
     push_bit 56 (x AND 0x00000000000000ff)"

subsection \<open>State\<close>

definition FH_ALERT_GAP :: nat where "FH_ALERT_GAP = 1"
definition FH_ALERT_NOGAP :: nat where "FH_ALERT_NOGAP = 2"
definition FH_ALERT_LOSS :: nat where "FH_ALERT_LOSS = 3"

record fh_info_stats =
  st_packets :: u64
  st_messages :: u64
  st_bytes :: u64
  st_packet_errors :: u64
  st_message_errors :: u64
  st_duplicate_packets :: u64
  st_gaps :: u64
  st_lost_messages :: u64
  st_recovered_messages :: u64

text \<open>
  What reaches the send hook: the parser's own message struct, or the data a message hook
  returned.
\<close>

datatype ('m, 'd) payload = Parsed 'm | Plugged 'd

datatype ('m, 'd) lh_event = Alerted nat | Hooked 'm | Sent "('m, 'd) payload"

record ('m, 'd) lh_state =
  lh_gaplist :: "gap_list option"
  lh_gapnode :: ptr
  lh_inorder :: bool
  lh_next_seq_no :: u64
  lh_timestamp :: u64
  lh_stats :: fh_info_stats
  lh_sym_enabled :: bool
  lh_ord_enabled :: bool
  lh_symbol_table :: "(u8 list, lkp_sym) lkp_tbl"
  lh_order_table :: "(ord_key, lkp_ord) lkp_tbl"
  lh_trace :: "('m, 'd) lh_event list"

record ('h, 'm, 'd) lh_hooks =
  hook_alert :: "(('m, 'd) lh_event list \<Rightarrow> nat \<Rightarrow> int \<Rightarrow> int) option"
  hook_msg_send :: "(('m, 'd) lh_event list \<Rightarrow> ('m, 'd) payload \<Rightarrow> fh_status) option"
  hook_msg :: "'h \<Rightarrow> (('m, 'd) lh_event list \<Rightarrow> 'm \<Rightarrow> fh_status \<times> 'd) option"

type_synonym ('m, 'd) handler_result = "(('m, 'd) lh_state \<times> fh_status \<times> ('m, 'd) payload option) option"

abbreviation upd_stats :: "(fh_info_stats \<Rightarrow> fh_info_stats) \<Rightarrow> ('m, 'd) lh_state \<Rightarrow> ('m, 'd) lh_state" where
  "upd_stats f st \<equiv> st\<lparr>lh_stats := f (lh_stats st)\<rparr>"

text \<open>\<^verbatim>\<open>if (hook_alert) hook_alert(&rc, code, conn)\<close>: the hook may overwrite \<^verbatim>\<open>rc\<close>.\<close>

definition lh_alert ::
  "('h, 'm, 'd) lh_hooks \<Rightarrow> nat \<Rightarrow> ('m, 'd) lh_state \<Rightarrow> int \<Rightarrow> ('m, 'd) lh_state \<times> int" where
  "lh_alert hooks code st rc =
    (case hook_alert hooks of
       None \<Rightarrow> (st, rc)
     | Some h \<Rightarrow> (st\<lparr>lh_trace := lh_trace st @ [Alerted code]\<rparr>, h (lh_trace st) code rc))"

text \<open>
  The end of every message handler: the hook of the message type sets the status and the data;
  without one the data is the message struct.
\<close>

definition lh_deliver ::
  "('h, 'm, 'd) lh_hooks \<Rightarrow> 'h \<Rightarrow> 'm \<Rightarrow> ('m, 'd) lh_state
   \<Rightarrow> ('m, 'd) lh_state \<times> fh_status \<times> ('m, 'd) payload option" where
  "lh_deliver hooks hid m st =
    (case hook_msg hooks hid of
       Some h \<Rightarrow> (case h (lh_trace st) m of (rc, d) \<Rightarrow>
                    (st\<lparr>lh_trace := lh_trace st @ [Hooked m]\<rparr>, rc, Some (Plugged d)))
     | None \<Rightarrow> (st, FH_OK, Some (Parsed m)))"

text \<open>\<^verbatim>\<open>hook_msg_send(&rc, data, data_length)\<close>, when there is one.\<close>

definition lh_send ::
  "('h, 'm, 'd) lh_hooks \<Rightarrow> ('m, 'd) payload option \<Rightarrow> ('m, 'd) lh_state \<Rightarrow> ('m, 'd) lh_state \<times> fh_status" where
  "lh_send hooks data st =
    (case hook_msg_send hooks of
       None \<Rightarrow> (st, FH_OK)
     | Some h \<Rightarrow>
         (case data of
            None \<Rightarrow> (st, FH_OK)
          | Some p \<Rightarrow> (st\<lparr>lh_trace := lh_trace st @ [Sent p]\<rparr>, h (lh_trace st) p)))"

text \<open>
  \<^verbatim>\<open>FH_ITCH_FETCH_SYMBOL\<close>: the symbol table entry of a six-byte symbol, NULL when the table is not
  enabled or has no room.
\<close>

definition lh_fetch_symbol :: "u8 list \<Rightarrow> ('m, 'd) lh_state \<Rightarrow> (('m, 'd) lh_state \<times> ptr) option" where
  "lh_fetch_symbol stock st =
    (if lh_sym_enabled st then do {
       (t, rc, entry) \<leftarrow> fh_shr_lkp_sym_get (lh_symbol_table st) (stock @ replicate 14 0);
       Some (st\<lparr>lh_symbol_table := t\<rparr>, if rc = FH_OK then entry else None)
     }
     else Some (st, None))"

text \<open>The key of an order known by its number.\<close>

definition ord_no_key :: "u64 \<Rightarrow> ord_key" where
  "ord_no_key no = \<lparr>ok_order_no = no, ok_order_no_str = replicate 20 0\<rparr>"

text \<open>Expired gaps are declared lost before a packet is looked at.\<close>

definition lh_expire :: "('h, 'm, 'd) lh_hooks \<Rightarrow> int \<Rightarrow> ('m, 'd) lh_state \<Rightarrow> ('m, 'd) lh_state option" where
  "lh_expire hooks now st =
    (case lh_gaplist st of
       None \<Rightarrow> Some st
     | Some l \<Rightarrow>
         if gl_count l > 0 then do {
           (l, rc) \<leftarrow> fh_shr_gap_fill_flush now l;
           let st = st\<lparr>lh_gaplist := Some l\<rparr>;
           if rc > 0 then
             Some (fst (lh_alert hooks FH_ALERT_LOSS
               (upd_stats (\<lambda>s. s\<lparr>st_lost_messages := st_lost_messages s + word_of_int rc\<rparr>) st) rc))
           else Some st
         }
         else Some st)"

subsection \<open>Lemmas on reads\<close>

lemma rd_Some [simp]: "i < length b \<Longrightarrow> rd b i = Some (b ! i)"
  by (simp add: rd_def)

lemma rd_bytes_Some [simp]: "i + n \<le> length b \<Longrightarrow> rd_bytes b i n = Some (take n (drop i b))"
  by (simp add: rd_bytes_def)

lemma bit_u8: "bit (w :: u8) n \<Longrightarrow> n < 8"
  using bit_imp_le_length by fastforce

text \<open>The value of big-endian bytes.\<close>

definition be_val :: "u8 list \<Rightarrow> nat" where
  "be_val bs = foldl (\<lambda>v b. v * 256 + unat b) 0 bs"

definition byte_at :: "nat \<Rightarrow> u8 \<Rightarrow> u64" where
  "byte_at n x = push_bit n (ucast x)"

lemma byte_at_mask:
  "byte_at n x AND push_bit n (mask 8) = byte_at n x"
  "m + 8 \<le> n \<or> n + 8 \<le> m \<Longrightarrow> byte_at n x AND push_bit m (mask 8) = 0"
  by (rule bit_word_eqI, auto simp: byte_at_def bit_simps dest: bit_u8)+

lemma byte_at_shift:
  "m \<le> n \<Longrightarrow> n + 8 \<le> 64 \<Longrightarrow> drop_bit m (byte_at n x) = byte_at (n - m) x"
  "push_bit m (byte_at n x) = byte_at (m + n) x"
  by (rule bit_word_eqI, auto simp: byte_at_def bit_simps add.commute dest: bit_u8)

lemma unat_byte_at:
  assumes "n + 8 \<le> 64"
  shows "unat (byte_at n x) = unat x * 2 ^ n"
proof -
  have "unat x * 2 ^ n < 2 ^ 8 * 2 ^ n" using unat_lt [of x] by simp
  also have "\<dots> = 2 ^ (n + 8)" by (simp add: power_add)
  also have "\<dots> \<le> (2 :: nat) ^ 64" using assms by (intro power_increasing) simp_all
  finally have "unat x * 2 ^ n < 2 ^ 64" .
  then have "take_bit 64 (push_bit n (unat x)) = unat x * 2 ^ n"
    by (simp add: push_bit_eq_mult take_bit_nat_eq_self_iff)
  then show ?thesis by (simp add: byte_at_def unsigned_push_bit_eq unat_ucast_up)
qed

lemma unat_byte_or:
  assumes "unat z < 2 ^ n" and "m = n + 8" and "m \<le> 64"
  shows "unat (byte_at n x OR z) = unat x * 2 ^ n + unat z \<and> unat (byte_at n x OR z) < 2 ^ m"
proof -
  have "unat (take_bit n z) = unat z"
    using assms(1) by (simp add: unsigned_take_bit_eq take_bit_nat_eq_self_iff)
  then have z: "take_bit n z = z" by (simp add: word_unat_eq_iff)
  have "\<not> bit (byte_at n x) k \<or> \<not> bit z k" for k
    by (subst z [symmetric]) (auto simp: byte_at_def bit_simps)
  then have "byte_at n x OR z = byte_at n x + z" by (simp add: disjunctive_add)
  moreover have "(unat x + 1) * 2 ^ n \<le> 2 ^ 8 * 2 ^ n" using unat_lt [of x] by (intro mult_right_mono) simp_all
  then have "unat x * 2 ^ n + 2 ^ n \<le> 2 ^ (n + 8)" by (simp add: power_add add_mult_distrib mult.commute)
  then have lt: "unat x * 2 ^ n + unat z < 2 ^ (n + 8)" using assms(1) by linarith
  moreover have n8: "n + 8 \<le> 64" using assms(2,3) by simp
  then have "(2 :: nat) ^ (n + 8) \<le> 2 ^ 64" by (intro power_increasing) simp_all
  ultimately have "unat (byte_at n x OR z) = unat x * 2 ^ n + unat z"
    using unat_byte_at [OF n8, of x] by (simp add: unat_add_lem [THEN iffD1])
  with lt assms(2) show ?thesis by simp
qed

lemma byte_masks:
  "(0xff00000000000000 :: u64) = push_bit 56 (mask 8)" "(0x00ff000000000000 :: u64) = push_bit 48 (mask 8)"
  "(0x0000ff0000000000 :: u64) = push_bit 40 (mask 8)" "(0x000000ff00000000 :: u64) = push_bit 32 (mask 8)"
  "(0x00000000ff000000 :: u64) = push_bit 24 (mask 8)" "(0x0000000000ff0000 :: u64) = push_bit 16 (mask 8)"
  "(0x000000000000ff00 :: u64) = push_bit 8 (mask 8)" "(0x00000000000000ff :: u64) = push_bit 0 (mask 8)"
  by (simp_all add: mask_eq_exp_minus_1 push_bit_eq_mult)

lemma ntoh64_bytes:
  "ntoh64 (byte_at 0 x0 OR byte_at 8 x1 OR byte_at 16 x2 OR byte_at 24 x3 OR byte_at 32 x4 OR
           byte_at 40 x5 OR byte_at 48 x6 OR byte_at 56 x7) =
   byte_at 56 x0 OR byte_at 48 x1 OR byte_at 40 x2 OR byte_at 32 x3 OR byte_at 24 x4 OR
   byte_at 16 x5 OR byte_at 8 x6 OR byte_at 0 x7"
  unfolding ntoh64_def byte_masks
  by (simp add: bit.conj_disj_distrib2 byte_at_mask byte_at_shift or.commute or.left_commute del: push_bit_0_id)

lemma list_of_8:
  "length xs = 8 \<Longrightarrow> \<exists>x0 x1 x2 x3 x4 x5 x6 x7. xs = [x0, x1, x2, x3, x4, x5, x6, x7]"
  by (auto simp: numeral_eq_Suc length_Suc_conv)

lemma ntoh64_ld64:
  assumes "i + 8 \<le> length b"
  shows "\<exists>x. ld64 b i = Some x \<and> unat (ntoh64 x) = be_val (take 8 (drop i b))"
proof -
  have "length (take 8 (drop i b)) = 8" using assms by simp
  then obtain x0 x1 x2 x3 x4 x5 x6 x7 where bs: "take 8 (drop i b) = [x0, x1, x2, x3, x4, x5, x6, x7]"
    using list_of_8 by blast
  let ?x = "byte_at 0 x0 OR byte_at 8 x1 OR byte_at 16 x2 OR byte_at 24 x3 OR byte_at 32 x4 OR
           byte_at 40 x5 OR byte_at 48 x6 OR byte_at 56 x7"
  have ld: "ld64 b i = Some ?x"
    using assms bs by (simp add: ld64_def byte_at_def)
  have u7: "unat (byte_at 0 x7) = unat x7" "unat (byte_at 0 x7) < 2 ^ 8"
    using unat_byte_at [of 0 x7] unat_lt [of x7] by simp_all
  have eq_8: "(24 :: nat) = 16 + 8" "(32 :: nat) = 24 + 8" "(40 :: nat) = 32 + 8" "(48 :: nat) = 40 + 8"
    "(56 :: nat) = 48 + 8" "(64 :: nat) = 56 + 8" by simp_all
  have le_64: "24 \<le> (64 :: nat)" "32 \<le> (64 :: nat)" "40 \<le> (64 :: nat)" "48 \<le> (64 :: nat)"
    "56 \<le> (64 :: nat)" "64 \<le> (64 :: nat)" by simp_all
  have u6: "unat (byte_at 8 x6 OR byte_at 0 x7) = unat x6 * 2 ^ 8 + unat x7 \<and>
      unat (byte_at 8 x6 OR byte_at 0 x7) < 2 ^ 16"
    using unat_byte_or [OF u7(2), of 16 x6] u7(1) by simp
  note u5 = unat_byte_or [OF conjunct2 [OF u6], of 24 x5, OF eq_8(1) le_64(1)]
  note u4 = unat_byte_or [OF conjunct2 [OF u5], of 32 x4, OF eq_8(2) le_64(2)]
  note u3 = unat_byte_or [OF conjunct2 [OF u4], of 40 x3, OF eq_8(3) le_64(3)]
  note u2 = unat_byte_or [OF conjunct2 [OF u3], of 48 x2, OF eq_8(4) le_64(4)]
  note u1 = unat_byte_or [OF conjunct2 [OF u2], of 56 x1, OF eq_8(5) le_64(5)]
  note u0 = unat_byte_or [OF conjunct2 [OF u1], of 64 x0, OF eq_8(6) le_64(6)]
  show ?thesis
    using ld u0 u1 u2 u3 u4 u5 u6 u7(1)
    by (simp add: ntoh64_bytes bs be_val_def)
qed

lemma list_of_2: "length xs = 2 \<Longrightarrow> \<exists>x0 x1. xs = [x0, x1]"
  by (auto simp: numeral_2_eq_2 length_Suc_conv)

lemma ntoh16_ld16:
  assumes "i + 2 \<le> length b"
  shows "\<exists>x. ld16 b i = Some x \<and> unat (ntoh16 x) = be_val (take 2 (drop i b))"
proof -
  have "length (take 2 (drop i b)) = 2" using assms by simp
  then obtain x0 x1 where bs: "take 2 (drop i b) = [x0, x1]"
    using list_of_2 by blast
  have at: "b ! i = x0" "b ! (i + 1) = x1"
    using bs assms nth_take [of 0 2 "drop i b"] nth_take [of 1 2 "drop i b"] by simp_all
  let ?x = "ucast x0 OR push_bit 8 (ucast x1) :: u16" and ?n = "unat x0 * 256 + unat x1"
  have "ntoh16 ?x = push_bit 8 (ucast x0) OR ucast x1"
    unfolding ntoh16_def by (rule bit_word_eqI) (auto simp: bit_simps dest: bit_u8)
  also have "\<dots> = push_bit 8 (ucast x0) + ucast x1"
    by (subst disjunctive_add) (auto simp: bit_simps dest: bit_u8)
  finally have eq: "ntoh16 ?x = of_nat ?n" by (simp add: push_bit_eq_mult)
  have "?n < 2 ^ 16" using unat_lt [of x0] unat_lt [of x1] by simp
  then have "unat (ntoh16 ?x) = ?n" unfolding eq unat_of_nat by simp
  then show ?thesis using assms at bs by (simp add: ld16_def be_val_def)
qed

end
