(* ===== verification/Machine.thy ===== *)
theory Machine
  imports Prelude
begin

section \<open>Components as machines\<close>

text \<open>
  A component that takes one input after another (packets, messages, fields) and may fault: runs over a
  list of inputs, reachable states, and the contract under which neither can fault.  The parsers and
  the FAST decoder are instances.
\<close>

fun run_inputs :: "('i \<Rightarrow> 's \<Rightarrow> ('s \<times> 'o) option) \<Rightarrow> 'i list \<Rightarrow> 's \<Rightarrow> ('s \<times> 'o list) option" where
  "run_inputs step [] s = Some (s, [])"
| "run_inputs step (i # is) s =
    do { (s, r) \<leftarrow> step i s;
         (s, rs) \<leftarrow> run_inputs step is s;
         Some (s, r # rs) }"

text \<open>States reached with inputs that were admissible (\<open>adm\<close>) when they arrived.\<close>

inductive reach :: "('i \<Rightarrow> 's \<Rightarrow> ('s \<times> 'o) option) \<Rightarrow> ('s \<Rightarrow> 'i \<Rightarrow> bool) \<Rightarrow> 's \<Rightarrow> 's \<Rightarrow> bool" for step adm s where
  reach_start: "reach step adm s s"
| reach_step: "reach step adm s s1 \<Longrightarrow> adm s1 i \<Longrightarrow> step i s1 = Some (s2, r) \<Longrightarrow> reach step adm s s2"

text \<open>
  The contract: in a state of the invariant an admissible input is processed without a fault, keeps the
  invariant and leads forward in a preorder \<open>le\<close>.
\<close>

locale total_machine =
  fixes step :: "'i \<Rightarrow> 's \<Rightarrow> ('s \<times> 'o) option"
    and adm :: "'s \<Rightarrow> 'i \<Rightarrow> bool"
    and inv :: "'s \<Rightarrow> bool"
    and le :: "'s \<Rightarrow> 's \<Rightarrow> bool"
  assumes step_total: "inv s \<Longrightarrow> adm s i \<Longrightarrow> \<exists>s' r. step i s = Some (s', r) \<and> inv s' \<and> le s s'"
    and le_refl: "le s s"
    and le_trans: "le s s1 \<Longrightarrow> le s1 s2 \<Longrightarrow> le s s2"
begin

lemma run_total:
  assumes "inv s" and "\<And>i s. i \<in> set is \<Longrightarrow> adm s i"
  shows "\<exists>s' rs. run_inputs step is s = Some (s', rs) \<and> inv s' \<and> le s s' \<and> length rs = length is"
  using assms
proof (induction "is" arbitrary: s)
  case (Cons i "is")
  obtain s1 r where s1: "step i s = Some (s1, r)" "inv s1" "le s s1" using step_total [OF Cons.prems(1)] Cons.prems(2) by force
  obtain s2 rs where "run_inputs step is s1 = Some (s2, rs)" "inv s2" "le s1 s2" "length rs = length is"
    using Cons.IH [OF s1(2)] Cons.prems(2) by auto
  then show ?case using s1 by (auto intro: le_trans)
qed (simp add: le_refl)

lemma reach_inv: "reach step adm s s' \<Longrightarrow> inv s \<Longrightarrow> inv s' \<and> le s s'"
proof (induction rule: reach.induct)
  case (reach_step s1 i s2 r)
  then show ?case using step_total [of s1 i] by (auto intro: le_trans)
qed (simp add: le_refl)

lemma reach_total:
  assumes "reach step adm s s1" and "inv s" and "adm s1 i"
  shows "\<exists>s2 r. step i s1 = Some (s2, r) \<and> inv s2 \<and> le s s1 \<and> le s1 s2"
  using reach_inv [OF assms(1,2)] step_total [of s1 i] assms(3) by blast

end

text \<open>
  The contract of a machine that implements an abstract one without faults: \<open>abs\<close> is the abstract state, \<open>out\<close>
  the answer to an input and \<open>upd\<close> the abstract state after it.  Then every run gives the answers of the
  abstract machine.
\<close>

fun abstract_run :: "('a \<Rightarrow> 'i \<Rightarrow> 'o) \<Rightarrow> ('a \<Rightarrow> 'i \<Rightarrow> 'a) \<Rightarrow> 'a \<Rightarrow> 'i list \<Rightarrow> 'o list" where
  "abstract_run out upd a [] = []"
| "abstract_run out upd a (i # is) = out a i # abstract_run out upd (upd a i) is"

lemma abstract_run_nth:
  "k < length is \<Longrightarrow> abstract_run out upd a is ! k = out (foldl upd a (take k is)) (is ! k)"
  by (induction "is" arbitrary: a k) (auto simp: nth_Cons' take_Cons')

lemma length_abstract_run [simp]: "length (abstract_run out upd a is) = length is"
  by (induction "is" arbitrary: a) auto

locale refining_machine =
  fixes step :: "'i \<Rightarrow> 's \<Rightarrow> ('s \<times> 'o) option"
    and adm :: "'i \<Rightarrow> bool"
    and inv :: "'s \<Rightarrow> bool"
    and abs :: "'s \<Rightarrow> 'a"
    and out :: "'a \<Rightarrow> 'i \<Rightarrow> 'o"
    and upd :: "'a \<Rightarrow> 'i \<Rightarrow> 'a"
  assumes step_refines:
    "inv s \<Longrightarrow> adm i \<Longrightarrow> \<exists>s'. step i s = Some (s', out (abs s) i) \<and> inv s' \<and> abs s' = upd (abs s) i"
begin

lemma run_refines:
  assumes "inv s" and "\<And>i. i \<in> set is \<Longrightarrow> adm i"
  shows "\<exists>s'. run_inputs step is s = Some (s', abstract_run out upd (abs s) is) \<and> inv s' \<and> abs s' = foldl upd (abs s) is"
  using assms
proof (induction "is" arbitrary: s)
  case (Cons i "is")
  obtain s1 where s1: "step i s = Some (s1, out (abs s) i)" "inv s1" "abs s1 = upd (abs s) i"
    using step_refines [OF Cons.prems(1)] Cons.prems(2) by force
  obtain s2 where "run_inputs step is s1 = Some (s2, abstract_run out upd (abs s1) is)" "inv s2"
    "abs s2 = foldl upd (abs s1) is"
    using Cons.IH [OF s1(2)] Cons.prems(2) by auto
  then show ?case using s1 by simp
qed simp

end

sublocale refining_machine \<subseteq> total_machine step "\<lambda>_. adm" inv "\<lambda>_ _. True"
  by unfold_locales (use step_refines in blast)+

text \<open>
  The same with a simulation relation in place of an abstraction function, for abstract states that hold history, and inputs
  whose admissibility depends on the abstract state.
\<close>

fun adm_run :: "('a \<Rightarrow> 'i \<Rightarrow> bool) \<Rightarrow> ('a \<Rightarrow> 'i \<Rightarrow> 'a) \<Rightarrow> 'a \<Rightarrow> 'i list \<Rightarrow> bool" where
  "adm_run adm upd a [] \<longleftrightarrow> True"
| "adm_run adm upd a (i # is) \<longleftrightarrow> adm a i \<and> adm_run adm upd (upd a i) is"

locale simulating_machine =
  fixes step :: "'i \<Rightarrow> 's \<Rightarrow> ('s \<times> 'o) option"
    and adm :: "'a \<Rightarrow> 'i \<Rightarrow> bool"
    and rel :: "'a \<Rightarrow> 's \<Rightarrow> bool"
    and out :: "'a \<Rightarrow> 'i \<Rightarrow> 'o"
    and upd :: "'a \<Rightarrow> 'i \<Rightarrow> 'a"
  assumes step_simulates: "rel a s \<Longrightarrow> adm a i \<Longrightarrow> \<exists>s'. step i s = Some (s', out a i) \<and> rel (upd a i) s'"
begin

lemma run_simulates:
  assumes "rel a s" and "adm_run adm upd a is"
  shows "\<exists>s'. run_inputs step is s = Some (s', abstract_run out upd a is) \<and> rel (foldl upd a is) s'"
  using assms
proof (induction "is" arbitrary: a s)
  case (Cons i "is")
  obtain s1 where "step i s = Some (s1, out a i)" "rel (upd a i) s1" using step_simulates Cons.prems by fastforce
  moreover obtain s2 where "run_inputs step is s1 = Some (s2, abstract_run out upd (upd a i) is)" "rel (foldl upd (upd a i) is) s2"
    using Cons.IH Cons.prems(2) calculation(2) by fastforce
  ultimately show ?case by simp
qed simp

end

sublocale refining_machine \<subseteq> by_abs: simulating_machine step "\<lambda>_. adm" "\<lambda>a s. inv s \<and> abs s = a" out upd
  by unfold_locales (use step_refines in blast)

end
