(* ===== verification/LineBook.thy ===== *)
theory LineBook
  imports Feed Machine
begin

section \<open>Reasoning about message handlers\<close>

text \<open>
  What the proofs about the feed parsers share.  The order book a line state stands for; the steps a
  message handler may take (\<open>msg_step\<close>: the tables stay well formed, the rest of the line is
  untouched, and the book is as stated), with rules that carry a handler from one read or table
  operation to the next; and the well-formed lines, with the sequence numbers they would process.
\<close>

subsection \<open>Steps of a handler\<close>

text \<open>What a handler leaves alone: everything the duplicate filter uses.\<close>

definition same_line :: "('m, 'd) lh_state \<Rightarrow> ('m, 'd) lh_state \<Rightarrow> bool" where
  "same_line st st' \<longleftrightarrow>
     lh_gaplist st' = lh_gaplist st \<and> lh_gapnode st' = lh_gapnode st \<and> lh_inorder st' = lh_inorder st \<and>
     lh_next_seq_no st' = lh_next_seq_no st \<and> lh_sym_enabled st' = lh_sym_enabled st \<and>
     lh_ord_enabled st' = lh_ord_enabled st"

definition tables_ok :: "nat \<Rightarrow> nat \<Rightarrow> ('m, 'd) lh_state \<Rightarrow> bool" where
  "tables_ok n m st \<longleftrightarrow>
     (lh_sym_enabled st \<longrightarrow> lkp_ok n 20 ls_key (lh_symbol_table st)) \<and>
     (lh_ord_enabled st \<longrightarrow> lkp_ok m 32 lo_key (lh_order_table st))"

lemma same_line_refl [simp]: "same_line st st"
  by (simp add: same_line_def)

lemma same_line_trans: "same_line st st1 \<Longrightarrow> same_line st1 st2 \<Longrightarrow> same_line st st2"
  by (simp add: same_line_def)

text \<open>The order book a line state stands for, and what the order messages mean for it.\<close>

definition book :: "('m, 'd) lh_state \<Rightarrow> ord_key \<rightharpoonup> lkp_ord" where
  "book st = (if lh_ord_enabled st then ord_view (lh_order_table st) else Map.empty)"

definition book_add :: "nat \<Rightarrow> lkp_ord \<Rightarrow> (ord_key \<rightharpoonup> lkp_ord) \<Rightarrow> ord_key \<rightharpoonup> lkp_ord" where
  "book_add cap e bk =
    (if card (dom bk) = cap \<or> bk (lo_key (ord_stored e)) \<noteq> None then bk
     else bk(lo_key (ord_stored e) \<mapsto> ord_stored e))"

lemma book_off [simp]: "\<not> lh_ord_enabled st \<Longrightarrow> book st = Map.empty"
  by (simp add: book_def)

text \<open>
  \<open>succeeds P x\<close>: the computation does not fault and its result satisfies \<open>P\<close>; with rules for
  the operations a handler is made of.
\<close>

definition succeeds :: "('a \<Rightarrow> bool) \<Rightarrow> 'a option \<Rightarrow> bool" where
  "succeeds P x \<longleftrightarrow> (\<exists>r. x = Some r \<and> P r)"

named_theorems wp_rules \<open>rules for computations that do not fault\<close>

lemma wp_Some [wp_rules]: "P r \<Longrightarrow> succeeds P (Some r)"
  by (simp add: succeeds_def)

lemma wp_bind: "succeeds Q x \<Longrightarrow> (\<And>v. x = Some v \<Longrightarrow> Q v \<Longrightarrow> succeeds P (g v)) \<Longrightarrow> succeeds P (Option.bind x g)"
  by (auto simp: succeeds_def)

lemma wp_return: "P (st, rc, d) \<Longrightarrow> succeeds P (Some (st, rc, d))"
  by (simp add: succeeds_def)

lemma wp_rd [wp_rules]: "i < length b \<Longrightarrow> succeeds P (g (b ! i)) \<Longrightarrow> succeeds P (Option.bind (rd b i) g)"
  by (simp add: succeeds_def)

lemma wp_bytes [wp_rules]:
  "i + n \<le> length b \<Longrightarrow> succeeds P (g (take n (drop i b))) \<Longrightarrow> succeeds P (Option.bind (rd_bytes b i n) g)"
  by (simp add: succeeds_def)

lemma wp_ld16 [wp_rules]:
  "i + 2 \<le> length b \<Longrightarrow> (\<And>v. ld16 b i = Some v \<Longrightarrow> succeeds P (g v)) \<Longrightarrow> succeeds P (Option.bind (ld16 b i) g)"
  by (auto simp: ld16_def)

lemma wp_ld32 [wp_rules]:
  "i + 4 \<le> length b \<Longrightarrow> (\<And>v. ld32 b i = Some v \<Longrightarrow> succeeds P (g v)) \<Longrightarrow> succeeds P (Option.bind (ld32 b i) g)"
  by (auto simp: ld32_def)

lemma wp_ld64 [wp_rules]:
  "i + 8 \<le> length b \<Longrightarrow> (\<And>v. ld64 b i = Some v \<Longrightarrow> succeeds P (g v)) \<Longrightarrow> succeeds P (Option.bind (ld64 b i) g)"
  by (auto simp: ld64_def)

text \<open>A step of a handler: the line is the same, the tables are well formed, the book is \<open>bk\<close>.\<close>

definition msg_step :: "nat \<Rightarrow> nat \<Rightarrow> ('m, 'd) lh_state \<Rightarrow> (ord_key \<rightharpoonup> lkp_ord) \<Rightarrow> ('m, 'd) lh_state \<Rightarrow> bool" where
  "msg_step n m st bk st' \<longleftrightarrow> same_line st st' \<and> tables_ok n m st' \<and> book st' = bk"

lemma msg_step_refl: "tables_ok n m st \<Longrightarrow> msg_step n m st (book st) st"
  by (simp add: msg_step_def)

lemma msg_step_trans: "msg_step n m st bk st1 \<Longrightarrow> msg_step n m st1 bk' st2 \<Longrightarrow> msg_step n m st bk' st2"
  by (auto simp: msg_step_def intro: same_line_trans)

lemma tables_step [intro]: "msg_step n m st bk st' \<Longrightarrow> tables_ok n m st'"
  by (simp add: msg_step_def)

lemma wp_deliver [wp_rules]:
  assumes "tables_ok n m st" and "\<And>st' rc d. msg_step n m st (book st) st' \<Longrightarrow> P (st', rc, d)"
  shows "succeeds P (Some (lh_deliver hooks h msg st))"
proof -
  obtain st' rc d where "lh_deliver hooks h msg st = (st', rc, d)" "msg_step n m st (book st) st'"
    using assms(1)
    by (cases "lh_deliver hooks h msg st")
      (auto simp: lh_deliver_def msg_step_def same_line_def tables_ok_def book_def split: option.splits prod.splits)
  with assms(2) show ?thesis by (simp add: succeeds_def)
qed

lemma wp_symbol [wp_rules]:
  assumes ok: "tables_ok n m st"
    and g: "\<And>st' p. msg_step n m st (book st) st' \<Longrightarrow> succeeds P (g (st', p))"
  shows "succeeds P (Option.bind (lh_fetch_symbol stock st) g)"
proof (cases "lh_sym_enabled st")
  case True
  then have "lkp_ok n 20 ls_key (lh_symbol_table st)" using ok by (simp add: tables_ok_def)
  moreover have "0 \<in> set (stock @ replicate 14 0)" by simp
  ultimately obtain t rc p where "fh_shr_lkp_sym_get (lh_symbol_table st) (stock @ replicate 14 0) = Some (t, rc, p)"
    "lkp_ok n 20 ls_key t" using sym_get_ok by blast
  then show ?thesis
    using True ok g [of "st\<lparr>lh_symbol_table := t\<rparr>" "if rc = FH_OK then p else None"]
    by (simp add: lh_fetch_symbol_def msg_step_def same_line_def tables_ok_def book_def)
next
  case False
  then show ?thesis using g [OF msg_step_refl [OF ok]] by (simp add: lh_fetch_symbol_def)
qed

text \<open>Steps that replace the order table.\<close>

lemma msg_step_orders:
  assumes "tables_ok n m st" and "lh_ord_enabled st" and "lkp_ok m 32 lo_key t"
  shows "msg_step n m st (ord_view t) (st\<lparr>lh_order_table := t\<rparr>)"
  using assms by (simp add: msg_step_def same_line_def tables_ok_def book_def)

lemma order_tableD:
  "tables_ok n m st \<Longrightarrow> lh_ord_enabled st \<Longrightarrow> lkp_ok m 32 lo_key (lh_order_table st) \<and> ord_view (lh_order_table st) = book st"
  by (simp add: tables_ok_def book_def)

lemma ord_add_book:
  assumes "lkp_ok m 32 lo_key t"
  shows "\<exists>t' rc p. fh_shr_lkp_ord_add t e = Some (t', rc, p) \<and> lkp_ok m 32 lo_key t' \<and>
    ord_view t' = book_add m e (ord_view t)"
proof -
  obtain t' rc p where a: "fh_shr_lkp_ord_add t e = Some (t', rc, p)" "lkp_ok m 32 lo_key t'"
    "if card (dom (ord_view t)) = m then rc = FH_ERROR \<and> p = None \<and> ord_view t' = ord_view t
       else if ord_view t (lo_key (ord_stored e)) \<noteq> None then rc = FH_ERR_DUP \<and> p = None \<and> ord_view t' = ord_view t
       else rc = FH_OK \<and> ord_view t' = (ord_view t)(lo_key (ord_stored e) \<mapsto> ord_stored e) \<and>
            (\<exists>a. p = Some a \<and> fh_shr_lkp_ord_get t' (lo_key (ord_stored e)) = Some (FH_OK, Some a))"
    using ob.add_law [OF assms, of e] by blast
  then have "ord_view t' = book_add m e (ord_view t)" by (auto simp: book_add_def split: if_splits)
  with a show ?thesis by blast
qed

text \<open>
  \<open>step_to n m st f\<close>: what a handler may leave behind, \<open>f\<close> being the order book it leaves for some
  symbol entry.
\<close>

definition step_to ::
  "nat \<Rightarrow> nat \<Rightarrow> ('m, 'd) lh_state \<Rightarrow> (ptr \<Rightarrow> (ord_key \<rightharpoonup> lkp_ord) \<Rightarrow> ord_key \<rightharpoonup> lkp_ord) \<Rightarrow>
     ('m, 'd) lh_state \<times> fh_status \<times> ('m, 'd) payload option \<Rightarrow> bool" where
  "step_to n m st f = (\<lambda>(st', rc, d). \<exists>se. msg_step n m st
     (if lh_ord_enabled st then f se (book st) else Map.empty) st')"

lemma step_toI:
  "same_line st st' \<Longrightarrow> tables_ok n m st' \<Longrightarrow> book st' = (if lh_ord_enabled st then f se (book st) else Map.empty) \<Longrightarrow>
     step_to n m st f (st', rc, d)"
  by (auto simp: step_to_def msg_step_def)

lemma step_to_refl: "tables_ok n m st \<Longrightarrow> (\<And>se bk. f se bk = bk) \<Longrightarrow> step_to n m st f (st, rc, d)"
  by (rule step_toI) (auto simp: book_def)

lemma step_to_cong:
  assumes "\<And>se bk. f se bk = g se bk" and "succeeds (step_to n m st f) x"
  shows "succeeds (step_to n m st g) x"
proof -
  have "f = g" using assms(1) by blast
  then show ?thesis using assms(2) by simp
qed

subsection \<open>The sequence numbers of a line\<close>

text \<open>
  A line with a gap list: the tables are well formed, the gap list is, and every missing number is
  below the next expected one.  \<open>open_seqs\<close> are the numbers whose messages the line would process.
\<close>

definition line_gaps :: "('m, 'd) lh_state \<Rightarrow> nat set" where
  "line_gaps st = (case lh_gaplist st of None \<Rightarrow> {} | Some l \<Rightarrow> missing l)"

definition gaps_ok :: "('m, 'd) lh_state \<Rightarrow> bool" where
  "gaps_ok st \<longleftrightarrow> (\<exists>l. lh_gaplist st = Some l \<and> gap_inv l) \<and> (\<forall>x\<in>line_gaps st. x < unat (lh_next_seq_no st))"

definition open_seqs :: "('m, 'd) lh_state \<Rightarrow> nat set" where
  "open_seqs st = {unat (lh_next_seq_no st)..} \<union> line_gaps st"

definition line_ok :: "nat \<Rightarrow> nat \<Rightarrow> ('m, 'd) lh_state \<Rightarrow> bool" where
  "line_ok n m st \<longleftrightarrow> tables_ok n m st \<and> gaps_ok st"

lemma alert_line [simp]:
  "lh_gaplist (fst (lh_alert hooks c st rc)) = lh_gaplist st"
  "lh_next_seq_no (fst (lh_alert hooks c st rc)) = lh_next_seq_no st"
  "lh_gapnode (fst (lh_alert hooks c st rc)) = lh_gapnode st"
  "tables_ok n m (fst (lh_alert hooks c st rc)) = tables_ok n m st"
  "book (fst (lh_alert hooks c st rc)) = book st"
  by (simp_all add: lh_alert_def tables_ok_def book_def split: option.splits)

lemma stats_line [simp]: "tables_ok n m (st\<lparr>lh_stats := x\<rparr>) = tables_ok n m st" "book (st\<lparr>lh_stats := x\<rparr>) = book st"
  "tables_ok n m (st\<lparr>lh_gaplist := gl\<rparr>) = tables_ok n m st" "book (st\<lparr>lh_gaplist := gl\<rparr>) = book st"
  "tables_ok n m (st\<lparr>lh_next_seq_no := q\<rparr>) = tables_ok n m st" "book (st\<lparr>lh_next_seq_no := q\<rparr>) = book st"
  "tables_ok n m (st\<lparr>lh_gapnode := p\<rparr>) = tables_ok n m st" "book (st\<lparr>lh_gapnode := p\<rparr>) = book st"
  "tables_ok n m (st\<lparr>lh_inorder := i\<rparr>) = tables_ok n m st" "book (st\<lparr>lh_inorder := i\<rparr>) = book st"
  by (simp_all add: tables_ok_def book_def)

lemma stats_gaps [simp]: "gaps_ok (st\<lparr>lh_stats := x\<rparr>) = gaps_ok st" "open_seqs (st\<lparr>lh_stats := x\<rparr>) = open_seqs st"
  "gaps_ok (st\<lparr>lh_gapnode := p\<rparr>) = gaps_ok st" "open_seqs (st\<lparr>lh_gapnode := p\<rparr>) = open_seqs st"
  "gaps_ok (st\<lparr>lh_inorder := i\<rparr>) = gaps_ok st" "open_seqs (st\<lparr>lh_inorder := i\<rparr>) = open_seqs st"
  "line_gaps (st\<lparr>lh_stats := x\<rparr>) = line_gaps st" "line_gaps (st\<lparr>lh_gapnode := p\<rparr>) = line_gaps st"
  "line_gaps (st\<lparr>lh_inorder := i\<rparr>) = line_gaps st"
  by (simp_all add: gaps_ok_def line_gaps_def open_seqs_def)

lemma line_ok_simps [simp]: "line_ok n m (st\<lparr>lh_stats := x\<rparr>) = line_ok n m st"
  "line_ok n m (st\<lparr>lh_gapnode := p\<rparr>) = line_ok n m st" "line_ok n m (st\<lparr>lh_inorder := i\<rparr>) = line_ok n m st"
  by (simp_all add: line_ok_def)

lemma line_ok_next_up:
  "line_ok n m st \<Longrightarrow> lh_next_seq_no st \<le> q \<Longrightarrow> line_ok n m (st\<lparr>lh_next_seq_no := q\<rparr>)"
  by (auto simp: line_ok_def gaps_ok_def line_gaps_def word_le_nat_alt)

lemma gap_size_word:
  assumes "q < s" and "unat s < unat q + 2 ^ 32"
  shows "unat (word_of_int (sint (ucast (s - q :: u64) :: u32)) :: u32) = unat s - unat q"
proof -
  have "unat (s - q) = unat s - unat q" using assms(1) by (simp add: unat_sub)
  then have "unat (s - q) < 2 ^ 32" using assms(2) by simp
  then show ?thesis using \<open>unat (s - q) = unat s - unat q\<close>
    by (simp add: unsigned_ucast_eq take_bit_nat_eq_self_iff)
qed

text \<open>Pushing the gap before a number ahead of the line.\<close>

lemma line_push:
  assumes ok: "line_ok n m st" and q: "lh_next_seq_no st < seq_no"
    and near: "unat seq_no < unat (lh_next_seq_no st) + 2 ^ 32" and l: "lh_gaplist st = Some l"
  obtains l' rc where "fh_shr_gap_fill_push now l (lh_next_seq_no st)
      (word_of_int (sint (ucast (seq_no - lh_next_seq_no st) :: u32))) = Some (l', rc)" "gap_inv l'"
    "missing l' \<subseteq> line_gaps st \<union> {unat (lh_next_seq_no st)..<unat seq_no}"
    "{unat (lh_next_seq_no st)..<unat seq_no} \<subseteq> missing l'" "\<forall>x\<in>missing l'. x < unat seq_no"
proof -
  let ?q = "lh_next_seq_no st" and ?sz = "word_of_int (sint (ucast (seq_no - lh_next_seq_no st) :: u32)) :: u32"
  have l': "gap_inv l" "\<forall>x\<in>missing l. x < unat ?q" "line_gaps st = missing l"
    using ok l by (auto simp: line_ok_def gaps_ok_def line_gaps_def)
  have lt: "unat ?q < unat seq_no" using q by (simp add: word_less_nat_alt)
  have sz: "unat ?sz = unat seq_no - unat ?q" by (rule gap_size_word [OF q near])
  then have e: "unat ?q + unat ?sz = unat seq_no" "0 < unat ?sz" using lt by simp_all
  have "unat ?q + unat ?sz < 2 ^ 64" unfolding e(1) using unsigned_less [of seq_no] by simp
  from gl.push_law [OF l'(1) e(2) this l'(2), of now] obtain l1 rc where
    p: "fh_shr_gap_fill_push now l ?q ?sz = Some (l1, rc)" "gap_inv l1"
    "missing l1 \<subseteq> missing l \<union> {unat ?q..<unat seq_no}" "{unat ?q..<unat seq_no} \<subseteq> missing l1"
    unfolding e by blast
  moreover have "\<forall>x\<in>missing l1. x < unat seq_no" using p(3) l'(2) lt by fastforce
  ultimately show ?thesis using that l'(3) by simp
qed

text \<open>The numbers of a line do not depend on the rest of its state.\<close>

lemma same_line_gaps:
  "same_line st st' \<Longrightarrow> gaps_ok st' = gaps_ok st" "same_line st st' \<Longrightarrow> open_seqs st' = open_seqs st"
  "same_line st st' \<Longrightarrow> line_gaps st' = line_gaps st"
  by (simp_all add: same_line_def gaps_ok_def open_seqs_def line_gaps_def)

lemma send_line:
  "lh_send hooks data st = (st', rc) \<Longrightarrow>
     tables_ok n m st' = tables_ok n m st \<and> book st' = book st \<and> gaps_ok st' = gaps_ok st \<and>
     open_seqs st' = open_seqs st \<and> lh_next_seq_no st' = lh_next_seq_no st"
  by (auto simp: lh_send_def tables_ok_def book_def gaps_ok_def open_seqs_def line_gaps_def split: option.splits)

text \<open>Expiring gaps.\<close>

lemma expire_frame:
  assumes "lh_gaplist st = Some l" and "fh_shr_gap_fill_flush now l = Some (l', k)"
  shows "\<exists>st'. lh_expire hooks now st = Some st' \<and> lh_gaplist st' = Some (if gl_count l > 0 then l' else l) \<and>
    lh_next_seq_no st' = lh_next_seq_no st \<and> (\<forall>n m. tables_ok n m st' = tables_ok n m st) \<and> book st' = book st \<and>
    lh_ord_enabled st' = lh_ord_enabled st \<and> lh_inorder st' = lh_inorder st"
  using assms
  by (cases "hook_alert hooks"; cases "gl_count l > 0"; cases "k > 0")
    (simp_all add: lh_expire_def Let_def lh_alert_def tables_ok_def book_def)

lemma expire_ok:
  assumes "line_ok n m st"
  shows "\<exists>st'. lh_expire hooks now st = Some st' \<and> line_ok n m st' \<and> book st' = book st \<and>
    lh_ord_enabled st' = lh_ord_enabled st \<and> lh_inorder st' = lh_inorder st \<and>
    lh_next_seq_no st' = lh_next_seq_no st \<and> line_gaps st' \<subseteq> line_gaps st"
proof -
  obtain l where l: "lh_gaplist st = Some l" "gap_inv l" "\<forall>x\<in>missing l. x < unat (lh_next_seq_no st)"
    using assms by (auto simp: line_ok_def gaps_ok_def line_gaps_def)
  obtain l' k where f: "fh_shr_gap_fill_flush now l = Some (l', k)" "gap_inv l'" "missing l' \<subseteq> missing l"
    using gl.flush_law [OF l(2)] by blast
  let ?l = "if gl_count l > 0 then l' else l"
  obtain st' where e: "lh_expire hooks now st = Some st'" "lh_gaplist st' = Some ?l"
    "lh_next_seq_no st' = lh_next_seq_no st" "tables_ok n m st' = tables_ok n m st" "book st' = book st"
    "lh_ord_enabled st' = lh_ord_enabled st" "lh_inorder st' = lh_inorder st"
    using expire_frame [OF l(1) f(1), of hooks] by blast
  have "gap_inv ?l" "missing ?l \<subseteq> missing l" using f l(2) by auto
  then show ?thesis using e l assms unfolding line_ok_def gaps_ok_def line_gaps_def by auto
qed

lemma expire_stats:
  assumes "lh_expire hooks now st = Some st'"
  shows "st_gaps (lh_stats st') = st_gaps (lh_stats st)"
proof (cases "lh_gaplist st")
  case (Some l)
  then show ?thesis
    using assms by (cases "fh_shr_gap_fill_flush now l"; cases "hook_alert hooks"; cases "gl_count l > 0")
      (auto simp: lh_expire_def Let_def lh_alert_def split: if_splits)
qed (use assms in \<open>simp add: lh_expire_def\<close>)

subsection \<open>Changing an order in place\<close>

definition book_update :: "u64 \<Rightarrow> (lkp_ord \<Rightarrow> lkp_ord) \<Rightarrow> (ord_key \<rightharpoonup> lkp_ord) \<Rightarrow> ord_key \<rightharpoonup> lkp_ord" where
  "book_update no f bk =
    (case bk (ord_no_key no) of None \<Rightarrow> bk | Some e \<Rightarrow> bk(ord_no_key no \<mapsto> f e))"

definition book_change :: "ord_key \<Rightarrow> (lkp_ord \<Rightarrow> lkp_ord) \<Rightarrow> (ord_key \<rightharpoonup> lkp_ord) \<Rightarrow> ord_key \<rightharpoonup> lkp_ord" where
  "book_change k f bk = (case bk k of None \<Rightarrow> bk | Some e \<Rightarrow> bk(k \<mapsto> f e))"

text \<open>What a lookup in the order table of a line finds, and what writing to the entry found does.\<close>

lemma order_key_cases:
  assumes ok: "tables_ok n m st" and en: "lh_ord_enabled st"
  obtains (absent) "fh_shr_lkp_ord_get (lh_order_table st) k = Some (FH_ERR_NOTFOUND, None)" "book st k = None"
  | (found) a where "fh_shr_lkp_ord_get (lh_order_table st) k = Some (FH_OK, Some a)"
      "book st k = Some (lkp_entry (lh_order_table st) a)"
      "\<And>f. (\<And>e. lo_key (f e) = lo_key e) \<Longrightarrow>
         msg_step n m st (book_change k f (book st))
           (st\<lparr>lh_order_table := lkp_write a (f (lkp_entry (lh_order_table st) a)) (lh_order_table st)\<rparr>)"
proof -
  let ?t = "lh_order_table st"
  have t: "lkp_ok m 32 lo_key ?t" "ord_view ?t = book st" using order_tableD [OF ok en] by auto
  show ?thesis
  proof (rule ob.get_cases [OF t(1), of k])
    assume "fh_shr_lkp_ord_get ?t k = Some (FH_ERR_NOTFOUND, None)" "ord_view ?t k = None"
    then show ?thesis using absent t(2) by simp
  next
    fix a assume a: "fh_shr_lkp_ord_get ?t k = Some (FH_OK, Some a)" "ord_view ?t k = Some (lkp_entry ?t a)"
    have "msg_step n m st (book_change k f (book st)) (st\<lparr>lh_order_table := lkp_write a (f (lkp_entry ?t a)) ?t\<rparr>)"
      if "\<And>e. lo_key (f e) = lo_key e" for f
    proof -
      have "lkp_ok m 32 lo_key (lkp_write a (f (lkp_entry ?t a)) ?t)"
        "ord_view (lkp_write a (f (lkp_entry ?t a)) ?t) = (book st)(k \<mapsto> f (lkp_entry ?t a))"
        using ob.read_modify_write [OF t(1) a(1), of f] a t that by simp_all
      then show ?thesis using msg_step_orders [OF ok en, of "lkp_write a (f (lkp_entry ?t a)) ?t"] a(2) t(2)
        by (simp add: book_change_def)
    qed
    then show ?thesis using found a t(2) by simp
  qed
qed

lemma order_get_cases:
  assumes ok: "tables_ok n m st" and en: "lh_ord_enabled st"
  obtains (absent) "fh_shr_lkp_ord_get (lh_order_table st) (ord_no_key no) = Some (FH_ERR_NOTFOUND, None)"
      "book st (ord_no_key no) = None"
  | (found) a where "fh_shr_lkp_ord_get (lh_order_table st) (ord_no_key no) = Some (FH_OK, Some a)"
      "book st (ord_no_key no) = Some (lkp_entry (lh_order_table st) a)"
      "\<And>f. (\<And>e. lo_key (f e) = lo_key e) \<Longrightarrow>
         msg_step n m st (book_update no f (book st))
           (st\<lparr>lh_order_table := lkp_write a (f (lkp_entry (lh_order_table st) a)) (lh_order_table st)\<rparr>)"
proof -
  have "book_update no = book_change (ord_no_key no)" by (simp add: book_update_def book_change_def fun_eq_iff)
  then show ?thesis using order_key_cases [OF ok en, of "ord_no_key no"] absent found by metis
qed

end
