(* ===== verification/ItchMsg.thy ===== *)
theory ItchMsg
  imports LineBook
begin

section \<open>ITCH messages (\<^verbatim>\<open>feeds/itch/multicast/common\<close>)\<close>

text \<open>
  The message structs of \<^verbatim>\<open>fh_itch_msg.h\<close>, the MoldUDP64 packet header, the ASCII number parsers and
  the fifteen message handlers of \<^verbatim>\<open>fh_itch_parse.c\<close>.  A handler takes the message bytes (from the
  type byte on), the length the message header gave, and the line state; it returns the new state,
  a status and the data for the send hook.  \<^verbatim>\<open>raw.message\<close>, a pointer into the receive buffer, is the
  bytes from there on.
\<close>

record itch_header =
  ih_seq_no :: u64
  ih_timestamp :: u32

record itch_raw =
  ir_message :: "u8 list"
  ir_size :: u32

record itch_msg_system =
  sy_header :: itch_header
  sy_event_code :: u8
  sy_raw :: itch_raw

record itch_msg_stock_dir =
  sd_header :: itch_header
  sd_stock :: "u8 list"
  sd_market_cat :: u8
  sd_fin_stat_ind :: u8
  sd_round_lots_only :: u8
  sd_round_lot_size :: u32
  sd_sym_entry :: ptr
  sd_raw :: itch_raw

record itch_msg_stock_trade_act =
  ta_header :: itch_header
  ta_stock :: "u8 list"
  ta_trading_state :: u8
  ta_reason :: "u8 list"
  ta_sym_entry :: ptr
  ta_raw :: itch_raw

record itch_msg_market_part_pos =
  pp_header :: itch_header
  pp_mpid :: "u8 list"
  pp_stock :: "u8 list"
  pp_pri_mkt_mkr :: u8
  pp_mkt_mkr_mode :: u8
  pp_mkt_part_state :: u8
  pp_sym_entry :: ptr
  pp_raw :: itch_raw

record itch_msg_order_add =
  oa_header :: itch_header
  oa_order_no :: u64
  oa_price :: u64
  oa_shares :: u32
  oa_buy_sell_ind :: u8
  oa_stock :: "u8 list"
  oa_sym_entry :: ptr
  oa_ord_entry :: ptr
  oa_raw :: itch_raw

record itch_msg_order_add_attr =
  ot_header :: itch_header
  ot_order_no :: u64
  ot_price :: u64
  ot_shares :: u32
  ot_buy_sell_ind :: u8
  ot_stock :: "u8 list"
  ot_attribution :: "u8 list"
  ot_sym_entry :: ptr
  ot_ord_entry :: ptr
  ot_raw :: itch_raw

record itch_msg_order_exe =
  oe_header :: itch_header
  oe_order_no :: u64
  oe_match_no :: u64
  oe_shares :: u32
  oe_ord_entry :: ptr
  oe_raw :: itch_raw

record itch_msg_order_exe_price =
  ox_header :: itch_header
  ox_order_no :: u64
  ox_match_no :: u64
  ox_exe_price :: u64
  ox_shares :: u32
  ox_printable :: u8
  ox_ord_entry :: ptr
  ox_raw :: itch_raw

record itch_msg_order_cancel =
  oc_header :: itch_header
  oc_order_no :: u64
  oc_shares :: u32
  oc_ord_entry :: ptr
  oc_raw :: itch_raw

record itch_msg_order_delete =
  od_header :: itch_header
  od_order_no :: u64
  od_ord_entry :: ptr
  od_raw :: itch_raw

record itch_msg_order_replace =
  orp_header :: itch_header
  orp_old_order_no :: u64
  orp_new_order_no :: u64
  orp_price :: u64
  orp_shares :: u32
  orp_ord_entry :: ptr
  orp_raw :: itch_raw

record itch_msg_trade =
  tr_header :: itch_header
  tr_order_no :: u64
  tr_price :: u64
  tr_match_no :: u64
  tr_shares :: u32
  tr_buy_sell_ind :: u8
  tr_stock :: "u8 list"
  tr_sym_entry :: ptr
  tr_raw :: itch_raw

record itch_msg_trade_cross =
  tc_header :: itch_header
  tc_price :: u64
  tc_match_no :: u64
  tc_shares :: u32
  tc_stock :: "u8 list"
  tc_type :: u8
  tc_sym_entry :: ptr
  tc_raw :: itch_raw

record itch_msg_trade_broken =
  tb_header :: itch_header
  tb_match_no :: u64
  tb_raw :: itch_raw

record itch_msg_noii =
  ni_header :: itch_header
  ni_far_price :: u64
  ni_near_price :: u64
  ni_ref_price :: u64
  ni_paired_shares :: u32
  ni_imbalance_shares :: u32
  ni_imbalance_dir :: u8
  ni_stock :: "u8 list"
  ni_cross_type :: u8
  ni_price_var_ind :: u8
  ni_sym_entry :: ptr
  ni_raw :: itch_raw
datatype itch_msg =
    MSystem itch_msg_system
  | MStockDir itch_msg_stock_dir
  | MStockTradeAct itch_msg_stock_trade_act
  | MMarketPartPos itch_msg_market_part_pos
  | MOrderAdd itch_msg_order_add
  | MOrderAddAttr itch_msg_order_add_attr
  | MOrderExe itch_msg_order_exe
  | MOrderExePrice itch_msg_order_exe_price
  | MOrderCancel itch_msg_order_cancel
  | MOrderDelete itch_msg_order_delete
  | MOrderReplace itch_msg_order_replace
  | MTrade itch_msg_trade
  | MTradeCross itch_msg_trade_cross
  | MTradeBroken itch_msg_trade_broken
  | MNoii itch_msg_noii

text \<open>One hook per message type.\<close>

datatype itch_hook =
    HSystem
  | HStockDir
  | HStockTradeAct
  | HMarketPartPos
  | HOrderAdd
  | HOrderAddAttr
  | HOrderExe
  | HOrderExePrice
  | HOrderCancel
  | HOrderDelete
  | HOrderReplace
  | HTrade
  | HTradeCross
  | HTradeBroken
  | HNoii

type_synonym 'd itch_state = "(itch_msg, 'd) lh_state"
type_synonym 'd itch_hooks = "(itch_hook, itch_msg, 'd) lh_hooks"

subsection \<open>Packet header\<close>

record itch_moldudp64 =
  md_session :: "u8 list"
  md_seq_no :: u64
  md_msg_count :: u16

definition fh_itch_moldudp64_extract :: "u8 list \<Rightarrow> itch_moldudp64 option" where
  "fh_itch_moldudp64_extract b =
    do {
      session \<leftarrow> rd_bytes b 0 10;
      seq \<leftarrow> ld64 b 10;
      cnt \<leftarrow> ld16 b 18;
      Some \<lparr>md_session = session, md_seq_no = ntoh64 seq, md_msg_count = ntoh16 cnt\<rparr>
    }"

subsection \<open>Numbers\<close>

text \<open>
  \<open>atoi_loop b k exp result\<close>: the loop of \<^verbatim>\<open>fh_itch_parse_atoi\<close> with \<open>k\<close> digits left, the rightmost
  at index \<open>k - 1\<close>.  A character below \<open>'0'\<close> gives a negative \<^verbatim>\<open>int\<close>, so the products wrap in 64 bits.
\<close>

fun atoi_loop :: "u8 list \<Rightarrow> nat \<Rightarrow> u64 \<Rightarrow> u64 \<Rightarrow> u64 option" where
  "atoi_loop b 0 ex result = Some result"
| "atoi_loop b (Suc i) ex result =
     do { c \<leftarrow> rd b i;
          if c = 32 then Some result
          else atoi_loop b i (ex * 10) (result + (ucast c - 48) * ex) }"

definition fh_itch_parse_atoi :: "u8 list \<Rightarrow> nat \<Rightarrow> nat \<Rightarrow> u64 option" where
  "fh_itch_parse_atoi b off cnt = atoi_loop (drop off b) cnt 1 0"

definition fh_itch_parse_yesno :: "u8 list \<Rightarrow> bool option" where
  "fh_itch_parse_yesno b = do { c \<leftarrow> rd b 0; Some (c = 89 \<or> c = 121) }"

text \<open>
  The two loops of \<^verbatim>\<open>fh_itch_parse_price\<close>: the four decimals from left to right, then the six
  digits of the whole part from right to left.  \<^verbatim>\<open>exp\<close> is 32 bits wide, and so is the product of a
  digit with it; the sum is 64 bits wide.
\<close>

fun price_frac :: "u8 list \<Rightarrow> nat \<Rightarrow> nat \<Rightarrow> u32 \<Rightarrow> u64 \<Rightarrow> u64 option" where
  "price_frac b 0 i ex result = Some result"
| "price_frac b (Suc k) i ex result =
     do { c \<leftarrow> rd b i;
          if c = 32 then Some result
          else price_frac b k (i + 1) (ex div 10) (result + ucast ((ucast c - 48) * ex)) }"

fun price_whole :: "u8 list \<Rightarrow> nat \<Rightarrow> u32 \<Rightarrow> u64 \<Rightarrow> u64 option" where
  "price_whole b 0 ex result = Some result"
| "price_whole b (Suc i) ex result =
     do { c \<leftarrow> rd b i;
          if c = 32 then Some result
          else price_whole b i (ex * 10) (result + ucast ((ucast c - 48) * ex)) }"

definition fh_itch_parse_price :: "u8 list \<Rightarrow> nat \<Rightarrow> u64 option" where
  "fh_itch_parse_price b off =
    do { frac \<leftarrow> price_frac (drop off b) 4 6 1000 0;
         price_whole (drop off b) 6 10000 frac }"

subsection \<open>Header, raw bytes and order table updates\<close>

definition itch_header_of :: "'d itch_state \<Rightarrow> itch_header" where
  "itch_header_of st = \<lparr>ih_seq_no = lh_next_seq_no st, ih_timestamp = ucast (lh_timestamp st)\<rparr>"

definition itch_raw_of :: "u8 list \<Rightarrow> int \<Rightarrow> itch_raw" where
  "itch_raw_of b len = \<lparr>ir_message = b, ir_size = word_of_int len\<rparr>"

text \<open>A new order: the entry that is added to the order table, and the pointer to it.\<close>

definition itch_order_add ::
  "u64 \<Rightarrow> u64 \<Rightarrow> u32 \<Rightarrow> u8 \<Rightarrow> u8 list \<Rightarrow> ptr \<Rightarrow> 'd itch_state \<Rightarrow> ('d itch_state \<times> ptr) option" where
  "itch_order_add no price shares bs stock se st =
    (if lh_ord_enabled st then do {
       (t, rc, p) \<leftarrow> fh_shr_lkp_ord_add (lh_order_table st)
         (ord_zero\<lparr>lo_stock := stock, lo_order_no := no, lo_price := price, lo_shares := shares,
                   lo_buy_sell_ind := bs, lo_sym_entry := se\<rparr>);
       Some (st\<lparr>lh_order_table := t\<rparr>, p)
     }
     else Some (st, None))"

text \<open>
  Shares leave an order: the count is changed through the pointer, and an order left without
  shares is deleted (\<^verbatim>\<open>shares <= 0\<close> on an unsigned field).
\<close>

definition itch_order_reduce :: "u64 \<Rightarrow> u32 \<Rightarrow> 'd itch_state \<Rightarrow> ('d itch_state \<times> ptr) option" where
  "itch_order_reduce no shares st =
    (if lh_ord_enabled st then do {
       let t = lh_order_table st;
       (rc, p) \<leftarrow> fh_shr_lkp_ord_get t (ord_no_key no);
       if rc \<noteq> FH_OK then Some (st, p)
       else do {
         a \<leftarrow> p;
         let left = lo_shares (lkp_entry t a) - shares;
         let t1 = lkp_write a ((lkp_entry t a)\<lparr>lo_shares := left\<rparr>) t;
         if left \<le> 0 then do {
           (t2, rc2, p2) \<leftarrow> fh_shr_lkp_ord_del t1 (ord_no_key no);
           Some (st\<lparr>lh_order_table := t2\<rparr>, p2)
         }
         else Some (st\<lparr>lh_order_table := t1\<rparr>, Some a)
       }
     }
     else Some (st, None))"

definition itch_order_remove :: "u64 \<Rightarrow> 'd itch_state \<Rightarrow> ('d itch_state \<times> ptr) option" where
  "itch_order_remove no st =
    (if lh_ord_enabled st then do {
       (t, rc, p) \<leftarrow> fh_shr_lkp_ord_del (lh_order_table st) (ord_no_key no);
       Some (st\<lparr>lh_order_table := t\<rparr>, p)
     }
     else Some (st, None))"

text \<open>
  Replacing an order: the old entry is deleted, read through the pointer to the entry just
  returned to the pool, and added again under the new number.
\<close>

definition itch_order_replace :: "u64 \<Rightarrow> u64 \<Rightarrow> u32 \<Rightarrow> u64 \<Rightarrow> 'd itch_state \<Rightarrow> ('d itch_state \<times> ptr) option" where
  "itch_order_replace old_no new_no shares price st =
    (if lh_ord_enabled st then do {
       (t, rc, old) \<leftarrow> fh_shr_lkp_ord_del (lh_order_table st) (ord_no_key old_no);
       let base = (case old of Some a \<Rightarrow> lkp_entry t a | None \<Rightarrow> ord_zero);
       (t2, rc2, p) \<leftarrow> fh_shr_lkp_ord_add t
         (base\<lparr>lo_order_no := new_no, lo_shares := shares, lo_price := price\<rparr>);
       Some (st\<lparr>lh_order_table := t2\<rparr>, p)
     }
     else Some (st, None))"

subsection \<open>Handlers\<close>

definition FH_ITCH_MSG_SYSTEM_SIZE :: int where "FH_ITCH_MSG_SYSTEM_SIZE = 2"

definition fh_itch_parse_sys_msg ::
  "'d itch_hooks \<Rightarrow> u8 list \<Rightarrow> int \<Rightarrow> 'd itch_state \<Rightarrow> (itch_msg, 'd) handler_result" where
  "fh_itch_parse_sys_msg hooks b len st =
    (if len \<noteq> FH_ITCH_MSG_SYSTEM_SIZE then Some (st, FH_ERROR, None)
     else do {
       event_code \<leftarrow> rd b 1;
       Some (lh_deliver hooks HSystem
         (MSystem \<lparr>sy_header = itch_header_of st, sy_event_code = event_code,
           sy_raw = itch_raw_of b len\<rparr>) st)
     })"

definition FH_ITCH_MSG_STOCK_DIR_SIZE :: int where "FH_ITCH_MSG_STOCK_DIR_SIZE = 16"

definition fh_itch_parse_stock_dir_msg ::
  "'d itch_hooks \<Rightarrow> u8 list \<Rightarrow> int \<Rightarrow> 'd itch_state \<Rightarrow> (itch_msg, 'd) handler_result" where
  "fh_itch_parse_stock_dir_msg hooks b len st =
    (if len \<noteq> FH_ITCH_MSG_STOCK_DIR_SIZE then Some (st, FH_ERROR, None)
     else do {
       stock \<leftarrow> rd_bytes b 1 6;
       market_cat \<leftarrow> rd b 7;
       fin_stat_ind \<leftarrow> rd b 8;
       round_lot_size \<leftarrow> fh_itch_parse_atoi b 9 6;
       round_lots_only \<leftarrow> rd b 15;
       (st, se) \<leftarrow> lh_fetch_symbol stock st;
       Some (lh_deliver hooks HStockDir
         (MStockDir \<lparr>sd_header = itch_header_of st, sd_stock = stock,
           sd_market_cat = market_cat, sd_fin_stat_ind = fin_stat_ind,
           sd_round_lots_only = round_lots_only,
           sd_round_lot_size = ucast round_lot_size, sd_sym_entry = se,
           sd_raw = itch_raw_of b len\<rparr>) st)
     })"

definition FH_ITCH_MSG_STOCK_TRADE_ACT_SIZE :: int where "FH_ITCH_MSG_STOCK_TRADE_ACT_SIZE = 13"

definition fh_itch_parse_stock_trade_act_msg ::
  "'d itch_hooks \<Rightarrow> u8 list \<Rightarrow> int \<Rightarrow> 'd itch_state \<Rightarrow> (itch_msg, 'd) handler_result" where
  "fh_itch_parse_stock_trade_act_msg hooks b len st =
    (if len \<noteq> FH_ITCH_MSG_STOCK_TRADE_ACT_SIZE then Some (st, FH_ERROR, None)
     else do {
       stock \<leftarrow> rd_bytes b 1 6;
       trading_state \<leftarrow> rd b 7;
       reason \<leftarrow> rd_bytes b 9 4;
       (st, se) \<leftarrow> lh_fetch_symbol stock st;
       Some (lh_deliver hooks HStockTradeAct
         (MStockTradeAct \<lparr>ta_header = itch_header_of st, ta_stock = stock,
           ta_trading_state = trading_state, ta_reason = reason,
           ta_sym_entry = se, ta_raw = itch_raw_of b len\<rparr>) st)
     })"

definition FH_ITCH_MSG_MARKET_PART_POS_SIZE :: int where "FH_ITCH_MSG_MARKET_PART_POS_SIZE = 14"

definition fh_itch_parse_market_part_pos_msg ::
  "'d itch_hooks \<Rightarrow> u8 list \<Rightarrow> int \<Rightarrow> 'd itch_state \<Rightarrow> (itch_msg, 'd) handler_result" where
  "fh_itch_parse_market_part_pos_msg hooks b len st =
    (if len \<noteq> FH_ITCH_MSG_MARKET_PART_POS_SIZE then Some (st, FH_ERROR, None)
     else do {
       mpid \<leftarrow> rd_bytes b 1 4;
       stock \<leftarrow> rd_bytes b 5 6;
       pri_mkt_mkr \<leftarrow> rd b 11;
       mkt_mkr_mode \<leftarrow> rd b 12;
       mkt_part_state \<leftarrow> rd b 13;
       (st, se) \<leftarrow> lh_fetch_symbol stock st;
       Some (lh_deliver hooks HMarketPartPos
         (MMarketPartPos \<lparr>pp_header = itch_header_of st, pp_mpid = mpid, pp_stock = stock,
           pp_pri_mkt_mkr = pri_mkt_mkr, pp_mkt_mkr_mode = mkt_mkr_mode,
           pp_mkt_part_state = mkt_part_state, pp_sym_entry = se,
           pp_raw = itch_raw_of b len\<rparr>) st)
     })"

definition FH_ITCH_MSG_ORDER_ADD_SIZE :: int where "FH_ITCH_MSG_ORDER_ADD_SIZE = 36"

definition fh_itch_parse_order_add_msg ::
  "'d itch_hooks \<Rightarrow> u8 list \<Rightarrow> int \<Rightarrow> 'd itch_state \<Rightarrow> (itch_msg, 'd) handler_result" where
  "fh_itch_parse_order_add_msg hooks b len st =
    (if len \<noteq> FH_ITCH_MSG_ORDER_ADD_SIZE then Some (st, FH_ERROR, None)
     else do {
       order_no \<leftarrow> fh_itch_parse_atoi b 1 12;
       buy_sell_ind \<leftarrow> rd b 13;
       shares \<leftarrow> fh_itch_parse_atoi b 14 6;
       stock \<leftarrow> rd_bytes b 20 6;
       price \<leftarrow> fh_itch_parse_price b 26;
       (st, se) \<leftarrow> lh_fetch_symbol stock st;
       (st, ord) \<leftarrow> itch_order_add order_no price (ucast shares) buy_sell_ind stock se st;
       Some (lh_deliver hooks HOrderAdd
         (MOrderAdd \<lparr>oa_header = itch_header_of st, oa_order_no = order_no,
           oa_price = price, oa_shares = ucast shares,
           oa_buy_sell_ind = buy_sell_ind, oa_stock = stock, oa_sym_entry = se,
           oa_ord_entry = ord, oa_raw = itch_raw_of b len\<rparr>) st)
     })"

definition FH_ITCH_MSG_ORDER_ADD_ATTR_SIZE :: int where "FH_ITCH_MSG_ORDER_ADD_ATTR_SIZE = 40"

definition fh_itch_parse_order_add_attr_msg ::
  "'d itch_hooks \<Rightarrow> u8 list \<Rightarrow> int \<Rightarrow> 'd itch_state \<Rightarrow> (itch_msg, 'd) handler_result" where
  "fh_itch_parse_order_add_attr_msg hooks b len st =
    (if len \<noteq> FH_ITCH_MSG_ORDER_ADD_ATTR_SIZE then Some (st, FH_ERROR, None)
     else do {
       order_no \<leftarrow> fh_itch_parse_atoi b 1 12;
       buy_sell_ind \<leftarrow> rd b 13;
       shares \<leftarrow> fh_itch_parse_atoi b 14 6;
       stock \<leftarrow> rd_bytes b 20 6;
       price \<leftarrow> fh_itch_parse_price b 26;
       attribution \<leftarrow> rd_bytes b 36 4;
       (st, se) \<leftarrow> lh_fetch_symbol stock st;
       (st, ord) \<leftarrow> itch_order_add order_no price (ucast shares) buy_sell_ind stock se st;
       Some (lh_deliver hooks HOrderAddAttr
         (MOrderAddAttr \<lparr>ot_header = itch_header_of st, ot_order_no = order_no,
           ot_price = price, ot_shares = ucast shares,
           ot_buy_sell_ind = buy_sell_ind, ot_stock = stock,
           ot_attribution = attribution, ot_sym_entry = se, ot_ord_entry = ord,
           ot_raw = itch_raw_of b len\<rparr>) st)
     })"

definition FH_ITCH_MSG_ORDER_EXE_SIZE :: int where "FH_ITCH_MSG_ORDER_EXE_SIZE = 31"

definition fh_itch_parse_order_exe_msg ::
  "'d itch_hooks \<Rightarrow> u8 list \<Rightarrow> int \<Rightarrow> 'd itch_state \<Rightarrow> (itch_msg, 'd) handler_result" where
  "fh_itch_parse_order_exe_msg hooks b len st =
    (if len \<noteq> FH_ITCH_MSG_ORDER_EXE_SIZE then Some (st, FH_ERROR, None)
     else do {
       order_no \<leftarrow> fh_itch_parse_atoi b 1 12;
       shares \<leftarrow> fh_itch_parse_atoi b 13 6;
       match_no \<leftarrow> fh_itch_parse_atoi b 19 12;
       (st, ord) \<leftarrow> itch_order_reduce order_no (ucast shares) st;
       Some (lh_deliver hooks HOrderExe
         (MOrderExe \<lparr>oe_header = itch_header_of st, oe_order_no = order_no,
           oe_match_no = match_no, oe_shares = ucast shares, oe_ord_entry = ord,
           oe_raw = itch_raw_of b len\<rparr>) st)
     })"

definition FH_ITCH_MSG_ORDER_EXE_PRICE_SIZE :: int where "FH_ITCH_MSG_ORDER_EXE_PRICE_SIZE = 42"

definition fh_itch_parse_order_exe_price_msg ::
  "'d itch_hooks \<Rightarrow> u8 list \<Rightarrow> int \<Rightarrow> 'd itch_state \<Rightarrow> (itch_msg, 'd) handler_result" where
  "fh_itch_parse_order_exe_price_msg hooks b len st =
    (if len \<noteq> FH_ITCH_MSG_ORDER_EXE_PRICE_SIZE then Some (st, FH_ERROR, None)
     else do {
       order_no \<leftarrow> fh_itch_parse_atoi b 1 12;
       shares \<leftarrow> fh_itch_parse_atoi b 13 6;
       match_no \<leftarrow> fh_itch_parse_atoi b 19 12;
       printable \<leftarrow> rd b 31;
       exe_price \<leftarrow> fh_itch_parse_price b 32;
       (st, ord) \<leftarrow> itch_order_reduce order_no (ucast shares) st;
       Some (lh_deliver hooks HOrderExePrice
         (MOrderExePrice \<lparr>ox_header = itch_header_of st, ox_order_no = order_no,
           ox_match_no = match_no, ox_exe_price = exe_price,
           ox_shares = ucast shares, ox_printable = printable,
           ox_ord_entry = ord, ox_raw = itch_raw_of b len\<rparr>) st)
     })"

definition FH_ITCH_MSG_ORDER_CANCEL_SIZE :: int where "FH_ITCH_MSG_ORDER_CANCEL_SIZE = 19"

definition fh_itch_parse_order_cancel_msg ::
  "'d itch_hooks \<Rightarrow> u8 list \<Rightarrow> int \<Rightarrow> 'd itch_state \<Rightarrow> (itch_msg, 'd) handler_result" where
  "fh_itch_parse_order_cancel_msg hooks b len st =
    (if len \<noteq> FH_ITCH_MSG_ORDER_CANCEL_SIZE then Some (st, FH_ERROR, None)
     else do {
       order_no \<leftarrow> fh_itch_parse_atoi b 1 12;
       shares \<leftarrow> fh_itch_parse_atoi b 13 6;
       (st, ord) \<leftarrow> itch_order_reduce order_no (ucast shares) st;
       Some (lh_deliver hooks HOrderCancel
         (MOrderCancel \<lparr>oc_header = itch_header_of st, oc_order_no = order_no,
           oc_shares = ucast shares, oc_ord_entry = ord,
           oc_raw = itch_raw_of b len\<rparr>) st)
     })"

definition FH_ITCH_MSG_ORDER_DELETE_SIZE :: int where "FH_ITCH_MSG_ORDER_DELETE_SIZE = 13"

definition fh_itch_parse_order_delete_msg ::
  "'d itch_hooks \<Rightarrow> u8 list \<Rightarrow> int \<Rightarrow> 'd itch_state \<Rightarrow> (itch_msg, 'd) handler_result" where
  "fh_itch_parse_order_delete_msg hooks b len st =
    (if len \<noteq> FH_ITCH_MSG_ORDER_DELETE_SIZE then Some (st, FH_ERROR, None)
     else do {
       order_no \<leftarrow> fh_itch_parse_atoi b 1 12;
       (st, ord) \<leftarrow> itch_order_remove order_no st;
       Some (lh_deliver hooks HOrderDelete
         (MOrderDelete \<lparr>od_header = itch_header_of st, od_order_no = order_no,
           od_ord_entry = ord, od_raw = itch_raw_of b len\<rparr>) st)
     })"

definition FH_ITCH_MSG_ORDER_REPLACE_SIZE :: int where "FH_ITCH_MSG_ORDER_REPLACE_SIZE = 41"

definition fh_itch_parse_order_replace_msg ::
  "'d itch_hooks \<Rightarrow> u8 list \<Rightarrow> int \<Rightarrow> 'd itch_state \<Rightarrow> (itch_msg, 'd) handler_result" where
  "fh_itch_parse_order_replace_msg hooks b len st =
    (if len \<noteq> FH_ITCH_MSG_ORDER_REPLACE_SIZE then Some (st, FH_ERROR, None)
     else do {
       old_order_no \<leftarrow> fh_itch_parse_atoi b 1 12;
       new_order_no \<leftarrow> fh_itch_parse_atoi b 13 12;
       shares \<leftarrow> fh_itch_parse_atoi b 25 6;
       price \<leftarrow> fh_itch_parse_price b 31;
       (st, ord) \<leftarrow> itch_order_replace old_order_no new_order_no (ucast shares) price st;
       Some (lh_deliver hooks HOrderReplace
         (MOrderReplace \<lparr>orp_header = itch_header_of st, orp_old_order_no = old_order_no,
           orp_new_order_no = new_order_no, orp_price = price,
           orp_shares = ucast shares, orp_ord_entry = ord,
           orp_raw = itch_raw_of b len\<rparr>) st)
     })"

definition FH_ITCH_MSG_TRADE_SIZE :: int where "FH_ITCH_MSG_TRADE_SIZE = 48"

definition fh_itch_parse_trade_msg ::
  "'d itch_hooks \<Rightarrow> u8 list \<Rightarrow> int \<Rightarrow> 'd itch_state \<Rightarrow> (itch_msg, 'd) handler_result" where
  "fh_itch_parse_trade_msg hooks b len st =
    (if len \<noteq> FH_ITCH_MSG_TRADE_SIZE then Some (st, FH_ERROR, None)
     else do {
       order_no \<leftarrow> fh_itch_parse_atoi b 1 12;
       buy_sell_ind \<leftarrow> rd b 13;
       shares \<leftarrow> fh_itch_parse_atoi b 14 6;
       stock \<leftarrow> rd_bytes b 20 6;
       price \<leftarrow> fh_itch_parse_price b 26;
       match_no \<leftarrow> fh_itch_parse_atoi b 36 12;
       (st, se) \<leftarrow> lh_fetch_symbol stock st;
       Some (lh_deliver hooks HTrade
         (MTrade \<lparr>tr_header = itch_header_of st, tr_order_no = order_no,
           tr_price = price, tr_match_no = match_no, tr_shares = ucast shares,
           tr_buy_sell_ind = buy_sell_ind, tr_stock = stock, tr_sym_entry = se,
           tr_raw = itch_raw_of b len\<rparr>) st)
     })"

definition FH_ITCH_MSG_TRADE_CROSS_SIZE :: int where "FH_ITCH_MSG_TRADE_CROSS_SIZE = 39"

definition fh_itch_parse_trade_cross_msg ::
  "'d itch_hooks \<Rightarrow> u8 list \<Rightarrow> int \<Rightarrow> 'd itch_state \<Rightarrow> (itch_msg, 'd) handler_result" where
  "fh_itch_parse_trade_cross_msg hooks b len st =
    (if len \<noteq> FH_ITCH_MSG_TRADE_CROSS_SIZE then Some (st, FH_ERROR, None)
     else do {
       shares \<leftarrow> fh_itch_parse_atoi b 1 9;
       stock \<leftarrow> rd_bytes b 10 6;
       price \<leftarrow> fh_itch_parse_price b 16;
       match_no \<leftarrow> fh_itch_parse_atoi b 26 12;
       cross \<leftarrow> rd b 38;
       (st, se) \<leftarrow> lh_fetch_symbol stock st;
       Some (lh_deliver hooks HTradeCross
         (MTradeCross \<lparr>tc_header = itch_header_of st, tc_price = price,
           tc_match_no = match_no, tc_shares = ucast shares, tc_stock = stock,
           tc_type = cross, tc_sym_entry = se, tc_raw = itch_raw_of b len\<rparr>) st)
     })"

definition FH_ITCH_MSG_TRADE_BROKEN_SIZE :: int where "FH_ITCH_MSG_TRADE_BROKEN_SIZE = 13"

definition fh_itch_parse_trade_broken_msg ::
  "'d itch_hooks \<Rightarrow> u8 list \<Rightarrow> int \<Rightarrow> 'd itch_state \<Rightarrow> (itch_msg, 'd) handler_result" where
  "fh_itch_parse_trade_broken_msg hooks b len st =
    (if len \<noteq> FH_ITCH_MSG_TRADE_BROKEN_SIZE then Some (st, FH_ERROR, None)
     else do {
       match_no \<leftarrow> fh_itch_parse_atoi b 1 12;
       Some (lh_deliver hooks HTradeBroken
         (MTradeBroken \<lparr>tb_header = itch_header_of st, tb_match_no = match_no,
           tb_raw = itch_raw_of b len\<rparr>) st)
     })"

definition FH_ITCH_MSG_NOII_SIZE :: int where "FH_ITCH_MSG_NOII_SIZE = 58"

definition fh_itch_parse_noii_msg ::
  "'d itch_hooks \<Rightarrow> u8 list \<Rightarrow> int \<Rightarrow> 'd itch_state \<Rightarrow> (itch_msg, 'd) handler_result" where
  "fh_itch_parse_noii_msg hooks b len st =
    (if len \<noteq> FH_ITCH_MSG_NOII_SIZE then Some (st, FH_ERROR, None)
     else do {
       paired_shares \<leftarrow> fh_itch_parse_atoi b 1 9;
       imbalance_shares \<leftarrow> fh_itch_parse_atoi b 10 9;
       imbalance_dir \<leftarrow> rd b 19;
       stock \<leftarrow> rd_bytes b 20 6;
       far_price \<leftarrow> fh_itch_parse_price b 26;
       near_price \<leftarrow> fh_itch_parse_price b 36;
       ref_price \<leftarrow> fh_itch_parse_price b 46;
       cross_type \<leftarrow> rd b 56;
       price_var_ind \<leftarrow> rd b 57;
       (st, se) \<leftarrow> lh_fetch_symbol stock st;
       Some (lh_deliver hooks HNoii
         (MNoii \<lparr>ni_header = itch_header_of st, ni_far_price = far_price,
           ni_near_price = near_price, ni_ref_price = ref_price,
           ni_paired_shares = ucast paired_shares,
           ni_imbalance_shares = ucast imbalance_shares,
           ni_imbalance_dir = imbalance_dir, ni_stock = stock,
           ni_cross_type = cross_type, ni_price_var_ind = price_var_ind,
           ni_sym_entry = se, ni_raw = itch_raw_of b len\<rparr>) st)
     })"


subsection \<open>The handlers' effect on the line state\<close>

lemma atoi_loop_total: "k \<le> length b \<Longrightarrow> \<exists>v. atoi_loop b k ex r = Some v"
  by (induction b k ex r rule: atoi_loop.induct) auto

lemma parse_atoi_total: "off + k \<le> length b \<Longrightarrow> \<exists>v. fh_itch_parse_atoi b off k = Some v"
  by (simp add: fh_itch_parse_atoi_def atoi_loop_total)

lemma price_frac_total: "i + k \<le> length b \<Longrightarrow> \<exists>v. price_frac b k i ex r = Some v"
  by (induction b k i ex r rule: price_frac.induct) auto

lemma price_whole_total: "k \<le> length b \<Longrightarrow> \<exists>v. price_whole b k ex r = Some v"
  by (induction b k ex r rule: price_whole.induct) auto

lemma parse_price_total:
  assumes "off + 10 \<le> length b"
  shows "\<exists>v. fh_itch_parse_price b off = Some v"
proof -
  obtain f where "price_frac (drop off b) 4 6 1000 0 = Some f"
    using price_frac_total [of 6 4 "drop off b" 1000 0] assms by fastforce
  moreover have "\<exists>v. price_whole (drop off b) 6 10000 f = Some v"
    using assms by (intro price_whole_total) simp
  ultimately show ?thesis by (simp add: fh_itch_parse_price_def)
qed

definition book_reduce :: "u64 \<Rightarrow> u32 \<Rightarrow> (ord_key \<rightharpoonup> lkp_ord) \<Rightarrow> ord_key \<rightharpoonup> lkp_ord" where
  "book_reduce no shares bk =
    (case bk (ord_no_key no) of
       None \<Rightarrow> bk
     | Some e \<Rightarrow> if lo_shares e = shares then bk(ord_no_key no := None)
                 else bk(ord_no_key no \<mapsto> e\<lparr>lo_shares := lo_shares e - shares\<rparr>))"

definition book_replace ::
  "nat \<Rightarrow> u64 \<Rightarrow> u64 \<Rightarrow> u32 \<Rightarrow> u64 \<Rightarrow> (ord_key \<rightharpoonup> lkp_ord) \<Rightarrow> ord_key \<rightharpoonup> lkp_ord" where
  "book_replace cap old_no new_no shares price bk =
     book_add cap ((case bk (ord_no_key old_no) of None \<Rightarrow> ord_zero | Some e \<Rightarrow> e)
                   \<lparr>lo_order_no := new_no, lo_shares := shares, lo_price := price\<rparr>)
       (bk(ord_no_key old_no := None))"

lemma wp_atoi [wp_rules]:
  "off + k \<le> length b \<Longrightarrow> (\<And>v. fh_itch_parse_atoi b off k = Some v \<Longrightarrow> succeeds P (g v)) \<Longrightarrow>
     succeeds P (Option.bind (fh_itch_parse_atoi b off k) g)"
  using parse_atoi_total [of off k b] by auto

lemma wp_price [wp_rules]:
  "off + 10 \<le> length b \<Longrightarrow> (\<And>v. fh_itch_parse_price b off = Some v \<Longrightarrow> succeeds P (g v)) \<Longrightarrow>
     succeeds P (Option.bind (fh_itch_parse_price b off) g)"
  using parse_price_total [of off b] by auto

lemma wp_order_add [wp_rules]:
  assumes ok: "tables_ok n m st"
    and g: "\<And>st' p. msg_step n m st (if lh_ord_enabled st then book_add m
        (ord_zero\<lparr>lo_stock := stock, lo_order_no := no, lo_price := price, lo_shares := shares,
                   lo_buy_sell_ind := bs, lo_sym_entry := se\<rparr>) (book st) else Map.empty) st' \<Longrightarrow> succeeds P (g (st', p))"
  shows "succeeds P (Option.bind (itch_order_add no price shares bs stock se st) g)"
proof (cases "lh_ord_enabled st")
  case True
  let ?e = "ord_zero\<lparr>lo_stock := stock, lo_order_no := no, lo_price := price, lo_shares := shares,
                   lo_buy_sell_ind := bs, lo_sym_entry := se\<rparr>"
  note t = order_tableD [OF ok True]
  obtain t' rc p where "fh_shr_lkp_ord_add (lh_order_table st) ?e = Some (t', rc, p)" "lkp_ok m 32 lo_key t'"
    "ord_view t' = book_add m ?e (book st)"
    using ord_add_book [of m "lh_order_table st" ?e] t by auto
  then show ?thesis
    using True g [of "st\<lparr>lh_order_table := t'\<rparr>" p] msg_step_orders [OF ok True, of t']
    by (simp add: itch_order_add_def)
next
  case False
  then show ?thesis using g [of st None] ok by (simp add: itch_order_add_def msg_step_def book_def)
qed

lemma wp_order_remove [wp_rules]:
  assumes ok: "tables_ok n m st"
    and g: "\<And>st' p. msg_step n m st ((book st)(ord_no_key no := None)) st' \<Longrightarrow> succeeds P (g (st', p))"
  shows "succeeds P (Option.bind (itch_order_remove no st) g)"
proof (cases "lh_ord_enabled st")
  case True
  note t = order_tableD [OF ok True]
  obtain t' p where "fh_shr_lkp_ord_del (lh_order_table st) (ord_no_key no) =
      Some (t', if ord_view (lh_order_table st) (ord_no_key no) = None then FH_ERR_NOTFOUND else FH_OK, p)"
    "lkp_ok m 32 lo_key t'" "ord_view t' = (book st)(ord_no_key no := None)"
    using ob.del_law [of m "lh_order_table st" "ord_no_key no"] t by auto
  then show ?thesis
    using True g [of "st\<lparr>lh_order_table := t'\<rparr>" p] msg_step_orders [OF ok True, of t']
    by (simp add: itch_order_remove_def)
next
  case False
  then show ?thesis using g [of st None] ok by (simp add: itch_order_remove_def msg_step_def book_def)
qed

lemma wp_order_replace [wp_rules]:
  assumes ok: "tables_ok n m st"
    and g: "\<And>st' p. msg_step n m st (if lh_ord_enabled st
        then book_replace m old_no new_no shares price (book st) else Map.empty) st' \<Longrightarrow> succeeds P (g (st', p))"
  shows "succeeds P (Option.bind (itch_order_replace old_no new_no shares price st) g)"
proof (cases "lh_ord_enabled st")
  case True
  note t = order_tableD [OF ok True]
  obtain t1 p1 where d: "fh_shr_lkp_ord_del (lh_order_table st) (ord_no_key old_no) =
      Some (t1, if ord_view (lh_order_table st) (ord_no_key old_no) = None then FH_ERR_NOTFOUND else FH_OK, p1)"
    "lkp_ok m 32 lo_key t1" "ord_view t1 = (book st)(ord_no_key old_no := None)"
    "map_option (lkp_entry t1) p1 = book st (ord_no_key old_no)"
    using ob.del_law [of m "lh_order_table st" "ord_no_key old_no"] t by auto
  let ?base = "case p1 of Some a \<Rightarrow> lkp_entry t1 a | None \<Rightarrow> ord_zero"
  let ?e = "?base\<lparr>lo_order_no := new_no, lo_shares := shares, lo_price := price\<rparr>"
  have base: "?base = (case book st (ord_no_key old_no) of None \<Rightarrow> ord_zero | Some e \<Rightarrow> e)"
    by (cases p1) (auto simp: d(4) [symmetric])
  obtain t2 rc p where "fh_shr_lkp_ord_add t1 ?e = Some (t2, rc, p)" "lkp_ok m 32 lo_key t2"
    "ord_view t2 = book_add m ?e (ord_view t1)"
    using ord_add_book [OF d(2), of ?e] by auto
  then show ?thesis
    using True d g [of "st\<lparr>lh_order_table := t2\<rparr>" p] msg_step_orders [OF ok True, of t2]
    unfolding base by (simp add: itch_order_replace_def book_replace_def base)
next
  case False
  then show ?thesis using g [of st None] ok by (simp add: itch_order_replace_def msg_step_def book_def)
qed

lemma wp_order_reduce [wp_rules]:
  assumes ok: "tables_ok n m st"
    and g: "\<And>st' p. msg_step n m st (book_reduce no shares (book st)) st' \<Longrightarrow> succeeds P (g (st', p))"
  shows "succeeds P (Option.bind (itch_order_reduce no shares st) g)"
proof (cases "lh_ord_enabled st")
  case True
  let ?t = "lh_order_table st" and ?k = "ord_no_key no"
  have t: "lkp_ok m 32 lo_key ?t" "ord_view ?t = book st" using order_tableD [OF ok True] by auto
  show ?thesis
  proof (rule ob.get_cases [OF t(1), of ?k])
    assume "fh_shr_lkp_ord_get ?t ?k = Some (FH_ERR_NOTFOUND, None)" "ord_view ?t ?k = None"
    then show ?thesis
      using True g [of st None] ok t(2) by (simp add: itch_order_reduce_def book_reduce_def msg_step_def)
  next
    fix a assume a: "fh_shr_lkp_ord_get ?t ?k = Some (FH_OK, Some a)" "ord_view ?t ?k = Some (lkp_entry ?t a)"
    let ?e = "lkp_entry ?t a"
    let ?t1 = "lkp_write a (?e\<lparr>lo_shares := lo_shares ?e - shares\<rparr>) ?t"
    have w: "lkp_ok m 32 lo_key ?t1" "ord_view ?t1 = (book st)(?k \<mapsto> ?e\<lparr>lo_shares := lo_shares ?e - shares\<rparr>)"
      using ob.read_modify_write [OF t(1) a(1), of "\<lambda>e. e\<lparr>lo_shares := lo_shares e - shares\<rparr>"] a t by simp_all
    show ?thesis
    proof (cases "lo_shares ?e = shares")
      case eq: True
      obtain t2 p where "fh_shr_lkp_ord_del ?t1 ?k =
          Some (t2, if ord_view ?t1 ?k = None then FH_ERR_NOTFOUND else FH_OK, p)"
        "lkp_ok m 32 lo_key t2" "ord_view t2 = (ord_view ?t1)(?k := None)"
        using ob.del_law [OF w(1), of ?k] by blast
      then show ?thesis
        using True a eq w(2) t(2) g [of "st\<lparr>lh_order_table := t2\<rparr>" p] msg_step_orders [OF ok True, of t2]
        by (simp add: itch_order_reduce_def book_reduce_def)
    next
      case False
      then show ?thesis
        using True a w t(2) g [of "st\<lparr>lh_order_table := ?t1\<rparr>" "Some a"] msg_step_orders [OF ok True, of ?t1]
        by (simp add: itch_order_reduce_def book_reduce_def Let_def)
    qed
  qed
next
  case False
  then show ?thesis
    using g [of st None] ok by (simp add: itch_order_reduce_def msg_step_def book_def book_reduce_def)
qed

text \<open>The numbers a message carries, and what a message of type \<open>ty\<close> means for the order book.\<close>

definition num_at :: "u8 list \<Rightarrow> nat \<Rightarrow> nat \<Rightarrow> u64" where
  "num_at b off k = the (fh_itch_parse_atoi b off k)"

definition price_at :: "u8 list \<Rightarrow> nat \<Rightarrow> u64" where
  "price_at b off = the (fh_itch_parse_price b off)"

definition itch_entry :: "u8 list \<Rightarrow> ptr \<Rightarrow> lkp_ord" where
  "itch_entry b se = ord_zero\<lparr>lo_stock := take 6 (drop 20 b), lo_order_no := num_at b 1 12,
     lo_price := price_at b 26, lo_shares := ucast (num_at b 14 6), lo_buy_sell_ind := b ! 13, lo_sym_entry := se\<rparr>"

definition itch_book_msg ::
  "nat \<Rightarrow> u8 \<Rightarrow> u8 list \<Rightarrow> int \<Rightarrow> ptr \<Rightarrow> (ord_key \<rightharpoonup> lkp_ord) \<Rightarrow> ord_key \<rightharpoonup> lkp_ord" where
  "itch_book_msg cap ty b len se bk =
    (if ty = 65 \<and> len = 36 \<or> ty = 70 \<and> len = 40 then book_add cap (itch_entry b se) bk
     else if ty = 69 \<and> len = 31 \<or> ty = 67 \<and> len = 42 \<or> ty = 88 \<and> len = 19
       then book_reduce (num_at b 1 12) (ucast (num_at b 13 6)) bk
     else if ty = 68 \<and> len = 13 then bk(ord_no_key (num_at b 1 12) := None)
     else if ty = 85 \<and> len = 41
       then book_replace cap (num_at b 1 12) (num_at b 13 12) (ucast (num_at b 25 6)) (price_at b 31) bk
     else bk)"

lemmas handler_step = wp_return wp_rd wp_bytes wp_atoi wp_price

lemma sys_handled:
  assumes "tables_ok n m st" and "nat len \<le> length b"
  shows "succeeds (step_to n m st (\<lambda>se bk. bk))
    (fh_itch_parse_sys_msg hooks b len st)"
  using assms unfolding fh_itch_parse_sys_msg_def FH_ITCH_MSG_SYSTEM_SIZE_def
  by (auto intro!: handler_step wp_deliver [of n m] wp_symbol [of n m] step_to_refl)
    (auto intro!: step_toI simp: num_at_def price_at_def itch_entry_def msg_step_def same_line_def book_off book_reduce_def)

lemma stock_dir_handled:
  assumes "tables_ok n m st" and "nat len \<le> length b"
  shows "succeeds (step_to n m st (\<lambda>se bk. bk))
    (fh_itch_parse_stock_dir_msg hooks b len st)"
  using assms unfolding fh_itch_parse_stock_dir_msg_def FH_ITCH_MSG_STOCK_DIR_SIZE_def
  by (auto intro!: handler_step wp_deliver [of n m] wp_symbol [of n m] step_to_refl)
    (auto intro!: step_toI simp: num_at_def price_at_def itch_entry_def msg_step_def same_line_def book_off book_reduce_def)

lemma stock_trade_act_handled:
  assumes "tables_ok n m st" and "nat len \<le> length b"
  shows "succeeds (step_to n m st (\<lambda>se bk. bk))
    (fh_itch_parse_stock_trade_act_msg hooks b len st)"
  using assms unfolding fh_itch_parse_stock_trade_act_msg_def FH_ITCH_MSG_STOCK_TRADE_ACT_SIZE_def
  by (auto intro!: handler_step wp_deliver [of n m] wp_symbol [of n m] step_to_refl)
    (auto intro!: step_toI simp: num_at_def price_at_def itch_entry_def msg_step_def same_line_def book_off book_reduce_def)

lemma market_part_pos_handled:
  assumes "tables_ok n m st" and "nat len \<le> length b"
  shows "succeeds (step_to n m st (\<lambda>se bk. bk))
    (fh_itch_parse_market_part_pos_msg hooks b len st)"
  using assms unfolding fh_itch_parse_market_part_pos_msg_def FH_ITCH_MSG_MARKET_PART_POS_SIZE_def
  by (auto intro!: handler_step wp_deliver [of n m] wp_symbol [of n m] step_to_refl)
    (auto intro!: step_toI simp: num_at_def price_at_def itch_entry_def msg_step_def same_line_def book_off book_reduce_def)

lemma order_add_handled:
  assumes "tables_ok n m st" and "nat len \<le> length b"
  shows "succeeds (step_to n m st (\<lambda>se bk. if len = 36 then book_add m (itch_entry b se) bk else bk))
    (fh_itch_parse_order_add_msg hooks b len st)"
  using assms unfolding fh_itch_parse_order_add_msg_def FH_ITCH_MSG_ORDER_ADD_SIZE_def
  by (auto intro!: handler_step wp_deliver [of n m] wp_symbol [of n m] wp_order_add [of n m] step_to_refl)
    (auto intro!: step_toI simp: num_at_def price_at_def itch_entry_def msg_step_def same_line_def book_off book_reduce_def)

lemma order_add_attr_handled:
  assumes "tables_ok n m st" and "nat len \<le> length b"
  shows "succeeds (step_to n m st (\<lambda>se bk. if len = 40 then book_add m (itch_entry b se) bk else bk))
    (fh_itch_parse_order_add_attr_msg hooks b len st)"
  using assms unfolding fh_itch_parse_order_add_attr_msg_def FH_ITCH_MSG_ORDER_ADD_ATTR_SIZE_def
  by (auto intro!: handler_step wp_deliver [of n m] wp_symbol [of n m] wp_order_add [of n m] step_to_refl)
    (auto intro!: step_toI simp: num_at_def price_at_def itch_entry_def msg_step_def same_line_def book_off book_reduce_def)

lemma order_exe_handled:
  assumes "tables_ok n m st" and "nat len \<le> length b"
  shows "succeeds (step_to n m st (\<lambda>se bk. if len = 31 then book_reduce (num_at b 1 12) (ucast (num_at b 13 6)) bk else bk))
    (fh_itch_parse_order_exe_msg hooks b len st)"
  using assms unfolding fh_itch_parse_order_exe_msg_def FH_ITCH_MSG_ORDER_EXE_SIZE_def
  by (auto intro!: handler_step wp_deliver [of n m] wp_order_reduce [of n m] step_to_refl)
    (auto intro!: step_toI simp: num_at_def price_at_def itch_entry_def msg_step_def same_line_def book_off book_reduce_def)

lemma order_exe_price_handled:
  assumes "tables_ok n m st" and "nat len \<le> length b"
  shows "succeeds (step_to n m st (\<lambda>se bk. if len = 42 then book_reduce (num_at b 1 12) (ucast (num_at b 13 6)) bk else bk))
    (fh_itch_parse_order_exe_price_msg hooks b len st)"
  using assms unfolding fh_itch_parse_order_exe_price_msg_def FH_ITCH_MSG_ORDER_EXE_PRICE_SIZE_def
  by (auto intro!: handler_step wp_deliver [of n m] wp_order_reduce [of n m] step_to_refl)
    (auto intro!: step_toI simp: num_at_def price_at_def itch_entry_def msg_step_def same_line_def book_off book_reduce_def)

lemma order_cancel_handled:
  assumes "tables_ok n m st" and "nat len \<le> length b"
  shows "succeeds (step_to n m st (\<lambda>se bk. if len = 19 then book_reduce (num_at b 1 12) (ucast (num_at b 13 6)) bk else bk))
    (fh_itch_parse_order_cancel_msg hooks b len st)"
  using assms unfolding fh_itch_parse_order_cancel_msg_def FH_ITCH_MSG_ORDER_CANCEL_SIZE_def
  by (auto intro!: handler_step wp_deliver [of n m] wp_order_reduce [of n m] step_to_refl)
    (auto intro!: step_toI simp: num_at_def price_at_def itch_entry_def msg_step_def same_line_def book_off book_reduce_def)

lemma order_delete_handled:
  assumes "tables_ok n m st" and "nat len \<le> length b"
  shows "succeeds (step_to n m st (\<lambda>se bk. if len = 13 then bk(ord_no_key (num_at b 1 12) := None) else bk))
    (fh_itch_parse_order_delete_msg hooks b len st)"
  using assms unfolding fh_itch_parse_order_delete_msg_def FH_ITCH_MSG_ORDER_DELETE_SIZE_def
  by (auto intro!: handler_step wp_deliver [of n m] wp_order_remove [of n m] step_to_refl)
    (auto intro!: step_toI simp: num_at_def price_at_def itch_entry_def msg_step_def same_line_def book_off book_reduce_def)

lemma order_replace_handled:
  assumes "tables_ok n m st" and "nat len \<le> length b"
  shows "succeeds (step_to n m st (\<lambda>se bk. if len = 41 then book_replace m (num_at b 1 12) (num_at b 13 12) (ucast (num_at b 25 6)) (price_at b 31) bk else bk))
    (fh_itch_parse_order_replace_msg hooks b len st)"
  using assms unfolding fh_itch_parse_order_replace_msg_def FH_ITCH_MSG_ORDER_REPLACE_SIZE_def
  by (auto intro!: handler_step wp_deliver [of n m] wp_order_replace [of n m] step_to_refl)
    (auto intro!: step_toI simp: num_at_def price_at_def itch_entry_def msg_step_def same_line_def book_off book_reduce_def)

lemma trade_handled:
  assumes "tables_ok n m st" and "nat len \<le> length b"
  shows "succeeds (step_to n m st (\<lambda>se bk. bk))
    (fh_itch_parse_trade_msg hooks b len st)"
  using assms unfolding fh_itch_parse_trade_msg_def FH_ITCH_MSG_TRADE_SIZE_def
  by (auto intro!: handler_step wp_deliver [of n m] wp_symbol [of n m] step_to_refl)
    (auto intro!: step_toI simp: num_at_def price_at_def itch_entry_def msg_step_def same_line_def book_off book_reduce_def)

lemma trade_cross_handled:
  assumes "tables_ok n m st" and "nat len \<le> length b"
  shows "succeeds (step_to n m st (\<lambda>se bk. bk))
    (fh_itch_parse_trade_cross_msg hooks b len st)"
  using assms unfolding fh_itch_parse_trade_cross_msg_def FH_ITCH_MSG_TRADE_CROSS_SIZE_def
  by (auto intro!: handler_step wp_deliver [of n m] wp_symbol [of n m] step_to_refl)
    (auto intro!: step_toI simp: num_at_def price_at_def itch_entry_def msg_step_def same_line_def book_off book_reduce_def)

lemma trade_broken_handled:
  assumes "tables_ok n m st" and "nat len \<le> length b"
  shows "succeeds (step_to n m st (\<lambda>se bk. bk))
    (fh_itch_parse_trade_broken_msg hooks b len st)"
  using assms unfolding fh_itch_parse_trade_broken_msg_def FH_ITCH_MSG_TRADE_BROKEN_SIZE_def
  by (auto intro!: handler_step wp_deliver [of n m] wp_symbol [of n m] step_to_refl)
    (auto intro!: step_toI simp: num_at_def price_at_def itch_entry_def msg_step_def same_line_def book_off book_reduce_def)

lemma noii_handled:
  assumes "tables_ok n m st" and "nat len \<le> length b"
  shows "succeeds (step_to n m st (\<lambda>se bk. bk))
    (fh_itch_parse_noii_msg hooks b len st)"
  using assms unfolding fh_itch_parse_noii_msg_def FH_ITCH_MSG_NOII_SIZE_def
  by (auto intro!: handler_step wp_deliver [of n m] wp_symbol [of n m] step_to_refl)
    (auto intro!: step_toI simp: num_at_def price_at_def itch_entry_def msg_step_def same_line_def book_off book_reduce_def)

subsection \<open>Numeric fields\<close>

text \<open>
  The fields of the wire format: a price is a number of six digits, right justified and padded with spaces, and
  four decimals.
\<close>

definition frac_digs :: "nat \<Rightarrow> nat list" where
  "frac_digs frac = replicate (4 - length (dec_digits frac)) 0 @ dec_digits frac"

definition price_field :: "nat \<Rightarrow> nat \<Rightarrow> u8 list" where
  "price_field whole frac = num_field 6 whole @ map digit_char (frac_digs frac)"

lemma atoi_digits:
  assumes "\<forall>d\<in>set ds. d < 10"
  shows "atoi_loop (p @ map digit_char ds @ rest) (length p + length ds) ex r =
    atoi_loop (p @ map digit_char ds @ rest) (length p) (ex * 10 ^ length ds) (r + ex * of_nat (digits_val ds))"
  using assms
proof (induction ds arbitrary: rest ex r rule: rev_induct)
  case (snoc d ds)
  then have "d < 10" by simp
  have "rd (p @ map digit_char (ds @ [d]) @ rest) (length p + length ds) = Some (digit_char d)"
    by (simp add: rd_def nth_append)
  then show ?case
    using snoc.IH [of "digit_char d # rest" "ex * 10"] snoc.prems digit_char_space [OF \<open>d < 10\<close>]
      digit_char_diff [OF \<open>d < 10\<close>, where 'a = 64]
    by (simp add: algebra_simps)
qed simp

lemma atoi_stop: "p = [] \<or> last p = 32 \<Longrightarrow> atoi_loop (p @ rest) (length p) ex r = Some r"
  by (cases p rule: rev_cases) (auto simp: rd_def nth_append)

lemma atoi_num_field:
  assumes "length (dec_digits n) \<le> w"
  shows "fh_itch_parse_atoi (pre @ num_field w n @ rest) (length pre) w = Some (word_of_nat n)"
proof -
  let ?p = "replicate (w - length (dec_digits n)) (32 :: u8)"
  have "?p = [] \<or> last ?p = 32" by (cases "w - length (dec_digits n)") simp_all
  then show ?thesis
    using assms atoi_digits [of "dec_digits n" ?p rest 1 0] dec_digits_lt
      atoi_stop [of ?p "map digit_char (dec_digits n) @ rest" "10 ^ length (dec_digits n)" "word_of_nat n"]
    by (simp add: fh_itch_parse_atoi_def num_field_def)
qed

lemma whole_digits:
  assumes "\<forall>d\<in>set ds. d < 10" and "unat ex * 10 ^ length ds \<le> 10 ^ 9"
  shows "price_whole (p @ map digit_char ds @ rest) (length p + length ds) ex r =
    price_whole (p @ map digit_char ds @ rest) (length p) (ex * 10 ^ length ds) (r + of_nat (unat ex * digits_val ds))"
  using assms
proof (induction ds arbitrary: rest ex r rule: rev_induct)
  case (snoc d ds)
  then have "d < 10" by simp
  have e: "unat ex * 10 \<le> 10 ^ 9"
    using snoc.prems(2) by (rule order_trans [rotated]) simp
  then have ex10: "unat (ex * 10) = unat ex * 10" by (simp add: unat_word_ariths)
  have "unat (word_of_nat d * ex) = d * unat ex"
    using \<open>d < 10\<close> e mult_le_mono [of d 9 "unat ex" "10 ^ 8"]
    by (simp add: unat_word_ariths unat_of_nat)
  then have prod: "(ucast ((word_of_nat d :: u32) * ex) :: u64) = of_nat (d * unat ex)"
    by (metis of_nat_unat)
  have "rd (p @ map digit_char (ds @ [d]) @ rest) (length p + length ds) = Some (digit_char d)"
    by (simp add: rd_def nth_append)
  then show ?case
    using snoc.IH [of "ex * 10" "digit_char d # rest"] snoc.prems digit_char_space [OF \<open>d < 10\<close>] ex10 prod
      digit_char_diff [OF \<open>d < 10\<close>, where 'a = 32]
    by (simp add: algebra_simps)
qed simp

lemma whole_stop: "p = [] \<or> last p = 32 \<Longrightarrow> price_whole (p @ rest) (length p) ex r = Some r"
  by (cases p rule: rev_cases) (auto simp: rd_def nth_append)

lemma frac_step:
  assumes "rd b i = Some (digit_char d)" and "d < 10" and "unat ex \<le> 1000" and "0 < k"
  shows "price_frac b k i ex r = price_frac b (k - 1) (i + 1) (ex div 10) (r + of_nat (unat ex * d))"
proof -
  have "d * unat ex \<le> 9 * 1000" using assms by (intro mult_le_mono) auto
  then have "unat ((word_of_nat d :: u32) * ex) = unat ex * d"
    using assms(2) by (simp add: unat_word_ariths unat_of_nat mult.commute)
  then have "(ucast ((word_of_nat d :: u32) * ex) :: u64) = of_nat (unat ex * d)" by (metis of_nat_unat)
  then show ?thesis
    using assms(1,4) digit_char_space [OF assms(2)] digit_char_diff [OF assms(2), where 'a = 32]
    by (cases k) simp_all
qed

lemma frac_digits:
  assumes "length fs = 4" and "\<forall>x\<in>set fs. x < 10" and "length p = 6"
  shows "price_frac (p @ map digit_char fs @ rest) 4 6 1000 0 = Some (of_nat (digits_val fs))"
proof -
  let ?b = "p @ map digit_char fs @ rest"
  obtain a b c d where fs: "fs = [a, b, c, d]"
    using assms(1) by (auto simp: numeral_eq_Suc length_Suc_conv)
  then have d: "a < 10" "b < 10" "c < 10" "d < 10" using assms(2) by auto
  have n: "rd ?b (6 + i) = rd (map digit_char fs @ rest) i" for i
    using assms(3) by (simp add: rd_def nth_append)
  have r: "rd ?b 6 = Some (digit_char a)" "rd ?b 7 = Some (digit_char b)" "rd ?b 8 = Some (digit_char c)"
    "rd ?b 9 = Some (digit_char d)"
    using n [of 0] n [of 1] n [of 2] n [of 3] by (simp_all add: rd_def fs)
  note [simp del] = price_frac.simps
  have "price_frac ?b 4 6 1000 0 = price_frac ?b 3 7 100 (of_nat (1000 * a))"
    using frac_step [OF r(1) d(1), of 1000 4 0] by simp
  also have "\<dots> = price_frac ?b 2 8 10 (of_nat (1000 * a + 100 * b))"
    using frac_step [OF r(2) d(2), of 100 3 "of_nat (1000 * a)"] by simp
  also have "\<dots> = price_frac ?b 1 9 1 (of_nat (1000 * a + 100 * b + 10 * c))"
    using frac_step [OF r(3) d(3), of 10 2 "of_nat (1000 * a + 100 * b)"] by simp
  also have "\<dots> = price_frac ?b 0 10 0 (of_nat (1000 * a + 100 * b + 10 * c + d))"
    using frac_step [OF r(4) d(4), of 1 1 "of_nat (1000 * a + 100 * b + 10 * c)"] by simp
  also have "\<dots> = Some (of_nat (digits_val fs))"
    by (simp add: price_frac.simps fs digits_val_def algebra_simps)
  finally show ?thesis .
qed

lemma frac_digs_props:
  assumes "frac < 10000"
  shows "length (frac_digs frac) = 4" "\<forall>x\<in>set (frac_digs frac). x < 10" "digits_val (frac_digs frac) = frac"
proof -
  have "length (dec_digits frac) \<le> 4" using dec_digits_length [of frac 3] assms by simp
  then show "length (frac_digs frac) = 4" by (simp add: frac_digs_def)
  show "\<forall>x\<in>set (frac_digs frac). x < 10" by (auto simp: frac_digs_def dest: dec_digits_lt)
  show "digits_val (frac_digs frac) = frac" by (simp add: frac_digs_def digits_val_zeros)
qed

lemma price_split:
  assumes "length p + length ds = 6" "\<forall>x\<in>set ds. x < 10" and "length ds \<le> 5" and "frac < 10000"
  shows "fh_itch_parse_price (pre @ p @ map digit_char ds @ map digit_char (frac_digs frac) @ rest) (length pre) =
    price_whole (p @ map digit_char ds @ map digit_char (frac_digs frac) @ rest)
      (length p) (10000 * 10 ^ length ds) (of_nat (10000 * digits_val ds + frac))"
proof -
  let ?b = "p @ map digit_char ds @ map digit_char (frac_digs frac) @ rest"
  have f: "price_frac ?b 4 6 1000 0 = Some (of_nat frac)"
    using frac_digits [of "frac_digs frac" "p @ map digit_char ds" rest] frac_digs_props [OF assms(4)] assms(1) by simp
  have "(10::nat) ^ length ds \<le> 10 ^ 5" using assms(3) by (intro power_increasing) auto
  then have "price_whole ?b 6 10000 (of_nat frac) =
    price_whole ?b (length p) (10000 * 10 ^ length ds) (of_nat frac + of_nat (10000 * digits_val ds))"
    using whole_digits [of ds 10000 p "map digit_char (frac_digs frac) @ rest" "of_nat frac"] assms(1,2) by simp
  moreover have "drop (length pre) (pre @ ?b) = ?b" by simp
  ultimately show ?thesis unfolding fh_itch_parse_price_def using f by (simp add: add.commute del: append_assoc map_append)
qed

lemma price_small:
  assumes "whole < 100000" and "frac < 10000"
  shows "fh_itch_parse_price (pre @ price_field whole frac @ rest) (length pre) = Some (of_nat (10000 * whole + frac))"
proof -
  let ?ds = "dec_digits whole" and ?p = "replicate (6 - length (dec_digits whole)) (32 :: u8)"
  have l: "length ?ds \<le> 5" using dec_digits_length [of whole 4] assms by simp
  then have "?p = [] \<or> last ?p = 32" by (cases "6 - length ?ds") simp_all
  then show ?thesis
    using price_split [of ?p ?ds frac pre rest] l assms(2) dec_digits_lt whole_stop [of ?p]
    by (simp add: price_field_def num_field_def)
qed

lemma price_top:
  assumes "rd b 0 = Some (digit_char d)" and "d < 10"
  shows "price_whole b 1 ex r = Some (r + of_nat (d * unat ex mod 2 ^ 32))"
proof -
  have "unat ((word_of_nat d :: u32) * ex) = d * unat ex mod 2 ^ 32"
    using assms(2) by (simp add: unat_word_ariths unat_of_nat)
  then have "(ucast ((word_of_nat d :: u32) * ex) :: u64) = of_nat (d * unat ex mod 2 ^ 32)" by (metis of_nat_unat)
  then show ?thesis
    using assms(1) digit_char_space [OF assms(2)] digit_char_diff [OF assms(2), where 'a = 32] by simp
qed

text \<open>
  The value of a price field.  The product of the leading digit of a six-digit whole part is taken
  in 32 bits.
\<close>

definition price_value :: "nat \<Rightarrow> nat \<Rightarrow> nat" where
  "price_value whole frac = 10000 * (whole mod 10 ^ 5) + frac + (whole div 10 ^ 5) * 10 ^ 9 mod 2 ^ 32"

lemma price_large:
  assumes "whole = d * 10 ^ 5 + m" and "m < 10 ^ 5" and "d < 10" and "frac < 10000"
    and "dec_digits whole = d # ds" and "length ds = 5" and "\<forall>x\<in>set ds. x < 10" and "digits_val ds = m"
  shows "fh_itch_parse_price (pre @ price_field whole frac @ rest) (length pre) = Some (of_nat (price_value whole frac))"
proof -
  have "whole mod 10 ^ 5 = m" "whole div 10 ^ 5 = d" using assms(1,2) by simp_all
  then have pv: "price_value whole frac = 10000 * m + frac + d * 10 ^ 9 mod 2 ^ 32"
    unfolding price_value_def by simp
  let ?b = "digit_char d # map digit_char ds @ map digit_char (frac_digs frac) @ rest"
  have "fh_itch_parse_price (pre @ ?b) (length pre) = price_whole ?b 1 (10 ^ 9) (of_nat (10000 * m + frac))"
    using price_split [of "[digit_char d]" ds frac pre rest] assms(4,6,7,8) by simp
  also have "\<dots> = Some (of_nat (10000 * m + frac) + of_nat (d * unat (10 ^ 9 :: u32) mod 2 ^ 32))"
    by (rule price_top) (use assms(3) in \<open>simp_all add: rd_def\<close>)
  also have "unat (10 ^ 9 :: u32) = 10 ^ 9" by simp
  finally show ?thesis
    unfolding pv using assms(5,6) by (simp only: price_field_def num_field_def) simp
qed

lemma price_field_value:
  assumes "whole < 10 ^ 6" and "frac < 10000"
  shows "fh_itch_parse_price (pre @ price_field whole frac @ rest) (length pre) = Some (of_nat (price_value whole frac))"
proof (cases "whole < 10 ^ 5")
  case True
  then have "price_value whole frac = 10000 * whole + frac" by (simp add: price_value_def)
  then show ?thesis using price_small True assms(2) by simp
next
  case False
  then have "10 ^ 5 \<le> whole" "whole < 10 ^ Suc 5" using assms(1) by simp_all
  then show ?thesis
  proof (rule dec_digits_Cons)
    fix d ds assume "dec_digits whole = d # ds" "length ds = 5" "\<forall>x\<in>set ds. x < 10" "d < 10"
      "whole = d * 10 ^ 5 + digits_val ds" "digits_val ds < 10 ^ 5"
    then show ?thesis using price_large [OF _ _ _ assms(2)] by blast
  qed
qed

lemma price_value_exact:
  assumes "whole < 10 ^ 6" and "frac < 10000"
  shows "price_value whole frac < 2 ^ 64"
    and "price_value whole frac = 10000 * whole + frac \<longleftrightarrow> whole < 500000"
proof -
  define d where "d = whole div 10 ^ 5"
  define m where "m = whole mod 10 ^ 5"
  have w: "whole = d * 10 ^ 5 + m" and m: "m < 10 ^ 5"
    unfolding d_def m_def by (simp_all only: div_mult_mod_eq) simp
  have pv: "price_value whole frac = 10000 * m + frac + d * 10 ^ 9 mod 2 ^ 32"
    unfolding price_value_def d_def m_def ..
  have "d * 10 ^ 9 mod 2 ^ 32 < 2 ^ 32" by simp
  then show "price_value whole frac < 2 ^ 64" using m assms(2) pv by simp
  have "d * 10 ^ 9 mod 2 ^ 32 = d * 10 ^ 9 \<longleftrightarrow> d < 5"
  proof
    assume "d * 10 ^ 9 mod 2 ^ 32 = d * 10 ^ 9"
    then have "d * 10 ^ 9 < 2 ^ 32" by (metis mod_less_divisor zero_less_numeral zero_less_power)
    then show "d < 5" by simp
  qed simp
  moreover have "d < 5 \<longleftrightarrow> whole < 500000" using w m by auto
  moreover have "10000 * whole + frac = 10000 * m + frac + d * 10 ^ 9" using w by simp
  ultimately show "price_value whole frac = 10000 * whole + frac \<longleftrightarrow> whole < 500000"
    unfolding pv by (simp only: add_left_cancel)
qed

subsection \<open>Properties\<close>

lemma u64_of_nat_inj: "a < 2 ^ 64 \<Longrightarrow> b < 2 ^ 64 \<Longrightarrow> (word_of_nat a :: u64) = word_of_nat b \<longleftrightarrow> a = b"
  by (simp add: word_of_nat_eq_iff take_bit_nat_eq_self)

text \<open>Number fields: a number of at most \<open>w\<close> digits, right justified in a field of \<open>w\<close> characters
  and padded with spaces, is read back by \<^verbatim>\<open>fh_itch_parse_atoi\<close> wherever the field stands in the
  buffer.\<close>

lemma itch_atoi_roundtrip:
  assumes "n < 10 ^ w" and "0 < w"
  shows "fh_itch_parse_atoi (pre @ num_field w n @ rest) (length pre) w = Some (word_of_nat n)"
  using assms dec_digits_length [of n "w - 1"] by (intro atoi_num_field) simp

text \<open>Price fields: six digits of whole part, padded with spaces, and four decimals are read as
  the price in ten-thousandths exactly when the whole part is below 500000; from there on the
  32-bit product of the leading digit loses a multiple of \<open>2 ^ 32\<close>.\<close>

lemma itch_price_roundtrip:
  assumes "whole < 10 ^ 6" and "frac < 10000"
  shows "fh_itch_parse_price (pre @ price_field whole frac @ rest) (length pre) =
      Some (word_of_nat (price_value whole frac)) \<and>
    (fh_itch_parse_price (pre @ price_field whole frac @ rest) (length pre) =
      Some (word_of_nat (10000 * whole + frac)) \<longleftrightarrow> whole < 500000)"
proof -
  have "10000 * whole + frac < 2 ^ 64" using assms by simp
  then have "(word_of_nat (price_value whole frac) :: u64) = word_of_nat (10000 * whole + frac) \<longleftrightarrow>
      price_value whole frac = 10000 * whole + frac"
    using price_value_exact(1) [OF assms] by (rule u64_of_nat_inj [rotated])
  then show ?thesis using price_value_exact(2) [OF assms] price_field_value [OF assms] by simp
qed

definition order_add_wire :: "nat \<Rightarrow> u8 \<Rightarrow> nat \<Rightarrow> u8 list \<Rightarrow> nat \<Rightarrow> nat \<Rightarrow> u8 list" where
  "order_add_wire no bs shares stock whole frac =
     [65] @ num_field 12 no @ [bs] @ num_field 6 shares @ stock @ price_field whole frac"


text \<open>A line without lookup tables or hooks, and a list of two gap nodes at most.\<close>

definition ex_hooks :: "(itch_hook, itch_msg, unit) lh_hooks" where
  "ex_hooks = \<lparr>hook_alert = None, hook_msg_send = None, hook_msg = \<lambda>_. None\<rparr>"

definition ex_stats :: fh_info_stats where
  "ex_stats = \<lparr>st_packets = 0, st_messages = 0, st_bytes = 0, st_packet_errors = 0, st_message_errors = 0,
     st_duplicate_packets = 0, st_gaps = 0, st_lost_messages = 0, st_recovered_messages = 0\<rparr>"

definition ex_line :: "unit itch_state" where
  "ex_line = \<lparr>lh_gaplist = Some ex_gaps0, lh_gapnode = None, lh_inorder = True, lh_next_seq_no = 1, lh_timestamp = 0,
     lh_stats = ex_stats, lh_sym_enabled = False, lh_ord_enabled = False,
     lh_symbol_table = ex_symbols, lh_order_table = ex_orders, lh_trace = []\<rparr>"


end
