(* ===== verification/Itch.thy ===== *)
theory Itch
  imports ItchMsg
begin

section \<open>ITCH packets (\<^verbatim>\<open>feeds/itch/multicast/common/fh_itch_parse.c\<close>)\<close>

text \<open>
  The duplicate filter over the line's next expected sequence number and the gap list, the parser
  of one message, the loop over the messages of a MoldUDP64 packet, and initialisation.  The gap
  list, the node the filter found in it and the in-order flag are static variables of the file and
  belong to the line state here; \<^verbatim>\<open>time(NULL)\<close> is the argument \<open>now\<close>.
\<close>

subsection \<open>The duplicate filter\<close>

text \<open>
  A number above the next expected one: the gap is counted and pushed on the gap list.  The status
  of the push is what a loss is told from, but an alert hook overwrites it first.  Without a gap
  list the whole gap is lost.
\<close>

definition itch_open_gap ::
  "'d itch_hooks \<Rightarrow> int \<Rightarrow> u64 \<Rightarrow> 'd itch_state \<Rightarrow> 'd itch_state option" where
  "itch_open_gap hooks now seq_no st =
    do {
      let st = upd_stats (\<lambda>s. s\<lparr>st_gaps := st_gaps s + 1\<rparr>) st;
      let gap_size = sint (ucast (seq_no - lh_next_seq_no st) :: u32);
      case lh_gaplist st of
        Some l \<Rightarrow> do {
          (l, rc) \<leftarrow> fh_shr_gap_fill_push now l (lh_next_seq_no st) (word_of_int gap_size);
          let st = st\<lparr>lh_gaplist := Some l\<rparr>;
          if rc < 0 then
            let st = upd_stats (\<lambda>s. s\<lparr>st_lost_messages := st_lost_messages s + word_of_int gap_size\<rparr>) st
            in Some (fst (lh_alert hooks FH_ALERT_LOSS st rc))
          else
            let (st, rc) = lh_alert hooks FH_ALERT_GAP st rc
            in if rc > 0 then
                 let st = upd_stats (\<lambda>s. s\<lparr>st_lost_messages := st_lost_messages s + word_of_int rc\<rparr>) st
                 in Some (fst (lh_alert hooks FH_ALERT_LOSS st rc))
               else Some st
        }
      | None \<Rightarrow>
          let st = upd_stats (\<lambda>s. s\<lparr>st_lost_messages := st_lost_messages s + word_of_int gap_size\<rparr>) st
          in Some (fst (lh_alert hooks FH_ALERT_LOSS st 0))
    }"

definition fh_itch_is_duplicate ::
  "'d itch_hooks \<Rightarrow> int \<Rightarrow> u64 \<Rightarrow> 'd itch_state \<Rightarrow> ('d itch_state \<times> int) option" where
  "fh_itch_is_duplicate hooks now seq_no st =
    (if seq_no = lh_next_seq_no st then Some (st, 1)
     else if seq_no < lh_next_seq_no st then do {
       l \<leftarrow> lh_gaplist st;
       p \<leftarrow> fh_shr_gap_fill_find l seq_no;
       Some (st\<lparr>lh_gapnode := p\<rparr>, if p \<noteq> None then -1 else 0)
     }
     else do {
       st \<leftarrow> itch_open_gap hooks now seq_no st;
       Some (st\<lparr>lh_next_seq_no := seq_no\<rparr>, 1)
     })"

subsection \<open>One message\<close>

text \<open>
  The \<^verbatim>\<open>switch\<close> on the type byte: a time stamp, a handler, or an unknown type.  A time stamp
  message has no data.
\<close>

definition itch_dispatch ::
  "'d itch_hooks \<Rightarrow> u8 \<Rightarrow> u8 list \<Rightarrow> int \<Rightarrow> 'd itch_state \<Rightarrow> (itch_msg, 'd) handler_result" where
  "itch_dispatch hooks ty b len st =
    (if ty = 84 then do {                                          \<comment> \<open>\<open>T\<close>\<close>
       v \<leftarrow> fh_itch_parse_atoi b 1 5;
       Some (st\<lparr>lh_timestamp := v * 1000\<rparr>, FH_OK, None)
     }
     else if ty = 77 then do {                                     \<comment> \<open>\<open>M\<close>\<close>
       v \<leftarrow> fh_itch_parse_atoi b 1 3;
       Some (st\<lparr>lh_timestamp := lh_timestamp st - lh_timestamp st mod 1000 + v\<rparr>, FH_OK, None)
     }
     else if ty = 83 then fh_itch_parse_sys_msg hooks b len st                \<comment> \<open>\<open>S\<close>\<close>
     else if ty = 82 then fh_itch_parse_stock_dir_msg hooks b len st          \<comment> \<open>\<open>R\<close>\<close>
     else if ty = 72 then fh_itch_parse_stock_trade_act_msg hooks b len st    \<comment> \<open>\<open>H\<close>\<close>
     else if ty = 76 then fh_itch_parse_market_part_pos_msg hooks b len st    \<comment> \<open>\<open>L\<close>\<close>
     else if ty = 65 then fh_itch_parse_order_add_msg hooks b len st          \<comment> \<open>\<open>A\<close>\<close>
     else if ty = 70 then fh_itch_parse_order_add_attr_msg hooks b len st     \<comment> \<open>\<open>F\<close>\<close>
     else if ty = 69 then fh_itch_parse_order_exe_msg hooks b len st          \<comment> \<open>\<open>E\<close>\<close>
     else if ty = 67 then fh_itch_parse_order_exe_price_msg hooks b len st    \<comment> \<open>\<open>C\<close>\<close>
     else if ty = 88 then fh_itch_parse_order_cancel_msg hooks b len st       \<comment> \<open>\<open>X\<close>\<close>
     else if ty = 68 then fh_itch_parse_order_delete_msg hooks b len st       \<comment> \<open>\<open>D\<close>\<close>
     else if ty = 85 then fh_itch_parse_order_replace_msg hooks b len st      \<comment> \<open>\<open>U\<close>\<close>
     else if ty = 80 then fh_itch_parse_trade_msg hooks b len st              \<comment> \<open>\<open>P\<close>\<close>
     else if ty = 81 then fh_itch_parse_trade_cross_msg hooks b len st        \<comment> \<open>\<open>Q\<close>\<close>
     else if ty = 66 then fh_itch_parse_trade_broken_msg hooks b len st       \<comment> \<open>\<open>B\<close>\<close>
     else if ty = 73 then fh_itch_parse_noii_msg hooks b len st               \<comment> \<open>\<open>I\<close>\<close>
     else Some (upd_stats (\<lambda>s. s\<lparr>st_message_errors := st_message_errors s + 1\<rparr>) st, FH_ERROR, None))"

text \<open>
  After a message was processed: the next expected number moves on, or the number is taken out of
  the gap it filled.
\<close>

definition itch_account ::
  "'d itch_hooks \<Rightarrow> int \<Rightarrow> u64 \<Rightarrow> 'd itch_state \<Rightarrow> 'd itch_state option" where
  "itch_account hooks dup seq_no st =
    (if dup > 0 then Some (st\<lparr>lh_next_seq_no := lh_next_seq_no st + 1\<rparr>)
     else if dup < 0 \<and> lh_gapnode st \<noteq> None then do {
       c \<leftarrow> lh_gapnode st;
       l \<leftarrow> lh_gaplist st;
       (l, p, rc) \<leftarrow> fh_shr_gap_fill_del l c seq_no;
       let st = st\<lparr>lh_gaplist := Some l, lh_gapnode := p\<rparr>;
       let st = (if rc \<ge> 0 then upd_stats (\<lambda>s. s\<lparr>st_recovered_messages := st_recovered_messages s + 1\<rparr>) st
                 else st);
       let (st, rc) =
         (if rc > 0 then
            lh_alert hooks FH_ALERT_LOSS
              (upd_stats (\<lambda>s. s\<lparr>st_lost_messages := st_lost_messages s + word_of_int rc\<rparr>) st) rc
          else (st, rc));
       if p = None \<and> gl_count l \<le> 0 then Some (fst (lh_alert hooks FH_ALERT_NOGAP st rc))
       else Some st
     }
     else Some st)"

text \<open>
  One message block: two bytes of length and the message.  The result is the number of bytes used,
  or \<open>-1\<close>.
\<close>

definition fh_itch_parse_msg ::
  "'d itch_hooks \<Rightarrow> int \<Rightarrow> u64 \<Rightarrow> u8 list \<Rightarrow> int \<Rightarrow> 'd itch_state \<Rightarrow> ('d itch_state \<times> int) option" where
  "fh_itch_parse_msg hooks now seq_no b len st =
    (let err = upd_stats (\<lambda>s. s\<lparr>st_message_errors := st_message_errors s + 1\<rparr>) in
     if len < 2 then Some (err st, -1)
     else do {
       w \<leftarrow> ld16 b 0;
       let msg_length = uint (ntoh16 w);
       let b = drop 2 b;
       if len - 2 < msg_length then Some (err st, -1)
       else if msg_length < 1 then Some (err st, -1)
       else do {
         (st, dup) \<leftarrow> fh_itch_is_duplicate hooks now seq_no st;
         if dup = 0 then
           Some (upd_stats (\<lambda>s. s\<lparr>st_duplicate_packets := st_duplicate_packets s + 1\<rparr>) st, msg_length + 2)
         else do {
           ty \<leftarrow> rd b 0;
           (st, rc, data) \<leftarrow> itch_dispatch hooks ty b msg_length st;
           if rc \<noteq> FH_OK then Some (st, -1)
           else do {
             st \<leftarrow> itch_account hooks dup seq_no st;
             let (st, rc) = (if ty \<noteq> 84 \<and> ty \<noteq> 77 then lh_send hooks data st else (st, FH_OK));
             if rc \<noteq> FH_OK then Some (st, -1) else Some (st, msg_length + 2)
           }
         }
       }
     })"

subsection \<open>One packet\<close>

text \<open>The loop over the messages of a packet, \<open>k\<close> of them still to come.\<close>

fun itch_pkt_loop ::
  "'d itch_hooks \<Rightarrow> int \<Rightarrow> nat \<Rightarrow> u64 \<Rightarrow> u8 list \<Rightarrow> int \<Rightarrow> 'd itch_state \<Rightarrow> ('d itch_state \<times> fh_status) option" where
  "itch_pkt_loop hooks now 0 seq_no b len st = Some (st, FH_OK)"
| "itch_pkt_loop hooks now (Suc k) seq_no b len st =
     do {
       (st, used) \<leftarrow> fh_itch_parse_msg hooks now seq_no b len st;
       if used < 0 then Some (st, FH_ERROR)
       else itch_pkt_loop hooks now k (seq_no + 1) (drop (nat used) b) (len - used)
              (upd_stats (\<lambda>s. s\<lparr>st_messages := st_messages s + 1\<rparr>) st)
     }"

definition FH_ITCH_MOLDUDP64_SIZE :: int where "FH_ITCH_MOLDUDP64_SIZE = 20"

text \<open>
  The header of a packet and what is done for it: a heartbeat, the end of a session, or the loop
  over its messages, after which the in-order flag follows the gap count.
\<close>

definition itch_pkt_body ::
  "'d itch_hooks \<Rightarrow> int \<Rightarrow> u8 list \<Rightarrow> int \<Rightarrow> 'd itch_state \<Rightarrow> ('d itch_state \<times> fh_status) option" where
  "itch_pkt_body hooks now b len st =
    (if len < FH_ITCH_MOLDUDP64_SIZE then
       Some (upd_stats (\<lambda>s. s\<lparr>st_packet_errors := st_packet_errors s + 1\<rparr>) st, FH_ERROR)
     else do {
       hdr \<leftarrow> fh_itch_moldudp64_extract b;
       if md_msg_count hdr = 0 then
         Some (if md_seq_no hdr > lh_next_seq_no st then st\<lparr>lh_next_seq_no := md_seq_no hdr\<rparr> else st, FH_OK)
       else if md_msg_count hdr = 0xffff then Some (st\<lparr>lh_next_seq_no := 1\<rparr>, FH_OK)
       else do {
         (st, rc) \<leftarrow> itch_pkt_loop hooks now (unat (md_msg_count hdr)) (md_seq_no hdr) (drop 20 b) (len - 20) st;
         if rc \<noteq> FH_OK then Some (st, rc)
         else do {
           l \<leftarrow> lh_gaplist st;
           let st = (if lh_inorder st then
                       if gl_count l > 0 then st\<lparr>lh_inorder := False\<rparr> else st
                     else if gl_count l = 0 then st\<lparr>lh_inorder := True\<rparr> else st);
           Some (st, FH_OK)
         }
       }
     })"

text \<open>The in-order flag is looked at before the packet, too; without a gap list the read is a fault.\<close>

definition fh_itch_parse_pkt ::
  "'d itch_hooks \<Rightarrow> int \<Rightarrow> u8 list \<Rightarrow> int \<Rightarrow> 'd itch_state \<Rightarrow> ('d itch_state \<times> fh_status) option" where
  "fh_itch_parse_pkt hooks now b len st =
    do {
      st \<leftarrow> lh_expire hooks now st;
      st \<leftarrow> (if \<not> lh_inorder st then do {
               l \<leftarrow> lh_gaplist st;
               Some (if gl_count l = 0 then st\<lparr>lh_inorder := True\<rparr> else st)
             }
             else Some st);
      itch_pkt_body hooks now b len (upd_stats (\<lambda>s. s\<lparr>st_bytes := st_bytes s + word_of_int len\<rparr>) st)
    }"

text \<open>
  Initialisation: the hooks the plugins registered are the argument \<open>hooks\<close> of every function
  above; the gap list is created when one is configured (the sizes are \<^verbatim>\<open>int\<close>s of the
  configuration).
\<close>

definition fh_itch_parse_init ::
  "bool \<Rightarrow> bool \<Rightarrow> bool \<Rightarrow> ptr \<Rightarrow> int \<Rightarrow> int \<Rightarrow> 'd itch_state \<Rightarrow> 'd itch_state \<times> fh_status" where
  "fh_itch_parse_init list_ok mp_ok name_ok arena gap_list_max gap_timeout st =
    (if gap_list_max > 0 then
       (st\<lparr>lh_gaplist := fh_shr_gap_fill_new list_ok mp_ok name_ok arena (word_of_int gap_list_max)
                             (word_of_int gap_timeout)\<rparr>, FH_OK)
     else (st, FH_OK))"

subsection \<open>The handlers behind the dispatch\<close>

lemma dispatch_ok:
  assumes "tables_ok n m st" and "nat len \<le> length b" and "6 \<le> length b"
  shows "succeeds (step_to n m st (itch_book_msg m ty b len)) (itch_dispatch hooks ty b len st)"
proof -
  note h = sys_handled stock_dir_handled stock_trade_act_handled market_part_pos_handled order_add_handled
    order_add_attr_handled order_exe_handled order_exe_price_handled order_cancel_handled order_delete_handled
    order_replace_handled trade_handled trade_cross_handled trade_broken_handled noii_handled
  have t: "step_to n m st f (st\<lparr>lh_timestamp := v\<rparr>, rc, d)" if "\<And>se bk. f se bk = bk" for f v rc d
    using that assms(1) by (intro step_toI [where se = None]) (auto simp: same_line_def tables_ok_def book_def)
  have e: "step_to n m st f (upd_stats g st, rc, d)" if "\<And>se bk. f se bk = bk" for f g rc d
    using that assms(1) by (intro step_toI [where se = None]) (auto simp: same_line_def tables_ok_def book_def)
  show ?thesis
    using assms(3) unfolding itch_dispatch_def
    by (auto intro!: wp_atoi wp_return t e simp: itch_book_msg_def) 
      (rule step_to_cong [rotated], rule h [OF assms(1,2)], simp add: itch_book_msg_def)+
qed

subsection \<open>The filter and the accounting\<close>

text \<open>A number above the next expected one opens a gap, whatever the alert hook returns.\<close>

lemma open_gap_frame:
  assumes "lh_gaplist st = Some l" and "fh_shr_gap_fill_push now l (lh_next_seq_no st)
      (word_of_int (sint (ucast (seq_no - lh_next_seq_no st) :: u32))) = Some (l', rc)"
  shows "\<exists>st'. itch_open_gap hooks now seq_no st = Some st' \<and> lh_gaplist st' = Some l' \<and>
    (\<forall>n m. tables_ok n m st' = tables_ok n m st) \<and> book st' = book st \<and> lh_ord_enabled st' = lh_ord_enabled st"
  using assms
  by (cases "hook_alert hooks") (simp_all add: itch_open_gap_def Let_def lh_alert_def tables_ok_def book_def)

lemma push_gap_ok:
  assumes ok: "line_ok n m st" and q: "lh_next_seq_no st < seq_no"
    and near: "unat seq_no < unat (lh_next_seq_no st) + 2 ^ 32"
  shows "\<exists>st'. fh_itch_is_duplicate hooks now seq_no st = Some (st', 1) \<and> line_ok n m st' \<and> book st' = book st \<and>
    lh_next_seq_no st' = seq_no \<and> lh_ord_enabled st' = lh_ord_enabled st \<and>
    {unat (lh_next_seq_no st)..<unat seq_no} \<subseteq> line_gaps st' \<and>
    line_gaps st' \<subseteq> line_gaps st \<union> {unat (lh_next_seq_no st)..<unat seq_no}"
proof -
  obtain l where l: "lh_gaplist st = Some l" using ok by (auto simp: line_ok_def gaps_ok_def)
  show ?thesis
  proof (rule line_push [OF ok q near l, of now])
    fix l' rc assume p: "fh_shr_gap_fill_push now l (lh_next_seq_no st)
        (word_of_int (sint (ucast (seq_no - lh_next_seq_no st) :: u32))) = Some (l', rc)" "gap_inv l'"
      "missing l' \<subseteq> line_gaps st \<union> {unat (lh_next_seq_no st)..<unat seq_no}"
      "{unat (lh_next_seq_no st)..<unat seq_no} \<subseteq> missing l'" "\<forall>x\<in>missing l'. x < unat seq_no"
    obtain st1 where d: "itch_open_gap hooks now seq_no st = Some st1" "lh_gaplist st1 = Some l'"
      "tables_ok n m st1 = tables_ok n m st" "book st1 = book st" "lh_ord_enabled st1 = lh_ord_enabled st"
      using open_gap_frame [OF l p(1), of hooks] by blast
    have "fh_itch_is_duplicate hooks now seq_no st = Some (st1\<lparr>lh_next_seq_no := seq_no\<rparr>, 1)"
      using d(1) q by (auto simp: fh_itch_is_duplicate_def)
    then show ?thesis using d p(2-5) ok by (auto simp: line_ok_def gaps_ok_def line_gaps_def)
  qed
qed

text \<open>The three answers of the duplicate filter.\<close>

lemma is_duplicate_cases:
  assumes ok: "line_ok n m st" and near: "unat seq_no < unat (lh_next_seq_no st) + 2 ^ 32"
  obtains (dup) "unat seq_no \<notin> open_seqs st" "fh_itch_is_duplicate hooks now seq_no st = Some (st\<lparr>lh_gapnode := None\<rparr>, 0)"
  | (fill) l c where "unat seq_no \<in> line_gaps st" "lh_gaplist st = Some l" "fh_shr_gap_fill_find l seq_no = Some (Some c)"
      "fh_itch_is_duplicate hooks now seq_no st = Some (st\<lparr>lh_gapnode := Some c\<rparr>, -1)"
  | (fresh) st' where "unat (lh_next_seq_no st) \<le> unat seq_no"
      "fh_itch_is_duplicate hooks now seq_no st = Some (st', 1)" "line_ok n m st'" "book st' = book st"
      "lh_ord_enabled st' = lh_ord_enabled st" "lh_next_seq_no st' = seq_no"
      "line_gaps st' \<subseteq> line_gaps st \<union> {unat (lh_next_seq_no st)..<unat seq_no}"
      "{unat (lh_next_seq_no st)..<unat seq_no} \<subseteq> line_gaps st'"
proof -
  obtain l where l: "lh_gaplist st = Some l" "gap_inv l" "line_gaps st = missing l"
    using ok by (auto simp: line_ok_def gaps_ok_def line_gaps_def)
  show ?thesis
  proof (cases seq_no "lh_next_seq_no st" rule: linorder_cases)
    case less
    obtain p where p: "fh_shr_gap_fill_find l seq_no = Some p" "p = None \<longleftrightarrow> unat seq_no \<notin> missing l"
      using gl.look_law [OF l(2)] by blast
    have lt: "\<not> unat (lh_next_seq_no st) \<le> unat seq_no" using less by (simp add: word_less_nat_alt)
    have d: "fh_itch_is_duplicate hooks now seq_no st = Some (st\<lparr>lh_gapnode := p\<rparr>, if p \<noteq> None then -1 else 0)"
      using less less_imp_neq [OF less] l(1) p(1) by (simp add: fh_itch_is_duplicate_def)
    show ?thesis
    proof (cases p)
      case None
      show ?thesis by (rule dup) (use None d p lt l(3) in \<open>simp_all add: open_seqs_def\<close>)
    next
      case (Some c)
      show ?thesis by (rule fill [of l c]) (use Some d p l in simp_all)
    qed
  next
    case equal
    show ?thesis by (rule fresh [of st]) (use equal ok in \<open>simp_all add: fh_itch_is_duplicate_def\<close>)
  next
    case greater
    obtain st' where "fh_itch_is_duplicate hooks now seq_no st = Some (st', 1)" "line_ok n m st'" "book st' = book st"
      "lh_next_seq_no st' = seq_no" "lh_ord_enabled st' = lh_ord_enabled st"
      "{unat (lh_next_seq_no st)..<unat seq_no} \<subseteq> line_gaps st'"
      "line_gaps st' \<subseteq> line_gaps st \<union> {unat (lh_next_seq_no st)..<unat seq_no}"
      using push_gap_ok [OF ok greater near, of hooks now] by blast
    then show ?thesis by (intro fresh [of st']) (use greater in \<open>simp_all add: word_less_nat_alt\<close>)
  qed
qed

lemma account_fresh:
  assumes "line_ok n m st" and "lh_next_seq_no st = seq_no" and "unat seq_no < 2 ^ 64 - 1"
  shows "\<exists>st'. itch_account hooks 1 seq_no st = Some st' \<and> line_ok n m st' \<and> book st' = book st \<and>
    unat seq_no < unat (lh_next_seq_no st') \<and> lh_next_seq_no st \<le> lh_next_seq_no st' \<and>
    open_seqs st' \<subseteq> open_seqs st - {unat seq_no}"
proof -
  have s: "unat (seq_no + 1) = unat seq_no + 1" using assms(3) by (simp add: unat_word_ariths)
  obtain l where l: "lh_gaplist st = Some l" "gap_inv l" "\<forall>x\<in>missing l. x < unat seq_no"
    using assms by (auto simp: line_ok_def gaps_ok_def line_gaps_def)
  show ?thesis
    using assms l s
    by (auto simp: itch_account_def line_ok_def gaps_ok_def line_gaps_def open_seqs_def word_le_nat_alt dest: less_SucI)
qed

lemma account_frame:
  assumes "fh_shr_gap_fill_del l c seq_no = Some (l', p, rc)" and "lh_gaplist st = Some l" and "lh_gapnode st = Some c"
  shows "\<exists>st'. itch_account hooks (-1) seq_no st = Some st' \<and> lh_gaplist st' = Some l' \<and>
    lh_next_seq_no st' = lh_next_seq_no st \<and> (\<forall>n m. tables_ok n m st' = tables_ok n m st) \<and> book st' = book st"
  using assms
  by (cases "hook_alert hooks"; cases "0 < rc"; cases "0 \<le> rc")
    (simp_all add: itch_account_def Let_def lh_alert_def tables_ok_def book_def)

lemma account_fill:
  assumes ok: "line_ok n m st" and "lh_gaplist st = Some l" and "lh_gapnode st = Some c"
    and "fh_shr_gap_fill_find l seq_no = Some (Some c)" and "unat seq_no \<in> line_gaps st"
  shows "\<exists>st'. itch_account hooks (-1) seq_no st = Some st' \<and> line_ok n m st' \<and> book st' = book st \<and>
    unat seq_no < unat (lh_next_seq_no st') \<and> lh_next_seq_no st \<le> lh_next_seq_no st' \<and>
    open_seqs st' \<subseteq> open_seqs st - {unat seq_no}"
proof -
  have inv: "gap_inv l" and lt: "\<forall>x\<in>missing l. x < unat (lh_next_seq_no st)" and q: "unat seq_no \<in> missing l"
    using assms by (auto simp: line_ok_def gaps_ok_def line_gaps_def)
  obtain l' p rc where d: "fh_shr_gap_fill_del l c seq_no = Some (l', p, rc)" "gap_inv l'"
    "missing l' \<subseteq> missing l - {unat seq_no}"
    using gl.del_law [OF inv assms(4)] by blast
  obtain st' where a: "itch_account hooks (-1) seq_no st = Some st'" "lh_gaplist st' = Some l'"
    "lh_next_seq_no st' = lh_next_seq_no st" "tables_ok n m st'" "book st' = book st"
    using account_frame [OF d(1) assms(2,3), of hooks] ok unfolding line_ok_def by blast
  moreover have "\<forall>x\<in>missing l'. x < unat (lh_next_seq_no st)" using d(3) lt by blast
  moreover have "unat seq_no < unat (lh_next_seq_no st)" using lt q by blast
  ultimately show ?thesis using d(2,3) assms(2) by (auto simp: line_ok_def gaps_ok_def line_gaps_def open_seqs_def)
qed

text \<open>
  One message.  With the line well formed, a sequence number within \<open>2 ^ 32\<close> of the next expected one
  and five readable bytes behind the buffer (a time stamp message is read without a length check),
  the parser does not fault, and what it does follows from whether the number is open.
\<close>

definition msg_len :: "u8 list \<Rightarrow> int" where
  "msg_len b = uint (ntoh16 (the (ld16 b 0)))"

definition msg_done :: "nat \<Rightarrow> nat \<Rightarrow> u64 \<Rightarrow> u8 list \<Rightarrow> 'd itch_state \<Rightarrow> 'd itch_state \<Rightarrow> int \<Rightarrow> bool" where
  "msg_done n m seq_no b st st' used \<longleftrightarrow> line_ok n m st' \<and> open_seqs st' \<subseteq> open_seqs st \<and>
     lh_next_seq_no st \<le> lh_next_seq_no st' \<and>
     (\<exists>se. book st' = (if lh_ord_enabled st then itch_book_msg m (b ! 2) (drop 2 b) (msg_len b) se (book st) else Map.empty)) \<and>
     (used = -1 \<or> used = msg_len b + 2 \<and> unat seq_no < unat (lh_next_seq_no st') \<and> unat seq_no \<notin> open_seqs st')"

lemma dispatched_ok:
  assumes ok: "line_ok n m st1" and b: "nat (msg_len b) \<le> length (drop 2 b)" "6 \<le> length (drop 2 b)"
    and bk: "book st1 = book st" "lh_ord_enabled st1 = lh_ord_enabled st" and sub: "open_seqs st1 \<subseteq> open_seqs st"
    and mono: "lh_next_seq_no st \<le> lh_next_seq_no st1"
    and acc: "\<And>st2. line_ok n m st2 \<Longrightarrow> same_line st1 st2 \<Longrightarrow> \<exists>st3. itch_account hooks dup seq_no st2 = Some st3 \<and>
      line_ok n m st3 \<and> book st3 = book st2 \<and> unat seq_no < unat (lh_next_seq_no st3) \<and>
      lh_next_seq_no st2 \<le> lh_next_seq_no st3 \<and> open_seqs st3 \<subseteq> open_seqs st2 - {unat seq_no}"
  shows "\<exists>st' used. do { ty \<leftarrow> rd (drop 2 b) 0;
      (st, rc, data) \<leftarrow> itch_dispatch hooks ty (drop 2 b) (msg_len b) st1;
      if rc \<noteq> FH_OK then Some (st, -1)
      else do {
        st \<leftarrow> itch_account hooks dup seq_no st;
        let (st, rc) = (if ty \<noteq> 84 \<and> ty \<noteq> 77 then lh_send hooks data st else (st, FH_OK));
        if rc \<noteq> FH_OK then Some (st, -1) else Some (st, msg_len b + 2)
      } } = Some (st', used) \<and> msg_done n m seq_no b st st' used"
proof -
  have t: "tables_ok n m st1" using ok by (simp add: line_ok_def)
  obtain st2 rc data se where d: "itch_dispatch hooks (b ! 2) (drop 2 b) (msg_len b) st1 = Some (st2, rc, data)"
    "msg_step n m st1 (if lh_ord_enabled st1 then itch_book_msg m (b ! 2) (drop 2 b) (msg_len b) se (book st1) else Map.empty) st2"
    using dispatch_ok [OF t b, of "b ! 2" hooks] by (auto simp: succeeds_def step_to_def)
  then have s: "same_line st1 st2" and ok2: "line_ok n m st2"
    using ok by (auto simp: msg_step_def line_ok_def same_line_gaps)
  have bk2: "book st2 = (if lh_ord_enabled st then itch_book_msg m (b ! 2) (drop 2 b) (msg_len b) se (book st) else Map.empty)"
    using d(2) bk by (simp add: msg_step_def)
  have rd: "rd (drop 2 b) 0 = Some (b ! 2)" using b(2) by simp
  have sub2: "open_seqs st2 \<subseteq> open_seqs st" using sub same_line_gaps(2) [OF s] by simp
  have mono2: "lh_next_seq_no st \<le> lh_next_seq_no st2" using mono s by (simp add: same_line_def)
  show ?thesis
  proof (cases "rc = FH_OK")
    case False
    then show ?thesis using d(1) ok2 bk2 sub2 mono2 by (auto simp: rd msg_done_def)
  next
    case True
    obtain st3 where a: "itch_account hooks dup seq_no st2 = Some st3" "line_ok n m st3" "book st3 = book st2"
      "unat seq_no < unat (lh_next_seq_no st3)" "lh_next_seq_no st2 \<le> lh_next_seq_no st3"
      "open_seqs st3 \<subseteq> open_seqs st2 - {unat seq_no}"
      using acc [OF ok2 s] by blast
    define r where "r = (if b ! 2 \<noteq> 84 \<and> b ! 2 \<noteq> 77 then lh_send hooks data st3 else (st3, FH_OK))"
    obtain st4 rc4 where r: "r = (st4, rc4)" by fastforce
    then have "line_ok n m st4 \<and> book st4 = book st3 \<and> open_seqs st4 = open_seqs st3 \<and> lh_next_seq_no st4 = lh_next_seq_no st3"
      using send_line [of hooks data st3 st4 rc4 n m] a(2) by (auto simp: r_def line_ok_def split: if_splits)
    then have "msg_done n m seq_no b st st4 (if rc4 \<noteq> FH_OK then -1 else msg_len b + 2)"
      using a bk2 sub2 order_trans [OF mono2 a(5)] unfolding msg_done_def by auto
    then show ?thesis using True d(1) a(1) r by (auto simp: rd r_def)
  qed
qed

lemma msg_len_bounds: "0 \<le> msg_len b" "msg_len b < 2 ^ 16"
  by (simp_all add: msg_len_def uint_lt2p [of "_ :: 16 word", simplified])

lemma ld16_total: "2 \<le> length b \<Longrightarrow> \<exists>w. ld16 b 0 = Some w"
  by (auto simp: ld16_def rd_def)

lemma parse_msg_cases:
  assumes ok: "line_ok n m st" and near: "unat seq_no < unat (lh_next_seq_no st) + 2 ^ 32"
    and top: "unat seq_no < 2 ^ 64 - 1" and slack: "nat len + 5 \<le> length b"
  obtains (short) "len < 2 \<or> len < msg_len b + 2 \<or> msg_len b < 1"
      "fh_itch_parse_msg hooks now seq_no b len st =
         Some (upd_stats (\<lambda>s. s\<lparr>st_message_errors := st_message_errors s + 1\<rparr>) st, -1)"
  | (dup) "unat seq_no \<notin> open_seqs st" "msg_len b + 2 \<le> len" "1 \<le> msg_len b"
      "fh_itch_parse_msg hooks now seq_no b len st = Some (upd_stats
         (\<lambda>s. s\<lparr>st_duplicate_packets := st_duplicate_packets s + 1\<rparr>) (st\<lparr>lh_gapnode := None\<rparr>), msg_len b + 2)"
  | (processed) st' used where "unat seq_no \<in> open_seqs st" "msg_len b + 2 \<le> len" "1 \<le> msg_len b"
      "fh_itch_parse_msg hooks now seq_no b len st = Some (st', used)"
      "msg_done n m seq_no b st st' used"
proof -
  obtain w where w: "ld16 b 0 = Some w" "uint (ntoh16 w) = msg_len b"
    using ld16_total [of b] slack by (auto simp: msg_len_def)
  let ?k = "msg_len b"
  show ?thesis
  proof (cases "len < 2 \<or> len < ?k + 2 \<or> ?k < 1")
    case True
    then show ?thesis using w by (intro short) (auto simp: fh_itch_parse_msg_def Let_def)
  next
    case False
    then have k: "?k + 2 \<le> len" "1 \<le> ?k" by auto
    then have bl: "nat ?k \<le> length (drop 2 b)" "6 \<le> length (drop 2 b)" using slack by auto
    have run: "fh_itch_parse_msg hooks now seq_no b len st =
      do { (st, dup) \<leftarrow> fh_itch_is_duplicate hooks now seq_no st;
         if dup = 0 then
           Some (upd_stats (\<lambda>s. s\<lparr>st_duplicate_packets := st_duplicate_packets s + 1\<rparr>) st, ?k + 2)
         else do { ty \<leftarrow> rd (drop 2 b) 0;
           (st, rc, data) \<leftarrow> itch_dispatch hooks ty (drop 2 b) ?k st;
           if rc \<noteq> FH_OK then Some (st, -1)
           else do {
             st \<leftarrow> itch_account hooks dup seq_no st;
             let (st, rc) = (if ty \<noteq> 84 \<and> ty \<noteq> 77 then lh_send hooks data st else (st, FH_OK));
             if rc \<noteq> FH_OK then Some (st, -1) else Some (st, ?k + 2)
           } } }"
      using w(1) k unfolding fh_itch_parse_msg_def Let_def w(2) [symmetric] by simp
    show ?thesis
    proof (rule is_duplicate_cases [OF ok near, of hooks now])
      assume d: "unat seq_no \<notin> open_seqs st" "fh_itch_is_duplicate hooks now seq_no st = Some (st\<lparr>lh_gapnode := None\<rparr>, 0)"
      show ?thesis using d k by (intro dup) (simp_all add: run)
    next
      fix l c assume f: "unat seq_no \<in> line_gaps st" "lh_gaplist st = Some l" "fh_shr_gap_fill_find l seq_no = Some (Some c)"
        "fh_itch_is_duplicate hooks now seq_no st = Some (st\<lparr>lh_gapnode := Some c\<rparr>, -1)"
      let ?st1 = "st\<lparr>lh_gapnode := Some c\<rparr>"
      have acc: "\<exists>st3. itch_account hooks (-1) seq_no st2 = Some st3 \<and> line_ok n m st3 \<and> book st3 = book st2 \<and>
          unat seq_no < unat (lh_next_seq_no st3) \<and> lh_next_seq_no st2 \<le> lh_next_seq_no st3 \<and> open_seqs st3 \<subseteq> open_seqs st2 - {unat seq_no}"
        if "line_ok n m st2" "same_line ?st1 st2" for st2
        using that f same_line_gaps(3) [OF that(2)] by (intro account_fill) (auto simp: same_line_def)
      have "\<exists>st' used. fh_itch_parse_msg hooks now seq_no b len st = Some (st', used) \<and> msg_done n m seq_no b st st' used"
        unfolding run f(4) using dispatched_ok [of n m ?st1 b st hooks "-1" seq_no, OF _ bl _ _ _ _ acc] ok by simp
      then show ?thesis using processed k f(1) by (auto simp: open_seqs_def)
    next
      fix st1 assume f: "unat (lh_next_seq_no st) \<le> unat seq_no"
        "fh_itch_is_duplicate hooks now seq_no st = Some (st1, 1)" "line_ok n m st1" "book st1 = book st"
        "lh_ord_enabled st1 = lh_ord_enabled st" "lh_next_seq_no st1 = seq_no"
        "line_gaps st1 \<subseteq> line_gaps st \<union> {unat (lh_next_seq_no st)..<unat seq_no}"
      have sub: "open_seqs st1 \<subseteq> open_seqs st" using f by (auto simp: open_seqs_def)
      have acc: "\<exists>st3. itch_account hooks 1 seq_no st2 = Some st3 \<and> line_ok n m st3 \<and> book st3 = book st2 \<and>
          unat seq_no < unat (lh_next_seq_no st3) \<and> lh_next_seq_no st2 \<le> lh_next_seq_no st3 \<and> open_seqs st3 \<subseteq> open_seqs st2 - {unat seq_no}"
        if "line_ok n m st2" "same_line st1 st2" for st2
        using that f top by (intro account_fresh) (auto simp: same_line_def)
      have "\<exists>st' used. fh_itch_parse_msg hooks now seq_no b len st = Some (st', used) \<and> msg_done n m seq_no b st st' used"
        unfolding run f(2) using dispatched_ok [OF f(3) bl f(4,5) sub _ acc] f(1,6)
        by (simp add: word_le_nat_alt)
      then show ?thesis using processed k f(1) by (auto simp: open_seqs_def)
    qed
  qed
qed

text \<open>The loop over the messages of a packet.\<close>

lemma pkt_loop_ok:
  assumes "line_ok n m st" and "unat seq_no < unat (lh_next_seq_no st) + 2 ^ 32"
    and "unat seq_no + k < 2 ^ 64" and "nat len + 5 \<le> length b"
  shows "\<exists>st' rc. itch_pkt_loop hooks now k seq_no b len st = Some (st', rc) \<and> line_ok n m st' \<and>
    open_seqs st' \<subseteq> open_seqs st \<and> (rc = FH_OK \<longrightarrow> (\<forall>i<k. unat seq_no + i \<notin> open_seqs st'))"
  using assms
proof (induction k arbitrary: seq_no b len st)
  case (Suc k)
  have top: "unat seq_no < 2 ^ 64 - 1" using Suc.prems(3) by simp
  have s1: "unat (seq_no + 1) = unat seq_no + 1" using top by (simp add: unat_word_ariths)
  have go: ?case if p: "fh_itch_parse_msg hooks now seq_no b len st = Some (st1, msg_len b + 2)"
    and ok1: "line_ok n m st1" and sub: "open_seqs st1 \<subseteq> open_seqs st" and out: "unat seq_no \<notin> open_seqs st1"
    and le: "msg_len b + 2 \<le> len" for st1
  proof -
    let ?st2 = "upd_stats (\<lambda>s. s\<lparr>st_messages := st_messages s + 1\<rparr>) st1"
    have "unat seq_no < unat (lh_next_seq_no st1)" using out by (simp add: open_seqs_def)
    then have "unat (seq_no + 1) < unat (lh_next_seq_no ?st2) + 2 ^ 32" using s1 by simp
    moreover have "unat (seq_no + 1) + k < 2 ^ 64" using s1 Suc.prems(3) by simp
    moreover have "nat (len - (msg_len b + 2)) + 5 \<le> length (drop (nat (msg_len b + 2)) b)"
      using Suc.prems(4) le msg_len_bounds(1) [of b] by auto
    moreover have "line_ok n m ?st2" using ok1 by simp
    ultimately obtain st' rc where r0: "itch_pkt_loop hooks now k (seq_no + 1) (drop (nat (msg_len b + 2)) b)
        (len - (msg_len b + 2)) ?st2 = Some (st', rc)" "line_ok n m st'" "open_seqs st' \<subseteq> open_seqs ?st2"
      "rc = FH_OK \<longrightarrow> (\<forall>i<k. unat (seq_no + 1) + i \<notin> open_seqs st')"
      using Suc.IH by blast
    then have r: "itch_pkt_loop hooks now k (seq_no + 1) (drop (nat (msg_len b + 2)) b)
        (len - (msg_len b + 2)) ?st2 = Some (st', rc)" "line_ok n m st'" "open_seqs st' \<subseteq> open_seqs st1"
      "rc = FH_OK \<Longrightarrow> \<forall>i<k. unat seq_no + Suc i \<notin> open_seqs st'"
      using s1 by simp_all
    have "\<forall>i<Suc k. unat seq_no + i \<notin> open_seqs st'" if "rc = FH_OK"
      using r(3) r(4) [OF that] out by (auto simp: less_Suc_eq_0_disj)
    then show ?thesis using p r(1-3) sub msg_len_bounds(1) [of b] by auto
  qed
  show ?case
  proof (rule parse_msg_cases [OF Suc.prems(1,2) top Suc.prems(4), of hooks now])
    assume "fh_itch_parse_msg hooks now seq_no b len st =
      Some (upd_stats (\<lambda>s. s\<lparr>st_message_errors := st_message_errors s + 1\<rparr>) st, -1)"
    then show ?case using Suc.prems(1) by auto
  next
    assume d: "unat seq_no \<notin> open_seqs st" "msg_len b + 2 \<le> len"
      "fh_itch_parse_msg hooks now seq_no b len st = Some (upd_stats
         (\<lambda>s. s\<lparr>st_duplicate_packets := st_duplicate_packets s + 1\<rparr>) (st\<lparr>lh_gapnode := None\<rparr>), msg_len b + 2)"
    show ?case by (rule go [OF d(3)]) (use d Suc.prems(1) in auto)
  next
    fix st1 used assume f: "msg_len b + 2 \<le> len" "fh_itch_parse_msg hooks now seq_no b len st = Some (st1, used)"
      "msg_done n m seq_no b st st1 used"
    show ?case
    proof (cases "used = -1")
      case True
      then show ?thesis using f by (auto simp: msg_done_def)
    next
      case False
      then show ?thesis using f by (intro go [of st1]) (auto simp: msg_done_def)
    qed
  qed
qed simp

text \<open>One packet.\<close>

lemma extract_total: "20 \<le> length b \<Longrightarrow> \<exists>hdr. fh_itch_moldudp64_extract b = Some hdr"
  by (auto simp: fh_itch_moldudp64_extract_def rd_bytes_def ld64_def ld16_def rd_def)

lemma pkt_body_ok:
  assumes ok: "line_ok n m st" and slack: "nat len + 5 \<le> length b" and len: "20 \<le> len"
    and hdr: "fh_itch_moldudp64_extract b = Some hdr" and c: "md_msg_count hdr \<noteq> 0xffff"
    and fits: "unat (md_seq_no hdr) + unat (md_msg_count hdr) < 2 ^ 64"
      "unat (md_seq_no hdr) < unat (lh_next_seq_no st) + 2 ^ 32"
  shows "\<exists>st' rc. itch_pkt_body hooks now b len st = Some (st', rc) \<and> line_ok n m st' \<and>
    open_seqs st' \<subseteq> open_seqs st \<and>
    (rc = FH_OK \<longrightarrow> (\<forall>i<unat (md_msg_count hdr). unat (md_seq_no hdr) + i \<notin> open_seqs st'))"
proof (cases "md_msg_count hdr = 0")
  case True
  let ?st' = "if md_seq_no hdr > lh_next_seq_no st then st\<lparr>lh_next_seq_no := md_seq_no hdr\<rparr> else st"
  have "itch_pkt_body hooks now b len st = Some (?st', FH_OK)"
    using True len hdr by (simp add: itch_pkt_body_def FH_ITCH_MOLDUDP64_SIZE_def)
  moreover have "line_ok n m ?st'" using ok line_ok_next_up [OF ok] by (simp add: less_imp_le)
  moreover have "open_seqs ?st' \<subseteq> open_seqs st" by (auto simp: open_seqs_def line_gaps_def word_less_nat_alt)
  ultimately show ?thesis using True by auto
next
  case nz: False
  have "nat (len - 20) + 5 \<le> length (drop 20 b)" using slack len by simp
  then obtain st3 rc where p: "itch_pkt_loop hooks now (unat (md_msg_count hdr)) (md_seq_no hdr) (drop 20 b) (len - 20) st = Some (st3, rc)"
    "line_ok n m st3" "open_seqs st3 \<subseteq> open_seqs st"
    "rc = FH_OK \<longrightarrow> (\<forall>i<unat (md_msg_count hdr). unat (md_seq_no hdr) + i \<notin> open_seqs st3)"
    using pkt_loop_ok [OF ok fits(2,1), of "len - 20" "drop 20 b" hooks now] by blast
  obtain l3 where l3: "lh_gaplist st3 = Some l3" using p(2) by (auto simp: line_ok_def gaps_ok_def)
  show ?thesis
    using p l3 nz len hdr c by (simp add: itch_pkt_body_def FH_ITCH_MOLDUDP64_SIZE_def)
qed

lemma pkt_begin_ok:
  assumes ok: "line_ok n m st"
  shows "\<exists>st'. fh_itch_parse_pkt hooks now b len st = itch_pkt_body hooks now b len st' \<and> line_ok n m st' \<and>
    open_seqs st' \<subseteq> open_seqs st \<and> lh_next_seq_no st' = lh_next_seq_no st \<and> book st' = book st \<and>
    line_gaps st' \<subseteq> line_gaps st"
proof -
  obtain st1 where e: "lh_expire hooks now st = Some st1" "line_ok n m st1" "lh_next_seq_no st1 = lh_next_seq_no st"
    "line_gaps st1 \<subseteq> line_gaps st" "book st1 = book st"
    using expire_ok [OF ok, of hooks now] by blast
  obtain l where l: "lh_gaplist st1 = Some l" using e(2) by (auto simp: line_ok_def gaps_ok_def)
  define st2 where "st2 = (if \<not> lh_inorder st1 \<and> gl_count l = 0 then st1\<lparr>lh_inorder := True\<rparr> else st1)"
  have "fh_itch_parse_pkt hooks now b len st =
      itch_pkt_body hooks now b len (upd_stats (\<lambda>s. s\<lparr>st_bytes := st_bytes s + word_of_int len\<rparr>) st2)"
    using e(1) l by (simp add: fh_itch_parse_pkt_def st2_def)
  moreover have "line_ok n m st2" "lh_next_seq_no st2 = lh_next_seq_no st" "line_gaps st2 \<subseteq> line_gaps st" "book st2 = book st"
    using e by (auto simp: st2_def)
  ultimately show ?thesis by (intro exI) (auto simp: open_seqs_def)
qed

lemma parse_pkt_ok:
  assumes ok: "line_ok n m st" and slack: "nat len + 5 \<le> length b"
    and hdr: "20 \<le> len \<Longrightarrow> fh_itch_moldudp64_extract b = Some hdr"
    and fits: "20 \<le> len \<Longrightarrow> md_msg_count hdr \<noteq> 0xffff"
      "20 \<le> len \<Longrightarrow> unat (md_seq_no hdr) + unat (md_msg_count hdr) < 2 ^ 64"
      "20 \<le> len \<Longrightarrow> unat (md_seq_no hdr) < unat (lh_next_seq_no st) + 2 ^ 32"
  shows "\<exists>st' rc. fh_itch_parse_pkt hooks now b len st = Some (st', rc) \<and> line_ok n m st' \<and>
    open_seqs st' \<subseteq> open_seqs st \<and>
    (rc = FH_OK \<longrightarrow> 20 \<le> len \<and>
      (\<forall>i<unat (md_msg_count hdr). unat (md_seq_no hdr) + i \<notin> open_seqs st'))"
proof -
  obtain st1 where b: "fh_itch_parse_pkt hooks now b len st = itch_pkt_body hooks now b len st1" "line_ok n m st1"
    "open_seqs st1 \<subseteq> open_seqs st" "lh_next_seq_no st1 = lh_next_seq_no st"
    using pkt_begin_ok [OF ok] by blast
  show ?thesis
  proof (cases "20 \<le> len")
    case True
    then show ?thesis using pkt_body_ok [OF b(2) slack True hdr fits(1,2), of hooks now] fits(3) b by fastforce
  next
    case False
    then show ?thesis using b by (simp add: itch_pkt_body_def FH_ITCH_MOLDUDP64_SIZE_def)
  qed
qed

subsection \<open>Properties\<close>

text \<open>C4. The duplicate filter: on a well-formed line a number that is neither missing nor at or above the
  next expected one is a duplicate and changes nothing but the gap node; a missing number is one to
  fill; any other number is to be processed, becomes the next expected one, and every number skipped
  is missing from then on.\<close>

theorem itch_duplicate_filter:
  assumes "line_ok n m st" and "unat seq_no < unat (lh_next_seq_no st) + 2 ^ 32"
  shows "\<exists>st' d. fh_itch_is_duplicate hooks now seq_no st = Some (st', d) \<and>
    (if unat seq_no \<notin> open_seqs st then d = 0 \<and> st' = st\<lparr>lh_gapnode := None\<rparr>
     else if unat seq_no \<in> line_gaps st then d = -1 \<and> (\<exists>c. st' = st\<lparr>lh_gapnode := Some c\<rparr>)
     else d = 1 \<and> lh_next_seq_no st' = seq_no \<and> line_ok n m st' \<and>
       {unat (lh_next_seq_no st)..<unat seq_no} \<subseteq> line_gaps st' \<and>
       line_gaps st' \<subseteq> line_gaps st \<union> {unat (lh_next_seq_no st)..<unat seq_no})"
proof (rule is_duplicate_cases [OF assms, of hooks now])
  assume "unat seq_no \<notin> open_seqs st" "fh_itch_is_duplicate hooks now seq_no st = Some (st\<lparr>lh_gapnode := None\<rparr>, 0)"
  then show ?thesis by simp
next
  fix l c assume "unat seq_no \<in> line_gaps st" "fh_itch_is_duplicate hooks now seq_no st = Some (st\<lparr>lh_gapnode := Some c\<rparr>, -1)"
  then show ?thesis by (auto simp: open_seqs_def)
next
  fix st' assume f: "unat (lh_next_seq_no st) \<le> unat seq_no" "fh_itch_is_duplicate hooks now seq_no st = Some (st', 1)"
    "line_ok n m st'" "lh_next_seq_no st' = seq_no"
    "line_gaps st' \<subseteq> line_gaps st \<union> {unat (lh_next_seq_no st)..<unat seq_no}"
    "{unat (lh_next_seq_no st)..<unat seq_no} \<subseteq> line_gaps st'"
  moreover have "unat seq_no \<notin> line_gaps st" using assms(1) f(1) by (auto simp: line_ok_def gaps_ok_def)
  ultimately show ?thesis by (auto simp: open_seqs_def)
qed

lemma filter_answer:
  assumes "line_ok n m st" and "unat seq_no < unat (lh_next_seq_no st) + 2 ^ 32"
  shows "\<exists>st' d. fh_itch_is_duplicate hooks now seq_no st = Some (st', d) \<and> (d = 0 \<longleftrightarrow> unat seq_no \<notin> open_seqs st)"
  by (rule is_duplicate_cases [OF assms, of hooks now]) (auto simp: open_seqs_def)

text \<open>A run of the message parser over messages with their sequence numbers, and the numbers of those
  that were not duplicates and were processed to the end.\<close>

fun itch_feed ::
  "'d itch_hooks \<Rightarrow> (int \<times> u64 \<times> u8 list \<times> int) list \<Rightarrow> 'd itch_state \<Rightarrow> ('d itch_state \<times> u64 list) option" where
  "itch_feed hooks [] st = Some (st, [])"
| "itch_feed hooks ((now, seq_no, b, len) # ms) st =
     do { (st1, used) \<leftarrow> fh_itch_parse_msg hooks now seq_no b len st;
          (st2, acc) \<leftarrow> itch_feed hooks ms st1;
          Some (st2, if used \<ge> 0 \<and> map_option snd (fh_itch_is_duplicate hooks now seq_no st) \<noteq> Some 0
                     then seq_no # acc else acc) }"


text \<open>C2. The order book: a well-formed message with an open sequence number has exactly the effect of
  its type and fields on the order book (add, reduce, delete, replace; none for the other types),
  whatever the hooks return; a duplicate or a malformed message has none, and counts as such.\<close>

theorem itch_message_effect:
  assumes "line_ok n m st" and "unat seq_no < unat (lh_next_seq_no st) + 2 ^ 32" and "unat seq_no < 2 ^ 64 - 1"
    and "nat len + 5 \<le> length b"
  shows "\<exists>st' used. fh_itch_parse_msg hooks now seq_no b len st = Some (st', used) \<and> line_ok n m st' \<and>
    (if len < 2 \<or> len < msg_len b + 2 \<or> msg_len b < 1
     then used = -1 \<and> st' = upd_stats (\<lambda>s. s\<lparr>st_message_errors := st_message_errors s + 1\<rparr>) st
     else if unat seq_no \<notin> open_seqs st
     then used = msg_len b + 2 \<and> st' = upd_stats
       (\<lambda>s. s\<lparr>st_duplicate_packets := st_duplicate_packets s + 1\<rparr>) (st\<lparr>lh_gapnode := None\<rparr>)
     else used \<in> {-1, msg_len b + 2} \<and> (\<exists>se. book st' =
       (if lh_ord_enabled st then itch_book_msg m (b ! 2) (drop 2 b) (msg_len b) se (book st) else Map.empty)))"
proof (rule parse_msg_cases [OF assms, of hooks now])
  assume "len < 2 \<or> len < msg_len b + 2 \<or> msg_len b < 1" "fh_itch_parse_msg hooks now seq_no b len st =
      Some (upd_stats (\<lambda>s. s\<lparr>st_message_errors := st_message_errors s + 1\<rparr>) st, -1)"
  then show ?thesis using assms(1) by auto
next
  assume "unat seq_no \<notin> open_seqs st" "msg_len b + 2 \<le> len" "1 \<le> msg_len b"
    "fh_itch_parse_msg hooks now seq_no b len st = Some (upd_stats
       (\<lambda>s. s\<lparr>st_duplicate_packets := st_duplicate_packets s + 1\<rparr>) (st\<lparr>lh_gapnode := None\<rparr>), msg_len b + 2)"
  then show ?thesis using assms(1) by auto
next
  fix st' used assume "unat seq_no \<in> open_seqs st" "msg_len b + 2 \<le> len" "1 \<le> msg_len b"
      "fh_itch_parse_msg hooks now seq_no b len st = Some (st', used)" "msg_done n m seq_no b st st' used"
  then show ?thesis by (auto simp: msg_done_def)
qed

text \<open>The length each message type must have.\<close>

definition itch_size :: "u8 \<Rightarrow> int option" where
  "itch_size ty = map_of [(83, 2), (82, 16), (72, 13), (76, 14), (65, 36), (70, 40), (69, 31), (67, 42), (88, 19),
     (68, 13), (85, 41), (80, 48), (81, 39), (66, 13), (73, 58)] ty"

lemmas itch_sizes = FH_ITCH_MSG_SYSTEM_SIZE_def FH_ITCH_MSG_STOCK_DIR_SIZE_def FH_ITCH_MSG_STOCK_TRADE_ACT_SIZE_def
  FH_ITCH_MSG_MARKET_PART_POS_SIZE_def FH_ITCH_MSG_ORDER_ADD_SIZE_def FH_ITCH_MSG_ORDER_ADD_ATTR_SIZE_def
  FH_ITCH_MSG_ORDER_EXE_SIZE_def FH_ITCH_MSG_ORDER_EXE_PRICE_SIZE_def FH_ITCH_MSG_ORDER_CANCEL_SIZE_def
  FH_ITCH_MSG_ORDER_DELETE_SIZE_def FH_ITCH_MSG_ORDER_REPLACE_SIZE_def FH_ITCH_MSG_TRADE_SIZE_def
  FH_ITCH_MSG_TRADE_CROSS_SIZE_def FH_ITCH_MSG_TRADE_BROKEN_SIZE_def FH_ITCH_MSG_NOII_SIZE_def

lemma itch_size_cases: "itch_size ty = Some k \<Longrightarrow> (ty, k) \<in> 
    set [(83, 2), (82, 16), (72, 13), (76, 14), (65, 36), (70, 40), (69, 31), (67, 42), (88, 19),
     (68, 13), (85, 41), (80, 48), (81, 39), (66, 13), (73, 58)]"
  unfolding itch_size_def by (rule map_of_SomeD)

lemma wrong_length_handlers: "len \<noteq> 2 \<Longrightarrow> fh_itch_parse_sys_msg hooks b len st = Some (st, FH_ERROR, None)"
  "len \<noteq> 16 \<Longrightarrow> fh_itch_parse_stock_dir_msg hooks b len st = Some (st, FH_ERROR, None)"
  "len \<noteq> 13 \<Longrightarrow> fh_itch_parse_stock_trade_act_msg hooks b len st = Some (st, FH_ERROR, None)"
  "len \<noteq> 14 \<Longrightarrow> fh_itch_parse_market_part_pos_msg hooks b len st = Some (st, FH_ERROR, None)"
  "len \<noteq> 36 \<Longrightarrow> fh_itch_parse_order_add_msg hooks b len st = Some (st, FH_ERROR, None)"
  "len \<noteq> 40 \<Longrightarrow> fh_itch_parse_order_add_attr_msg hooks b len st = Some (st, FH_ERROR, None)"
  "len \<noteq> 31 \<Longrightarrow> fh_itch_parse_order_exe_msg hooks b len st = Some (st, FH_ERROR, None)"
  "len \<noteq> 42 \<Longrightarrow> fh_itch_parse_order_exe_price_msg hooks b len st = Some (st, FH_ERROR, None)"
  "len \<noteq> 19 \<Longrightarrow> fh_itch_parse_order_cancel_msg hooks b len st = Some (st, FH_ERROR, None)"
  "len \<noteq> 13 \<Longrightarrow> fh_itch_parse_order_delete_msg hooks b len st = Some (st, FH_ERROR, None)"
  "len \<noteq> 41 \<Longrightarrow> fh_itch_parse_order_replace_msg hooks b len st = Some (st, FH_ERROR, None)"
  "len \<noteq> 48 \<Longrightarrow> fh_itch_parse_trade_msg hooks b len st = Some (st, FH_ERROR, None)"
  "len \<noteq> 39 \<Longrightarrow> fh_itch_parse_trade_cross_msg hooks b len st = Some (st, FH_ERROR, None)"
  "len \<noteq> 13 \<Longrightarrow> fh_itch_parse_trade_broken_msg hooks b len st = Some (st, FH_ERROR, None)"
  "len \<noteq> 58 \<Longrightarrow> fh_itch_parse_noii_msg hooks b len st = Some (st, FH_ERROR, None)"
  unfolding fh_itch_parse_sys_msg_def fh_itch_parse_stock_dir_msg_def fh_itch_parse_stock_trade_act_msg_def
  fh_itch_parse_market_part_pos_msg_def fh_itch_parse_order_add_msg_def fh_itch_parse_order_add_attr_msg_def
  fh_itch_parse_order_exe_msg_def fh_itch_parse_order_exe_price_msg_def fh_itch_parse_order_cancel_msg_def
  fh_itch_parse_order_delete_msg_def fh_itch_parse_order_replace_msg_def fh_itch_parse_trade_msg_def
  fh_itch_parse_trade_cross_msg_def fh_itch_parse_trade_broken_msg_def fh_itch_parse_noii_msg_def itch_sizes
  by simp_all

text \<open>Wrong lengths: a message whose length is not the one of its type is an error, has no effect on
  the state of the line and is not delivered, for each of the fifteen types with a handler.\<close>

lemma itch_wrong_length_rejected:
  assumes "itch_size ty = Some k" and "len \<noteq> k"
  shows "itch_dispatch hooks ty b len st = Some (st, FH_ERROR, None)"
  using itch_size_cases [OF assms(1)] assms(2) unfolding itch_dispatch_def
  by (simp, elim disjE; simp add: wrong_length_handlers)

text \<open>A run of the packet parser from its initialisation on.\<close>

definition itch_pkts ::
  "'d itch_hooks \<Rightarrow> (int \<times> u8 list \<times> int) list \<Rightarrow> 'd itch_state \<Rightarrow> ('d itch_state \<times> fh_status list) option" where
  "itch_pkts hooks = run_inputs (\<lambda>(now, b, len). fh_itch_parse_pkt hooks now b len)"

text \<open>Packets of a session of fewer than \<open>2 ^ 32\<close> messages, short of its end, in a receive buffer with five
  bytes to spare.\<close>

definition pkt_in_session :: "u8 list \<Rightarrow> int \<Rightarrow> bool" where
  "pkt_in_session b len \<longleftrightarrow> nat len + 5 \<le> length b \<and>
     (len < 20 \<or> (case fh_itch_moldudp64_extract b of None \<Rightarrow> False
       | Some hdr \<Rightarrow> md_msg_count hdr \<noteq> 0xffff \<and> unat (md_seq_no hdr) + unat (md_msg_count hdr) < 2 ^ 32))"

lemma parse_pkt_in_session:
  assumes "line_ok n m st" and "pkt_in_session b len"
  shows "\<exists>st' rc. fh_itch_parse_pkt hooks now b len st = Some (st', rc) \<and> line_ok n m st' \<and> open_seqs st' \<subseteq> open_seqs st"
proof (cases "20 \<le> len")
  case True
  then obtain hdr where h: "fh_itch_moldudp64_extract b = Some hdr" "md_msg_count hdr \<noteq> 0xffff"
    "unat (md_seq_no hdr) + unat (md_msg_count hdr) < 2 ^ 32" and s: "nat len + 5 \<le> length b"
    using assms(2) by (auto simp: pkt_in_session_def split: option.splits)
  have "unat (md_seq_no hdr) + unat (md_msg_count hdr) < 2 ^ 64" "unat (md_seq_no hdr) < unat (lh_next_seq_no st) + 2 ^ 32"
    using h(3) by simp_all
  from parse_pkt_ok [OF assms(1) s h(1,2) this, of hooks now] show ?thesis by blast
next
  case False
  then show ?thesis
    using parse_pkt_ok [OF assms(1), of len b undefined hooks now] assms(2) by (auto simp: pkt_in_session_def)
qed

interpretation itch_line: total_machine "\<lambda>(now, b, len). fh_itch_parse_pkt hooks now b len"
  "\<lambda>_ (now :: int, b, len). pkt_in_session b len" "line_ok n m" "\<lambda>st st'. open_seqs st' \<subseteq> open_seqs st"
  for hooks :: "'d itch_hooks" and n m
proof unfold_locales
  fix st :: "'d itch_state" and i :: "int \<times> u8 list \<times> int"
  assume ok: "line_ok n m st" and i: "case i of (now :: int, b, len) \<Rightarrow> pkt_in_session b len"
  obtain now b len where "i = (now, b, len)" by (cases i)
  then show "\<exists>st' rc. (case i of (now, b, len) \<Rightarrow> fh_itch_parse_pkt hooks now b len) st = Some (st', rc) \<and>
      line_ok n m st' \<and> open_seqs st' \<subseteq> open_seqs st"
    using parse_pkt_in_session [OF ok, of b len hooks now] i by simp
qed auto


text \<open>A heartbeat ahead of the line gives messages up silently: the next expected number becomes
  that of the heartbeat, so none of the numbers in between will be processed when they arrive,
  although no gap was opened for them and none counted.\<close>

lemma itch_heartbeat_skips:
  assumes "line_ok n m st" and "20 \<le> len" and "fh_itch_moldudp64_extract b = Some hdr" and "md_msg_count hdr = 0"
    and "lh_next_seq_no st < md_seq_no hdr"
  shows "\<exists>st'. fh_itch_parse_pkt hooks now b len st = Some (st', FH_OK) \<and> lh_next_seq_no st' = md_seq_no hdr \<and>
    open_seqs st' \<inter> {unat (lh_next_seq_no st)..<unat (md_seq_no hdr)} = {} \<and>
    line_gaps st' \<subseteq> line_gaps st \<and> st_gaps (lh_stats st') = st_gaps (lh_stats st)"
proof -
  obtain st1 where e: "lh_expire hooks now st = Some st1" "line_ok n m st1" "lh_next_seq_no st1 = lh_next_seq_no st"
    "line_gaps st1 \<subseteq> line_gaps st"
    using expire_ok [OF assms(1), of hooks now] by blast
  obtain l where l: "lh_gaplist st1 = Some l" using e(2) by (auto simp: line_ok_def gaps_ok_def)
  define st2 where "st2 = (if \<not> lh_inorder st1 \<and> gl_count l = 0 then st1\<lparr>lh_inorder := True\<rparr> else st1)"
  let ?st' = "(upd_stats (\<lambda>s. s\<lparr>st_bytes := st_bytes s + word_of_int len\<rparr>) st2)\<lparr>lh_next_seq_no := md_seq_no hdr\<rparr>"
  have r: "fh_itch_parse_pkt hooks now b len st = Some (?st', FH_OK)"
    using e(1,3) l assms(2-5)
    by (simp add: fh_itch_parse_pkt_def itch_pkt_body_def FH_ITCH_MOLDUDP64_SIZE_def st2_def)
  have g: "line_gaps ?st' \<subseteq> line_gaps st" using e(4) by (auto simp: st2_def line_gaps_def)
  have s: "st_gaps (lh_stats ?st') = st_gaps (lh_stats st)" using expire_stats [OF e(1)] by (simp add: st2_def)
  have lt: "x < unat (lh_next_seq_no st)" if "x \<in> line_gaps ?st'" for x
    using that g assms(1) unfolding line_ok_def gaps_ok_def by blast
  have "open_seqs ?st' \<inter> {unat (lh_next_seq_no st)..<unat (md_seq_no hdr)} = {}"
    by (auto simp: open_seqs_def dest!: lt)
  with r g s show ?thesis by (intro exI [of _ ?st']) simp
qed

text \<open>Without a gap list.\<close>

lemma no_gaplist_dispatch:
  assumes "tables_ok n m st" and "nat len \<le> length b" and "6 \<le> length b"
    and "itch_dispatch hooks ty b len st = Some (st', rc, d)"
  shows "tables_ok n m st' \<and> lh_gaplist st' = lh_gaplist st"
  using dispatch_ok [OF assms(1-3), of ty hooks] assms(4)
  by (auto simp: succeeds_def step_to_def msg_step_def same_line_def)

lemma no_gaplist_filter:
  assumes "lh_gaplist st = None" and "fh_itch_is_duplicate hooks now seq_no st = Some (st', d)"
  shows "lh_gaplist st' = None \<and> tables_ok n m st' = tables_ok n m st \<and> d = 1"
  using assms by (cases "hook_alert hooks")
    (auto simp: fh_itch_is_duplicate_def itch_open_gap_def Let_def lh_alert_def tables_ok_def split: if_splits)

lemma no_gaplist_msg:
  assumes "tables_ok n m st" and "lh_gaplist st = None" and "nat len + 5 \<le> length b"
    and "fh_itch_parse_msg hooks now seq_no b len st = Some (st', used)" and "0 \<le> used"
  shows "tables_ok n m st' \<and> lh_gaplist st' = None \<and> used = msg_len b + 2 \<and> msg_len b + 2 \<le> len"
proof -
  obtain w where w: "ld16 b 0 = Some w" "msg_len b = uint (ntoh16 w)"
    using ld16_total [of b] assms(3) by (auto simp: msg_len_def)
  have k: "\<not> len < 2" "\<not> len - 2 < msg_len b" "\<not> msg_len b < 1"
    using assms(4,5) w by (auto simp: fh_itch_parse_msg_def Let_def split: if_splits)
  obtain st1 d where f: "fh_itch_is_duplicate hooks now seq_no st = Some (st1, d)"
    using assms(4) w k by (auto simp: fh_itch_parse_msg_def Let_def bind_eq_Some_conv)
  note f' = no_gaplist_filter [OF assms(2) f, of n m]
  have bl: "nat (msg_len b) \<le> length (drop 2 b)" "6 \<le> length (drop 2 b)" using k assms(3) by auto
  obtain st2 rc data where g: "itch_dispatch hooks (b ! 2) (drop 2 b) (msg_len b) st1 = Some (st2, rc, data)"
    "rc = FH_OK" "st' = fst (if b ! 2 \<noteq> 84 \<and> b ! 2 \<noteq> 77 then lh_send hooks data (st2\<lparr>lh_next_seq_no := lh_next_seq_no st2 + 1\<rparr>)
      else (st2\<lparr>lh_next_seq_no := lh_next_seq_no st2 + 1\<rparr>, FH_OK))" "used = msg_len b + 2"
    using assms(4,5) w k f f' bl(2)
    by (auto simp: fh_itch_parse_msg_def Let_def bind_eq_Some_conv itch_account_def split: if_splits prod.splits)
  have "tables_ok n m st2 \<and> lh_gaplist st2 = None"
    using no_gaplist_dispatch [OF _ bl g(1), of n m] f' assms(1) by simp
  then show ?thesis
    using g k by (auto simp: lh_send_def tables_ok_def split: option.splits if_splits)
qed

lemma no_gaplist_loop:
  assumes "tables_ok n m st" and "lh_gaplist st = None" and "nat len + 5 \<le> length b"
    and "itch_pkt_loop hooks now k seq_no b len st = Some (st', FH_OK)"
  shows "lh_gaplist st' = None"
  using assms
proof (induction k arbitrary: seq_no b len st)
  case (Suc k)
  obtain st1 used where p: "fh_itch_parse_msg hooks now seq_no b len st = Some (st1, used)" "\<not> used < 0"
    "itch_pkt_loop hooks now k (seq_no + 1) (drop (nat used) b) (len - used)
       (upd_stats (\<lambda>s. s\<lparr>st_messages := st_messages s + 1\<rparr>) st1) = Some (st', FH_OK)"
    using Suc.prems(4) by (auto simp: bind_eq_Some_conv split: if_splits)
  have q: "tables_ok n m st1" "lh_gaplist st1 = None" "used \<le> len"
    using no_gaplist_msg [OF Suc.prems(1-3) p(1)] p(2) by auto
  show ?case by (rule Suc.IH [OF _ _ _ p(3)]) (use q p(2) Suc.prems(3) in auto)
qed simp

text \<open>A line configured without a gap list cannot get through a packet with messages: if the packet is
  not an error, the gap list is read through a null pointer when its messages are done.\<close>

lemma itch_no_gap_list_faults:
  assumes "tables_ok n m st" and "lh_gaplist st = None" and "nat len + 5 \<le> length b" and "20 \<le> len"
    and "fh_itch_moldudp64_extract b = Some hdr" and "md_msg_count hdr \<noteq> 0" and "md_msg_count hdr \<noteq> 0xffff"
  shows "fh_itch_parse_pkt hooks now b len st \<noteq> Some (st', FH_OK)"
proof
  assume r: "fh_itch_parse_pkt hooks now b len st = Some (st', FH_OK)"
  let ?st = "upd_stats (\<lambda>s. s\<lparr>st_bytes := st_bytes s + word_of_int len\<rparr>) st"
  have "itch_pkt_body hooks now b len ?st = Some (st', FH_OK)"
    using r assms(2) by (auto simp: fh_itch_parse_pkt_def lh_expire_def split: if_splits)
  then obtain st1 where "itch_pkt_loop hooks now (unat (md_msg_count hdr)) (md_seq_no hdr) (drop 20 b) (len - 20) ?st = Some (st1, FH_OK)"
    "lh_gaplist st1 \<noteq> None"
    using assms(4-7) by (auto simp: itch_pkt_body_def FH_ITCH_MOLDUDP64_SIZE_def bind_eq_Some_conv split: if_splits)
  moreover from this(1) have "lh_gaplist st1 = None"
    by (rule no_gaplist_loop [rotated 3]) (use assms in auto)
  ultimately show False by simp
qed

text \<open>C39. Over-execution: when a message takes more shares from an order than the order has, the order is not
  deleted but left with more shares than before, the unsigned difference having wrapped.\<close>

theorem itch_over_execution_wraps:
  assumes "tables_ok n m st" and "lh_ord_enabled st" and "book st (ord_no_key no) = Some e" and "lo_shares e < shares"
  shows "\<exists>st' p. itch_order_reduce no shares st = Some (st', p) \<and>
    book st' = (book st)(ord_no_key no \<mapsto> e\<lparr>lo_shares := lo_shares e - shares\<rparr>) \<and> lo_shares e < lo_shares e - shares"
proof -
  have "succeeds (\<lambda>(st', p). msg_step n m st (book_reduce no shares (book st)) st') (Option.bind (itch_order_reduce no shares st) Some)"
    by (rule wp_order_reduce [OF assms(1)]) (auto simp: succeeds_def)
  then obtain st' p where "itch_order_reduce no shares st = Some (st', p)" "book st' = book_reduce no shares (book st)"
    by (auto simp: succeeds_def msg_step_def)
  moreover have "lo_shares e < lo_shares e - shares"
  proof -
    have "unat (lo_shares e) < unat shares" using assms(4) by (simp add: word_less_nat_alt)
    moreover have "unat (lo_shares e - shares) = unat (lo_shares e) + 2 ^ 32 - unat shares"
      using calculation by (simp add: unat_sub_if')
    ultimately show ?thesis using unat_lt [of shares] by (simp add: word_less_nat_alt)
  qed
  ultimately show ?thesis using assms(3,4) by (auto simp: book_reduce_def)
qed

subsection \<open>Examples\<close>

lemma ex_line_ok: "line_ok 2 2 ex_line" "open_seqs ex_line = {1..}" "line_gaps ex_line = {}"
  using ex_gaps0_inv by (simp_all add: line_ok_def tables_ok_def gaps_ok_def ex_line_def line_gaps_def open_seqs_def)

text \<open>A heartbeat for number 5, and a packet with the system message number 1.\<close>

definition ex_heartbeat :: "u8 list" where
  "ex_heartbeat = replicate 10 48 @ [0, 0, 0, 0, 0, 0, 0, 5] @ [0, 0] @ replicate 5 0"

definition ex_sys :: "u8 list" where
  "ex_sys = [0, 2, 83, 79] @ replicate 5 0"

definition ex_packet :: "u8 list" where
  "ex_packet = replicate 10 48 @ [0, 0, 0, 0, 0, 0, 0, 1] @ [0, 1] @ ex_sys"

lemma ex_headers:
  "fh_itch_moldudp64_extract ex_heartbeat = Some \<lparr>md_session = replicate 10 48, md_seq_no = 5, md_msg_count = 0\<rparr>"
  "fh_itch_moldudp64_extract ex_packet = Some \<lparr>md_session = replicate 10 48, md_seq_no = 1, md_msg_count = 1\<rparr>"
  by code_simp+

lemma ex_sys_len: "msg_len ex_sys = 2"
  by code_simp

theorem itch_duplicate_filter_witness:
  "\<exists>st'. fh_itch_is_duplicate ex_hooks 100 3 ex_line = Some (st', 1) \<and> lh_next_seq_no st' = 3 \<and> line_gaps st' = {1, 2}"
proof -
  have n: "lh_next_seq_no ex_line = 1" by (simp add: ex_line_def)
  have s: "{1..<3} = {1, 2 :: nat}" by auto
  show ?thesis using itch_duplicate_filter [OF ex_line_ok(1), of 3 ex_hooks 100] s by (auto simp: n ex_line_ok)
qed


theorem itch_message_effect_witness:
  "\<exists>st' used. fh_itch_parse_msg ex_hooks 100 1 ex_sys 4 ex_line = Some (st', used) \<and> used \<in> {-1, 4} \<and> book st' = Map.empty"
proof -
  have "lh_next_seq_no ex_line = 1" "lh_ord_enabled ex_line = False" by (simp_all add: ex_line_def)
  moreover have "length ex_sys = 9" by (simp add: ex_sys_def)
  ultimately show ?thesis
    using itch_message_effect [OF ex_line_ok(1), of 1 4 ex_sys ex_hooks 100] by (auto simp: ex_sys_len ex_line_ok)
qed


text \<open>An order book with one order of 100 shares.\<close>

definition ex_book :: "unit itch_state" where
  "ex_book = fst (the (itch_order_add 7 50000 100 66 [] None (ex_line\<lparr>lh_ord_enabled := True\<rparr>)))"

lemma ex_book_ok: "tables_ok 2 2 ex_book" "lh_ord_enabled ex_book"
  "\<exists>e. book ex_book (ord_no_key 7) = Some e \<and> lo_shares e = 100"
proof -
  let ?st = "ex_line\<lparr>lh_ord_enabled := True\<rparr>"
  note init = ex_tables_init(1) [unfolded fh_shr_lkp_ord_init_def]
  have o: "lkp_ok 2 32 lo_key ex_orders" "ord_view ex_orders = Map.empty"
    using lkp_init_ok(1) [OF init kops_ok_tables(1), where a = 4096 and b = 65536 and klen = 32 and keyf = lo_key]
      lkp_init_ok(2) [OF init kops_ok_tables(1), where a = 4096 and b = 65536 and klen = 32]
    by (simp_all add: ex_mem_def)
  have t: "tables_ok 2 2 ?st" "book ?st = Map.empty"
    using o by (simp_all add: tables_ok_def ex_line_def book_def)
  let ?e = "ord_zero\<lparr>lo_stock := [], lo_order_no := 7, lo_price := 50000, lo_shares := 100, lo_buy_sell_ind := 66, lo_sym_entry := None\<rparr> :: lkp_ord"
  have "succeeds (\<lambda>(st', p). msg_step 2 2 ?st (book_add 2 ?e Map.empty) st')
      (Option.bind (itch_order_add 7 50000 100 66 [] None ?st) Some)"
    by (rule wp_order_add [OF t(1)]) (auto simp: succeeds_def t(2))
  then have s: "msg_step 2 2 ?st (book_add 2 ?e Map.empty) ex_book"
    by (auto simp: succeeds_def ex_book_def)
  then show "tables_ok 2 2 ex_book" "lh_ord_enabled ex_book" by (simp_all add: msg_step_def same_line_def)
  have "book ex_book = [ord_no_key 7 \<mapsto> ord_stored ?e]"
    using s by (simp add: msg_step_def book_add_def ord_no_key_def ord_stored_def ord_zero_def)
  then show "\<exists>e. book ex_book (ord_no_key 7) = Some e \<and> lo_shares e = 100" by (simp add: ord_stored_def)
qed

theorem itch_over_execution_wraps_witness:
  "\<exists>st' p e. itch_order_reduce 7 101 ex_book = Some (st', p) \<and> book st' (ord_no_key 7) = Some e \<and> lo_shares e = 0xffffffff"
proof -
  obtain e where e: "book ex_book (ord_no_key 7) = Some e" "lo_shares e = 100" using ex_book_ok(3) by blast
  show ?thesis using itch_over_execution_wraps [OF ex_book_ok(1,2) e(1), of 101] e by auto
qed

end
