(* ===== verification/BatsMsg.thy ===== *)
theory BatsMsg
  imports LineBook
begin

section \<open>BATS messages (\<^verbatim>\<open>feeds/bats/multicast/common/fh_bats_parse.c\<close>)\<close>

text \<open>
  The message structs of \<^verbatim>\<open>fh_bats_pitch20_msg.h\<close>, the updates of the order table, and one handler per
  message type of the PITCH 2.0 protocol.  Integers are little-endian on the wire and are loaded as
  they are.  Where no hook is registered for a type, the bytes of the message are sent on.
\<close>

subsection \<open>Messages\<close>

record bats_raw =
  br_message :: "u8 list"
  br_len :: u32

record bats_header =
  bh_msg_type :: u8
  bh_seq_no :: u64
  bh_timestamp :: u64

record bats_add_order_long =
  al_hdr :: bats_header
  al_order_id :: u64
  al_side :: u8
  al_shares :: u32
  al_stock :: "u8 list"
  al_price :: u64
  al_add_flags :: u8
  al_sym_entry :: ptr
  al_ord_entry :: ptr
  al_raw :: bats_raw

record bats_add_order_short =
  as_hdr :: bats_header
  as_order_id :: u64
  as_side :: u8
  as_shares :: u16
  as_stock :: "u8 list"
  as_price :: u64
  as_add_flags :: u8
  as_sym_entry :: ptr
  as_ord_entry :: ptr
  as_raw :: bats_raw

record bats_order_execute =
  ex_hdr :: bats_header
  ex_order_id :: u64
  ex_shares :: u32
  ex_exec_id :: u64
  ex_ord_entry :: ptr
  ex_raw :: bats_raw

record bats_order_execute_price =
  ep_hdr :: bats_header
  ep_order_id :: u64
  ep_shares :: u32
  ep_rem_shares :: u32
  ep_exec_id :: u64
  ep_price :: u64
  ep_ord_entry :: ptr
  ep_raw :: bats_raw

record bats_reduce_size_long =
  rl_hdr :: bats_header
  rl_order_id :: u64
  rl_shares :: u32
  rl_ord_entry :: ptr
  rl_raw :: bats_raw

record bats_reduce_size_short =
  rs_hdr :: bats_header
  rs_order_id :: u64
  rs_shares :: u16
  rs_ord_entry :: ptr
  rs_raw :: bats_raw

record bats_modify_long =
  ml_hdr :: bats_header
  ml_order_id :: u64
  ml_shares :: u32
  ml_price :: u64
  ml_modify_flags :: u8
  ml_ord_entry :: ptr
  ml_raw :: bats_raw

record bats_modify_short =
  ms_hdr :: bats_header
  ms_order_id :: u64
  ms_shares :: u16
  ms_price :: u64
  ms_modify_flags :: u8
  ms_ord_entry :: ptr
  ms_raw :: bats_raw

record bats_delete_order =
  dl_hdr :: bats_header
  dl_order_id :: u64
  dl_raw :: bats_raw

record bats_trade_long =
  tl_hdr :: bats_header
  tl_order_id :: u64
  tl_side :: u8
  tl_shares :: u32
  tl_stock :: "u8 list"
  tl_price :: u64
  tl_execution_id :: u64
  tl_raw :: bats_raw

record bats_trade_short =
  ts_hdr :: bats_header
  ts_order_id :: u64
  ts_side :: u8
  ts_shares :: u32
  ts_stock :: "u8 list"
  ts_price :: u64
  ts_execution_id :: u64
  ts_raw :: bats_raw

record bats_trade_break =
  tk_hdr :: bats_header
  tk_execution_id :: u64
  tk_raw :: bats_raw

text \<open>The handler of the end of a session leaves \<^verbatim>\<open>hdr.seq_no\<close> unset.\<close>

record bats_end_of_session =
  es_msg_type :: u8
  es_timestamp :: u64
  es_raw :: bats_raw

datatype bats_msg =
    BAddLong bats_add_order_long
  | BAddShort bats_add_order_short
  | BExecute bats_order_execute
  | BExecutePrice bats_order_execute_price
  | BReduceLong bats_reduce_size_long
  | BReduceShort bats_reduce_size_short
  | BModifyLong bats_modify_long
  | BModifyShort bats_modify_short
  | BDelete bats_delete_order
  | BTradeLong bats_trade_long
  | BTradeShort bats_trade_short
  | BTradeBreak bats_trade_break
  | BEndOfSession bats_end_of_session
  | BRaw "u8 list" int

datatype bats_hook =
    KAddLong | KAddShort | KExecute | KExecutePrice | KReduceLong | KReduceShort | KModifyLong | KModifyShort
  | KDelete | KTradeLong | KTradeShort | KTradeBreak | KEndOfSession

type_synonym 'd bats_state = "(bats_msg, 'd) lh_state"
type_synonym 'd bats_hooks = "(bats_hook, bats_msg, 'd) lh_hooks"

subsection \<open>Parts of the handlers\<close>

text \<open>The message header, with the time stamp of the last time message added to the message's own.\<close>

definition bats_header_of :: "u8 list \<Rightarrow> 'd bats_state \<Rightarrow> bats_header option" where
  "bats_header_of b st =
    do { ty \<leftarrow> rd b 1;
         ts \<leftarrow> ld32 b 2;
         Some \<lparr>bh_msg_type = ty, bh_seq_no = lh_next_seq_no st, bh_timestamp = lh_timestamp st + ucast ts\<rparr> }"

definition bats_raw_of :: "u8 list \<Rightarrow> int \<Rightarrow> bats_raw" where
  "bats_raw_of b len = \<lparr>br_message = b, br_len = word_of_int len\<rparr>"

text \<open>The end of every handler: the hook of the type, or the bytes themselves.\<close>

definition bats_deliver ::
  "'d bats_hooks \<Rightarrow> bats_hook \<Rightarrow> bats_msg \<Rightarrow> u8 list \<Rightarrow> int \<Rightarrow> 'd bats_state
   \<Rightarrow> 'd bats_state \<times> fh_status \<times> (bats_msg, 'd) payload option" where
  "bats_deliver hooks hid m b len st =
    (case hook_msg hooks hid of
       Some h \<Rightarrow> (case h (lh_trace st) m of (rc, d) \<Rightarrow>
                    (st\<lparr>lh_trace := lh_trace st @ [Hooked m]\<rparr>, rc, Some (Plugged d)))
     | None \<Rightarrow> (st, FH_OK, Some (Parsed (BRaw b len))))"

definition bats_order_add ::
  "u64 \<Rightarrow> u64 \<Rightarrow> u32 \<Rightarrow> u8 \<Rightarrow> u8 list \<Rightarrow> ptr \<Rightarrow> 'd bats_state \<Rightarrow> ('d bats_state \<times> ptr) option" where
  "bats_order_add no price shares side stock se st =
    (if lh_ord_enabled st then do {
       (t, rc, p) \<leftarrow> fh_shr_lkp_ord_add (lh_order_table st)
         (ord_zero\<lparr>lo_key := ord_no_key no, lo_order_no := no, lo_price := price, lo_shares := shares,
                   lo_buy_sell_ind := side, lo_stock := stock, lo_sym_entry := se\<rparr>);
       Some (st\<lparr>lh_order_table := t\<rparr>, if rc \<noteq> FH_OK then None else p)
     }
     else Some (st, None))"

text \<open>
  Execution: shares are taken from the order unless it has too few.  An order left with none stays
  in the table.
\<close>

definition bats_take_execute :: "u64 \<Rightarrow> u32 \<Rightarrow> 'd bats_state \<Rightarrow> ('d bats_state \<times> ptr) option" where
  "bats_take_execute no shares st =
    (if lh_ord_enabled st then do {
       let t = lh_order_table st;
       (rc, p) \<leftarrow> fh_shr_lkp_ord_get t (ord_no_key no);
       if rc = FH_OK then do {
         a \<leftarrow> p;
         let e = lkp_entry t a;
         if shares \<le> lo_shares e
         then Some (st\<lparr>lh_order_table := lkp_write a (e\<lparr>lo_shares := lo_shares e - shares\<rparr>) t\<rparr>, p)
         else Some (st, p)
       }
       else Some (st, p)
     }
     else Some (st, None))"

text \<open>
  Execution at a price: without remaining shares the order is deleted, otherwise it takes the
  remaining shares and the price.  The message keeps the pointer the lookup returned.
\<close>

definition bats_take_execute_price ::
  "u64 \<Rightarrow> u32 \<Rightarrow> u32 \<Rightarrow> u64 \<Rightarrow> 'd bats_state \<Rightarrow> ('d bats_state \<times> ptr) option" where
  "bats_take_execute_price no shares rem_shares price st =
    (if lh_ord_enabled st then do {
       let t = lh_order_table st;
       (rc, p) \<leftarrow> fh_shr_lkp_ord_get t (ord_no_key no);
       if rc = FH_OK then do {
         a \<leftarrow> p;
         let e = lkp_entry t a;
         if rem_shares = 0 then do {
           (t, rc, entry) \<leftarrow> fh_shr_lkp_ord_del t (ord_no_key no);
           Some (st\<lparr>lh_order_table := t\<rparr>, p)
         }
         else if rem_shares + shares = lo_shares e
         then Some (st\<lparr>lh_order_table := lkp_write a (e\<lparr>lo_shares := rem_shares, lo_price := price\<rparr>) t\<rparr>, p)
         else Some (st\<lparr>lh_order_table := lkp_write a (e\<lparr>lo_shares := rem_shares, lo_price := price\<rparr>) t\<rparr>, p)
       }
       else Some (st, p)
     }
     else Some (st, None))"

definition bats_order_reduce :: "u64 \<Rightarrow> u32 \<Rightarrow> 'd bats_state \<Rightarrow> ('d bats_state \<times> ptr) option" where
  "bats_order_reduce no shares st =
    (if lh_ord_enabled st then do {
       let t = lh_order_table st;
       (rc, p) \<leftarrow> fh_shr_lkp_ord_get t (ord_no_key no);
       if rc = FH_OK then do {
         a \<leftarrow> p;
         let e = lkp_entry t a;
         Some (st\<lparr>lh_order_table := lkp_write a (e\<lparr>lo_shares := lo_shares e - shares\<rparr>) t\<rparr>, p)
       }
       else Some (st, p)
     }
     else Some (st, None))"

definition bats_order_modify :: "u64 \<Rightarrow> u32 \<Rightarrow> u64 \<Rightarrow> 'd bats_state \<Rightarrow> ('d bats_state \<times> ptr) option" where
  "bats_order_modify no shares price st =
    (if lh_ord_enabled st then do {
       let t = lh_order_table st;
       (rc, p) \<leftarrow> fh_shr_lkp_ord_get t (ord_no_key no);
       if rc = FH_OK then do {
         a \<leftarrow> p;
         let e = lkp_entry t a;
         Some (st\<lparr>lh_order_table := lkp_write a (e\<lparr>lo_shares := shares, lo_price := price\<rparr>) t\<rparr>, p)
       }
       else Some (st, p)
     }
     else Some (st, None))"

definition bats_order_delete :: "u64 \<Rightarrow> 'd bats_state \<Rightarrow> 'd bats_state option" where
  "bats_order_delete no st =
    (if lh_ord_enabled st then do {
       (t, rc, entry) \<leftarrow> fh_shr_lkp_ord_del (lh_order_table st) (ord_no_key no);
       Some (st\<lparr>lh_order_table := t\<rparr>)
     }
     else Some st)"

subsection \<open>Handlers\<close>

definition FH_BATS_ADD_ORDER_LONG_MSG_SIZE :: int where "FH_BATS_ADD_ORDER_LONG_MSG_SIZE = 34"
definition FH_BATS_ADD_ORDER_SHORT_MSG_SIZE :: int where "FH_BATS_ADD_ORDER_SHORT_MSG_SIZE = 26"
definition FH_BATS_ORDER_EXECUTED_MSG_SIZE :: int where "FH_BATS_ORDER_EXECUTED_MSG_SIZE = 26"
definition FH_BATS_ORDER_EXECUTE_PRICE_MSG_SIZE :: int where "FH_BATS_ORDER_EXECUTE_PRICE_MSG_SIZE = 38"
definition FH_BATS_REDUCE_SIZE_LONG_MSG_SIZE :: int where "FH_BATS_REDUCE_SIZE_LONG_MSG_SIZE = 18"
definition FH_BATS_REDUCE_SIZE_SHORT_MSG_SIZE :: int where "FH_BATS_REDUCE_SIZE_SHORT_MSG_SIZE = 16"
definition FH_BATS_MODIFY_LONG_MSG_SIZE :: int where "FH_BATS_MODIFY_LONG_MSG_SIZE = 27"
definition FH_BATS_MODIFY_SHORT_MSG_SIZE :: int where "FH_BATS_MODIFY_SHORT_MSG_SIZE = 19"
definition FH_BATS_DELETE_ORDER_MSG_SIZE :: int where "FH_BATS_DELETE_ORDER_MSG_SIZE = 14"
definition FH_BATS_TRADE_LONG_MSG_SIZE :: int where "FH_BATS_TRADE_LONG_MSG_SIZE = 41"
definition FH_BATS_TRADE_SHORT_MSG_SIZE :: int where "FH_BATS_TRADE_SHORT_MSG_SIZE = 33"
definition FH_BATS_TRADE_BREAK_MSG_SIZE :: int where "FH_BATS_TRADE_BREAK_MSG_SIZE = 14"
definition FH_BATS_END_OF_SESSION_MSG_SIZE :: int where "FH_BATS_END_OF_SESSION_MSG_SIZE = 6"

definition fh_bats_parse_add_order_long_msg ::
  "'d bats_hooks \<Rightarrow> u8 list \<Rightarrow> int \<Rightarrow> 'd bats_state \<Rightarrow> (bats_msg, 'd) handler_result" where
  "fh_bats_parse_add_order_long_msg hooks b len st =
    (if len \<noteq> FH_BATS_ADD_ORDER_LONG_MSG_SIZE then Some (st, FH_ERROR, None)
     else do {
       hdr \<leftarrow> bats_header_of b st;
       order_id \<leftarrow> ld64 b 6;
       side \<leftarrow> rd b 14;
       shares \<leftarrow> ld32 b 15;
       stock \<leftarrow> rd_bytes b 19 6;
       price \<leftarrow> ld64 b 25;
       add_flags \<leftarrow> rd b 33;
       (st, se) \<leftarrow> lh_fetch_symbol stock st;
       (st, ord) \<leftarrow> bats_order_add order_id price shares side stock se st;
       Some (bats_deliver hooks KAddLong
         (BAddLong \<lparr>al_hdr = hdr, al_order_id = order_id, al_side = side,
           al_shares = shares, al_stock = stock, al_price = price,
           al_add_flags = add_flags, al_sym_entry = se, al_ord_entry = ord,
           al_raw = bats_raw_of b FH_BATS_ADD_ORDER_LONG_MSG_SIZE\<rparr>) b len st)
     })"

definition fh_bats_parse_add_order_short_msg ::
  "'d bats_hooks \<Rightarrow> u8 list \<Rightarrow> int \<Rightarrow> 'd bats_state \<Rightarrow> (bats_msg, 'd) handler_result" where
  "fh_bats_parse_add_order_short_msg hooks b len st =
    (if len \<noteq> FH_BATS_ADD_ORDER_SHORT_MSG_SIZE then Some (st, FH_ERROR, None)
     else do {
       hdr \<leftarrow> bats_header_of b st;
       order_id \<leftarrow> ld64 b 6;
       side \<leftarrow> rd b 14;
       shares \<leftarrow> ld16 b 15;
       stock \<leftarrow> rd_bytes b 17 6;
       p16 \<leftarrow> ld16 b 23;
       add_flags \<leftarrow> rd b 25;
       let price = ucast p16 * 100;
       (st, se) \<leftarrow> lh_fetch_symbol stock st;
       (st, ord) \<leftarrow> bats_order_add order_id price (ucast shares) side stock se st;
       Some (bats_deliver hooks KAddShort
         (BAddShort \<lparr>as_hdr = hdr, as_order_id = order_id, as_side = side,
           as_shares = shares, as_stock = stock, as_price = price,
           as_add_flags = add_flags, as_sym_entry = se, as_ord_entry = ord,
           as_raw = bats_raw_of b FH_BATS_ADD_ORDER_SHORT_MSG_SIZE\<rparr>) b len st)
     })"

definition fh_bats_parse_order_execute_msg ::
  "'d bats_hooks \<Rightarrow> u8 list \<Rightarrow> int \<Rightarrow> 'd bats_state \<Rightarrow> (bats_msg, 'd) handler_result" where
  "fh_bats_parse_order_execute_msg hooks b len st =
    (if len \<noteq> FH_BATS_ORDER_EXECUTED_MSG_SIZE then Some (st, FH_ERROR, None)
     else do {
       hdr \<leftarrow> bats_header_of b st;
       order_id \<leftarrow> ld64 b 6;
       shares \<leftarrow> ld32 b 14;
       exec_id \<leftarrow> ld64 b 18;
       (st, ord) \<leftarrow> bats_take_execute order_id shares st;
       Some (bats_deliver hooks KExecute
         (BExecute \<lparr>ex_hdr = hdr, ex_order_id = order_id, ex_shares = shares,
           ex_exec_id = exec_id, ex_ord_entry = ord, ex_raw = bats_raw_of b FH_BATS_ORDER_EXECUTED_MSG_SIZE\<rparr>) b len st)
     })"

definition fh_bats_parse_order_execute_price_msg ::
  "'d bats_hooks \<Rightarrow> u8 list \<Rightarrow> int \<Rightarrow> 'd bats_state \<Rightarrow> (bats_msg, 'd) handler_result" where
  "fh_bats_parse_order_execute_price_msg hooks b len st =
    (if len \<noteq> FH_BATS_ORDER_EXECUTE_PRICE_MSG_SIZE then Some (st, FH_ERROR, None)
     else do {
       hdr \<leftarrow> bats_header_of b st;
       order_id \<leftarrow> ld64 b 6;
       shares \<leftarrow> ld32 b 14;
       rem_shares \<leftarrow> ld32 b 18;
       exec_id \<leftarrow> ld64 b 22;
       price \<leftarrow> ld64 b 30;
       (st, ord) \<leftarrow> bats_take_execute_price order_id shares rem_shares price st;
       Some (bats_deliver hooks KExecutePrice
         (BExecutePrice \<lparr>ep_hdr = hdr, ep_order_id = order_id, ep_shares = shares,
           ep_rem_shares = rem_shares, ep_exec_id = exec_id, ep_price = price,
           ep_ord_entry = ord, ep_raw = bats_raw_of b FH_BATS_ORDER_EXECUTE_PRICE_MSG_SIZE\<rparr>) b len st)
     })"

definition fh_bats_parse_reduce_size_long_msg ::
  "'d bats_hooks \<Rightarrow> u8 list \<Rightarrow> int \<Rightarrow> 'd bats_state \<Rightarrow> (bats_msg, 'd) handler_result" where
  "fh_bats_parse_reduce_size_long_msg hooks b len st =
    (if len \<noteq> FH_BATS_REDUCE_SIZE_LONG_MSG_SIZE then Some (st, FH_ERROR, None)
     else do {
       hdr \<leftarrow> bats_header_of b st;
       order_id \<leftarrow> ld64 b 6;
       shares \<leftarrow> ld32 b 14;
       (st, ord) \<leftarrow> bats_order_reduce order_id shares st;
       Some (bats_deliver hooks KReduceLong
         (BReduceLong \<lparr>rl_hdr = hdr, rl_order_id = order_id, rl_shares = shares,
           rl_ord_entry = ord, rl_raw = bats_raw_of b FH_BATS_REDUCE_SIZE_LONG_MSG_SIZE\<rparr>) b len st)
     })"

definition fh_bats_parse_reduce_size_short_msg ::
  "'d bats_hooks \<Rightarrow> u8 list \<Rightarrow> int \<Rightarrow> 'd bats_state \<Rightarrow> (bats_msg, 'd) handler_result" where
  "fh_bats_parse_reduce_size_short_msg hooks b len st =
    (if len \<noteq> FH_BATS_REDUCE_SIZE_SHORT_MSG_SIZE then Some (st, FH_ERROR, None)
     else do {
       hdr \<leftarrow> bats_header_of b st;
       order_id \<leftarrow> ld64 b 6;
       shares \<leftarrow> ld16 b 14;
       (st, ord) \<leftarrow> bats_order_reduce order_id (ucast shares) st;
       Some (bats_deliver hooks KReduceShort
         (BReduceShort \<lparr>rs_hdr = hdr, rs_order_id = order_id, rs_shares = shares,
           rs_ord_entry = ord, rs_raw = bats_raw_of b FH_BATS_REDUCE_SIZE_SHORT_MSG_SIZE\<rparr>) b len st)
     })"

definition fh_bats_parse_modify_order_long_msg ::
  "'d bats_hooks \<Rightarrow> u8 list \<Rightarrow> int \<Rightarrow> 'd bats_state \<Rightarrow> (bats_msg, 'd) handler_result" where
  "fh_bats_parse_modify_order_long_msg hooks b len st =
    (if len \<noteq> FH_BATS_MODIFY_LONG_MSG_SIZE then Some (st, FH_ERROR, None)
     else do {
       hdr \<leftarrow> bats_header_of b st;
       order_id \<leftarrow> ld64 b 6;
       shares \<leftarrow> ld32 b 14;
       price \<leftarrow> ld64 b 18;
       modify_flags \<leftarrow> rd b 26;
       (st, ord) \<leftarrow> bats_order_modify order_id shares price st;
       Some (bats_deliver hooks KModifyLong
         (BModifyLong \<lparr>ml_hdr = hdr, ml_order_id = order_id, ml_shares = shares,
           ml_price = price, ml_modify_flags = modify_flags, ml_ord_entry = ord,
           ml_raw = bats_raw_of b FH_BATS_MODIFY_LONG_MSG_SIZE\<rparr>) b len st)
     })"

definition fh_bats_parse_modify_order_short_msg ::
  "'d bats_hooks \<Rightarrow> u8 list \<Rightarrow> int \<Rightarrow> 'd bats_state \<Rightarrow> (bats_msg, 'd) handler_result" where
  "fh_bats_parse_modify_order_short_msg hooks b len st =
    (if len \<noteq> FH_BATS_MODIFY_SHORT_MSG_SIZE then Some (st, FH_ERROR, None)
     else do {
       hdr \<leftarrow> bats_header_of b st;
       order_id \<leftarrow> ld64 b 6;
       shares \<leftarrow> ld16 b 14;
       p16 \<leftarrow> ld16 b 16;
       modify_flags \<leftarrow> rd b 18;
       let price = ucast p16 * 100;
       (st, ord) \<leftarrow> bats_order_modify order_id (ucast shares) price st;
       Some (bats_deliver hooks KModifyShort
         (BModifyShort \<lparr>ms_hdr = hdr, ms_order_id = order_id, ms_shares = shares,
           ms_price = price, ms_modify_flags = modify_flags, ms_ord_entry = ord,
           ms_raw = bats_raw_of b FH_BATS_MODIFY_SHORT_MSG_SIZE\<rparr>) b len st)
     })"

definition fh_bats_parse_delete_order_msg ::
  "'d bats_hooks \<Rightarrow> u8 list \<Rightarrow> int \<Rightarrow> 'd bats_state \<Rightarrow> (bats_msg, 'd) handler_result" where
  "fh_bats_parse_delete_order_msg hooks b len st =
    (if len \<noteq> FH_BATS_DELETE_ORDER_MSG_SIZE then Some (st, FH_ERROR, None)
     else do {
       hdr \<leftarrow> bats_header_of b st;
       order_id \<leftarrow> ld64 b 6;
       st \<leftarrow> bats_order_delete order_id st;
       Some (bats_deliver hooks KDelete
         (BDelete \<lparr>dl_hdr = hdr, dl_order_id = order_id, dl_raw = bats_raw_of b FH_BATS_DELETE_ORDER_MSG_SIZE\<rparr>) b len st)
     })"

definition fh_bats_parse_trade_long_msg ::
  "'d bats_hooks \<Rightarrow> u8 list \<Rightarrow> int \<Rightarrow> 'd bats_state \<Rightarrow> (bats_msg, 'd) handler_result" where
  "fh_bats_parse_trade_long_msg hooks b len st =
    (if len \<noteq> FH_BATS_TRADE_LONG_MSG_SIZE then Some (st, FH_ERROR, None)
     else do {
       hdr \<leftarrow> bats_header_of b st;
       order_id \<leftarrow> ld64 b 6;
       side \<leftarrow> rd b 14;
       shares \<leftarrow> ld32 b 15;
       stock \<leftarrow> rd_bytes b 19 6;
       price \<leftarrow> ld64 b 25;
       execution_id \<leftarrow> ld64 b 33;
       Some (bats_deliver hooks KTradeLong
         (BTradeLong \<lparr>tl_hdr = hdr, tl_order_id = order_id, tl_side = side,
           tl_shares = shares, tl_stock = stock, tl_price = price,
           tl_execution_id = execution_id, tl_raw = bats_raw_of b FH_BATS_TRADE_LONG_MSG_SIZE\<rparr>) b len st)
     })"

definition fh_bats_parse_trade_short_msg ::
  "'d bats_hooks \<Rightarrow> u8 list \<Rightarrow> int \<Rightarrow> 'd bats_state \<Rightarrow> (bats_msg, 'd) handler_result" where
  "fh_bats_parse_trade_short_msg hooks b len st =
    (if len \<noteq> FH_BATS_TRADE_SHORT_MSG_SIZE then Some (st, FH_ERROR, None)
     else do {
       hdr \<leftarrow> bats_header_of b st;
       order_id \<leftarrow> ld64 b 6;
       side \<leftarrow> rd b 14;
       shares \<leftarrow> ld16 b 15;
       stock \<leftarrow> rd_bytes b 17 6;
       p16 \<leftarrow> ld16 b 23;
       execution_id \<leftarrow> ld64 b 25;
       Some (bats_deliver hooks KTradeShort
         (BTradeShort \<lparr>ts_hdr = hdr, ts_order_id = order_id, ts_side = side,
           ts_shares = ucast shares, ts_stock = stock, ts_price = ucast p16 * 100,
           ts_execution_id = execution_id, ts_raw = bats_raw_of b FH_BATS_TRADE_SHORT_MSG_SIZE\<rparr>) b len st)
     })"

definition fh_bats_parse_trade_break_msg ::
  "'d bats_hooks \<Rightarrow> u8 list \<Rightarrow> int \<Rightarrow> 'd bats_state \<Rightarrow> (bats_msg, 'd) handler_result" where
  "fh_bats_parse_trade_break_msg hooks b len st =
    (if len \<noteq> FH_BATS_TRADE_BREAK_MSG_SIZE then Some (st, FH_ERROR, None)
     else do {
       hdr \<leftarrow> bats_header_of b st;
       execution_id \<leftarrow> ld64 b 6;
       Some (bats_deliver hooks KTradeBreak
         (BTradeBreak \<lparr>tk_hdr = hdr, tk_execution_id = execution_id, tk_raw = bats_raw_of b FH_BATS_TRADE_BREAK_MSG_SIZE\<rparr>) b len st)
     })"

definition fh_bats_parse_end_of_session_msg ::
  "'d bats_hooks \<Rightarrow> u8 list \<Rightarrow> int \<Rightarrow> 'd bats_state \<Rightarrow> (bats_msg, 'd) handler_result" where
  "fh_bats_parse_end_of_session_msg hooks b len st =
    (if len \<noteq> FH_BATS_END_OF_SESSION_MSG_SIZE then Some (st, FH_ERROR, None)
     else do {
       ty \<leftarrow> rd b 1;
       ts \<leftarrow> ld32 b 2;
       Some (bats_deliver hooks KEndOfSession
         (BEndOfSession \<lparr>es_msg_type = ty, es_timestamp = lh_timestamp st + ucast ts, es_raw = bats_raw_of b FH_BATS_END_OF_SESSION_MSG_SIZE\<rparr>) b len st)
     })"

subsection \<open>The handlers' effect on the line state\<close>

lemma wp_header [wp_rules]:
  "6 \<le> length b \<Longrightarrow> (\<And>h. bats_header_of b st = Some h \<Longrightarrow> succeeds P (g h)) \<Longrightarrow> succeeds P (Option.bind (bats_header_of b st) g)"
  by (auto simp: bats_header_of_def ld32_def)

lemma wp_bats_deliver [wp_rules]:
  assumes "tables_ok n m st" and "\<And>st' rc d. msg_step n m st (book st) st' \<Longrightarrow> P (st', rc, d)"
  shows "succeeds P (Some (bats_deliver hooks h msg b len st))"
proof -
  obtain st' rc d where "bats_deliver hooks h msg b len st = (st', rc, d)" "msg_step n m st (book st) st'"
    using assms(1)
    by (cases "bats_deliver hooks h msg b len st")
      (auto simp: bats_deliver_def msg_step_def same_line_def tables_ok_def book_def split: option.splits prod.splits)
  with assms(2) show ?thesis by (simp add: succeeds_def)
qed

lemma wp_bats_add [wp_rules]:
  assumes ok: "tables_ok n m st"
    and g: "\<And>st' p. msg_step n m st (if lh_ord_enabled st then book_add m
        (ord_zero\<lparr>lo_key := ord_no_key no, lo_order_no := no, lo_price := price, lo_shares := shares,
                   lo_buy_sell_ind := side, lo_stock := stock, lo_sym_entry := se\<rparr>) (book st) else Map.empty) st' \<Longrightarrow>
        succeeds P (g (st', p))"
  shows "succeeds P (Option.bind (bats_order_add no price shares side stock se st) g)"
proof (cases "lh_ord_enabled st")
  case True
  let ?e = "ord_zero\<lparr>lo_key := ord_no_key no, lo_order_no := no, lo_price := price, lo_shares := shares,
                   lo_buy_sell_ind := side, lo_stock := stock, lo_sym_entry := se\<rparr>"
  note t = order_tableD [OF ok True]
  obtain t' rc p where "fh_shr_lkp_ord_add (lh_order_table st) ?e = Some (t', rc, p)" "lkp_ok m 32 lo_key t'"
    "ord_view t' = book_add m ?e (book st)"
    using ord_add_book [of m "lh_order_table st" ?e] t by auto
  then show ?thesis
    using True g [of "st\<lparr>lh_order_table := t'\<rparr>"] msg_step_orders [OF ok True, of t']
    by (simp add: bats_order_add_def)
next
  case False
  then show ?thesis using g [of st None] ok by (simp add: bats_order_add_def msg_step_def)
qed

text \<open>Orders changed in place.\<close>

definition exec_shares :: "u32 \<Rightarrow> lkp_ord \<Rightarrow> lkp_ord" where
  "exec_shares shares e = (if shares \<le> lo_shares e then e\<lparr>lo_shares := lo_shares e - shares\<rparr> else e)"

lemma book_update_off [simp]: "book_update no f Map.empty = Map.empty"
  by (simp add: book_update_def)

lemma wp_bats_execute [wp_rules]:
  assumes ok: "tables_ok n m st"
    and g: "\<And>st' p. msg_step n m st (book_update no (exec_shares shares) (book st)) st' \<Longrightarrow> succeeds P (g (st', p))"
  shows "succeeds P (Option.bind (bats_take_execute no shares st) g)"
proof (cases "lh_ord_enabled st")
  case True
  show ?thesis
  proof (rule order_get_cases [OF ok True, of no])
    assume "fh_shr_lkp_ord_get (lh_order_table st) (ord_no_key no) = Some (FH_ERR_NOTFOUND, None)"
      "book st (ord_no_key no) = None"
    then show ?thesis using True g [of st None] ok by (simp add: bats_take_execute_def book_update_def msg_step_def)
  next
    fix a assume a: "fh_shr_lkp_ord_get (lh_order_table st) (ord_no_key no) = Some (FH_OK, Some a)"
      "book st (ord_no_key no) = Some (lkp_entry (lh_order_table st) a)"
      "\<And>f. (\<And>e. lo_key (f e) = lo_key e) \<Longrightarrow> msg_step n m st (book_update no f (book st))
         (st\<lparr>lh_order_table := lkp_write a (f (lkp_entry (lh_order_table st) a)) (lh_order_table st)\<rparr>)"
    let ?e = "lkp_entry (lh_order_table st) a"
    show ?thesis
    proof (cases "shares \<le> lo_shares ?e")
      case le: True
      then have "msg_step n m st (book_update no (exec_shares shares) (book st))
          (st\<lparr>lh_order_table := lkp_write a (?e\<lparr>lo_shares := lo_shares ?e - shares\<rparr>) (lh_order_table st)\<rparr>)"
        using a(3) [of "exec_shares shares"] by (simp add: exec_shares_def)
      then show ?thesis using True a(1) g le by (simp add: bats_take_execute_def Let_def)
    next
      case False
      then have "msg_step n m st (book_update no (exec_shares shares) (book st)) st"
        using a(2) ok by (auto simp: book_update_def exec_shares_def msg_step_def fun_eq_iff)
      then show ?thesis using True a(1) g False by (simp add: bats_take_execute_def Let_def)
    qed
  qed
next
  case False
  then show ?thesis using g [of st None] ok by (simp add: bats_take_execute_def msg_step_def)
qed

lemma wp_bats_execute_price [wp_rules]:
  assumes ok: "tables_ok n m st"
    and g: "\<And>st' p. msg_step n m st (if rem_shares = 0 then (book st)(ord_no_key no := None)
        else book_update no (\<lambda>e. e\<lparr>lo_shares := rem_shares, lo_price := price\<rparr>) (book st)) st' \<Longrightarrow> succeeds P (g (st', p))"
  shows "succeeds P (Option.bind (bats_take_execute_price no shares rem_shares price st) g)"
proof (cases "lh_ord_enabled st")
  case True
  let ?t = "lh_order_table st"
  show ?thesis
  proof (rule order_get_cases [OF ok True, of no])
    assume "fh_shr_lkp_ord_get ?t (ord_no_key no) = Some (FH_ERR_NOTFOUND, None)"
      "book st (ord_no_key no) = None"
    then show ?thesis using True g [of st None] ok
      by (auto simp: bats_take_execute_price_def book_update_def msg_step_def fun_upd_idem)
  next
    fix a assume a: "fh_shr_lkp_ord_get ?t (ord_no_key no) = Some (FH_OK, Some a)"
      "\<And>f. (\<And>e. lo_key (f e) = lo_key e) \<Longrightarrow> msg_step n m st (book_update no f (book st))
         (st\<lparr>lh_order_table := lkp_write a (f (lkp_entry ?t a)) ?t\<rparr>)"
    show ?thesis
    proof (cases "rem_shares = 0")
      case rem: True
      obtain t' rc p where "fh_shr_lkp_ord_del ?t (ord_no_key no) = Some (t', rc, p)" "lkp_ok m 32 lo_key t'"
        "ord_view t' = (book st)(ord_no_key no := None)"
        using ob.del_law [of m ?t "ord_no_key no"] order_tableD [OF ok True] by auto
      then show ?thesis
        using True a(1) rem g [of "st\<lparr>lh_order_table := t'\<rparr>" "Some a"] msg_step_orders [OF ok True, of t']
        by (simp add: bats_take_execute_price_def Let_def)
    next
      case False
      then show ?thesis using True a(1) g a(2) [of "\<lambda>e. e\<lparr>lo_shares := rem_shares, lo_price := price\<rparr>"]
        by (simp add: bats_take_execute_price_def Let_def)
    qed
  qed
next
  case False
  then show ?thesis using g [of st None] ok by (simp add: bats_take_execute_price_def msg_step_def)
qed

lemma order_update_wp:
  assumes ok: "tables_ok n m st" and key: "\<And>e. lo_key (f e) = lo_key e"
    and g: "\<And>st' p. msg_step n m st (book_update no f (book st)) st' \<Longrightarrow> succeeds P (g (st', p))"
  shows "succeeds P (Option.bind (if lh_ord_enabled st then do {
       (rc, p) \<leftarrow> fh_shr_lkp_ord_get (lh_order_table st) (ord_no_key no);
       if rc = FH_OK then do {
         a \<leftarrow> p;
         Some (st\<lparr>lh_order_table := lkp_write a (f (lkp_entry (lh_order_table st) a)) (lh_order_table st)\<rparr>, p)
       }
       else Some (st, p)
     }
     else Some (st, None)) g)"
proof (cases "lh_ord_enabled st")
  case True
  show ?thesis
  proof (rule order_get_cases [OF ok True, of no])
    assume "fh_shr_lkp_ord_get (lh_order_table st) (ord_no_key no) = Some (FH_ERR_NOTFOUND, None)"
      "book st (ord_no_key no) = None"
    then show ?thesis using True g [of st None] ok by (simp add: book_update_def msg_step_def)
  next
    fix a assume "fh_shr_lkp_ord_get (lh_order_table st) (ord_no_key no) = Some (FH_OK, Some a)"
      "\<And>f. (\<And>e. lo_key (f e) = lo_key e) \<Longrightarrow> msg_step n m st (book_update no f (book st))
         (st\<lparr>lh_order_table := lkp_write a (f (lkp_entry (lh_order_table st) a)) (lh_order_table st)\<rparr>)"
    then show ?thesis using True g key by simp
  qed
next
  case False
  then show ?thesis using g [of st None] ok by (simp add: msg_step_def)
qed

lemma wp_bats_reduce [wp_rules]:
  assumes "tables_ok n m st"
    and "\<And>st' p. msg_step n m st (book_update no (\<lambda>e. e\<lparr>lo_shares := lo_shares e - shares\<rparr>) (book st)) st' \<Longrightarrow> succeeds P (g (st', p))"
  shows "succeeds P (Option.bind (bats_order_reduce no shares st) g)"
  unfolding bats_order_reduce_def Let_def
  by (rule order_update_wp [where f = "\<lambda>e. e\<lparr>lo_shares := lo_shares e - shares\<rparr>", OF assms(1)]) (simp_all add: assms(2))

lemma wp_bats_modify [wp_rules]:
  assumes "tables_ok n m st"
    and "\<And>st' p. msg_step n m st (book_update no (\<lambda>e. e\<lparr>lo_shares := shares, lo_price := price\<rparr>) (book st)) st' \<Longrightarrow> succeeds P (g (st', p))"
  shows "succeeds P (Option.bind (bats_order_modify no shares price st) g)"
  unfolding bats_order_modify_def Let_def
  by (rule order_update_wp [where f = "\<lambda>e. e\<lparr>lo_shares := shares, lo_price := price\<rparr>", OF assms(1)]) (simp_all add: assms(2))

lemma wp_bats_delete [wp_rules]:
  assumes ok: "tables_ok n m st"
    and g: "\<And>st'. msg_step n m st ((book st)(ord_no_key no := None)) st' \<Longrightarrow> succeeds P (g st')"
  shows "succeeds P (Option.bind (bats_order_delete no st) g)"
proof (cases "lh_ord_enabled st")
  case True
  obtain t' rc p where "fh_shr_lkp_ord_del (lh_order_table st) (ord_no_key no) = Some (t', rc, p)" "lkp_ok m 32 lo_key t'"
    "ord_view t' = (book st)(ord_no_key no := None)"
    using ob.del_law [of m "lh_order_table st" "ord_no_key no"] order_tableD [OF ok True] by auto
  then show ?thesis
    using True g [of "st\<lparr>lh_order_table := t'\<rparr>"] msg_step_orders [OF ok True, of t'] by (simp add: bats_order_delete_def)
next
  case False
  then show ?thesis using g [of st] ok by (simp add: bats_order_delete_def msg_step_def)
qed

text \<open>The numbers a message carries, and what a message means for the order book.\<close>

definition u16_at :: "u8 list \<Rightarrow> nat \<Rightarrow> u16" where "u16_at b i = the (ld16 b i)"
definition u32_at :: "u8 list \<Rightarrow> nat \<Rightarrow> u32" where "u32_at b i = the (ld32 b i)"
definition u64_at :: "u8 list \<Rightarrow> nat \<Rightarrow> u64" where "u64_at b i = the (ld64 b i)"

definition bats_entry_long :: "u8 list \<Rightarrow> ptr \<Rightarrow> lkp_ord" where
  "bats_entry_long b se = ord_zero\<lparr>lo_key := ord_no_key (u64_at b 6), lo_order_no := u64_at b 6, lo_price := u64_at b 25,
     lo_shares := u32_at b 15, lo_buy_sell_ind := b ! 14, lo_stock := take 6 (drop 19 b), lo_sym_entry := se\<rparr>"

definition bats_entry_short :: "u8 list \<Rightarrow> ptr \<Rightarrow> lkp_ord" where
  "bats_entry_short b se = ord_zero\<lparr>lo_key := ord_no_key (u64_at b 6), lo_order_no := u64_at b 6,
     lo_price := ucast (u16_at b 23) * 100, lo_shares := ucast (u16_at b 15), lo_buy_sell_ind := b ! 14,
     lo_stock := take 6 (drop 17 b), lo_sym_entry := se\<rparr>"

definition book_execute_price :: "u64 \<Rightarrow> u32 \<Rightarrow> u64 \<Rightarrow> (ord_key \<rightharpoonup> lkp_ord) \<Rightarrow> ord_key \<rightharpoonup> lkp_ord" where
  "book_execute_price no rem_shares price bk =
    (if rem_shares = 0 then bk(ord_no_key no := None)
     else book_update no (\<lambda>e. e\<lparr>lo_shares := rem_shares, lo_price := price\<rparr>) bk)"

lemmas field_defs = u16_at_def u32_at_def u64_at_def bats_entry_long_def bats_entry_short_def book_execute_price_def

lemmas bats_step = wp_return wp_rd wp_bytes wp_ld16 wp_ld32 wp_ld64 wp_header

lemma bats_add_order_long_handled:
  assumes "tables_ok n m st" and "nat len \<le> length b"
  shows "succeeds (step_to n m st (\<lambda>se bk. if len = 34 then book_add m (bats_entry_long b se) bk else bk))
    (fh_bats_parse_add_order_long_msg hooks b len st)"
  using assms unfolding fh_bats_parse_add_order_long_msg_def FH_BATS_ADD_ORDER_LONG_MSG_SIZE_def Let_def
  by (auto intro!: bats_step wp_bats_deliver [of n m] wp_symbol [of n m] wp_bats_add [of n m] step_to_refl)
    (auto intro!: step_toI simp: field_defs msg_step_def same_line_def)

lemma bats_add_order_short_handled:
  assumes "tables_ok n m st" and "nat len \<le> length b"
  shows "succeeds (step_to n m st (\<lambda>se bk. if len = 26 then book_add m (bats_entry_short b se) bk else bk))
    (fh_bats_parse_add_order_short_msg hooks b len st)"
  using assms unfolding fh_bats_parse_add_order_short_msg_def FH_BATS_ADD_ORDER_SHORT_MSG_SIZE_def Let_def
  by (auto intro!: bats_step wp_bats_deliver [of n m] wp_symbol [of n m] wp_bats_add [of n m] step_to_refl)
    (auto intro!: step_toI simp: field_defs msg_step_def same_line_def)

lemma bats_order_execute_handled:
  assumes "tables_ok n m st" and "nat len \<le> length b"
  shows "succeeds (step_to n m st (\<lambda>se bk. if len = 26 then book_update (u64_at b 6) (exec_shares (u32_at b 14)) bk else bk))
    (fh_bats_parse_order_execute_msg hooks b len st)"
  using assms unfolding fh_bats_parse_order_execute_msg_def FH_BATS_ORDER_EXECUTED_MSG_SIZE_def Let_def
  by (auto intro!: bats_step wp_bats_deliver [of n m] wp_bats_execute [of n m] step_to_refl)
    (auto intro!: step_toI simp: field_defs msg_step_def same_line_def)

lemma bats_order_execute_price_handled:
  assumes "tables_ok n m st" and "nat len \<le> length b"
  shows "succeeds (step_to n m st (\<lambda>se bk. if len = 38 then book_execute_price (u64_at b 6) (u32_at b 18) (u64_at b 30) bk else bk))
    (fh_bats_parse_order_execute_price_msg hooks b len st)"
  using assms unfolding fh_bats_parse_order_execute_price_msg_def FH_BATS_ORDER_EXECUTE_PRICE_MSG_SIZE_def Let_def
  by (auto intro!: bats_step wp_bats_deliver [of n m] wp_bats_execute_price [of n m] step_to_refl)
    (auto intro!: step_toI simp: field_defs msg_step_def same_line_def)

lemma bats_reduce_size_long_handled:
  assumes "tables_ok n m st" and "nat len \<le> length b"
  shows "succeeds (step_to n m st (\<lambda>se bk. if len = 18 then book_update (u64_at b 6) (\<lambda>e. e\<lparr>lo_shares := lo_shares e - u32_at b 14\<rparr>) bk else bk))
    (fh_bats_parse_reduce_size_long_msg hooks b len st)"
  using assms unfolding fh_bats_parse_reduce_size_long_msg_def FH_BATS_REDUCE_SIZE_LONG_MSG_SIZE_def Let_def
  by (auto intro!: bats_step wp_bats_deliver [of n m] wp_bats_reduce [of n m] step_to_refl)
    (auto intro!: step_toI simp: field_defs msg_step_def same_line_def)

lemma bats_reduce_size_short_handled:
  assumes "tables_ok n m st" and "nat len \<le> length b"
  shows "succeeds (step_to n m st (\<lambda>se bk. if len = 16 then book_update (u64_at b 6) (\<lambda>e. e\<lparr>lo_shares := lo_shares e - ucast (u16_at b 14)\<rparr>) bk else bk))
    (fh_bats_parse_reduce_size_short_msg hooks b len st)"
  using assms unfolding fh_bats_parse_reduce_size_short_msg_def FH_BATS_REDUCE_SIZE_SHORT_MSG_SIZE_def Let_def
  by (auto intro!: bats_step wp_bats_deliver [of n m] wp_bats_reduce [of n m] step_to_refl)
    (auto intro!: step_toI simp: field_defs msg_step_def same_line_def)

lemma bats_modify_order_long_handled:
  assumes "tables_ok n m st" and "nat len \<le> length b"
  shows "succeeds (step_to n m st (\<lambda>se bk. if len = 27 then book_update (u64_at b 6) (\<lambda>e. e\<lparr>lo_shares := u32_at b 14, lo_price := u64_at b 18\<rparr>) bk else bk))
    (fh_bats_parse_modify_order_long_msg hooks b len st)"
  using assms unfolding fh_bats_parse_modify_order_long_msg_def FH_BATS_MODIFY_LONG_MSG_SIZE_def Let_def
  by (auto intro!: bats_step wp_bats_deliver [of n m] wp_bats_modify [of n m] step_to_refl)
    (auto intro!: step_toI simp: field_defs msg_step_def same_line_def)

lemma bats_modify_order_short_handled:
  assumes "tables_ok n m st" and "nat len \<le> length b"
  shows "succeeds (step_to n m st (\<lambda>se bk. if len = 19 then book_update (u64_at b 6) (\<lambda>e. e\<lparr>lo_shares := ucast (u16_at b 14), lo_price := ucast (u16_at b 16) * 100\<rparr>) bk else bk))
    (fh_bats_parse_modify_order_short_msg hooks b len st)"
  using assms unfolding fh_bats_parse_modify_order_short_msg_def FH_BATS_MODIFY_SHORT_MSG_SIZE_def Let_def
  by (auto intro!: bats_step wp_bats_deliver [of n m] wp_bats_modify [of n m] step_to_refl)
    (auto intro!: step_toI simp: field_defs msg_step_def same_line_def)

lemma bats_delete_order_handled:
  assumes "tables_ok n m st" and "nat len \<le> length b"
  shows "succeeds (step_to n m st (\<lambda>se bk. if len = 14 then bk(ord_no_key (u64_at b 6) := None) else bk))
    (fh_bats_parse_delete_order_msg hooks b len st)"
  using assms unfolding fh_bats_parse_delete_order_msg_def FH_BATS_DELETE_ORDER_MSG_SIZE_def Let_def
  by (auto intro!: bats_step wp_bats_deliver [of n m] wp_bats_delete [of n m] step_to_refl)
    (auto intro!: step_toI simp: field_defs msg_step_def same_line_def)

lemma bats_trade_long_handled:
  assumes "tables_ok n m st" and "nat len \<le> length b"
  shows "succeeds (step_to n m st (\<lambda>se bk. bk))
    (fh_bats_parse_trade_long_msg hooks b len st)"
  using assms unfolding fh_bats_parse_trade_long_msg_def FH_BATS_TRADE_LONG_MSG_SIZE_def Let_def
  by (auto intro!: bats_step wp_bats_deliver [of n m] step_to_refl)
    (auto intro!: step_toI simp: field_defs msg_step_def same_line_def)

lemma bats_trade_short_handled:
  assumes "tables_ok n m st" and "nat len \<le> length b"
  shows "succeeds (step_to n m st (\<lambda>se bk. bk))
    (fh_bats_parse_trade_short_msg hooks b len st)"
  using assms unfolding fh_bats_parse_trade_short_msg_def FH_BATS_TRADE_SHORT_MSG_SIZE_def Let_def
  by (auto intro!: bats_step wp_bats_deliver [of n m] step_to_refl)
    (auto intro!: step_toI simp: field_defs msg_step_def same_line_def)

lemma bats_trade_break_handled:
  assumes "tables_ok n m st" and "nat len \<le> length b"
  shows "succeeds (step_to n m st (\<lambda>se bk. bk))
    (fh_bats_parse_trade_break_msg hooks b len st)"
  using assms unfolding fh_bats_parse_trade_break_msg_def FH_BATS_TRADE_BREAK_MSG_SIZE_def Let_def
  by (auto intro!: bats_step wp_bats_deliver [of n m] step_to_refl)
    (auto intro!: step_toI simp: field_defs msg_step_def same_line_def)

lemma bats_end_of_session_handled:
  assumes "tables_ok n m st" and "nat len \<le> length b"
  shows "succeeds (step_to n m st (\<lambda>se bk. bk))
    (fh_bats_parse_end_of_session_msg hooks b len st)"
  using assms unfolding fh_bats_parse_end_of_session_msg_def FH_BATS_END_OF_SESSION_MSG_SIZE_def Let_def
  by (auto intro!: bats_step wp_bats_deliver [of n m] step_to_refl)
    (auto intro!: step_toI simp: field_defs msg_step_def same_line_def)

end
