(* ===== verification/Bats.thy ===== *)
theory Bats
  imports BatsMsg
begin

section \<open>BATS packets (\<^verbatim>\<open>feeds/bats/multicast/common/fh_bats_parse.c\<close>)\<close>

text \<open>
  The parser of one message, the duplicate filter, the packet parser and initialisation.  Sequence
  numbers are filtered by packet: the filter looks at the number of a packet's first message only.
  The gap node found by the filter is a static variable of the file, kept from one packet to the
  next.
\<close>

subsection \<open>One message\<close>

text \<open>The \<^verbatim>\<open>switch\<close> on the type byte, the time message apart.\<close>

definition bats_dispatch ::
  "'d bats_hooks \<Rightarrow> u8 \<Rightarrow> u8 list \<Rightarrow> int \<Rightarrow> 'd bats_state \<Rightarrow> (bats_msg, 'd) handler_result" where
  "bats_dispatch hooks ty b len st =
    (if ty = 0x21 then fh_bats_parse_add_order_long_msg hooks b len st
     else if ty = 0x22 then fh_bats_parse_add_order_short_msg hooks b len st
     else if ty = 0x23 then fh_bats_parse_order_execute_msg hooks b len st
     else if ty = 0x24 then fh_bats_parse_order_execute_price_msg hooks b len st
     else if ty = 0x25 then fh_bats_parse_reduce_size_long_msg hooks b len st
     else if ty = 0x26 then fh_bats_parse_reduce_size_short_msg hooks b len st
     else if ty = 0x27 then fh_bats_parse_modify_order_long_msg hooks b len st
     else if ty = 0x28 then fh_bats_parse_modify_order_short_msg hooks b len st
     else if ty = 0x29 then fh_bats_parse_delete_order_msg hooks b len st
     else if ty = 0x2A then fh_bats_parse_trade_long_msg hooks b len st
     else if ty = 0x2B then fh_bats_parse_trade_short_msg hooks b len st
     else if ty = 0x2C then fh_bats_parse_trade_break_msg hooks b len st
     else if ty = 0x2D then fh_bats_parse_end_of_session_msg hooks b len st
     else Some (upd_stats (\<lambda>s. s\<lparr>st_message_errors := st_message_errors s + 1\<rparr>) st, FH_ERROR, None))"

definition fh_bats_parse_msg ::
  "'d bats_hooks \<Rightarrow> u8 list \<Rightarrow> int \<Rightarrow> 'd bats_state \<Rightarrow> ('d bats_state \<times> int) option" where
  "fh_bats_parse_msg hooks b len st =
    (let err = upd_stats (\<lambda>s. s\<lparr>st_message_errors := st_message_errors s + 1\<rparr>) in
     if len < 1 then Some (err st, -1)
     else do {
       l \<leftarrow> rd b 0;
       let msg_length = uint l;
       if len < msg_length then Some (err st, -1)
       else if msg_length < 6 then Some (err st, -1)
       else do {
         ty \<leftarrow> rd b 1;
         if ty = 0x20 then do {
           s \<leftarrow> ld32 b 2;
           Some (st\<lparr>lh_timestamp := ucast s * 1000000000\<rparr>, msg_length)
         }
         else do {
           (st, rc, data) \<leftarrow> bats_dispatch hooks ty b msg_length st;
           if rc \<noteq> FH_OK then Some (st, -1)
           else
             let (st, rc) = lh_send hooks data st
             in if rc \<noteq> FH_OK then Some (st, -1) else Some (st, msg_length)
         }
       }
     })"

subsection \<open>The duplicate filter\<close>

record bats_unit_header =
  bu_hdr_length :: u16
  bu_msg_count :: u8
  bu_unit :: u8
  bu_seq_no :: u32

text \<open>The count is loaded as 16 bits and stored in 8.\<close>

definition fh_bats_pitch20_extract :: "u8 list \<Rightarrow> bats_unit_header option" where
  "fh_bats_pitch20_extract b =
    do { hl \<leftarrow> ld16 b 0;
         c \<leftarrow> ld16 b 2;
         s \<leftarrow> ld32 b 4;
         u \<leftarrow> rd b 3;
         Some \<lparr>bu_hdr_length = hl, bu_msg_count = ucast c, bu_unit = u, bu_seq_no = s\<rparr> }"

definition bats_open_gap ::
  "'d bats_hooks \<Rightarrow> int \<Rightarrow> u64 \<Rightarrow> 'd bats_state \<Rightarrow> 'd bats_state option" where
  "bats_open_gap hooks now seq_no st =
    do {
      let st = upd_stats (\<lambda>s. s\<lparr>st_gaps := st_gaps s + 1\<rparr>) st;
      let gap_size = sint (ucast (seq_no - lh_next_seq_no st) :: u32);
      (st, rc) \<leftarrow> (case lh_gaplist st of
        Some l \<Rightarrow> do {
          (l, rc) \<leftarrow> fh_shr_gap_fill_push now l (lh_next_seq_no st) (word_of_int gap_size);
          let st = st\<lparr>lh_gaplist := Some l\<rparr>;
          if rc < 0 then
            Some (lh_alert hooks FH_ALERT_LOSS
              (upd_stats (\<lambda>s. s\<lparr>st_lost_messages := st_lost_messages s + word_of_int gap_size\<rparr>) st) rc)
          else if rc > 0 then
            Some (lh_alert hooks FH_ALERT_LOSS
              (upd_stats (\<lambda>s. s\<lparr>st_lost_messages := st_lost_messages s + word_of_int rc\<rparr>) st) rc)
          else Some (st, rc)
        }
      | None \<Rightarrow>
          Some (lh_alert hooks FH_ALERT_LOSS
            (upd_stats (\<lambda>s. s\<lparr>st_lost_messages := st_lost_messages s + word_of_int gap_size\<rparr>) st) 0));
      Some (fst (lh_alert hooks FH_ALERT_GAP (st\<lparr>lh_next_seq_no := seq_no\<rparr>) rc))
    }"

definition fh_bats_parse_duplicate ::
  "'d bats_hooks \<Rightarrow> int \<Rightarrow> u64 \<Rightarrow> 'd bats_state \<Rightarrow> ('d bats_state \<times> bool) option" where
  "fh_bats_parse_duplicate hooks now seq_no st =
    do {
      st \<leftarrow> lh_expire hooks now st;
      if seq_no < lh_next_seq_no st then do {
        l \<leftarrow> lh_gaplist st;
        p \<leftarrow> fh_shr_gap_fill_find l seq_no;
        Some (st\<lparr>lh_gapnode := p\<rparr>, p = None)
      }
      else if seq_no > lh_next_seq_no st then do {
        st \<leftarrow> bats_open_gap hooks now seq_no st;
        Some (st, False)
      }
      else Some (st, False)
    }"

subsection \<open>One packet\<close>

text \<open>
  While a gap is being filled, each message processed is taken out of the gap list; the result tells
  whether the gap is filled.
\<close>

definition bats_fill :: "'d bats_hooks \<Rightarrow> addr \<Rightarrow> 'd bats_state \<Rightarrow> ('d bats_state \<times> bool) option" where
  "bats_fill hooks c st =
    do {
      l \<leftarrow> lh_gaplist st;
      (l, p, rc) \<leftarrow> fh_shr_gap_fill_del l c (lh_next_seq_no st);
      let st = st\<lparr>lh_gaplist := Some l, lh_gapnode := p\<rparr>;
      let (st, rc) =
        (if rc = 0 then (upd_stats (\<lambda>s. s\<lparr>st_recovered_messages := st_recovered_messages s + 1\<rparr>) st, rc)
         else if rc > 0 then
           lh_alert hooks FH_ALERT_LOSS
             (upd_stats (\<lambda>s. s\<lparr>st_lost_messages := st_lost_messages s + word_of_int rc,
                               st_recovered_messages := st_recovered_messages s + 1\<rparr>) st) rc
         else (st, rc));
      if p = None \<and> gl_count l \<le> 0 then Some (fst (lh_alert hooks FH_ALERT_NOGAP st rc), True)
      else Some (st, p = None)
    }"

text \<open>
  The loop over the messages of a packet, \<open>k\<close> of them to come.  \<open>nps\<close> is the next expected number the
  line is left with; a filled gap ends the loop.
\<close>

fun bats_pkt_loop ::
  "'d bats_hooks \<Rightarrow> nat \<Rightarrow> u64 \<Rightarrow> u8 list \<Rightarrow> int \<Rightarrow> 'd bats_state \<Rightarrow> ('d bats_state \<times> fh_status) option" where
  "bats_pkt_loop hooks 0 nps b len st = Some (st\<lparr>lh_next_seq_no := nps\<rparr>, FH_OK)"
| "bats_pkt_loop hooks (Suc k) nps b len st =
     do {
       (st, used) \<leftarrow> fh_bats_parse_msg hooks b len st;
       if used < 0 then Some (st\<lparr>lh_next_seq_no := nps\<rparr>, FH_ERROR)
       else do {
         (st, nps, stop) \<leftarrow> (case lh_gapnode st of
             Some c \<Rightarrow> do { (st, stop) \<leftarrow> bats_fill hooks c st; Some (st, nps, stop) }
           | None \<Rightarrow> Some (st, nps + 1, False));
         bats_pkt_loop hooks (if stop then 0 else k) nps (drop (nat used) b) (len - used)
           (upd_stats (\<lambda>s. s\<lparr>st_messages := st_messages s + 1\<rparr>)
             (st\<lparr>lh_next_seq_no := lh_next_seq_no st + 1\<rparr>))
       }
     }"

definition FH_BATS_SEQUENCE_UNIT_HEADER_SIZE :: int where "FH_BATS_SEQUENCE_UNIT_HEADER_SIZE = 8"

definition fh_bats_parse_pkt ::
  "'d bats_hooks \<Rightarrow> int \<Rightarrow> u8 list \<Rightarrow> int \<Rightarrow> 'd bats_state \<Rightarrow> ('d bats_state \<times> fh_status) option" where
  "fh_bats_parse_pkt hooks now b len st =
    (let st = upd_stats (\<lambda>s. s\<lparr>st_bytes := st_bytes s + word_of_int len\<rparr>) st in
     if len < FH_BATS_SEQUENCE_UNIT_HEADER_SIZE then
       Some (upd_stats (\<lambda>s. s\<lparr>st_packet_errors := st_packet_errors s + 1\<rparr>) st, FH_ERROR)
     else do {
       hdr \<leftarrow> fh_bats_pitch20_extract b;
       let seq_no = ucast (bu_seq_no hdr);
       (st, dup) \<leftarrow> fh_bats_parse_duplicate hooks now seq_no st;
       if dup then
         Some (upd_stats (\<lambda>s. s\<lparr>st_duplicate_packets := st_duplicate_packets s + 1\<rparr>) st, FH_OK)
       else if bu_msg_count hdr = 0 then
         Some (if seq_no > lh_next_seq_no st then st\<lparr>lh_next_seq_no := seq_no\<rparr> else st, FH_OK)
       else
         let nps = (if lh_gapnode st \<noteq> None then lh_next_seq_no st else seq_no)
         in bats_pkt_loop hooks (unat (bu_msg_count hdr)) nps (drop 8 b) (len - 8)
              (st\<lparr>lh_next_seq_no := seq_no\<rparr>)
     })"

definition fh_bats_parse_init ::
  "bool \<Rightarrow> bool \<Rightarrow> bool \<Rightarrow> ptr \<Rightarrow> int \<Rightarrow> int \<Rightarrow> 'd bats_state \<Rightarrow> 'd bats_state \<times> fh_status" where
  "fh_bats_parse_init list_ok mp_ok name_ok arena gap_list_max gap_timeout st =
    (if gap_list_max > 0 then
       (st\<lparr>lh_gaplist := fh_shr_gap_fill_new list_ok mp_ok name_ok arena (word_of_int gap_list_max)
                             (word_of_int gap_timeout)\<rparr>, FH_OK)
     else (st, FH_OK))"

subsection \<open>Messages\<close>

definition bats_book_msg ::
  "nat \<Rightarrow> u8 \<Rightarrow> u8 list \<Rightarrow> int \<Rightarrow> ptr \<Rightarrow> (ord_key \<rightharpoonup> lkp_ord) \<Rightarrow> ord_key \<rightharpoonup> lkp_ord" where
  "bats_book_msg cap ty b len se bk =
    (if ty = 0x21 \<and> len = 34 then book_add cap (bats_entry_long b se) bk
     else if ty = 0x22 \<and> len = 26 then book_add cap (bats_entry_short b se) bk
     else if ty = 0x23 \<and> len = 26 then book_update (u64_at b 6) (exec_shares (u32_at b 14)) bk
     else if ty = 0x24 \<and> len = 38 then book_execute_price (u64_at b 6) (u32_at b 18) (u64_at b 30) bk
     else if ty = 0x25 \<and> len = 18 then book_update (u64_at b 6) (\<lambda>e. e\<lparr>lo_shares := lo_shares e - u32_at b 14\<rparr>) bk
     else if ty = 0x26 \<and> len = 16 then book_update (u64_at b 6) (\<lambda>e. e\<lparr>lo_shares := lo_shares e - ucast (u16_at b 14)\<rparr>) bk
     else if ty = 0x27 \<and> len = 27 then
       book_update (u64_at b 6) (\<lambda>e. e\<lparr>lo_shares := u32_at b 14, lo_price := u64_at b 18\<rparr>) bk
     else if ty = 0x28 \<and> len = 19 then
       book_update (u64_at b 6) (\<lambda>e. e\<lparr>lo_shares := ucast (u16_at b 14), lo_price := ucast (u16_at b 16) * 100\<rparr>) bk
     else if ty = 0x29 \<and> len = 14 then bk(ord_no_key (u64_at b 6) := None)
     else bk)"

lemma bats_dispatch_ok:
  assumes "tables_ok n m st" and "nat len \<le> length b"
  shows "succeeds (step_to n m st (bats_book_msg m ty b len)) (bats_dispatch hooks ty b len st)"
proof -
  note h = bats_add_order_long_handled bats_add_order_short_handled bats_order_execute_handled
    bats_order_execute_price_handled bats_reduce_size_long_handled bats_reduce_size_short_handled
    bats_modify_order_long_handled bats_modify_order_short_handled bats_delete_order_handled
    bats_trade_long_handled bats_trade_short_handled bats_trade_break_handled bats_end_of_session_handled
  have e: "step_to n m st f (upd_stats g st, rc, d)" if "\<And>se bk. f se bk = bk" for f g rc d
    using that assms(1) by (intro step_toI [where se = None]) (auto simp: same_line_def)
  show ?thesis
    unfolding bats_dispatch_def
    by (auto intro!: wp_return e simp: bats_book_msg_def)
      (rule step_to_cong [rotated], rule h [OF assms], simp add: bats_book_msg_def)+
qed

lemma bats_msg_ok:
  assumes ok: "tables_ok n m st" and b: "nat len \<le> length b"
  shows "\<exists>st' used. fh_bats_parse_msg hooks b len st = Some (st', used) \<and> same_line st st' \<and> tables_ok n m st' \<and>
    (if len < 1 \<or> len < uint (b ! 0) \<or> uint (b ! 0) < 6
     then used = -1 \<and> st' = upd_stats (\<lambda>s. s\<lparr>st_message_errors := st_message_errors s + 1\<rparr>) st
     else used \<in> {-1, uint (b ! 0)} \<and> (\<exists>se. book st' =
       (if lh_ord_enabled st then bats_book_msg m (b ! 1) b (uint (b ! 0)) se (book st) else Map.empty)))"
proof (cases "len < 1 \<or> len < uint (b ! 0) \<or> uint (b ! 0) < 6")
  case True
  have "rd b 0 = Some (b ! 0)" if "1 \<le> len"
  proof -
    have "0 < nat len" using that by simp
    then show ?thesis using b by (intro rd_Some) (rule less_le_trans)
  qed
  then show ?thesis using True ok by (auto simp: fh_bats_parse_msg_def Let_def same_line_def)
next
  case False
  let ?k = "uint (b ! 0)"
  have l: "nat ?k \<le> length b" "6 \<le> nat ?k" using False b nat_mono [of ?k len] by linarith+
  then have "6 \<le> length b" by linarith
  then have r: "rd b 0 = Some (b ! 0)" "rd b 1 = Some (b ! 1)" "6 \<le> length b" "nat ?k \<le> length b"
    using l(1) by (auto simp: rd_def)
  show ?thesis
  proof (cases "b ! 1 = 0x20")
    case t: True
    obtain w where "ld32 b 2 = Some w" using r(3) by (auto simp: ld32_def)
    moreover have "tables_ok n m (st\<lparr>lh_timestamp := x\<rparr>)" "book (st\<lparr>lh_timestamp := x\<rparr>) = book st" for x
      using ok by (simp_all add: tables_ok_def book_def)
    ultimately show ?thesis using t False r
      by (auto simp: fh_bats_parse_msg_def Let_def same_line_def bats_book_msg_def)
  next
    case nt: False
    obtain st1 rc data se where d: "bats_dispatch hooks (b ! 1) b ?k st = Some (st1, rc, data)"
      "msg_step n m st (if lh_ord_enabled st then bats_book_msg m (b ! 1) b ?k se (book st) else Map.empty) st1"
      using bats_dispatch_ok [OF ok r(4), of "b ! 1" hooks] by (auto simp: succeeds_def step_to_def simp del: One_nat_def)
    obtain st2 rc2 where s: "lh_send hooks data st1 = (st2, rc2)" by fastforce
    have s2: "tables_ok n m st2 \<and> book st2 = book st1 \<and> same_line st1 st2"
      using s d(2) by (auto simp: lh_send_def msg_step_def tables_ok_def book_def same_line_def split: option.splits)
    show ?thesis
    proof (cases "rc = FH_OK")
      case True
      have "same_line st st2" using s2 d(2) by (auto simp: msg_step_def intro: same_line_trans)
      then show ?thesis using True False nt r d s s2
        by (auto simp: fh_bats_parse_msg_def Let_def msg_step_def)
    next
      case f: False
      then show ?thesis using False nt r d by (auto simp: fh_bats_parse_msg_def Let_def msg_step_def)
    qed
  qed
qed

subsection \<open>Packets\<close>

text \<open>A packet at or ahead of the line, with no gap being filled.\<close>

lemma bats_loop_fresh:
  assumes "tables_ok n m st" and "lh_gapnode st = None" and "lh_next_seq_no st = nps" and "nat len \<le> length b"
  shows "\<exists>st' rc j. bats_pkt_loop hooks k nps b len st = Some (st', rc) \<and> tables_ok n m st' \<and> lh_gapnode st' = None \<and>
    lh_gaplist st' = lh_gaplist st \<and> lh_next_seq_no st' = nps + of_nat j \<and> j \<le> k \<and>
    rc = (if j = k then FH_OK else FH_ERROR)"
  using assms
proof (induction k arbitrary: nps b len st)
  case 0
  then show ?case by (auto simp: tables_ok_def)
next
  case (Suc k)
  obtain st1 used where p: "fh_bats_parse_msg hooks b len st = Some (st1, used)" "same_line st st1" "tables_ok n m st1"
    "used = -1 \<or> used = uint (b ! 0) \<and> used \<le> len"
    using bats_msg_ok [OF Suc.prems(1,4), of hooks] by (auto split: if_splits)
  have g: "lh_gapnode st1 = None" "lh_next_seq_no st1 = nps" "lh_gaplist st1 = lh_gaplist st"
    using p(2) Suc.prems by (auto simp: same_line_def)
  show ?case
  proof (cases "used = -1")
    case True
    then show ?thesis using p g by (intro exI [of _ "st1\<lparr>lh_next_seq_no := nps\<rparr>"] exI [of _ FH_ERROR] exI [of _ 0]) auto
  next
    case False
    then have u: "0 \<le> used" "used \<le> len" using p(4) by auto
    let ?st2 = "upd_stats (\<lambda>s. s\<lparr>st_messages := st_messages s + 1\<rparr>) (st1\<lparr>lh_next_seq_no := lh_next_seq_no st1 + 1\<rparr>)"
    have "nat (len - used) \<le> length (drop (nat used) b)" using Suc.prems(4) u by auto
    then obtain st' rc j where r: "bats_pkt_loop hooks k (nps + 1) (drop (nat used) b) (len - used) ?st2 = Some (st', rc)"
      "tables_ok n m st'" "lh_gapnode st' = None" "lh_gaplist st' = lh_gaplist ?st2" "lh_next_seq_no st' = nps + 1 + of_nat j"
      "j \<le> k" "rc = (if j = k then FH_OK else FH_ERROR)"
      using Suc.IH [of ?st2 "nps + 1" "len - used" "drop (nat used) b"] p(3) g by auto
    have "bats_pkt_loop hooks (Suc k) nps b len st = Some (st', rc)" using p(1) u g(1) r(1) by simp
    then show ?thesis using r(2-7) g by (intro exI [of _ st'] exI [of _ rc] exI [of _ "Suc j"]) (auto simp: algebra_simps)
  qed
qed

lemma bats_gap_frame:
  assumes "lh_gaplist st = Some l" and "fh_shr_gap_fill_push now l (lh_next_seq_no st)
      (word_of_int (sint (ucast (seq_no - lh_next_seq_no st) :: u32))) = Some (l', rc)"
  shows "\<exists>st'. bats_open_gap hooks now seq_no st = Some st' \<and> lh_gaplist st' = Some l' \<and> lh_next_seq_no st' = seq_no \<and>
    (\<forall>n m. tables_ok n m st' = tables_ok n m st) \<and> book st' = book st \<and> lh_gapnode st' = lh_gapnode st"
  using assms
  by (cases "hook_alert hooks"; cases "rc < 0"; cases "0 < rc")
    (simp_all add: bats_open_gap_def Let_def lh_alert_def tables_ok_def book_def)

lemma expire_gapnode:
  assumes "lh_expire hooks now st = Some st'"
  shows "lh_gapnode st' = lh_gapnode st"
proof (cases "lh_gaplist st")
  case (Some l)
  then show ?thesis
    using assms by (cases "fh_shr_gap_fill_flush now l"; cases "hook_alert hooks"; cases "gl_count l > 0")
      (auto simp: lh_expire_def Let_def lh_alert_def split: if_splits)
qed (use assms in \<open>simp add: lh_expire_def\<close>)

lemma bats_filter_fresh:
  assumes ok: "line_ok n m st" and le: "lh_next_seq_no st \<le> seq_no"
    and near: "unat seq_no < unat (lh_next_seq_no st) + 2 ^ 32"
  shows "\<exists>st'. fh_bats_parse_duplicate hooks now seq_no st = Some (st', False) \<and> line_ok n m st' \<and> book st' = book st \<and>
    lh_gapnode st' = lh_gapnode st \<and> lh_next_seq_no st' = seq_no \<and>
    {unat (lh_next_seq_no st)..<unat seq_no} \<subseteq> line_gaps st' \<and>
    line_gaps st' \<subseteq> line_gaps st \<union> {unat (lh_next_seq_no st)..<unat seq_no}"
proof -
  obtain st1 where e: "lh_expire hooks now st = Some st1" "line_ok n m st1" "book st1 = book st"
    "lh_next_seq_no st1 = lh_next_seq_no st" "line_gaps st1 \<subseteq> line_gaps st"
    using expire_ok [OF ok, of hooks now] by blast
  note gn = expire_gapnode [OF e(1)]
  show ?thesis
  proof (cases "seq_no = lh_next_seq_no st")
    case True
    then show ?thesis using e gn by (auto simp: fh_bats_parse_duplicate_def)
  next
    case False
    then have q: "lh_next_seq_no st1 < seq_no" using le e(4) by simp
    have near1: "unat seq_no < unat (lh_next_seq_no st1) + 2 ^ 32" using near e(4) by simp
    obtain l where l: "lh_gaplist st1 = Some l" using e(2) by (auto simp: line_ok_def gaps_ok_def)
    show ?thesis
    proof (rule line_push [OF e(2) q near1 l, of now])
      fix l' rc assume p: "fh_shr_gap_fill_push now l (lh_next_seq_no st1)
          (word_of_int (sint (ucast (seq_no - lh_next_seq_no st1) :: u32))) = Some (l', rc)" "gap_inv l'"
        "missing l' \<subseteq> line_gaps st1 \<union> {unat (lh_next_seq_no st1)..<unat seq_no}"
        "{unat (lh_next_seq_no st1)..<unat seq_no} \<subseteq> missing l'" "\<forall>x\<in>missing l'. x < unat seq_no"
      obtain st2 where d: "bats_open_gap hooks now seq_no st1 = Some st2" "lh_gaplist st2 = Some l'"
        "lh_next_seq_no st2 = seq_no" "tables_ok n m st2 = tables_ok n m st1" "book st2 = book st1" "lh_gapnode st2 = lh_gapnode st1"
        using bats_gap_frame [OF l p(1), of hooks] by blast
      have "\<not> seq_no < lh_next_seq_no st1" using q by simp
      then have "fh_bats_parse_duplicate hooks now seq_no st = Some (st2, False)"
        using e(1) d(1) q by (simp add: fh_bats_parse_duplicate_def)
      moreover have "line_ok n m st2" using d p(2,5) e(2) by (simp add: line_ok_def gaps_ok_def line_gaps_def)
      moreover have "line_gaps st2 = missing l'" using d(2) by (simp add: line_gaps_def)
      ultimately show ?thesis using d p(3,4) e gn by auto
    qed
  qed
qed

subsection \<open>Little-endian fields\<close>

definition le_bytes :: "nat \<Rightarrow> 'a::len word \<Rightarrow> u8 list" where
  "le_bytes n w = map (\<lambda>i. ucast (drop_bit (8 * i) w)) [0..<n]"

lemma le_bytes_length [simp]: "length (le_bytes n w) = n"
  by (simp add: le_bytes_def)

lemma le_bytes_nth: "i < n \<Longrightarrow> le_bytes n w ! i = ucast (drop_bit (8 * i) w)"
  by (simp add: le_bytes_def)

lemma rd_bytes_mid: "rd_bytes (pre @ xs @ rest) (length pre) (length xs) = Some xs"
  by (simp add: rd_bytes_def)

lemma ld16_le: "ld16 (pre @ le_bytes 2 (w :: u16) @ rest) (length pre) = Some w"
proof -
  have "ucast (ucast w :: u8) OR push_bit 8 (ucast (ucast (drop_bit 8 w) :: u8)) = w"
    by (rule bit_word_eqI) (auto simp: bit_simps)
  then show ?thesis by (simp add: ld16_def rd_def nth_append le_bytes_nth)
qed

lemma bit_field:
  "bit (push_bit i (ucast (ucast (drop_bit i (w :: 'a::len word)) :: u8)) :: 'a word) k \<longleftrightarrow> i \<le> k \<and> k < i + 8 \<and> bit w k"
  by (auto simp: bit_simps dest: bit_imp_le_length)

lemma ld32_le: "ld32 (pre @ le_bytes 4 (w :: u32) @ rest) (length pre) = Some w"
proof -
  let ?b = "\<lambda>i. push_bit i (ucast (ucast (drop_bit i w) :: u8)) :: u32"
  have "?b 0 OR ?b 8 OR ?b 16 OR ?b 24 = w"
  proof (rule bit_word_eqI)
    fix k :: nat assume "k < LENGTH(32)"
    then have "k < 32" by simp
    then show "bit (?b 0 OR ?b 8 OR ?b 16 OR ?b 24) k = bit w k" unfolding bit_or_iff bit_field by arith
  qed
  then show ?thesis using rd_bytes_mid [of pre "le_bytes 4 w" rest] by (simp add: ld32_def le_bytes_nth)
qed

lemma ld64_le: "ld64 (pre @ le_bytes 8 (w :: u64) @ rest) (length pre) = Some w"
proof -
  let ?b = "\<lambda>i. push_bit i (ucast (ucast (drop_bit i w) :: u8)) :: u64"
  have "?b 0 OR ?b 8 OR ?b 16 OR ?b 24 OR ?b 32 OR ?b 40 OR ?b 48 OR ?b 56 = w"
  proof (rule bit_word_eqI)
    fix k :: nat assume "k < LENGTH(64)"
    then have "k < 64" by simp
    then show "bit (?b 0 OR ?b 8 OR ?b 16 OR ?b 24 OR ?b 32 OR ?b 40 OR ?b 48 OR ?b 56) k = bit w k"
      unfolding bit_or_iff bit_field by arith
  qed
  then show ?thesis using rd_bytes_mid [of pre "le_bytes 8 w" rest] by (simp add: ld64_def le_bytes_nth)
qed

definition add_order_long_wire ::
  "u32 \<Rightarrow> u64 \<Rightarrow> u8 \<Rightarrow> u32 \<Rightarrow> u8 list \<Rightarrow> u64 \<Rightarrow> u8 \<Rightarrow> u8 list" where
  "add_order_long_wire ts order_id side shares stock price flags =
     [34, 0x21] @ le_bytes 4 ts @ le_bytes 8 order_id @ [side] @ le_bytes 4 shares @ stock @ le_bytes 8 price @ [flags]"

subsection \<open>Properties\<close>

text \<open>Decoding of an order: a long add-order message in the wire format is delivered with exactly the
  order number, side, share count, stock, price and flags it was encoded from and with the time of
  the last time message added to its own, after the symbol was looked up and the order entered in
  the order table.\<close>

lemma bats_add_order_decodes:
  assumes "length stock = 6"
  shows "fh_bats_parse_add_order_long_msg hooks (add_order_long_wire ts no side shares stock price flags) 34 st =
    do { (st1, se) \<leftarrow> lh_fetch_symbol stock st;
         (st2, ord) \<leftarrow> bats_order_add no price shares side stock se st1;
         let b = add_order_long_wire ts no side shares stock price flags;
         Some (bats_deliver hooks KAddLong
           (BAddLong \<lparr>al_hdr = \<lparr>bh_msg_type = 0x21, bh_seq_no = lh_next_seq_no st, bh_timestamp = lh_timestamp st + ucast ts\<rparr>,
              al_order_id = no, al_side = side, al_shares = shares, al_stock = stock, al_price = price,
              al_add_flags = flags, al_sym_entry = se, al_ord_entry = ord, al_raw = \<lparr>br_message = b, br_len = 34\<rparr>\<rparr>)
           b 34 st2) }"
proof -
  let ?b = "add_order_long_wire ts no side shares stock price flags"
  let ?h = "[34, 0x21] @ le_bytes 4 ts @ le_bytes 8 no :: u8 list"
  have "bats_header_of ?b st = Some \<lparr>bh_msg_type = 0x21, bh_seq_no = lh_next_seq_no st, bh_timestamp = lh_timestamp st + ucast ts\<rparr>"
    using ld32_le [of "[34, 0x21]" ts] by (simp add: bats_header_of_def add_order_long_wire_def rd_def numeral_2_eq_2)
  moreover have "ld64 ?b 6 = Some no"
    using ld64_le [of "[34, 0x21] @ le_bytes 4 ts" no] by (simp add: add_order_long_wire_def)
  moreover have "rd ?b 14 = Some side" by (simp add: rd_def add_order_long_wire_def nth_append)
  moreover have "ld32 ?b 15 = Some shares"
    using ld32_le [of "?h @ [side]" shares] by (simp add: add_order_long_wire_def)
  moreover have "rd_bytes ?b 19 6 = Some stock"
    using rd_bytes_mid [of "?h @ [side] @ le_bytes 4 shares" stock] assms by (simp add: add_order_long_wire_def)
  moreover have "ld64 ?b 25 = Some price"
    using ld64_le [of "?h @ [side] @ le_bytes 4 shares @ stock" price] assms by (simp add: add_order_long_wire_def)
  moreover have "rd ?b 33 = Some flags" using assms by (simp add: rd_def add_order_long_wire_def nth_append)
  ultimately show ?thesis
    by (simp add: fh_bats_parse_add_order_long_msg_def FH_BATS_ADD_ORDER_LONG_MSG_SIZE_def bats_raw_of_def Let_def)
qed

text \<open>C6. Effect of a message: on a line with well-formed tables a message block is either rejected without
  any effect but an error count, or it has on the order book exactly the effect its type, length and
  fields have; the parser never faults, and touches neither the sequence number nor the gap list.\<close>

theorem bats_message_effect:
  assumes "tables_ok n m st" and "nat len \<le> length b"
  shows "\<exists>st' used. fh_bats_parse_msg hooks b len st = Some (st', used) \<and> tables_ok n m st' \<and>
    lh_next_seq_no st' = lh_next_seq_no st \<and> lh_gaplist st' = lh_gaplist st \<and> lh_gapnode st' = lh_gapnode st \<and>
    (if len < 1 \<or> len < uint (b ! 0) \<or> uint (b ! 0) < 6
     then used = -1 \<and> st' = upd_stats (\<lambda>s. s\<lparr>st_message_errors := st_message_errors s + 1\<rparr>) st
     else used \<in> {-1, uint (b ! 0)} \<and> (\<exists>se. book st' =
       (if lh_ord_enabled st then bats_book_msg m (b ! 1) b (uint (b ! 0)) se (book st) else Map.empty)))"
proof -
  obtain st' used where "fh_bats_parse_msg hooks b len st = Some (st', used)" "same_line st st'" "tables_ok n m st'"
    "if len < 1 \<or> len < uint (b ! 0) \<or> uint (b ! 0) < 6
     then used = -1 \<and> st' = upd_stats (\<lambda>s. s\<lparr>st_message_errors := st_message_errors s + 1\<rparr>) st
     else used \<in> {-1, uint (b ! 0)} \<and> (\<exists>se. book st' =
       (if lh_ord_enabled st then bats_book_msg m (b ! 1) b (uint (b ! 0)) se (book st) else Map.empty))"
    using bats_msg_ok [OF assms, of hooks] by blast
  then show ?thesis by (intro exI [of _ st'] exI [of _ used]) (simp only: same_line_def simp_thms)
qed

lemma unit_header_Some: "8 \<le> length b \<Longrightarrow> \<exists>hdr. fh_bats_pitch20_extract b = Some hdr"
  by (auto simp: fh_bats_pitch20_extract_def ld16_def ld32_def rd_def)

text \<open>The state a packet is looked at with.\<close>

abbreviation (input) count_bytes :: "int \<Rightarrow> 'd bats_state \<Rightarrow> 'd bats_state" where
  "count_bytes len st \<equiv> upd_stats (\<lambda>s. s\<lparr>st_bytes := st_bytes s + word_of_int len\<rparr>) st"

lemma u32_seq_near: "unat (ucast (w :: u32) :: u64) < 2 ^ 32"
  using unat_lt [of w] by (simp add: unat_ucast_up)

lemma bats_fresh_pkt:
  assumes ok: "line_ok n m st" and g: "lh_gapnode st = None" and len: "8 \<le> len" "nat len \<le> length b"
    and h: "fh_bats_pitch20_extract b = Some hdr" and le: "lh_next_seq_no st \<le> ucast (bu_seq_no hdr)"
  shows "\<exists>st' rc j. fh_bats_parse_pkt hooks now b len st = Some (st', rc) \<and> line_ok n m st' \<and> lh_gapnode st' = None \<and>
    lh_next_seq_no st' = ucast (bu_seq_no hdr) + of_nat j \<and> j \<le> unat (bu_msg_count hdr) \<and>
    rc = (if j = unat (bu_msg_count hdr) then FH_OK else FH_ERROR) \<and>
    {unat (lh_next_seq_no st)..<unat (bu_seq_no hdr)} \<subseteq> line_gaps st' \<and>
    line_gaps st' \<subseteq> line_gaps st \<union> {unat (lh_next_seq_no st)..<unat (bu_seq_no hdr)}"
proof -
  let ?s = "ucast (bu_seq_no hdr) :: u64" and ?st = "count_bytes len st" and ?k = "unat (bu_msg_count hdr)"
  have us: "unat ?s = unat (bu_seq_no hdr)" by (simp add: unat_ucast_up)
  have near: "unat ?s < unat (lh_next_seq_no ?st) + 2 ^ 32" using u32_seq_near [of "bu_seq_no hdr"] by linarith
  have "line_ok n m ?st" "lh_next_seq_no ?st \<le> ?s" using ok le by simp_all
  then obtain st1 where d: "fh_bats_parse_duplicate hooks now ?s ?st = Some (st1, False)" "line_ok n m st1"
    "lh_gapnode st1 = None" "lh_next_seq_no st1 = ?s"
    "{unat (lh_next_seq_no st)..<unat ?s} \<subseteq> line_gaps st1"
    "line_gaps st1 \<subseteq> line_gaps st \<union> {unat (lh_next_seq_no st)..<unat ?s}"
    using bats_filter_fresh [OF _ _ near, of n m hooks now] g by auto
  show ?thesis
  proof (cases "bu_msg_count hdr = 0")
    case True
    then show ?thesis using d h len us
      by (intro exI [of _ st1] exI [of _ FH_OK] exI [of _ 0])
        (simp add: fh_bats_parse_pkt_def FH_BATS_SEQUENCE_UNIT_HEADER_SIZE_def Let_def)
  next
    case False
    let ?st1 = "st1\<lparr>lh_next_seq_no := ?s\<rparr>"
    have "tables_ok n m ?st1" "nat (len - 8) \<le> length (drop 8 b)" using d(2) len by (auto simp: line_ok_def)
    then obtain st' rc j where r: "bats_pkt_loop hooks ?k ?s (drop 8 b) (len - 8) ?st1 = Some (st', rc)"
      "tables_ok n m st'" "lh_gapnode st' = None" "lh_gaplist st' = lh_gaplist st1" "lh_next_seq_no st' = ?s + of_nat j"
      "j \<le> ?k" "rc = (if j = ?k then FH_OK else FH_ERROR)"
      using bats_loop_fresh [of n m ?st1 ?s "len - 8" "drop 8 b" hooks ?k] d(3) by auto
    have "fh_bats_parse_pkt hooks now b len st = Some (st', rc)"
      using len h d(1,3) False r(1) by (simp add: fh_bats_parse_pkt_def FH_BATS_SEQUENCE_UNIT_HEADER_SIZE_def Let_def)
    moreover have lg: "line_gaps st' = line_gaps st1" using r(4) by (simp add: line_gaps_def)
    moreover have "?s \<le> lh_next_seq_no st'"
    proof -
      have "j < 256" using r(6) unat_lt [of "bu_msg_count hdr"] by simp
      then have "unat ?s + j < 2 ^ 64" using u32_seq_near [of "bu_seq_no hdr"] by simp
      then show ?thesis unfolding r(5) word_le_nat_alt by (simp add: unat_word_ariths unat_of_nat)
    qed
    then have "line_ok n m st'"
      using d(2,4) r(2,4) by (auto simp: line_ok_def gaps_ok_def line_gaps_def word_le_nat_alt)
    ultimately show ?thesis using r d(5,6) us by auto
  qed
qed


text \<open>A packet behind the line whose first number is not missing.\<close>

lemma bats_duplicate_pkt:
  assumes ok: "line_ok n m st" and len: "8 \<le> len" and h: "fh_bats_pitch20_extract b = Some hdr"
    and lt: "ucast (bu_seq_no hdr) < lh_next_seq_no st" and nm: "unat (bu_seq_no hdr) \<notin> line_gaps st"
  shows "\<exists>st'. fh_bats_parse_pkt hooks now b len st = Some (st', FH_OK) \<and> line_ok n m st' \<and> lh_gapnode st' = None \<and>
    lh_next_seq_no st' = lh_next_seq_no st \<and> book st' = book st \<and> line_gaps st' \<subseteq> line_gaps st"
proof -
  let ?s = "ucast (bu_seq_no hdr) :: u64" and ?st = "count_bytes len st"
  have us: "unat ?s = unat (bu_seq_no hdr)" by (simp add: unat_ucast_up)
  have ok': "line_ok n m ?st" using ok by simp
  obtain st1 where e: "lh_expire hooks now ?st = Some st1" "line_ok n m st1" "book st1 = book st"
    "lh_next_seq_no st1 = lh_next_seq_no st" "line_gaps st1 \<subseteq> line_gaps st"
    using expire_ok [OF ok', of hooks now] by auto
  obtain l where l: "lh_gaplist st1 = Some l" "gap_inv l" "line_gaps st1 = missing l"
    using e(2) by (auto simp: line_ok_def gaps_ok_def line_gaps_def)
  have "fh_shr_gap_fill_find l ?s = Some None"
    using gl.look_law [OF l(2), of ?s] nm e(5) l(3) us by auto
  then show ?thesis using len h lt e l
    by (simp add: fh_bats_parse_pkt_def fh_bats_parse_duplicate_def FH_BATS_SEQUENCE_UNIT_HEADER_SIZE_def Let_def)
qed

text \<open>Packets whose first number is not missing: no gap is filled.\<close>

definition fills_no_gap :: "'d bats_state \<Rightarrow> int \<times> u8 list \<times> int \<Rightarrow> bool" where
  "fills_no_gap st = (\<lambda>(now, b, len). nat len \<le> length b \<and>
     (case fh_bats_pitch20_extract b of None \<Rightarrow> True | Some hdr \<Rightarrow> unat (bu_seq_no hdr) \<notin> line_gaps st))"

abbreviation bats_packet :: "'d bats_hooks \<Rightarrow> int \<times> u8 list \<times> int \<Rightarrow> 'd bats_state \<Rightarrow> ('d bats_state \<times> fh_status) option" where
  "bats_packet hooks \<equiv> \<lambda>(now, b, len). fh_bats_parse_pkt hooks now b len"

lemma bats_pkt_unfilled:
  assumes ok: "line_ok n m st" "lh_gapnode st = None" and len: "nat len \<le> length b"
    and nm: "\<forall>hdr. fh_bats_pitch20_extract b = Some hdr \<longrightarrow> unat (bu_seq_no hdr) \<notin> line_gaps st"
  shows "\<exists>st' rc. fh_bats_parse_pkt hooks now b len st = Some (st', rc) \<and> line_ok n m st' \<and> lh_gapnode st' = None \<and>
    lh_next_seq_no st \<le> lh_next_seq_no st'"
proof (cases "len < 8")
  case True
  then show ?thesis using ok
    by (simp add: fh_bats_parse_pkt_def FH_BATS_SEQUENCE_UNIT_HEADER_SIZE_def Let_def)
next
  case False
  then have l8: "8 \<le> len" "8 \<le> length b" using len by auto
  obtain hdr where h: "fh_bats_pitch20_extract b = Some hdr" using unit_header_Some [OF l8(2)] by blast
  show ?thesis
  proof (cases "lh_next_seq_no st \<le> ucast (bu_seq_no hdr)")
    case True
    obtain st' rc j where r: "fh_bats_parse_pkt hooks now b len st = Some (st', rc)" "line_ok n m st'" "lh_gapnode st' = None"
      "lh_next_seq_no st' = ucast (bu_seq_no hdr) + of_nat j" "j \<le> unat (bu_msg_count hdr)"
      using bats_fresh_pkt [OF ok l8(1) len h True, of hooks now] by blast
    have "j < 256" using r(5) unat_lt [of "bu_msg_count hdr"] by simp
    then have "unat (ucast (bu_seq_no hdr) :: u64) + j < 2 ^ 64" using u32_seq_near [of "bu_seq_no hdr"] by simp
    then have "ucast (bu_seq_no hdr) \<le> lh_next_seq_no st'"
      unfolding r(4) word_le_nat_alt by (simp add: unat_word_ariths unat_of_nat)
    then show ?thesis using r True by (meson order_trans)
  next
    case False
    then have "ucast (bu_seq_no hdr) < lh_next_seq_no st" by simp
    then show ?thesis using bats_duplicate_pkt [OF ok(1) l8(1) h, of hooks now] nm h by auto
  qed
qed

interpretation bats_line: total_machine "bats_packet hooks" fills_no_gap
  "\<lambda>st. line_ok n m st \<and> lh_gapnode st = None" "\<lambda>st st'. lh_next_seq_no st \<le> lh_next_seq_no st'"
  for hooks :: "'d bats_hooks" and n m
proof unfold_locales
  fix st :: "'d bats_state" and i assume ok: "line_ok n m st \<and> lh_gapnode st = None" and i: "fills_no_gap st i"
  obtain now b len where "i = (now, b, len)" by (cases i)
  then show "\<exists>st' rc. bats_packet hooks i st = Some (st', rc) \<and> (line_ok n m st' \<and> lh_gapnode st' = None) \<and>
      lh_next_seq_no st \<le> lh_next_seq_no st'"
    using bats_pkt_unfilled [of n m st len b hooks now] ok i by (simp add: fills_no_gap_def split: option.splits)
qed auto

text \<open>C8. As long as no packet fills a gap, any sequence of packets, whatever their bytes, is parsed
  without a fault, keeps the line well formed and never moves the next expected number back.\<close>

theorem bats_run_safe:
  assumes "line_ok n m st" and "lh_gapnode st = None" and "reach (bats_packet hooks) fills_no_gap st st1"
    and "fills_no_gap st1 (now, b, len)"
  shows "\<exists>st2 rc. fh_bats_parse_pkt hooks now b len st1 = Some (st2, rc) \<and> line_ok n m st2 \<and>
    lh_next_seq_no st \<le> lh_next_seq_no st1 \<and> lh_next_seq_no st1 \<le> lh_next_seq_no st2"
  using bats_line.reach_total [OF assms(3), of n m "(now, b, len)"] assms(1,2,4) by auto

text \<open>A node that ends below the number to take out is left alone by the gap list.\<close>

lemma del_outside:
  assumes "unat (gn_seq_no (gap_at l c)) + unat (gn_size (gap_at l c)) \<le> unat q" and "gn_size (gap_at l c) \<noteq> 0"
  shows "fh_shr_gap_fill_del l c q = Some (l, Some c, 0)"
proof -
  let ?s = "gn_seq_no (gap_at l c)" and ?z = "ucast (gn_size (gap_at l c)) :: u64"
  have z: "unat ?z = unat (gn_size (gap_at l c))" by (simp add: unat_ucast_up)
  have zp: "0 < unat ?z" using assms(2) z by (simp add: unat_gt_0)
  have sum: "unat ?s + unat ?z < 2 ^ 64" using assms(1) unat_lt [of q] z by simp
  then have e: "unat (?s + ?z) = unat ?s + unat ?z" by (simp add: unat_word_ariths)
  have "?s \<noteq> q" using assms(1) zp z by auto
  moreover have "1 \<le> ?s + ?z" using e zp by (simp add: word_le_nat_alt)
  then have e1: "unat (?s + ?z - 1) = unat ?s + unat ?z - 1" using e by (simp add: unat_sub)
  then have "?s + ?z - 1 \<noteq> q" using assms(1) zp z by auto
  moreover have "\<not> q < ?s + ?z - 1" using e1 assms(1) z by (simp add: word_less_nat_alt)
  ultimately show ?thesis using assms(2)
    by (simp add: fh_shr_gap_fill_del_def gap_del_step_def gap_del_finish_def Let_def)
qed

lemma bats_loop_stale:
  assumes "tables_ok n m st" and "lh_gaplist st = Some l" and "lh_gapnode st = Some c" and "nat len \<le> length b"
    and "unat (gn_seq_no (gap_at l c)) + unat (gn_size (gap_at l c)) \<le> unat (lh_next_seq_no st)"
    and "gn_size (gap_at l c) \<noteq> 0" and "unat (lh_next_seq_no st) + k < 2 ^ 64"
  shows "\<exists>st' rc. bats_pkt_loop hooks k nps b len st = Some (st', rc) \<and> lh_next_seq_no st' = nps \<and>
    lh_gaplist st' = Some l \<and> lh_gapnode st' = Some c"
  using assms
proof (induction k arbitrary: b len st)
  case (Suc k)
  obtain st1 used where p: "fh_bats_parse_msg hooks b len st = Some (st1, used)" "same_line st st1" "tables_ok n m st1"
    "used = -1 \<or> used = uint (b ! 0) \<and> used \<le> len"
    using bats_msg_ok [OF Suc.prems(1,4), of hooks] by (auto split: if_splits)
  have g: "lh_gaplist st1 = Some l" "lh_gapnode st1 = Some c" "lh_next_seq_no st1 = lh_next_seq_no st"
    using p(2) Suc.prems(2,3) by (auto simp: same_line_def)
  show ?case
  proof (cases "used = -1")
    case True
    then show ?thesis using p g by simp
  next
    case False
    then have u: "0 \<le> used" "used \<le> len" using p(4) by auto
    let ?st2 = "upd_stats (\<lambda>s. s\<lparr>st_recovered_messages := st_recovered_messages s + 1\<rparr>)
      (st1\<lparr>lh_gaplist := Some l, lh_gapnode := Some c\<rparr>)"
    let ?st3 = "upd_stats (\<lambda>s. s\<lparr>st_messages := st_messages s + 1\<rparr>) (?st2\<lparr>lh_next_seq_no := lh_next_seq_no ?st2 + 1\<rparr>)"
    have f: "bats_fill hooks c st1 = Some (?st2, False)"
      using del_outside [OF Suc.prems(5,6)] g by (simp add: bats_fill_def Let_def)
    have nx: "unat (lh_next_seq_no st + 1) = unat (lh_next_seq_no st) + 1"
      using Suc.prems(7) by (simp add: unat_word_ariths)
    have "nat (len - used) \<le> length (drop (nat used) b)" using Suc.prems(4) u by auto
    then obtain st' rc where "bats_pkt_loop hooks k nps (drop (nat used) b) (len - used) ?st3 = Some (st', rc)"
      "lh_next_seq_no st' = nps" "lh_gaplist st' = Some l" "lh_gapnode st' = Some c"
      using Suc.IH [of ?st3 "len - used" "drop (nat used) b"] p(3) g Suc.prems(5-7) nx by auto
    then show ?thesis using p(1) u g(2) f by simp
  qed
qed simp

text \<open>A gap node left over from a packet that filled part of its gap: while it is not expired, a packet
  with exactly the expected number is processed and then expected again, since its messages are
  counted as recovered and the next expected number is not moved.\<close>

lemma bats_stale_gap_node:
  assumes "tables_ok n m st" and "lh_gaplist st = Some l" and "lh_gapnode st = Some c"
    and "unat (gn_seq_no (gap_at l c)) + unat (gn_size (gap_at l c)) \<le> unat (lh_next_seq_no st)"
    and "gn_size (gap_at l c) \<noteq> 0" and "fh_shr_gap_fill_flush now l = Some (l, 0)"
    and "8 \<le> len" and "nat len \<le> length b"
    and "fh_bats_pitch20_extract b = Some hdr" and "lh_next_seq_no st = ucast (bu_seq_no hdr)"
  shows "\<exists>st' rc. fh_bats_parse_pkt hooks now b len st = Some (st', rc) \<and>
    lh_next_seq_no st' = ucast (bu_seq_no hdr) \<and> lh_gaplist st' = Some l \<and> lh_gapnode st' = Some c"
proof -
  let ?st = "count_bytes len st" and ?s = "ucast (bu_seq_no hdr) :: u64" and ?k = "unat (bu_msg_count hdr)"
  obtain st1 where e: "lh_expire hooks now ?st = Some st1" "lh_gaplist st1 = Some l" "lh_next_seq_no st1 = ?s"
    "tables_ok n m st1"
    using expire_frame [of ?st l now l 0 hooks] assms(1,2,6,10) by (auto split: if_splits)
  have gn: "lh_gapnode st1 = Some c" using expire_gapnode [OF e(1)] assms(3) by simp
  have d: "fh_bats_parse_duplicate hooks now ?s ?st = Some (st1, False)"
    using e(1,3) by (simp add: fh_bats_parse_duplicate_def)
  show ?thesis
  proof (cases "bu_msg_count hdr = 0")
    case True
    then show ?thesis using assms(7,9) d e gn
      by (simp add: fh_bats_parse_pkt_def FH_BATS_SEQUENCE_UNIT_HEADER_SIZE_def Let_def)
  next
    case False
    have "nat (len - 8) \<le> length (drop 8 b)" "unat ?s + ?k < 2 ^ 64"
      using assms(7,8) u32_seq_near [of "bu_seq_no hdr"] unat_lt [of "bu_msg_count hdr"] by auto
    then obtain st' rc where "bats_pkt_loop hooks ?k ?s (drop 8 b) (len - 8) (st1\<lparr>lh_next_seq_no := ?s\<rparr>) = Some (st', rc)"
      "lh_next_seq_no st' = ?s" "lh_gaplist st' = Some l" "lh_gapnode st' = Some c"
      using bats_loop_stale [of n m "st1\<lparr>lh_next_seq_no := ?s\<rparr>" l c "len - 8" "drop 8 b" ?k hooks ?s] assms(4,5,10) e gn
      by auto
    then show ?thesis using assms(7,9) d e(3) gn False
      by (simp add: fh_bats_parse_pkt_def FH_BATS_SEQUENCE_UNIT_HEADER_SIZE_def Let_def)
  qed
qed

subsection \<open>Witnesses\<close>

definition bats_ex_hooks :: "unit bats_hooks" where
  "bats_ex_hooks = \<lparr>hook_alert = None, hook_msg_send = None, hook_msg = \<lambda>_. None\<rparr>"

definition bats_ex_stats :: fh_info_stats where
  "bats_ex_stats = \<lparr>st_packets = 0, st_messages = 0, st_bytes = 0, st_packet_errors = 0, st_message_errors = 0,
     st_duplicate_packets = 0, st_gaps = 0, st_lost_messages = 0, st_recovered_messages = 0\<rparr>"

text \<open>A line with an empty gap list that expects number 1, without lookup tables or hooks.\<close>

definition bats_ex_line :: "unit bats_state" where
  "bats_ex_line = \<lparr>lh_gaplist = Some ex_gaps0, lh_gapnode = None, lh_inorder = True, lh_next_seq_no = 1, lh_timestamp = 7,
     lh_stats = bats_ex_stats, lh_sym_enabled = False, lh_ord_enabled = False,
     lh_symbol_table = ex_symbols, lh_order_table = ex_orders, lh_trace = []\<rparr>"

text \<open>A packet with number 30 and one message that announces a trade break.\<close>

definition bats_ex_pkt :: "u8 list" where
  "bats_ex_pkt = [22, 0, 1, 0, 30, 0, 0, 0] @ [14, 0x2C, 5, 0, 0, 0, 9, 0, 0, 0, 0, 0, 0, 0]"

lemma bats_ex_pkt_header:
  "fh_bats_pitch20_extract bats_ex_pkt = Some \<lparr>bu_hdr_length = 22, bu_msg_count = 1, bu_unit = 0, bu_seq_no = 30\<rparr>"
  by (simp add: bats_ex_pkt_def fh_bats_pitch20_extract_def ld16_def ld32_def rd_def rd_bytes_def)

lemma bats_ex_line_ok: "line_ok 2 2 bats_ex_line" "lh_gapnode bats_ex_line = None" "lh_next_seq_no bats_ex_line = 1"
  "line_gaps bats_ex_line = {}"
  using ex_gaps0_inv by (simp_all add: bats_ex_line_def line_ok_def tables_ok_def gaps_ok_def line_gaps_def)

theorem bats_message_effect_witness:
  "\<exists>st' used. fh_bats_parse_msg bats_ex_hooks (drop 8 bats_ex_pkt) 14 bats_ex_line = Some (st', used) \<and>
     used \<in> {-1, 14} \<and> lh_next_seq_no st' = 1"
  using bats_message_effect [of 2 2 bats_ex_line 14 "drop 8 bats_ex_pkt" bats_ex_hooks] bats_ex_line_ok
  by (auto simp: bats_ex_pkt_def line_ok_def)


theorem bats_run_safe_witness:
  "\<exists>st2 rc. fh_bats_parse_pkt bats_ex_hooks 100 bats_ex_pkt 22 bats_ex_line = Some (st2, rc) \<and> line_ok 2 2 st2"
proof -
  have "length bats_ex_pkt = 22" by (simp add: bats_ex_pkt_def)
  then show ?thesis
    using bats_run_safe [OF bats_ex_line_ok(1,2) reach_start, of 100 bats_ex_pkt 22 bats_ex_hooks] bats_ex_line_ok(4)
    by (auto simp: fills_no_gap_def bats_ex_pkt_header)
qed

end
