(* ===== verification/Fast.thy ===== *)
theory Fast
  imports Machine
begin

section \<open>The FAST codec (\<^verbatim>\<open>feeds/opra/fast/codec/fast_api.c\<close>)\<close>

text \<open>
  The codec under the OPRA feed: stop-bit coded integers and strings, the presence map of a message,
  the current value of every tag and the field operators that use it.

  The sources hold two builds of the codec, chosen by \<^verbatim>\<open>FAST_OPTIMIZE\<close>, which \<^verbatim>\<open>fast_api.h\<close> sets to 1.
  The optimised build has the decoder only, without its checks and with static string buffers; the
  other one has the encoder too.  Where the builds differ the definitions take the switch as
  \<open>opt\<close>.

  A codec's arrays are lists of the declared lengths; an access outside of them, or a read past the
  bytes behind the input pointer, is a fault (\<open>None\<close>).
\<close>

subsection \<open>State\<close>

text \<open>Tags: type, operator, template and slot packed in 32 bits.\<close>

definition TAG_MAX_SLOT :: u32 where "TAG_MAX_SLOT = 0xff"
definition TAG_MAX_TID :: u32 where "TAG_MAX_TID = 0xf"
definition TAG_MAX_OP :: u32 where "TAG_MAX_OP = 0xf"
definition TAG_MAX_TYPE :: u32 where "TAG_MAX_TYPE = 0xf"

definition get_tag_op :: "u32 \<Rightarrow> u32" where "get_tag_op tag = drop_bit 24 tag AND TAG_MAX_OP"
definition get_tag_slot :: "u32 \<Rightarrow> u32" where "get_tag_slot tag = drop_bit 0 tag AND TAG_MAX_SLOT"
definition get_tag_tid :: "u32 \<Rightarrow> u32" where "get_tag_tid tag = drop_bit 12 tag AND TAG_MAX_TID"
definition get_tag_type :: "u32 \<Rightarrow> u32" where "get_tag_type tag = drop_bit 28 tag AND TAG_MAX_TYPE"

definition MAKE_TAG :: "u32 \<Rightarrow> u32 \<Rightarrow> u32 \<Rightarrow> u32 \<Rightarrow> u32" where
  "MAKE_TAG type op tid slot = push_bit 28 type OR push_bit 24 op OR push_bit 12 tid OR push_bit 0 slot"

definition FAST_OP_NONE :: u32 where "FAST_OP_NONE = 0"
definition FAST_OP_COPY :: u32 where "FAST_OP_COPY = 1"
definition FAST_OP_INCR :: u32 where "FAST_OP_INCR = 2"
definition FAST_OP_DELTA :: u32 where "FAST_OP_DELTA = 3"

definition FAST_TYPE_U32 :: u32 where "FAST_TYPE_U32 = 1"
definition FAST_TYPE_I32 :: u32 where "FAST_TYPE_I32 = 2"
definition FAST_TYPE_STR :: u32 where "FAST_TYPE_STR = 3"

datatype fast_error =
    FAST_ERR_NONE | FAST_ERR_CODEC | FAST_ERR_SIZE | FAST_ERR_VALUE | FAST_ERR_TAG_OP | FAST_ERR_TAG_TYPE
  | FAST_ERR_CALL_SEQ | FAST_ERR_IO

definition MAX_TAG :: nat where "MAX_TAG = 64"
definition MAX_PMAP_BYTES :: nat where "MAX_PMAP_BYTES = 8"
definition MAX_PMAP_BITS :: nat where "MAX_PMAP_BITS = 7 * MAX_PMAP_BYTES"
definition MAX_MSG_SIZE :: nat where "MAX_MSG_SIZE = 2048"
definition FAST_CODEC_MAGIC :: u32 where "FAST_CODEC_MAGIC = 0xC0DEC"

text \<open>The current values of the tags of a template.  A string value is a pointer to a buffer, or NULL.\<close>

record fast_cv =
  i32_values :: "u32 list"
  u32_values :: "u32 list"
  str_values :: "nat option list"
  cv_valid :: "u32 list"

record fast_pmap =
  pm_bits :: "u8 list"
  pm_size :: u32
  pm_max_pos :: u32

text \<open>
  The buffers: of the message and output buffers the bytes from head to tail, of the input buffer
  the bytes from its head on and the distance of the tail.  The error's function name and text are left
  out.
\<close>

record fast_codec =
  fc_magic :: u32
  fc_pmap :: fast_pmap
  fc_msg :: "u8 list"
  fc_output :: "u8 list"
  fc_input :: "u8 list"
  fc_input_left :: int
  fc_cv :: "fast_cv list"
  fc_curr_tag :: u32
  fc_in_message :: int
  fc_error_tag :: u32
  fc_error_code :: fast_error
  fc_strings :: "nat \<Rightarrow> u8 list"

definition array_get :: "'a list \<Rightarrow> nat \<Rightarrow> 'a option" where
  "array_get xs i = (if i < length xs then Some (xs ! i) else None)"

definition array_set :: "'a list \<Rightarrow> nat \<Rightarrow> 'a \<Rightarrow> 'a list option" where
  "array_set xs i x = (if i < length xs then Some (xs[i := x]) else None)"

definition buffer_empty_p :: "fast_codec \<Rightarrow> bool" where
  "buffer_empty_p codec \<longleftrightarrow> fc_input_left codec \<le> 0"

subsection \<open>Current values\<close>

definition cv_get_tag_state :: "fast_codec \<Rightarrow> u32 \<Rightarrow> fast_cv option" where
  "cv_get_tag_state codec tag = array_get (fc_cv codec) (unat (get_tag_tid tag))"

definition cv_get_i32 :: "fast_codec \<Rightarrow> u32 \<Rightarrow> u32 option" where
  "cv_get_i32 codec tag =
    do { cv \<leftarrow> cv_get_tag_state codec tag; array_get (i32_values cv) (unat (get_tag_slot tag)) }"

definition cv_get_u32 :: "fast_codec \<Rightarrow> u32 \<Rightarrow> u32 option" where
  "cv_get_u32 codec tag =
    do { cv \<leftarrow> cv_get_tag_state codec tag; array_get (u32_values cv) (unat (get_tag_slot tag)) }"

definition cv_put :: "fast_codec \<Rightarrow> u32 \<Rightarrow> fast_cv \<Rightarrow> fast_codec option" where
  "cv_put codec tag cv =
    do { cvs \<leftarrow> array_set (fc_cv codec) (unat (get_tag_tid tag)) cv; Some (codec\<lparr>fc_cv := cvs\<rparr>) }"

definition cv_set_valid :: "fast_codec \<Rightarrow> u32 \<Rightarrow> fast_codec option" where
  "cv_set_valid codec tag =
    do { cv \<leftarrow> cv_get_tag_state codec tag;
         v \<leftarrow> array_set (cv_valid cv) (unat (get_tag_slot tag)) 1;
         cv_put codec tag (cv\<lparr>cv_valid := v\<rparr>) }"

definition cv_is_valid :: "fast_codec \<Rightarrow> u32 \<Rightarrow> bool option" where
  "cv_is_valid codec tag =
    do { cv \<leftarrow> cv_get_tag_state codec tag;
         v \<leftarrow> array_get (cv_valid cv) (unat (get_tag_slot tag));
         Some (v \<noteq> 0) }"

definition cv_set_i32 :: "fast_codec \<Rightarrow> u32 \<Rightarrow> u32 \<Rightarrow> fast_codec option" where
  "cv_set_i32 codec tag data =
    do { cv \<leftarrow> cv_get_tag_state codec tag;
         v \<leftarrow> array_set (i32_values cv) (unat (get_tag_slot tag)) data;
         codec \<leftarrow> cv_put codec tag (cv\<lparr>i32_values := v\<rparr>);
         cv_set_valid codec tag }"

definition cv_set_u32 :: "fast_codec \<Rightarrow> u32 \<Rightarrow> u32 \<Rightarrow> fast_codec option" where
  "cv_set_u32 codec tag data =
    do { cv \<leftarrow> cv_get_tag_state codec tag;
         v \<leftarrow> array_set (u32_values cv) (unat (get_tag_slot tag)) data;
         codec \<leftarrow> cv_put codec tag (cv\<lparr>u32_values := v\<rparr>);
         cv_set_valid codec tag }"

text \<open>
  The string buffer of a tag, 1024 bytes, allocated at its first use: in the optimised build the
  static buffer of the slot, otherwise one of the tag's own, with whatever bytes \<^verbatim>\<open>malloc\<close> returns.
\<close>

definition cv_get_str :: "bool \<Rightarrow> fast_codec \<Rightarrow> u32 \<Rightarrow> (fast_codec \<times> nat) option" where
  "cv_get_str opt codec tag =
    do { cv \<leftarrow> cv_get_tag_state codec tag;
         let slot = unat (get_tag_slot tag);
         p \<leftarrow> array_get (str_values cv) slot;
         case p of
           Some a \<Rightarrow> Some (codec, a)
         | None \<Rightarrow> do {
             let a = (if opt then slot else 255 + MAX_TAG * unat (get_tag_tid tag) + slot);
             codec \<leftarrow> cv_put codec tag (cv\<lparr>str_values := (str_values cv)[slot := Some a]\<rparr>);
             s \<leftarrow> array_set (fc_strings codec a) 0 0;
             Some (codec\<lparr>fc_strings := (fc_strings codec)(a := s)\<rparr>, a)
           } }"

text \<open>\<^verbatim>\<open>memcpy(dst + off, src, n)\<close>, a fault when either array is too short or the length is negative.\<close>

definition mem_copy :: "'a list \<Rightarrow> nat \<Rightarrow> 'a list \<Rightarrow> int \<Rightarrow> 'a list option" where
  "mem_copy dst off src n =
    (if 0 \<le> n \<and> nat n \<le> length src \<and> off + nat n \<le> length dst
     then Some (take off dst @ take (nat n) src @ drop (off + nat n) dst) else None)"

definition cv_set_str :: "bool \<Rightarrow> fast_codec \<Rightarrow> u32 \<Rightarrow> u8 list \<Rightarrow> int \<Rightarrow> fast_codec option" where
  "cv_set_str opt codec tag data len =
    do { (codec, a) \<leftarrow> cv_get_str opt codec tag;
         s \<leftarrow> mem_copy (fc_strings codec a) 0 data len;
         s \<leftarrow> array_set s (nat len) 0;
         cv_set_valid (codec\<lparr>fc_strings := (fc_strings codec)(a := s)\<rparr>) tag }"

definition cv_eq_u32 :: "fast_codec \<Rightarrow> u32 \<Rightarrow> u32 \<Rightarrow> bool option" where
  "cv_eq_u32 codec tag data =
    do { v \<leftarrow> cv_is_valid codec tag;
         if v then do { x \<leftarrow> cv_get_u32 codec tag; Some (x = data) } else Some False }"

definition cv_eq_i32 :: "fast_codec \<Rightarrow> u32 \<Rightarrow> u32 \<Rightarrow> bool option" where
  "cv_eq_i32 codec tag data =
    do { v \<leftarrow> cv_is_valid codec tag;
         if v then do { x \<leftarrow> cv_get_i32 codec tag; Some (x = data) } else Some False }"

text \<open>\<^verbatim>\<open>strncmp(a, b, n) == 0\<close> and \<^verbatim>\<open>strlen\<close> over arrays; \<open>None\<close> when they run off an array.\<close>

fun str_neq :: "u8 list \<Rightarrow> u8 list \<Rightarrow> nat \<Rightarrow> bool option" where
  "str_neq a b 0 = Some False"
| "str_neq (x # a) (y # b) (Suc n) = (if x \<noteq> y then Some True else if x = 0 then Some False else str_neq a b n)"
| "str_neq a b (Suc n) = None"

definition str_len :: "u8 list \<Rightarrow> nat option" where
  "str_len s = (if 0 \<in> set s then Some (length (takeWhile (\<lambda>c. c \<noteq> 0) s)) else None)"

definition cv_eq_str :: "bool \<Rightarrow> fast_codec \<Rightarrow> u32 \<Rightarrow> u8 list \<Rightarrow> int \<Rightarrow> (fast_codec \<times> bool) option" where
  "cv_eq_str opt codec tag data len =
    do { (codec, a) \<leftarrow> cv_get_str opt codec tag;
         v \<leftarrow> cv_is_valid codec tag;
         if \<not> v then Some (codec, False)
         else if len < 0 then None
         else do {
           d \<leftarrow> str_neq (fc_strings codec a) data (nat len);
           if \<not> d then Some (codec, False)
           else if nat len \<le> length (fc_strings codec a) \<and> nat len \<le> length data
           then Some (codec, take (nat len) (fc_strings codec a) = take (nat len) data)
           else None
         } }"

subsection \<open>Errors\<close>

definition set_err :: "fast_codec \<Rightarrow> u32 \<Rightarrow> fast_error \<Rightarrow> fast_codec \<times> int" where
  "set_err codec tag code = (codec\<lparr>fc_error_tag := tag, fc_error_code := code\<rparr>, -1)"

text \<open>
  In the optimised build the checks are macros whose value, 0 or 1, is compared with \<^verbatim>\<open>< 0\<close>: they never
  reject.
\<close>

definition check_codec :: "bool \<Rightarrow> fast_codec \<Rightarrow> fast_codec \<times> int" where
  "check_codec opt codec =
    (if opt then (codec, 1)
     else if fc_magic codec \<noteq> FAST_CODEC_MAGIC then set_err codec (-1) FAST_ERR_CODEC
     else (codec, 0))"

definition check_type :: "bool \<Rightarrow> fast_codec \<Rightarrow> u32 \<Rightarrow> u32 \<Rightarrow> fast_codec \<times> int" where
  "check_type opt codec tag type =
    (if opt then (codec, if tag \<noteq> 0 \<and> type \<noteq> 0 then 1 else 0)
     else if get_tag_type tag \<noteq> type then set_err codec tag FAST_ERR_TAG_TYPE
     else (codec, 0))"

definition bad_op_error :: "fast_codec \<Rightarrow> u32 \<Rightarrow> fast_codec \<times> int" where
  "bad_op_error codec tag = set_err codec tag FAST_ERR_TAG_OP"

definition value_error :: "fast_codec \<Rightarrow> u32 \<Rightarrow> fast_codec \<times> int" where
  "value_error codec tag = set_err codec tag FAST_ERR_VALUE"

subsection \<open>The presence map\<close>

definition get_pmap :: "fast_codec \<Rightarrow> u32 \<Rightarrow> u8 option" where
  "get_pmap codec tag =
    (let pos = get_tag_slot tag in
     if pos \<ge> pm_size (fc_pmap codec) then Some 0
     else array_get (pm_bits (fc_pmap codec)) (unat pos))"

definition reset_pmap :: "fast_codec \<Rightarrow> fast_codec" where
  "reset_pmap codec =
    codec\<lparr>fc_pmap := (fc_pmap codec)\<lparr>pm_bits := replicate MAX_PMAP_BITS 0, pm_max_pos := 0\<rparr>\<rparr>"

definition set_pmap :: "fast_codec \<Rightarrow> u32 \<Rightarrow> (fast_codec \<times> int) option" where
  "set_pmap codec tag =
    (let pos = get_tag_slot tag; pm = fc_pmap codec in
     if pos > pm_max_pos pm \<and> unat pos \<ge> MAX_PMAP_BITS then Some (set_err codec tag FAST_ERR_SIZE)
     else do {
       let pm = (if pos > pm_max_pos pm then pm\<lparr>pm_max_pos := pos\<rparr> else pm);
       bits \<leftarrow> array_set (pm_bits pm) (unat pos) 1;
       Some (codec\<lparr>fc_pmap := pm\<lparr>pm_bits := bits\<rparr>\<rparr>, 0)
     })"

definition bit_mask :: "u32 list" where
  "bit_mask = [64, 32, 16, 8, 4, 2, 1, 0]"

definition align7 :: "u32 \<Rightarrow> u32" where
  "align7 x = (x + 7 - 1) div 7"

text \<open>Seven bits in a byte.\<close>

definition pack7 :: "u8 list \<Rightarrow> u8" where
  "pack7 bits = ucast (fold (\<lambda>p2 temp. if bits ! p2 > 0 then temp OR bit_mask ! p2 else temp) [0..<7] 0)"

definition unpack7 :: "u8 \<Rightarrow> u8 list" where
  "unpack7 b = map (\<lambda>p2. if (ucast b AND bit_mask ! p2) \<noteq> 0 then 1 else 0) [0..<7]"

definition emit_pmap :: "fast_codec \<Rightarrow> u8 list option" where
  "emit_pmap codec =
    (let n = unat (align7 (pm_max_pos (fc_pmap codec) + 1)); bits = pm_bits (fc_pmap codec) in
     if 7 * n \<le> length bits \<and> 0 < n
     then let data = map (\<lambda>p1. pack7 (take 7 (drop (7 * p1) bits))) [0..<n]
          in Some (data[n - 1 := data ! (n - 1) OR 0x80])
     else None)"

subsection \<open>Parsing\<close>

text \<open>
  Bytes up to one with the stop bit.  The result is the input left, the array written and the
  number of bytes, \<open>-1\<close> at the end of the input; \<open>None\<close> within it when the array is full.
\<close>

fun parse_bytes_loop ::
  "u8 list \<Rightarrow> int \<Rightarrow> u8 list \<Rightarrow> nat \<Rightarrow> nat \<Rightarrow> (u8 list \<times> int \<times> u8 list \<times> int option) option" where
  "parse_bytes_loop inp left data p1 0 = Some (inp, left, data, None)"
| "parse_bytes_loop inp left data p1 (Suc k) =
    (if left \<le> 0 then Some (inp, left, data, Some (-1))
     else case inp of
            [] \<Rightarrow> None
          | temp # inp \<Rightarrow> do {
              data \<leftarrow> array_set data p1 temp;
              if temp \<ge> 0x80
              then Some (inp, left - 1, data[p1 := temp AND 0x7f], Some (int p1 + 1))
              else parse_bytes_loop inp (left - 1) data (p1 + 1) k
            })"

definition parse_bytes ::
  "bool \<Rightarrow> fast_codec \<Rightarrow> u8 list \<Rightarrow> nat \<Rightarrow> (fast_codec \<times> u8 list \<times> int) option" where
  "parse_bytes opt codec data n =
    do { data \<leftarrow> (if opt then Some data else mem_copy data 0 (replicate n 0) (int n));
         (inp, left, data, r) \<leftarrow> parse_bytes_loop (fc_input codec) (fc_input_left codec) data 0 n;
         let codec = codec\<lparr>fc_input := inp, fc_input_left := left\<rparr>;
         case r of
           Some rc \<Rightarrow> Some (codec, data, rc)
         | None \<Rightarrow> (case set_err codec (-1) FAST_ERR_SIZE of (codec, rc) \<Rightarrow> Some (codec, data, rc)) }"

text \<open>The local arrays start with arbitrary bytes in C; only the bytes just parsed are read.\<close>

definition parse_pmap :: "bool \<Rightarrow> fast_codec \<Rightarrow> (fast_codec \<times> int) option" where
  "parse_pmap opt codec =
    do { (codec, data, n) \<leftarrow> parse_bytes opt codec (replicate MAX_PMAP_BYTES 0) MAX_PMAP_BYTES;
         if n < 0 then Some (codec, n)
         else do {
           bits \<leftarrow> mem_copy (pm_bits (fc_pmap codec)) 0 (concat (map unpack7 (take (nat n) data))) (7 * n);
           Some (codec\<lparr>fc_pmap := (fc_pmap codec)\<lparr>pm_bits := bits, pm_size := word_of_int (7 * n)\<rparr>\<rparr>, n)
         } }"

definition SIGN_MASK_I32 :: u8 where "SIGN_MASK_I32 = 0x40"
definition SIGN_MASK_U32 :: u8 where "SIGN_MASK_U32 = 0x00"

definition join7 :: "u8 \<Rightarrow> u8 list \<Rightarrow> u32" where
  "join7 sign_mask bs =
    foldl (\<lambda>temp b. push_bit 7 temp OR ucast b) (if bs ! 0 AND sign_mask \<noteq> 0 then -1 else 0) bs"

definition parse_32 :: "bool \<Rightarrow> fast_codec \<Rightarrow> u32 \<Rightarrow> u8 \<Rightarrow> (fast_codec \<times> int \<times> u32) option" where
  "parse_32 opt codec tag sign_mask =
    do { p \<leftarrow> get_pmap codec tag;
         if p = 0 then Some (codec, 0, 0)
         else do {
           (codec, data, n) \<leftarrow> parse_bytes opt codec (replicate 5 0) 5;
           if n < 0 then Some (codec, n, 0)
           else Some (codec, n, join7 sign_mask (take (nat n) data))
         } }"

definition parse_u32 :: "bool \<Rightarrow> fast_codec \<Rightarrow> u32 \<Rightarrow> (fast_codec \<times> int \<times> u32) option" where
  "parse_u32 opt codec tag = parse_32 opt codec tag SIGN_MASK_U32"

definition parse_i32 :: "bool \<Rightarrow> fast_codec \<Rightarrow> u32 \<Rightarrow> (fast_codec \<times> int \<times> u32) option" where
  "parse_i32 opt codec tag = parse_32 opt codec tag SIGN_MASK_I32"

definition parse_str :: "bool \<Rightarrow> fast_codec \<Rightarrow> u32 \<Rightarrow> u8 list \<Rightarrow> nat \<Rightarrow> (fast_codec \<times> u8 list \<times> int) option" where
  "parse_str opt codec tag data n =
    do { p \<leftarrow> get_pmap codec tag;
         if p = 0 then Some (codec, data, 0) else parse_bytes opt codec data n }"

subsection \<open>Decoding\<close>

definition fast_set_input_buffer :: "fast_codec \<Rightarrow> u8 list \<Rightarrow> int \<Rightarrow> fast_codec" where
  "fast_set_input_buffer codec buf n = codec\<lparr>fc_input := buf, fc_input_left := n\<rparr>"

definition fast_decode_new_msg :: "bool \<Rightarrow> fast_codec \<Rightarrow> (fast_codec \<times> int) option" where
  "fast_decode_new_msg opt codec =
    (case check_codec opt codec of (codec, rc) \<Rightarrow> if rc < 0 then Some (codec, -1) else parse_pmap opt codec)"

definition fast_decode_end_msg :: "bool \<Rightarrow> fast_codec \<Rightarrow> fast_codec \<times> int" where
  "fast_decode_end_msg opt codec =
    (case check_codec opt codec of (codec, rc) \<Rightarrow> if rc < 0 then (codec, -1) else (codec, 0))"

text \<open>
  Decoders return the codec, the return code and the value stored through the caller's pointer, if
  one is.
\<close>

type_synonym 'v decoded = "(fast_codec \<times> int \<times> 'v option) option"

abbreviation (input) failed :: "fast_codec \<times> int \<Rightarrow> 'v decoded" where
  "failed r \<equiv> Some (fst r, snd r, None)"

text \<open>The operators of \<^verbatim>\<open>fast_decode_u32\<close>: the codec and the next value, or the error to return.\<close>

definition decode_u32_next :: "bool \<Rightarrow> fast_codec \<Rightarrow> u32 \<Rightarrow> ((fast_codec \<times> int) + (fast_codec \<times> u32)) option" where
  "decode_u32_next opt codec tag =
    (let op = get_tag_op tag in
     if op = FAST_OP_NONE then do {
       (codec, n, x) \<leftarrow> parse_u32 opt codec tag;
       if n < 0 then Some (Inl (codec, -1))
       else if n = 0 then Some (Inl (value_error codec tag))
       else Some (Inr (codec, x))
     }
     else if op = FAST_OP_COPY then do {
       (codec, n, x) \<leftarrow> parse_u32 opt codec tag;
       if n < 0 then Some (Inl (codec, -1))
       else if n = 0 then do {
         v \<leftarrow> cv_is_valid codec tag;
         if \<not> v then Some (Inl (value_error codec tag))
         else do { x \<leftarrow> cv_get_u32 codec tag; Some (Inr (codec, x)) }
       }
       else Some (Inr (codec, x))
     }
     else if op = FAST_OP_INCR then do {
       (codec, n, x) \<leftarrow> parse_u32 opt codec tag;
       if n < 0 then Some (Inl (codec, -1))
       else if n = 0 then do {
         v \<leftarrow> cv_is_valid codec tag;
         if \<not> v then Some (Inl (value_error codec tag))
         else do { x \<leftarrow> cv_get_u32 codec tag; Some (Inr (codec, x + 1)) }
       }
       else Some (Inr (codec, x))
     }
     else if op = FAST_OP_DELTA then do {
       v \<leftarrow> cv_is_valid codec tag;
       if v then do {
         (codec, n, delta) \<leftarrow> parse_i32 opt codec tag;
         if n < 0 then Some (Inl (codec, -1))
         else do {
           x \<leftarrow> cv_get_u32 codec tag;
           Some (Inr (codec, if n > 0 then x + delta else x))
         }
       }
       else do {
         (codec, n, x) \<leftarrow> parse_u32 opt codec tag;
         if n < 0 then Some (Inl (codec, -1))
         else if n = 0 then Some (Inl (value_error codec tag))
         else Some (Inr (codec, x))
       }
     }
     else Some (Inl (bad_op_error codec tag)))"

definition fast_decode_u32 :: "bool \<Rightarrow> fast_codec \<Rightarrow> u32 \<Rightarrow> u32 decoded" where
  "fast_decode_u32 opt codec tag =
    (let (codec, rc) = check_codec opt codec in
     if rc < 0 then Some (codec, -1, None)
     else let (codec, rc) = check_type opt codec tag FAST_TYPE_U32 in
     if rc < 0 then Some (codec, -1, None)
     else do {
       r \<leftarrow> decode_u32_next opt codec tag;
       case r of
         Inl e \<Rightarrow> failed e
       | Inr (codec, x) \<Rightarrow> do {
           codec \<leftarrow> cv_set_u32 codec tag x;
           v \<leftarrow> cv_get_u32 codec tag;
           Some (codec, 0, Some v)
         }
     })"

text \<open>The operators of \<^verbatim>\<open>fast_decode_i32\<close>, which set the current value themselves.\<close>

definition decode_i32_next :: "bool \<Rightarrow> fast_codec \<Rightarrow> u32 \<Rightarrow> ((fast_codec \<times> int) + fast_codec) option" where
  "decode_i32_next opt codec tag =
    (let op = get_tag_op tag in
     if op = FAST_OP_NONE then do {
       (codec, n, temp) \<leftarrow> parse_i32 opt codec tag;
       if n > 0 then do { codec \<leftarrow> cv_set_i32 codec tag temp; Some (Inr codec) }
       else if n < 0 then Some (Inl (codec, -1))
       else Some (Inl (value_error codec tag))
     }
     else if op = FAST_OP_COPY then do {
       (codec, n, temp) \<leftarrow> parse_i32 opt codec tag;
       if n = 0 then Some (Inr codec)
       else if n < 0 then Some (Inl (codec, -1))
       else do { codec \<leftarrow> cv_set_i32 codec tag temp; Some (Inr codec) }
     }
     else if op = FAST_OP_INCR then do {
       (codec, n, temp) \<leftarrow> parse_i32 opt codec tag;
       if n < 0 then Some (Inl (codec, -1))
       else if n = 0 then do {
         v \<leftarrow> cv_is_valid codec tag;
         if \<not> v then Some (Inl (value_error codec tag))
         else do {
           x \<leftarrow> cv_get_i32 codec tag;
           codec \<leftarrow> cv_set_i32 codec tag (x + 1);
           Some (Inr codec)
         }
       }
       else do { codec \<leftarrow> cv_set_i32 codec tag temp; Some (Inr codec) }
     }
     else if op = FAST_OP_DELTA then do {
       v \<leftarrow> cv_is_valid codec tag;
       (codec, n, x) \<leftarrow> parse_i32 opt codec tag;
       if n < 0 then Some (Inl (codec, -1))
       else if v then
         if n > 0 then do {
           old \<leftarrow> cv_get_i32 codec tag;
           codec \<leftarrow> cv_set_i32 codec tag (old + x);
           Some (Inr codec)
         }
         else Some (Inr codec)
       else if n = 0 then Some (Inl (value_error codec tag))
       else do { codec \<leftarrow> cv_set_i32 codec tag x; Some (Inr codec) }
     }
     else Some (Inl (bad_op_error codec tag)))"

definition fast_decode_i32 :: "bool \<Rightarrow> fast_codec \<Rightarrow> u32 \<Rightarrow> u32 decoded" where
  "fast_decode_i32 opt codec tag =
    (let (codec, rc) = check_codec opt codec in
     if rc < 0 then Some (codec, -1, None)
     else let (codec, rc) = check_type opt codec tag FAST_TYPE_I32 in
     if rc < 0 then Some (codec, -1, None)
     else do {
       r \<leftarrow> decode_i32_next opt codec tag;
       case r of
         Inl e \<Rightarrow> failed e
       | Inr codec \<Rightarrow> do { v \<leftarrow> cv_get_i32 codec tag; Some (codec, 0, Some v) }
     })"

text \<open>
  Strings: \<open>data\<close> is the caller's array, \<open>n\<close> the size passed.  Under \<^verbatim>\<open>FAST_OP_DELTA\<close> the number of bytes is
  unsigned, so the error code of the parser is a huge count.
\<close>

definition fast_decode_str ::
  "bool \<Rightarrow> fast_codec \<Rightarrow> u32 \<Rightarrow> u8 list \<Rightarrow> nat \<Rightarrow> (fast_codec \<times> int \<times> u8 list) option" where
  "fast_decode_str opt codec tag data n =
    (let op = get_tag_op tag; (codec, rc) = check_codec opt codec in
     if rc < 0 then Some (codec, -1, data)
     else let (codec, rc) = check_type opt codec tag FAST_TYPE_STR in
     if rc < 0 then Some (codec, -1, data)
     else if op = FAST_OP_NONE then do {
       (codec, data, k) \<leftarrow> parse_str opt codec tag data n;
       if k < 0 then Some (codec, -1, data)
       else if k = 0 then Some (fst (value_error codec tag), -1, data)
       else Some (codec, 0, data)
     }
     else if op = FAST_OP_COPY then do {
       (codec, data, k) \<leftarrow> parse_str opt codec tag data n;
       if k < 0 then Some (codec, -1, data)
       else if k > 0 then do {
         codec \<leftarrow> cv_set_str opt codec tag data (int n);
         Some (codec, if k < int n then k else int n, data)
       }
       else do {
         (codec, a) \<leftarrow> cv_get_str opt codec tag;
         data \<leftarrow> mem_copy data 0 (fc_strings codec a) (int n);
         k \<leftarrow> str_len data;
         Some (codec, if int k < int n then int k else int n, data)
       }
     }
     else if op = FAST_OP_INCR then Some (fst (bad_op_error codec tag), -1, data)
     else if op = FAST_OP_DELTA then do {
       (codec, a) \<leftarrow> cv_get_str opt codec tag;
       (codec, buffer, k) \<leftarrow> parse_str opt codec tag (replicate 1024 0) n;
       let b = (word_of_int k :: u32);
       v \<leftarrow> cv_is_valid codec tag;
       if v then
         if b > word_of_nat n then Some (fst (set_err codec tag FAST_ERR_SIZE), -1, data)
         else do {
           temp \<leftarrow> str_len (fc_strings codec a);
           if temp \<noteq> n then Some (fst (set_err codec tag FAST_ERR_SIZE), -1, data)
           else do {
             s \<leftarrow> mem_copy (fc_strings codec a) (n - unat b) buffer (uint b);
             let codec = codec\<lparr>fc_strings := (fc_strings codec)(a := s)\<rparr>;
             data \<leftarrow> mem_copy data 0 s (int n);
             Some (codec, 0, data)
           }
         }
       else do {
         codec \<leftarrow> cv_set_str opt codec tag buffer (sint b);
         (codec, a) \<leftarrow> cv_get_str opt codec tag;
         data \<leftarrow> mem_copy data 0 (fc_strings codec a) (int n);
         Some (codec, 0, data)
       }
     }
     else Some (fst (bad_op_error codec tag), 0, data))"

definition fast_ascii_to_u32 :: "u8 list \<Rightarrow> nat \<Rightarrow> u32 option" where
  "fast_ascii_to_u32 data n =
    (if n \<le> length data then Some (foldl (\<lambda>temp chr. temp * 10 + ucast chr - 48) 0 (take n data)) else None)"

subsection \<open>Emitting\<close>

definition u32_to_size :: "u32 \<Rightarrow> nat" where
  "u32_to_size data =
    (if data < 0x00000080 then 1
     else if data < 0x00004000 then 2
     else if data < 0x00200000 then 3
     else if data < 0x10000000 then 4
     else 5)"

text \<open>The comparisons are signed.\<close>

definition i32_to_size :: "u32 \<Rightarrow> nat" where
  "i32_to_size data =
    (if sint data < 0 then
       if sint data \<ge> -64 then 1
       else if sint data \<ge> -8192 then 2
       else if sint data \<ge> -1048576 then 3
       else if sint data \<ge> -134217728 then 4
       else 5
     else
       if sint data < 64 then 1
       else if sint data < 8192 then 2
       else if sint data < 1048576 then 3
       else if sint data < 134217728 then 4
       else 5)"

definition emit_byte :: "fast_codec \<Rightarrow> u8 \<Rightarrow> fast_codec" where
  "emit_byte codec data = codec\<lparr>fc_msg := fc_msg codec @ [data]\<rparr>"

definition check_msg_avail :: "fast_codec \<Rightarrow> u32 \<Rightarrow> nat \<Rightarrow> fast_codec \<times> int" where
  "check_msg_avail codec tag n =
    (if int MAX_MSG_SIZE - int (length (fc_msg codec)) < int n then set_err codec tag FAST_ERR_SIZE
     else (codec, 0))"

text \<open>The bytes of the \<^verbatim>\<open>switch\<close> on the size, which falls through.\<close>

definition i32_bytes :: "nat \<Rightarrow> u32 \<Rightarrow> u8 list" where
  "i32_bytes n data =
    (if n \<ge> 5 then [ucast (signed_drop_bit 28 data AND 0x7f)] else []) @
    (if n \<ge> 4 then [ucast (signed_drop_bit 21 data AND 0x7f)] else []) @
    (if n \<ge> 3 then [ucast (signed_drop_bit 14 data AND 0x7f)] else []) @
    (if n \<ge> 2 then [ucast (signed_drop_bit 7 data AND 0x7f)] else []) @
    [ucast ((data AND 0x7f) OR 0x80)]"

definition u32_bytes :: "nat \<Rightarrow> u32 \<Rightarrow> u8 list" where
  "u32_bytes n data =
    (if n \<ge> 5 then [ucast (drop_bit 28 data)] else []) @
    (if n \<ge> 4 then [ucast (drop_bit 21 data AND 0x7f)] else []) @
    (if n \<ge> 3 then [ucast (drop_bit 14 data AND 0x7f)] else []) @
    (if n \<ge> 2 then [ucast (drop_bit 7 data AND 0x7f)] else []) @
    [ucast ((data AND 0x7f) OR 0x80)]"

definition emit_field :: "fast_codec \<Rightarrow> u32 \<Rightarrow> u8 list \<Rightarrow> (fast_codec \<times> int) option" where
  "emit_field codec tag bs =
    (let (codec, rc) = check_msg_avail codec tag (length bs) in
     if rc < 0 then Some (codec, -1)
     else do {
       (codec, code) \<leftarrow> set_pmap (fold (\<lambda>b codec. emit_byte codec b) bs codec) tag;
       Some (codec, if code < 0 then code else int (length bs))
     })"

definition emit_i32 :: "fast_codec \<Rightarrow> u32 \<Rightarrow> u32 \<Rightarrow> (fast_codec \<times> int) option" where
  "emit_i32 codec tag data = emit_field codec tag (i32_bytes (i32_to_size data) data)"

definition emit_u32 :: "fast_codec \<Rightarrow> u32 \<Rightarrow> u32 \<Rightarrow> (fast_codec \<times> int) option" where
  "emit_u32 codec tag data = emit_field codec tag (u32_bytes (u32_to_size data) data)"

definition emit_str :: "fast_codec \<Rightarrow> u32 \<Rightarrow> u8 list \<Rightarrow> int \<Rightarrow> (fast_codec \<times> int) option" where
  "emit_str codec tag data n =
    (if n \<le> 0 then Some (set_err codec tag FAST_ERR_SIZE)
     else
       let (codec1, rc) = check_msg_avail codec tag (nat n) in
       if rc < 0 then Some (codec1, -1)
       else if nat n \<le> length data
       then emit_field codec tag (take (nat n - 1) data @ [data ! (nat n - 1) OR 0x80])
       else None)"

subsection \<open>Encoding\<close>

text \<open>
  A group of fields: its presence map and its bytes go to the output buffer.  The result of
  \<^verbatim>\<open>flush_group\<close> is dropped by \<^verbatim>\<open>flush_msg\<close>.
\<close>

definition flush_group :: "fast_codec \<Rightarrow> (fast_codec \<times> int) option" where
  "flush_group codec =
    (let need = int MAX_PMAP_BYTES + int (length (fc_msg codec)) in
     if int MAX_MSG_SIZE - int (length (fc_output codec)) \<le> need then Some (set_err codec (-1) FAST_ERR_SIZE)
     else do {
       pm \<leftarrow> emit_pmap codec;
       let codec = codec\<lparr>fc_output := fc_output codec @ pm @ fc_msg codec\<rparr>;
       Some ((reset_pmap codec)\<lparr>fc_msg := []\<rparr>, 0)
     })"

definition flush_msg :: "fast_codec \<Rightarrow> (fast_codec \<times> int) option" where
  "flush_msg codec = do { (codec, rc) \<leftarrow> flush_group codec; Some (codec, 0) }"

definition fast_get_output_buffer :: "fast_codec \<Rightarrow> int \<Rightarrow> u8 list option" where
  "fast_get_output_buffer codec n =
    (let k = (if int (length (fc_output codec)) < n then int (length (fc_output codec)) else n)
     in if k < 0 then None else Some (take (nat k) (fc_output codec)))"

definition fast_encode_new_msg :: "bool \<Rightarrow> fast_codec \<Rightarrow> u32 \<Rightarrow> fast_codec \<times> int" where
  "fast_encode_new_msg opt codec tag =
    (let codec = (if opt then codec else fst (check_codec opt codec)) in
     if fc_in_message codec \<noteq> 0 then set_err codec tag FAST_ERR_CALL_SEQ
     else (codec\<lparr>fc_in_message := 1, fc_curr_tag := tag\<rparr>, 0))"

text \<open>From here on the encoder of the build without optimisation.\<close>

definition fast_encode_end_msg :: "fast_codec \<Rightarrow> u32 \<Rightarrow> (fast_codec \<times> int) option" where
  "fast_encode_end_msg codec tag =
    (let codec = fst (check_codec False codec) in
     if fc_in_message codec = 0 then Some (set_err codec tag FAST_ERR_CALL_SEQ)
     else flush_msg (codec\<lparr>fc_in_message := 0\<rparr>))"

definition fast_encode_i32 :: "fast_codec \<Rightarrow> u32 \<Rightarrow> u32 \<Rightarrow> (fast_codec \<times> int) option" where
  "fast_encode_i32 codec tag x =
    (let op = get_tag_op tag; (codec, rc) = check_codec False codec in
     if rc < 0 then Some (codec, -1)
     else let (codec, rc) = check_type False codec tag FAST_TYPE_I32 in
     if rc < 0 then Some (codec, -1)
     else if op = FAST_OP_NONE then do { codec \<leftarrow> cv_set_i32 codec tag x; emit_i32 codec tag x }
     else if op = FAST_OP_COPY then do {
       e \<leftarrow> cv_eq_i32 codec tag x;
       if e then Some (codec, 0)
       else do { codec \<leftarrow> cv_set_i32 codec tag x; emit_i32 codec tag x }
     }
     else Some (bad_op_error codec tag))"

fun find_char_delta_offset :: "u8 list \<Rightarrow> u8 list \<Rightarrow> nat \<Rightarrow> nat option" where
  "find_char_delta_offset a b 0 = Some 0"
| "find_char_delta_offset (x # a) (y # b) (Suc n) =
    (if x \<noteq> y then Some 0 else map_option Suc (find_char_delta_offset a b n))"
| "find_char_delta_offset a b (Suc n) = None"

definition fast_encode_str :: "fast_codec \<Rightarrow> u32 \<Rightarrow> u8 list \<Rightarrow> nat \<Rightarrow> (fast_codec \<times> int) option" where
  "fast_encode_str codec tag data n =
    (let op = get_tag_op tag; (codec, rc) = check_codec False codec in
     if rc < 0 then Some (codec, -1)
     else let (codec, rc) = check_type False codec tag FAST_TYPE_STR in
     if rc < 0 then Some (codec, -1)
     else if op = FAST_OP_NONE then do {
       codec \<leftarrow> cv_set_str False codec tag data (int n);
       emit_str codec tag data (int n)
     }
     else if op = FAST_OP_COPY then do {
       (codec, e) \<leftarrow> cv_eq_str False codec tag data (int n);
       if e then Some (codec, 0)
       else do {
         codec \<leftarrow> cv_set_str False codec tag data (int n);
         emit_str codec tag data (int n)
       }
     }
     else if op = FAST_OP_INCR then Some (bad_op_error codec tag)
     else if op = FAST_OP_DELTA then do {
       (codec, a) \<leftarrow> cv_get_str False codec tag;
       offset \<leftarrow> find_char_delta_offset (fc_strings codec a) data n;
       if offset = n then Some (codec, 0)
       else do {
         s \<leftarrow> mem_copy (fc_strings codec a) offset (drop offset data) (int n - int offset);
         emit_str (codec\<lparr>fc_strings := (fc_strings codec)(a := s)\<rparr>) tag (drop offset data) (int n - int offset)
       }
     }
     else Some (bad_op_error codec tag))"

definition fast_encode_u32 :: "fast_codec \<Rightarrow> u32 \<Rightarrow> u32 \<Rightarrow> (fast_codec \<times> int) option" where
  "fast_encode_u32 codec tag x =
    (let op = get_tag_op tag; (codec, rc) = check_codec False codec in
     if rc < 0 then Some (codec, -1)
     else let (codec, rc) = check_type False codec tag FAST_TYPE_U32 in
     if rc < 0 then Some (codec, -1)
     else if op = FAST_OP_NONE then do { codec \<leftarrow> cv_set_u32 codec tag x; emit_u32 codec tag x }
     else if op = FAST_OP_COPY then do {
       e \<leftarrow> cv_eq_u32 codec tag x;
       if e then Some (codec, 0)
       else do { codec \<leftarrow> cv_set_u32 codec tag x; emit_u32 codec tag x }
     }
     else if op = FAST_OP_INCR then do {
       e \<leftarrow> cv_eq_u32 codec tag x;
       if e then do { codec \<leftarrow> cv_set_u32 codec tag (x + 1); Some (codec, 0) }
       else do { codec \<leftarrow> cv_set_u32 codec tag (x + 1); emit_u32 codec tag x }
     }
     else if op = FAST_OP_DELTA then do {
       v \<leftarrow> cv_is_valid codec tag;
       if v then do {
         old \<leftarrow> cv_get_u32 codec tag;
         let delta = x - old;
         if delta = 0 then Some (codec, 0)
         else do { codec \<leftarrow> cv_set_u32 codec tag x; emit_i32 codec tag delta }
       }
       else do { codec \<leftarrow> cv_set_u32 codec tag x; emit_u32 codec tag x }
     }
     else Some (bad_op_error codec tag))"

text \<open>A new codec; \<^verbatim>\<open>malloc\<close> may fail, and \<open>strings\<close> are the bytes the string buffers will have.\<close>

definition fast_create_codec :: "bool \<Rightarrow> (nat \<Rightarrow> u8 list) \<Rightarrow> fast_codec option" where
  "fast_create_codec malloc_ok strings =
    (if malloc_ok then Some
       \<lparr>fc_magic = FAST_CODEC_MAGIC,
        fc_pmap = \<lparr>pm_bits = replicate MAX_PMAP_BITS 0, pm_size = 0, pm_max_pos = 0\<rparr>,
        fc_msg = [], fc_output = [], fc_input = [], fc_input_left = 0,
        fc_cv = replicate (unat TAG_MAX_TID)
          \<lparr>i32_values = replicate MAX_TAG 0, u32_values = replicate MAX_TAG 0,
           str_values = replicate MAX_TAG None, cv_valid = replicate MAX_TAG 0\<rparr>,
        fc_curr_tag = 0, fc_in_message = 0, fc_error_tag = 0, fc_error_code = FAST_ERR_NONE,
        fc_strings = strings\<rparr>
     else None)"

text \<open>The buffers \<^verbatim>\<open>fast_reset_codec\<close> frees may come back from \<^verbatim>\<open>malloc\<close> with the bytes they had.\<close>

definition fast_reset_codec :: "fast_codec \<Rightarrow> fast_codec" where
  "fast_reset_codec codec = the (fast_create_codec True (fc_strings codec))"

subsection \<open>Stop-bit coded fields\<close>

fun stop :: "u8 list \<Rightarrow> u8 list" where
  "stop [] = []"
| "stop [b] = [b OR 0x80]"
| "stop (b # bs) = b # stop bs"

lemma stop_length [simp]: "length (stop bs) = length bs"
  by (induction bs rule: stop.induct) simp_all

lemma stop_Cons: "bs \<noteq> [] \<Longrightarrow> stop (b # bs) = b # stop bs"
  by (cases bs) simp_all

lemma u8_low7: "(b :: u8) < 0x80 \<longleftrightarrow> take_bit 7 b = b"
  by (simp add: word_unat_eq_iff unsigned_take_bit_eq take_bit_nat_eq_self_iff word_less_nat_alt)

lemma stop_bit:
  assumes "(b :: u8) < 0x80"
  shows "b OR 0x80 \<ge> 0x80" "(b OR 0x80) AND 0x7f = b"
proof -
  have m: "(0x7f :: u8) = mask 7" by (simp add: mask_eq_exp_minus_1)
  have "take_bit 7 b = b" using assms by (simp add: u8_low7)
  then have hi: "\<not> bit b i" if "7 \<le> i" for i using that by (metis bit_take_bit_iff leD)
  have b7: "bit (0x80 :: u8) i \<longleftrightarrow> i = 7" for i
  proof -
    have "(0x80 :: u8) = 2 ^ 7" by simp
    then show ?thesis unfolding \<open>0x80 = 2 ^ 7\<close> bit_exp_iff by (auto simp: possible_bit_def)
  qed
  show "(b OR 0x80) AND 0x7f = b"
  proof (rule bit_word_eqI)
    fix i assume "i < LENGTH(8)"
    show "bit ((b OR 0x80) AND 0x7f) i = bit b i"
      unfolding m bit_and_iff bit_or_iff bit_mask_iff b7 using hi [of i] \<open>i < LENGTH(8)\<close>
      by (cases "7 \<le> i") (auto simp: possible_bit_def)
  qed
  have "\<not> bit b i \<or> \<not> bit (0x80 :: u8) i" for i unfolding b7 using hi [of 7] by auto
  then have "b OR 0x80 = b + 0x80" by (rule disjunctive_add [symmetric])
  moreover have "unat (b + 0x80) = unat b + 128"
    using assms by (simp add: unat_word_ariths word_less_nat_alt)
  ultimately show "b OR 0x80 \<ge> 0x80" by (simp add: word_le_nat_alt)
qed

lemma parse_stop:
  assumes "bs \<noteq> []" and "\<forall>b\<in>set bs. b < 0x80" and "length bs \<le> k" and "p1 + length bs \<le> length data"
    and "int (length bs) \<le> left"
  shows "parse_bytes_loop (stop bs @ rest) left data p1 k =
    Some (rest, left - int (length bs), take p1 data @ bs @ drop (p1 + length bs) data, Some (int (p1 + length bs)))"
  using assms
proof (induction bs arbitrary: left data p1 k)
  case (Cons b bs)
  obtain j where k: "k = Suc j" using Cons.prems(3) by (cases k) auto
  have set: "array_set data p1 x = Some (data[p1 := x])" for x using Cons.prems(4) by (simp add: array_set_def)
  have upd: "data[p1 := x] = take p1 data @ x # drop (Suc p1) data" for x
    using Cons.prems(4) by (simp add: upd_conv_take_nth_drop)
  show ?case
  proof (cases "bs = []")
    case True
    then show ?thesis using Cons.prems k set stop_bit [of b] upd [of b] by simp
  next
    case False
    have b: "\<not> 0x80 \<le> b" using Cons.prems(2) by (simp add: not_le)
    have "parse_bytes_loop (stop bs @ rest) (left - 1) (data[p1 := b]) (p1 + 1) j =
      Some (rest, left - 1 - int (length bs), take (p1 + 1) (data[p1 := b]) @ bs @ drop (p1 + 1 + length bs) (data[p1 := b]),
        Some (int (p1 + 1 + length bs)))"
      using Cons.prems False k by (intro Cons.IH) auto
    moreover have "take (p1 + 1) (data[p1 := b]) = take p1 data @ [b]"
      using Cons.prems(4) by (simp add: upd take_Suc_conv_app_nth)
    ultimately show ?thesis using Cons.prems False k set b by (simp add: stop_Cons)
  qed
qed simp

text \<open>Base-128 digits, most significant first.\<close>

definition digits7 :: "(nat \<Rightarrow> u32) \<Rightarrow> nat \<Rightarrow> u8 list" where
  "digits7 sh k = map (\<lambda>j. ucast (sh (7 * j) AND 0x7f)) (rev [0..<k])"

lemma digits7_simps: "digits7 sh 0 = []" "digits7 sh (Suc k) = ucast (sh (7 * k) AND 0x7f) # digits7 sh k"
  "length (digits7 sh k) = k" "digits7 sh k = [] \<longleftrightarrow> k = 0"
  by (simp_all add: digits7_def)

lemma mask7: "(0x7f :: u32) = mask 7"
  by (simp add: mask_eq_exp_minus_1)

lemma low7: "(ucast (ucast (w AND 0x7f :: u32) :: u8) :: u32) = w AND 0x7f"
  unfolding mask7 by (rule bit_word_eqI) (auto simp: bit_simps)

lemma digits7_small: "b \<in> set (digits7 sh k) \<Longrightarrow> b < 0x80"
proof -
  assume "b \<in> set (digits7 sh k)"
  then obtain j where b: "b = ucast (sh (7 * j) AND 0x7f)" by (auto simp: digits7_def)
  have "b = take_bit 7 (ucast (sh (7 * j)))" unfolding b mask7
    by (rule bit_word_eqI) (auto simp: bit_simps)
  then have "take_bit 7 b = b" by simp
  then show ?thesis by (simp add: u8_low7)
qed

lemma join_digits:
  assumes "\<And>i. push_bit 7 (sh (i + 7)) OR (sh i AND 0x7f) = sh i"
  shows "foldl (\<lambda>temp b. push_bit 7 temp OR ucast b) (sh (7 * k)) (digits7 sh k) = sh 0"
proof (induction k)
  case (Suc k)
  have "push_bit 7 (sh (7 * Suc k)) OR (sh (7 * k) AND 0x7f) = sh (7 * k)"
    using assms [of "7 * k"] by (simp add: algebra_simps)
  then show ?case using Suc.IH by (simp add: digits7_simps low7)
qed (simp add: digits7_simps)

lemma shift7_u: "push_bit 7 (drop_bit (i + 7) w) OR (drop_bit i w AND 0x7f) = drop_bit i (w :: u32)"
  unfolding mask7 by (rule bit_word_eqI) (auto simp: bit_simps add.commute intro: not_less [THEN iffD1])

lemma shift7_i: "push_bit 7 (signed_drop_bit (i + 7) w) OR (signed_drop_bit i w AND 0x7f) = signed_drop_bit i (w :: u32)"
  unfolding mask7
proof (rule bit_word_eqI)
  fix n assume "n < LENGTH(32)"
  then show "bit (push_bit 7 (signed_drop_bit (i + 7) w) OR (signed_drop_bit i w AND mask 7)) n =
    bit (signed_drop_bit i w) n"
    by (cases "n < 7") (auto simp: bit_simps bit_signed_drop_bit_iff split: if_splits)
qed

lemma u32_bytes_digits:
  assumes "k \<in> {1..5}"
  shows "u32_bytes k w = stop (digits7 (\<lambda>i. drop_bit i w) k)"
proof -
  have o: "ucast ((w AND 0x7f) OR 0x80 :: u32) = (ucast (w AND 0x7f) OR 0x80 :: u8)"
    by (rule bit_word_eqI) (auto simp: bit_simps)
  have t: "(ucast (drop_bit 28 w) :: u8) = ucast (drop_bit 28 w AND 0x7f)"
    unfolding mask7 by (rule bit_word_eqI) (auto simp: bit_simps dest: bit_imp_le_length)
  have "k = 1 \<or> k = 2 \<or> k = 3 \<or> k = 4 \<or> k = 5" using assms by auto
  then show ?thesis by (elim disjE) (simp_all add: u32_bytes_def digits7_def o t upt_rec)
qed

lemma i32_bytes_digits:
  assumes "k \<in> {1..5}"
  shows "i32_bytes k w = stop (digits7 (\<lambda>i. signed_drop_bit i w) k)"
proof -
  have o: "ucast ((w AND 0x7f) OR 0x80 :: u32) = (ucast (w AND 0x7f) OR 0x80 :: u8)"
    by (rule bit_word_eqI) (auto simp: bit_simps)
  have "k = 1 \<or> k = 2 \<or> k = 3 \<or> k = 4 \<or> k = 5" using assms by auto
  then show ?thesis by (elim disjE) (simp_all add: i32_bytes_def digits7_def o upt_rec)
qed

lemma u32_size: "u32_to_size w \<in> {1..5}" "drop_bit (7 * u32_to_size w) w = 0"
proof -
  have "unat w < 2 ^ (7 * u32_to_size w)" using unat_lt [of w] by (simp add: u32_to_size_def word_less_nat_alt)
  then have "unat (drop_bit (7 * u32_to_size w) w) = 0" unfolding unat_drop_bit_eq by (simp add: drop_bit_eq_div)
  then show "drop_bit (7 * u32_to_size w) w = 0" by (simp add: unat_eq_0)
qed (simp add: u32_to_size_def)

lemma join7_u32: "join7 SIGN_MASK_U32 (digits7 (\<lambda>i. drop_bit i w) (u32_to_size w)) = w"
  using join_digits [of "\<lambda>i. drop_bit i w" "u32_to_size w"] shift7_u u32_size(2) [of w]
  by (simp add: join7_def SIGN_MASK_U32_def add.commute)

lemma i32_size: "i32_to_size w \<in> {1..5}"
  "- (2 ^ (7 * i32_to_size w - 1)) \<le> sint w" "sint w < 2 ^ (7 * i32_to_size w - 1)"
proof -
  have "- (2 ^ 31) \<le> sint w" "sint w < 2 ^ 31" using sint_greater_eq [of w] sint_less [of w] by simp_all
  then show "- (2 ^ (7 * i32_to_size w - 1)) \<le> sint w" "sint w < 2 ^ (7 * i32_to_size w - 1)"
    by (simp_all add: i32_to_size_def)
qed (simp add: i32_to_size_def)

lemma div_minus_1: "- d \<le> x \<Longrightarrow> x < 0 \<Longrightarrow> x div d = (-1 :: int)"
  by (rule int_div_pos_eq [where r = "x + d"]) auto

lemma sign_bit6: "(ucast (x AND 0x7f :: u32) :: u8) AND 0x40 = (if bit x 6 then 0x40 else 0)"
proof (rule bit_word_eqI)
  fix i assume i: "i < LENGTH(8)"
  have b6: "bit (0x40 :: u8) i \<longleftrightarrow> i = 6"
  proof -
    have "(0x40 :: u8) = 2 ^ 6" by simp
    then show ?thesis unfolding \<open>0x40 = 2 ^ 6\<close> bit_exp_iff by (auto simp: possible_bit_def)
  qed
  have "bit (if bit x 6 then 0x40 else 0 :: u8) i \<longleftrightarrow> bit x 6 \<and> bit (0x40 :: u8) i" by simp
  then show "bit ((ucast (x AND 0x7f) :: u8) AND 0x40) i = bit (if bit x 6 then 0x40 else 0 :: u8) i"
    unfolding mask7 bit_and_iff b6 using i by (auto simp: bit_simps)
qed

lemma sign_digit:
  assumes "- (2 ^ (7 * k + 6)) \<le> sint (w :: u32)" and "sint w < 2 ^ (7 * k + 6)"
  shows "(if (ucast (signed_drop_bit (7 * k) w AND 0x7f) :: u8) AND 0x40 \<noteq> 0 then -1 else 0) = signed_drop_bit (7 * k + 7) w"
proof -
  let ?x = "signed_drop_bit (7 * k) w"
  have "(ucast (?x AND 0x7f) :: u8) AND 0x40 = 0 \<longleftrightarrow> \<not> bit ?x 6" by (simp add: sign_bit6)
  moreover have "bit ?x 6 \<longleftrightarrow> sint w < 0"
  proof -
    have "bit ?x 6 \<longleftrightarrow> bit (sint ?x) 6" by (simp add: bit_sint_iff)
    also have "\<dots> \<longleftrightarrow> odd (sint w div 2 ^ (7 * k) div 2 ^ 6)"
      by (simp add: sint_signed_drop_bit_eq drop_bit_eq_div bit_iff_odd)
    also have "sint w div 2 ^ (7 * k) div 2 ^ 6 = sint w div 2 ^ (7 * k + 6)"
      by (simp add: power_add zdiv_zmult2_eq)
    also have "sint w div 2 ^ (7 * k + 6) = (if sint w < 0 then -1 else 0)"
      using assms by (auto simp: div_pos_pos_trivial div_minus_1)
    finally show ?thesis by simp
  qed
  moreover have "sint (signed_drop_bit (7 * k + 7) w) = (if sint w < 0 then -1 else 0)"
  proof -
    have le: "(2 :: int) ^ (7 * k + 6) \<le> 2 ^ (7 * k + 7)" by (intro power_increasing) simp_all
    have "sint (signed_drop_bit (7 * k + 7) w) = sint w div 2 ^ (7 * k + 7)"
      by (simp add: sint_signed_drop_bit_eq drop_bit_eq_div)
    also have "\<dots> = (if sint w < 0 then -1 else 0)"
      using order_trans [OF le_imp_neg_le [OF le] assms(1)] less_le_trans [OF assms(2) le]
      by (auto simp: div_pos_pos_trivial div_minus_1)
    finally show ?thesis .
  qed
  then have "signed_drop_bit (7 * k + 7) w = (if sint w < 0 then -1 else 0)"
    by (auto intro: signed_word_eqI)
  ultimately show ?thesis by simp
qed

lemma join7_i32: "join7 SIGN_MASK_I32 (digits7 (\<lambda>i. signed_drop_bit i w) (i32_to_size w)) = w"
proof -
  obtain k where k: "i32_to_size w = Suc k" using i32_size(1) [of w] by (cases "i32_to_size w") auto
  have e: "7 * i32_to_size w - 1 = 7 * k + 6" using k by simp
  note b = i32_size(2,3) [of w, unfolded e]
  have "foldl (\<lambda>temp b. push_bit 7 temp OR ucast b) (signed_drop_bit (7 * Suc k) w) (digits7 (\<lambda>i. signed_drop_bit i w) (Suc k)) = w"
    using join_digits [of "\<lambda>i. signed_drop_bit i w" "Suc k"] shift7_i by simp
  moreover have "digits7 (\<lambda>i. signed_drop_bit i w) (Suc k) ! 0 = ucast (signed_drop_bit (7 * k) w AND 0x7f)"
    by (simp add: digits7_simps)
  ultimately show ?thesis using sign_digit [OF b] k
    by (simp add: join7_def SIGN_MASK_I32_def add.commute)
qed

subsection \<open>Presence maps\<close>

lemma list7: "length xs = 7 \<Longrightarrow> \<exists>a b c d e f g. xs = [a, b, c, d, e, f, g]"
  by (auto simp: numeral_eq_Suc length_Suc_conv)

lemma bit_masks: "bit_mask ! 0 = 2 ^ 6" "bit_mask ! Suc 0 = 2 ^ 5" "bit_mask ! 2 = 2 ^ 4" "bit_mask ! 3 = 2 ^ 3"
  "bit_mask ! 4 = 2 ^ 2" "bit_mask ! 5 = 2 ^ 1" "bit_mask ! 6 = 2 ^ 0"
  by (simp_all add: bit_mask_def)

lemma pack7_unpack:
  assumes "length bits = 7" and "set bits \<subseteq> {0, 1}"
  shows "unpack7 (pack7 bits) = bits" "pack7 bits < 0x80"
proof -
  obtain a b c d e f g where l: "bits = [a, b, c, d, e, f, g]" using list7 [OF assms(1)] by blast
  have v: "a = 0 \<or> a = 1" "b = 0 \<or> b = 1" "c = 0 \<or> c = 1" "d = 0 \<or> d = 1" "e = 0 \<or> e = 1" "f = 0 \<or> f = 1" "g = 0 \<or> g = 1"
    using assms(2) l by auto
  show "unpack7 (pack7 bits) = bits" "pack7 bits < 0x80"
    using v unfolding l by (elim disjE; simp add: pack7_def unpack7_def bit_mask_def upt_rec)+
qed

lemma mem_copy_0: "length src = n \<Longrightarrow> n \<le> length dst \<Longrightarrow> mem_copy dst 0 src (int n) = Some (src @ drop n dst)"
  by (simp add: mem_copy_def)

lemma parse_bytes_stop:
  assumes "bs \<noteq> []" and "\<forall>b\<in>set bs. b < 0x80" and "length bs \<le> n"
    and "fc_input codec = stop bs @ rest" and "int (length bs) \<le> fc_input_left codec"
  shows "parse_bytes opt codec (replicate n 0) n =
    Some (codec\<lparr>fc_input := rest, fc_input_left := fc_input_left codec - int (length bs)\<rparr>,
      bs @ replicate (n - length bs) 0, int (length bs))"
proof -
  have "(if opt then Some (replicate n 0) else mem_copy (replicate n 0) 0 (replicate n 0) (int n)) = Some (replicate n (0 :: u8))"
    using mem_copy_0 [of "replicate n (0 :: u8)" n "replicate n 0"] by simp
  moreover have "parse_bytes_loop (stop bs @ rest) (fc_input_left codec) (replicate n 0) 0 n =
      Some (rest, fc_input_left codec - int (length bs), bs @ replicate (n - length bs) 0, Some (int (length bs)))"
    using parse_stop [OF assms(1-3), of 0 "replicate n 0" "fc_input_left codec" rest] assms(3,5) by simp
  ultimately show ?thesis using assms(4) by (simp add: parse_bytes_def)
qed

lemma stop_update: "data \<noteq> [] \<Longrightarrow> data[length data - 1 := data ! (length data - 1) OR 0x80] = stop data"
proof (induction data rule: stop.induct)
  case (3 b c bs)
  then show ?case by simp
qed simp_all

text \<open>The presence map of an encoder.\<close>

definition pmap_ok :: "fast_pmap \<Rightarrow> bool" where
  "pmap_ok pm \<longleftrightarrow> length (pm_bits pm) = 56 \<and> set (pm_bits pm) \<subseteq> {0, 1} \<and> unat (pm_max_pos pm) < 56 \<and>
     (\<forall>i<56. unat (pm_max_pos pm) < i \<longrightarrow> pm_bits pm ! i = 0)"

lemma align7_nat: "unat x < 56 \<Longrightarrow> unat (align7 (x + 1)) = (unat x + 7) div 7"
  by (simp add: align7_def unat_div unat_word_ariths)

lemma concat_chunks:
  "7 * n \<le> length bits \<Longrightarrow> concat (map (\<lambda>p1. take 7 (drop (7 * p1) bits)) [0..<n]) = take (7 * n) bits"
proof (induction n)
  case (Suc n)
  then show ?case by (simp add: take_add [symmetric] add.commute)
qed simp

lemma emit_pmap_ok:
  assumes "pmap_ok (fc_pmap codec)"
  obtains bs where "emit_pmap codec = Some (stop bs)" "bs \<noteq> []" "length bs \<le> 8" "\<forall>b\<in>set bs. b < 0x80"
    "concat (map unpack7 bs) = take (7 * length bs) (pm_bits (fc_pmap codec))"
    "unat (pm_max_pos (fc_pmap codec)) < 7 * length bs"
proof -
  let ?pm = "fc_pmap codec" and ?n = "(unat (pm_max_pos (fc_pmap codec)) + 7) div 7"
  define bs where "bs = map (\<lambda>p1. pack7 (take 7 (drop (7 * p1) (pm_bits ?pm)))) [0..<?n]"
  have n: "0 < ?n" "?n \<le> 8" "7 * ?n \<le> 56" "unat (pm_max_pos ?pm) < 7 * ?n"
    using assms by (auto simp: pmap_ok_def)
  have l: "length (pm_bits ?pm) = 56" "set (pm_bits ?pm) \<subseteq> {0, 1}" using assms by (simp_all add: pmap_ok_def)
  have c: "length (take 7 (drop (7 * p) (pm_bits ?pm))) = 7" "set (take 7 (drop (7 * p) (pm_bits ?pm))) \<subseteq> {0, 1}" if "p < ?n" for p
    using that n(3) l by (auto dest!: in_set_takeD in_set_dropD)
  have e: "emit_pmap codec = Some (stop bs)"
    using n l align7_nat [of "pm_max_pos ?pm"] stop_update [of bs] assms
    by (simp add: emit_pmap_def Let_def bs_def pmap_ok_def)
  have "map unpack7 bs = map (\<lambda>p1. take 7 (drop (7 * p1) (pm_bits ?pm))) [0..<?n]"
    unfolding bs_def using c pack7_unpack(1) by simp
  moreover have "length bs = ?n" by (simp add: bs_def)
  ultimately have u: "concat (map unpack7 bs) = take (7 * length bs) (pm_bits ?pm)"
    using concat_chunks [of ?n "pm_bits ?pm"] n(3) l(1) by simp
  show ?thesis
  proof (rule that [OF e])
    show "bs \<noteq> []" "length bs \<le> 8" "unat (pm_max_pos ?pm) < 7 * length bs" using n by (simp_all add: bs_def)
    show "\<forall>b\<in>set bs. b < 0x80" using c pack7_unpack(2) by (auto simp: bs_def)
    show "concat (map unpack7 bs) = take (7 * length bs) (pm_bits ?pm)" by (rule u)
  qed
qed

text \<open>A decoder that has read the presence map an encoder emitted.\<close>

lemma parse_pmap_stop:
  assumes "bs \<noteq> []" and "\<forall>b\<in>set bs. b < 0x80" and "length bs \<le> 8"
    and "fc_input codec = stop bs @ rest" and "int (length bs) \<le> fc_input_left codec"
    and "length (pm_bits (fc_pmap codec)) = 56"
  shows "parse_pmap opt codec = Some (codec\<lparr>fc_input := rest, fc_input_left := fc_input_left codec - int (length bs),
      fc_pmap := (fc_pmap codec)\<lparr>pm_bits := concat (map unpack7 bs) @ drop (7 * length bs) (pm_bits (fc_pmap codec)),
        pm_size := word_of_int (7 * int (length bs))\<rparr>\<rparr>, int (length bs))"
proof -
  have l: "length (concat (map unpack7 bs)) = 7 * length bs"
    by (induction bs) (simp_all add: unpack7_def)
  have "mem_copy (pm_bits (fc_pmap codec)) 0 (concat (map unpack7 bs)) (7 * int (length bs)) =
      Some (concat (map unpack7 bs) @ drop (7 * length bs) (pm_bits (fc_pmap codec)))"
    using mem_copy_0 [OF l, of "pm_bits (fc_pmap codec)"] assms(3,6) by simp
  then show ?thesis
    using parse_bytes_stop [OF assms(1,2), of 8 codec rest opt] assms(3-5)
    by (simp add: parse_pmap_def MAX_PMAP_BYTES_def)
qed

lemma get_pmap_emitted:
  assumes pm: "pmap_ok pm" and bs: "concat (map unpack7 bs) = take (7 * length bs) (pm_bits pm)"
    "unat (pm_max_pos pm) < 7 * length bs" "length bs \<le> 8"
    and dec: "fc_pmap dec = q\<lparr>pm_bits := concat (map unpack7 bs) @ tl56, pm_size := word_of_int (7 * int (length bs))\<rparr>"
    and slot: "unat (get_tag_slot tag) < 56"
  shows "get_pmap dec tag = Some (pm_bits pm ! unat (get_tag_slot tag))"
proof -
  have s: "unat (word_of_int (7 * int (length bs)) :: u32) = 7 * length bs"
  proof -
    have "(word_of_int (7 * int (length bs)) :: u32) = word_of_nat (7 * length bs)" by simp
    then show ?thesis using bs(3) by (simp only: unat_of_nat) simp
  qed
  have l: "length (concat (map unpack7 bs)) = 7 * length bs"
    using bs(1,3) pm by (simp add: pmap_ok_def)
  show ?thesis
  proof (cases "unat (get_tag_slot tag) < 7 * length bs")
    case True
    then show ?thesis using dec s l bs(1)
      by (simp add: get_pmap_def Let_def word_le_nat_alt array_get_def nth_append)
  next
    case False
    then show ?thesis using dec s bs(2) pm slot by (simp add: get_pmap_def Let_def word_le_nat_alt pmap_ok_def)
  qed
qed

end
