(* ===== verification/FastMsg.thy ===== *)
theory FastMsg
  imports Fast
begin

section \<open>FAST messages\<close>

text \<open>
  Encoder and decoder of the FAST codec against each other: the state of a tag as a partial map, one
  field under each operator, whole messages, and the decoder on arbitrary bytes.
\<close>

subsection \<open>Current values as a partial map\<close>

definition codec_ok :: "fast_codec \<Rightarrow> bool" where
  "codec_ok codec \<longleftrightarrow> fc_magic codec = FAST_CODEC_MAGIC \<and> length (fc_cv codec) = 15 \<and>
     (\<forall>cv\<in>set (fc_cv codec). length (u32_values cv) = 64 \<and> length (cv_valid cv) = 64)"

definition u32_tag_ok :: "u32 \<Rightarrow> bool" where
  "u32_tag_ok tag \<longleftrightarrow> get_tag_type tag = FAST_TYPE_U32 \<and> unat (get_tag_tid tag) < 15 \<and> unat (get_tag_slot tag) < 56 \<and>
     get_tag_op tag \<in> {FAST_OP_NONE, FAST_OP_COPY, FAST_OP_INCR, FAST_OP_DELTA}"

definition u32_cell :: "fast_codec \<Rightarrow> u32 \<Rightarrow> u32 option" where
  "u32_cell codec tag =
    (let cv = fc_cv codec ! unat (get_tag_tid tag); s = unat (get_tag_slot tag)
     in if cv_valid cv ! s \<noteq> 0 then Some (u32_values cv ! s) else None)"

definition set_u32_cell :: "fast_codec \<Rightarrow> u32 \<Rightarrow> u32 \<Rightarrow> fast_codec" where
  "set_u32_cell codec tag x =
    (let t = unat (get_tag_tid tag); s = unat (get_tag_slot tag); cv = fc_cv codec ! t
     in codec\<lparr>fc_cv := (fc_cv codec)[t := cv\<lparr>u32_values := (u32_values cv)[s := x], cv_valid := (cv_valid cv)[s := 1]\<rparr>]\<rparr>)"

lemma cv_lengths:
  assumes "codec_ok codec" and "u32_tag_ok tag"
  shows "unat (get_tag_tid tag) < length (fc_cv codec)" "unat (get_tag_slot tag) < 64"
    "length (u32_values (fc_cv codec ! unat (get_tag_tid tag))) = 64" "length (cv_valid (fc_cv codec ! unat (get_tag_tid tag))) = 64"
  using assms by (auto simp: codec_ok_def u32_tag_ok_def)

lemma cv_u32_access:
  assumes "codec_ok codec" and "u32_tag_ok tag"
  shows "cv_is_valid codec tag = Some (u32_cell codec tag \<noteq> None)"
    "u32_cell codec tag = Some x \<Longrightarrow> cv_get_u32 codec tag = Some x"
    "cv_set_u32 codec tag x = Some (set_u32_cell codec tag x)"
    "cv_eq_u32 codec tag x = Some (u32_cell codec tag = Some x)"
proof -
  note l = cv_lengths [OF assms]
  show v: "cv_is_valid codec tag = Some (u32_cell codec tag \<noteq> None)"
    using l by (simp add: cv_is_valid_def cv_get_tag_state_def array_get_def u32_cell_def Let_def)
  show g: "u32_cell codec tag = Some x \<Longrightarrow> cv_get_u32 codec tag = Some x" for x
    using l by (auto simp: cv_get_u32_def cv_get_tag_state_def array_get_def u32_cell_def Let_def split: if_splits)
  show "cv_set_u32 codec tag x = Some (set_u32_cell codec tag x)"
    using l by (simp add: cv_set_u32_def cv_set_valid_def cv_put_def cv_get_tag_state_def array_get_def array_set_def
        set_u32_cell_def Let_def)
  show "cv_eq_u32 codec tag x = Some (u32_cell codec tag = Some x)"
    using v g by (cases "u32_cell codec tag") (auto simp: cv_eq_u32_def)
qed

lemma set_u32_cell_frame [simp]:
  "fc_msg (set_u32_cell codec tag x) = fc_msg codec" "fc_output (set_u32_cell codec tag x) = fc_output codec"
  "fc_pmap (set_u32_cell codec tag x) = fc_pmap codec" "fc_input (set_u32_cell codec tag x) = fc_input codec"
  "fc_input_left (set_u32_cell codec tag x) = fc_input_left codec" "fc_magic (set_u32_cell codec tag x) = fc_magic codec"
  "fc_in_message (set_u32_cell codec tag x) = fc_in_message codec"
  by (simp_all add: set_u32_cell_def Let_def)

lemma set_u32_cell_ok:
  assumes "codec_ok codec" and "u32_tag_ok tag"
  shows "codec_ok (set_u32_cell codec tag x)" "u32_cell (set_u32_cell codec tag x) tag = Some x"
    "get_tag_slot tag' \<noteq> get_tag_slot tag \<Longrightarrow> u32_cell (set_u32_cell codec tag x) tag' = u32_cell codec tag'"
proof -
  note l = cv_lengths [OF assms]
  show "codec_ok (set_u32_cell codec tag x)"
    using assms l by (auto simp: codec_ok_def set_u32_cell_def Let_def dest!: subsetD [OF set_update_subset_insert])
  show "u32_cell (set_u32_cell codec tag x) tag = Some x"
    using l by (simp add: u32_cell_def set_u32_cell_def Let_def)
  assume "get_tag_slot tag' \<noteq> get_tag_slot tag"
  then have "unat (get_tag_slot tag') \<noteq> unat (get_tag_slot tag)" by (simp add: word_unat_eq_iff)
  then show "u32_cell (set_u32_cell codec tag x) tag' = u32_cell codec tag'"
    using l(1) by (cases "unat (get_tag_tid tag') = unat (get_tag_tid tag)") (simp_all add: u32_cell_def set_u32_cell_def Let_def)
qed

text \<open>A codec differs from another in its buffers and presence map only.\<close>

lemma u32_cell_frame [simp]:
  "u32_cell (codec\<lparr>fc_msg := m\<rparr>) tag = u32_cell codec tag" "u32_cell (codec\<lparr>fc_pmap := p\<rparr>) tag = u32_cell codec tag"
  "u32_cell (codec\<lparr>fc_input := i\<rparr>) tag = u32_cell codec tag" "u32_cell (codec\<lparr>fc_input_left := n\<rparr>) tag = u32_cell codec tag"
  "u32_cell (codec\<lparr>fc_output := q\<rparr>) tag = u32_cell codec tag" "u32_cell (codec\<lparr>fc_in_message := k\<rparr>) tag = u32_cell codec tag"
  "u32_cell (codec\<lparr>fc_curr_tag := t\<rparr>) tag = u32_cell codec tag"
  by (simp_all add: u32_cell_def)

lemma codec_ok_frame [simp]:
  "codec_ok (codec\<lparr>fc_msg := m\<rparr>) = codec_ok codec" "codec_ok (codec\<lparr>fc_pmap := p\<rparr>) = codec_ok codec"
  "codec_ok (codec\<lparr>fc_input := i\<rparr>) = codec_ok codec" "codec_ok (codec\<lparr>fc_input_left := n\<rparr>) = codec_ok codec"
  "codec_ok (codec\<lparr>fc_output := q\<rparr>) = codec_ok codec" "codec_ok (codec\<lparr>fc_in_message := k\<rparr>) = codec_ok codec"
  "codec_ok (codec\<lparr>fc_curr_tag := t\<rparr>) = codec_ok codec"
  by (simp_all add: codec_ok_def)

subsection \<open>One field\<close>

text \<open>What the encoder emits for a field, if anything, and the value it keeps.\<close>

definition u32_emitted :: "u32 \<Rightarrow> u32 option \<Rightarrow> u32 \<Rightarrow> u8 list option" where
  "u32_emitted op c x =
    (if op = FAST_OP_DELTA \<and> c \<noteq> None then
       if c = Some x then None else Some (i32_bytes (i32_to_size (x - the c)) (x - the c))
     else if op \<noteq> FAST_OP_NONE \<and> c = Some x then None
     else Some (u32_bytes (u32_to_size x) x))"

definition u32_kept :: "u32 \<Rightarrow> u32 \<Rightarrow> u32" where
  "u32_kept op x = (if op = FAST_OP_INCR then x + 1 else x)"

text \<open>The relation of the values an encoder and a decoder keep for a tag: under \<^verbatim>\<open>FAST_OP_INCR\<close> the encoder's is
  one ahead.\<close>

definition in_step :: "u32 \<Rightarrow> u32 option \<Rightarrow> u32 option \<Rightarrow> bool" where
  "in_step op ce cd \<longleftrightarrow> op = FAST_OP_NONE \<or> ce = map_option (u32_kept op) cd"

lemma ops_distinct: "FAST_OP_NONE \<noteq> FAST_OP_COPY" "FAST_OP_NONE \<noteq> FAST_OP_INCR" "FAST_OP_NONE \<noteq> FAST_OP_DELTA"
  "FAST_OP_COPY \<noteq> FAST_OP_INCR" "FAST_OP_COPY \<noteq> FAST_OP_DELTA" "FAST_OP_INCR \<noteq> FAST_OP_DELTA"
  by (simp_all add: FAST_OP_NONE_def FAST_OP_COPY_def FAST_OP_INCR_def FAST_OP_DELTA_def)

lemma u32_wire:
  "u32_bytes (u32_to_size x) x = stop (digits7 (\<lambda>i. drop_bit i x) (u32_to_size x))"
  "i32_bytes (i32_to_size x) x = stop (digits7 (\<lambda>i. signed_drop_bit i x) (i32_to_size x))"
  using u32_bytes_digits [OF u32_size(1)] i32_bytes_digits [OF i32_size(1)] by simp_all

lemma emitted_length: "u32_emitted op c x = Some bs \<Longrightarrow> length bs \<le> 5"
  using u32_size(1) [of x] i32_size(1) [of "x - the c"]
  by (auto simp: u32_emitted_def u32_wire digits7_simps split: if_splits)

lemma fold_emit_byte: "fold (\<lambda>b codec. emit_byte codec b) bs codec = codec\<lparr>fc_msg := fc_msg codec @ bs\<rparr>"
  by (induction bs arbitrary: codec) (simp_all add: emit_byte_def)

definition mark :: "u32 \<Rightarrow> fast_pmap \<Rightarrow> fast_pmap" where
  "mark tag pm = pm\<lparr>pm_bits := (pm_bits pm)[unat (get_tag_slot tag) := 1],
     pm_max_pos := max (pm_max_pos pm) (get_tag_slot tag)\<rparr>"

lemma mark_ok:
  assumes "pmap_ok pm" and "u32_tag_ok tag"
  shows "pmap_ok (mark tag pm)"
    "i < 56 \<Longrightarrow> pm_bits (mark tag pm) ! i = (if i = unat (get_tag_slot tag) then 1 else pm_bits pm ! i)"
proof -
  have s: "unat (get_tag_slot tag) < 56" using assms(2) by (simp add: u32_tag_ok_def)
  have m: "unat (max (pm_max_pos pm) (get_tag_slot tag)) = max (unat (pm_max_pos pm)) (unat (get_tag_slot tag))"
    by (simp add: max_def word_le_nat_alt)
  show "pmap_ok (mark tag pm)"
    using assms(1) s by (auto simp: pmap_ok_def mark_def m nth_list_update dest!: subsetD [OF set_update_subset_insert])
  show "i < 56 \<Longrightarrow> pm_bits (mark tag pm) ! i = (if i = unat (get_tag_slot tag) then 1 else pm_bits pm ! i)"
    using assms(1) s by (simp add: pmap_ok_def mark_def nth_list_update)
qed

lemma emit_field_ok:
  assumes "pmap_ok (fc_pmap codec)" and "u32_tag_ok tag" and "length (fc_msg codec) + length bs \<le> 2048"
  shows "emit_field codec tag bs =
    Some (codec\<lparr>fc_msg := fc_msg codec @ bs, fc_pmap := mark tag (fc_pmap codec)\<rparr>, int (length bs))"
proof -
  have "unat (get_tag_slot tag) < 56" "length (pm_bits (fc_pmap codec)) = 56"
    using assms(1,2) by (simp_all add: u32_tag_ok_def pmap_ok_def)
  moreover have "max a b = (if b > a then b else a)" for a b :: u32 by (auto simp: max_def)
  ultimately show ?thesis using assms(3)
    by (simp add: emit_field_def check_msg_avail_def MAX_MSG_SIZE_def fold_emit_byte set_pmap_def Let_def array_set_def
        MAX_PMAP_BITS_def MAX_PMAP_BYTES_def mark_def)
qed

definition field_bytes :: "u8 list option \<Rightarrow> u8 list" where
  "field_bytes em = (case em of None \<Rightarrow> [] | Some bs \<Rightarrow> bs)"

lemma encode_u32_field:
  assumes ok: "codec_ok codec" and t: "u32_tag_ok tag" and pm: "pmap_ok (fc_pmap codec)" and room: "length (fc_msg codec) + 5 \<le> 2048"
  shows "\<exists>codec' rc. fast_encode_u32 codec tag x = Some (codec', rc) \<and> 0 \<le> rc \<and> codec_ok codec' \<and>
    u32_cell codec' tag = Some (u32_kept (get_tag_op tag) x) \<and>
    (\<forall>tag'. get_tag_slot tag' \<noteq> get_tag_slot tag \<longrightarrow> u32_cell codec' tag' = u32_cell codec tag') \<and>
    fc_output codec' = fc_output codec \<and> fc_in_message codec' = fc_in_message codec \<and>
    fc_msg codec' = fc_msg codec @ field_bytes (u32_emitted (get_tag_op tag) (u32_cell codec tag) x) \<and>
    fc_pmap codec' = (if u32_emitted (get_tag_op tag) (u32_cell codec tag) x = None then fc_pmap codec
                      else mark tag (fc_pmap codec))"
proof -
  let ?op = "get_tag_op tag" and ?c = "u32_cell codec tag"
  let ?set = "set_u32_cell codec tag (u32_kept ?op x)"
  have chk: "check_codec False codec = (codec, 0)" "check_type False codec tag FAST_TYPE_U32 = (codec, 0)"
    using ok t by (simp_all add: check_codec_def check_type_def codec_ok_def u32_tag_ok_def)
  note acc = cv_u32_access [OF ok t]
  have em: "emit_field ?set tag bs = Some (?set\<lparr>fc_msg := fc_msg codec @ bs, fc_pmap := mark tag (fc_pmap codec)\<rparr>, int (length bs))"
    if "u32_emitted ?op ?c x = Some bs" for bs
    using emit_field_ok [of ?set tag bs] emitted_length [OF that] pm t room by simp
  have enc: "fast_encode_u32 codec tag x = (case u32_emitted ?op ?c x of
      None \<Rightarrow> Some (if ?op = FAST_OP_INCR then ?set else codec, 0)
    | Some bs \<Rightarrow> emit_field ?set tag bs)"
    using t ops_distinct
    by (cases ?c) (auto simp: fast_encode_u32_def chk acc u32_emitted_def u32_kept_def emit_u32_def emit_i32_def u32_tag_ok_def Let_def)
  have same: "?op \<noteq> FAST_OP_INCR \<Longrightarrow> u32_emitted ?op ?c x = None \<Longrightarrow> ?c = Some (u32_kept ?op x)"
    by (auto simp: u32_emitted_def u32_kept_def split: if_splits)
  note s = set_u32_cell_ok [OF ok t]
  show ?thesis
  proof (cases "u32_emitted ?op ?c x")
    case None
    then show ?thesis using enc s same ok by (cases "?op = FAST_OP_INCR") (auto simp: field_bytes_def)
  next
    case (Some bs)
    then show ?thesis using enc em [OF Some] s by (simp add: field_bytes_def)
  qed
qed

definition advance :: "fast_codec \<Rightarrow> u8 list \<Rightarrow> nat \<Rightarrow> fast_codec" where
  "advance codec rest n = codec\<lparr>fc_input := rest, fc_input_left := fc_input_left codec - int n\<rparr>"

lemma advance_frame [simp]:
  "u32_cell (advance codec rest n) tag = u32_cell codec tag" "codec_ok (advance codec rest n) = codec_ok codec"
  "fc_pmap (advance codec rest n) = fc_pmap codec" "fc_input (advance codec rest n) = rest"
  "fc_input_left (advance codec rest n) = fc_input_left codec - int n"
  by (simp_all add: advance_def)

lemma parse_absent: "get_pmap codec tag = Some 0 \<Longrightarrow> parse_32 opt codec tag msk = Some (codec, 0, 0)"
  by (simp add: parse_32_def)

lemma parse_present:
  assumes "get_pmap codec tag = Some 1" and "ds \<noteq> []" and "\<forall>b\<in>set ds. b < 0x80" and "length ds \<le> 5"
    and "fc_input codec = stop ds @ rest" and "int (length ds) \<le> fc_input_left codec"
  shows "parse_32 opt codec tag msk = Some (advance codec rest (length ds), int (length ds), join7 msk ds)"
  using parse_bytes_stop [OF assms(2-5,6)] assms(1) by (simp add: parse_32_def advance_def)

lemma parse_present_u32:
  assumes "get_pmap codec tag = Some 1" and "fc_input codec = u32_bytes (u32_to_size x) x @ rest"
    and "int (u32_to_size x) \<le> fc_input_left codec"
  shows "parse_u32 opt codec tag = Some (advance codec rest (u32_to_size x), int (u32_to_size x), x)"
proof -
  have "parse_32 opt codec tag SIGN_MASK_U32 = Some (advance codec rest (u32_to_size x), int (u32_to_size x),
      join7 SIGN_MASK_U32 (digits7 (\<lambda>i. drop_bit i x) (u32_to_size x)))"
    using parse_present [OF assms(1), of "digits7 (\<lambda>i. drop_bit i x) (u32_to_size x)" rest] digits7_small u32_size(1) [of x] assms(2,3)
    by (auto simp: digits7_simps u32_wire)
  then show ?thesis by (simp add: parse_u32_def join7_u32)
qed

lemma parse_present_i32:
  assumes "get_pmap codec tag = Some 1" and "fc_input codec = i32_bytes (i32_to_size x) x @ rest"
    and "int (i32_to_size x) \<le> fc_input_left codec"
  shows "parse_i32 opt codec tag = Some (advance codec rest (i32_to_size x), int (i32_to_size x), x)"
proof -
  have "parse_32 opt codec tag SIGN_MASK_I32 = Some (advance codec rest (i32_to_size x), int (i32_to_size x),
      join7 SIGN_MASK_I32 (digits7 (\<lambda>i. signed_drop_bit i x) (i32_to_size x)))"
    using parse_present [OF assms(1), of "digits7 (\<lambda>i. signed_drop_bit i x) (i32_to_size x)" rest] digits7_small i32_size(1) [of x] assms(2,3)
    by (auto simp: digits7_simps u32_wire)
  then show ?thesis by (simp add: parse_i32_def join7_i32)
qed

lemma emitted_cases:
  assumes "u32_emitted op c x = Some bs"
  obtains (val) "bs = u32_bytes (u32_to_size x) x" "length bs = u32_to_size x" "op = FAST_OP_DELTA \<Longrightarrow> c = None"
  | (delta) old where "op = FAST_OP_DELTA" "c = Some old" "bs = i32_bytes (i32_to_size (x - old)) (x - old)"
      "length bs = i32_to_size (x - old)"
  using assms u32_size(1) by (auto simp: u32_emitted_def u32_wire digits7_simps split: if_splits)

lemma decode_next_ok:
  assumes ok: "codec_ok dec" and t: "u32_tag_ok tag"
    and st: "in_step (get_tag_op tag) ce (u32_cell dec tag)" and em: "em = u32_emitted (get_tag_op tag) ce x"
    and pm: "get_pmap dec tag = Some (if em = None then 0 else 1)"
    and inp: "fc_input dec = field_bytes em @ rest" and left: "int (length (field_bytes em)) \<le> fc_input_left dec"
  shows "decode_u32_next opt dec tag = Some (Inr (advance dec rest (length (field_bytes em)), x))"
proof (cases em)
  case None
  have "advance dec rest 0 = dec" using inp None by (simp add: advance_def field_bytes_def)
  have ce: "get_tag_op tag \<noteq> FAST_OP_NONE" "ce = Some x"
    using None em ops_distinct by (auto simp: u32_emitted_def split: if_splits)
  then obtain y where y: "u32_cell dec tag = Some y" "x = u32_kept (get_tag_op tag) y"
    using st by (cases "u32_cell dec tag") (auto simp: in_step_def)
  note acc = cv_u32_access [OF ok t] cv_u32_access(2) [OF ok t y(1)]
  have p: "parse_u32 opt dec tag = Some (dec, 0, 0)" "parse_i32 opt dec tag = Some (dec, 0, 0)"
    using parse_absent pm None by (simp_all add: parse_u32_def parse_i32_def)
  show ?thesis using ce(1) t y ops_distinct None \<open>advance dec rest 0 = dec\<close>
    by (auto simp: decode_u32_next_def Let_def p acc u32_tag_ok_def u32_kept_def field_bytes_def)
next
  case (Some bs)
  have pres: "get_pmap dec tag = Some 1" using pm Some by simp
  have i: "fc_input dec = bs @ rest" "int (length bs) \<le> fc_input_left dec" using inp left Some by (simp_all add: field_bytes_def)
  from em Some have "u32_emitted (get_tag_op tag) ce x = Some bs" by simp
  then show ?thesis
  proof (cases rule: emitted_cases)
    case val
    have p: "parse_u32 opt dec tag = Some (advance dec rest (length bs), int (length bs), x)"
      using parse_present_u32 [OF pres] i val by simp
    have "0 < length bs" using val(2) u32_size(1) [of x] by simp
    moreover have "get_tag_op tag = FAST_OP_DELTA \<Longrightarrow> u32_cell dec tag = None"
      using val(3) st ops_distinct by (auto simp: in_step_def)
    ultimately show ?thesis using t Some ops_distinct cv_u32_access(1) [OF ok t]
      by (auto simp: decode_u32_next_def Let_def p u32_tag_ok_def field_bytes_def)
  next
    case (delta old)
    have p: "parse_i32 opt dec tag = Some (advance dec rest (length bs), int (length bs), x - old)"
      using parse_present_i32 [OF pres] i delta by simp
    have "0 < length bs" using delta(4) i32_size(1) [of "x - old"] by simp
    have c: "u32_cell dec tag = Some old"
      using delta(1,2) st ops_distinct by (cases "u32_cell dec tag") (auto simp: in_step_def u32_kept_def)
    have ok': "codec_ok (advance dec rest (length bs))" using ok by simp
    have "cv_get_u32 (advance dec rest (length bs)) tag = Some old" using cv_u32_access(2) [OF ok' t] c by simp
    then show ?thesis using delta(1) Some ops_distinct cv_u32_access(1) [OF ok t] c \<open>0 < length bs\<close>
      by (simp add: decode_u32_next_def Let_def p field_bytes_def)
  qed
qed

lemma decode_u32_field:
  assumes ok: "codec_ok dec" and t: "u32_tag_ok tag"
    and nxt: "decode_u32_next opt dec tag = Some (Inr (advance dec rest n, x))"
  shows "fast_decode_u32 opt dec tag = Some (set_u32_cell (advance dec rest n) tag x, 0, Some x)"
proof -
  have chk: "check_codec opt dec = (dec, if opt then 1 else 0)" "snd (check_type opt dec tag FAST_TYPE_U32) \<ge> 0"
    "fst (check_type opt dec tag FAST_TYPE_U32) = dec"
    using ok t by (simp_all add: check_codec_def check_type_def codec_ok_def u32_tag_ok_def)
  have ok': "codec_ok (advance dec rest n)" using ok by simp
  note s = set_u32_cell_ok [OF ok' t]
  show ?thesis
    using chk nxt cv_u32_access(3) [OF ok' t] cv_u32_access(2) [OF s(1) t s(2)]
    by (cases "check_type opt dec tag FAST_TYPE_U32") (simp add: fast_decode_u32_def)
qed

subsection \<open>Messages\<close>

text \<open>The calls with which an application encodes and decodes the fields of a message.\<close>

fun encode_fields :: "fast_codec \<Rightarrow> (u32 \<times> u32) list \<Rightarrow> fast_codec option" where
  "encode_fields codec [] = Some codec"
| "encode_fields codec ((tag, x) # fs) =
    do { (codec, rc) \<leftarrow> fast_encode_u32 codec tag x;
         if rc < 0 then None else encode_fields codec fs }"

fun decode_fields :: "bool \<Rightarrow> fast_codec \<Rightarrow> u32 list \<Rightarrow> (fast_codec \<times> u32 list) option" where
  "decode_fields opt codec [] = Some (codec, [])"
| "decode_fields opt codec (tag # tags) =
    do { (codec, rc, v) \<leftarrow> fast_decode_u32 opt codec tag;
         if rc < 0 then None
         else do { x \<leftarrow> v; (codec, xs) \<leftarrow> decode_fields opt codec tags; Some (codec, x # xs) } }"

definition encode_message :: "fast_codec \<Rightarrow> u32 \<Rightarrow> (u32 \<times> u32) list \<Rightarrow> fast_codec option" where
  "encode_message codec tid fs =
    do { let (codec, rc) = fast_encode_new_msg False codec tid;
         if rc < 0 then None
         else do {
           codec \<leftarrow> encode_fields codec fs;
           (codec, rc) \<leftarrow> fast_encode_end_msg codec tid;
           if rc < 0 then None else Some codec
         } }"

definition decode_message :: "bool \<Rightarrow> fast_codec \<Rightarrow> u8 list \<Rightarrow> int \<Rightarrow> u32 list \<Rightarrow> (fast_codec \<times> u32 list) option" where
  "decode_message opt codec buf n tags =
    do { (codec, rc) \<leftarrow> fast_decode_new_msg opt (fast_set_input_buffer codec buf n);
         if rc < 0 then None
         else do {
           (codec, xs) \<leftarrow> decode_fields opt codec tags;
           let (codec, rc) = fast_decode_end_msg opt codec;
           if rc < 0 then None else Some (codec, xs)
         } }"

text \<open>The values kept for the tags of a template are in step.\<close>

definition all_in_step :: "u32 set \<Rightarrow> fast_codec \<Rightarrow> fast_codec \<Rightarrow> bool" where
  "all_in_step T enc dec \<longleftrightarrow> (\<forall>t\<in>T. in_step (get_tag_op t) (u32_cell enc t) (u32_cell dec t))"

abbreviation (input) pm_bit :: "fast_codec \<Rightarrow> u32 \<Rightarrow> u8" where
  "pm_bit codec t \<equiv> pm_bits (fc_pmap codec) ! unat (get_tag_slot t)"

text \<open>
  What a decoder makes of \<open>body\<close>, the bytes of the fields \<open>fs\<close>: it reads them back and stays in step with the
  encoder, provided its presence map is the one of the encoder.
\<close>

definition reads_back :: "u32 set \<Rightarrow> (u32 \<times> u32) list \<Rightarrow> u8 list \<Rightarrow> fast_codec \<Rightarrow> fast_codec \<Rightarrow> bool" where
  "reads_back T fs body enc enc' \<longleftrightarrow> (\<forall>opt dec rest.
     codec_ok dec \<longrightarrow> all_in_step T enc dec \<longrightarrow>
     (\<forall>t\<in>fst ` set fs. get_pmap dec t = Some (pm_bit enc' t)) \<longrightarrow>
     fc_input dec = body @ rest \<longrightarrow> int (length body) \<le> fc_input_left dec \<longrightarrow>
     (\<exists>dec'. decode_fields opt dec (map fst fs) = Some (dec', map snd fs) \<and> codec_ok dec' \<and>
       fc_input dec' = rest \<and> fc_pmap dec' = fc_pmap dec \<and> all_in_step T enc' dec'))"

lemma get_pmap_cong: "fc_pmap a = fc_pmap b \<Longrightarrow> get_pmap a t = get_pmap b t"
  by (simp add: get_pmap_def Let_def)

lemma unat_slot_inj: "unat (get_tag_slot t) = unat (get_tag_slot t') \<longleftrightarrow> get_tag_slot t = get_tag_slot t'"
  by (simp add: word_unat_eq_iff)

lemma reads_back_Cons:
  assumes T: "t \<in> T" "inj_on get_tag_slot T" "u32_tag_ok t"
    and cell: "u32_cell enc1 t = Some (u32_kept (get_tag_op t) x)"
      "\<forall>t'. get_tag_slot t' \<noteq> get_tag_slot t \<longrightarrow> u32_cell enc1 t' = u32_cell enc t'"
    and em: "em = u32_emitted (get_tag_op t) (u32_cell enc t) x" and bit: "pm_bit enc' t = (if em = None then 0 else 1)"
    and rb: "reads_back T fs body enc1 enc'"
  shows "reads_back T ((t, x) # fs) (field_bytes em @ body) enc enc'"
  unfolding reads_back_def
proof (intro allI impI)
  fix opt dec rest
  let ?n = "length (field_bytes em)"
  let ?dec = "set_u32_cell (advance dec (body @ rest) ?n) t x"
  assume d: "codec_ok dec" "all_in_step T enc dec" "\<forall>t\<in>fst ` set ((t, x) # fs). get_pmap dec t = Some (pm_bit enc' t)"
    "fc_input dec = (field_bytes em @ body) @ rest" "int (length (field_bytes em @ body)) \<le> fc_input_left dec"
  have "in_step (get_tag_op t) (u32_cell enc t) (u32_cell dec t)" using d(2) T(1) by (simp add: all_in_step_def)
  then have "decode_u32_next opt dec t = Some (Inr (advance dec (body @ rest) ?n, x))"
    using decode_next_ok [OF d(1) T(3) _ em] d(3-5) bit by simp
  then have f: "fast_decode_u32 opt dec t = Some (?dec, 0, Some x)" by (rule decode_u32_field [OF d(1) T(3)])
  have ok: "codec_ok (advance dec (body @ rest) ?n)" using d(1) by simp
  note s = set_u32_cell_ok [OF ok T(3)]
  have "all_in_step T enc1 ?dec"
    unfolding all_in_step_def
  proof
    fix t' assume t': "t' \<in> T"
    show "in_step (get_tag_op t') (u32_cell enc1 t') (u32_cell ?dec t')"
    proof (cases "t' = t")
      case True
      then show ?thesis using cell(1) s(2) by (simp add: in_step_def)
    next
      case False
      then have "get_tag_slot t' \<noteq> get_tag_slot t" using T(1,2) t' by (auto dest: inj_onD)
      then show ?thesis using cell(2) s(3) d(2) t' by (simp add: all_in_step_def)
    qed
  qed
  moreover have "\<forall>t\<in>fst ` set fs. get_pmap ?dec t = Some (pm_bit enc' t)"
    using d(3) get_pmap_cong [of ?dec dec] by simp
  moreover have "fc_input ?dec = body @ rest" "int (length body) \<le> fc_input_left ?dec" using d(5) by simp_all
  ultimately obtain dec' where "decode_fields opt ?dec (map fst fs) = Some (dec', map snd fs)" "codec_ok dec'"
    "fc_input dec' = rest" "fc_pmap dec' = fc_pmap ?dec" "all_in_step T enc' dec'"
    using rb [unfolded reads_back_def, THEN spec [of _ opt], THEN spec [of _ ?dec], THEN spec [of _ rest]] s(1) by blast
  then show "\<exists>dec'. decode_fields opt dec (map fst ((t, x) # fs)) = Some (dec', map snd ((t, x) # fs)) \<and> codec_ok dec' \<and>
       fc_input dec' = rest \<and> fc_pmap dec' = fc_pmap dec \<and> all_in_step T enc' dec'"
    using f by simp
qed

lemma fields_roundtrip:
  assumes "codec_ok enc" and "pmap_ok (fc_pmap enc)" and "length (fc_msg enc) + 5 * length fs \<le> 2048"
    and "inj_on get_tag_slot T" and "fst ` set fs \<subseteq> T" and "distinct (map fst fs)"
    and "\<forall>t\<in>T. u32_tag_ok t" and "\<forall>t\<in>fst ` set fs. pm_bit enc t = 0"
  shows "\<exists>enc' body. encode_fields enc fs = Some enc' \<and> codec_ok enc' \<and> pmap_ok (fc_pmap enc') \<and>
    fc_msg enc' = fc_msg enc @ body \<and> length body \<le> 5 * length fs \<and> fc_output enc' = fc_output enc \<and>
    fc_in_message enc' = fc_in_message enc \<and>
    (\<forall>t\<in>T. t \<notin> fst ` set fs \<longrightarrow> pm_bit enc' t = pm_bit enc t) \<and> reads_back T fs body enc enc'"
  using assms
proof (induction fs arbitrary: enc)
  case Nil
  then show ?case by (auto simp: reads_back_def)
next
  case (Cons f fs)
  obtain t x where f: "f = (t, x)" by fastforce
  have t: "t \<in> T" "u32_tag_ok t" "t \<notin> fst ` set fs" "pm_bit enc t = 0" using Cons.prems(5-8) f by auto
  let ?em = "u32_emitted (get_tag_op t) (u32_cell enc t) x"
  obtain enc1 rc where e: "fast_encode_u32 enc t x = Some (enc1, rc)" "0 \<le> rc" "codec_ok enc1"
    "u32_cell enc1 t = Some (u32_kept (get_tag_op t) x)"
    "\<forall>t'. get_tag_slot t' \<noteq> get_tag_slot t \<longrightarrow> u32_cell enc1 t' = u32_cell enc t'"
    "fc_output enc1 = fc_output enc" "fc_in_message enc1 = fc_in_message enc"
    "fc_msg enc1 = fc_msg enc @ field_bytes ?em" "fc_pmap enc1 = (if ?em = None then fc_pmap enc else mark t (fc_pmap enc))"
  proof -
    have "length (fc_msg enc) + 5 \<le> 2048" using Cons.prems(3) by simp
    from encode_u32_field [OF Cons.prems(1) t(2) Cons.prems(2) this, of x] show ?thesis using that by blast
  qed
  have b: "length (field_bytes ?em) \<le> 5" using emitted_length by (auto simp: field_bytes_def split: option.splits)
  have pm1: "pmap_ok (fc_pmap enc1)" using e(9) Cons.prems(2) mark_ok(1) t(2) by simp
  have bit1: "pm_bit enc1 t' = (if t' = t \<and> ?em \<noteq> None then 1 else pm_bit enc t')" if "t' \<in> T" for t'
  proof -
    have "unat (get_tag_slot t') < 56" using that Cons.prems(7) by (simp add: u32_tag_ok_def)
    moreover have "get_tag_slot t' = get_tag_slot t \<longleftrightarrow> t' = t" using that t(1) Cons.prems(4) by (auto dest: inj_onD)
    ultimately show ?thesis using mark_ok(2) [OF Cons.prems(2) t(2), of "unat (get_tag_slot t')"] e(9)
      by (cases "?em = None") (auto simp: unat_slot_inj)
  qed
  have "\<forall>t'\<in>fst ` set fs. pm_bit enc1 t' = 0"
  proof
    fix t' assume t': "t' \<in> fst ` set fs"
    then have "t' \<in> T" "t' \<noteq> t" "pm_bit enc t' = 0" using Cons.prems(5,8) t(3) by auto
    then show "pm_bit enc1 t' = 0" using bit1 by simp
  qed
  then obtain enc' body where i: "encode_fields enc1 fs = Some enc'" "codec_ok enc'" "pmap_ok (fc_pmap enc')"
    "fc_msg enc' = fc_msg enc1 @ body" "length body \<le> 5 * length fs" "fc_output enc' = fc_output enc1"
    "fc_in_message enc' = fc_in_message enc1" "\<forall>t\<in>T. t \<notin> fst ` set fs \<longrightarrow> pm_bit enc' t = pm_bit enc1 t"
    "reads_back T fs body enc1 enc'"
    using Cons.IH [OF e(3) pm1 _ Cons.prems(4)] Cons.prems(3,5-7) e(8) b f by auto
  have "pm_bit enc' t = (if ?em = None then 0 else 1)" using i(8) t bit1 by simp
  then have "reads_back T (f # fs) (field_bytes ?em @ body) enc enc'"
    unfolding f using reads_back_Cons [OF t(1) Cons.prems(4) t(2) e(4,5) refl _ i(9)] by simp
  moreover have "\<forall>t'\<in>T. t' \<notin> fst ` set (f # fs) \<longrightarrow> pm_bit enc' t' = pm_bit enc t'" using i(8) bit1 f by auto
  ultimately show ?case
    using e i b f by (intro exI [of _ enc'] exI [of _ "field_bytes ?em @ body"]) auto
qed

definition idle :: "fast_codec \<Rightarrow> bool" where
  "idle enc \<longleftrightarrow> fc_in_message enc = 0 \<and> fc_msg enc = [] \<and> pm_bits (fc_pmap enc) = replicate 56 0 \<and> pm_max_pos (fc_pmap enc) = 0"

text \<open>An encoder and a decoder between two messages of a template with the tags \<open>T\<close>.\<close>

definition codecs_linked :: "u32 set \<Rightarrow> fast_codec \<Rightarrow> fast_codec \<Rightarrow> bool" where
  "codecs_linked T enc dec \<longleftrightarrow> codec_ok enc \<and> idle enc \<and> codec_ok dec \<and> length (pm_bits (fc_pmap dec)) = 56 \<and> all_in_step T enc dec"

lemma end_msg_ok:
  assumes ok: "codec_ok enc" and pm: "pmap_ok (fc_pmap enc)" and m: "fc_in_message enc = 1"
    and room: "length (fc_output enc) + length (fc_msg enc) + 8 < 2048"
  obtains enc' bs where "fast_encode_end_msg enc tid = Some (enc', 0)" "codec_ok enc'" "idle enc'"
    "fc_output enc' = fc_output enc @ stop bs @ fc_msg enc" "\<forall>t. u32_cell enc' t = u32_cell enc t"
    "bs \<noteq> []" "length bs \<le> 8" "\<forall>b\<in>set bs. b < 0x80"
    "concat (map unpack7 bs) = take (7 * length bs) (pm_bits (fc_pmap enc))" "unat (pm_max_pos (fc_pmap enc)) < 7 * length bs"
proof -
  have pm': "pmap_ok (fc_pmap (enc\<lparr>fc_in_message := 0\<rparr>))" using pm by simp
  obtain bs where bs: "emit_pmap (enc\<lparr>fc_in_message := 0\<rparr>) = Some (stop bs)" "bs \<noteq> []" "length bs \<le> 8" "\<forall>b\<in>set bs. b < 0x80"
    "concat (map unpack7 bs) = take (7 * length bs) (pm_bits (fc_pmap enc))" "unat (pm_max_pos (fc_pmap enc)) < 7 * length bs"
    using emit_pmap_ok [OF pm'] by auto
  let ?enc = "(reset_pmap (enc\<lparr>fc_in_message := 0, fc_output := fc_output enc @ stop bs @ fc_msg enc\<rparr>))\<lparr>fc_msg := []\<rparr>"
  have chk: "check_codec False enc = (enc, 0)" using ok by (simp add: check_codec_def codec_ok_def)
  have "fast_encode_end_msg enc tid = Some (?enc, 0)"
    using m room bs(1) chk
    by (simp add: fast_encode_end_msg_def flush_msg_def flush_group_def Let_def MAX_MSG_SIZE_def MAX_PMAP_BYTES_def)
  moreover have "codec_ok ?enc" using ok by (simp add: reset_pmap_def)
  moreover have "idle ?enc" by (simp add: idle_def reset_pmap_def MAX_PMAP_BITS_def MAX_PMAP_BYTES_def)
  ultimately show ?thesis using that [of ?enc bs] bs(2-6) by (simp add: reset_pmap_def)
qed

lemma new_msg_decoded:
  assumes dec: "codec_ok dec" "length (pm_bits (fc_pmap dec)) = 56"
    and pm: "pmap_ok pm" and bs: "bs \<noteq> []" "length bs \<le> 8" "\<forall>b\<in>set bs. b < 0x80"
    "concat (map unpack7 bs) = take (7 * length bs) (pm_bits pm)" "unat (pm_max_pos pm) < 7 * length bs"
    and n: "int (length bs) \<le> n"
  obtains dec1 where "fast_decode_new_msg opt (fast_set_input_buffer dec (stop bs @ body) n) = Some (dec1, int (length bs))"
    "codec_ok dec1" "\<forall>t. u32_cell dec1 t = u32_cell dec t" "length (pm_bits (fc_pmap dec1)) = 56"
    "fc_input dec1 = body" "fc_input_left dec1 = n - int (length bs)"
    "\<forall>t. u32_tag_ok t \<longrightarrow> get_pmap dec1 t = Some (pm_bits pm ! unat (get_tag_slot t))"
proof -
  let ?dec = "fast_set_input_buffer dec (stop bs @ body) n"
  let ?dec1 = "?dec\<lparr>fc_input := body, fc_input_left := n - int (length bs),
      fc_pmap := (fc_pmap dec)\<lparr>pm_bits := concat (map unpack7 bs) @ drop (7 * length bs) (pm_bits (fc_pmap dec)),
        pm_size := word_of_int (7 * int (length bs))\<rparr>\<rparr>"
  have "fast_decode_new_msg opt ?dec = Some (?dec1, int (length bs))"
    using parse_pmap_stop [OF bs(1,3,2), of ?dec body opt] dec n
    by (cases opt) (simp_all add: fast_decode_new_msg_def check_codec_def codec_ok_def fast_set_input_buffer_def)
  moreover have "length (pm_bits (fc_pmap ?dec1)) = 56"
    using bs(2,4) dec(2) pm by (simp add: pmap_ok_def)
  moreover have "\<forall>t. u32_tag_ok t \<longrightarrow> get_pmap ?dec1 t = Some (pm_bits pm ! unat (get_tag_slot t))"
    using get_pmap_emitted [OF pm bs(4,5,2), of ?dec1] by (simp add: u32_tag_ok_def)
  ultimately show ?thesis using that [of ?dec1] dec(1) by (simp add: fast_set_input_buffer_def)
qed

text \<open>C21. Messages: whatever the operators of its fields, a message of unsigned integers that was encoded is
  read back by a decoder, in either build, that has read the messages before it, whatever bytes follow;
  encoder and decoder are then in step for the next message.\<close>

theorem fast_message_roundtrip:
  assumes link: "codecs_linked T enc dec" and T: "inj_on get_tag_slot T" "\<forall>t\<in>T. u32_tag_ok t"
    and fs: "fst ` set fs \<subseteq> T" "distinct (map fst fs)" and room: "length (fc_output enc) + 5 * length fs + 8 < 2048"
  shows "\<exists>enc' dec' wire. encode_message enc tid fs = Some enc' \<and> fc_output enc' = fc_output enc @ wire \<and>
    decode_message opt dec (wire @ rest) (int (length wire)) (map fst fs) = Some (dec', map snd fs) \<and>
    codecs_linked T enc' dec'"
proof -
  let ?enc = "enc\<lparr>fc_in_message := 1, fc_curr_tag := tid\<rparr>"
  have l: "codec_ok enc" "idle enc" "codec_ok dec" "length (pm_bits (fc_pmap dec)) = 56" "all_in_step T enc dec"
    using link by (simp_all add: codecs_linked_def)
  have i: "fc_in_message enc = 0" "fc_msg enc = []" "pm_bits (fc_pmap enc) = replicate 56 0" "pm_max_pos (fc_pmap enc) = 0"
    using l(2) by (simp_all add: idle_def)
  have new: "fast_encode_new_msg False enc tid = (?enc, 0)"
    using l(1) i(1) by (simp add: fast_encode_new_msg_def check_codec_def codec_ok_def)
  have "pmap_ok (fc_pmap ?enc)" using i(3,4) by (simp add: pmap_ok_def)
  moreover have "codec_ok ?enc" "length (fc_msg ?enc) + 5 * length fs \<le> 2048" using l(1) i(2) room by simp_all
  moreover have "\<forall>t\<in>fst ` set fs. pm_bit ?enc t = 0" using i(3) T(2) fs(1) by (auto simp: u32_tag_ok_def)
  ultimately obtain enc1 body where e: "encode_fields ?enc fs = Some enc1" "codec_ok enc1" "pmap_ok (fc_pmap enc1)"
    "fc_msg enc1 = fc_msg ?enc @ body" "length body \<le> 5 * length fs" "fc_output enc1 = fc_output ?enc"
    "fc_in_message enc1 = fc_in_message ?enc" "reads_back T fs body ?enc enc1"
    using fields_roundtrip [OF _ _ _ T(1) fs T(2), of ?enc] by blast
  have m: "fc_msg enc1 = body" "fc_output enc1 = fc_output enc" "fc_in_message enc1 = 1"
    "length (fc_output enc1) + length (fc_msg enc1) + 8 < 2048" using e(4-7) i(2) room by simp_all
  obtain enc2 bs where f: "fast_encode_end_msg enc1 tid = Some (enc2, 0)" "codec_ok enc2" "idle enc2"
    "fc_output enc2 = fc_output enc1 @ stop bs @ fc_msg enc1" "\<forall>t. u32_cell enc2 t = u32_cell enc1 t"
    "bs \<noteq> []" "length bs \<le> 8" "\<forall>b\<in>set bs. b < 0x80"
    "concat (map unpack7 bs) = take (7 * length bs) (pm_bits (fc_pmap enc1))" "unat (pm_max_pos (fc_pmap enc1)) < 7 * length bs"
    using end_msg_ok [OF e(2,3) m(3,4), of tid] by blast
  let ?n = "int (length (stop bs @ body))"
  obtain dec1 where d: "fast_decode_new_msg opt (fast_set_input_buffer dec (stop bs @ body @ rest) ?n) = Some (dec1, int (length bs))"
    "codec_ok dec1" "\<forall>t. u32_cell dec1 t = u32_cell dec t" "length (pm_bits (fc_pmap dec1)) = 56"
    "fc_input dec1 = body @ rest" "fc_input_left dec1 = ?n - int (length bs)"
    "\<forall>t. u32_tag_ok t \<longrightarrow> get_pmap dec1 t = Some (pm_bit enc1 t)"
    using new_msg_decoded [OF l(3,4) e(3) f(6-10), of ?n opt "body @ rest"] by auto
  have "all_in_step T ?enc dec1" using l(5) d(3) by (simp add: all_in_step_def)
  moreover have "\<forall>t\<in>fst ` set fs. get_pmap dec1 t = Some (pm_bit enc1 t)" using d(7) T(2) fs(1) by auto
  moreover have "int (length body) \<le> fc_input_left dec1" using d(6) by simp
  ultimately obtain dec2 where r: "decode_fields opt dec1 (map fst fs) = Some (dec2, map snd fs)" "codec_ok dec2"
    "fc_pmap dec2 = fc_pmap dec1" "all_in_step T enc1 dec2"
    using e(8) [unfolded reads_back_def, THEN spec [of _ opt], THEN spec [of _ dec1], THEN spec [of _ rest]] d(2,5) by blast
  have "fast_decode_end_msg opt dec2 = (dec2, 0)" using r(2) by (simp add: fast_decode_end_msg_def check_codec_def codec_ok_def)
  then have "decode_message opt dec ((stop bs @ body) @ rest) ?n (map fst fs) = Some (dec2, map snd fs)"
    using d(1) r(1) by (simp add: decode_message_def)
  moreover have "encode_message enc tid fs = Some enc2" using new e(1) f(1) by (simp add: encode_message_def)
  moreover have "codecs_linked T enc2 dec2" using f r d(4) by (simp add: codecs_linked_def all_in_step_def)
  moreover have "fc_output enc2 = fc_output enc @ (stop bs @ body)" using f(4) m(1,2) by simp
  ultimately show ?thesis by blast
qed

subsection \<open>Strings under the copy operator\<close>

lemma str_neq_differ: "str_neq a b n = Some True \<Longrightarrow> take n a \<noteq> take n b"
  by (induction a b n rule: str_neq.induct) (auto split: if_splits)

text \<open>The comparison that should let the encoder leave out a repeated string never succeeds, in whatever
  state of the codec: such strings are always sent.\<close>

lemma fast_copy_string_always_sent:
  "cv_eq_str opt codec tag data len = Some (codec', e) \<Longrightarrow> \<not> e"
  using str_neq_differ
  by (auto simp: cv_eq_str_def bind_eq_Some_conv split: if_splits prod.splits)

subsection \<open>The decoder on arbitrary bytes\<close>

text \<open>
  A decoder that has taken \<open>k\<close> of the \<open>n\<close> bytes of its input.  Its presence map is of a size the parser
  can have set.
\<close>

definition reading :: "u8 list \<Rightarrow> int \<Rightarrow> nat \<Rightarrow> fast_codec \<Rightarrow> bool" where
  "reading buf n k dec \<longleftrightarrow> fc_input dec = drop k buf \<and> fc_input_left dec = n - int k \<and> (k = 0 \<or> int k \<le> n) \<and>
     codec_ok dec \<and> length (pm_bits (fc_pmap dec)) = 56 \<and> unat (pm_size (fc_pmap dec)) \<le> 56"

lemma parse_loop_total:
  assumes "n \<le> int (length buf)" and "k = 0 \<or> int k \<le> n" and "p1 + m \<le> length data"
  shows "\<exists>k' data' r. parse_bytes_loop (drop k buf) (n - int k) data p1 m = Some (drop k' buf, n - int k', data', r) \<and>
    (k' = 0 \<or> int k' \<le> n) \<and> length data' = length data \<and>
    (\<forall>rc. r = Some rc \<longrightarrow> rc = -1 \<or> 0 < rc \<and> rc \<le> int (p1 + m))"
  using assms
proof (induction m arbitrary: k data p1)
  case (Suc m)
  show ?case
  proof (cases "n - int k \<le> 0")
    case True
    then show ?thesis using Suc.prems(2) by (intro exI [of _ k]) simp
  next
    case False
    then have "k < length buf" using Suc.prems(1) by linarith
    then have d: "drop k buf = buf ! k # drop (Suc k) buf" by (simp add: Cons_nth_drop_Suc)
    have s: "array_set data p1 (buf ! k) = Some (data[p1 := buf ! k])" using Suc.prems(3) by (simp add: array_set_def)
    have k1: "n - int k - 1 = n - int (Suc k)" "int (Suc k) \<le> n" using False by linarith+
    show ?thesis
    proof (cases "buf ! k \<ge> 0x80")
      case True
      then show ?thesis using False d s k1 by (intro exI [of _ "Suc k"]) simp
    next
      case f: False
      obtain k' data' r where "parse_bytes_loop (drop (Suc k) buf) (n - int (Suc k)) (data[p1 := buf ! k]) (p1 + 1) m =
          Some (drop k' buf, n - int k', data', r)" "k' = 0 \<or> int k' \<le> n" "length data' = length data"
        "\<forall>rc. r = Some rc \<longrightarrow> rc = -1 \<or> 0 < rc \<and> rc \<le> int (p1 + 1 + m)"
        using Suc.IH [of "Suc k" "p1 + 1" "data[p1 := buf ! k]"] Suc.prems k1 by auto
      then show ?thesis using False f d s by (intro exI [of _ k'] exI [of _ data'] exI [of _ r]) (simp add: diff_diff_eq add.commute)
    qed
  qed
qed simp

lemma parse_bytes_total:
  assumes r: "reading buf n k dec" and n: "n \<le> int (length buf)"
  shows "\<exists>k' dec' data' rc. parse_bytes opt dec (replicate m 0) m = Some (dec', data', rc) \<and> reading buf n k' dec' \<and>
    length data' = m \<and> (rc = -1 \<or> 0 < rc \<and> rc \<le> int m) \<and> (\<forall>t. u32_cell dec' t = u32_cell dec t)"
proof -
  have z: "(if opt then Some (replicate m 0) else mem_copy (replicate m 0) 0 (replicate m 0) (int m)) = Some (replicate m (0 :: u8))"
    using mem_copy_0 [of "replicate m (0 :: u8)" m "replicate m 0"] by simp
  obtain k' data' res where l: "parse_bytes_loop (drop k buf) (n - int k) (replicate m 0) 0 m = Some (drop k' buf, n - int k', data', res)"
    "k' = 0 \<or> int k' \<le> n" "length data' = m" "\<forall>rc. res = Some rc \<longrightarrow> rc = -1 \<or> 0 < rc \<and> rc \<le> int m"
    using parse_loop_total [OF n, of k 0 m "replicate m 0"] r unfolding reading_def by fastforce
  have e: "u32_cell (d\<lparr>fc_error_tag := a, fc_error_code := b\<rparr>) t = u32_cell d t"
    "codec_ok (d\<lparr>fc_error_tag := a, fc_error_code := b\<rparr>) = codec_ok d" for d a b t
    by (simp_all add: u32_cell_def codec_ok_def)
  show ?thesis using r z l e
    by (cases res) (auto simp: parse_bytes_def reading_def set_err_def intro!: exI [of _ k'])
qed

lemma parse_32_total:
  assumes r: "reading buf n k dec" and n: "n \<le> int (length buf)"
  shows "\<exists>k' dec' rc x. parse_32 opt dec t msk = Some (dec', rc, x) \<and> reading buf n k' dec' \<and>
    (rc = -1 \<or> 0 \<le> rc) \<and> (\<forall>t. u32_cell dec' t = u32_cell dec t)"
proof -
  have "\<exists>p. get_pmap dec t = Some p"
    using r by (auto simp: get_pmap_def Let_def array_get_def reading_def word_le_nat_alt)
  then obtain p where p: "get_pmap dec t = Some p" by blast
  show ?thesis
  proof (cases "p = 0")
    case True
    then show ?thesis using p r by (intro exI [of _ k]) (simp add: parse_32_def)
  next
    case False
    obtain k' dec' data' rc where "parse_bytes opt dec (replicate 5 0) 5 = Some (dec', data', rc)" "reading buf n k' dec'"
      "rc = -1 \<or> 0 < rc \<and> rc \<le> int 5" "\<forall>t. u32_cell dec' t = u32_cell dec t"
      using parse_bytes_total [OF r n, of opt 5] by blast
    then show ?thesis using p False by (intro exI [of _ k']) (auto simp: parse_32_def)
  qed
qed

lemma reading_err: "reading buf n k (fst (set_err dec t c)) = reading buf n k dec"
  by (simp add: reading_def set_err_def codec_ok_def)

lemma decode_next_total:
  assumes r: "reading buf n k dec" and n: "n \<le> int (length buf)" and t: "u32_tag_ok t"
  shows "\<exists>k' res. decode_u32_next opt dec t = Some res \<and>
    (case res of Inl (dec', rc) \<Rightarrow> reading buf n k' dec' \<and> rc = -1 | Inr (dec', x) \<Rightarrow> reading buf n k' dec')"
proof -
  obtain ku du ru xu where u: "parse_u32 opt dec t = Some (du, ru, xu)" "reading buf n ku du" "ru = -1 \<or> 0 \<le> ru"
    "u32_cell du t = u32_cell dec t"
    using parse_32_total [OF r n, of opt t SIGN_MASK_U32] by (auto simp: parse_u32_def)
  obtain ki di ri xi where i: "parse_i32 opt dec t = Some (di, ri, xi)" "reading buf n ki di" "ri = -1 \<or> 0 \<le> ri"
    "u32_cell di t = u32_cell dec t"
    using parse_32_total [OF r n, of opt t SIGN_MASK_I32] by (auto simp: parse_i32_def)
  have ok: "codec_ok dec" "codec_ok du" "codec_ok di" using r u(2) i(2) by (simp_all add: reading_def)
  note acc = cv_u32_access [OF ok(1) t] cv_u32_access [OF ok(2) t] cv_u32_access [OF ok(3) t]
  have e: "value_error d t = (fst (set_err d t FAST_ERR_VALUE), -1)" for d by (simp add: value_error_def set_err_def)
  have "(\<exists>res. decode_u32_next opt dec t = Some res \<and>
      (case res of Inl (dec', rc) \<Rightarrow> (reading buf n ku dec' \<or> reading buf n ki dec') \<and> rc = -1
       | Inr (dec', x) \<Rightarrow> reading buf n ku dec' \<or> reading buf n ki dec'))"
    using t u i ops_distinct
    by (cases "u32_cell dec t") (auto simp: decode_u32_next_def Let_def acc u32_tag_ok_def e reading_err)
  then show ?thesis by (auto split: sum.splits prod.splits) blast+
qed

lemma decode_u32_total:
  assumes r: "reading buf n k dec" and n: "n \<le> int (length buf)" and t: "u32_tag_ok t"
  shows "\<exists>k' dec' rc v. fast_decode_u32 opt dec t = Some (dec', rc, v) \<and> reading buf n k' dec' \<and> (rc = 0 \<and> v \<noteq> None \<or> rc = -1 \<and> v = None)"
proof -
  obtain k' res where d: "decode_u32_next opt dec t = Some res"
    "case res of Inl (dec', rc) \<Rightarrow> reading buf n k' dec' \<and> rc = -1 | Inr (dec', x) \<Rightarrow> reading buf n k' dec'"
    using decode_next_total [OF r n t] by blast
  have ok: "codec_ok dec" using r by (simp add: reading_def)
  have chk: "check_codec opt dec = (dec, if opt then 1 else 0)" "snd (check_type opt dec t FAST_TYPE_U32) \<ge> 0"
    "fst (check_type opt dec t FAST_TYPE_U32) = dec"
    using ok t by (simp_all add: check_codec_def check_type_def codec_ok_def u32_tag_ok_def)
  show ?thesis
  proof (cases res)
    case (Inl e)
    then show ?thesis using d chk by (cases "check_type opt dec t FAST_TYPE_U32"; cases e) (auto simp: fast_decode_u32_def)
  next
    case (Inr y)
    obtain dec' x where y: "y = (dec', x)" by fastforce
    then have rd: "reading buf n k' dec'" using d(2) Inr by simp
    then have ok': "codec_ok dec'" by (simp add: reading_def)
    note s = set_u32_cell_ok [OF ok' t]
    have "reading buf n k' (set_u32_cell dec' t x)" using rd s(1) by (simp add: reading_def)
    moreover have "fast_decode_u32 opt dec t = Some (set_u32_cell dec' t x, 0, Some x)"
      using d(1) Inr y chk cv_u32_access(3) [OF ok' t] cv_u32_access(2) [OF s(1) t s(2)]
      by (cases "check_type opt dec t FAST_TYPE_U32") (simp add: fast_decode_u32_def)
    ultimately show ?thesis by blast
  qed
qed

lemma new_msg_total:
  assumes "codec_ok dec" "length (pm_bits (fc_pmap dec)) = 56" "unat (pm_size (fc_pmap dec)) \<le> 56" and n: "n \<le> int (length buf)"
  shows "\<exists>k dec' rc. fast_decode_new_msg opt (fast_set_input_buffer dec buf n) = Some (dec', rc) \<and> reading buf n k dec' \<and>
    (\<forall>t. u32_cell dec' t = u32_cell dec t)"
proof -
  let ?dec = "fast_set_input_buffer dec buf n"
  have r: "reading buf n 0 ?dec" using assms(1-3) by (simp add: reading_def fast_set_input_buffer_def)
  obtain k dec1 data rc where p: "parse_bytes opt ?dec (replicate 8 0) 8 = Some (dec1, data, rc)" "reading buf n k dec1"
    "length data = 8" "rc = -1 \<or> 0 < rc \<and> rc \<le> int 8" "\<forall>t. u32_cell dec1 t = u32_cell ?dec t"
    using parse_bytes_total [OF r n, of opt 8] by blast
  have "fast_decode_new_msg opt ?dec = parse_pmap opt ?dec"
    using assms(1) by (simp add: fast_decode_new_msg_def check_codec_def codec_ok_def fast_set_input_buffer_def)
  moreover have "\<exists>dec' rc. parse_pmap opt ?dec = Some (dec', rc) \<and> reading buf n k dec' \<and> (\<forall>t. u32_cell dec' t = u32_cell dec1 t)"
  proof (cases "rc = -1")
    case True
    then show ?thesis using p by (simp add: parse_pmap_def MAX_PMAP_BYTES_def)
  next
    case False
    obtain m where m: "rc = int m" "0 < m" "m \<le> 8" using False p(4) by (cases rc) auto
    have "length (concat (map unpack7 bs)) = 7 * length bs" for bs by (induction bs) (simp_all add: unpack7_def)
    then have l: "length (concat (map unpack7 (take m data))) = 7 * m" using p(3) m(3) by simp
    have c: "mem_copy (pm_bits (fc_pmap dec1)) 0 (concat (map unpack7 (take m data))) (7 * int m) =
        Some (concat (map unpack7 (take m data)) @ drop (7 * m) (pm_bits (fc_pmap dec1)))"
      using mem_copy_0 [OF l, of "pm_bits (fc_pmap dec1)"] m(3) p(2) by (simp add: reading_def)
    have "unat (word_of_int (7 * int m) :: u32) = 7 * m"
    proof -
      have "(word_of_int (7 * int m) :: u32) = word_of_nat (7 * m)" by simp
      then show ?thesis using m(3) by (simp only: unat_of_nat) simp
    qed
    then show ?thesis using p c l m by (simp add: parse_pmap_def MAX_PMAP_BYTES_def reading_def)
  qed
  moreover have "u32_cell ?dec t = u32_cell dec t" for t by (simp add: fast_set_input_buffer_def)
  ultimately show ?thesis using p(5) by metis
qed

text \<open>Fields decoded whatever happened to the ones before, as the OPRA parser does.\<close>

definition decode_field :: "bool \<Rightarrow> u32 \<Rightarrow> fast_codec \<Rightarrow> (fast_codec \<times> u32 option) option" where
  "decode_field opt tag codec = do { (codec, rc, v) \<leftarrow> fast_decode_u32 opt codec tag; Some (codec, v) }"

interpretation fast_dec: total_machine "decode_field opt" "\<lambda>_ t. n \<le> int (length buf) \<and> u32_tag_ok t"
  "\<lambda>dec. \<exists>k. reading buf n k dec" "\<lambda>_ _. True" for opt n buf
proof unfold_locales
  fix dec t assume "\<exists>k. reading buf n k dec" and t: "n \<le> int (length buf) \<and> u32_tag_ok t"
  then obtain k where "reading buf n k dec" by blast
  then show "\<exists>dec' v. decode_field opt t dec = Some (dec', v) \<and> (\<exists>k. reading buf n k dec') \<and> True"
    using decode_u32_total [of buf n k dec t opt] t by (auto simp: decode_field_def)
qed auto


subsection \<open>Witnesses\<close>

definition ex_codec :: fast_codec where
  "ex_codec = the (fast_create_codec True (\<lambda>_. replicate 1024 0))"

definition ex_tags :: "u32 list" where
  "ex_tags = [MAKE_TAG 1 1 0 0, MAKE_TAG 1 2 0 4, MAKE_TAG 1 3 0 9]"

lemma tag_parts: "get_tag_type tag = drop_bit 28 tag AND 0xf" "get_tag_op tag = drop_bit 24 tag AND 0xf"
  "get_tag_tid tag = drop_bit 12 tag AND 0xf" "get_tag_slot tag = tag AND 0xff"
  by (simp_all add: get_tag_type_def get_tag_op_def get_tag_tid_def get_tag_slot_def TAG_MAX_TYPE_def TAG_MAX_OP_def
      TAG_MAX_TID_def TAG_MAX_SLOT_def)

lemma ex_tags_ok: "\<forall>t\<in>set ex_tags. u32_tag_ok t" "inj_on get_tag_slot (set ex_tags)" "distinct ex_tags"
  by (simp_all add: ex_tags_def MAKE_TAG_def u32_tag_ok_def tag_parts FAST_TYPE_U32_def FAST_OP_NONE_def FAST_OP_COPY_def
      FAST_OP_INCR_def FAST_OP_DELTA_def)

lemma ex_codec_ok: "codec_ok ex_codec" "idle ex_codec" "length (pm_bits (fc_pmap ex_codec)) = 56"
  "pm_size (fc_pmap ex_codec) = 0" "fc_output ex_codec = []"
  by (auto simp: ex_codec_def fast_create_codec_def codec_ok_def idle_def MAX_PMAP_BITS_def MAX_PMAP_BYTES_def MAX_TAG_def TAG_MAX_TID_def)

lemma ex_codec_linked: "codecs_linked (set ex_tags) ex_codec ex_codec"
proof -
  have "u32_cell ex_codec t = None" if "u32_tag_ok t" for t
    using that by (simp add: u32_cell_def ex_codec_def fast_create_codec_def TAG_MAX_TID_def MAX_TAG_def u32_tag_ok_def)
  then show ?thesis using ex_codec_ok ex_tags_ok(1) by (simp add: codecs_linked_def all_in_step_def in_step_def)
qed

theorem fast_message_roundtrip_witness:
  "\<exists>enc dec wire. encode_message ex_codec 0 (zip ex_tags [300, 7, 4000000000]) = Some enc \<and> fc_output enc = wire \<and>
     decode_message True ex_codec (wire @ [0xff]) (int (length wire)) ex_tags = Some (dec, [300, 7, 4000000000]) \<and>
     codecs_linked (set ex_tags) enc dec"
proof -
  let ?fs = "zip ex_tags [300, 7, 4000000000 :: u32]"
  have f: "fst ` set ?fs = set ex_tags" "map fst ?fs = ex_tags" "map snd ?fs = [300, 7, 4000000000]" "length ?fs = 3"
    by (simp_all add: ex_tags_def)
  show ?thesis
    using fast_message_roundtrip [OF ex_codec_linked ex_tags_ok(2,1), of ?fs 0 True "[0xff]"] f ex_tags_ok(3) ex_codec_ok(5) by simp
qed


definition ex_str_tag :: u32 where "ex_str_tag = MAKE_TAG 3 1 0 6"

definition ex_str_codec :: fast_codec where
  "ex_str_codec = the (cv_set_str False ex_codec ex_str_tag [65] 1)"

end
