(* ===== verification/ArcaSeq.thy ===== *)
theory ArcaSeq
  imports Machine
begin

section \<open>ArcaBook sequence numbers (\<^verbatim>\<open>feeds/arca/common/seq_handling.c\<close>, \<^verbatim>\<open>fh_feed_group.[ch]\<close>)\<close>

text \<open>
  The two multicast feeds of a group carry the same numbered packets.  The group keeps the number each
  feed expects next and, while out of sequence, a window of bits for the numbers that neither feed
  has delivered; a packet is published when its number is new or marked in the window.

  Publishing a notice calls a plugin, which may fail: \<open>pub\<close> tells whether it does, from the notices
  before.  Of a notice the status word is left out, and of the group the members that the
  handling of numbers does not use.  The mutex around the window is left out.
\<close>

subsection \<open>State\<close>

definition MISSING_SIZE :: nat where "MISSING_SIZE = 256 * 128"
definition MISSING_RANGE :: u32 where "MISSING_RANGE = 256 * 128 * 64"

text \<open>An alert with its type, a loss with the first and last number and the feed.\<close>

datatype notice = Feed_Alert int | Packet_Loss int u32 u32 int

record feed_group =
  missing_sequence :: "u64 list"
  missing_packet_incidence :: u64
  missing_message_range :: u64
  unrecoverable_messages :: u64
  loss_of_in_sequence :: u64
  restoral_of_in_sequence :: u64
  packets_lost_incidence :: u64
  publication_failed :: u64
  publication_succeeded :: u64
  primary_expected_sequence :: u32
  secondary_expected_sequence :: u32
  missing_base :: u32
  missing_count :: u32
  missing_lowest :: u32
  missing_highest :: u32
  in_sequence :: bool
  notices :: "notice list"

definition LOST_PACKETS :: int where "LOST_PACKETS = 4"

definition publish_notice :: "(notice list \<Rightarrow> notice \<Rightarrow> bool) \<Rightarrow> notice \<Rightarrow> feed_group \<Rightarrow> feed_group" where
  "publish_notice pub x g =
    (let g1 = g\<lparr>notices := notices g @ [x]\<rparr> in
     if pub (notices g) x then g1\<lparr>publication_succeeded := publication_succeeded g + 1\<rparr>
     else g1\<lparr>publication_failed := publication_failed g + 1\<rparr>)"

definition send_alert :: "(notice list \<Rightarrow> notice \<Rightarrow> bool) \<Rightarrow> int \<Rightarrow> feed_group \<Rightarrow> feed_group" where
  "send_alert pub notificationtype g = publish_notice pub (Feed_Alert notificationtype) g"

definition notify_packet_loss ::
  "(notice list \<Rightarrow> notice \<Rightarrow> bool) \<Rightarrow> int \<Rightarrow> u32 \<Rightarrow> u32 \<Rightarrow> int \<Rightarrow> feed_group \<Rightarrow> feed_group" where
  "notify_packet_loss pub notificationtype missing_seq gapsize ps g =
    publish_notice pub (Packet_Loss notificationtype missing_seq (missing_seq + gapsize - 1) ps) g"

definition new_feed_group :: "bool \<Rightarrow> feed_group option" where
  "new_feed_group malloc_ok =
    (if malloc_ok then Some
       \<lparr>missing_sequence = replicate MISSING_SIZE 0, missing_packet_incidence = 0, missing_message_range = 0,
        unrecoverable_messages = 0, loss_of_in_sequence = 0, restoral_of_in_sequence = 0, packets_lost_incidence = 0,
        publication_failed = 0, publication_succeeded = 0,
        primary_expected_sequence = 0, secondary_expected_sequence = 0,
        missing_base = 0, missing_count = 0, missing_lowest = 0, missing_highest = 0,
        in_sequence = True, notices = []\<rparr>
     else None)"

subsection \<open>The window of missing numbers\<close>

definition init_missing :: "feed_group \<Rightarrow> feed_group" where
  "init_missing g =
    g\<lparr>missing_sequence := replicate MISSING_SIZE 0, missing_base := 0, missing_count := 0, missing_lowest := 0,
      missing_highest := 0\<rparr>"

definition set_in_sequence :: "(notice list \<Rightarrow> notice \<Rightarrow> bool) \<Rightarrow> feed_group \<Rightarrow> feed_group" where
  "set_in_sequence pub g =
    (let g = send_alert pub 1 (g\<lparr>in_sequence := True\<rparr>)
     in g\<lparr>restoral_of_in_sequence := restoral_of_in_sequence g + 1\<rparr>)"

definition set_out_of_sequence :: "(notice list \<Rightarrow> notice \<Rightarrow> bool) \<Rightarrow> feed_group \<Rightarrow> feed_group" where
  "set_out_of_sequence pub g =
    (let g = send_alert pub 1 (g\<lparr>in_sequence := False\<rparr>)
     in g\<lparr>loss_of_in_sequence := loss_of_in_sequence g + 1\<rparr>)"

definition is_missing_empty :: "feed_group \<Rightarrow> bool" where
  "is_missing_empty g \<longleftrightarrow> missing_count g = 0"

text \<open>The table of the 64 single-bit masks.\<close>

definition missing_modulos :: "u32 \<Rightarrow> u64" where
  "missing_modulos i = push_bit (unat i) 1"

text \<open>The bit of a number: its word in the array, \<open>None\<close> outside of it, and its mask.\<close>

definition missing_word :: "feed_group \<Rightarrow> u32 \<Rightarrow> u64 option" where
  "missing_word g n =
    (let offset = unat (drop_bit 6 (n - missing_base g)) in
     if offset < length (missing_sequence g) then Some (missing_sequence g ! offset) else None)"

definition missing_mask :: "feed_group \<Rightarrow> u32 \<Rightarrow> u64" where
  "missing_mask g n = missing_modulos ((n - missing_base g) mod 64)"

definition set_missing_word :: "feed_group \<Rightarrow> u32 \<Rightarrow> u64 \<Rightarrow> feed_group" where
  "set_missing_word g n w =
    g\<lparr>missing_sequence := (missing_sequence g)[unat (drop_bit 6 (n - missing_base g)) := w]\<rparr>"

definition is_sequence_in_missing :: "feed_group \<Rightarrow> u32 \<Rightarrow> bool option" where
  "is_sequence_in_missing g n =
    (if in_sequence g \<or> n \<ge> missing_lowest g + MISSING_RANGE \<or> n < missing_lowest g then Some False
     else if n < missing_base g then Some False
     else do {
       w \<leftarrow> missing_word g n;
       Some (w AND missing_mask g n \<noteq> 0)
     })"

text \<open>The search for the new lowest number, with \<^verbatim>\<open>ix\<close> an \<^verbatim>\<open>int\<close>.\<close>

function find_lowest :: "feed_group \<Rightarrow> int \<Rightarrow> u32 option option" where
  "find_lowest g ix =
    (if ix \<le> sint (missing_highest g) then
       Option.bind (is_sequence_in_missing g (word_of_int ix))
         (\<lambda>b. if b then Some (Some (word_of_int ix)) else find_lowest g (ix + 1))
     else Some None)"
  by auto
termination
  by (relation "measure (\<lambda>(g, ix). nat (sint (missing_highest g) + 1 - ix))") auto

definition remove_sequence_from_missing :: "feed_group \<Rightarrow> u32 \<Rightarrow> (feed_group \<times> int) option" where
  "remove_sequence_from_missing g n =
    (if missing_count g = 0 then Some (g, -1)
     else if n < missing_base g then Some (g, -1)
     else if n \<ge> missing_base g + MISSING_RANGE \<or> n < missing_base g then Some (g, -1)
     else do {
       w \<leftarrow> missing_word g n;
       let g = set_missing_word g n (w AND NOT (missing_mask g n));
       let g = g\<lparr>missing_count := missing_count g - 1\<rparr>;
       if n \<le> missing_lowest g then
         if missing_count g > 0 then do {
           r \<leftarrow> find_lowest g (sint (n + 1));
           case r of
             None \<Rightarrow> Some (g, 0)
           | Some ix \<Rightarrow> Some (g\<lparr>missing_lowest := ix\<rparr>, 0)
         }
         else Some (g\<lparr>missing_lowest := 0\<rparr>, 0)
       else Some (g, 0)
     })"

text \<open>Marking the numbers up to \<open>last\<close>; the loop does not end (\<open>None\<close>) when \<open>last\<close> is the largest number.\<close>

partial_function (option) mark_missing :: "feed_group \<Rightarrow> u32 \<Rightarrow> u32 \<Rightarrow> feed_group option" where
  "mark_missing g n last_n =
    (if n \<le> last_n then
       Option.bind (missing_word g n)
         (\<lambda>w. mark_missing (set_missing_word g n (w OR missing_mask g n)) (n + 1) last_n)
     else Some g)"

definition add_sequences_2_missing :: "feed_group \<Rightarrow> u32 \<Rightarrow> u32 \<Rightarrow> (feed_group \<times> int) option" where
  "add_sequences_2_missing g first_sequence cnt =
    (if first_sequence \<le> missing_base g then Some (g, -1)
     else do {
       let nextPktSeq = first_sequence + cnt - 1;
       let g = (if missing_count g = 0 then
                  g\<lparr>missing_base := first_sequence, missing_sequence := replicate MISSING_SIZE 0,
                    missing_lowest := first_sequence, missing_highest := first_sequence + cnt - 1\<rparr>
                else g);
       let g = (if nextPktSeq \<ge> missing_highest g then g\<lparr>missing_highest := nextPktSeq\<rparr> else g);
       g \<leftarrow> mark_missing g first_sequence nextPktSeq;
       Some (g\<lparr>missing_count := missing_count g + cnt\<rparr>, 0)
     })"

subsection \<open>Gaps\<close>

text \<open>The variables \<^verbatim>\<open>new_gap_start\<close> and \<^verbatim>\<open>new_gap_size\<close> are of type \<^verbatim>\<open>int\<close>.\<close>

definition first_gap ::
  "(notice list \<Rightarrow> notice \<Rightarrow> bool) \<Rightarrow> feed_group \<Rightarrow> u32 \<Rightarrow> u32 \<Rightarrow> u32 \<Rightarrow> int \<Rightarrow> feed_group option" where
  "first_gap pub g gap_size seq_number most_advanced ps =
    (let g = g\<lparr>missing_packet_incidence := missing_packet_incidence g + 1,
               missing_message_range := missing_message_range g + ucast gap_size\<rparr>;
         g = init_missing g in
     if gap_size > MISSING_RANGE then
       let new_gap_start = seq_number - MISSING_RANGE div 2;
           new_gap_start = (if sint new_gap_start < sint most_advanced then most_advanced else new_gap_start);
           new_gap_size = seq_number - new_gap_start;
           new_gap_size = (if sint new_gap_size < sint gap_size then gap_size else new_gap_size)
       in if sint gap_size > sint new_gap_size then
            let loss_gap_size = new_gap_start - most_advanced;
                g = g\<lparr>packets_lost_incidence := packets_lost_incidence g + 1,
                      unrecoverable_messages := unrecoverable_messages g + word_of_int (sint loss_gap_size)\<rparr>
            in Some (notify_packet_loss pub LOST_PACKETS most_advanced loss_gap_size ps g)
          else Some g
     else do {
       (g, rc) \<leftarrow> add_sequences_2_missing g most_advanced gap_size;
       Some (set_out_of_sequence pub g)
     })"

definition second_gap ::
  "(notice list \<Rightarrow> notice \<Rightarrow> bool) \<Rightarrow> feed_group \<Rightarrow> u32 \<Rightarrow> u32 \<Rightarrow> u32 \<Rightarrow> int \<Rightarrow> (feed_group \<times> u32) option" where
  "second_gap pub g gap_size seq_number most_advanced ps =
    (let g = g\<lparr>missing_packet_incidence := missing_packet_incidence g + 1,
               missing_message_range := missing_message_range g + ucast gap_size\<rparr> in
     if seq_number < missing_base g + MISSING_RANGE then do {
       (g, rc) \<leftarrow> add_sequences_2_missing g most_advanced gap_size;
       Some (g, 1)
     }
     else do {
       let new_gap_start = seq_number - MISSING_RANGE div 2;
       let g = notify_packet_loss pub LOST_PACKETS (missing_lowest g) (missing_count g) ps g;
       let new_gap_size = seq_number - new_gap_start;
       (g, rc) \<leftarrow> add_sequences_2_missing (init_missing g) new_gap_start new_gap_size;
       Some (g, 1)
     })"

subsection \<open>The decision to publish\<close>

text \<open>The number a feed expects: \<open>ps\<close> is 1 for the secondary feed.\<close>

definition my_expected :: "int \<Rightarrow> feed_group \<Rightarrow> u32" where
  "my_expected ps g = (if ps = 1 then secondary_expected_sequence g else primary_expected_sequence g)"

definition other_expected :: "int \<Rightarrow> feed_group \<Rightarrow> u32" where
  "other_expected ps g = (if ps = 1 then primary_expected_sequence g else secondary_expected_sequence g)"

definition set_my_expected :: "int \<Rightarrow> u32 \<Rightarrow> feed_group \<Rightarrow> feed_group" where
  "set_my_expected ps n g =
    (if ps = 1 then g\<lparr>secondary_expected_sequence := n\<rparr> else g\<lparr>primary_expected_sequence := n\<rparr>)"

definition publish_in_sequence ::
  "(notice list \<Rightarrow> notice \<Rightarrow> bool) \<Rightarrow> int \<Rightarrow> u32 \<Rightarrow> feed_group \<Rightarrow> (feed_group \<times> u32) option" where
  "publish_in_sequence pub ps n g =
    (if n = my_expected ps g then
       let g = set_my_expected ps (my_expected ps g + 1) g
       in Some (g, if n < other_expected ps g then 0 else 1)
     else if n < my_expected ps g then Some (g, 0)
     else if n = other_expected ps g then Some (set_my_expected ps (n + 1) g, 1)
     else if n < other_expected ps g then Some (set_my_expected ps (n + 1) g, 0)
     else do {
       let most_advanced = (if other_expected ps g > my_expected ps g then other_expected ps g else my_expected ps g);
       g \<leftarrow> first_gap pub g (n - most_advanced) n most_advanced ps;
       Some (set_my_expected ps (n + 1) g, 1)
     })"

definition leave_window ::
  "(notice list \<Rightarrow> notice \<Rightarrow> bool) \<Rightarrow> int \<Rightarrow> u32 \<Rightarrow> feed_group \<Rightarrow> feed_group" where
  "leave_window pub ps n g =
    (let loss_gap_size = missing_highest g - missing_lowest g + 1;
         g = g\<lparr>packets_lost_incidence := packets_lost_incidence g + 1,
               unrecoverable_messages := unrecoverable_messages g + ucast (missing_count g)\<rparr>;
         g = notify_packet_loss pub LOST_PACKETS (missing_lowest g) loss_gap_size ps g
     in set_in_sequence pub (set_my_expected ps n (init_missing g)))"

definition publish_out_of_sequence ::
  "(notice list \<Rightarrow> notice \<Rightarrow> bool) \<Rightarrow> int \<Rightarrow> u32 \<Rightarrow> feed_group \<Rightarrow> (feed_group \<times> u32) option" where
  "publish_out_of_sequence pub ps n g =
    (let g = (if n > missing_base g + MISSING_RANGE then leave_window pub ps n g else g) in
     if n = my_expected ps g \<and> \<not> n < other_expected ps g then Some (set_my_expected ps (my_expected ps g + 1) g, 1)
     else if n \<ge> my_expected ps g \<and> n = other_expected ps g then Some (set_my_expected ps (n + 1) g, 1)
     else if n > my_expected ps g \<and> n > other_expected ps g then do {
       let most_advanced = (if other_expected ps g > my_expected ps g then other_expected ps g else my_expected ps g);
       (g, rc) \<leftarrow> second_gap pub g (n - most_advanced) n most_advanced ps;
       Some (set_my_expected ps (n + 1) g, rc)
     }
     else do {
       b \<leftarrow> is_sequence_in_missing g n;
       if b then do {
         (g, rc) \<leftarrow> remove_sequence_from_missing g n;
         let g = (if is_missing_empty g then set_in_sequence pub (init_missing g) else g);
         Some (if n \<ge> my_expected ps g then set_my_expected ps (n + 1) g else g, 1)
       }
       else Some (g, 0)
     })"

definition need_2_publish ::
  "(notice list \<Rightarrow> notice \<Rightarrow> bool) \<Rightarrow> int \<Rightarrow> u32 \<Rightarrow> feed_group \<Rightarrow> (feed_group \<times> u32) option" where
  "need_2_publish pub ps n g =
    (let g = (if my_expected ps g = 0 then set_my_expected ps n g else g) in
     if in_sequence g then publish_in_sequence pub ps n g else publish_out_of_sequence pub ps n g)"

declare find_lowest.simps [simp del]

subsection \<open>The window as a set of numbers\<close>

definition missing_set :: "feed_group \<Rightarrow> nat set" where
  "missing_set g = {n. unat (missing_base g) \<le> n \<and> n < unat (missing_base g) + 2097152 \<and>
     bit (missing_sequence g ! ((n - unat (missing_base g)) div 64)) ((n - unat (missing_base g)) mod 64)}"

definition window_ok :: "feed_group \<Rightarrow> bool" where
  "window_ok g \<longleftrightarrow> length (missing_sequence g) = 32768 \<and> unat (missing_base g) + 2097152 < 2 ^ 31"

definition in_window :: "feed_group \<Rightarrow> u32 \<Rightarrow> bool" where
  "in_window g n \<longleftrightarrow> unat (missing_base g) \<le> unat n \<and> unat n < unat (missing_base g) + 2097152"

lemma range_nat: "unat MISSING_RANGE = 2097152"
  by (simp add: MISSING_RANGE_def)

lemma base_range: "window_ok g \<Longrightarrow> unat (missing_base g + MISSING_RANGE) = unat (missing_base g) + 2097152"
  by (simp add: window_ok_def unat_word_ariths range_nat)

lemma missing_word_in:
  assumes "window_ok g" and "in_window g n"
  shows "missing_word g n = Some (missing_sequence g ! ((unat n - unat (missing_base g)) div 64))"
    "unat (drop_bit 6 (n - missing_base g)) = (unat n - unat (missing_base g)) div 64"
    "(unat n - unat (missing_base g)) div 64 < length (missing_sequence g)"
proof -
  have "missing_base g \<le> n" using assms(2) by (simp add: in_window_def word_le_nat_alt)
  then show d: "unat (drop_bit 6 (n - missing_base g)) = (unat n - unat (missing_base g)) div 64"
    unfolding unat_drop_bit_eq by (simp add: drop_bit_eq_div unat_sub)
  show l: "(unat n - unat (missing_base g)) div 64 < length (missing_sequence g)"
  proof -
    have "unat n - unat (missing_base g) < 32768 * 64" using assms(2) by (auto simp: in_window_def)
    then show ?thesis using assms(1) by (simp only: window_ok_def less_mult_imp_div_less)
  qed
  show "missing_word g n = Some (missing_sequence g ! ((unat n - unat (missing_base g)) div 64))"
    using d l by (simp add: missing_word_def Let_def)
qed

lemma missing_mask_in:
  assumes "in_window g n"
  shows "missing_mask g n = 2 ^ ((unat n - unat (missing_base g)) mod 64)"
proof -
  have "missing_base g \<le> n" using assms by (simp add: in_window_def word_le_nat_alt)
  then show ?thesis by (simp add: missing_mask_def missing_modulos_def unat_mod unat_sub)
qed

lemma is_sequence_in_missing_set:
  assumes ok: "window_ok g" and w: "in_window g n" and o: "\<not> in_sequence g"
    and low: "\<forall>m\<in>missing_set g. unat (missing_lowest g) \<le> m" "unat (missing_base g) \<le> unat (missing_lowest g)"
      "unat (missing_lowest g) < 2 ^ 31"
  shows "is_sequence_in_missing g n = Some (unat n \<in> missing_set g)"
proof (cases "n < missing_lowest g")
  case True
  then show ?thesis using low(1) by (auto simp: is_sequence_in_missing_def word_less_nat_alt)
next
  case False
  have l: "unat (missing_lowest g + MISSING_RANGE) = unat (missing_lowest g) + 2097152"
    using low(3) by (simp add: unat_word_ariths range_nat)
  then have "\<not> missing_lowest g + MISSING_RANGE \<le> n" "\<not> n < missing_base g"
    using w low(2) by (simp_all add: in_window_def word_le_nat_alt word_less_nat_alt)
  then show ?thesis
    using False o missing_word_in(1) [OF ok w] missing_mask_in [OF w] w
    by (simp add: is_sequence_in_missing_def missing_set_def in_window_def and_exp_eq_0_iff_not_bit)
qed

lemma set_missing_word_frame [simp]:
  "missing_base (set_missing_word g n w) = missing_base g" "missing_lowest (set_missing_word g n w) = missing_lowest g"
  "missing_highest (set_missing_word g n w) = missing_highest g" "missing_count (set_missing_word g n w) = missing_count g"
  "in_sequence (set_missing_word g n w) = in_sequence g" "window_ok (set_missing_word g n w) = window_ok g"
  "in_window (set_missing_word g n w) = in_window g"
  by (auto simp: set_missing_word_def window_ok_def in_window_def fun_eq_iff)

lemma div_mod_64: "(a :: nat) div 64 = b div 64 \<Longrightarrow> a mod 64 = b mod 64 \<Longrightarrow> a = b"
  by (metis div_mult_mod_eq)

lemma missing_set_write:
  assumes ok: "window_ok g" and w: "in_window g n"
  shows "missing_set (set_missing_word g n x) = {m. unat (missing_base g) \<le> m \<and> m < unat (missing_base g) + 2097152 \<and>
    (if (m - unat (missing_base g)) div 64 = (unat n - unat (missing_base g)) div 64
     then bit x ((m - unat (missing_base g)) mod 64) else m \<in> missing_set g)}"
  using missing_word_in(2,3) [OF ok w]
  by (auto simp: missing_set_def set_missing_word_def nth_list_update split: if_splits)

lemma missing_set_mark:
  assumes ok: "window_ok g" and w: "in_window g n" and x: "missing_word g n = Some x"
  shows "missing_set (set_missing_word g n (x OR missing_mask g n)) = insert (unat n) (missing_set g)"
    "missing_set (set_missing_word g n (x AND NOT (missing_mask g n))) = missing_set g - {unat n}"
proof -
  let ?b = "unat (missing_base g)"
  have x': "x = missing_sequence g ! ((unat n - ?b) div 64)" using missing_word_in(1) [OF ok w] x by simp
  have n: "?b \<le> unat n" "unat n < ?b + 2097152" using w by (simp_all add: in_window_def)
  have k: "bit (2 ^ i :: u64) j \<longleftrightarrow> i = j \<and> j < 64" for i j by (auto simp: bit_exp_iff)
  have inj: "m = unat n" if "?b \<le> m" "(m - ?b) div 64 = (unat n - ?b) div 64" "(unat n - ?b) mod 64 = (m - ?b) mod 64" for m
    using div_mod_64 [OF that(2) that(3) [symmetric]] that(1) n(1) by simp
  have x_bit: "bit x ((m - ?b) mod 64) \<longleftrightarrow> m \<in> missing_set g"
    if "?b \<le> m" "m < ?b + 2097152" "(m - ?b) div 64 = (unat n - ?b) div 64" for m
    using that x' by (simp add: missing_set_def)
  show "missing_set (set_missing_word g n (x OR missing_mask g n)) = insert (unat n) (missing_set g)"
  proof (rule set_eqI)
    fix m
    show "m \<in> missing_set (set_missing_word g n (x OR missing_mask g n)) \<longleftrightarrow> m \<in> insert (unat n) (missing_set g)"
      unfolding missing_set_write [OF ok w] missing_mask_in [OF w]
      using n inj [of m] x_bit [of m] by (auto simp: bit_or_iff k missing_set_def split: if_splits)
  qed
  show "missing_set (set_missing_word g n (x AND NOT (missing_mask g n))) = missing_set g - {unat n}"
  proof (rule set_eqI)
    fix m
    show "m \<in> missing_set (set_missing_word g n (x AND NOT (missing_mask g n))) \<longleftrightarrow> m \<in> missing_set g - {unat n}"
      unfolding missing_set_write [OF ok w] missing_mask_in [OF w]
      using n inj [of m] x_bit [of m] by (auto simp: bit_and_iff bit_not_iff k missing_set_def split: if_splits)
  qed
qed

lemma missing_set_frame [simp]:
  "missing_set (g\<lparr>missing_count := c\<rparr>) = missing_set g" "missing_set (g\<lparr>missing_lowest := l\<rparr>) = missing_set g"
  "missing_set (g\<lparr>missing_highest := h\<rparr>) = missing_set g"
  "window_ok (g\<lparr>missing_count := c\<rparr>) = window_ok g" "window_ok (g\<lparr>missing_lowest := l\<rparr>) = window_ok g"
  "window_ok (g\<lparr>missing_highest := h\<rparr>) = window_ok g"
  by (simp_all add: missing_set_def window_ok_def)

lemma finite_missing [simp]: "finite (missing_set g)"
  by (rule finite_subset [of _ "{..<unat (missing_base g) + 2097152}"]) (auto simp: missing_set_def)

text \<open>Marking a range.\<close>

lemma mark_missing_range:
  assumes "window_ok g" and "unat (missing_base g) \<le> unat n" and "unat last_n < unat (missing_base g) + 2097152"
  shows "\<exists>ms. mark_missing g n last_n = Some (g\<lparr>missing_sequence := ms\<rparr>) \<and> length ms = 32768 \<and>
    missing_set (g\<lparr>missing_sequence := ms\<rparr>) = missing_set g \<union> {unat n..unat last_n}"
  using assms
proof (induction "unat last_n + 1 - unat n" arbitrary: g n)
  case 0
  then have "\<not> n \<le> last_n" by (simp add: word_le_nat_alt)
  then show ?case using 0 by (subst mark_missing.simps) (auto simp: window_ok_def intro!: exI [of _ "missing_sequence g"])
next
  case (Suc k)
  then have le: "unat n \<le> unat last_n" by simp
  have w: "in_window g n" using Suc.prems le by (simp add: in_window_def)
  let ?x = "missing_sequence g ! ((unat n - unat (missing_base g)) div 64)"
  let ?g = "set_missing_word g n (?x OR missing_mask g n)"
  have x: "missing_word g n = Some ?x" by (rule missing_word_in(1) [OF Suc.prems(1) w])
  have "unat last_n < 2 ^ 31" using Suc.prems(1,3) by (simp add: window_ok_def)
  then have n1: "unat (n + 1) = unat n + 1" using le by (simp add: unat_word_ariths)
  have "k = unat last_n + 1 - unat (n + 1)" using Suc.hyps(2) n1 by simp
  moreover have "window_ok ?g" "unat (missing_base ?g) \<le> unat (n + 1)" "unat last_n < unat (missing_base ?g) + 2097152"
    using Suc.prems n1 by simp_all
  ultimately obtain ms where ms: "mark_missing ?g (n + 1) last_n = Some (?g\<lparr>missing_sequence := ms\<rparr>)"
    "length ms = 32768" "missing_set (?g\<lparr>missing_sequence := ms\<rparr>) = missing_set ?g \<union> {unat (n + 1)..unat last_n}"
    using Suc.hyps(1) by blast
  have e: "?g\<lparr>missing_sequence := ms\<rparr> = g\<lparr>missing_sequence := ms\<rparr>" by (simp add: set_missing_word_def)
  have "{unat n..unat last_n} = insert (unat n) {unat n + 1..unat last_n}" using le by auto
  then have s: "missing_set ?g \<union> {unat (n + 1)..unat last_n} = missing_set g \<union> {unat n..unat last_n}"
    unfolding missing_set_mark(1) [OF Suc.prems(1) w x] n1 by simp
  have "mark_missing g n last_n = mark_missing ?g (n + 1) last_n"
    by (subst mark_missing.simps) (simp add: le x word_le_nat_alt)
  then show ?case using ms unfolding e s by (intro exI [of _ ms]) simp
qed

text \<open>Out of sequence, the bounds and the count agree with the set.\<close>

definition window_inv :: "feed_group \<Rightarrow> bool" where
  "window_inv g \<longleftrightarrow> window_ok g \<and> missing_set g \<noteq> {} \<and>
     missing_set g \<subseteq> {unat (missing_lowest g)..unat (missing_highest g)} \<and>
     unat (missing_base g) \<le> unat (missing_lowest g) \<and>
     unat (missing_highest g) < unat (missing_base g) + 2097152 \<and>
     unat (missing_count g) = card (missing_set g)"

lemma word_of_int_small: "i < 2 ^ 31 \<Longrightarrow> unat (word_of_int (int i) :: u32) = i"
  by (simp add: unat_of_nat)

lemma find_lowest_least:
  assumes ok: "window_ok g" and o: "\<not> in_sequence g"
    and low: "\<forall>m\<in>missing_set g. unat (missing_lowest g) \<le> m" "unat (missing_base g) \<le> unat (missing_lowest g)"
    and high: "\<forall>m\<in>missing_set g. m \<le> unat (missing_highest g)"
      "unat (missing_highest g) < unat (missing_base g) + 2097152"
    and i: "unat (missing_base g) \<le> i" "m \<in> missing_set g" "i \<le> m"
  shows "\<exists>l. find_lowest g (int i) = Some (Some l) \<and> unat l \<in> missing_set g \<and> i \<le> unat l \<and>
    (\<forall>k\<in>missing_set g. i \<le> k \<longrightarrow> unat l \<le> k)"
  using i(1,3)
proof (induction "unat (missing_highest g) + 1 - i" arbitrary: i)
  case 0
  then show ?case using high(1) i(2) by fastforce
next
  case (Suc k)
  have h: "unat (missing_highest g) < 2 ^ 31" using ok high(2) by (simp add: window_ok_def)
  have le: "i \<le> unat (missing_highest g)" using Suc.prems(2) i(2) high(1) by force
  then have i': "unat (word_of_int (int i) :: u32) = i" using h word_of_int_small [of i] by simp
  have "unat (missing_lowest g) < 2 ^ 31" using low(1) high(1) i(2) h by force
  then have s: "is_sequence_in_missing g (word_of_int (int i)) = Some (i \<in> missing_set g)"
    using is_sequence_in_missing_set [OF ok _ o low, of "word_of_int (int i)"] Suc.prems(1) le high(2)
    by (simp add: in_window_def i' del: of_int_of_nat_eq)
  have r: "find_lowest g (int i) = (if i \<in> missing_set g then Some (Some (word_of_int (int i))) else find_lowest g (int (i + 1)))"
    using le by (subst find_lowest.simps) (simp add: s sint_small [OF h] add.commute del: of_int_of_nat_eq of_nat_unat)
  show ?case
  proof (cases "i \<in> missing_set g")
    case True
    then show ?thesis unfolding r using i' by (auto simp del: of_int_of_nat_eq)
  next
    case False
    then have "i \<noteq> m" using i(2) by blast
    then have "i + 1 \<le> m" using Suc.prems(2) by simp
    moreover have "k = unat (missing_highest g) + 1 - (i + 1)" using Suc.hyps(2) by simp
    moreover have "unat (missing_base g) \<le> i + 1" using Suc.prems(1) by simp
    ultimately obtain l where l: "find_lowest g (int (i + 1)) = Some (Some l)" "unat l \<in> missing_set g" "i + 1 \<le> unat l"
      "\<forall>k\<in>missing_set g. i + 1 \<le> k \<longrightarrow> unat l \<le> k"
      using Suc.hyps(1) by blast
    have "\<forall>k\<in>missing_set g. i \<le> k \<longrightarrow> unat l \<le> k"
      using l(4) False by (metis Suc_eq_plus1 le_neq_implies_less less_eq_Suc_le)
    then show ?thesis unfolding r using False l by auto
  qed
qed

lemma remove_sequence_from_missing_set:
  assumes inv: "window_inv g" and o: "\<not> in_sequence g" and n: "unat n \<in> missing_set g"
  shows "\<exists>ms c l. remove_sequence_from_missing g n =
      Some (g\<lparr>missing_sequence := ms, missing_count := c, missing_lowest := l\<rparr>, 0) \<and>
    length ms = 32768 \<and> missing_set (g\<lparr>missing_sequence := ms\<rparr>) = missing_set g - {unat n} \<and>
    (c = 0 \<longleftrightarrow> missing_set g = {unat n}) \<and>
    (missing_set g \<noteq> {unat n} \<longrightarrow> window_inv (g\<lparr>missing_sequence := ms, missing_count := c, missing_lowest := l\<rparr>))"
proof -
  have ok: "window_ok g" using inv by (simp add: window_inv_def)
  have w: "in_window g n" using n by (simp add: missing_set_def in_window_def)
  obtain x where x: "missing_word g n = Some x" using missing_word_in(1) [OF ok w] by blast
  define ms where "ms = missing_sequence (set_missing_word g n (x AND NOT (missing_mask g n)))"
  have e: "set_missing_word g n (x AND NOT (missing_mask g n)) = g\<lparr>missing_sequence := ms\<rparr>"
    by (simp add: ms_def set_missing_word_def)
  have l: "length ms = 32768" using ok by (simp add: ms_def set_missing_word_def window_ok_def)
  have s: "missing_set (g\<lparr>missing_sequence := ms\<rparr>) = missing_set g - {unat n}"
    using missing_set_mark(2) [OF ok w x] e by simp
  let ?h = "g\<lparr>missing_sequence := ms, missing_count := missing_count g - 1\<rparr>"
  have card: "unat (missing_count g) = card (missing_set g)" "card (missing_set g) > 0"
    using inv n by (auto simp: window_inv_def card_gt_0_iff)
  then have cn: "missing_count g \<noteq> 0" by auto
  from card have c: "unat (missing_count g - 1) = card (missing_set g - {unat n})"
    using n unat_minus_one [of "missing_count g"] by (cases "missing_count g = 0") (simp_all add: card_Diff_singleton)
  have c0: "missing_count g - 1 = 0 \<longleftrightarrow> missing_set g = {unat n}"
  proof -
    have "missing_count g - 1 = 0 \<longleftrightarrow> unat (missing_count g - 1) = 0" by (simp only: unat_eq_0)
    also have "\<dots> \<longleftrightarrow> missing_set g - {unat n} = {}" unfolding c by simp
    finally show ?thesis using n by blast
  qed
  have "\<not> missing_base g + MISSING_RANGE \<le> n" "\<not> n < missing_base g"
    using w base_range [OF ok] by (auto simp: in_window_def word_le_nat_alt word_less_nat_alt)
  then have r: "remove_sequence_from_missing g n =
      (if n \<le> missing_lowest g then
         if missing_count g - 1 > 0 then Option.bind (find_lowest ?h (sint (n + 1)))
           (\<lambda>r. case r of None \<Rightarrow> Some (?h, 0) | Some ix \<Rightarrow> Some (?h\<lparr>missing_lowest := ix\<rparr>, 0))
         else Some (?h\<lparr>missing_lowest := 0\<rparr>, 0)
       else Some (?h, 0))"
    using cn by (simp add: remove_sequence_from_missing_def x e Let_def)
  have ok': "window_ok ?h" using l ok by (simp add: window_ok_def)
  have s': "missing_set ?h = missing_set g - {unat n}"
    using s missing_set_frame(1) [of "missing_count g - 1" "g\<lparr>missing_sequence := ms\<rparr>"] by simp
  have I: "missing_set g \<subseteq> {unat (missing_lowest g)..unat (missing_highest g)}"
    "unat (missing_base g) \<le> unat (missing_lowest g)" "unat (missing_highest g) < unat (missing_base g) + 2097152"
    using inv by (simp_all add: window_inv_def)
  consider (other) "\<not> n \<le> missing_lowest g" | (all) "n \<le> missing_lowest g" "missing_set g = {unat n}"
    | (least) "n \<le> missing_lowest g" "missing_set g \<noteq> {unat n}" by blast
  then show ?thesis
  proof cases
    case other
    have "window_inv ?h" if "missing_set g \<noteq> {unat n}"
    proof -
      have "missing_set g - {unat n} \<noteq> {}" "missing_set g - {unat n} \<subseteq> {unat (missing_lowest g)..unat (missing_highest g)}"
        using that n I(1) by blast+
      then show ?thesis unfolding window_inv_def s' using ok' I(2,3) c by simp
    qed
    then show ?thesis using r other l s c0
      by (intro exI [of _ ms] exI [of _ "missing_count g - 1"] exI [of _ "missing_lowest g"]) simp
  next
    case all
    then show ?thesis using r l s c0
      by (intro exI [of _ ms] exI [of _ "missing_count g - 1"] exI [of _ 0]) simp
  next
    case least
    have bnd: "unat (missing_lowest g) \<le> k" "k \<le> unat (missing_highest g)" if "k \<in> missing_set g" for k
      using I(1) that by auto
    have n': "unat n = unat (missing_lowest g)" using bnd(1) [OF n] least(1) by (simp add: word_le_nat_alt)
    obtain m where m: "m \<in> missing_set g" "m \<noteq> unat n" using least(2) n by blast
    have lt: "unat n < m" using bnd(1) [OF m(1)] m(2) n' by simp
    have "unat (missing_highest g) < 2 ^ 31" using I(3) ok by (simp add: window_ok_def)
    then have n1: "unat n + 1 < 2 ^ 31" using lt bnd(2) [OF m(1)] by simp
    then have n2: "sint (n + 1) = int (unat n + 1)" using sint_small [of "n + 1"] by (simp add: unat_word_ariths)
    have "\<exists>ix. find_lowest ?h (int (unat n + 1)) = Some (Some ix) \<and> unat ix \<in> missing_set ?h \<and> unat n + 1 \<le> unat ix \<and>
        (\<forall>k\<in>missing_set ?h. unat n + 1 \<le> k \<longrightarrow> unat ix \<le> k)"
    proof (rule find_lowest_least [OF ok'])
      show "m \<in> missing_set ?h" unfolding s' using m by blast
      show "\<forall>k\<in>missing_set ?h. unat (missing_lowest ?h) \<le> k" "\<forall>k\<in>missing_set ?h. k \<le> unat (missing_highest ?h)"
        unfolding s' using bnd by simp_all
    qed (use o I(2,3) n' lt in simp_all)
    then obtain ix where ix: "find_lowest ?h (int (unat n + 1)) = Some (Some ix)" "unat n + 1 \<le> unat ix"
      "\<forall>k\<in>missing_set ?h. unat n + 1 \<le> k \<longrightarrow> unat ix \<le> k" by blast
    have f: "remove_sequence_from_missing g n = Some (?h\<lparr>missing_lowest := ix\<rparr>, 0)"
    proof -
      have "missing_count g - 1 > 0" using least(2) unfolding c0 [symmetric] word_gt_0 by (rule not_sym)
      then show ?thesis unfolding r n2 ix(1) using least(1) by simp
    qed
    have sub: "missing_set g - {unat n} \<subseteq> {unat ix..unat (missing_highest g)}"
    proof
      fix k assume k: "k \<in> missing_set g - {unat n}"
      then have "unat n + 1 \<le> k" using bnd(1) [of k] n' by simp
      then show "k \<in> {unat ix..unat (missing_highest g)}" using ix(3) k bnd(2) [of k] unfolding s' by simp
    qed
    have "missing_set g - {unat n} \<noteq> {}" using m by blast
    moreover have "window_ok (?h\<lparr>missing_lowest := ix\<rparr>)" "missing_set (?h\<lparr>missing_lowest := ix\<rparr>) = missing_set g - {unat n}"
      using ok' s' by (simp_all only: missing_set_frame)
    ultimately have "window_inv (?h\<lparr>missing_lowest := ix\<rparr>)"
      using sub I(2,3) c ix(2) n' by (simp add: window_inv_def)
    then show ?thesis using f l s c0
      by (intro exI [of _ ms] exI [of _ "missing_count g - 1"] exI [of _ ix]) simp
  qed
qed

text \<open>Adding a range: to an empty window, which it opens, and behind the numbers of a window.\<close>

lemma unat_last:
  assumes "unat first + unat cnt < 2 ^ 32" and "0 < cnt"
  shows "unat (first + cnt - 1 :: u32) = unat first + unat cnt - 1"
proof -
  have "unat (first + cnt) = unat first + unat cnt" using assms(1) by (simp add: unat_word_ariths)
  moreover have "first + cnt \<noteq> 0" using calculation assms(2) by (auto simp: word_less_nat_alt)
  ultimately show ?thesis by (simp add: unat_minus_one)
qed

lemma add_sequences_open:
  assumes "missing_count g = 0" and "missing_base g < first" and "unat first + 2097152 < 2 ^ 31"
    and "0 < cnt" and "unat cnt \<le> 2097152"
  shows "\<exists>ms. add_sequences_2_missing g first cnt = Some (g\<lparr>missing_base := first, missing_lowest := first,
      missing_highest := first + cnt - 1, missing_sequence := ms, missing_count := cnt\<rparr>, 0) \<and>
    missing_set (g\<lparr>missing_base := first, missing_lowest := first, missing_highest := first + cnt - 1,
      missing_sequence := ms, missing_count := cnt\<rparr>) = {unat first..<unat first + unat cnt} \<and>
    window_inv (g\<lparr>missing_base := first, missing_lowest := first, missing_highest := first + cnt - 1,
      missing_sequence := ms, missing_count := cnt\<rparr>)"
proof -
  let ?l = "first + cnt - 1"
  let ?g = "g\<lparr>missing_base := first, missing_sequence := replicate MISSING_SIZE 0, missing_lowest := first,
    missing_highest := ?l\<rparr>"
  have l: "unat ?l = unat first + unat cnt - 1" using assms by (intro unat_last) simp_all
  have "window_ok ?g" using assms(3) by (simp add: window_ok_def MISSING_SIZE_def)
  moreover have "unat ?l < unat first + 2097152" using l assms(4,5) by (auto simp: word_less_nat_alt)
  ultimately obtain ms where ms: "mark_missing ?g first ?l = Some (?g\<lparr>missing_sequence := ms\<rparr>)" "length ms = 32768"
    "missing_set (?g\<lparr>missing_sequence := ms\<rparr>) = missing_set ?g \<union> {unat first..unat ?l}"
    using mark_missing_range [of ?g first ?l] by auto
  have e: "{unat first..unat ?l} = {unat first..<unat first + unat cnt}"
    unfolding l using assms(4) by (auto simp: word_less_nat_alt)
  have "(m - unat first) div 64 < 32768" if "m < unat first + 2097152" for m
  proof -
    have "m - unat first < 32768 * 64" using that by simp
    then show ?thesis by (rule less_mult_imp_div_less)
  qed
  then have z: "missing_set ?g = {}" by (simp add: missing_set_def MISSING_SIZE_def)
  let ?h = "g\<lparr>missing_base := first, missing_lowest := first, missing_highest := ?l, missing_sequence := ms,
    missing_count := cnt\<rparr>"
  have s: "missing_set ?h = {unat first..<unat first + unat cnt}"
  proof -
    have "missing_set ?h = missing_set (?g\<lparr>missing_sequence := ms\<rparr>)" by (simp add: missing_set_def)
    then show ?thesis using ms(3) z e by blast
  qed
  have a: "add_sequences_2_missing g first cnt = Some (?h, 0)"
    using assms(1,2) ms(1) by (simp add: add_sequences_2_missing_def Let_def)
  have "window_inv ?h" unfolding window_inv_def s
    using ms(2) assms(3,4,5) l by (auto simp: window_ok_def word_less_nat_alt)
  then show ?thesis using a s by (intro exI [of _ ms]) simp
qed

lemma add_sequences_behind:
  assumes inv: "window_inv g" and first: "unat (missing_highest g) < unat first" and cnt: "0 < cnt"
    and last: "unat first + unat cnt \<le> unat (missing_base g) + 2097152"
  shows "\<exists>ms. add_sequences_2_missing g first cnt = Some (g\<lparr>missing_highest := first + cnt - 1,
      missing_sequence := ms, missing_count := missing_count g + cnt\<rparr>, 0) \<and>
    missing_set (g\<lparr>missing_highest := first + cnt - 1, missing_sequence := ms, missing_count := missing_count g + cnt\<rparr>) =
      missing_set g \<union> {unat first..<unat first + unat cnt} \<and>
    window_inv (g\<lparr>missing_highest := first + cnt - 1, missing_sequence := ms, missing_count := missing_count g + cnt\<rparr>)"
proof -
  let ?l = "first + cnt - 1"
  let ?g = "g\<lparr>missing_highest := ?l\<rparr>"
  have ok: "window_ok g" and sub: "missing_set g \<subseteq> {unat (missing_lowest g)..unat (missing_highest g)}"
    and c: "unat (missing_count g) = card (missing_set g)" and ne: "missing_set g \<noteq> {}"
    and b: "unat (missing_base g) \<le> unat (missing_lowest g)"
    using inv by (simp_all add: window_inv_def)
  have l: "unat ?l = unat first + unat cnt - 1" using ok last cnt by (intro unat_last) (simp_all add: window_ok_def)
  have cn: "missing_count g \<noteq> 0" using c ne by auto
  obtain m where m: "m \<in> missing_set g" using ne by blast
  then have lh: "unat (missing_lowest g) \<le> unat (missing_highest g)" using sub by force
  have bf: "missing_base g < first" using b lh first by (simp add: word_less_nat_alt)
  have hl: "missing_highest g \<le> ?l" using first cnt by (simp add: word_le_nat_alt l word_less_nat_alt)
  have "unat ?l < unat (missing_base g) + 2097152" using l last cnt by (simp add: word_less_nat_alt)
  then obtain ms where ms: "mark_missing ?g first ?l = Some (?g\<lparr>missing_sequence := ms\<rparr>)" "length ms = 32768"
    "missing_set (?g\<lparr>missing_sequence := ms\<rparr>) = missing_set ?g \<union> {unat first..unat ?l}"
    using mark_missing_range [of ?g first ?l] ok bf by (auto simp: word_less_nat_alt)
  have e: "{unat first..unat ?l} = {unat first..<unat first + unat cnt}"
    unfolding l using cnt by (auto simp: word_less_nat_alt)
  let ?h = "g\<lparr>missing_highest := ?l, missing_sequence := ms, missing_count := missing_count g + cnt\<rparr>"
  have s: "missing_set ?h = missing_set g \<union> {unat first..<unat first + unat cnt}"
    using ms(3) unfolding e missing_set_frame by simp
  have a: "add_sequences_2_missing g first cnt = Some (?h, 0)"
    using cn bf hl ms(1) by (simp add: add_sequences_2_missing_def Let_def)
  have d: "missing_set g \<inter> {unat first..<unat first + unat cnt} = {}" using sub first by auto
  have cd: "card (missing_set g) \<le> unat first - unat (missing_base g)"
  proof -
    have "missing_set g \<subseteq> {unat (missing_base g)..<unat first}" using sub b first by auto
    from card_mono [OF _ this] show ?thesis by simp
  qed
  have "card (missing_set ?h) = card (missing_set g) + unat cnt" unfolding s using d by (simp add: card_Un_disjoint)
  moreover have "unat (missing_count g + cnt) = card (missing_set g) + unat cnt"
    using c cd last ok bf by (simp add: unat_word_ariths window_ok_def word_less_nat_alt)
  ultimately have hc: "unat (missing_count ?h) = card (missing_set ?h)" by simp
  have "missing_set ?h \<subseteq> {unat (missing_lowest g)..unat ?l}"
    unfolding s e [symmetric] using sub first hl lh by (auto simp: word_le_nat_alt)
  moreover have "window_ok ?h" using ms(2) ok by (simp add: window_ok_def)
  moreover have "missing_set ?h \<noteq> {}" using s ne by blast
  ultimately have "window_inv ?h"
    using hc b l last cnt by (simp add: window_inv_def word_less_nat_alt)
  then show ?thesis using a s by (intro exI [of _ ms]) simp
qed

end
