(* ===== verification/ArcaPublish.thy ===== *)
theory ArcaPublish
  imports ArcaSeq
begin

section \<open>Which ArcaBook packets are published\<close>

text \<open>
  The contract of \<^verbatim>\<open>need_2_publish\<close> over the window of \<open>ArcaSeq\<close>: it filters the numbers that neither feed has
  delivered.  The states of the invariant and the numbers in reach of the window make it a
  \<open>refining_machine\<close>, and what happens outside of them is stated at the end.
\<close>

subsection \<open>The numbers that may still be published\<close>

text \<open>
  The numbers from the larger of the two expected numbers on, and those in the window.  The
  abstract duty of \<^verbatim>\<open>need_2_publish\<close> is to answer whether the number is one of them, and to take it out.
\<close>

definition expected_max :: "feed_group \<Rightarrow> nat" where
  "expected_max g = max (unat (primary_expected_sequence g)) (unat (secondary_expected_sequence g))"

definition publishable :: "feed_group \<Rightarrow> nat set" where
  "publishable g = {expected_max g..} \<union> (if in_sequence g then {} else missing_set g)"

definition arca_inv :: "feed_group \<Rightarrow> bool" where
  "arca_inv g \<longleftrightarrow> expected_max g \<le> 2 ^ 30 \<and>
     (\<not> in_sequence g \<longrightarrow> window_inv g \<and> unat (missing_highest g) < expected_max g)"

text \<open>A number that is not near the wrap-around and, out of sequence, inside the window.\<close>

definition arca_adm :: "feed_group \<Rightarrow> u32 \<Rightarrow> bool" where
  "arca_adm g n \<longleftrightarrow> 0 < n \<and> unat n < 2 ^ 30 \<and> (\<not> in_sequence g \<longrightarrow> unat n < unat (missing_base g) + 2097152)"

lemma expected_max_my: "expected_max g = max (unat (my_expected ps g)) (unat (other_expected ps g))"
  by (simp add: expected_max_def my_expected_def other_expected_def max.commute)

text \<open>Numbers only go up: the expected ones, and the start of the window, which the next gap would set.\<close>

definition window_start :: "feed_group \<Rightarrow> nat" where
  "window_start g = (if in_sequence g then expected_max g else unat (missing_base g))"

definition arca_le :: "feed_group \<Rightarrow> feed_group \<Rightarrow> bool" where
  "arca_le g g' \<longleftrightarrow> window_start g \<le> window_start g' \<and> (\<forall>p. my_expected p g \<le> my_expected p g')"

lemma other_my: "other_expected ps g = my_expected (if ps = 1 then 0 else 1) g"
  by (simp add: other_expected_def my_expected_def)

lemma my_expected_set: "my_expected p (set_my_expected ps n g) = (if (p = 1) = (ps = 1) then n else my_expected p g)"
  by (simp add: my_expected_def set_my_expected_def)

lemma expected_my_le: "unat (my_expected p g) \<le> expected_max g"
  by (simp add: expected_max_my [of g p])

lemma set_my_expected_simps [simp]:
  "my_expected ps (set_my_expected ps n g) = n" "other_expected ps (set_my_expected ps n g) = other_expected ps g"
  "missing_set (set_my_expected ps n g) = missing_set g" "window_inv (set_my_expected ps n g) = window_inv g"
  "in_sequence (set_my_expected ps n g) = in_sequence g" "missing_base (set_my_expected ps n g) = missing_base g"
  "missing_highest (set_my_expected ps n g) = missing_highest g"
  "expected_max (set_my_expected ps n g) = max (unat n) (unat (other_expected ps g))"
  by (auto simp: set_my_expected_def my_expected_def other_expected_def missing_set_def window_inv_def window_ok_def
      expected_max_def)

lemma publish_notice_simps [simp]:
  "missing_set (publish_notice pub x g) = missing_set g" "window_inv (publish_notice pub x g) = window_inv g"
  "in_sequence (publish_notice pub x g) = in_sequence g" "missing_base (publish_notice pub x g) = missing_base g"
  "missing_highest (publish_notice pub x g) = missing_highest g"
  "my_expected ps (publish_notice pub x g) = my_expected ps g"
  "other_expected ps (publish_notice pub x g) = other_expected ps g"
  by (auto simp: publish_notice_def Let_def my_expected_def other_expected_def missing_set_def window_inv_def window_ok_def)

lemma sequence_flag_simps [simp]:
  "missing_set (set_out_of_sequence pub g) = missing_set g" "window_inv (set_out_of_sequence pub g) = window_inv g"
  "missing_base (set_out_of_sequence pub g) = missing_base g"
  "\<not> in_sequence (set_out_of_sequence pub g)" "missing_highest (set_out_of_sequence pub g) = missing_highest g"
  "my_expected ps (set_out_of_sequence pub g) = my_expected ps g"
  "other_expected ps (set_out_of_sequence pub g) = other_expected ps g"
  "in_sequence (set_in_sequence pub g)" "my_expected ps (set_in_sequence pub g) = my_expected ps g"
  "other_expected ps (set_in_sequence pub g) = other_expected ps g"
  by (auto simp: set_in_sequence_def set_out_of_sequence_def send_alert_def publish_notice_def Let_def my_expected_def
      other_expected_def missing_set_def window_inv_def window_ok_def)

lemma publishable_cases:
  "in_sequence g \<Longrightarrow> publishable g = {expected_max g..}"
  "\<not> in_sequence g \<Longrightarrow> publishable g = {expected_max g..} \<union> missing_set g"
  by (simp_all add: publishable_def)

text \<open>A first gap: the skipped numbers open a window, unless there are too many of them.\<close>

lemma first_gap_opens:
  assumes "0 < first" and "unat first + unat gap < 2 ^ 30" and "0 < gap" and "unat gap \<le> 2097152"
  shows "\<exists>g'. first_gap pub g gap (first + gap) first ps = Some g' \<and> \<not> in_sequence g' \<and> window_inv g' \<and>
    missing_set g' = {unat first..<unat first + unat gap} \<and> unat (missing_highest g') = unat first + unat gap - 1 \<and>
    missing_base g' = first \<and> (\<forall>p. my_expected p g' = my_expected p g)"
proof -
  define h where "h = init_missing (g\<lparr>missing_packet_incidence := missing_packet_incidence g + 1,
    missing_message_range := missing_message_range g + ucast gap\<rparr>)"
  have "missing_count h = 0" "missing_base h = 0" by (simp_all add: h_def init_missing_def)
  moreover have "unat first + 2097152 < 2 ^ 31" using assms(2) by simp
  ultimately obtain ms where ms: "add_sequences_2_missing h first gap = Some (h\<lparr>missing_base := first,
      missing_lowest := first, missing_highest := first + gap - 1, missing_sequence := ms, missing_count := gap\<rparr>, 0)"
    "missing_set (h\<lparr>missing_base := first, missing_lowest := first, missing_highest := first + gap - 1,
      missing_sequence := ms, missing_count := gap\<rparr>) = {unat first..<unat first + unat gap}"
    "window_inv (h\<lparr>missing_base := first, missing_lowest := first, missing_highest := first + gap - 1,
      missing_sequence := ms, missing_count := gap\<rparr>)"
    using add_sequences_open [of h first gap] assms by auto
  have "\<not> gap > MISSING_RANGE" using assms(4) by (simp add: word_less_nat_alt range_nat)
  then have "first_gap pub g gap (first + gap) first ps = Some (set_out_of_sequence pub (h\<lparr>missing_base := first,
      missing_lowest := first, missing_highest := first + gap - 1, missing_sequence := ms, missing_count := gap\<rparr>))"
    using ms(1) by (simp add: first_gap_def Let_def h_def)
  moreover have "unat (first + gap - 1) = unat first + unat gap - 1" using assms by (intro unat_last) simp_all
  moreover have "my_expected p (h\<lparr>missing_base := first, missing_lowest := first,
      missing_highest := first + gap - 1, missing_sequence := ms, missing_count := gap\<rparr>) = my_expected p g" for p
    by (simp add: h_def init_missing_def my_expected_def)
  ultimately show ?thesis using ms(2,3) by simp
qed

lemma first_gap_too_wide:
  assumes "2097152 < unat gap" and "in_sequence g"
  shows "\<exists>g'. first_gap pub g gap n first ps = Some g' \<and> in_sequence g' \<and> (\<forall>p. my_expected p g' = my_expected p g)"
proof -
  have "gap > MISSING_RANGE" using assms(1) by (simp add: word_less_nat_alt range_nat)
  then show ?thesis
    using assms(2)
    by (simp add: first_gap_def Let_def notify_packet_loss_def init_missing_def my_expected_def publish_notice_def)
qed

definition publishes :: "feed_group \<Rightarrow> u32 \<Rightarrow> (feed_group \<times> u32) option \<Rightarrow> bool \<Rightarrow> bool" where
  "publishes g n r exact \<longleftrightarrow> (\<exists>g'. r = Some (g', if unat n \<in> publishable g then 1 else 0) \<and> arca_inv g' \<and> arca_le g g' \<and>
     publishable g' \<subseteq> publishable g - {unat n} \<and> (exact \<longrightarrow> publishable g' = publishable g - {unat n}))"

lemma unat_suc: "unat (n :: u32) < 2 ^ 30 \<Longrightarrow> unat (n + 1) = Suc (unat n)"
  by (simp add: unat_word_ariths)

lemma publish_in_sequence_gap:
  assumes inv: "arca_inv g" and s: "in_sequence g" and my: "0 < my_expected ps g" and n: "unat n < 2 ^ 30"
    and gap: "expected_max g < unat n"
    and ma: "most_advanced = (if other_expected ps g > my_expected ps g then other_expected ps g else my_expected ps g)"
  shows "publishes g n (do { g \<leftarrow> first_gap pub g (n - most_advanced) n most_advanced ps;
      Some (set_my_expected ps (n + 1) g, 1) }) (unat n \<le> expected_max g + 2097152)"
proof -
  have M: "unat most_advanced = expected_max g"
    using ma by (simp add: expected_max_my [of _ ps] word_less_nat_alt max_def)
  then have d: "unat (n - most_advanced) = unat n - expected_max g" "most_advanced + (n - most_advanced) = n"
    using gap by (simp_all add: unat_sub word_le_nat_alt)
  have oth: "unat (other_expected ps g) \<le> expected_max g" by (simp add: expected_max_my [of _ ps])
  have in_pub: "unat n \<in> publishable g" using gap by (simp add: publishable_def)
  have le: "my_expected p g \<le> n + 1" for p using expected_my_le [of p g] gap n by (simp add: word_le_nat_alt unat_suc)
  show ?thesis
  proof (cases "unat n \<le> expected_max g + 2097152")
    case True
    have "0 < unat (my_expected ps g)" using my by (simp add: word_less_nat_alt)
    then have "0 < expected_max g" by (simp add: expected_max_my [of _ ps])
    then have "0 < most_advanced" using M by (simp add: word_less_nat_alt)
    moreover have "unat n - expected_max g \<le> 2097152" using True by simp
    ultimately obtain g' where g': "first_gap pub g (n - most_advanced) n most_advanced ps = Some g'" "\<not> in_sequence g'"
      "window_inv g'" "missing_set g' = {expected_max g..<unat n}" "unat (missing_highest g') = unat n - 1"
      "missing_base g' = most_advanced" "\<forall>p. my_expected p g' = my_expected p g"
      using first_gap_opens [of most_advanced "n - most_advanced" pub g ps] d M gap n True
      by (auto simp: word_less_nat_alt)
    let ?g = "set_my_expected ps (n + 1) g'"
    have m: "expected_max ?g = Suc (unat n)" using oth gap n g'(7) by (simp add: unat_suc other_my)
    have "arca_inv ?g" unfolding arca_inv_def m using n g'(2,3,5) by simp
    moreover have "arca_le g ?g" using s g'(2,6,7) M le by (simp add: arca_le_def window_start_def my_expected_set)
    moreover have "publishable ?g = publishable g - {unat n}"
      unfolding publishable_def m using s g'(2,4) gap by auto
    ultimately show ?thesis unfolding publishes_def using g'(1) in_pub by auto
  next
    case False
    then have "2097152 < unat (n - most_advanced)" using d by simp
    then obtain g' where g': "first_gap pub g (n - most_advanced) n most_advanced ps = Some g'" "in_sequence g'"
      "\<forall>p. my_expected p g' = my_expected p g"
      using first_gap_too_wide [of "n - most_advanced" g pub n most_advanced ps] s by auto
    let ?g = "set_my_expected ps (n + 1) g'"
    have m: "expected_max ?g = Suc (unat n)" using oth gap n g'(3) by (simp add: unat_suc other_my)
    have "arca_inv ?g" unfolding arca_inv_def m using n g'(2) by simp
    moreover have "arca_le g ?g" using s g'(2,3) m gap le by (simp add: arca_le_def window_start_def my_expected_set)
    moreover have "publishable ?g \<subseteq> publishable g - {unat n}"
      unfolding publishable_def m using s g'(2) gap by auto
    ultimately show ?thesis unfolding publishes_def using g'(1) in_pub False by auto
  qed
qed

lemma publishes_setI:
  assumes "arca_inv g" and "unat n < 2 ^ 30" and "m = n + 1"
    and "unat (my_expected ps g) \<le> unat n" and "unat n \<notin> (if in_sequence g then {} else missing_set g)"
    and "unat (other_expected ps g) > unat n \<or> unat n = expected_max g"
  shows "publishes g n (Some (set_my_expected ps m g, if unat n \<in> publishable g then 1 else 0)) True"
proof -
  have m: "expected_max (set_my_expected ps m g) = (if unat n = expected_max g then Suc (unat n) else expected_max g)"
    "expected_max g \<ge> unat (other_expected ps g)"
    using assms(2-4,6) by (auto simp: expected_max_my [of g ps] unat_suc max_def)
  moreover have "publishable (set_my_expected ps m g) = publishable g - {unat n}"
    using m assms(5,6) by (auto simp: publishable_def)
  moreover have "arca_inv (set_my_expected ps m g)"
    using assms(1,2) m by (auto simp: arca_inv_def)
  moreover have "my_expected ps g \<le> m" using assms(2-4) by (simp add: word_le_nat_alt unat_suc)
  then have "my_expected p g \<le> (if (p = 1) = (ps = 1) then m else my_expected p g)" for p
    by (auto simp: my_expected_def)
  then have "arca_le g (set_my_expected ps m g)" using m by (simp add: arca_le_def window_start_def my_expected_set)
  ultimately show ?thesis by (auto simp: publishes_def)
qed

lemma publishes_sameI:
  assumes "arca_inv g" and "unat n \<notin> publishable g"
  shows "publishes g n (Some (g, 0)) True"
  using assms by (auto simp: publishes_def arca_le_def)


lemma publish_in_sequence_ok:
  assumes inv: "arca_inv g" and s: "in_sequence g" and my: "0 < my_expected ps g" and n: "unat n < 2 ^ 30"
  shows "publishes g n (publish_in_sequence pub ps n g) (unat n \<le> expected_max g + 2097152)"
proof -
  let ?my = "unat (my_expected ps g)" and ?oth = "unat (other_expected ps g)"
  have M: "expected_max g = max ?my ?oth" by (rule expected_max_my)
  have pub: "unat n \<in> publishable g \<longleftrightarrow> expected_max g \<le> unat n" using s by (simp add: publishable_cases)
  consider (mine) "n = my_expected ps g" | (old) "n < my_expected ps g"
    | (other) "n > my_expected ps g" "n \<le> other_expected ps g"
    | (gap) "n > my_expected ps g" "n > other_expected ps g" by fastforce
  then show ?thesis
  proof cases
    case mine
    then have "publishes g n (Some (set_my_expected ps (my_expected ps g + 1) g, if unat n \<in> publishable g then 1 else 0)) True"
      using inv n s M by (intro publishes_setI) auto
    moreover have "publish_in_sequence pub ps n g =
        Some (set_my_expected ps (my_expected ps g + 1) g, if unat n \<in> publishable g then 1 else 0)"
      using mine pub M by (simp add: publish_in_sequence_def Let_def word_less_nat_alt)
    ultimately show ?thesis by (auto simp: publishes_def)
  next
    case old
    then have "publishes g n (Some (g, 0)) True"
      using inv pub M by (intro publishes_sameI) (auto simp: word_less_nat_alt)
    moreover have "publish_in_sequence pub ps n g = Some (g, 0)" using old by (auto simp: publish_in_sequence_def)
    ultimately show ?thesis by (auto simp: publishes_def)
  next
    case other
    then have "publishes g n (Some (set_my_expected ps (n + 1) g, if unat n \<in> publishable g then 1 else 0)) True"
      using inv n s M by (intro publishes_setI) (auto simp: word_less_nat_alt word_le_nat_alt)
    moreover have "publish_in_sequence pub ps n g =
        Some (set_my_expected ps (n + 1) g, if unat n \<in> publishable g then 1 else 0)"
      using other pub M by (auto simp: publish_in_sequence_def Let_def word_less_nat_alt word_le_nat_alt word_unat_eq_iff)
    ultimately show ?thesis by (auto simp: publishes_def)
  next
    case gap
    then have "expected_max g < unat n" using M by (simp add: word_less_nat_alt)
    then show ?thesis
      using publish_in_sequence_gap [OF inv s my n _ refl, of pub] gap by (auto simp: publish_in_sequence_def Let_def)
  qed
qed

lemma second_gap_ok:
  assumes inv: "arca_inv g" and s: "\<not> in_sequence g" and n: "unat n < unat (missing_base g) + 2097152"
    and gap: "expected_max g < unat n" and M: "unat most_advanced = expected_max g"
  shows "\<exists>g'. second_gap pub g (n - most_advanced) n most_advanced ps = Some (g', 1) \<and> \<not> in_sequence g' \<and> window_inv g' \<and>
    missing_set g' = missing_set g \<union> {expected_max g..<unat n} \<and> unat (missing_highest g') = unat n - 1 \<and>
    missing_base g' = missing_base g \<and> (\<forall>p. my_expected p g' = my_expected p g)"
proof -
  define h where "h = g\<lparr>missing_packet_incidence := missing_packet_incidence g + 1,
    missing_message_range := missing_message_range g + ucast (n - most_advanced)\<rparr>"
  have w: "window_inv g" and hi: "unat (missing_highest g) < expected_max g" using inv s by (simp_all add: arca_inv_def)
  have h: "window_inv h" "missing_set h = missing_set g" "missing_highest h = missing_highest g" "missing_base h = missing_base g"
    using w by (simp_all add: h_def window_inv_def window_ok_def missing_set_def)
  have d: "unat (n - most_advanced) = unat n - expected_max g" "most_advanced + (n - most_advanced) = n"
    using gap M by (simp_all add: unat_sub word_le_nat_alt)
  let ?c = "n - most_advanced"
  have c: "0 < ?c" "unat (missing_highest h) < unat most_advanced"
    "unat most_advanced + unat ?c \<le> unat (missing_base h) + 2097152"
    using gap hi M n h(3,4) d(1) by (simp_all add: word_less_nat_alt)
  obtain ms where ms: "add_sequences_2_missing h most_advanced ?c = Some (h\<lparr>missing_highest := most_advanced + ?c - 1,
      missing_sequence := ms, missing_count := missing_count h + ?c\<rparr>, 0)"
    "missing_set (h\<lparr>missing_highest := most_advanced + ?c - 1, missing_sequence := ms, missing_count := missing_count h + ?c\<rparr>) =
      missing_set h \<union> {unat most_advanced..<unat most_advanced + unat ?c}"
    "window_inv (h\<lparr>missing_highest := most_advanced + ?c - 1, missing_sequence := ms, missing_count := missing_count h + ?c\<rparr>)"
    using add_sequences_behind [OF h(1) c(2,1,3)] by blast
  let ?g = "h\<lparr>missing_highest := n - 1, missing_sequence := ms, missing_count := missing_count h + ?c\<rparr>"
  have "window_ok g" using w by (simp add: window_inv_def)
  then have "n < missing_base h + MISSING_RANGE" using n base_range [of g] h(4) by (simp add: word_less_nat_alt)
  then have "second_gap pub g ?c n most_advanced ps = Some (?g, 1)"
    using ms(1) unfolding second_gap_def h_def [symmetric] Let_def d(2) by simp
  moreover have "n \<noteq> 0" using gap by auto
  then have "unat (n - 1) = unat n - 1" by (rule unat_minus_one)
  moreover have "\<not> in_sequence ?g" "missing_base ?g = missing_base g" "\<forall>p. my_expected p ?g = my_expected p g"
    using s by (simp_all add: h_def my_expected_def)
  ultimately show ?thesis using ms(2,3) d gap unfolding M h(2) by (auto simp del: One_nat_def)
qed

text \<open>A number below the expected ones: taken from the window when it is there.\<close>

lemma is_sequence_in_missing_window:
  assumes w: "window_inv g" and s: "\<not> in_sequence g" and n: "unat n < unat (missing_base g) + 2097152"
  shows "is_sequence_in_missing g n = Some (unat n \<in> missing_set g)"
proof -
  have ok: "window_ok g" and sub: "missing_set g \<subseteq> {unat (missing_lowest g)..unat (missing_highest g)}"
    and bl: "unat (missing_base g) \<le> unat (missing_lowest g)" and ne: "missing_set g \<noteq> {}"
    and hi: "unat (missing_highest g) < unat (missing_base g) + 2097152"
    using w by (simp_all add: window_inv_def)
  have low: "\<forall>m\<in>missing_set g. unat (missing_lowest g) \<le> m" using sub by auto
  obtain m where "m \<in> missing_set g" using ne by blast
  then have lh: "unat (missing_lowest g) \<le> unat (missing_highest g)" using sub by force
  then have l31: "unat (missing_lowest g) < 2 ^ 31" using hi ok by (simp add: window_ok_def)
  show ?thesis
  proof (cases "in_window g n")
    case True
    then show ?thesis by (rule is_sequence_in_missing_set [OF ok _ s low bl l31])
  next
    case False
    then have "unat n < unat (missing_lowest g)" using n bl by (simp add: in_window_def)
    then show ?thesis using low by (auto simp: is_sequence_in_missing_def word_less_nat_alt)
  qed
qed

lemma take_from_window:
  assumes inv: "arca_inv g" and s: "\<not> in_sequence g" and n: "unat n \<in> missing_set g"
  shows "\<exists>g1. remove_sequence_from_missing g n = Some (g1, 0) \<and>
    (let g' = if is_missing_empty g1 then set_in_sequence pub (init_missing g1) else g1
     in arca_inv g' \<and> publishable g' = publishable g - {unat n} \<and> my_expected ps g' = my_expected ps g \<and>
        other_expected ps g' = other_expected ps g \<and> arca_le g g')"
proof -
  have w: "window_inv g" and hi: "unat (missing_highest g) < expected_max g" and M30: "expected_max g \<le> 2 ^ 30"
    using inv s by (simp_all add: arca_inv_def)
  obtain ms c l where r: "remove_sequence_from_missing g n =
      Some (g\<lparr>missing_sequence := ms, missing_count := c, missing_lowest := l\<rparr>, 0)"
    "missing_set (g\<lparr>missing_sequence := ms\<rparr>) = missing_set g - {unat n}" "c = 0 \<longleftrightarrow> missing_set g = {unat n}"
    "missing_set g \<noteq> {unat n} \<longrightarrow> window_inv (g\<lparr>missing_sequence := ms, missing_count := c, missing_lowest := l\<rparr>)"
    using remove_sequence_from_missing_set [OF w s n] by blast
  define g1 where "g1 = g\<lparr>missing_sequence := ms, missing_count := c, missing_lowest := l\<rparr>"
  have g1: "my_expected p g1 = my_expected p g" "other_expected p g1 = other_expected p g" "expected_max g1 = expected_max g"
    "missing_highest g1 = missing_highest g" "in_sequence g1 = in_sequence g" "missing_base g1 = missing_base g" for p
    by (simp_all add: g1_def my_expected_def other_expected_def expected_max_def)
  have s1: "missing_set g1 = missing_set g - {unat n}" unfolding g1_def using r(2) by simp
  have lt: "unat n < expected_max g" using n w hi by (force simp: window_inv_def)
  have base: "unat (missing_base g) \<le> unat n" using n by (simp add: missing_set_def)
  let ?i = "set_in_sequence pub (init_missing g1)"
  have i: "my_expected p ?i = my_expected p g" "other_expected p ?i = other_expected p g" for p
  proof -
    have "my_expected p (init_missing g1) = my_expected p g1" "other_expected p (init_missing g1) = other_expected p g1"
      by (simp_all add: init_missing_def my_expected_def other_expected_def)
    then show "my_expected p ?i = my_expected p g" "other_expected p ?i = other_expected p g" using g1(1,2) by simp_all
  qed
  then have im: "expected_max ?i = expected_max g" by (simp add: expected_max_my [of _ 1])
  have e: "is_missing_empty g1 \<longleftrightarrow> missing_set g = {unat n}" using r(3) by (simp add: is_missing_empty_def g1_def)
  show ?thesis
  proof (cases "missing_set g = {unat n}")
    case True
    have "arca_inv ?i" using M30 im by (simp add: arca_inv_def)
    moreover have "publishable ?i = publishable g - {unat n}" using s True lt im by (auto simp: publishable_def)
    moreover have "arca_le g ?i" using s i im lt base by (simp add: arca_le_def window_start_def)
    ultimately show ?thesis using r(1) e True i by (simp add: g1_def)
  next
    case False
    have "arca_inv g1" using False r(4) hi M30 g1(3,4) by (simp add: arca_inv_def g1_def)
    moreover have "publishable g1 = publishable g - {unat n}" unfolding publishable_def g1 s1 using s lt by auto
    moreover have "arca_le g g1" using s g1(1,5,6) by (simp add: arca_le_def window_start_def)
    ultimately show ?thesis using r(1) e False g1(1,2) by (simp add: g1_def)
  qed
qed

lemma publish_out_of_sequence_ok:
  assumes inv: "arca_inv g" and s: "\<not> in_sequence g" and adm: "arca_adm g n"
  shows "publishes g n (publish_out_of_sequence pub ps n g) True"
proof -
  let ?my = "unat (my_expected ps g)" and ?oth = "unat (other_expected ps g)"
  have M: "expected_max g = max ?my ?oth" by (rule expected_max_my)
  have n: "unat n < 2 ^ 30" "unat n < unat (missing_base g) + 2097152" using adm s by (simp_all add: arca_adm_def)
  have w: "window_inv g" and hi: "unat (missing_highest g) < expected_max g" and M30: "expected_max g \<le> 2 ^ 30"
    using inv s by (simp_all add: arca_inv_def)
  have ok: "window_ok g" and sub: "missing_set g \<subseteq> {unat (missing_lowest g)..unat (missing_highest g)}"
    and bl: "unat (missing_base g) \<le> unat (missing_lowest g)" and ne: "missing_set g \<noteq> {}"
    using w by (simp_all add: window_inv_def)
  have low: "\<forall>m\<in>missing_set g. unat (missing_lowest g) \<le> m" and below: "m < expected_max g" if "m \<in> missing_set g" for m
    using sub hi that by auto
  have stay: "\<not> n > missing_base g + MISSING_RANGE"
    using n(2) base_range [OF ok] by (simp add: word_less_nat_alt)
  have pub: "unat n \<in> publishable g \<longleftrightarrow> expected_max g \<le> unat n \<or> unat n \<in> missing_set g"
    using s by (auto simp: publishable_cases)
  consider (next_one) "unat n = expected_max g" | (gap) "expected_max g < unat n" | (below) "unat n < expected_max g"
    by linarith
  then show ?thesis
  proof cases
    case next_one
    have "publish_out_of_sequence pub ps n g = Some (set_my_expected ps (n + 1) g, if unat n \<in> publishable g then 1 else 0)"
    proof (cases "n = my_expected ps g")
      case True
      then show ?thesis using next_one M stay pub by (auto simp: publish_out_of_sequence_def Let_def word_less_nat_alt)
    next
      case False
      then have "unat n \<noteq> ?my" by (simp add: word_unat_eq_iff)
      then have "unat n = ?oth" "?my \<le> unat n" using next_one M by (simp_all add: max_def split: if_splits)
      then have "n = other_expected ps g" "my_expected ps g \<le> n" by (simp_all add: word_unat_eq_iff word_le_nat_alt)
      then show ?thesis using False next_one stay pub by (simp add: publish_out_of_sequence_def Let_def)
    qed
    moreover have "unat n \<notin> missing_set g" using below next_one by force
    ultimately show ?thesis
      using publishes_setI [OF inv n(1) refl, of ps] next_one M s by simp
  next
    case gap
    define ma where "ma = (if other_expected ps g > my_expected ps g then other_expected ps g else my_expected ps g)"
    have ma: "unat ma = expected_max g" by (simp add: ma_def M word_less_nat_alt max_def)
    obtain g' where g': "second_gap pub g (n - ma) n ma ps = Some (g', 1)" "\<not> in_sequence g'" "window_inv g'"
      "missing_set g' = missing_set g \<union> {expected_max g..<unat n}" "unat (missing_highest g') = unat n - 1"
      "missing_base g' = missing_base g" "\<forall>p. my_expected p g' = my_expected p g"
      using second_gap_ok [OF inv s n(2) gap ma] by blast
    have r: "publish_out_of_sequence pub ps n g = Some (set_my_expected ps (n + 1) g', 1)"
      using gap M stay g'(1)
      by (auto simp: publish_out_of_sequence_def Let_def ma_def word_less_nat_alt word_le_nat_alt)
    have m: "expected_max (set_my_expected ps (n + 1) g') = Suc (unat n)" using gap M n(1) g'(7) by (simp add: unat_suc other_my)
    have "my_expected p g \<le> n + 1" for p using expected_my_le [of p g] gap n by (simp add: word_le_nat_alt unat_suc)
    then have le: "arca_le g (set_my_expected ps (n + 1) g')"
      using s g'(2,6,7) by (simp add: arca_le_def window_start_def my_expected_set)
    have "arca_inv (set_my_expected ps (n + 1) g')" unfolding arca_inv_def m using n(1) g'(2,3,5) by simp
    moreover have "publishable (set_my_expected ps (n + 1) g') = publishable g - {unat n}"
      unfolding publishable_def m using s g'(2,4) gap below by force
    ultimately show ?thesis unfolding publishes_def r using pub gap le by auto
  next
    case below
    have c: "\<not> (n = my_expected ps g \<and> \<not> n < other_expected ps g)" "\<not> (n \<ge> my_expected ps g \<and> n = other_expected ps g)"
      "\<not> (n > my_expected ps g \<and> n > other_expected ps g)"
      using below M by (auto simp: word_less_nat_alt word_le_nat_alt)
    have r: "publish_out_of_sequence pub ps n g = do {
        b \<leftarrow> is_sequence_in_missing g n;
        if b then do {
          (g, rc) \<leftarrow> remove_sequence_from_missing g n;
          let g = (if is_missing_empty g then set_in_sequence pub (init_missing g) else g);
          Some (if n \<ge> my_expected ps g then set_my_expected ps (n + 1) g else g, 1)
        }
        else Some (g, 0)
      }"
      using stay c by (simp only: publish_out_of_sequence_def Let_def if_False)
    show ?thesis
    proof (cases "unat n \<in> missing_set g")
      case True
      obtain g1 g' where g: "remove_sequence_from_missing g n = Some (g1, 0)"
        "g' = (if is_missing_empty g1 then set_in_sequence pub (init_missing g1) else g1)"
        "arca_inv g'" "publishable g' = publishable g - {unat n}" "my_expected ps g' = my_expected ps g"
        "other_expected ps g' = other_expected ps g" "arca_le g g'"
        using take_from_window [OF inv s True, of pub ps] by (auto simp: Let_def)
      let ?g = "if n \<ge> my_expected ps g' then set_my_expected ps (n + 1) g' else g'"
      have "publish_out_of_sequence pub ps n g = Some (?g, 1)"
        unfolding r is_sequence_in_missing_window [OF w s n(2)] using True g(1,2) by (simp add: Let_def)
      moreover have em: "expected_max ?g = expected_max g'"
        using below M g(5,6) n(1) by (auto simp: expected_max_my [of _ ps] unat_suc word_le_nat_alt)
      then have "publishable ?g = publishable g'" "arca_inv ?g \<longleftrightarrow> arca_inv g'"
        by (auto simp: publishable_def arca_inv_def)
      moreover have "my_expected p g' \<le> my_expected p ?g" for p
        using n(1) by (auto simp: set_my_expected_def word_le_nat_alt unat_suc my_expected_def)
      then have "arca_le g ?g"
        using g(7) em by (auto simp: arca_le_def window_start_def intro: order_trans)
      ultimately show ?thesis using g(3,4) pub True by (auto simp: publishes_def)
    next
      case False
      then show ?thesis
        unfolding r is_sequence_in_missing_window [OF w s n(2)] using publishes_sameI [OF inv] pub below by simp
    qed
  qed
qed

lemma need_2_publish_ok:
  assumes inv: "arca_inv g" and adm: "arca_adm g n"
  shows "publishes g n (need_2_publish pub ps n g)
    (my_expected ps g \<noteq> 0 \<and> (in_sequence g \<longrightarrow> unat n \<le> expected_max g + 2097152))"
proof -
  let ?h = "if my_expected ps g = 0 then set_my_expected ps n g else g"
  have n: "0 < n" "unat n < 2 ^ 30" using adm by (simp_all add: arca_adm_def)
  have h: "arca_inv ?h" "arca_adm ?h n" "0 < my_expected ps ?h" "in_sequence ?h = in_sequence g" "arca_le g ?h"
  proof -
    have "my_expected p g \<le> my_expected p (set_my_expected ps n g)" if "my_expected ps g = 0" for p
      using that by (auto simp: my_expected_def set_my_expected_def)
    then show "arca_le g ?h"
      by (auto simp: arca_le_def window_start_def expected_max_my [of g ps])
    show "arca_inv ?h" using inv n by (auto simp: arca_inv_def expected_max_my [of g ps])
    show "arca_adm ?h n" "0 < my_expected ps ?h" "in_sequence ?h = in_sequence g"
      using adm n by (auto simp: arca_adm_def word_gt_0)
  qed
  have pub: "unat n \<in> publishable ?h \<longleftrightarrow> unat n \<in> publishable g" "publishable ?h \<subseteq> publishable g"
    by (auto simp: publishable_def expected_max_my [of g ps])
  have "publishes ?h n (need_2_publish pub ps n g) (in_sequence g \<longrightarrow> unat n \<le> expected_max ?h + 2097152)"
  proof (cases "in_sequence g")
    case True
    then show ?thesis
      using publish_in_sequence_ok [OF h(1) _ h(3) n(2), of pub] h(4) by (simp add: need_2_publish_def Let_def)
  next
    case False
    then show ?thesis
      using publish_out_of_sequence_ok [OF h(1) _ h(2), of pub ps] h(4) by (simp add: need_2_publish_def Let_def)
  qed
  then obtain g' where g': "need_2_publish pub ps n g = Some (g', if unat n \<in> publishable g then 1 else 0)" "arca_inv g'"
    "arca_le ?h g'" "publishable g' \<subseteq> publishable ?h - {unat n}"
    "(in_sequence g \<longrightarrow> unat n \<le> expected_max ?h + 2097152) \<longrightarrow> publishable g' = publishable ?h - {unat n}"
    unfolding publishes_def pub(1) by blast
  have "arca_le g g'" using h(5) g'(3) unfolding arca_le_def by (meson order_trans)
  moreover have "publishable g' \<subseteq> publishable g - {unat n}" using g'(4) pub(2) by blast
  ultimately show ?thesis unfolding publishes_def using g'(1,2,5) by (intro exI [of _ g']) auto
qed

text \<open>
  With both feeds started and numbers within the reach of the window, the group implements a filter
  over the set of numbers still to be published.
\<close>

definition arca_started :: "nat \<Rightarrow> feed_group \<Rightarrow> bool" where
  "arca_started start g \<longleftrightarrow> arca_inv g \<and> my_expected 0 g \<noteq> 0 \<and> my_expected 1 g \<noteq> 0 \<and> start \<le> window_start g"

definition arca_reach_adm :: "nat \<Rightarrow> int \<times> u32 \<Rightarrow> bool" where
  "arca_reach_adm start = (\<lambda>(ps, n). 0 < n \<and> unat n < 2 ^ 30 \<and> unat n < start + 2097152)"

interpretation arca_filter: refining_machine "\<lambda>(ps, n). need_2_publish pub ps n" "arca_reach_adm start"
  "arca_started start" publishable "\<lambda>P (ps, n). if unat n \<in> P then 1 else 0" "\<lambda>P (ps, n). P - {unat n}"
  for pub start
proof
  fix g and i :: "int \<times> u32"
  assume inv: "arca_started start g" and adm: "arca_reach_adm start i"
  obtain ps n where i: "i = (ps, n)" by force
  have n: "0 < n" "unat n < 2 ^ 30" "unat n < start + 2097152" using adm by (simp_all add: arca_reach_adm_def i)
  have g: "arca_inv g" "my_expected 0 g \<noteq> 0" "my_expected 1 g \<noteq> 0" "start \<le> window_start g"
    using inv by (simp_all add: arca_started_def)
  then have "my_expected ps g \<noteq> 0" by (simp add: my_expected_def split: if_splits)
  moreover have "arca_adm g n" "in_sequence g \<longrightarrow> unat n \<le> expected_max g + 2097152"
    using n g(4) by (auto simp: arca_adm_def window_start_def)
  ultimately obtain g' where g': "need_2_publish pub ps n g = Some (g', if unat n \<in> publishable g then 1 else 0)"
    "arca_inv g'" "arca_le g g'" "publishable g' = publishable g - {unat n}"
    using need_2_publish_ok [OF g(1), of n pub ps] by (auto simp: publishes_def)
  moreover have "my_expected p g' \<noteq> 0" if "my_expected p g \<noteq> 0" for p
    using g'(3) that by (metis arca_le_def word_le_0_iff)
  then have "arca_started start g'" using g g'(2,3) by (auto simp: arca_started_def arca_le_def)
  ultimately show "\<exists>s'. (case i of (ps, n) \<Rightarrow> need_2_publish pub ps n) g =
      Some (s', (case i of (ps, n) \<Rightarrow> if unat n \<in> publishable g then 1 else 0)) \<and> arca_started start s' \<and>
      publishable s' = (case i of (ps, n) \<Rightarrow> publishable g - {unat n})"
    by (simp add: i)
qed

lemma removed_numbers: "foldl (\<lambda>P (ps, n). P - {unat n}) P is = P - (\<lambda>i. unat (snd i)) ` set is"
  by (induction "is" arbitrary: P) auto

subsection \<open>Properties\<close>


definition arca_example :: feed_group where
  "arca_example = (the (new_feed_group True))\<lparr>primary_expected_sequence := 5, secondary_expected_sequence := 5\<rparr>"

lemma arca_example_simps:
  "in_sequence arca_example" "expected_max arca_example = 5" "my_expected ps arca_example = 5" "publishable arca_example = {5..}"
  by (simp_all add: arca_example_def new_feed_group_def expected_max_def my_expected_def publishable_def)


text \<open>
  C23.  From a state in sequence, both feeds started, any interleaving of numbers from the two feeds in reach
  of the window publishes each new number exactly once, when it arrives first, and no old number.
\<close>

theorem need_2_publish_exactly_once:
  assumes "in_sequence g" and "primary_expected_sequence g \<noteq> 0" and "secondary_expected_sequence g \<noteq> 0"
    and "expected_max g \<le> 2 ^ 30"
    and "\<And>ps n. (ps, n) \<in> set is \<Longrightarrow> 0 < n \<and> unat n < 2 ^ 30 \<and> unat n < expected_max g + unat MISSING_RANGE"
  shows "\<exists>g' rcs. run_inputs (\<lambda>(ps, n). need_2_publish pub ps n) is g = Some (g', rcs) \<and> length rcs = length is \<and>
    (\<forall>k < length is. rcs ! k =
      (if expected_max g \<le> unat (snd (is ! k)) \<and> snd (is ! k) \<notin> snd ` set (take k is) then 1 else 0))"
proof -
  let ?out = "\<lambda>P (ps :: int, n :: u32). if unat n \<in> P then 1 else 0 :: u32" and ?upd = "\<lambda>P (ps :: int, n :: u32). P - {unat n}"
  let ?start = "expected_max g"
  have inj: "inj (unat :: u32 \<Rightarrow> nat)" by (rule injI) (simp add: word_unat_eq_iff)
  have start: "arca_started ?start g"
    using assms(1-4) by (simp add: arca_started_def arca_inv_def window_start_def my_expected_def)
  have adm: "arca_reach_adm ?start i" if "i \<in> set is" for i
    using assms(5) [of "fst i" "snd i"] that by (simp add: arca_reach_adm_def range_nat split_beta)
  obtain g' where run: "run_inputs (\<lambda>(ps, n). need_2_publish pub ps n) is g = Some (g', abstract_run ?out ?upd (publishable g) is)"
    using arca_filter.run_refines [OF start adm] by blast
  have "abstract_run ?out ?upd (publishable g) is ! k =
      (if expected_max g \<le> unat (snd (is ! k)) \<and> snd (is ! k) \<notin> snd ` set (take k is) then 1 else 0)"
    if "k < length is" for k
  proof -
    have "abstract_run ?out ?upd (publishable g) is ! k = (if unat (snd (is ! k)) \<in> foldl ?upd (publishable g) (take k is) then 1 else 0)"
      unfolding abstract_run_nth [OF that] by (cases "is ! k") simp
    also have "foldl ?upd (publishable g) (take k is) = publishable g - unat ` snd ` set (take k is)"
      unfolding removed_numbers by (simp add: image_image)
    finally show ?thesis using assms(1) inj_image_mem_iff [OF inj] by (simp add: publishable_cases)
  qed
  then show ?thesis using run by (intro exI [of _ g'] exI [of _ "abstract_run ?out ?upd (publishable g) is"]) simp
qed


theorem need_2_publish_exactly_once_witness:
  "\<exists>g'. run_inputs (\<lambda>(ps, n). need_2_publish (\<lambda>_ _. True) ps n) [(0, 7), (1, 5), (1, 7), (0, 6), (0, 4)] arca_example =
    Some (g', [1, 1, 0, 1, 0])"
proof -
  let ?is = "[(0, 7), (1, 5), (1, 7), (0, 6), (0, 4)] :: (int \<times> u32) list"
  have "\<exists>g' rcs. run_inputs (\<lambda>(ps, n). need_2_publish (\<lambda>_ _. True) ps n) ?is arca_example = Some (g', rcs) \<and>
      length rcs = length ?is \<and> (\<forall>k < length ?is. rcs ! k =
        (if expected_max arca_example \<le> unat (snd (?is ! k)) \<and> snd (?is ! k) \<notin> snd ` set (take k ?is) then 1 else 0))"
  proof (rule need_2_publish_exactly_once)
    show "primary_expected_sequence arca_example \<noteq> 0" "secondary_expected_sequence arca_example \<noteq> 0"
      by (simp_all add: arca_example_def)
  qed (auto simp: arca_example_simps range_nat)
  then obtain g' rcs where r: "run_inputs (\<lambda>(ps, n). need_2_publish (\<lambda>_ _. True) ps n) ?is arca_example = Some (g', rcs)"
    "length rcs = 5" "\<forall>k < 5. rcs ! k =
        (if 5 \<le> unat (snd (?is ! k)) \<and> snd (?is ! k) \<notin> snd ` set (take k ?is) then 1 else 0)"
    by (auto simp: arca_example_simps)
  have "rcs = map (nth rcs) [0, 1, 2, 3, 4]" using r(2) map_nth [of rcs] by (simp add: upt_rec numeral_eq_Suc)
  also have "\<dots> = [1, 1, 0, 1, 0]" using r(3) by simp
  finally show ?thesis using r(1) by blast
qed

text \<open>
  A feed that starts after the other one and is ahead of it hides a gap: the packet is published, the
  group stays in sequence without a notice, and the numbers in between are never published.
\<close>

lemma late_feed_hides_gap:
  assumes "in_sequence g" and "my_expected ps g = 0" and "other_expected ps g < n" and "unat n < 2 ^ 30"
  shows "\<exists>g'. need_2_publish pub ps n g = Some (g', 1) \<and> in_sequence g' \<and> notices g' = notices g \<and>
    publishable g = {unat (other_expected ps g)..} \<and> publishable g' = {unat n + 1..}"
proof -
  let ?g = "set_my_expected ps (n + 1) (set_my_expected ps n g)"
  have "need_2_publish pub ps n g = Some (?g, 1)"
    using assms(1-3) by (auto simp: need_2_publish_def publish_in_sequence_def Let_def)
  moreover have "notices ?g = notices g" by (simp add: set_my_expected_def)
  moreover have "expected_max g = unat (other_expected ps g)" using assms(2) by (simp add: expected_max_my [of g ps])
  moreover have "expected_max ?g = unat n + 1" using assms(3,4) by (simp add: unat_suc word_less_nat_alt)
  ultimately show ?thesis using assms(1) by (simp add: publishable_cases)
qed

text \<open>
  A gap wider than the window is neither kept nor reported: the packet after it is published, the
  group stays in sequence, no notice is sent and no loss is counted, and the numbers of
  the gap are never published.
\<close>

lemma wide_gap_lost_silently:
  assumes "in_sequence g" and "my_expected ps g \<noteq> 0" and "expected_max g + unat MISSING_RANGE < unat n" and "unat n < 2 ^ 30"
  shows "\<exists>g'. need_2_publish pub ps n g = Some (g', 1) \<and> in_sequence g' \<and> notices g' = notices g \<and>
    packets_lost_incidence g' = packets_lost_incidence g \<and> unrecoverable_messages g' = unrecoverable_messages g \<and>
    publishable g = {expected_max g..} \<and> publishable g' = {unat n + 1..}"
proof -
  define ma where "ma = (if other_expected ps g > my_expected ps g then other_expected ps g else my_expected ps g)"
  have ma: "unat ma = expected_max g" by (simp add: ma_def expected_max_my [of g ps] word_less_nat_alt max_def)
  let ?gap = "n - ma"
  have d: "unat ?gap = unat n - expected_max g" using ma assms(3) by (simp add: unat_sub word_le_nat_alt)
  have wide: "?gap > MISSING_RANGE" using d assms(3) by (simp add: word_less_nat_alt)
  define start where "start = (if sint (n - MISSING_RANGE div 2) < sint ma then ma else n - MISSING_RANGE div 2)"
  define size where "size = (if sint (n - start) < sint ?gap then ?gap else n - start)"
  have "\<not> sint ?gap > sint size" by (simp add: size_def)
  then have f: "first_gap pub g ?gap n ma ps = Some (init_missing (g\<lparr>missing_packet_incidence := missing_packet_incidence g + 1,
      missing_message_range := missing_message_range g + ucast ?gap\<rparr>))"
    using wide unfolding first_gap_def Let_def start_def [symmetric] size_def [symmetric] by simp
  define h where "h = init_missing (g\<lparr>missing_packet_incidence := missing_packet_incidence g + 1,
      missing_message_range := missing_message_range g + ucast ?gap\<rparr>)"
  have gt: "my_expected ps g < n" "other_expected ps g < n"
    using assms(3) by (simp_all add: expected_max_my [of g ps] word_less_nat_alt)
  then have "need_2_publish pub ps n g = Some (set_my_expected ps (n + 1) h, 1)"
    using assms(1,2) f by (auto simp: need_2_publish_def publish_in_sequence_def Let_def ma_def h_def)
  moreover have h: "in_sequence h = in_sequence g" "notices h = notices g" "packets_lost_incidence h = packets_lost_incidence g"
    "unrecoverable_messages h = unrecoverable_messages g" "other_expected ps h = other_expected ps g"
    by (simp_all add: h_def init_missing_def other_expected_def)
  moreover have "expected_max (set_my_expected ps (n + 1) h) = unat n + 1"
    using gt(2) assms(4) h(5) by (simp add: unat_suc word_less_nat_alt)
  ultimately show ?thesis using assms(1) by (simp add: publishable_cases) (simp add: set_my_expected_def)
qed

text \<open>
  The test for a missing number bounds it by the lowest missing number instead of the base of the
  window: the number just behind the window, when it comes again after the base has been filled,
  is looked up outside the array.
\<close>

lemma window_overrun:
  assumes "arca_inv g" and "\<not> in_sequence g" and "n = missing_base g + MISSING_RANGE"
    and "missing_base g < missing_lowest g" and "unat n < expected_max g"
  shows "need_2_publish pub ps n g = None"
proof -
  let ?h = "if my_expected ps g = 0 then set_my_expected ps n g else g"
  have w: "window_inv g" and M: "expected_max g \<le> 2 ^ 30" using assms(1,2) by (simp_all add: arca_inv_def)
  have ok: "window_ok g" and hi: "unat (missing_highest g) < unat (missing_base g) + 2097152"
    and ne: "missing_set g \<noteq> {}" and sub: "missing_set g \<subseteq> {unat (missing_lowest g)..unat (missing_highest g)}"
    using w by (simp_all add: window_inv_def)
  have n: "unat n = unat (missing_base g) + 2097152" using base_range [OF ok] assms(3) by simp
  have "unat (missing_lowest g) \<le> unat (missing_highest g)" using ne sub by force
  then have "unat (missing_lowest g + MISSING_RANGE) = unat (missing_lowest g) + 2097152"
    using hi ok by (simp add: unat_word_ariths range_nat window_ok_def)
  then have low: "\<not> n \<ge> missing_lowest g + MISSING_RANGE" "\<not> n < missing_lowest g" "\<not> n < missing_base g"
    using n assms(4) hi \<open>unat (missing_lowest g) \<le> unat (missing_highest g)\<close>
    by (simp_all add: word_le_nat_alt word_less_nat_alt)
  have "n - missing_base g = MISSING_RANGE" using assms(3) by simp
  then have out: "missing_word g n = None" using ok by (simp add: missing_word_def window_ok_def MISSING_RANGE_def)
  have "is_sequence_in_missing g n = None" using low out assms(2) by (simp add: is_sequence_in_missing_def)
  moreover have "is_sequence_in_missing ?h n = is_sequence_in_missing g n"
    by (simp add: is_sequence_in_missing_def missing_word_def missing_mask_def set_my_expected_def Let_def)
  ultimately have i: "is_sequence_in_missing ?h n = None" by simp
  have b: "\<not> n > missing_base ?h + MISSING_RANGE" using assms(3) by simp
  have "expected_max ?h = expected_max g" "0 < n"
    using assms(5) by (auto simp: expected_max_my [of g ps] n word_less_nat_alt)
  then have c: "\<not> (n = my_expected ps ?h \<and> \<not> n < other_expected ps ?h)"
    "\<not> (n \<ge> my_expected ps ?h \<and> n = other_expected ps ?h)" "\<not> (n > my_expected ps ?h \<and> n > other_expected ps ?h)"
    using assms(5) expected_max_my [of ?h ps] by (auto simp: word_less_nat_alt word_le_nat_alt)
  have "publish_out_of_sequence pub ps n ?h = None"
    using b c by (simp only: publish_out_of_sequence_def Let_def if_False i) simp
  then show ?thesis using assms(2) by (simp add: need_2_publish_def Let_def)
qed

definition overrun_example :: feed_group where
  "overrun_example = (the (new_feed_group True))\<lparr>primary_expected_sequence := 2100000, secondary_expected_sequence := 7,
    missing_sequence := (replicate 32768 0)[0 := 2], missing_base := 5, missing_lowest := 6, missing_highest := 6,
    missing_count := 1, in_sequence := False\<rparr>"

lemma overrun_example_missing: "missing_set overrun_example = {6}"
proof -
  have b: "bit (2 :: u64) j \<longleftrightarrow> j = 1" for j using bit_exp_iff [of 1 j, where ?'a = u64] by auto
  have "bit ((replicate 32768 (0 :: u64))[0 := 2] ! ((n - 5) div 64)) ((n - 5) mod 64) \<longleftrightarrow> n = 6"
    if "5 \<le> n" "n < 2097157" for n :: nat
  proof (cases "(n - 5) div 64 = 0")
    case True
    then have "(n - 5) mod 64 = n - 5" by simp
    moreover have "(replicate 32768 (0 :: u64))[0 := 2] ! 0 = 2" by simp
    ultimately show ?thesis unfolding True b using that by (auto simp only: b)
  next
    case False
    have "n - 5 < 32768 * 64" using that by simp
    then have "(n - 5) div 64 < 32768" by (rule less_mult_imp_div_less)
    moreover have "n \<noteq> 6" using False by auto
    ultimately show ?thesis using False by (simp add: nth_list_update)
  qed
  then show ?thesis by (auto simp: missing_set_def overrun_example_def)
qed

text \<open>
  Leaving the window sets the feed's expected number back to the packet that left it, which is then
  published again although the same feed had delivered it.
\<close>

lemma window_exit_republishes:
  assumes "arca_inv g" and "\<not> in_sequence g" and "n > missing_base g + MISSING_RANGE"
    and "other_expected ps g \<le> n" and "n < my_expected ps g"
  shows "unat n \<notin> publishable g" and "\<exists>g'. need_2_publish pub ps n g = Some (g', 1) \<and> publishable g' = {unat n + 1..}"
proof -
  have "window_ok g" using assms(1,2) by (simp add: arca_inv_def window_inv_def)
  then have "unat n \<notin> missing_set g" using assms(3) base_range [of g] by (simp add: missing_set_def word_less_nat_alt)
  moreover have lt: "unat n < expected_max g" using assms(5) by (simp add: expected_max_my [of g ps] word_less_nat_alt)
  ultimately show "unat n \<notin> publishable g" using assms(2) by (simp add: publishable_def)
  have my: "my_expected ps g \<noteq> 0" using assms(5) by auto
  define h where "h = leave_window pub ps n g"
  have h: "in_sequence h" "my_expected ps h = n" "other_expected ps h = other_expected ps g"
    unfolding h_def leave_window_def Let_def notify_packet_loss_def init_missing_def
    by (simp_all add: other_expected_def set_my_expected_def my_expected_def publish_notice_def Let_def set_in_sequence_def send_alert_def)
  have "need_2_publish pub ps n g = Some (set_my_expected ps (n + 1) h, 1)"
    using assms(2,3,4) h my by (simp add: need_2_publish_def publish_out_of_sequence_def h_def [symmetric] not_less)
  moreover have "unat (n + 1) = unat n + 1" using lt assms(1) by (simp add: unat_word_ariths arca_inv_def)
  then have "expected_max (set_my_expected ps (n + 1) h) = unat n + 1"
    using h(3) assms(4) by (simp add: word_le_nat_alt)
  ultimately show "\<exists>g'. need_2_publish pub ps n g = Some (g', 1) \<and> publishable g' = {unat n + 1..}"
    using h(1) by (simp add: publishable_cases)
qed

end
