(* ===== verification/Config.thy ===== *)
theory Config
  imports Prelude
begin

section \<open>Configuration trees (\<^verbatim>\<open>common/fh_config.c\<close>, \<^verbatim>\<open>common/fh_cfg_parse.y\<close>)\<close>

text \<open>
  A configuration is a tree of named nodes with children or values.  The actions of the grammar build it
  with a pointer to the current node and a counter of the levels to leave at the end of an
  assignment; they are translated over the derivation trees of the grammar (the scanner and the
  tables of the parser are generated).  Lookups follow a dotted path, with each segment copied to an array
  of \<^verbatim>\<open>MAX_PROPERTY_LENGTH\<close> bytes; \<open>None\<close> is a write outside of it.  Memory is taken to be available.
\<close>

definition MAX_PROPERTY_LENGTH :: nat where "MAX_PROPERTY_LENGTH = 255"

datatype fh_cfg_node =
  Cfg_Node (cfg_name: string) (cfg_children: "fh_cfg_node list") (cfg_values: "string list")

subsection \<open>Building a tree\<close>

text \<open>
  The nodes from the current one up to the root, each with its children and values so far.  A node that is
  still open becomes the last child of its parent when it is left.  \<open>cb_null\<close> is a current pointer
  of NULL, as at the start.
\<close>

record cfg_builder =
  cb_stack :: "(string \<times> fh_cfg_node list \<times> string list) list"
  cb_null :: bool
  popcount :: int

definition cfg_start :: cfg_builder where
  "cfg_start = \<lparr>cb_stack = [('''', [], [])], cb_null = True, popcount = 1\<rparr>"

definition fh_cfg_dequote_string :: "string \<Rightarrow> string" where
  "fh_cfg_dequote_string s =
    (let s = (if s \<noteq> [] \<and> last s = CHR 0x22 then butlast s else s)
     in if s \<noteq> [] \<and> hd s = CHR 0x22 then tl s else s)"

definition fh_cfg_prop_new :: "string \<Rightarrow> cfg_builder \<Rightarrow> cfg_builder option" where
  "fh_cfg_prop_new s b =
    (if length s \<ge> MAX_PROPERTY_LENGTH then None
     else Some (b\<lparr>cb_stack := (s, [], []) # cb_stack b, cb_null := False\<rparr>))"

definition cfg_parent :: "cfg_builder \<Rightarrow> cfg_builder option" where
  "cfg_parent b =
    (if cb_null b then None
     else case cb_stack b of
       (n, cs, vs) # (n', cs', vs') # rest \<Rightarrow> Some (b\<lparr>cb_stack := (n', cs' @ [Cfg_Node n cs vs], vs') # rest\<rparr>)
     | _ \<Rightarrow> Some (b\<lparr>cb_null := True\<rparr>))"

fun cfg_pop :: "nat \<Rightarrow> cfg_builder \<Rightarrow> cfg_builder option" where
  "cfg_pop 0 b = Some b"
| "cfg_pop (Suc k) b = Option.bind (cfg_parent b) (cfg_pop k)"

definition fh_cfg_prop_prev :: "cfg_builder \<Rightarrow> cfg_builder option" where
  "fh_cfg_prop_prev b = map_option (popcount_update (\<lambda>_. 1)) (cfg_pop (nat (popcount b)) b)"

definition fh_cfg_val_new :: "string \<Rightarrow> cfg_builder \<Rightarrow> cfg_builder option" where
  "fh_cfg_val_new val b =
    (if cb_null b then None
     else case cb_stack b of
       (n, cs, vs) # rest \<Rightarrow> Some (b\<lparr>cb_stack := (n, cs, vs @ [val]) # rest\<rparr>)
     | [] \<Rightarrow> None)"

text \<open>The derivation trees of the grammar.\<close>

datatype cfg_scalar = Plain string | Quoted string

datatype cfg_rvalue =
  Value cfg_scalar
| Array "cfg_rvalue list"
| Nested "(string list \<times> cfg_rvalue) list"

type_synonym cfg_assignment = "string list \<times> cfg_rvalue"

fun scalar_text :: "cfg_scalar \<Rightarrow> string" where
  "scalar_text (Plain s) = s"
| "scalar_text (Quoted s) = fh_cfg_dequote_string s"

text \<open>The properties of a left-hand side from left to right, then one increment for each period.\<close>

fun cfg_props :: "string list \<Rightarrow> cfg_builder \<Rightarrow> cfg_builder option" where
  "cfg_props [] b = Some b"
| "cfg_props (p # ps) b = Option.bind (fh_cfg_prop_new p b) (cfg_props ps)"

definition cfg_lvalue :: "string list \<Rightarrow> cfg_builder \<Rightarrow> cfg_builder option" where
  "cfg_lvalue ps b =
    map_option (\<lambda>b. b\<lparr>popcount := popcount b + int (length ps - 1)\<rparr>) (cfg_props ps b)"

fun exec_rvalue :: "cfg_rvalue \<Rightarrow> cfg_builder \<Rightarrow> cfg_builder option"
  and exec_rvalues :: "cfg_rvalue list \<Rightarrow> cfg_builder \<Rightarrow> cfg_builder option"
  and exec_assignments :: "cfg_assignment list \<Rightarrow> cfg_builder \<Rightarrow> cfg_builder option" where
  "exec_rvalue (Value v) b = fh_cfg_val_new (scalar_text v) b"
| "exec_rvalue (Array rs) b = exec_rvalues rs b"
| "exec_rvalue (Nested as) b = exec_assignments as b"
| "exec_rvalues [] b = Some b"
| "exec_rvalues (r # rs) b = Option.bind (exec_rvalue r b) (exec_rvalues rs)"
| "exec_assignments [] b = Some b"
| "exec_assignments ((ps, r) # as) b =
    do { b \<leftarrow> cfg_lvalue ps b;
         b \<leftarrow> exec_rvalue r b;
         b \<leftarrow> fh_cfg_prop_prev b;
         exec_assignments as b }"

text \<open>The root, with the nodes that are still open in place.\<close>

fun cfg_close :: "(string \<times> fh_cfg_node list \<times> string list) list \<Rightarrow> fh_cfg_node" where
  "cfg_close [] = Cfg_Node '''' [] []"
| "cfg_close [(n, cs, vs)] = Cfg_Node n cs vs"
| "cfg_close ((n, cs, vs) # (n', cs', vs') # rest) = cfg_close ((n', cs' @ [Cfg_Node n cs vs], vs') # rest)"

definition fh_cfg_load :: "cfg_assignment list \<Rightarrow> fh_cfg_node option" where
  "fh_cfg_load as = map_option (\<lambda>b. cfg_close (cb_stack b)) (exec_assignments as cfg_start)"

subsection \<open>Lookups\<close>

fun find_child :: "fh_cfg_node list \<Rightarrow> string \<Rightarrow> fh_cfg_node option" where
  "find_child [] name = None"
| "find_child (c # cs) name = (if cfg_name c = name then Some c else find_child cs name)"

definition fh_cfg_find_child :: "fh_cfg_node \<Rightarrow> string \<Rightarrow> fh_cfg_node option" where
  "fh_cfg_find_child node name = find_child (cfg_children node) name"

fun strchr :: "string \<Rightarrow> char \<Rightarrow> nat option" where
  "strchr [] c = None"
| "strchr (x # xs) c = (if x = c then Some 0 else map_option Suc (strchr xs c))"

lemma strchr_less: "strchr s c = Some k \<Longrightarrow> k < length s"
  by (induction s arbitrary: k) (auto split: if_splits)

function fh_cfg_get_node :: "fh_cfg_node \<Rightarrow> string \<Rightarrow> fh_cfg_node option option" where
  "fh_cfg_get_node node remains =
    (case strchr remains CHR ''.'' of
       None \<Rightarrow> Some (fh_cfg_find_child node remains)
     | Some k \<Rightarrow>
         if k \<ge> MAX_PROPERTY_LENGTH then None
         else (case fh_cfg_find_child node (take k remains) of
             None \<Rightarrow> Some None
           | Some c \<Rightarrow> fh_cfg_get_node c (drop (Suc k) remains)))"
  by pat_completeness auto
termination
  by (relation "measure (\<lambda>(_, s). length s)") (auto dest: strchr_less)

declare fh_cfg_get_node.simps [simp del]

definition fh_cfg_get_string :: "fh_cfg_node \<Rightarrow> string \<Rightarrow> string option option" where
  "fh_cfg_get_string config path =
    map_option (\<lambda>node. case node of
        None \<Rightarrow> None
      | Some node \<Rightarrow> (case cfg_values node of [] \<Rightarrow> None | v # _ \<Rightarrow> Some v))
     (fh_cfg_get_node config path)"

definition fh_cfg_get_array :: "fh_cfg_node \<Rightarrow> string \<Rightarrow> string list option option" where
  "fh_cfg_get_array config path = map_option (map_option cfg_values) (fh_cfg_get_node config path)"

subsection \<open>Typed properties\<close>

text \<open>The character at an index of a C string, with its terminator.\<close>

definition c_char :: "string \<Rightarrow> nat \<Rightarrow> char" where
  "c_char s i = (if i < length s then s ! i else CHR 0x00)"

definition fh_cfg_set_yesno :: "fh_cfg_node \<Rightarrow> string \<Rightarrow> u8 \<Rightarrow> (u8 \<times> fh_status) option" where
  "fh_cfg_set_yesno config property val =
    map_option (\<lambda>str. case str of
        None \<Rightarrow> (val, FH_ERR_NOTFOUND)
      | Some s \<Rightarrow>
          if (c_char s 0 = CHR ''y'' \<or> c_char s 0 = CHR ''Y'') \<and> (c_char s 1 = CHR ''e'' \<or> c_char s 1 = CHR ''E'') \<and>
             (c_char s 2 = CHR ''s'' \<or> c_char s 2 = CHR ''S'') then (1, FH_OK)
          else if (c_char s 0 = CHR ''n'' \<or> c_char s 0 = CHR ''N'') \<and> (c_char s 1 = CHR ''o'' \<or> c_char s 1 = CHR ''O'')
          then (0, FH_OK)
          else (val, FH_ERROR))
     (fh_cfg_get_string config property)"

text \<open>
  \<^verbatim>\<open>strtoul\<close> of the C library with base 0 on a 64-bit machine: white space, a sign, a prefix that gives the base,
  the longest run of digits; the value, and what follows (all of the string when there is no digit).
\<close>

definition c_space :: "char \<Rightarrow> bool" where
  "c_space c \<longleftrightarrow> of_char c \<in> {9, 10, 11, 12, 13, 32 :: nat}"

definition c_digit :: "char \<Rightarrow> nat" where
  "c_digit c =
    (let n = of_char c in
     if 48 \<le> n \<and> n \<le> 57 then n - 48
     else if 97 \<le> n \<and> n \<le> 122 then n - 87
     else if 65 \<le> n \<and> n \<le> 90 then n - 55
     else 36)"

definition strtoul_base :: "string \<Rightarrow> nat \<times> string" where
  "strtoul_base s =
    (if c_char s 0 = CHR ''0'' \<and> (c_char s 1 = CHR ''x'' \<or> c_char s 1 = CHR ''X'') \<and> c_digit (c_char s 2) < 16 then (16, drop 2 s)
     else if c_char s 0 = CHR ''0'' then (8, s)
     else (10, s))"

definition strtoul :: "string \<Rightarrow> u64 \<times> string" where
  "strtoul s =
    (let t = dropWhile c_space s;
         neg = (c_char t 0 = CHR ''-'');
         t = (if neg \<or> c_char t 0 = CHR ''+'' then tl t else t);
         (base, t) = strtoul_base t;
         ds = takeWhile (\<lambda>c. c_digit c < base) t;
         v = foldl (\<lambda>v c. v * base + c_digit c) 0 ds
     in if ds = [] then (0, s)
        else (if v \<ge> 2 ^ 64 then - 1 else if neg then - of_nat v else of_nat v, drop (length ds) t))"

text \<open>The setters of 32-bit, 16-bit and \<^verbatim>\<open>int\<close> properties differ in the type the value is cast to.\<close>

definition cfg_set_number :: "(u64 \<Rightarrow> 'a) \<Rightarrow> fh_cfg_node \<Rightarrow> string \<Rightarrow> 'a \<Rightarrow> ('a \<times> fh_status) option" where
  "cfg_set_number cast config property val =
    map_option (\<lambda>str. case str of
        None \<Rightarrow> (val, FH_ERR_NOTFOUND)
      | Some s \<Rightarrow>
          let (v, rest) = strtoul s
          in if s = [] \<or> rest \<noteq> [] then (val, FH_ERROR) else (cast v, FH_OK))
     (fh_cfg_get_string config property)"

definition fh_cfg_set_uint32 :: "fh_cfg_node \<Rightarrow> string \<Rightarrow> u32 \<Rightarrow> (u32 \<times> fh_status) option" where
  "fh_cfg_set_uint32 = cfg_set_number ucast"

definition fh_cfg_set_uint16 :: "fh_cfg_node \<Rightarrow> string \<Rightarrow> u16 \<Rightarrow> (u16 \<times> fh_status) option" where
  "fh_cfg_set_uint16 = cfg_set_number ucast"

definition fh_cfg_set_int :: "fh_cfg_node \<Rightarrow> string \<Rightarrow> int \<Rightarrow> (int \<times> fh_status) option" where
  "fh_cfg_set_int = cfg_set_number (\<lambda>v. sint (ucast v :: u32))"

subsection \<open>The tree a configuration denotes\<close>

fun cfg_chain :: "string list \<Rightarrow> fh_cfg_node list \<Rightarrow> string list \<Rightarrow> fh_cfg_node" where
  "cfg_chain [] cs vs = Cfg_Node '''' cs vs"
| "cfg_chain [p] cs vs = Cfg_Node p cs vs"
| "cfg_chain (p # q # ps) cs vs = Cfg_Node p [cfg_chain (q # ps) cs vs] []"

fun den_children :: "cfg_rvalue \<Rightarrow> fh_cfg_node list" and den_values :: "cfg_rvalue \<Rightarrow> string list" where
  "den_children (Value v) = []"
| "den_children (Array rs) = concat (map den_children rs)"
| "den_children (Nested as) = map (\<lambda>(ps, r). cfg_chain ps (den_children r) (den_values r)) as"
| "den_values (Value v) = [scalar_text v]"
| "den_values (Array rs) = concat (map den_values rs)"
| "den_values (Nested as) = []"

definition den_assignment :: "cfg_assignment \<Rightarrow> fh_cfg_node" where
  "den_assignment a = cfg_chain (fst a) (den_children (snd a)) (den_values (snd a))"

text \<open>
  Left-hand sides that the builder gets right: names that fit, and a dotted one only where the right-hand side
  has no assignment of its own.
\<close>

fun cfg_assigns :: "cfg_rvalue \<Rightarrow> bool" where
  "cfg_assigns (Value v) \<longleftrightarrow> False"
| "cfg_assigns (Array rs) \<longleftrightarrow> (\<exists>r\<in>set rs. cfg_assigns r)"
| "cfg_assigns (Nested as) \<longleftrightarrow> as \<noteq> []"

fun cfg_regular :: "cfg_rvalue \<Rightarrow> bool" where
  "cfg_regular (Value v) \<longleftrightarrow> True"
| "cfg_regular (Array rs) \<longleftrightarrow> (\<forall>r\<in>set rs. cfg_regular r)"
| "cfg_regular (Nested as) \<longleftrightarrow> (\<forall>(ps, r)\<in>set as. ps \<noteq> [] \<and> (\<forall>p\<in>set ps. length p < MAX_PROPERTY_LENGTH) \<and>
     cfg_regular r \<and> (length ps > 1 \<longrightarrow> \<not> cfg_assigns r))"

lemma cfg_props_stack:
  assumes "\<forall>p\<in>set ps. length p < MAX_PROPERTY_LENGTH" and "ps \<noteq> []"
  shows "cfg_props ps b = Some (b\<lparr>cb_stack := rev (map (\<lambda>p. (p, [], [])) ps) @ cb_stack b, cb_null := False\<rparr>)"
  using assms
proof (induction ps arbitrary: b)
  case (Cons p ps)
  then show ?case by (cases "ps = []") (auto simp: fh_cfg_prop_new_def)
qed simp

lemma cfg_chain_snoc: "cfg_chain (ps @ [p]) cs vs = foldr (\<lambda>q node. Cfg_Node q [node] []) ps (Cfg_Node p cs vs)"
proof (induction ps)
  case (Cons q ps)
  then show ?case by (cases ps) auto
qed simp

lemma cfg_pop_chain:
  assumes "cb_stack b = (p, cs, vs) # map (\<lambda>q. (q, [], [])) qs @ (n, cs0, vs0) # rest" and "\<not> cb_null b"
  shows "cfg_pop (Suc (length qs)) b = Some (b\<lparr>cb_stack := (n, cs0 @ [cfg_chain (rev (p # qs)) cs vs], vs0) # rest\<rparr>)"
  using assms
proof (induction qs arbitrary: p cs vs b)
  case (Cons q qs)
  have "cfg_parent b = Some (b\<lparr>cb_stack := (q, [Cfg_Node p cs vs], []) # map (\<lambda>q. (q, [], [])) qs @ (n, cs0, vs0) # rest\<rparr>)"
    using Cons.prems by (simp add: cfg_parent_def)
  then show ?case using Cons.IH [of "b\<lparr>cb_stack := (q, [Cfg_Node p cs vs], []) # map (\<lambda>q. (q, [], [])) qs @ (n, cs0, vs0) # rest\<rparr>"]
      Cons.prems(2) cfg_chain_snoc [of "rev qs @ [q]" p] cfg_chain_snoc [of "rev qs" q]
    by simp
qed (simp add: cfg_parent_def)

text \<open>The builder inside the last property of a left-hand side.\<close>

definition cfg_inside :: "string list \<Rightarrow> fh_cfg_node list \<Rightarrow> string list \<Rightarrow> cfg_builder \<Rightarrow> cfg_builder" where
  "cfg_inside ps cs vs b = b\<lparr>cb_stack := (last ps, cs, vs) # map (\<lambda>q. (q, [], [])) (rev (butlast ps)) @ cb_stack b,
     cb_null := False, popcount := int (length ps)\<rparr>"

lemma cfg_lvalue_opens:
  assumes "ps \<noteq> []" and "\<forall>p\<in>set ps. length p < MAX_PROPERTY_LENGTH" and "popcount b = 1"
  shows "cfg_lvalue ps b = Some (cfg_inside ps [] [] b)"
proof -
  obtain qs p where "ps = qs @ [p]" using assms(1) by (metis rev_exhaust)
  then show ?thesis
    unfolding cfg_lvalue_def cfg_inside_def cfg_props_stack [OF assms(2,1)] using assms(3) by (simp add: rev_map)
qed

lemma cfg_prop_prev_closes:
  assumes "ps \<noteq> []" and "cb_stack b = (n, cs0, vs0) # rest" and "popcount b = 1"
  shows "fh_cfg_prop_prev (cfg_inside ps cs vs b) =
    Some (b\<lparr>cb_stack := (n, cs0 @ [cfg_chain ps cs vs], vs0) # rest, cb_null := False\<rparr>)"
proof -
  obtain qs p where q: "ps = qs @ [p]" using assms(1) by (metis rev_exhaust)
  have "cfg_pop (Suc (length (rev qs))) (cfg_inside ps cs vs b) = Some ((cfg_inside ps cs vs b)\<lparr>cb_stack :=
      (n, cs0 @ [cfg_chain (rev (p # rev qs)) cs vs], vs0) # rest\<rparr>)"
    by (rule cfg_pop_chain) (use assms(2) in \<open>simp_all add: cfg_inside_def q\<close>)
  moreover have "nat (popcount (cfg_inside ps cs vs b)) = Suc (length (rev qs))" by (simp add: cfg_inside_def q)
  ultimately show ?thesis
    using assms(3) by (cases b) (simp add: fh_cfg_prop_prev_def cfg_inside_def q del: cfg_pop.simps)
qed

lemma cfg_builds:
  shows "cfg_regular r \<Longrightarrow> (cfg_assigns r \<longrightarrow> popcount b = 1) \<Longrightarrow> \<not> cb_null b \<Longrightarrow> cb_stack b = (n, cs, vs) # rest \<Longrightarrow>
      exec_rvalue r b = Some (b\<lparr>cb_stack := (n, cs @ den_children r, vs @ den_values r) # rest\<rparr>)"
    and "\<forall>r\<in>set rs. cfg_regular r \<Longrightarrow> ((\<exists>r\<in>set rs. cfg_assigns r) \<longrightarrow> popcount b = 1) \<Longrightarrow> \<not> cb_null b \<Longrightarrow>
      cb_stack b = (n, cs, vs) # rest \<Longrightarrow>
      exec_rvalues rs b = Some (b\<lparr>cb_stack := (n, cs @ concat (map den_children rs), vs @ concat (map den_values rs)) # rest\<rparr>)"
    and "cfg_regular (Nested as) \<Longrightarrow> (as \<noteq> [] \<longrightarrow> popcount b = 1) \<Longrightarrow> cb_stack b = (n, cs, vs) # rest \<Longrightarrow>
      exec_assignments as b = Some (b\<lparr>cb_stack := (n, cs @ map den_assignment as, vs) # rest, cb_null := (as = [] \<and> cb_null b)\<rparr>)"
proof (induction r b and rs b and as b arbitrary: n cs vs rest and n cs vs rest and n cs vs rest
    rule: exec_rvalue_exec_rvalues_exec_assignments.induct)
  case (1 v b)
  then show ?case by (simp add: fh_cfg_val_new_def)
next
  case (2 rs b)
  then show ?case by simp
next
  case (3 as b)
  have "map (\<lambda>(ps, r). cfg_chain ps (den_children r) (den_values r)) as = map den_assignment as"
    by (simp add: den_assignment_def split_beta)
  then show ?case using 3 by simp
next
  case (5 r rs b)
  have "exec_rvalue r b = Some (b\<lparr>cb_stack := (n, cs @ den_children r, vs @ den_values r) # rest\<rparr>)"
    using "5.IH"(1) 5(3-) by simp
  then show ?case using "5.IH"(2) [of "b\<lparr>cb_stack := (n, cs @ den_children r, vs @ den_values r) # rest\<rparr>"] 5(3-) by simp
next
  case (7 ps r as b)
  have reg: "ps \<noteq> []" "\<forall>p\<in>set ps. length p < MAX_PROPERTY_LENGTH" "cfg_regular r" "length ps > 1 \<longrightarrow> \<not> cfg_assigns r"
    "cfg_regular (Nested as)"
    using 7(3-) by auto
  have b: "popcount b = 1" "cb_stack b = (n, cs, vs) # rest" using "7.prems" by simp_all
  let ?b1 = "cfg_inside ps [] [] b" and ?b2 = "cfg_inside ps (den_children r) (den_values r) b"
  have l: "cfg_lvalue ps b = Some ?b1" using cfg_lvalue_opens reg(1,2) b(1) .
  have "length ps \<noteq> 1 \<longrightarrow> \<not> cfg_assigns r" using reg(1,4) by (cases ps) auto
  then have r: "exec_rvalue r ?b1 = Some ?b2"
    using "7.IH"(1) [OF l reg(3)] by (auto simp: cfg_inside_def)
  let ?b3 = "b\<lparr>cb_stack := (n, cs @ [den_assignment (ps, r)], vs) # rest, cb_null := False\<rparr>"
  have p: "fh_cfg_prop_prev ?b2 = Some ?b3"
    unfolding cfg_prop_prev_closes [OF reg(1) b(2,1)] by (simp add: den_assignment_def)
  show ?case using "7.IH"(2) [OF l r p reg(5)] b(1) by (simp add: l r p)
qed simp_all

subsection \<open>Properties\<close>



text \<open>
  The levels of a dotted left-hand side are left at the end of the first assignment inside its block, so the
  second one ends up one level too high.
\<close>

lemma cfg_dotted_block_misplaced:
  assumes "length a < MAX_PROPERTY_LENGTH" and "length b < MAX_PROPERTY_LENGTH" and "length c < MAX_PROPERTY_LENGTH"
    and "length d < MAX_PROPERTY_LENGTH"
  shows "fh_cfg_load [([a, b], Nested [([c], Value x), ([d], Value y)])] =
    Some (Cfg_Node '''' [Cfg_Node a [Cfg_Node b [Cfg_Node c [] [scalar_text x]] [], Cfg_Node d [] [scalar_text y]] []] [])"
  using assms
  by (simp add: fh_cfg_load_def cfg_start_def cfg_lvalue_def fh_cfg_prop_new_def fh_cfg_val_new_def fh_cfg_prop_prev_def
      cfg_parent_def numeral_2_eq_2)

text \<open>Walking down from a node by names: the reference for paths.\<close>

fun cfg_descend :: "fh_cfg_node \<Rightarrow> string list \<Rightarrow> fh_cfg_node option" where
  "cfg_descend node [] = Some node"
| "cfg_descend node (s # ss) = Option.bind (fh_cfg_find_child node s) (\<lambda>c. cfg_descend c ss)"

fun cfg_path :: "string list \<Rightarrow> string" where
  "cfg_path [] = ''''"
| "cfg_path [s] = s"
| "cfg_path (s # t # ss) = s @ CHR ''.'' # cfg_path (t # ss)"

lemma strchr_none: "CHR ''.'' \<notin> set s \<Longrightarrow> strchr s CHR ''.'' = None"
  by (induction s) auto

lemma strchr_first: "CHR ''.'' \<notin> set s \<Longrightarrow> strchr (s @ CHR ''.'' # t) CHR ''.'' = Some (length s)"
  by (induction s) auto

text \<open>
  A lookup by a dotted path finds the node that walking down by the names between the dots finds; only a name
  that is not the last one and does not fit the array is a fault.
\<close>

lemma cfg_get_node_descends:
  assumes "segs \<noteq> []" and "\<forall>s\<in>set segs. CHR ''.'' \<notin> set s" and "\<forall>s\<in>set (butlast segs). length s < MAX_PROPERTY_LENGTH"
  shows "fh_cfg_get_node node (cfg_path segs) = Some (cfg_descend node segs)"
  using assms
proof (induction segs arbitrary: node rule: cfg_path.induct)
  case (2 s)
  then show ?case by (simp add: fh_cfg_get_node.simps strchr_none)
next
  case (3 s t ss)
  have k: "strchr (cfg_path (s # t # ss)) CHR ''.'' = Some (length s)" using "3.prems" by (simp add: strchr_first)
  then show ?case using "3.IH" "3.prems" by (subst fh_cfg_get_node.simps) (auto split: option.splits)
qed simp

text \<open>Decimal numbers.\<close>

definition dec_string :: "nat \<Rightarrow> string" where
  "dec_string n = map (\<lambda>d. char_of (48 + d)) (dec_digits n)"

lemma dec_char: "d < 10 \<Longrightarrow> of_char (char_of (48 + d :: nat)) = (48 + d :: nat)"
  by (simp add: of_char_of)

lemma c_digit_dec: "d < 10 \<Longrightarrow> c_digit (char_of (48 + d)) = d"
  by (simp add: c_digit_def dec_char Let_def)

lemma hd_dec_digits: "n \<ge> 1 \<Longrightarrow> hd (dec_digits n) \<noteq> 0"
  by (induction n rule: dec_digits.induct) (subst dec_digits.simps, auto simp: hd_append)

lemma strtoul_dec:
  assumes "n < 2 ^ 64"
  shows "strtoul (dec_string n) = (of_nat n, [])"
proof -
  let ?s = "dec_string n"
  have ne: "?s \<noteq> []" by (simp add: dec_string_def)
  obtain d ds where d: "dec_digits n = d # ds" using dec_digits_nonempty by (cases "dec_digits n") auto
  have lt: "e < 10" if "e \<in> set (dec_digits n)" for e using dec_digits_lt that .
  have c0: "c_char ?s 0 = char_of (48 + d)" "d < 10" using d lt by (auto simp: c_char_def dec_string_def)
  have oc: "of_char (c_char ?s 0) = 48 + d" using c0 dec_char by simp
  have sign: "c_char ?s 0 \<noteq> CHR ''-''" "c_char ?s 0 \<noteq> CHR ''+''" "\<not> c_space (c_char ?s 0)"
    using oc c0(2) by (auto simp: c_space_def)
  then have t: "dropWhile c_space ?s = ?s" using d by (simp add: dec_string_def c_char_def)
  have zero: "n = 0" if "c_char ?s 0 = CHR ''0''"
    using that oc hd_dec_digits [of n] d by (cases "n = 0") auto
  have base: "strtoul_base ?s = (if n = 0 then 8 else 10, ?s)"
  proof (cases "n = 0")
    case True
    have "char_of (48 :: nat) = CHR ''0''" using char_of_char [of "CHR ''0''"] by simp
    then have "?s = ''0''" using True by (simp add: dec_string_def dec_digits.simps)
    then show ?thesis using True by (simp add: strtoul_base_def c_char_def)
  next
    case False
    then show ?thesis using zero by (auto simp: strtoul_base_def)
  qed
  let ?b = "if n = 0 then 8 else 10 :: nat"
  have "c_digit c < ?b" if "c \<in> set ?s" for c
  proof (cases "n = 0")
    case True
    then show ?thesis using that c_digit_dec [of 0] by (auto simp: dec_string_def dec_digits.simps)
  next
    case False
    then show ?thesis using that lt by (auto simp: dec_string_def c_digit_dec)
  qed
  then have w: "takeWhile (\<lambda>c. c_digit c < ?b) ?s = ?s" by (simp add: takeWhile_eq_all_conv)
  have "foldl (\<lambda>v c. v * ?b + c_digit c) 0 ?s = n"
  proof (cases "n = 0")
    case True
    then show ?thesis using c_digit_dec [of 0] by (simp add: dec_string_def dec_digits.simps)
  next
    case False
    have "foldl (\<lambda>v c. v * 10 + c_digit c) v (map (\<lambda>d. char_of (48 + d)) xs) = foldl (\<lambda>v d. 10 * v + d) v xs"
      if "\<forall>e\<in>set xs. e < 10" for v xs
      using that by (induction xs arbitrary: v) (auto simp: c_digit_dec mult.commute)
    then show ?thesis using False lt digits_val_dec [of n] by (simp add: dec_string_def digits_val_def)
  qed
  with w base obtain B where B: "strtoul_base ?s = (B, ?s)" "takeWhile (\<lambda>c. c_digit c < B) ?s = ?s"
    "foldl (\<lambda>v c. v * B + c_digit c) 0 ?s = n" by blast
  have "(if c_char ?s 0 = CHR ''-'' \<or> c_char ?s 0 = CHR ''+'' then tl ?s else ?s) = ?s" using sign by simp
  then show ?thesis
    using sign(1) ne assms unfolding strtoul_def t Let_def by (simp only: B prod.case if_False) simp
qed

lemma cfg_set_number_dec:
  assumes "fh_cfg_get_string config path = Some (Some (dec_string n))" and "n < 2 ^ 64"
  shows "cfg_set_number cast config path v = Some (cast (of_nat n), FH_OK)"
proof -
  have "dec_string n \<noteq> []" by (simp add: dec_string_def)
  then show ?thesis using assms by (simp add: cfg_set_number_def strtoul_dec)
qed

lemma sint_of_nat_small: "n < 2 ^ 31 \<Longrightarrow> sint (of_nat n :: u32) = int n"
  using sint_small [of "of_nat n"] by (simp add: unat_of_nat)

lemma ucast_of_nat_u64:
  "n < 2 ^ 64 \<Longrightarrow> (ucast (of_nat n :: u64) :: u32) = of_nat n" "n < 2 ^ 64 \<Longrightarrow> (ucast (of_nat n :: u64) :: u16) = of_nat n"
  by (simp_all add: unsigned_of_nat take_bit_nat_eq_self)

text \<open>
  A decimal number is read back from a configuration: exactly when it fits the type, and modulo its size
  otherwise, without an error.
\<close>

lemma cfg_numbers_read:
  assumes "fh_cfg_get_string config path = Some (Some (dec_string n))" and "n < 2 ^ 64"
  shows "fh_cfg_set_uint32 config path v = Some (of_nat n, FH_OK)"
    and "fh_cfg_set_uint16 config path w = Some (of_nat n, FH_OK)"
    and "n < 2 ^ 31 \<Longrightarrow> fh_cfg_set_int config path i = Some (int n, FH_OK)"
  using assms
  by (simp_all add: fh_cfg_set_uint32_def fh_cfg_set_uint16_def fh_cfg_set_int_def cfg_set_number_dec ucast_of_nat_u64
      sint_of_nat_small)

end
