(* ===== verification/CfgLoad.thy ===== *)
theory CfgLoad
  imports Config
begin

section \<open>Loading a line handler's configuration (\<^verbatim>\<open>feeds/shared/config\<close>)\<close>

text \<open>
  The structures that a line handler is started with are filled from the configuration tree: tables
  (\<^verbatim>\<open>fh_shr_cfg_table.c\<close>), connections, lines and processes (\<^verbatim>\<open>fh_shr_cfg_lh.c\<close>).  Parameters are \<^verbatim>\<open>inet_aton\<close>, whether
  \<^verbatim>\<open>realloc\<close> of the array of lines succeeds (from the number of lines before), and the plugin that may change the
  configuration.  A string that does not fit its array is a fault (\<open>None\<close>).  The back pointers and
  contexts of the structures, which the loader does not use, are left out.
\<close>

record cfg_tbl =
  ct_name :: string
  ct_enabled :: u8
  ct_size :: u32

record cfg_conn =
  cc_enabled :: u8
  cc_port :: u16
  cc_address :: u32
  cc_interface :: string

record cfg_line =
  cl_name :: string
  cl_primary :: cfg_conn
  cl_secondary :: cfg_conn

record cfg_proc =
  cp_name :: string
  cp_cpu :: int
  cp_lines :: "cfg_line list"
  cp_gap_list_max :: int
  cp_gap_timeout :: int
  cp_symbol_table :: cfg_tbl
  cp_order_table :: cfg_tbl

definition tbl_zero :: cfg_tbl where "tbl_zero = \<lparr>ct_name = '''', ct_enabled = 0, ct_size = 0\<rparr>"
definition conn_zero :: cfg_conn where "conn_zero = \<lparr>cc_enabled = 0, cc_port = 0, cc_address = 0, cc_interface = ''''\<rparr>"
definition proc_zero :: cfg_proc where
  "proc_zero = \<lparr>cp_name = '''', cp_cpu = 0, cp_lines = [], cp_gap_list_max = 0, cp_gap_timeout = 0,
     cp_symbol_table = tbl_zero, cp_order_table = tbl_zero\<rparr>"

text \<open>\<^verbatim>\<open>strcpy\<close> into an array of \<^verbatim>\<open>MAX_PROPERTY_LENGTH\<close> bytes.\<close>

definition cfg_strcpy :: "string \<Rightarrow> string option" where
  "cfg_strcpy s = (if length s < MAX_PROPERTY_LENGTH then Some s else None)"

definition fh_shr_cfg_tbl_load :: "fh_cfg_node \<Rightarrow> string \<Rightarrow> (cfg_tbl \<times> fh_status) option" where
  "fh_shr_cfg_tbl_load cfg name = do {
     node \<leftarrow> fh_cfg_get_node cfg name;
     (case node of
        None \<Rightarrow> Some (tbl_zero, FH_ERR_NOTFOUND)
      | Some tbl_node \<Rightarrow> do {
          s \<leftarrow> cfg_strcpy (cfg_name tbl_node);
          (sz, rc) \<leftarrow> fh_cfg_set_uint32 tbl_node ''size'' 0;
          let tbl = tbl_zero\<lparr>ct_name := s, ct_size := sz\<rparr>;
          if rc = FH_OK then Some (tbl\<lparr>ct_enabled := 1\<rparr>, FH_OK)
          else if rc = FH_ERR_NOTFOUND then Some (tbl, FH_ERR_NOTFOUND)
          else Some (tbl, FH_ERROR)
        })
   }"

definition conn_endpoint :: "(string \<Rightarrow> u32 option) \<Rightarrow> fh_cfg_node \<Rightarrow> cfg_conn \<Rightarrow> (cfg_conn \<times> fh_status) option" where
  "conn_endpoint inet_aton node conn = do {
     property \<leftarrow> fh_cfg_get_string node ''address'';
     (case Option.bind property inet_aton of
        None \<Rightarrow> Some (conn, FH_ERROR)
      | Some address \<Rightarrow> do {
          (port, rc) \<leftarrow> fh_cfg_set_uint16 node ''port'' (cc_port conn);
          let conn = conn\<lparr>cc_address := address, cc_port := port\<rparr>;
          if rc = FH_ERR_NOTFOUND then Some (conn, FH_ERR_NOTFOUND)
          else if rc \<noteq> FH_OK then Some (conn, FH_ERROR)
          else do {
            property \<leftarrow> fh_cfg_get_string node ''interface'';
            (case property of
               None \<Rightarrow> Some (conn, FH_ERR_NOTFOUND)
             | Some s \<Rightarrow> do {
                 s \<leftarrow> cfg_strcpy s;
                 Some (conn\<lparr>cc_interface := s, cc_enabled := 1\<rparr>, FH_OK)
               })
          }
        })
   }"

definition add_connection ::
  "(string \<Rightarrow> u32 option) \<Rightarrow> fh_cfg_node \<Rightarrow> string \<Rightarrow> cfg_conn \<Rightarrow> (cfg_conn \<times> fh_status) option" where
  "add_connection inet_aton config name conn = do {
     node \<leftarrow> fh_cfg_get_node config name;
     (case node of
        None \<Rightarrow> Some (conn\<lparr>cc_enabled := 0\<rparr>, FH_OK)
      | Some node \<Rightarrow> do {
          (enabled, rc) \<leftarrow> fh_cfg_set_yesno node ''enabled'' (cc_enabled conn);
          let conn = conn\<lparr>cc_enabled := enabled\<rparr>;
          if rc = FH_OK then if enabled = 0 then Some (conn, FH_OK) else conn_endpoint inet_aton node conn
          else if rc = FH_ERR_NOTFOUND then Some (conn, FH_ERR_NOTFOUND)
          else Some (conn, FH_ERROR)
        })
   }"

definition add_line ::
  "(string \<Rightarrow> u32 option) \<Rightarrow> (nat \<Rightarrow> bool) \<Rightarrow> fh_cfg_node \<Rightarrow> string \<Rightarrow> cfg_proc \<Rightarrow> (cfg_proc \<times> fh_status) option" where
  "add_line inet_aton realloc_ok config name lh_config = do {
     lines_node \<leftarrow> fh_cfg_get_node config ''lines'';
     (case lines_node of
        None \<Rightarrow> Some (lh_config, FH_ERROR)
      | Some lines_node \<Rightarrow> do {
          line_node \<leftarrow> fh_cfg_get_node lines_node name;
          (case line_node of
             None \<Rightarrow> Some (lh_config, FH_ERROR)
           | Some line_node \<Rightarrow>
               if \<not> realloc_ok (length (cp_lines lh_config)) then Some (lh_config\<lparr>cp_lines := []\<rparr>, FH_ERROR)
               else do {
                 s \<leftarrow> cfg_strcpy name;
                 (primary, rc) \<leftarrow> add_connection inet_aton line_node ''primary'' conn_zero;
                 let line = \<lparr>cl_name = s, cl_primary = primary, cl_secondary = conn_zero\<rparr>;
                 if rc \<noteq> FH_OK then Some (lh_config\<lparr>cp_lines := cp_lines lh_config @ [line]\<rparr>, FH_ERROR)
                 else do {
                   (secondary, rc) \<leftarrow> add_connection inet_aton line_node ''secondary'' conn_zero;
                   let lh_config = lh_config\<lparr>cp_lines := cp_lines lh_config @ [line\<lparr>cl_secondary := secondary\<rparr>]\<rparr>;
                   Some (lh_config, if rc \<noteq> FH_OK then FH_ERROR else FH_OK)
                 }
               })
        })
   }"

fun add_lines ::
  "(string \<Rightarrow> u32 option) \<Rightarrow> (nat \<Rightarrow> bool) \<Rightarrow> fh_cfg_node \<Rightarrow> string list \<Rightarrow> cfg_proc \<Rightarrow> (cfg_proc \<times> fh_status) option" where
  "add_lines inet_aton realloc_ok config [] lh_config = Some (lh_config, FH_OK)"
| "add_lines inet_aton realloc_ok config (name # names) lh_config = do {
     (lh_config, rc) \<leftarrow> add_line inet_aton realloc_ok config name lh_config;
     if rc \<noteq> FH_OK then Some (lh_config, FH_ERROR)
     else add_lines inet_aton realloc_ok config names lh_config
   }"

text \<open>An \<^verbatim>\<open>int\<close> property with a default for a missing or invalid one.\<close>

definition int_or_default :: "fh_cfg_node \<Rightarrow> string \<Rightarrow> int \<Rightarrow> int option" where
  "int_or_default node property dflt =
    map_option (\<lambda>(v, rc). if rc = FH_OK then v else dflt) (fh_cfg_set_int node property 0)"

definition fh_shr_cfg_lh_load ::
  "(string \<Rightarrow> u32 option) \<Rightarrow> (nat \<Rightarrow> bool) \<Rightarrow> (cfg_proc \<Rightarrow> cfg_proc \<times> fh_status) option \<Rightarrow>
   string \<Rightarrow> string \<Rightarrow> fh_cfg_node \<Rightarrow> (cfg_proc \<times> fh_status) option" where
  "fh_shr_cfg_lh_load inet_aton realloc_ok hook process root config = do {
     let lh_config = proc_zero;
     top_node \<leftarrow> fh_cfg_get_node config root;
     (case top_node of
        None \<Rightarrow> Some (lh_config, FH_ERROR)
      | Some top_node \<Rightarrow> do {
          process_node_name \<leftarrow> cfg_strcpy (''processes.'' @ process);
          process_node \<leftarrow> fh_cfg_get_node top_node process_node_name;
          (case process_node of
             None \<Rightarrow> Some (lh_config, FH_ERROR)
           | Some process_node \<Rightarrow> do {
               name \<leftarrow> cfg_strcpy (cfg_name process_node);
               cpu \<leftarrow> int_or_default process_node ''cpu'' (-1);
               gap_list_max \<leftarrow> int_or_default top_node ''fill_gaps.max'' 0;
               gap_timeout \<leftarrow> int_or_default top_node ''fill_gaps.timeout'' 0;
               (symbol_table, _) \<leftarrow> fh_shr_cfg_tbl_load top_node ''symbol_table'';
               (order_table, _) \<leftarrow> fh_shr_cfg_tbl_load top_node ''order_table'';
               let lh_config = lh_config\<lparr>cp_name := name, cp_cpu := cpu, cp_gap_list_max := gap_list_max,
                 cp_gap_timeout := gap_timeout, cp_symbol_table := symbol_table, cp_order_table := order_table\<rparr>;
               lines_node \<leftarrow> fh_cfg_get_node process_node ''lines'';
               (case lines_node of
                  None \<Rightarrow> Some (lh_config, FH_ERROR)
                | Some lines_node \<Rightarrow> do {
                    (lh_config, rc) \<leftarrow> add_lines inet_aton realloc_ok top_node (cfg_values lines_node) lh_config;
                    Some (if rc \<noteq> FH_OK then (lh_config, FH_ERROR)
                          else case hook of None \<Rightarrow> (lh_config, FH_OK) | Some f \<Rightarrow> f lh_config)
                  })
             })
        })
   }"

text \<open>An empty process name is replaced by that of the first process.\<close>

definition fh_shr_cfg_lh_get_proc :: "string \<Rightarrow> string \<Rightarrow> fh_cfg_node \<Rightarrow> (string \<times> fh_status) option" where
  "fh_shr_cfg_lh_get_proc proc root config = do {
     node_name \<leftarrow> cfg_strcpy (root @ ''.processes'');
     node \<leftarrow> fh_cfg_get_node config node_name;
     if proc = [] then
       Some (case node of
           None \<Rightarrow> (proc, FH_ERROR)
         | Some node \<Rightarrow> (case cfg_children node of [] \<Rightarrow> (proc, FH_ERROR) | c # _ \<Rightarrow> (cfg_name c, FH_OK)))
     else do {
       node \<leftarrow> node;
       found \<leftarrow> fh_cfg_get_node node proc;
       Some (proc, if found = None then FH_ERROR else FH_OK)
     }
   }"

subsection \<open>Writing a configuration\<close>

text \<open>The tree that describes a process, with addresses written by \<open>ntoa\<close>.\<close>

definition cfg_leaf :: "string \<Rightarrow> string \<Rightarrow> fh_cfg_node" where
  "cfg_leaf name v = Cfg_Node name [] [v]"

definition conn_tree :: "(u32 \<Rightarrow> string) \<Rightarrow> string \<Rightarrow> cfg_conn \<Rightarrow> fh_cfg_node" where
  "conn_tree ntoa name c =
    Cfg_Node name
      (if cc_enabled c = 0 then [cfg_leaf ''enabled'' ''no'']
       else [cfg_leaf ''enabled'' ''yes'', cfg_leaf ''address'' (ntoa (cc_address c)),
             cfg_leaf ''port'' (dec_string (unat (cc_port c))), cfg_leaf ''interface'' (cc_interface c)]) []"

definition line_tree :: "(u32 \<Rightarrow> string) \<Rightarrow> cfg_line \<Rightarrow> fh_cfg_node" where
  "line_tree ntoa l =
    Cfg_Node (cl_name l) [conn_tree ntoa ''primary'' (cl_primary l), conn_tree ntoa ''secondary'' (cl_secondary l)] []"

definition tbl_tree :: "string \<Rightarrow> cfg_tbl \<Rightarrow> fh_cfg_node" where
  "tbl_tree name t = Cfg_Node name [cfg_leaf ''size'' (dec_string (unat (ct_size t)))] []"

definition proc_tree :: "(u32 \<Rightarrow> string) \<Rightarrow> string \<Rightarrow> cfg_proc \<Rightarrow> fh_cfg_node" where
  "proc_tree ntoa root p =
    Cfg_Node root
      [Cfg_Node ''processes''
         [Cfg_Node (cp_name p)
            ((if cp_cpu p = -1 then [] else [cfg_leaf ''cpu'' (dec_string (nat (cp_cpu p)))]) @
             [Cfg_Node ''lines'' [] (map cl_name (cp_lines p))]) []] [],
       Cfg_Node ''fill_gaps''
         [cfg_leaf ''max'' (dec_string (nat (cp_gap_list_max p))), cfg_leaf ''timeout'' (dec_string (nat (cp_gap_timeout p)))] [],
       tbl_tree ''symbol_table'' (cp_symbol_table p), tbl_tree ''order_table'' (cp_order_table p),
       Cfg_Node ''lines'' (map (line_tree ntoa) (cp_lines p)) []] []"

definition conn_ok :: "cfg_conn \<Rightarrow> bool" where
  "conn_ok c \<longleftrightarrow> c = conn_zero \<or> (cc_enabled c = 1 \<and> length (cc_interface c) < MAX_PROPERTY_LENGTH)"

definition name_ok :: "string \<Rightarrow> bool" where
  "name_ok s \<longleftrightarrow> CHR ''.'' \<notin> set s \<and> length s < MAX_PROPERTY_LENGTH"

definition line_ok :: "cfg_line \<Rightarrow> bool" where
  "line_ok l \<longleftrightarrow> name_ok (cl_name l) \<and> conn_ok (cl_primary l) \<and> conn_ok (cl_secondary l)"

definition proc_ok :: "cfg_proc \<Rightarrow> bool" where
  "proc_ok p \<longleftrightarrow> name_ok (cp_name p) \<and> length (cp_name p) + 10 < MAX_PROPERTY_LENGTH \<and>
     (cp_cpu p = -1 \<or> 0 \<le> cp_cpu p \<and> cp_cpu p < 2 ^ 31) \<and> list_all line_ok (cp_lines p) \<and> distinct (map cl_name (cp_lines p)) \<and>
     0 \<le> cp_gap_list_max p \<and> cp_gap_list_max p < 2 ^ 31 \<and> 0 \<le> cp_gap_timeout p \<and> cp_gap_timeout p < 2 ^ 31 \<and>
     ct_name (cp_symbol_table p) = ''symbol_table'' \<and> ct_enabled (cp_symbol_table p) = 1 \<and>
     ct_name (cp_order_table p) = ''order_table'' \<and> ct_enabled (cp_order_table p) = 1"

lemma get_node_plain: "CHR ''.'' \<notin> set s \<Longrightarrow> fh_cfg_get_node node s = Some (fh_cfg_find_child node s)"
  by (simp add: fh_cfg_get_node.simps strchr_none)

lemma get_node_dotted:
  assumes "CHR ''.'' \<notin> set s" and "CHR ''.'' \<notin> set t" and "length s < MAX_PROPERTY_LENGTH"
  shows "fh_cfg_get_node node (s @ CHR ''.'' # t) = Some (cfg_descend node [s, t])"
proof -
  have "strchr (s @ CHR ''.'' # t) CHR ''.'' = Some (length s)" using assms(1) by (rule strchr_first)
  then show ?thesis using assms(2,3) by (subst fh_cfg_get_node.simps) (auto simp: get_node_plain split: option.split)
qed

lemma get_string_leaf:
  assumes "CHR ''.'' \<notin> set s" and "fh_cfg_find_child node s = Some (cfg_leaf s v)"
  shows "fh_cfg_get_string node s = Some (Some v)"
  using assms by (simp add: fh_cfg_get_string_def get_node_plain cfg_leaf_def)

lemma get_string_none:
  assumes "CHR ''.'' \<notin> set s" and "fh_cfg_find_child node s = None"
  shows "fh_cfg_get_string node s = Some None"
  using assms by (simp add: fh_cfg_get_string_def get_node_plain)

lemmas child_simps = fh_cfg_find_child_def cfg_leaf_def

lemma tbl_load_tree:
  assumes "fh_cfg_find_child cfg name = Some (tbl_tree name t)" and "name_ok name" and "ct_name t = name" and "ct_enabled t = 1"
  shows "fh_shr_cfg_tbl_load cfg name = Some (t, FH_OK)"
proof -
  have "fh_cfg_get_string (tbl_tree name t) ''size'' = Some (Some (dec_string (unat (ct_size t))))"
    by (rule get_string_leaf) (simp_all add: tbl_tree_def child_simps)
  moreover have "unat (ct_size t) < 2 ^ 64" using unat_lt [of "ct_size t"] by simp
  ultimately have "fh_cfg_set_uint32 (tbl_tree name t) ''size'' 0 = Some (ct_size t, FH_OK)"
    by (simp add: fh_cfg_set_uint32_def cfg_set_number_dec ucast_of_nat_u64)
  then show ?thesis
    using assms by (cases t) (simp add: fh_shr_cfg_tbl_load_def get_node_plain name_ok_def cfg_strcpy_def tbl_tree_def tbl_zero_def)
qed

lemma add_connection_tree:
  assumes "fh_cfg_find_child line name = Some (conn_tree ntoa name c)" and "name_ok name" and "conn_ok c"
    and "\<And>a. inet_aton (ntoa a) = Some a"
  shows "add_connection inet_aton line name conn_zero = Some (c, FH_OK)"
proof -
  let ?n = "conn_tree ntoa name c"
  have node: "fh_cfg_get_node line name = Some (Some ?n)" using assms(1,2) by (simp add: get_node_plain name_ok_def)
  show ?thesis
  proof (cases "cc_enabled c = 0")
    case True
    then have "c = conn_zero" using assms(3) by (auto simp: conn_ok_def)
    moreover have "fh_cfg_get_string ?n ''enabled'' = Some (Some ''no'')"
      using True by (intro get_string_leaf) (simp_all add: conn_tree_def child_simps)
    ultimately show ?thesis
      by (simp add: add_connection_def node fh_cfg_set_yesno_def c_char_def conn_zero_def)
  next
    case False
    then have c: "cc_enabled c = 1" "length (cc_interface c) < MAX_PROPERTY_LENGTH"
      using assms(3) by (auto simp: conn_ok_def conn_zero_def)
    have s: "fh_cfg_get_string ?n ''enabled'' = Some (Some ''yes'')"
      "fh_cfg_get_string ?n ''address'' = Some (Some (ntoa (cc_address c)))"
      "fh_cfg_get_string ?n ''port'' = Some (Some (dec_string (unat (cc_port c))))"
      "fh_cfg_get_string ?n ''interface'' = Some (Some (cc_interface c))"
      using c(1) by (intro get_string_leaf; simp add: conn_tree_def child_simps)+
    have "unat (cc_port c) < 2 ^ 64" using unat_lt [of "cc_port c"] by simp
    then have "fh_cfg_set_uint16 ?n ''port'' w = Some (cc_port c, FH_OK)" for w
      using cfg_set_number_dec [OF s(3), of ucast w] ucast_of_nat_u64(2) [of "unat (cc_port c)"]
      by (simp add: fh_cfg_set_uint16_def)
    then have "add_connection inet_aton line name conn_zero =
        Some (conn_zero\<lparr>cc_address := cc_address c, cc_port := cc_port c, cc_interface := cc_interface c, cc_enabled := 1\<rparr>, FH_OK)"
      using c(2) by (simp add: add_connection_def conn_endpoint_def node s fh_cfg_set_yesno_def c_char_def assms(4)
          cfg_strcpy_def conn_zero_def)
    then show ?thesis using c(1) by (cases c) (simp add: conn_zero_def)
  qed
qed


lemma find_line:
  assumes "l \<in> set ls" and "distinct (map cl_name ls)"
  shows "find_child (map (line_tree ntoa) ls) (cl_name l) = Some (line_tree ntoa l)"
  using assms by (induction ls) (auto simp: line_tree_def)

lemma add_line_tree:
  assumes "fh_cfg_find_child cfg ''lines'' = Some (Cfg_Node ''lines'' (map (line_tree ntoa) ls) [])"
    and "l \<in> set ls" and "distinct (map cl_name ls)" and "line_ok l" and "\<And>a. inet_aton (ntoa a) = Some a"
    and "realloc_ok (length (cp_lines p))"
  shows "add_line inet_aton realloc_ok cfg (cl_name l) p = Some (p\<lparr>cp_lines := cp_lines p @ [l]\<rparr>, FH_OK)"
proof -
  have c: "add_connection inet_aton (line_tree ntoa l) ''primary'' conn_zero = Some (cl_primary l, FH_OK)"
    "add_connection inet_aton (line_tree ntoa l) ''secondary'' conn_zero = Some (cl_secondary l, FH_OK)"
    using assms(4,5)
    by (auto intro!: add_connection_tree [where ntoa = ntoa]
        simp: line_ok_def line_tree_def fh_cfg_find_child_def conn_tree_def name_ok_def MAX_PROPERTY_LENGTH_def)
  have "fh_cfg_get_node cfg ''lines'' = Some (Some (Cfg_Node ''lines'' (map (line_tree ntoa) ls) []))"
    using assms(1) by (simp add: get_node_plain)
  moreover have "fh_cfg_get_node (Cfg_Node ''lines'' (map (line_tree ntoa) ls) []) (cl_name l) = Some (Some (line_tree ntoa l))"
    using assms(2-4) by (simp add: get_node_plain line_ok_def name_ok_def fh_cfg_find_child_def find_line)
  ultimately show ?thesis
    using assms(4,6) c by (cases l) (simp add: add_line_def cfg_strcpy_def line_ok_def name_ok_def)
qed

lemma add_lines_tree:
  assumes "fh_cfg_find_child cfg ''lines'' = Some (Cfg_Node ''lines'' (map (line_tree ntoa) ls) [])"
    and "set new \<subseteq> set ls" and "distinct (map cl_name ls)" and "list_all line_ok ls" and "\<And>a. inet_aton (ntoa a) = Some a"
    and "\<And>k. realloc_ok k"
  shows "add_lines inet_aton realloc_ok cfg (map cl_name new) p = Some (p\<lparr>cp_lines := cp_lines p @ new\<rparr>, FH_OK)"
  using assms(2)
proof (induction new arbitrary: p)
  case (Cons l new)
  then have "line_ok l" using assms(4) by (auto simp: list_all_iff)
  then have "add_line inet_aton realloc_ok cfg (cl_name l) p = Some (p\<lparr>cp_lines := cp_lines p @ [l]\<rparr>, FH_OK)"
    using Cons.prems add_line_tree [OF assms(1) _ assms(3) _ assms(5,6)] by simp
  then show ?case using Cons by simp
qed simp

lemma int_or_default_leaf:
  assumes "fh_cfg_get_string node path = Some (Some (dec_string (nat i)))" and "0 \<le> i" and "i < 2 ^ 31"
  shows "int_or_default node path d = Some i"
proof -
  have "nat i < 2 ^ 31" "nat i < 2 ^ 64" using assms(2,3) by (simp_all add: nat_less_iff)
  then show ?thesis
    using assms(1,2) sint_of_nat_small [of "nat i"] ucast_of_nat_u64(1) [of "nat i"]
    by (simp add: int_or_default_def fh_cfg_set_int_def cfg_set_number_dec)
qed

text \<open>
  C29.  A process written to a configuration tree is loaded back as it was, with all its lines, connections,
  tables and limits, when names fit and contain no dots.  The text form of an address is
  assumed to be read back by \<^verbatim>\<open>inet_aton\<close>.
\<close>

theorem cfg_lh_load_roundtrip:
  assumes ok: "proc_ok p" and root: "CHR ''.'' \<notin> set root"
    and aton: "\<And>a. inet_aton (ntoa a) = Some a" and mem: "\<And>k. realloc_ok k"
  shows "fh_shr_cfg_lh_load inet_aton realloc_ok None (cp_name p) root (Cfg_Node '''' [proc_tree ntoa root p] []) = Some (p, FH_OK)"
proof -
  let ?t = "proc_tree ntoa root p"
  let ?pn = "Cfg_Node (cp_name p) ((if cp_cpu p = -1 then [] else [cfg_leaf ''cpu'' (dec_string (nat (cp_cpu p)))]) @
    [Cfg_Node ''lines'' [] (map cl_name (cp_lines p))]) []"
  have name: "name_ok (cp_name p)" "length (''processes.'' @ cp_name p) < MAX_PROPERTY_LENGTH"
    using ok by (auto simp: proc_ok_def)
  have t: "fh_cfg_get_node (Cfg_Node '''' [?t] []) root = Some (Some ?t)"
    using root by (simp add: get_node_plain fh_cfg_find_child_def proc_tree_def)
  have pn: "fh_cfg_get_node ?t (''processes.'' @ cp_name p) = Some (Some ?pn)"
    using get_node_dotted [of "''processes''" "cp_name p" ?t] name(1)
    by (simp add: name_ok_def MAX_PROPERTY_LENGTH_def proc_tree_def fh_cfg_find_child_def)
  have cpu: "int_or_default ?pn ''cpu'' (-1) = Some (cp_cpu p)"
  proof (cases "cp_cpu p = -1")
    case True
    then have "fh_cfg_get_string ?pn ''cpu'' = Some None" by (intro get_string_none) (simp_all add: fh_cfg_find_child_def)
    then show ?thesis using True by (simp add: int_or_default_def fh_cfg_set_int_def cfg_set_number_def)
  next
    case False
    then have "fh_cfg_get_string ?pn ''cpu'' = Some (Some (dec_string (nat (cp_cpu p))))"
      by (intro get_string_leaf) (simp_all add: child_simps)
    then show ?thesis using ok False by (intro int_or_default_leaf) (auto simp: proc_ok_def)
  qed
  have "fh_cfg_get_node ?t ''fill_gaps.max'' = Some (Some (cfg_leaf ''max'' (dec_string (nat (cp_gap_list_max p)))))"
    "fh_cfg_get_node ?t ''fill_gaps.timeout'' = Some (Some (cfg_leaf ''timeout'' (dec_string (nat (cp_gap_timeout p)))))"
    using get_node_dotted [of "''fill_gaps''" "''max''" ?t] get_node_dotted [of "''fill_gaps''" "''timeout''" ?t]
    by (simp_all add: MAX_PROPERTY_LENGTH_def proc_tree_def child_simps)
  then have gaps: "int_or_default ?t ''fill_gaps.max'' 0 = Some (cp_gap_list_max p)"
    "int_or_default ?t ''fill_gaps.timeout'' 0 = Some (cp_gap_timeout p)"
    using ok by (auto intro!: int_or_default_leaf simp: fh_cfg_get_string_def cfg_leaf_def proc_ok_def)
  have tbl: "fh_shr_cfg_tbl_load ?t ''symbol_table'' = Some (cp_symbol_table p, FH_OK)"
    "fh_shr_cfg_tbl_load ?t ''order_table'' = Some (cp_order_table p, FH_OK)"
    using ok by (auto intro!: tbl_load_tree simp: proc_ok_def proc_tree_def tbl_tree_def fh_cfg_find_child_def name_ok_def
        MAX_PROPERTY_LENGTH_def)
  have ln: "fh_cfg_get_node ?pn ''lines'' = Some (Some (Cfg_Node ''lines'' [] (map cl_name (cp_lines p))))"
    by (simp add: get_node_plain child_simps)
  have "add_lines inet_aton realloc_ok ?t (map cl_name (cp_lines p)) q = Some (q\<lparr>cp_lines := cp_lines q @ cp_lines p\<rparr>, FH_OK)" for q
    using ok aton mem by (intro add_lines_tree) (auto simp: proc_ok_def proc_tree_def fh_cfg_find_child_def tbl_tree_def)
  then have "fh_shr_cfg_lh_load inet_aton realloc_ok None (cp_name p) root (Cfg_Node '''' [?t] []) =
      Some (proc_zero\<lparr>cp_name := cp_name p, cp_cpu := cp_cpu p, cp_gap_list_max := cp_gap_list_max p,
        cp_gap_timeout := cp_gap_timeout p, cp_symbol_table := cp_symbol_table p, cp_order_table := cp_order_table p,
        cp_lines := cp_lines p\<rparr>, FH_OK)"
    using name unfolding fh_shr_cfg_lh_load_def Let_def t
    by (simp add: cfg_strcpy_def pn cpu gaps tbl ln name_ok_def proc_zero_def del: append_Cons)
  then show ?thesis by (cases p) (simp add: proc_zero_def)
qed


text \<open>A process with one line on the primary connection, and addresses written as decimal numbers.\<close>

definition example_proc :: cfg_proc where
  "example_proc = \<lparr>cp_name = ''p1'', cp_cpu = -1,
     cp_lines = [\<lparr>cl_name = ''l1'', cl_primary = \<lparr>cc_enabled = 1, cc_port = 4000, cc_address = 17, cc_interface = ''eth0''\<rparr>,
       cl_secondary = conn_zero\<rparr>],
     cp_gap_list_max = 100, cp_gap_timeout = 5,
     cp_symbol_table = \<lparr>ct_name = ''symbol_table'', ct_enabled = 1, ct_size = 64\<rparr>,
     cp_order_table = \<lparr>ct_name = ''order_table'', ct_enabled = 1, ct_size = 1000\<rparr>\<rparr>"

theorem cfg_lh_load_roundtrip_witness:
  "fh_shr_cfg_lh_load (\<lambda>s. Some (ucast (fst (strtoul s)))) (\<lambda>_. True) None ''p1'' ''itch''
    (Cfg_Node '''' [proc_tree (\<lambda>a. dec_string (unat a)) ''itch'' example_proc] []) = Some (example_proc, FH_OK)"
proof -
  have "proc_ok example_proc"
    by (simp add: proc_ok_def example_proc_def name_ok_def line_ok_def conn_ok_def MAX_PROPERTY_LENGTH_def)
  moreover have "Some (ucast (fst (strtoul (dec_string (unat a)))) :: u32) = Some a" for a :: u32
  proof -
    have "unat a < 2 ^ 64" using unat_lt [of a] by simp
    then show ?thesis using ucast_of_nat_u64(1) [of "unat a"] by (simp add: strtoul_dec)
  qed
  ultimately have "fh_shr_cfg_lh_load (\<lambda>s. Some (ucast (fst (strtoul s)))) (\<lambda>_. True) None (cp_name example_proc) ''itch''
      (Cfg_Node '''' [proc_tree (\<lambda>a. dec_string (unat a)) ''itch'' example_proc] []) = Some (example_proc, FH_OK)"
    by (intro cfg_lh_load_roundtrip) simp_all
  then show ?thesis by (simp add: example_proc_def)
qed

end
