(* ===== verification/EdgeMsg.thy ===== *)
theory EdgeMsg
  imports LineBook
begin

section \<open>DirectEdge messages (\<^verbatim>\<open>feeds/directedge/common/fh_edge_parse.c\<close>)\<close>

text \<open>
  The sequenced messages of the DirectEdge feed, which arrive over TCP: the structs of \<^verbatim>\<open>fh_edge_msg.h\<close>, number
  fields, the updates of the order table, whose keys are the order references, one handler per message type and
  the message parser.  The buffer is the receive buffer of the line handler, which is longer than
  any message; \<^verbatim>\<open>char\<close> is signed.  The sequence
  number is the counter of the TCP line handler, kept in \<open>lh_next_seq_no\<close>.
\<close>

subsection \<open>Messages\<close>

record edge_hdr =
  edh_timestamp :: u32
  edh_message_type :: u8

record edge_raw =
  edr_message :: "u8 list"
  edr_len :: int

record edge_sys_event =
  eds_hdr :: edge_hdr
  eds_event_code :: u8
  eds_raw :: edge_raw

text \<open>\<^verbatim>\<open>mmid\<close> is only set for attributed quotes.\<close>

record edge_add_order =
  eda_hdr :: edge_hdr
  eda_order_ref :: "u8 list"
  eda_side_indicator :: u8
  eda_order_quantity :: u32
  eda_security :: "u8 list"
  eda_price :: u64
  eda_display :: u8
  eda_mmid :: "u8 list option"
  eda_sym_entry :: ptr
  eda_ord_entry :: ptr
  eda_raw :: edge_raw

record edge_order_executed =
  edx_hdr :: edge_hdr
  edx_order_ref :: "u8 list"
  edx_executed_shares :: u32
  edx_match_number :: "u8 list"
  edx_ord_entry :: ptr
  edx_raw :: edge_raw

record edge_order_canceled =
  edc_hdr :: edge_hdr
  edc_order_ref :: "u8 list"
  edc_canceled_shares :: u32
  edc_ord_entry :: ptr
  edc_raw :: edge_raw

record edge_trade =
  edt_hdr :: edge_hdr
  edt_order_ref :: "u8 list"
  edt_side_indicator :: u8
  edt_shares :: u32
  edt_security :: "u8 list"
  edt_price :: u64
  edt_match_number :: "u8 list"
  edt_raw :: edge_raw

record edge_broken_trade =
  edb_hdr :: edge_hdr
  edb_match_number :: "u8 list"
  edb_raw :: edge_raw

record edge_security_status =
  edq_hdr :: edge_hdr
  edq_security :: "u8 list"
  edq_halted_state :: u8
  edq_raw :: edge_raw

datatype edge_msg =
    ESysEvent edge_sys_event
  | EAddOrder edge_add_order
  | EExecuted edge_order_executed
  | ECanceled edge_order_canceled
  | ETrade edge_trade
  | EBrokenTrade edge_broken_trade
  | ESecurityStatus edge_security_status
  | EBytes "u8 list" int

datatype edge_hook = ISysEvent | IAddOrder | IExecuted | ICanceled | ITrade | IBrokenTrade | ISecurityStatus

type_synonym 'd edge_state = "(edge_msg, 'd) lh_state"
type_synonym 'd edge_hooks = "(edge_hook, edge_msg, 'd) lh_hooks"

subsection \<open>Number fields\<close>

text \<open>
  The loops from the last character to the first one or a space.  The factor \<^verbatim>\<open>y\<close> and the product are of type
  \<^verbatim>\<open>int\<close>; of a price the product is widened to 64 bits, with its sign.
\<close>

fun edge_int_loop :: "u8 list \<Rightarrow> nat \<Rightarrow> nat \<Rightarrow> u32 \<Rightarrow> u32 \<Rightarrow> u32 option" where
  "edge_int_loop b off 0 y temp = Some temp"
| "edge_int_loop b off (Suc i) y temp = do {
     c \<leftarrow> rd b (off + i);
     if c = 32 then Some temp
     else edge_int_loop b off i (y * 10) (temp + (scast c - 48) * y)
   }"

definition fh_dirEdge_convert_int :: "u8 list \<Rightarrow> nat \<Rightarrow> nat \<Rightarrow> u32 option" where
  "fh_dirEdge_convert_int b off field_sz = edge_int_loop b off field_sz 1 0"

fun edge_price_loop :: "u8 list \<Rightarrow> nat \<Rightarrow> nat \<Rightarrow> u32 \<Rightarrow> u64 \<Rightarrow> u64 option" where
  "edge_price_loop b off 0 y temp = Some temp"
| "edge_price_loop b off (Suc i) y temp = do {
     c \<leftarrow> rd b (off + i);
     if c = 32 then Some temp
     else edge_price_loop b off i (y * 10) (temp + scast ((scast c - 48) * y))
   }"

definition fh_dirEdge_get_price :: "u8 list \<Rightarrow> nat \<Rightarrow> u64 option" where
  "fh_dirEdge_get_price b off = edge_price_loop b off 10 1 0"

subsection \<open>Parts of the handlers\<close>

definition SYSTEM_EVENT_MSG_SIZE :: int where "SYSTEM_EVENT_MSG_SIZE = 12"
definition ADD_ORDER_ATTIRBUTED_QUOTE_MSG_SIZE :: int where "ADD_ORDER_ATTIRBUTED_QUOTE_MSG_SIZE = 51"
definition ADD_ORDER_MSG_SIZE :: int where "ADD_ORDER_MSG_SIZE = 47"
definition ORDER_EXECUTED_MSG_SIZE :: int where "ORDER_EXECUTED_MSG_SIZE = 50"
definition ORDER_CANCELED_MSG_SIZE :: int where "ORDER_CANCELED_MSG_SIZE = 29"
definition TRADE_MSG_SIZE :: int where "TRADE_MSG_SIZE = 67"
definition BROKEN_TRADE_MSG_SIZE :: int where "BROKEN_TRADE_MSG_SIZE = 32"
definition SECURITY_STATUS_MSG_SIZE :: int where "SECURITY_STATUS_MSG_SIZE = 18"

definition edge_hdr_of :: "u8 list \<Rightarrow> edge_hdr option" where
  "edge_hdr_of b = do {
     timestamp \<leftarrow> fh_dirEdge_convert_int b 1 8;
     ty \<leftarrow> rd b 9;
     Some \<lparr>edh_timestamp = timestamp, edh_message_type = ty\<rparr>
   }"

definition edge_raw_of :: "u8 list \<Rightarrow> int \<Rightarrow> edge_raw" where
  "edge_raw_of b len = \<lparr>edr_message = b, edr_len = len\<rparr>"

text \<open>The hook of the type, or the bytes themselves.\<close>

definition edge_deliver ::
  "'d edge_hooks \<Rightarrow> edge_hook \<Rightarrow> edge_msg \<Rightarrow> u8 list \<Rightarrow> int \<Rightarrow> 'd edge_state
   \<Rightarrow> 'd edge_state \<times> fh_status \<times> (edge_msg, 'd) payload option" where
  "edge_deliver hooks hid m b len st =
    (case hook_msg hooks hid of
       Some h \<Rightarrow> (case h (lh_trace st) m of (rc, d) \<Rightarrow>
                    (st\<lparr>lh_trace := lh_trace st @ [Hooked m]\<rparr>, rc, Some (Plugged d)))
     | None \<Rightarrow> (st, FH_OK, Some (Parsed (EBytes b len))))"

text \<open>The key of an order known by its reference of twelve characters.\<close>

definition ord_ref_key :: "u8 list \<Rightarrow> ord_key" where
  "ord_ref_key ref = \<lparr>ok_order_no = 0, ok_order_no_str = ref @ replicate 8 0\<rparr>"

definition edge_order_add ::
  "u8 list \<Rightarrow> u64 \<Rightarrow> u32 \<Rightarrow> u8 \<Rightarrow> u8 list \<Rightarrow> ptr \<Rightarrow> 'd edge_state \<Rightarrow> ('d edge_state \<times> ptr) option" where
  "edge_order_add ref price shares side stock se st =
    (if lh_ord_enabled st then do {
       (t, rc, p) \<leftarrow> fh_shr_lkp_ord_add (lh_order_table st)
         (ord_zero\<lparr>lo_key := ord_ref_key ref, lo_order_no_str := ref @ replicate 8 0, lo_price := price, lo_shares := shares,
                   lo_buy_sell_ind := side, lo_stock := stock, lo_sym_entry := se\<rparr>);
       Some (st\<lparr>lh_order_table := t\<rparr>, if rc \<noteq> FH_OK then None else p)
     }
     else Some (st, None))"

text \<open>
  An execution or a cancellation takes shares from the order unless it has too few, and deletes it when none
  are left.  The message keeps the pointer the lookup returned, even when the order is gone; without an order
  table the C code leaves the pointer unset.
\<close>

definition edge_order_take :: "u8 list \<Rightarrow> u32 \<Rightarrow> 'd edge_state \<Rightarrow> ('d edge_state \<times> ptr) option" where
  "edge_order_take ref shares st =
    (if lh_ord_enabled st then do {
       let t = lh_order_table st;
       (rc, p) \<leftarrow> fh_shr_lkp_ord_get t (ord_ref_key ref);
       if rc = FH_OK then do {
         a \<leftarrow> p;
         let e = lkp_entry t a;
         if shares \<le> lo_shares e then do {
           let t = lkp_write a (e\<lparr>lo_shares := lo_shares e - shares\<rparr>) t;
           if lo_shares e - shares = 0 then do {
             (t, rc, entry) \<leftarrow> fh_shr_lkp_ord_del t (ord_ref_key ref);
             Some (st\<lparr>lh_order_table := t\<rparr>, p)
           }
           else Some (st\<lparr>lh_order_table := t\<rparr>, p)
         }
         else Some (st, p)
       }
       else Some (st, p)
     }
     else Some (st, None))"

text \<open>\<^verbatim>\<open>strncpy\<close> of at most \<open>n\<close> bytes: zeros after the first zero.\<close>

definition c_strncpy :: "u8 list \<Rightarrow> nat \<Rightarrow> u8 list" where
  "c_strncpy bs n = (let s = takeWhile (\<lambda>c. c \<noteq> 0) (take n bs) in s @ replicate (n - length s) 0)"

definition edge_mmid :: "u8 list \<Rightarrow> u8 \<Rightarrow> u8 list option option" where
  "edge_mmid b display =
    (if display = 65 then do { mmid \<leftarrow> rd_bytes b 46 4; Some (Some (c_strncpy mmid 4)) } else Some None)"

subsection \<open>Handlers\<close>

definition fh_de_parse_sys_event_msg ::
  "'d edge_hooks \<Rightarrow> u8 list \<Rightarrow> int \<Rightarrow> 'd edge_state \<Rightarrow> (edge_msg, 'd) handler_result" where
  "fh_de_parse_sys_event_msg hooks b len st =
    (if len \<noteq> SYSTEM_EVENT_MSG_SIZE then Some (st, FH_ERROR, None)
     else do {
       hdr \<leftarrow> edge_hdr_of b;
       event_code \<leftarrow> rd b 10;
       Some (edge_deliver hooks ISysEvent
         (ESysEvent \<lparr>eds_hdr = hdr, eds_event_code = event_code, eds_raw = edge_raw_of b SYSTEM_EVENT_MSG_SIZE\<rparr>) b len st)
     })"

definition fh_de_parse_add_order_msg ::
  "'d edge_hooks \<Rightarrow> u8 list \<Rightarrow> int \<Rightarrow> 'd edge_state \<Rightarrow> (edge_msg, 'd) handler_result" where
  "fh_de_parse_add_order_msg hooks b len st =
    (if len \<noteq> ADD_ORDER_MSG_SIZE \<and> len \<noteq> ADD_ORDER_ATTIRBUTED_QUOTE_MSG_SIZE then Some (st, FH_ERROR, None)
     else do {
       hdr \<leftarrow> edge_hdr_of b;
       order_ref \<leftarrow> rd_bytes b 10 12;
       side_indicator \<leftarrow> rd b 22;
       order_quantity \<leftarrow> fh_dirEdge_convert_int b 23 6;
       security \<leftarrow> rd_bytes b 29 6;
       price \<leftarrow> fh_dirEdge_get_price b 35;
       (st, se) \<leftarrow> lh_fetch_symbol security st;
       (st, ord) \<leftarrow> edge_order_add order_ref price order_quantity side_indicator security se st;
       display \<leftarrow> rd b 45;
       mmid \<leftarrow> edge_mmid b display;
       Some (edge_deliver hooks IAddOrder
         (EAddOrder \<lparr>eda_hdr = hdr, eda_order_ref = order_ref, eda_side_indicator = side_indicator,
           eda_order_quantity = order_quantity, eda_security = security, eda_price = price, eda_display = display,
           eda_mmid = mmid, eda_sym_entry = se, eda_ord_entry = ord,
           eda_raw = edge_raw_of b (if display = 65 then ADD_ORDER_ATTIRBUTED_QUOTE_MSG_SIZE else SYSTEM_EVENT_MSG_SIZE)\<rparr>)
         b len st)
     })"

definition fh_de_parse_order_executed_msg ::
  "'d edge_hooks \<Rightarrow> u8 list \<Rightarrow> int \<Rightarrow> 'd edge_state \<Rightarrow> (edge_msg, 'd) handler_result" where
  "fh_de_parse_order_executed_msg hooks b len st =
    (if len \<noteq> ORDER_EXECUTED_MSG_SIZE then Some (st, FH_ERROR, None)
     else do {
       hdr \<leftarrow> edge_hdr_of b;
       order_ref \<leftarrow> rd_bytes b 10 12;
       executed_shares \<leftarrow> fh_dirEdge_convert_int b 22 6;
       match_number \<leftarrow> rd_bytes b 28 21;
       (st, ord) \<leftarrow> edge_order_take order_ref executed_shares st;
       Some (edge_deliver hooks IExecuted
         (EExecuted \<lparr>edx_hdr = hdr, edx_order_ref = order_ref, edx_executed_shares = executed_shares,
           edx_match_number = match_number, edx_ord_entry = ord, edx_raw = edge_raw_of b ORDER_EXECUTED_MSG_SIZE\<rparr>) b len st)
     })"

definition fh_de_parse_order_canceled_msg ::
  "'d edge_hooks \<Rightarrow> u8 list \<Rightarrow> int \<Rightarrow> 'd edge_state \<Rightarrow> (edge_msg, 'd) handler_result" where
  "fh_de_parse_order_canceled_msg hooks b len st =
    (if len \<noteq> ORDER_CANCELED_MSG_SIZE then Some (st, FH_ERROR, None)
     else do {
       hdr \<leftarrow> edge_hdr_of b;
       order_ref \<leftarrow> rd_bytes b 10 12;
       canceled_shares \<leftarrow> fh_dirEdge_convert_int b 22 6;
       (st, ord) \<leftarrow> edge_order_take order_ref canceled_shares st;
       Some (edge_deliver hooks ICanceled
         (ECanceled \<lparr>edc_hdr = hdr, edc_order_ref = order_ref, edc_canceled_shares = canceled_shares,
           edc_ord_entry = ord, edc_raw = edge_raw_of b ORDER_CANCELED_MSG_SIZE\<rparr>) b len st)
     })"

definition fh_de_parse_trade_msg ::
  "'d edge_hooks \<Rightarrow> u8 list \<Rightarrow> int \<Rightarrow> 'd edge_state \<Rightarrow> (edge_msg, 'd) handler_result" where
  "fh_de_parse_trade_msg hooks b len st =
    (if len \<noteq> TRADE_MSG_SIZE then Some (st, FH_ERROR, None)
     else do {
       hdr \<leftarrow> edge_hdr_of b;
       order_ref \<leftarrow> rd_bytes b 10 12;
       side_indicator \<leftarrow> rd b 22;
       shares \<leftarrow> fh_dirEdge_convert_int b 23 6;
       security \<leftarrow> rd_bytes b 29 6;
       price \<leftarrow> fh_dirEdge_get_price b 35;
       match_number \<leftarrow> rd_bytes b 45 21;
       Some (edge_deliver hooks ITrade
         (ETrade \<lparr>edt_hdr = hdr, edt_order_ref = order_ref, edt_side_indicator = side_indicator, edt_shares = shares,
           edt_security = security, edt_price = price, edt_match_number = match_number,
           edt_raw = edge_raw_of b TRADE_MSG_SIZE\<rparr>) b len st)
     })"

definition fh_de_parse_broken_trade_msg ::
  "'d edge_hooks \<Rightarrow> u8 list \<Rightarrow> int \<Rightarrow> 'd edge_state \<Rightarrow> (edge_msg, 'd) handler_result" where
  "fh_de_parse_broken_trade_msg hooks b len st =
    (if len \<noteq> BROKEN_TRADE_MSG_SIZE then Some (st, FH_ERROR, None)
     else do {
       hdr \<leftarrow> edge_hdr_of b;
       match_number \<leftarrow> rd_bytes b 10 21;
       Some (edge_deliver hooks IBrokenTrade
         (EBrokenTrade \<lparr>edb_hdr = hdr, edb_match_number = match_number, edb_raw = edge_raw_of b BROKEN_TRADE_MSG_SIZE\<rparr>) b len st)
     })"

definition fh_de_parse_security_status_msg ::
  "'d edge_hooks \<Rightarrow> u8 list \<Rightarrow> int \<Rightarrow> 'd edge_state \<Rightarrow> (edge_msg, 'd) handler_result" where
  "fh_de_parse_security_status_msg hooks b len st =
    (if len \<noteq> SECURITY_STATUS_MSG_SIZE then Some (st, FH_ERROR, None)
     else do {
       hdr \<leftarrow> edge_hdr_of b;
       security \<leftarrow> rd_bytes b 10 6;
       halted_state \<leftarrow> rd b 16;
       Some (edge_deliver hooks ISecurityStatus
         (ESecurityStatus \<lparr>edq_hdr = hdr, edq_security = security, edq_halted_state = halted_state,
           edq_raw = edge_raw_of b SECURITY_STATUS_MSG_SIZE\<rparr>) b len st)
     })"

subsection \<open>The message parser\<close>

text \<open>
  Sending what the handler left in \<^verbatim>\<open>data\<close>; sending it when it was not set is a fault.  The status of the handler
  of executions is not looked at.
\<close>

definition edge_send :: "'d edge_hooks \<Rightarrow> (edge_msg, 'd) payload option \<Rightarrow> 'd edge_state \<Rightarrow> ('d edge_state \<times> fh_status) option" where
  "edge_send hooks data st =
    (case hook_msg_send hooks of
       None \<Rightarrow> Some (st, FH_OK)
     | Some h \<Rightarrow> do {
         p \<leftarrow> data;
         Some (st\<lparr>lh_trace := lh_trace st @ [Sent p]\<rparr>, if h (lh_trace st) p \<noteq> FH_OK then -1 else FH_OK)
       })"

definition edge_handler ::
  "u8 \<Rightarrow> ('d edge_hooks \<Rightarrow> u8 list \<Rightarrow> int \<Rightarrow> 'd edge_state \<Rightarrow> (edge_msg, 'd) handler_result) option" where
  "edge_handler rx_char =
    (if rx_char = 83 then Some fh_de_parse_sys_event_msg
     else if rx_char = 65 then Some fh_de_parse_add_order_msg
     else if rx_char = 69 then Some fh_de_parse_order_executed_msg
     else if rx_char = 88 then Some fh_de_parse_order_canceled_msg
     else if rx_char = 80 then Some fh_de_parse_trade_msg
     else if rx_char = 66 then Some fh_de_parse_broken_trade_msg
     else if rx_char = 72 then Some fh_de_parse_security_status_msg
     else None)"

definition fh_edge_parse_msg ::
  "'d edge_hooks \<Rightarrow> u8 list \<Rightarrow> int \<Rightarrow> u8 \<Rightarrow> 'd edge_state \<Rightarrow> ('d edge_state \<times> fh_status) option" where
  "fh_edge_parse_msg hooks b len rx_char st =
    (case edge_handler rx_char of
       None \<Rightarrow> Some (st, -1)
     | Some handler \<Rightarrow> do {
         (st, rc, data) \<leftarrow> handler hooks b len st;
         if rc \<noteq> FH_OK \<and> rx_char \<noteq> 69 then Some (st, -1)
         else edge_send hooks data (st\<lparr>lh_next_seq_no := lh_next_seq_no st + 1\<rparr>)
       })"

end
