(* ===== verification/Edge.thy ===== *)
theory Edge
  imports EdgeMsg
begin

section \<open>What DirectEdge messages do\<close>

text \<open>
  The handlers of \<open>EdgeMsg\<close> against the order book of the line: every message has the effect of its type and fields
  and no message faults, but for one case that is stated too.  Messages in the wire format are decoded.
\<close>

subsection \<open>The handlers' effect on the line state\<close>

text \<open>Number fields are read within their bounds; \<open>edge_num\<close> and \<open>edge_price\<close> are the numbers.\<close>

definition edge_num :: "u8 list \<Rightarrow> nat \<Rightarrow> nat \<Rightarrow> u32" where
  "edge_num b off sz = the (fh_dirEdge_convert_int b off sz)"

definition edge_price :: "u8 list \<Rightarrow> nat \<Rightarrow> u64" where
  "edge_price b off = the (fh_dirEdge_get_price b off)"

lemma edge_int_loop_total: "off + k \<le> length b \<Longrightarrow> \<exists>v. edge_int_loop b off k y t = Some v"
  by (induction k arbitrary: y t) (auto simp: rd_def)

lemma edge_price_loop_total: "off + k \<le> length b \<Longrightarrow> \<exists>v. edge_price_loop b off k y t = Some v"
  by (induction k arbitrary: y t) (auto simp: rd_def)

lemma edge_numbers_read:
  "off + sz \<le> length b \<Longrightarrow> fh_dirEdge_convert_int b off sz = Some (edge_num b off sz)"
  "off + 10 \<le> length b \<Longrightarrow> fh_dirEdge_get_price b off = Some (edge_price b off)"
  using edge_int_loop_total [of off sz b 1 0] edge_price_loop_total [of off 10 b 1 0]
  by (auto simp: edge_num_def edge_price_def fh_dirEdge_convert_int_def fh_dirEdge_get_price_def)

lemma wp_edge_int [wp_rules]:
  "off + sz \<le> length b \<Longrightarrow> succeeds P (g (edge_num b off sz)) \<Longrightarrow> succeeds P (Option.bind (fh_dirEdge_convert_int b off sz) g)"
  by (simp add: edge_numbers_read)

lemma wp_edge_price [wp_rules]:
  "off + 10 \<le> length b \<Longrightarrow> succeeds P (g (edge_price b off)) \<Longrightarrow> succeeds P (Option.bind (fh_dirEdge_get_price b off) g)"
  by (simp add: edge_numbers_read)

lemma wp_edge_hdr [wp_rules]:
  "10 \<le> length b \<Longrightarrow> (\<And>h. succeeds P (g h)) \<Longrightarrow> succeeds P (Option.bind (edge_hdr_of b) g)"
  by (simp add: edge_hdr_of_def edge_numbers_read rd_def)

lemma wp_edge_mmid [wp_rules]:
  "50 \<le> length b \<Longrightarrow> (\<And>h. succeeds P (g h)) \<Longrightarrow> succeeds P (Option.bind (edge_mmid b display) g)"
  by (simp add: edge_mmid_def rd_bytes_def)

lemma wp_edge_deliver [wp_rules]:
  assumes "tables_ok n m st" and "\<And>st' rc d. msg_step n m st (book st) st' \<Longrightarrow> P (st', rc, Some d)"
  shows "succeeds P (Some (edge_deliver hooks h msg b len st))"
proof -
  obtain st' rc d where "edge_deliver hooks h msg b len st = (st', rc, Some d)" "msg_step n m st (book st) st'"
    using assms(1)
    by (cases "edge_deliver hooks h msg b len st")
      (auto simp: edge_deliver_def msg_step_def same_line_def tables_ok_def book_def split: option.splits prod.splits)
  with assms(2) show ?thesis by (simp add: succeeds_def)
qed

definition edge_entry :: "u8 list \<Rightarrow> u64 \<Rightarrow> u32 \<Rightarrow> u8 \<Rightarrow> u8 list \<Rightarrow> ptr \<Rightarrow> lkp_ord" where
  "edge_entry ref price shares side stock se =
     ord_zero\<lparr>lo_key := ord_ref_key ref, lo_order_no_str := ref @ replicate 8 0, lo_price := price, lo_shares := shares,
              lo_buy_sell_ind := side, lo_stock := stock, lo_sym_entry := se\<rparr>"

lemma wp_edge_add [wp_rules]:
  assumes ok: "tables_ok n m st"
    and g: "\<And>st' p. msg_step n m st
        (if lh_ord_enabled st then book_add m (edge_entry ref price shares side stock se) (book st) else Map.empty) st' \<Longrightarrow>
        succeeds P (g (st', p))"
  shows "succeeds P (Option.bind (edge_order_add ref price shares side stock se st) g)"
proof (cases "lh_ord_enabled st")
  case True
  let ?e = "edge_entry ref price shares side stock se"
  obtain t' rc p where "fh_shr_lkp_ord_add (lh_order_table st) ?e = Some (t', rc, p)" "lkp_ok m 32 lo_key t'"
    "ord_view t' = book_add m ?e (book st)"
    using ord_add_book [of m "lh_order_table st" ?e] order_tableD [OF ok True] by auto
  then show ?thesis
    using True g [of "st\<lparr>lh_order_table := t'\<rparr>"] msg_step_orders [OF ok True, of t']
    by (simp add: edge_order_add_def edge_entry_def)
next
  case False
  then show ?thesis using g [of st None] ok by (simp add: edge_order_add_def msg_step_def)
qed

text \<open>Taking shares from an order: it is gone when none are left, and stays as it is when it has too few.\<close>

definition book_take :: "ord_key \<Rightarrow> u32 \<Rightarrow> (ord_key \<rightharpoonup> lkp_ord) \<Rightarrow> ord_key \<rightharpoonup> lkp_ord" where
  "book_take k shares bk =
    (case bk k of
       None \<Rightarrow> bk
     | Some e \<Rightarrow> if lo_shares e < shares then bk
                 else if lo_shares e = shares then bk(k := None)
                 else bk(k \<mapsto> e\<lparr>lo_shares := lo_shares e - shares\<rparr>))"

lemma book_take_off [simp]: "book_take k shares Map.empty = Map.empty"
  by (simp add: book_take_def)

lemma wp_edge_take [wp_rules]:
  assumes ok: "tables_ok n m st"
    and g: "\<And>st' p. msg_step n m st (book_take (ord_ref_key ref) shares (book st)) st' \<Longrightarrow> succeeds P (g (st', p))"
  shows "succeeds P (Option.bind (edge_order_take ref shares st) g)"
proof (cases "lh_ord_enabled st")
  case True
  let ?t = "lh_order_table st" and ?k = "ord_ref_key ref"
  show ?thesis
  proof (rule order_key_cases [OF ok True, of ?k])
    assume "fh_shr_lkp_ord_get ?t ?k = Some (FH_ERR_NOTFOUND, None)" "book st ?k = None"
    then show ?thesis using True g [of st None] ok by (simp add: edge_order_take_def book_take_def msg_step_def)
  next
    fix a assume a: "fh_shr_lkp_ord_get ?t ?k = Some (FH_OK, Some a)" "book st ?k = Some (lkp_entry ?t a)"
      "\<And>f. (\<And>e. lo_key (f e) = lo_key e) \<Longrightarrow>
         msg_step n m st (book_change ?k f (book st)) (st\<lparr>lh_order_table := lkp_write a (f (lkp_entry ?t a)) ?t\<rparr>)"
    let ?e = "lkp_entry ?t a" and ?w = "lkp_write a ((lkp_entry ?t a)\<lparr>lo_shares := lo_shares (lkp_entry ?t a) - shares\<rparr>) ?t"
    have w: "msg_step n m st ((book st)(?k \<mapsto> ?e\<lparr>lo_shares := lo_shares ?e - shares\<rparr>)) (st\<lparr>lh_order_table := ?w\<rparr>)"
      using a(3) [of "\<lambda>e. e\<lparr>lo_shares := lo_shares e - shares\<rparr>"] a(2) by (simp add: book_change_def)
    consider (few) "lo_shares ?e < shares" | (all) "lo_shares ?e = shares" | (some) "shares < lo_shares ?e" by force
    then show ?thesis
    proof cases
      case few
      then have "\<not> shares \<le> lo_shares ?e" by (simp add: not_le)
      then show ?thesis using few True a(1,2) g [of st "Some a"] ok
        by (simp add: edge_order_take_def book_take_def msg_step_def Let_def)
    next
      case all
      have "lkp_ok m 32 lo_key ?w" "ord_view ?w = (book st)(?k \<mapsto> ?e\<lparr>lo_shares := lo_shares ?e - shares\<rparr>)"
        using order_tableD [OF tables_step [OF w]] w True by (auto simp: msg_step_def)
      then obtain t' rc p where d: "fh_shr_lkp_ord_del ?w ?k = Some (t', rc, p)" "lkp_ok m 32 lo_key t'"
        "ord_view t' = (book st)(?k := None)"
        using ob.del_law [of m ?w ?k] by auto
      then show ?thesis using True a(1,2) all g [of "st\<lparr>lh_order_table := t'\<rparr>" "Some a"] msg_step_orders [OF ok True, of t']
        by (simp add: edge_order_take_def book_take_def Let_def)
    next
      case some
      then have "\<not> lo_shares ?e < shares" "lo_shares ?e \<noteq> shares" "shares \<le> lo_shares ?e" by auto
      then show ?thesis using True a(1,2) g [of "st\<lparr>lh_order_table := ?w\<rparr>" "Some a"] w
        by (simp add: edge_order_take_def book_take_def Let_def)
    qed
  qed
next
  case False
  then show ?thesis using g [of st None] ok by (simp add: edge_order_take_def msg_step_def)
qed

text \<open>
  What a handler leaves behind: an error and nothing else when the length is not one of its type, else data to
  send and the change of the order book.
\<close>

definition edge_post ::
  "nat \<Rightarrow> nat \<Rightarrow> 'd edge_state \<Rightarrow> bool \<Rightarrow> (ptr \<Rightarrow> (ord_key \<rightharpoonup> lkp_ord) \<Rightarrow> ord_key \<rightharpoonup> lkp_ord) \<Rightarrow>
     'd edge_state \<times> fh_status \<times> (edge_msg, 'd) payload option \<Rightarrow> bool" where
  "edge_post n m st good f = (\<lambda>(st', rc, d).
     if good then step_to n m st f (st', rc, d) \<and> d \<noteq> None else st' = st \<and> rc = FH_ERROR \<and> d = None)"

lemma edge_post_bad: "\<not> good \<Longrightarrow> edge_post n m st good f (st, FH_ERROR, None)"
  by (simp add: edge_post_def)

lemma edge_postI:
  "good \<Longrightarrow> msg_step n m st bk st' \<Longrightarrow> (\<exists>se. bk = (if lh_ord_enabled st then f se (book st) else Map.empty)) \<Longrightarrow>
     edge_post n m st good f (st', rc, Some d)"
  by (auto simp: edge_post_def step_to_def)

definition edge_added :: "u8 list \<Rightarrow> ptr \<Rightarrow> lkp_ord" where
  "edge_added b se = edge_entry (take 12 (drop 10 b)) (edge_price b 35) (edge_num b 23 6) (b ! 22) (take 6 (drop 29 b)) se"

definition edge_ref :: "u8 list \<Rightarrow> ord_key" where
  "edge_ref b = ord_ref_key (take 12 (drop 10 b))"

lemmas edge_rules = wp_return wp_rd wp_bytes wp_edge_int wp_edge_price wp_edge_hdr wp_edge_mmid
lemmas edge_sizes = SYSTEM_EVENT_MSG_SIZE_def ADD_ORDER_ATTIRBUTED_QUOTE_MSG_SIZE_def ADD_ORDER_MSG_SIZE_def
  ORDER_EXECUTED_MSG_SIZE_def ORDER_CANCELED_MSG_SIZE_def TRADE_MSG_SIZE_def BROKEN_TRADE_MSG_SIZE_def
  SECURITY_STATUS_MSG_SIZE_def

lemma edge_sys_event_handled:
  assumes "tables_ok n m st" and "67 \<le> length b"
  shows "succeeds (edge_post n m st (len = 12) (\<lambda>se bk. bk)) (fh_de_parse_sys_event_msg hooks b len st)"
  using assms unfolding fh_de_parse_sys_event_msg_def edge_sizes
  by (auto intro!: edge_rules wp_edge_deliver [of n m] edge_post_bad)
    (auto intro!: edge_postI simp: edge_added_def edge_ref_def msg_step_def same_line_def book_def split: if_splits)

lemma edge_add_order_handled:
  assumes "tables_ok n m st" and "67 \<le> length b"
  shows "succeeds (edge_post n m st (len = 47 \<or> len = 51) (\<lambda>se bk. book_add m (edge_added b se) bk)) (fh_de_parse_add_order_msg hooks b len st)"
  using assms unfolding fh_de_parse_add_order_msg_def edge_sizes
  by (auto intro!: edge_rules wp_edge_deliver [of n m] wp_symbol [of n m] wp_edge_add [of n m] edge_post_bad)
    (auto intro!: edge_postI simp: edge_added_def edge_ref_def msg_step_def same_line_def book_def split: if_splits)

lemma edge_order_executed_handled:
  assumes "tables_ok n m st" and "67 \<le> length b"
  shows "succeeds (edge_post n m st (len = 50) (\<lambda>se bk. book_take (edge_ref b) (edge_num b 22 6) bk)) (fh_de_parse_order_executed_msg hooks b len st)"
  using assms unfolding fh_de_parse_order_executed_msg_def edge_sizes
  by (auto intro!: edge_rules wp_edge_deliver [of n m] wp_edge_take [of n m] edge_post_bad)
    (auto intro!: edge_postI simp: edge_added_def edge_ref_def msg_step_def same_line_def book_def split: if_splits)

lemma edge_order_canceled_handled:
  assumes "tables_ok n m st" and "67 \<le> length b"
  shows "succeeds (edge_post n m st (len = 29) (\<lambda>se bk. book_take (edge_ref b) (edge_num b 22 6) bk)) (fh_de_parse_order_canceled_msg hooks b len st)"
  using assms unfolding fh_de_parse_order_canceled_msg_def edge_sizes
  by (auto intro!: edge_rules wp_edge_deliver [of n m] wp_edge_take [of n m] edge_post_bad)
    (auto intro!: edge_postI simp: edge_added_def edge_ref_def msg_step_def same_line_def book_def split: if_splits)

lemma edge_trade_handled:
  assumes "tables_ok n m st" and "67 \<le> length b"
  shows "succeeds (edge_post n m st (len = 67) (\<lambda>se bk. bk)) (fh_de_parse_trade_msg hooks b len st)"
  using assms unfolding fh_de_parse_trade_msg_def edge_sizes
  by (auto intro!: edge_rules wp_edge_deliver [of n m] edge_post_bad)
    (auto intro!: edge_postI simp: edge_added_def edge_ref_def msg_step_def same_line_def book_def split: if_splits)

lemma edge_broken_trade_handled:
  assumes "tables_ok n m st" and "67 \<le> length b"
  shows "succeeds (edge_post n m st (len = 32) (\<lambda>se bk. bk)) (fh_de_parse_broken_trade_msg hooks b len st)"
  using assms unfolding fh_de_parse_broken_trade_msg_def edge_sizes
  by (auto intro!: edge_rules wp_edge_deliver [of n m] edge_post_bad)
    (auto intro!: edge_postI simp: edge_added_def edge_ref_def msg_step_def same_line_def book_def split: if_splits)

lemma edge_security_status_handled:
  assumes "tables_ok n m st" and "67 \<le> length b"
  shows "succeeds (edge_post n m st (len = 18) (\<lambda>se bk. bk)) (fh_de_parse_security_status_msg hooks b len st)"
  using assms unfolding fh_de_parse_security_status_msg_def edge_sizes
  by (auto intro!: edge_rules wp_edge_deliver [of n m] edge_post_bad)
    (auto intro!: edge_postI simp: edge_added_def edge_ref_def msg_step_def same_line_def book_def split: if_splits)

subsection \<open>The message parser\<close>

text \<open>The lengths a type of message may have, and what the message does to the order book.\<close>

definition edge_good :: "u8 \<Rightarrow> int \<Rightarrow> bool" where
  "edge_good c len \<longleftrightarrow>
     (c, len) \<in> {(83, 12), (65, 47), (65, 51), (69, 50), (88, 29), (80, 67), (66, 32), (72, 18)}"

definition edge_effect :: "nat \<Rightarrow> u8 list \<Rightarrow> u8 \<Rightarrow> ptr \<Rightarrow> (ord_key \<rightharpoonup> lkp_ord) \<Rightarrow> ord_key \<rightharpoonup> lkp_ord" where
  "edge_effect m b c se bk =
    (if c = 65 then book_add m (edge_added b se) bk
     else if c = 69 \<or> c = 88 then book_take (edge_ref b) (edge_num b 22 6) bk
     else bk)"

lemma edge_handled:
  assumes "tables_ok n m st" and "67 \<le> length b" and "edge_handler c = Some handler"
  shows "succeeds (edge_post n m st (edge_good c len) (edge_effect m b c)) (handler hooks b len st)"
  using assms edge_sys_event_handled [OF assms(1,2), of len hooks] edge_add_order_handled [OF assms(1,2), of len hooks]
    edge_order_executed_handled [OF assms(1,2), of len hooks] edge_order_canceled_handled [OF assms(1,2), of len hooks]
    edge_trade_handled [OF assms(1,2), of len hooks] edge_broken_trade_handled [OF assms(1,2), of len hooks]
    edge_security_status_handled [OF assms(1,2), of len hooks]
  by (simp add: edge_handler_def edge_good_def edge_effect_def [abs_def] split: if_splits)

lemma edge_post_step:
  assumes "tables_ok n m st" and "edge_post n m st good f (st', rc, d)"
  shows "\<exists>se. tables_ok n m st' \<and> lh_next_seq_no st' = lh_next_seq_no st \<and> lh_ord_enabled st' = lh_ord_enabled st \<and>
    book st' = (if lh_ord_enabled st \<and> good then f se (book st) else book st)"
proof (cases good)
  case True
  then obtain se where "msg_step n m st (if lh_ord_enabled st then f se (book st) else Map.empty) st'"
    using assms(2) by (auto simp: edge_post_def step_to_def)
  then show ?thesis using True by (auto simp: msg_step_def same_line_def)
qed (use assms in \<open>simp add: edge_post_def\<close>)

lemma edge_send_line:
  assumes "hook_msg_send hooks = None \<or> data \<noteq> None"
  shows "\<exists>st' rc. edge_send hooks data st = Some (st', rc) \<and> tables_ok n m st' = tables_ok n m st \<and> book st' = book st \<and>
    lh_next_seq_no st' = lh_next_seq_no st \<and> lh_ord_enabled st' = lh_ord_enabled st"
proof (cases "hook_msg_send hooks")
  case (Some h)
  then obtain p where "data = Some p" using assms by auto
  then show ?thesis using Some by (simp add: edge_send_def tables_ok_def book_def)
qed (simp add: edge_send_def)

lemma edge_good_handler: "edge_good c len \<Longrightarrow> edge_handler c \<noteq> None"
  by (auto simp: edge_good_def edge_handler_def)

lemma edge_parse_msg_ok:
  fixes st :: "'d edge_state"
  assumes ok: "tables_ok n m st" and len: "67 \<le> length b"
    and safe: "hook_msg_send hooks = None \<or> c \<noteq> 69 \<or> len = 50"
  shows "\<exists>st' rc se. fh_edge_parse_msg hooks b len c st = Some (st', rc) \<and> tables_ok n m st' \<and>
    lh_ord_enabled st' = lh_ord_enabled st \<and>
    book st' = (if lh_ord_enabled st \<and> edge_good c len then edge_effect m b c se (book st) else book st) \<and>
    lh_next_seq_no st' \<in> {lh_next_seq_no st, lh_next_seq_no st + 1} \<and>
    (rc = FH_OK \<longrightarrow> lh_next_seq_no st' = lh_next_seq_no st + 1)"
proof (cases "edge_handler c :: ('d edge_hooks \<Rightarrow> u8 list \<Rightarrow> int \<Rightarrow> 'd edge_state \<Rightarrow> (edge_msg, 'd) handler_result) option")
  case None
  then have "\<not> edge_good c len" "fh_edge_parse_msg hooks b len c st = Some (st, -1)"
    using edge_good_handler by (blast, simp add: fh_edge_parse_msg_def)
  then show ?thesis using ok by simp
next
  case (Some handler)
  obtain st1 rc1 d where h: "handler hooks b len st = Some (st1, rc1, d)"
    "edge_post n m st (edge_good c len) (edge_effect m b c) (st1, rc1, d)"
    using edge_handled [OF ok len Some, of len hooks] by (auto simp: succeeds_def)
  then obtain se where s: "tables_ok n m st1" "lh_next_seq_no st1 = lh_next_seq_no st" "lh_ord_enabled st1 = lh_ord_enabled st"
    "book st1 = (if lh_ord_enabled st \<and> edge_good c len then edge_effect m b c se (book st) else book st)"
    using edge_post_step [OF ok h(2)] by blast
  show ?thesis
  proof (cases "rc1 \<noteq> FH_OK \<and> c \<noteq> 69")
    case True
    then show ?thesis using Some h(1) s by (auto simp: fh_edge_parse_msg_def)
  next
    case False
    have "hook_msg_send hooks = None \<or> d \<noteq> None"
      using False safe h(2) by (auto simp: edge_post_def edge_good_def split: if_splits)
    then obtain st2 rc2 where "edge_send hooks d (st1\<lparr>lh_next_seq_no := lh_next_seq_no st1 + 1\<rparr>) = Some (st2, rc2)"
      "tables_ok n m st2" "book st2 = book st1" "lh_next_seq_no st2 = lh_next_seq_no st + 1"
      "lh_ord_enabled st2 = lh_ord_enabled st"
      using edge_send_line [of hooks d "st1\<lparr>lh_next_seq_no := lh_next_seq_no st1 + 1\<rparr>" n m] s by auto
    then show ?thesis using Some h(1) s False by (auto simp: fh_edge_parse_msg_def)
  qed
qed

subsection \<open>Fields of the wire format\<close>

lemma digit_char_signed:
  assumes "d < 10"
  shows "(scast (digit_char d) :: u32) - 48 = word_of_nat d"
proof -
  have "d \<in> {0, 1, 2, 3, 4, 5, 6, 7, 8, 9}" using assms by auto
  then show ?thesis by (elim insertE) (simp_all add: digit_char_def)
qed

lemma edge_int_digits:
  assumes "\<forall>d\<in>set ds. d < 10" and "off + k = length p"
  shows "edge_int_loop (p @ map digit_char ds @ rest) off (k + length ds) y t =
    edge_int_loop (p @ map digit_char ds @ rest) off k (y * 10 ^ length ds) (t + y * of_nat (digits_val ds))"
  using assms(1)
proof (induction ds arbitrary: rest y t rule: rev_induct)
  case (snoc d ds)
  then have d: "d < 10" by simp
  have "rd (p @ map digit_char (ds @ [d]) @ rest) (off + (k + length ds)) = Some (digit_char d)"
    using assms(2) by (simp add: rd_def nth_append add.assoc [symmetric])
  then show ?case
    using snoc.IH [of "digit_char d # rest" "y * 10"] snoc.prems digit_char_space [OF d] digit_char_signed [OF d]
    by (simp add: algebra_simps)
qed simp

lemma scast_product:
  assumes "d * unat y < 2 ^ 31"
  shows "(scast ((word_of_nat d :: u32) * y) :: u64) = of_nat (d * unat y)"
proof -
  have "(word_of_nat d :: u32) * y = word_of_nat (d * unat y)" by simp
  moreover have "unat (word_of_nat (d * unat y) :: u32) = d * unat y"
    using assms by (simp add: unat_of_nat del: of_nat_mult)
  ultimately have "sint ((word_of_nat d :: u32) * y) = int (d * unat y)"
    using sint_small [of "(word_of_nat d :: u32) * y"] assms by simp
  then show ?thesis by (metis of_int_of_nat_eq of_int_sint)
qed

lemma edge_price_digits:
  assumes "\<forall>d\<in>set ds. d < 10" and "off + k = length p" and "unat y * 10 ^ length ds \<le> 10 ^ 9"
  shows "edge_price_loop (p @ map digit_char ds @ rest) off (k + length ds) y t =
    edge_price_loop (p @ map digit_char ds @ rest) off k (y * 10 ^ length ds) (t + of_nat (unat y * digits_val ds))"
  using assms(1,3)
proof (induction ds arbitrary: rest y t rule: rev_induct)
  case (snoc d ds)
  then have d: "d < 10" by simp
  have "unat y * 10 \<le> unat y * 10 ^ length (ds @ [d])" by simp
  then have y: "unat y * 10 \<le> 10 ^ 9" using snoc.prems(2) by (rule order_trans)
  then have ty: "unat (y * 10) = unat y * 10" by (simp add: unat_word_ariths)
  have "d * unat y \<le> 10 * unat y" using d by (intro mult_right_mono) simp_all
  then have "d * unat y < 2 ^ 31" by (rule le_less_trans) (use y in simp)
  note sc = scast_product [OF this]
  have "rd (p @ map digit_char (ds @ [d]) @ rest) (off + (k + length ds)) = Some (digit_char d)"
    using assms(2) by (simp add: rd_def nth_append add.assoc [symmetric])
  then show ?case
    using snoc.IH [of "y * 10" "digit_char d # rest"] snoc.prems digit_char_space [OF d] digit_char_signed [OF d] sc ty
    by (simp add: algebra_simps)
qed simp

lemma loop_stop:
  assumes "k = 0 \<or> (p \<noteq> [] \<and> last p = 32)" and "off + k = length p"
  shows "edge_int_loop (p @ rest) off k y t = Some t" and "edge_price_loop (p @ rest) off k y t' = Some t'"
proof -
  have "p ! (off + (k - 1)) = 32" if "k > 0"
  proof -
    have "off + (k - 1) = length p - 1" using that assms(2) by simp
    then show ?thesis using that assms(1) last_conv_nth [of p] by auto
  qed
  then show "edge_int_loop (p @ rest) off k y t = Some t" "edge_price_loop (p @ rest) off k y t' = Some t'"
    using assms(2) by (cases k; simp add: rd_def nth_append)+
qed

lemma pad_stop: "k = 0 \<or> (pre @ replicate k (32::u8) \<noteq> [] \<and> last (pre @ replicate k 32) = 32)"
  by (cases k) (simp_all add: last_append)

lemma edge_int_field:
  assumes "n < 10 ^ Suc w"
  shows "fh_dirEdge_convert_int (pre @ num_field (Suc w) n @ rest) (length pre) (Suc w) = Some (of_nat n)"
proof -
  let ?ds = "dec_digits n" and ?k = "Suc w - length (dec_digits n)"
  have l: "length ?ds \<le> Suc w" using dec_digits_length [OF assms] .
  have "edge_int_loop ((pre @ replicate ?k 32) @ map digit_char ?ds @ rest) (length pre) (?k + length ?ds) 1 0 = Some (of_nat n)"
    using edge_int_digits [of ?ds "length pre" ?k "pre @ replicate ?k 32" rest 1 0] dec_digits_lt
      loop_stop(1) [OF pad_stop, of "length pre" ?k pre] by simp
  then show ?thesis using l by (simp add: fh_dirEdge_convert_int_def num_field_def)
qed

text \<open>What a price field is read as: the product of the leading one of ten digits is taken in 32 bits.\<close>

definition edge_price_value :: "nat \<Rightarrow> u64" where
  "edge_price_value n = of_nat (n mod 10 ^ 9) + scast (word_of_nat (n div 10 ^ 9 * 10 ^ 9) :: u32)"

lemma edge_price_field:
  assumes "n < 10 ^ 10"
  shows "fh_dirEdge_get_price (pre @ num_field 10 n @ rest) (length pre) = Some (edge_price_value n)"
proof (cases "n < 10 ^ 9")
  case True
  let ?ds = "dec_digits n" and ?k = "10 - length (dec_digits n)"
  have l: "length ?ds \<le> 9" using dec_digits_length [of n 8] True by simp
  then have "(10::nat) ^ length ?ds \<le> 10 ^ 9" by (intro power_increasing) simp_all
  then have "edge_price_loop ((pre @ replicate ?k 32) @ map digit_char ?ds @ rest) (length pre) (?k + length ?ds) 1 0 = Some (of_nat n)"
    using edge_price_digits [of ?ds "length pre" ?k "pre @ replicate ?k 32" 1 rest 0] dec_digits_lt
      loop_stop(2) [OF pad_stop, of "length pre" ?k pre] by simp
  then show ?thesis using l True by (simp add: fh_dirEdge_get_price_def num_field_def edge_price_value_def)
next
  case False
  then have "10 ^ 9 \<le> n" "n < 10 ^ Suc 9" using assms by simp_all
  then obtain d ds where ds: "dec_digits n = d # ds" "length ds = 9" "\<forall>x\<in>set ds. x < 10" "d < 10"
    "n = d * 10 ^ 9 + digits_val ds" "digits_val ds < 10 ^ 9" using dec_digits_Cons by blast
  have dm: "n div 10 ^ 9 = d" "n mod 10 ^ 9 = digits_val ds" using ds(5,6) by simp_all
  let ?b = "(pre @ [digit_char d]) @ map digit_char ds @ rest"
  have "edge_price_loop ?b (length pre) (1 + length ds) 1 0 =
      edge_price_loop ?b (length pre) 1 (10 ^ 9) (of_nat (digits_val ds))"
    using edge_price_digits [of ds "length pre" 1 "pre @ [digit_char d]" 1 rest 0] ds(2,3) by simp
  also have "\<dots> = Some (of_nat (digits_val ds) + scast ((word_of_nat d :: u32) * 10 ^ 9))"
    using digit_char_space [OF ds(4)] digit_char_signed [OF ds(4)] by (simp add: rd_def nth_append)
  finally show ?thesis
    using ds(1,2) dm by (simp add: fh_dirEdge_get_price_def num_field_def edge_price_value_def)
qed

lemma edge_price_value_exact:
  assumes "n < 10 ^ 10"
  shows "edge_price_value n = of_nat n \<longleftrightarrow> n < 3 * 10 ^ 9"
proof -
  define d where "d = n div 10 ^ 9"
  have n: "n = d * 10 ^ 9 + n mod 10 ^ 9" unfolding d_def by (simp only: div_mult_mod_eq)
  have "n < 10 * 10 ^ 9" using assms by simp
  then have "d < 10" unfolding d_def by (rule less_mult_imp_div_less)
  then have "d \<in> {0, 1, 2, 3, 4, 5, 6, 7, 8, 9}" by auto
  then have "(scast (word_of_nat (d * 10 ^ 9) :: u32) :: u64) = of_nat (d * 10 ^ 9) \<longleftrightarrow> d < 3"
    by (elim insertE) simp_all
  moreover have "d < 3 \<longleftrightarrow> n < 3 * 10 ^ 9" unfolding d_def by (simp add: div_less_iff_less_mult)
  moreover have "(of_nat n :: u64) = of_nat (n mod 10 ^ 9) + of_nat (d * 10 ^ 9)"
    by (subst n) (simp only: of_nat_add add.commute)
  ultimately show ?thesis unfolding edge_price_value_def d_def [symmetric] by (simp only: add_left_cancel)
qed

text \<open>An add-order message: the packet type, then the fields; attributed quotes have the name of a market maker.\<close>

definition edge_add_wire ::
  "nat \<Rightarrow> u8 list \<Rightarrow> u8 \<Rightarrow> nat \<Rightarrow> u8 list \<Rightarrow> nat \<Rightarrow> u8 list \<Rightarrow> u8 list" where
  "edge_add_wire ts ref side shares security price mmid =
     [83] @ num_field 8 ts @ [65] @ ref @ [side] @ num_field 6 shares @ security @ num_field 10 price @ [65] @ mmid @ [10]"

lemma edge_add_wire_reads:
  fixes side :: u8 and rest :: "u8 list"
  assumes "ts < 10 ^ 8" and "shares < 10 ^ 6" and "price < 10 ^ 10"
    and "length ref = 12" and "length security = 6" and "length mmid = 4"
  defines "b \<equiv> edge_add_wire ts ref side shares security price mmid @ rest"
  shows "edge_hdr_of b = Some \<lparr>edh_timestamp = of_nat ts, edh_message_type = 65\<rparr>"
    and "rd_bytes b 10 12 = Some ref" and "rd b 22 = Some side"
    and "fh_dirEdge_convert_int b 23 6 = Some (of_nat shares)"
    and "rd_bytes b 29 6 = Some security" and "fh_dirEdge_get_price b 35 = Some (edge_price_value price)"
    and "rd b 45 = Some 65" and "rd_bytes b 46 4 = Some mmid"
proof -
  have l: "length (num_field 8 ts) = 8" "length (num_field 6 shares) = 6" "length (num_field 10 price) = 10"
    using dec_digits_length [of ts 7] dec_digits_length [of shares 5] dec_digits_length [of price 9] assms(1-3)
    by (simp_all add: num_field_length)
  let ?p = "[83] @ num_field 8 ts @ [65] @ ref @ [side]"
  let ?q = "?p @ num_field 6 shares @ security"
  show "edge_hdr_of b = Some \<lparr>edh_timestamp = of_nat ts, edh_message_type = 65\<rparr>"
    using edge_int_field [of ts 7 "[83]"] l assms(1) by (simp add: edge_hdr_of_def b_def edge_add_wire_def rd_def nth_append)
  show "rd_bytes b 10 12 = Some ref" "rd b 22 = Some side" "rd_bytes b 29 6 = Some security"
    "rd b 45 = Some 65" "rd_bytes b 46 4 = Some mmid"
    using l assms(4-6) by (simp_all add: b_def edge_add_wire_def rd_def rd_bytes_def nth_append)
  show "fh_dirEdge_convert_int b 23 6 = Some (of_nat shares)"
    using edge_int_field [of shares 5 ?p] l assms(2,4) by (simp add: b_def edge_add_wire_def)
  show "fh_dirEdge_get_price b 35 = Some (edge_price_value price)"
    using edge_price_field [OF assms(3), of ?q] l assms(4,5) by (simp add: b_def edge_add_wire_def)
qed

lemma c_strncpy_full:
  assumes "length xs = n" and "0 \<notin> set xs"
  shows "c_strncpy xs n = xs"
proof -
  have t: "takeWhile (\<lambda>c. c \<noteq> 0) xs = xs" unfolding takeWhile_eq_all_conv using assms(2) by auto
  show ?thesis using assms(1) by (simp add: c_strncpy_def t)
qed

subsection \<open>Properties\<close>


text \<open>
  C13.  Decoding of an order: an add-order message of an attributed quote in the wire format is delivered with the
  reference, side, shares, security and market maker it was encoded from, after the symbol was looked up and the order
  entered in the order table.  The price is the one encoded exactly when it is below three thousand million
  ten-thousandths; from there on the 32-bit product of its leading digit is wrong.
\<close>

theorem edge_add_order_decodes:
  assumes "ts < 10 ^ 8" and "shares < 10 ^ 6" and "price < 10 ^ 10"
    and "length ref = 12" and "length security = 6" and "length mmid = 4" and "0 \<notin> set mmid"
    and b_def: "b = edge_add_wire ts ref side shares security price mmid @ rest"
  shows "\<exists>p. fh_de_parse_add_order_msg hooks b 51 st =
    do { (st1, se) \<leftarrow> lh_fetch_symbol security st;
         (st2, ord) \<leftarrow> edge_order_add ref p (of_nat shares) side security se st1;
         Some (edge_deliver hooks IAddOrder
           (EAddOrder \<lparr>eda_hdr = \<lparr>edh_timestamp = of_nat ts, edh_message_type = 65\<rparr>, eda_order_ref = ref,
              eda_side_indicator = side, eda_order_quantity = of_nat shares, eda_security = security, eda_price = p,
              eda_display = 65, eda_mmid = Some mmid, eda_sym_entry = se, eda_ord_entry = ord,
              eda_raw = \<lparr>edr_message = b, edr_len = 51\<rparr>\<rparr>) b 51 st2) } \<and>
    (p = of_nat price \<longleftrightarrow> price < 3 * 10 ^ 9)"
proof -
  have "edge_mmid b 65 = Some (Some mmid)"
    using edge_add_wire_reads(8) [OF assms(1-6), of side rest] c_strncpy_full [OF assms(6,7)]
    by (simp add: edge_mmid_def b_def)
  then show ?thesis
    using edge_add_wire_reads [OF assms(1-6), of side rest, folded b_def] edge_price_value_exact [OF assms(3)]
    by (intro exI [of _ "edge_price_value price"])
      (simp add: fh_de_parse_add_order_msg_def edge_raw_of_def ADD_ORDER_ATTIRBUTED_QUOTE_MSG_SIZE_def)
qed

text \<open>
  C37.  The status of the handler of executions is not looked at: an execution of a wrong length is counted as received,
  and the send hook is called with a pointer that was never set, which is a fault; the same length under any other
  type is an error without effect.
\<close>

theorem edge_bad_execution_faults:
  assumes "\<not> edge_good c len"
  shows "fh_edge_parse_msg hooks b len c st =
    (if c \<noteq> 69 then Some (st, -1)
     else if hook_msg_send hooks = None then Some (st\<lparr>lh_next_seq_no := lh_next_seq_no st + 1\<rparr>, FH_OK)
     else None)"
  using assms by (auto simp: fh_edge_parse_msg_def edge_handler_def edge_good_def edge_sizes fh_de_parse_sys_event_msg_def
      fh_de_parse_add_order_msg_def fh_de_parse_order_executed_msg_def fh_de_parse_order_canceled_msg_def
      fh_de_parse_trade_msg_def fh_de_parse_broken_trade_msg_def fh_de_parse_security_status_msg_def edge_send_def
      split: option.splits if_splits)

subsection \<open>Witnesses\<close>

definition edge_ex_hooks :: "unit edge_hooks" where
  "edge_ex_hooks = \<lparr>hook_alert = None, hook_msg_send = Some (\<lambda>_ _. FH_OK), hook_msg = \<lambda>_. None\<rparr>"

text \<open>A line with an empty order table of two entries, and an order of 100 shares.\<close>

definition edge_ex_line :: "unit edge_state" where
  "edge_ex_line = \<lparr>lh_gaplist = None, lh_gapnode = None, lh_inorder = True, lh_next_seq_no = 1, lh_timestamp = 0,
     lh_stats = \<lparr>st_packets = 0, st_messages = 0, st_bytes = 0, st_packet_errors = 0, st_message_errors = 0,
       st_duplicate_packets = 0, st_gaps = 0, st_lost_messages = 0, st_recovered_messages = 0\<rparr>,
     lh_sym_enabled = False, lh_ord_enabled = True,
     lh_symbol_table = ex_symbols, lh_order_table = ex_orders, lh_trace = []\<rparr>"

definition edge_ex_ref :: "u8 list" where
  "edge_ex_ref = replicate 12 65"

definition edge_ex_add :: "u8 list" where
  "edge_ex_add = edge_add_wire 34200000 edge_ex_ref 66 100 [65, 65, 80, 76, 32, 32] 123400 [69, 68, 71, 69] @ replicate 30 0"

lemma edge_ex_line_ok: "tables_ok 2 2 edge_ex_line" "book edge_ex_line = Map.empty"
proof -
  note init = ex_tables_init(1) [unfolded fh_shr_lkp_ord_init_def]
  have "lkp_ok 2 32 lo_key ex_orders" "ord_view ex_orders = Map.empty"
    using lkp_init_ok(1) [OF init kops_ok_tables(1), where a = 4096 and b = 65536 and klen = 32 and keyf = lo_key]
      lkp_init_ok(2) [OF init kops_ok_tables(1), where a = 4096 and b = 65536 and klen = 32]
    by (simp_all add: ex_mem_def)
  then show "tables_ok 2 2 edge_ex_line" "book edge_ex_line = Map.empty"
    by (simp_all add: tables_ok_def edge_ex_line_def book_def)
qed

lemma edge_ex_add_fields: "67 \<le> length edge_ex_add" "take 12 (drop 10 edge_ex_add) = edge_ex_ref" "edge_num edge_ex_add 23 6 = 100"
proof -
  note r = edge_add_wire_reads [of 34200000 100 123400 edge_ex_ref "[65, 65, 80, 76, 32, 32]" "[69, 68, 71, 69]" 66 "replicate 30 0",
      folded edge_ex_add_def]
  have len: "length edge_ex_ref = 12" by (simp add: edge_ex_ref_def)
  then show "take 12 (drop 10 edge_ex_add) = edge_ex_ref" using r(2) by (simp add: rd_bytes_def split: if_splits)
  show "edge_num edge_ex_add 23 6 = 100" using r(4) len by (simp add: edge_num_def)
  have "length (num_field 8 34200000) = 8" "length (num_field 6 100) = 6" "length (num_field 10 123400) = 10"
    using dec_digits_length [of 34200000 7] dec_digits_length [of 100 5] dec_digits_length [of 123400 9]
    by (simp_all add: num_field_length)
  then show "67 \<le> length edge_ex_add" using len by (simp add: edge_ex_add_def edge_add_wire_def)
qed


theorem edge_add_order_decodes_witness:
  "\<exists>st' p. fh_de_parse_add_order_msg edge_ex_hooks edge_ex_add 51 (edge_ex_line\<lparr>lh_ord_enabled := False\<rparr>) =
     Some (st', FH_OK, Some (Parsed (EBytes edge_ex_add 51))) \<and> p = (123400 :: nat) \<and> p < 3 * 10 ^ 9"
  using edge_add_order_decodes [of 34200000 100 123400 edge_ex_ref "[65, 65, 80, 76, 32, 32]" "[69, 68, 71, 69]" edge_ex_add 66 "replicate 30 0"
      edge_ex_hooks "edge_ex_line\<lparr>lh_ord_enabled := False\<rparr>"]
  by (simp add: edge_ex_add_def edge_ex_ref_def lh_fetch_symbol_def edge_ex_line_def edge_order_add_def edge_deliver_def edge_ex_hooks_def)

theorem edge_bad_execution_faults_witness:
  "fh_edge_parse_msg edge_ex_hooks edge_ex_add 51 69 edge_ex_line = None \<and>
   fh_edge_parse_msg edge_ex_hooks edge_ex_add 51 88 edge_ex_line = Some (edge_ex_line, -1)"
  using edge_bad_execution_faults [of 69 51 edge_ex_hooks edge_ex_add edge_ex_line]
    edge_bad_execution_faults [of 88 51 edge_ex_hooks edge_ex_add edge_ex_line]
  by (simp add: edge_good_def edge_ex_hooks_def)

end
