(* ===== verification/EdgeLogin.thy ===== *)
theory EdgeLogin
  imports Edge
begin

section \<open>Logging in to DirectEdge (\<^verbatim>\<open>fh_edge_login.c\<close>, \<^verbatim>\<open>fh_edge_connect.c\<close>)\<close>

text \<open>
  The conversions between sequence numbers and fields of ten characters, the login request, the answers of the server and
  connecting.  The conversion to characters is written out as the ten cases of the code.
\<close>

subsection \<open>Sequence numbers as text\<close>

text \<open>Storing a number plus \<^verbatim>\<open>'0'\<close> in a \<^verbatim>\<open>char\<close>.\<close>

definition asc :: "u64 \<Rightarrow> u8" where
  "asc x = ucast (x + 48)"

definition convert64to10chars :: "u64 \<Rightarrow> u8 list" where
  "convert64to10chars val =
    (let sess = replicate 10 32 in
      if val < 10 then sess[9 := asc val]
      else if val < 100 then sess[8 := asc (val div 10), 9 := asc (val mod 10)]
      else if val < 1000 then
        (let temp = (val div 100) * 100; temp1 = ((val - temp) div 10) * 10
         in sess[7 := asc (temp div 100), 8 := asc (temp1 div 10), 9 := asc ((val - (temp + temp1)) mod 10)])
      else if val < 10000 then
        (let temp = (val div 1000) * 1000; temp1 = ((val - temp) div 100) * 100
         in sess[6 := asc (temp div 1000), 7 := asc (temp1 div 100), 8 := asc ((val - (temp + temp1)) div 10), 9 := asc ((val - (temp + temp1)) mod 10)])
      else if val < 100000 then
        (let temp = (val div 10000) * 10000; temp1 = ((val - temp) div 1000) * 1000;
             temp2 = ((val - (temp + temp1)) div 100) * 100
         in sess[5 := asc (temp div 10000), 6 := asc (temp1 div 1000), 7 := asc (temp2 div 100), 8 := asc ((val - (temp + temp1 + temp2)) div 10),
                 9 := asc ((val - (temp + temp1 + temp2)) mod 10)])
      else if val < 1000000 then
        (let temp = (val div 100000) * 100000; temp1 = ((val - temp) div 10000) * 10000;
             temp2 = ((val - (temp + temp1)) div 1000) * 1000; temp3 = ((val - (temp + temp1 + temp2)) div 100) * 100
         in sess[4 := asc (temp div 100000), 5 := asc (temp1 div 10000), 6 := asc (temp2 div 1000), 7 := asc (temp3 div 100),
                 8 := asc ((val - (temp + temp1 + temp2 + temp3)) div 10), 9 := asc ((val - (temp + temp1 + temp2 + temp3)) mod 10)])
      else if val < 10000000 then
        (let temp = (val div 1000000) * 1000000; temp1 = ((val - temp) div 100000) * 100000;
             temp2 = ((val - (temp + temp1)) div 10000) * 10000; temp3 = ((val - (temp + temp1 + temp2)) div 1000) * 1000;
             temp4 = ((val - (temp + temp1 + temp2 + temp3)) div 100) * 100
         in sess[3 := asc (temp div 1000000), 4 := asc (temp1 div 100000), 5 := asc (temp2 div 10000), 6 := asc (temp3 div 1000),
                 7 := asc (temp4 div 100), 8 := asc ((val - (temp + temp1 + temp2 + temp3 + temp4)) div 10), 9 := asc ((val - (temp + temp1 + temp2 + temp3 + temp4)) mod 10)])
      else if val < 100000000 then
        (let temp = (val div 10000000) * 10000000; temp1 = ((val - temp) div 1000000) * 1000000;
             temp2 = ((val - (temp + temp1)) div 100000) * 100000; temp3 = ((val - (temp + temp1 + temp2)) div 10000) * 10000;
             temp4 = ((val - (temp + temp1 + temp2 + temp3)) div 1000) * 1000; temp5 = ((val - (temp + temp1 + temp2 + temp3 + temp4)) div 100) * 100
         in sess[2 := asc (temp div 10000000), 3 := asc (temp1 div 1000000), 4 := asc (temp2 div 100000), 5 := asc (temp3 div 10000),
                 6 := asc (temp4 div 1000), 7 := asc (temp5 div 100), 8 := asc ((val - (temp + temp1 + temp2 + temp3 + temp4 + temp5)) div 10), 9 := asc ((val - (temp + temp1 + temp2 + temp3 + temp4 + temp5)) mod 10)])
      else if val < 1000000000 then
        (let temp = (val div 100000000) * 100000000; temp1 = ((val - temp) div 10000000) * 10000000;
             temp2 = ((val - (temp + temp1)) div 1000000) * 1000000; temp3 = ((val - (temp + temp1 + temp2)) div 100000) * 100000;
             temp4 = ((val - (temp + temp1 + temp2 + temp3)) div 10000) * 10000; temp5 = ((val - (temp + temp1 + temp2 + temp3 + temp4)) div 1000) * 1000;
             temp6 = ((val - (temp + temp1 + temp2 + temp3 + temp4 + temp5)) div 100) * 100
         in sess[1 := asc (temp div 100000000), 2 := asc (temp1 div 10000000), 3 := asc (temp2 div 1000000), 4 := asc (temp3 div 100000),
                 5 := asc (temp4 div 10000), 6 := asc (temp5 div 1000), 7 := asc (temp6 div 100), 8 := asc ((val - (temp + temp1 + temp2 + temp3 + temp4 + temp5 + temp6)) div 10),
                 9 := asc ((val - (temp + temp1 + temp2 + temp3 + temp4 + temp5 + temp6)) mod 10)])
      else
        (let temp = (val div 1000000000) * 1000000000; temp1 = ((val - temp) div 100000000) * 100000000;
             temp2 = ((val - (temp + temp1)) div 10000000) * 10000000; temp3 = ((val - (temp + temp1 + temp2)) div 1000000) * 1000000;
             temp4 = ((val - (temp + temp1 + temp2 + temp3)) div 100000) * 100000; temp5 = ((val - (temp + temp1 + temp2 + temp3 + temp4)) div 10000) * 10000;
             temp6 = ((val - (temp + temp1 + temp2 + temp3 + temp4 + temp5)) div 1000) * 1000; temp7 = ((val - (temp + temp1 + temp2 + temp3 + temp4 + temp5 + temp6)) div 100) * 100
         in sess[0 := asc (temp div 1000000000), 1 := asc (temp1 div 100000000), 2 := asc (temp2 div 10000000), 3 := asc (temp3 div 1000000),
                 4 := asc (temp4 div 100000), 5 := asc (temp5 div 10000), 6 := asc (temp6 div 1000), 7 := asc (temp7 div 100),
                 8 := asc ((val - (temp + temp1 + temp2 + temp3 + temp4 + temp5 + temp6 + temp7)) div 10), 9 := asc ((val - (temp + temp1 + temp2 + temp3 + temp4 + temp5 + temp6 + temp7)) mod 10)]))"

text \<open>The digits from the first one on.\<close>

lemma dec_digits_step: "10 \<le> n \<Longrightarrow> dec_digits n = dec_digits (n div 10) @ [n mod 10]"
  by (subst dec_digits.simps) simp

lemma dec_digits_one: "n < 10 \<Longrightarrow> dec_digits n = [n]"
  by (subst dec_digits.simps) simp

lemma dec_digits_top:
  assumes "10 ^ k \<le> n" and "n < 10 ^ Suc k"
  shows "dec_digits n = map (\<lambda>j. n div 10 ^ j mod 10) (rev [0..<Suc k])"
  using assms
proof (induction k arbitrary: n)
  case (Suc k)
  have "(10 :: nat) \<le> 10 ^ Suc k" by simp
  then have "10 \<le> n" using Suc.prems(1) by (rule order_trans)
  moreover have "10 ^ k \<le> n div 10" "n div 10 < 10 ^ Suc k" using Suc.prems by auto
  ultimately have "dec_digits n = map (\<lambda>j. n div 10 div 10 ^ j mod 10) (rev [0..<Suc k]) @ [n mod 10]"
    using Suc.IH dec_digits_step by simp
  moreover have "map (\<lambda>j. n div 10 div 10 ^ j mod 10) (rev [0..<Suc k]) = map (\<lambda>j. n div 10 ^ j mod 10) (rev [1..<Suc (Suc k)])"
    by (simp add: map_Suc_upt [symmetric] rev_map div_mult2_eq del: upt_Suc)
  ultimately show ?case by (simp add: upt_conv_Cons del: upt_Suc)
qed (simp add: dec_digits_one)

lemma div_mult_div: "(x :: u64) div c * c div c = x div c"
proof -
  have "unat x div unat c * unat c < 2 ^ 64"
    by (rule le_less_trans [OF div_times_less_eq_dividend]) (use unat_lt [of x] in simp)
  then have "unat (x div c * c) = unat x div unat c * unat c"
    using unat_mult_lem [of "x div c" c] by (simp add: unat_div_distrib)
  then have "unat (x div c * c div c) = unat (x div c)"
    by (cases "unat c = 0") (simp_all add: unat_div_distrib)
  then show ?thesis by (simp add: word_unat_eq_iff)
qed

lemma asc_digit: "asc x = digit_char (unat x)"
proof -
  have "unat (x + 48) = take_bit 64 (unat x + 48)" by (simp add: unat_word_ariths take_bit_eq_mod)
  then have "(word_of_nat (unat (x + 48)) :: u8) = word_of_nat (unat x + 48)"
    by (simp only: word_of_nat_eq_iff take_bit_take_bit) simp
  moreover have "asc x = word_of_nat (unat (x + 48))" by (simp only: asc_def of_nat_unat)
  ultimately show ?thesis by (simp only: digit_char_def of_nat_add of_nat_numeral add.commute)
qed

lemma digit_mod: "n mod (10 * c) div c = n div c mod (10 :: nat)"
  using mod_mult2_eq [of n c 10] by (cases "c = 0") (simp_all add: mult.commute)

lemma num_field_top:
  assumes "10 ^ k \<le> n" and "n < 10 ^ Suc k"
  shows "num_field 10 n = replicate (10 - Suc k) 32 @ map (\<lambda>j. digit_char (n mod 10 ^ Suc j div 10 ^ j)) (rev [0..<Suc k])"
  using dec_digits_top [OF assms] by (simp add: num_field_def digit_mod comp_def del: upt_Suc)

lemma sess_updates:
  "[a, b, c, d, e, f, g, h, i, j][0 := v] = [v, b, c, d, e, f, g, h, i, j]"
  "[a, b, c, d, e, f, g, h, i, j][1 := v] = [a, v, c, d, e, f, g, h, i, j]"
  "[a, b, c, d, e, f, g, h, i, j][2 := v] = [a, b, v, d, e, f, g, h, i, j]"
  "[a, b, c, d, e, f, g, h, i, j][3 := v] = [a, b, c, v, e, f, g, h, i, j]"
  "[a, b, c, d, e, f, g, h, i, j][4 := v] = [a, b, c, d, v, f, g, h, i, j]"
  "[a, b, c, d, e, f, g, h, i, j][5 := v] = [a, b, c, d, e, v, g, h, i, j]"
  "[a, b, c, d, e, f, g, h, i, j][6 := v] = [a, b, c, d, e, f, v, h, i, j]"
  "[a, b, c, d, e, f, g, h, i, j][7 := v] = [a, b, c, d, e, f, g, v, i, j]"
  "[a, b, c, d, e, f, g, h, i, j][8 := v] = [a, b, c, d, e, f, g, h, v, j]"
  "[a, b, c, d, e, f, g, h, i, j][9 := v] = [a, b, c, d, e, f, g, h, i, v]"
  by (simp_all add: numeral_eq_Suc)

lemma sess_blank:
  "replicate 2 (32 :: u8) = [32, 32]"
  "replicate 3 (32 :: u8) = [32, 32, 32]"
  "replicate 4 (32 :: u8) = [32, 32, 32, 32]"
  "replicate 5 (32 :: u8) = [32, 32, 32, 32, 32]"
  "replicate 6 (32 :: u8) = [32, 32, 32, 32, 32, 32]"
  "replicate 7 (32 :: u8) = [32, 32, 32, 32, 32, 32, 32]"
  "replicate 8 (32 :: u8) = [32, 32, 32, 32, 32, 32, 32, 32]"
  "replicate 9 (32 :: u8) = [32, 32, 32, 32, 32, 32, 32, 32, 32]"
  "replicate 10 (32 :: u8) = [32, 32, 32, 32, 32, 32, 32, 32, 32, 32]"
  by (simp_all add: numeral_eq_Suc)

lemmas convert_temps = Let_def diff_diff_eq [symmetric] minus_div_mult_eq_mod div_mult_div sess_blank sess_updates word_less_nat_alt
lemmas convert_digits = asc_digit unat_div_distrib unat_mod_distrib mod_mod_cancel

lemma convert_at:
  assumes "k \<in> {0, 1, 2, 3, 4, 5, 6, 7, 8, 9}" and "10 ^ k \<le> unat val" and "unat val < 10 ^ Suc k"
  shows "convert64to10chars val = num_field 10 (unat val)"
  unfolding num_field_top [OF assms(2,3)] using assms
  by (elim insertE emptyE; simp add: convert64to10chars_def convert_temps upt_rec; simp add: convert_digits)

lemma convert_chars:
  assumes "unat val < 10 ^ 10"
  shows "convert64to10chars val = num_field 10 (unat val)"
proof (cases "unat val = 0")
  case True
  then show ?thesis
    by (simp add: convert64to10chars_def num_field_def dec_digits_one asc_digit sess_blank sess_updates word_less_nat_alt)
next
  case False
  then obtain k where k: "10 ^ k \<le> unat val" "unat val < 10 ^ Suc k" using ex_power_ivl1 [of 10 "unat val"] by auto
  have "(10 :: nat) ^ k < 10 ^ 10" using k(1) assms by (rule le_less_trans)
  then have "k < 10" by (rule power_less_imp_less_exp [rotated]) simp
  then have "k \<in> {0, 1, 2, 3, 4, 5, 6, 7, 8, 9}" by auto
  then show ?thesis using k by (rule convert_at)
qed

text \<open>Reading the number back, with a factor that is set to 1 for the first character.\<close>

fun seq_chars_loop :: "u8 list \<Rightarrow> nat \<Rightarrow> u32 \<Rightarrow> u64 \<Rightarrow> u64 option" where
  "seq_chars_loop b 0 y temp = Some temp"
| "seq_chars_loop b (Suc i) y temp = do {
     c \<leftarrow> rd b i;
     if c = 32 then Some temp
     else let y = (if y = 0 then 1 else y * 10) in
       seq_chars_loop b i y (temp + scast ((scast c - 48) * y))
   }"

definition convert10chartoInt :: "u8 list \<Rightarrow> u64 option" where
  "convert10chartoInt seqNum = seq_chars_loop seqNum 10 0 0"

text \<open>It reads what the price fields of the messages read.\<close>

lemma seq_loop_price:
  assumes "k + i \<le> 10"
  shows "seq_chars_loop b i (10 ^ k) t = edge_price_loop b 0 i (10 ^ Suc k) t"
  using assms
proof (induction i arbitrary: k t)
  case (Suc i)
  then have "k \<in> {0, 1, 2, 3, 4, 5, 6, 7, 8, 9}" by auto
  then have "(10 :: u32) ^ k \<noteq> 0" by (elim insertE emptyE) simp_all
  then show ?case using Suc.IH [of "Suc k"] Suc.prems by (cases "rd b i") (auto simp: Let_def algebra_simps)
qed simp

lemma seq_loop_first: "i \<le> 9 \<Longrightarrow> seq_chars_loop b (Suc i) 0 t = edge_price_loop b 0 (Suc i) 1 t"
  using seq_loop_price [of 0 i b] by (cases "rd b i") auto

lemma convert10_price: "convert10chartoInt b = fh_dirEdge_get_price b 0"
proof -
  have "(10 :: nat) = Suc 9" by simp
  then show ?thesis unfolding convert10chartoInt_def fh_dirEdge_get_price_def using seq_loop_first [of 9 b 0] by (simp only:)
qed

subsection \<open>Logging in\<close>

text \<open>
  The login messages of \<^verbatim>\<open>SCRATCH_session_mgmt_prot.h\<close> with \<^verbatim>\<open>SOUPTCP2_0\<close>.  The request is a file-scope
  variable; the current session is one of the line handler.
\<close>

record login_request_msg =
  lr_msg_type :: u8
  lr_login_name :: "u8 list"
  lr_password :: "u8 list"
  lr_session_number :: "u8 list"
  lr_initial_seq_number :: "u8 list"
  lr_msg_term :: u8

record login_state =
  lg_msg :: login_request_msg
  lg_cur_session :: "u8 list"
  lg_seq_no :: u64

definition login_msg_init :: login_request_msg where
  "login_msg_init = \<lparr>lr_msg_type = 76, lr_login_name = replicate 6 32, lr_password = replicate 10 32,
     lr_session_number = replicate 10 32, lr_initial_seq_number = replicate 9 48 @ [49], lr_msg_term = 10\<rparr>"

definition login_bytes :: "login_request_msg \<Rightarrow> u8 list" where
  "login_bytes m = [lr_msg_type m] @ lr_login_name m @ lr_password m @ lr_session_number m @ lr_initial_seq_number m @ [lr_msg_term m]"

text \<open>
  The name and the password are those of the first line's primary connection, of six and ten bytes.  The session
  of the request is copied to the current session, not the other way round.
\<close>

definition init_login_msg :: "u8 list \<Rightarrow> u8 list \<Rightarrow> login_state \<Rightarrow> login_state" where
  "init_login_msg login_name login_passwd st =
     st\<lparr>lg_msg := (lg_msg st)\<lparr>lr_login_name := login_name, lr_password := login_passwd,
                              lr_initial_seq_number := convert64to10chars (lg_seq_no st)\<rparr>,
        lg_cur_session := lr_session_number (lg_msg st)\<rparr>"

text \<open>
  The socket: how many bytes of the request can be written, and the bytes that arrive before the
  connection ends or a read times out.  \<^verbatim>\<open>fh_tcp_read\<close> waits for all the bytes asked for.
\<close>

definition tcp_read :: "nat \<Rightarrow> u8 list \<Rightarrow> u8 list \<times> u8 list" where
  "tcp_read n rx = (take n rx, drop n rx)"

definition login_tcp_server ::
  "u8 list \<Rightarrow> u8 list \<Rightarrow> nat \<Rightarrow> u8 list \<Rightarrow> login_state \<Rightarrow> (login_state \<times> u8 list \<times> fh_status) option" where
  "login_tcp_server login_name login_passwd writable rx st = (
     let st = init_login_msg login_name login_passwd st in
     if min writable (length (login_bytes (lg_msg st))) \<noteq> length (login_bytes (lg_msg st)) then Some (st, rx, FH_ERROR)
     else case tcp_read 1 rx of (rx_one, rx) \<Rightarrow>
     if length rx_one \<noteq> 1 then Some (st, rx, FH_ERROR)
     else if rx_one ! 0 = 65 then
       (case tcp_read 21 rx of (login_accept, rx) \<Rightarrow>
        if length login_accept \<noteq> 21 then Some (st, rx, FH_ERROR)
        else do {
          seq_no \<leftarrow> convert10chartoInt (take 10 (drop 10 login_accept));
          Some (st\<lparr>lg_cur_session := take 10 login_accept, lg_seq_no := seq_no\<rparr>, rx, FH_OK)
        })
     else if rx_one ! 0 = 74 then
       (case tcp_read 2 rx of (temp, rx) \<Rightarrow>
        if length temp \<noteq> 2 then Some (st, rx, FH_ERROR)
        else if (temp ! 0 = 65 \<or> temp ! 0 = 83) \<and> temp ! 1 = 10 then Some (st, rx, FH_OK)
        else Some (st, rx, FH_ERROR))
     else Some (st, rx, FH_ERROR))"

text \<open>
  Connecting: \<open>tcp\<close> is the status of \<^verbatim>\<open>fh_tcp_client\<close>.  The socket is closed when the login fails.
\<close>

definition fh_edge_conn_login ::
  "fh_status \<Rightarrow> u8 list \<Rightarrow> u8 list \<Rightarrow> nat \<Rightarrow> u8 list \<Rightarrow> login_state \<Rightarrow> (login_state \<times> u8 list option \<times> fh_status) option" where
  "fh_edge_conn_login tcp login_name login_passwd writable rx st =
    (if tcp \<noteq> FH_OK then Some (st, None, tcp)
     else do {
       (st, rx, rc) \<leftarrow> login_tcp_server login_name login_passwd writable rx st;
       if rc \<noteq> FH_OK then Some (st, None, FH_ERROR) else Some (st, Some rx, FH_OK)
     })"

lemma convert_length [simp]: "length (convert64to10chars val) = 10"
  by (simp add: convert64to10chars_def Let_def)

lemma login_request_length:
  assumes "length login_name = 6" and "length login_passwd = 10" and "length (lr_session_number (lg_msg st)) = 10"
  shows "length (login_bytes (lg_msg (init_login_msg login_name login_passwd st))) = 38"
  using assms by (simp add: login_bytes_def init_login_msg_def)

subsection \<open>Properties\<close>

text \<open>
  C14.  A sequence number below ten thousand million is written as its decimal digits, right justified in ten characters,
  by all ten branches of the conversion, and is read back as itself exactly when it is below three thousand million.
\<close>

theorem edge_seq_roundtrip:
  assumes "val < 10000000000"
  shows "convert64to10chars val = num_field 10 (unat val) \<and>
    (convert10chartoInt (convert64to10chars val) = Some val \<longleftrightarrow> val < 3000000000)"
proof -
  have lt: "unat val < 10 ^ 10" using assms by (simp add: word_less_nat_alt)
  have "fh_dirEdge_get_price (num_field 10 (unat val)) 0 = Some (edge_price_value (unat val))"
    using edge_price_field [OF lt, of "[]" "[]"] by simp
  then show ?thesis using convert_chars [OF lt] edge_price_value_exact [OF lt] convert10_price
    by (simp add: word_less_nat_alt)
qed


subsection \<open>Witnesses\<close>

theorem edge_seq_roundtrip_witness:
  "convert10chartoInt (convert64to10chars 2999999999) = Some 2999999999 \<and>
   convert10chartoInt (convert64to10chars 3000000000) \<noteq> Some 3000000000"
  using edge_seq_roundtrip [of 2999999999, THEN conjunct2] edge_seq_roundtrip [of 3000000000, THEN conjunct2] by simp

definition edge_ex_login :: login_state where
  "edge_ex_login = \<lparr>lg_msg = login_msg_init, lg_cur_session = replicate 10 49, lg_seq_no = 7\<rparr>"


end
