(* ===== verification/TcpConfig.thy ===== *)
theory TcpConfig
  imports CfgLoad EdgeLogin
begin

section \<open>Loading the configuration of a TCP line handler (\<^verbatim>\<open>fh_shr_tcp_lh.c\<close>)\<close>

text \<open>
  The loader of the TCP line handler has its own copies of the functions of \<open>CfgLoad\<close>: the one for connections is the same
  text, a line has a primary connection and a login, and the nodes are below \<^verbatim>\<open>edge\<close>.  The parameters are those of
  \<open>CfgLoad\<close>.
\<close>

record tcp_conn =
  tc_conn :: cfg_conn
  tc_login_name :: "u8 list"
  tc_login_passwd :: "u8 list"

record tcp_line =
  tn_name :: string
  tn_primary :: tcp_conn

record tcp_proc =
  tp_name :: string
  tp_cpu :: int
  tp_lines :: "tcp_line list"
  tp_symbol_table :: cfg_tbl
  tp_order_table :: cfg_tbl

definition tcp_conn_zero :: tcp_conn where
  "tcp_conn_zero = \<lparr>tc_conn = conn_zero, tc_login_name = replicate 6 0, tc_login_passwd = replicate 10 0\<rparr>"

definition tcp_proc_zero :: tcp_proc where
  "tcp_proc_zero = \<lparr>tp_name = '''', tp_cpu = 0, tp_lines = [], tp_symbol_table = tbl_zero, tp_order_table = tbl_zero\<rparr>"

text \<open>The bytes of a string.\<close>

definition chars :: "string \<Rightarrow> u8 list" where
  "chars s = map (\<lambda>c. word_of_nat (of_char c)) s"

definition add_login_info :: "fh_cfg_node \<Rightarrow> string \<Rightarrow> tcp_conn \<Rightarrow> (tcp_conn \<times> fh_status) option" where
  "add_login_info config name conn = do {
     node \<leftarrow> fh_cfg_get_node config name;
     (case node of
        None \<Rightarrow> Some (conn\<lparr>tc_conn := (tc_conn conn)\<lparr>cc_enabled := 0\<rparr>\<rparr>, FH_OK)
      | Some node \<Rightarrow> do {
          property \<leftarrow> fh_cfg_get_string node ''name'';
          (case property of
             None \<Rightarrow> Some (conn, FH_ERROR)
           | Some login_name \<Rightarrow> do {
               let conn = conn\<lparr>tc_login_name := c_strncpy (chars login_name) 6\<rparr>;
               property \<leftarrow> fh_cfg_get_string node ''password'';
               (case property of
                  None \<Rightarrow> Some (conn, FH_ERROR)
                | Some login_passwd \<Rightarrow> Some (conn\<lparr>tc_login_passwd := c_strncpy (chars login_passwd) 10\<rparr>, FH_OK))
             })
        })
   }"

definition tcp_add_connection ::
  "(string \<Rightarrow> u32 option) \<Rightarrow> fh_cfg_node \<Rightarrow> string \<Rightarrow> tcp_conn \<Rightarrow> (tcp_conn \<times> fh_status) option" where
  "tcp_add_connection inet_aton config name conn = do {
     (c, rc) \<leftarrow> add_connection inet_aton config name (tc_conn conn);
     Some (conn\<lparr>tc_conn := c\<rparr>, rc)
   }"

definition tcp_add_line ::
  "(string \<Rightarrow> u32 option) \<Rightarrow> (nat \<Rightarrow> bool) \<Rightarrow> fh_cfg_node \<Rightarrow> string \<Rightarrow> tcp_proc \<Rightarrow> (tcp_proc \<times> fh_status) option" where
  "tcp_add_line inet_aton realloc_ok config name lh_config = do {
     lines_node \<leftarrow> fh_cfg_get_node config ''edge.lines'';
     (case lines_node of
        None \<Rightarrow> Some (lh_config, FH_ERROR)
      | Some lines_node \<Rightarrow> do {
          line_node \<leftarrow> fh_cfg_get_node lines_node name;
          (case line_node of
             None \<Rightarrow> Some (lh_config, FH_ERROR)
           | Some line_node \<Rightarrow>
               if \<not> realloc_ok (length (tp_lines lh_config)) then Some (lh_config\<lparr>tp_lines := []\<rparr>, FH_ERROR)
               else do {
                 s \<leftarrow> cfg_strcpy name;
                 (primary, rc) \<leftarrow> tcp_add_connection inet_aton line_node ''primary'' tcp_conn_zero;
                 if rc \<noteq> FH_OK
                 then Some (lh_config\<lparr>tp_lines := tp_lines lh_config @ [\<lparr>tn_name = s, tn_primary = primary\<rparr>]\<rparr>, FH_ERROR)
                 else do {
                   (primary, rc) \<leftarrow> add_login_info line_node ''login'' primary;
                   Some (lh_config\<lparr>tp_lines := tp_lines lh_config @ [\<lparr>tn_name = s, tn_primary = primary\<rparr>]\<rparr>,
                         if rc \<noteq> FH_OK then FH_ERROR else FH_OK)
                 }
               })
        })
   }"

fun tcp_add_lines ::
  "(string \<Rightarrow> u32 option) \<Rightarrow> (nat \<Rightarrow> bool) \<Rightarrow> fh_cfg_node \<Rightarrow> string list \<Rightarrow> tcp_proc \<Rightarrow> (tcp_proc \<times> fh_status) option" where
  "tcp_add_lines inet_aton realloc_ok config [] lh_config = Some (lh_config, FH_OK)"
| "tcp_add_lines inet_aton realloc_ok config (name # names) lh_config = do {
     (lh_config, rc) \<leftarrow> tcp_add_line inet_aton realloc_ok config name lh_config;
     if rc \<noteq> FH_OK then Some (lh_config, FH_ERROR)
     else tcp_add_lines inet_aton realloc_ok config names lh_config
   }"

definition fh_shr_cfg_tcp_lh_load ::
  "(string \<Rightarrow> u32 option) \<Rightarrow> (nat \<Rightarrow> bool) \<Rightarrow> (tcp_proc \<Rightarrow> tcp_proc \<times> fh_status) option \<Rightarrow>
   string \<Rightarrow> fh_cfg_node \<Rightarrow> (tcp_proc \<times> fh_status) option" where
  "fh_shr_cfg_tcp_lh_load inet_aton realloc_ok hook process config = do {
     let lh_config = tcp_proc_zero;
     process_node_name \<leftarrow> cfg_strcpy (''edge.processes.'' @ process);
     process_node \<leftarrow> fh_cfg_get_node config process_node_name;
     (case process_node of
        None \<Rightarrow> Some (lh_config, FH_ERROR)
      | Some process_node \<Rightarrow> do {
          name \<leftarrow> cfg_strcpy (cfg_name process_node);
          cpu \<leftarrow> int_or_default process_node ''cpu'' (-1);
          (symbol_table, _) \<leftarrow> fh_shr_cfg_tbl_load config ''edge.symbol_table'';
          (order_table, _) \<leftarrow> fh_shr_cfg_tbl_load config ''edge.order_table'';
          let lh_config = lh_config\<lparr>tp_name := name, tp_cpu := cpu, tp_symbol_table := symbol_table, tp_order_table := order_table\<rparr>;
          lines_node \<leftarrow> fh_cfg_get_node process_node ''lines'';
          (case lines_node of
             None \<Rightarrow> Some (lh_config, FH_ERROR)
           | Some lines_node \<Rightarrow> do {
               (lh_config, rc) \<leftarrow> tcp_add_lines inet_aton realloc_ok config (cfg_values lines_node) lh_config;
               Some (if rc \<noteq> FH_OK then (lh_config, FH_ERROR)
                     else case hook of None \<Rightarrow> (lh_config, FH_OK) | Some f \<Rightarrow> f lh_config)
             })
        })
   }"

text \<open>
  Loading a login gives arrays of six and ten bytes.  A name of less than six characters is padded with zeros, which the
  login request contains, since all six bytes are copied over its blanks.
\<close>

lemma c_strncpy_length [simp]: "length (c_strncpy bs n) = n"
proof -
  have "length (takeWhile (\<lambda>c. c \<noteq> 0) (take n bs)) \<le> n"
    using length_takeWhile_le [of "\<lambda>c. c \<noteq> 0" "take n bs"] by simp
  then show ?thesis by (simp add: c_strncpy_def Let_def)
qed

lemma login_info_loaded:
  assumes "fh_cfg_find_child config ''login'' = Some node"
    and "fh_cfg_find_child node ''name'' = Some (cfg_leaf ''name'' login_name)"
    and "fh_cfg_find_child node ''password'' = Some (cfg_leaf ''password'' login_passwd)"
  shows "add_login_info config ''login'' conn =
    Some (conn\<lparr>tc_login_name := c_strncpy (chars login_name) 6, tc_login_passwd := c_strncpy (chars login_passwd) 10\<rparr>, FH_OK)"
  using assms get_string_leaf [of "''name''" node login_name] get_string_leaf [of "''password''" node login_passwd]
  by (simp add: add_login_info_def get_node_plain Let_def)

lemma short_login_sent_with_zeros:
  assumes "length login_name < 6"
  shows "login_bytes (lg_msg (init_login_msg (c_strncpy (chars login_name) 6) login_passwd st)) ! 6 = 0"
proof -
  let ?s = "takeWhile (\<lambda>c. c \<noteq> 0) (take 6 (chars login_name))"
  have "length ?s < 6" using assms length_takeWhile_le [of "\<lambda>c. c \<noteq> 0" "take 6 (chars login_name)"] by (simp add: chars_def)
  then have "c_strncpy (chars login_name) 6 ! 5 = 0" by (simp add: c_strncpy_def Let_def nth_append)
  then show ?thesis by (simp add: login_bytes_def init_login_msg_def nth_append)
qed

end
