(* ===== verification/TcpLine.thy ===== *)
theory TcpLine
  imports Edge
begin

section \<open>The TCP line handler (\<^verbatim>\<open>feeds/shared/tcp_feed/fh_shr_tcp_lh.c\<close>)\<close>

text \<open>
  The receive loop of the line handler for feeds over TCP: select, partial messages, the peek at the first ten bytes that
  decides how much to read, debug messages, heartbeats, the end of a session and reconnecting.  What the parser and the
  connection callbacks keep is the state \<open>'s\<close>; the callbacks are parameters.  File-scope and static
  variables are fields of the state.
\<close>

subsection \<open>Sockets\<close>

text \<open>
  A connected stream socket: the bytes that have arrived and were not read, and what is still to come: segments of
  bytes, a second in which nothing arrives, a signal that interrupts \<^verbatim>\<open>select\<close>, the peer closing or resetting the
  connection.
\<close>

datatype net_event = Seg "u8 list" | Quiet | Intr | Fin | Reset

record tcp_kernel =
  sk_open :: bool
  sk_rx :: "u8 list"
  sk_later :: "net_event list"

text \<open>What a call of \<^verbatim>\<open>recv\<close> returns: bytes, 0, or -1 with \<^verbatim>\<open>errno\<close>.\<close>

datatype recv_res = Got "u8 list" | Zero | Fail int

abbreviation (input) EBADF :: int where "EBADF \<equiv> 9"
abbreviation (input) EAGAIN :: int where "EAGAIN \<equiv> 11"
abbreviation (input) EPIPE :: int where "EPIPE \<equiv> 32"
abbreviation (input) ECONNRESET :: int where "ECONNRESET \<equiv> 104"

text \<open>A read that waits for at least one byte; without any further event it waits forever.\<close>

fun sk_wait :: "nat \<Rightarrow> net_event list \<Rightarrow> (tcp_kernel \<times> recv_res) option" where
  "sk_wait n [] = None"
| "sk_wait n (Seg bs # es) =
    (if bs = [] then sk_wait n es else Some (\<lparr>sk_open = True, sk_rx = drop n bs, sk_later = es\<rparr>, Got (take n bs)))"
| "sk_wait n (Quiet # es) = sk_wait n es"
| "sk_wait n (Intr # es) = sk_wait n es"
| "sk_wait n (Fin # es) = Some (\<lparr>sk_open = True, sk_rx = [], sk_later = Fin # es\<rparr>, Zero)"
| "sk_wait n (Reset # es) = Some (\<lparr>sk_open = True, sk_rx = [], sk_later = Fin # es\<rparr>, Fail ECONNRESET)"

definition recv_wait :: "nat \<Rightarrow> tcp_kernel \<Rightarrow> (tcp_kernel \<times> recv_res) option" where
  "recv_wait n k =
    (if \<not> sk_open k then Some (k, Fail EBADF)
     else if sk_rx k \<noteq> [] then Some (k\<lparr>sk_rx := drop n (sk_rx k)\<rparr>, Got (take n (sk_rx k)))
     else sk_wait n (sk_later k))"

text \<open>\<^verbatim>\<open>MSG_PEEK | MSG_DONTWAIT\<close>.\<close>

definition recv_peek :: "nat \<Rightarrow> tcp_kernel \<Rightarrow> tcp_kernel \<times> recv_res" where
  "recv_peek n k =
    (if \<not> sk_open k then (k, Fail EBADF)
     else if sk_rx k \<noteq> [] then (k, Got (take n (sk_rx k)))
     else case sk_later k of
       Fin # es \<Rightarrow> (k, Zero)
     | Reset # es \<Rightarrow> (k\<lparr>sk_later := Fin # es\<rparr>, Fail ECONNRESET)
     | _ \<Rightarrow> (k, Fail EAGAIN))"

text \<open>The next segment arrives.\<close>

definition sk_tick :: "tcp_kernel \<Rightarrow> tcp_kernel" where
  "sk_tick k = (case sk_later k of Seg bs # es \<Rightarrow> k\<lparr>sk_rx := sk_rx k @ bs, sk_later := es\<rparr> | _ \<Rightarrow> k)"

subsection \<open>State and callbacks\<close>

record 's tcp_lh =
  tl_k :: tcp_kernel
  tl_errno :: int
  tl_buf :: "u8 list"
  tl_part_rx :: nat
  tl_still_more :: nat
  tl_offset :: nat
  tl_add_order :: bool
  tl_len :: nat
  tl_messages :: u64
  tl_bytes :: u64
  tl_message_errors :: u64
  tl_hb_count :: u64
  tl_monitor_hb :: int
  tl_connections :: nat
  tl_first_time :: bool
  tl_app :: 's

text \<open>
  Parsing may fault; its status is not looked at.  Connecting gives the state, the socket and a status.  \<open>cb_flush\<close> is the
  flush hook, \<open>cb_new_session\<close> resets the session and the sequence number, and \<open>cb_finished\<close> is the flag that asks the
  thread to end.
\<close>

record 's tcp_cb =
  cb_parse :: "u8 list \<Rightarrow> int \<Rightarrow> u8 \<Rightarrow> 's \<Rightarrow> 's option"
  cb_connect :: "'s \<Rightarrow> 's \<times> tcp_kernel \<times> fh_status"
  cb_alarm :: "nat \<Rightarrow> 's \<Rightarrow> 's"
  cb_flush :: "'s \<Rightarrow> 's"
  cb_new_session :: "'s \<Rightarrow> 's"
  cb_finished :: "'s \<Rightarrow> bool"

abbreviation (input) FH_ALERT_SESSION_TERMINATED :: nat where "FH_ALERT_SESSION_TERMINATED \<equiv> 4"
abbreviation (input) FH_ALERT_TCP_CONNECTION_ESTABLISHED :: nat where "FH_ALERT_TCP_CONNECTION_ESTABLISHED \<equiv> 5"
abbreviation (input) FH_ALERT_TCP_CONNECTION_BROKEN :: nat where "FH_ALERT_TCP_CONNECTION_BROKEN \<equiv> 6"
abbreviation (input) FH_ALERT_SERVER_HB_MISSING :: nat where "FH_ALERT_SERVER_HB_MISSING \<equiv> 7"
abbreviation (input) HB_ALARM_TIMEOUT :: int where "HB_ALARM_TIMEOUT \<equiv> 10"

text \<open>Reads into the receive buffer; writing past its end is a fault.\<close>

definition buf_write :: "nat \<Rightarrow> u8 list \<Rightarrow> u8 list \<Rightarrow> u8 list option" where
  "buf_write off bs buf =
    (if off + length bs \<le> length buf then Some (take off buf @ bs @ drop (off + length bs) buf) else None)"

definition rx_done :: "nat \<Rightarrow> tcp_kernel \<times> recv_res \<Rightarrow> 's tcp_lh \<Rightarrow> ('s tcp_lh \<times> int) option" where
  "rx_done off kr st =
    (case snd kr of
       Got bs \<Rightarrow> do {
         buf \<leftarrow> buf_write off bs (tl_buf st);
         Some (st\<lparr>tl_k := fst kr, tl_buf := buf\<rparr>, int (length bs))
       }
     | Zero \<Rightarrow> Some (st\<lparr>tl_k := fst kr\<rparr>, 0)
     | Fail e \<Rightarrow> Some (st\<lparr>tl_k := fst kr, tl_errno := e\<rparr>, -1))"

definition rx_wait :: "nat \<Rightarrow> nat \<Rightarrow> 's tcp_lh \<Rightarrow> ('s tcp_lh \<times> int) option" where
  "rx_wait off n st = do { kr \<leftarrow> recv_wait n (tl_k st); rx_done off kr st }"

definition rx_peek :: "nat \<Rightarrow> nat \<Rightarrow> 's tcp_lh \<Rightarrow> ('s tcp_lh \<times> int) option" where
  "rx_peek off n st = rx_done off (recv_peek n (tl_k st)) st"

subsection \<open>Connections\<close>

text \<open>Connecting is tried again until it succeeds or, where the code looks at it, the thread is to end.\<close>

partial_function (option) connect_loop :: "('s \<Rightarrow> 's \<times> tcp_kernel \<times> fh_status) \<Rightarrow> ('s \<Rightarrow> bool) \<Rightarrow> 's \<Rightarrow> ('s \<times> tcp_kernel) option" where
  "connect_loop conn fin app =
    (case conn app of (app, k, rc) \<Rightarrow>
       if rc \<noteq> FH_OK \<and> \<not> fin app then connect_loop conn fin app else Some (app, k))"

definition dir_edge_reconnect :: "'s tcp_cb \<Rightarrow> 's tcp_lh \<Rightarrow> 's tcp_lh option" where
  "dir_edge_reconnect cb st = do {
     let app = (if tl_first_time st then cb_alarm cb FH_ALERT_TCP_CONNECTION_BROKEN (tl_app st) else tl_app st);
     (app, k) \<leftarrow> connect_loop (cb_connect cb) (cb_finished cb) app;
     let app = (if \<not> cb_finished cb app then cb_alarm cb FH_ALERT_TCP_CONNECTION_ESTABLISHED app else app);
     Some (st\<lparr>tl_app := app, tl_k := k, tl_first_time := True, tl_connections := tl_connections st + 1,
              tl_monitor_hb := HB_ALARM_TIMEOUT\<rparr>)
   }"

text \<open>What the loop does around reconnecting: the partial message is given up and an error is counted.\<close>

definition tcp_give_up :: "'s tcp_lh \<Rightarrow> 's tcp_lh" where
  "tcp_give_up st = st\<lparr>tl_still_more := 0, tl_offset := 0, tl_message_errors := tl_message_errors st + 1\<rparr>"

text \<open>Sending fails after the peer has reset the connection.\<close>

definition send_hb_msg :: "'s tcp_cb \<Rightarrow> 's tcp_lh \<Rightarrow> 's tcp_lh option" where
  "send_hb_msg cb st =
    (case sk_later (tl_k st) of
       Reset # es \<Rightarrow> do {
         (app, k) \<leftarrow> connect_loop (cb_connect cb) (\<lambda>_. False) (tl_app st);
         Some (st\<lparr>tl_app := app, tl_k := k, tl_errno := EPIPE\<rparr>)
       }
     | _ \<Rightarrow> Some st)"

definition process_end_of_session :: "'s tcp_cb \<Rightarrow> 's tcp_lh \<Rightarrow> 's tcp_lh option" where
  "process_end_of_session cb st = do {
     (k, r) \<leftarrow> recv_wait 2 (tl_k st);
     Some (st\<lparr>tl_k := k\<lparr>sk_open := False\<rparr>, tl_app := cb_new_session cb (cb_alarm cb FH_ALERT_SESSION_TERMINATED (tl_app st))\<rparr>)
   }"

subsection \<open>Reading\<close>

text \<open>
  The last four bytes of an attributed quote.  A length passed to \<^verbatim>\<open>recv\<close> is converted to \<^verbatim>\<open>size_t\<close>.  A first
  read of one to four bytes ends the loop, since \<open>more\<close> is still 0.
\<close>

partial_function (option) rest_loop :: "nat \<Rightarrow> int \<Rightarrow> int \<Rightarrow> 's tcp_lh \<Rightarrow> ('s tcp_lh \<times> nat) option" where
  "rest_loop off rx_len more_rx st = do {
     (st, r) \<leftarrow> rx_wait (off + nat more_rx) (nat ((rx_len - more_rx) mod 2 ^ 64)) st;
     if r = -1 then rest_loop off r more_rx st
     else if r = 0 then Some (st, 0)
     else if r = r - more_rx then Some (st, 4)
     else rest_loop off r r st
   }"

definition get_rest_of_attributed_data :: "nat \<Rightarrow> 's tcp_lh \<Rightarrow> ('s tcp_lh \<times> nat) option" where
  "get_rest_of_attributed_data off st = rest_loop off 4 0 st"

text \<open>The position of the first line feed before \<open>n\<close>, and \<open>n\<close> when there is none.\<close>

definition find_lf :: "u8 list \<Rightarrow> nat \<Rightarrow> nat" where
  "find_lf bs n = length (takeWhile (\<lambda>c. c \<noteq> 10) (take n bs))"

text \<open>A debug message is looked at with larger and larger peeks until its line feed has arrived, without waiting.\<close>

partial_function (option) debug_loop :: "nat \<Rightarrow> 's tcp_lh \<Rightarrow> ('s tcp_lh \<times> nat) option" where
  "debug_loop to_get st = do {
     (st, len) \<leftarrow> rx_peek 0 to_get st;
     if len = -1 then debug_loop to_get (st\<lparr>tl_k := sk_tick (tl_k st)\<rparr>)
     else if len = 0 then Some (st, 0)
     else do {
       let i = find_lf (tl_buf st) (nat len);
       if i < nat len then do {
         (st, len) \<leftarrow> rx_wait 0 (i + 1) st;
         if len = int (i + 1) then Some (st, i + 1)
         else if len = 0 then Some (st, 0)
         else debug_loop (to_get + 51) (st\<lparr>tl_k := sk_tick (tl_k st)\<rparr>)
       }
       else debug_loop (to_get + 51) (st\<lparr>tl_k := sk_tick (tl_k st)\<rparr>)
     }
   }"

definition get_and_send_debug_msg :: "'s tcp_lh \<Rightarrow> ('s tcp_lh \<times> nat) option" where
  "get_and_send_debug_msg st = debug_loop 51 st"

text \<open>Reading up to the line feed in a buffer of its own; the status is only logged.\<close>

definition find_next_message :: "'s tcp_lh \<Rightarrow> 's tcp_lh option" where
  "find_next_message st =
    (case recv_peek 51 (tl_k st) of
       (k, Got bs) \<Rightarrow> do {
         (k, r) \<leftarrow> recv_wait (find_lf bs (length bs) + 1) k;
         Some (st\<lparr>tl_k := k, tl_errno := (case r of Fail e \<Rightarrow> e | _ \<Rightarrow> tl_errno st)\<rparr>)
       }
     | (k, Zero) \<Rightarrow> Some (st\<lparr>tl_k := k\<rparr>)
     | (k, Fail e) \<Rightarrow> Some (st\<lparr>tl_k := k, tl_errno := e\<rparr>))"

subsection \<open>One pass of the inner loop\<close>

definition tcp_len_to_rec :: "u8 \<Rightarrow> nat option" where
  "tcp_len_to_rec rx_char =
    (if rx_char = 83 then Some (nat SYSTEM_EVENT_MSG_SIZE)
     else if rx_char = 65 then Some (nat ADD_ORDER_MSG_SIZE)
     else if rx_char = 69 then Some (nat ORDER_EXECUTED_MSG_SIZE)
     else if rx_char = 88 then Some (nat ORDER_CANCELED_MSG_SIZE)
     else if rx_char = 80 then Some (nat TRADE_MSG_SIZE)
     else if rx_char = 66 then Some (nat BROKEN_TRADE_MSG_SIZE)
     else if rx_char = 72 then Some (nat SECURITY_STATUS_MSG_SIZE)
     else None)"

text \<open>Handing a message to the parser.\<close>

definition tcp_parse :: "'s tcp_cb \<Rightarrow> nat \<Rightarrow> u8 \<Rightarrow> 's tcp_lh \<Rightarrow> 's tcp_lh option" where
  "tcp_parse cb n rx_char st = do {
     app \<leftarrow> cb_parse cb (tl_buf st) (int n) rx_char (tl_app st);
     Some (st\<lparr>tl_app := cb_flush cb app, tl_messages := tl_messages st + 1\<rparr>)
   }"

text \<open>The rest of an attributed quote, when there is one; \<open>False\<close> breaks out of the loop.\<close>

definition tcp_attributed :: "nat \<Rightarrow> 's tcp_lh \<Rightarrow> ('s tcp_lh \<times> bool) option" where
  "tcp_attributed n st =
    (if tl_add_order st then
       if tl_buf st ! (n - 2) = 65 then do {
         (st, l) \<leftarrow> get_rest_of_attributed_data n st;
         if l = 0 then Some (st\<lparr>tl_len := l\<rparr>, False) else Some (st\<lparr>tl_len := l, tl_add_order := False\<rparr>, True)
       }
       else Some (st\<lparr>tl_add_order := False\<rparr>, True)
     else Some (st, True))"

text \<open>
  A sequenced message of the type at offset 9.  The second component says whether the loop goes on.  An unknown type
  is left in the socket.
\<close>

definition tcp_sequenced :: "'s tcp_cb \<Rightarrow> 's tcp_lh \<Rightarrow> ('s tcp_lh \<times> bool) option" where
  "tcp_sequenced cb st = (
     let rx_char = tl_buf st ! 9; part = tl_part_rx st in
     case tcp_len_to_rec rx_char of
       None \<Rightarrow> Some (st, False)
     | Some n \<Rightarrow> do {
         let st = (if rx_char = 65 then st\<lparr>tl_add_order := True\<rparr> else st);
         (st, r) \<leftarrow> rx_wait part (n - part) st;
         if r = int (n - part) then do {
           (st, ok) \<leftarrow> tcp_attributed n st;
           if \<not> ok then Some (st, False)
           else do {
             st \<leftarrow> tcp_parse cb (n + tl_len st) rx_char st;
             Some (st\<lparr>tl_len := 0, tl_bytes := tl_bytes st + of_nat n, tl_part_rx := 0\<rparr>, True)
           }
         }
         else if r = 0 then
           if tl_errno st = ECONNRESET \<or> tl_errno st = EPIPE then do {
             st \<leftarrow> dir_edge_reconnect cb st;
             Some ((tcp_give_up st)\<lparr>tl_part_rx := 0\<rparr>, False)
           }
           else Some (st, False)
         else if 0 < r then Some (st\<lparr>tl_offset := nat r + part, tl_still_more := n - nat r - part\<rparr>, False)
         else Some (st\<lparr>tl_part_rx := 0\<rparr>, False)
       })"

text \<open>Less than ten bytes: the end of the session, a heartbeat, or the start of a message, which is read.\<close>

definition tcp_short :: "'s tcp_cb \<Rightarrow> nat \<Rightarrow> 's tcp_lh \<Rightarrow> 's tcp_lh option" where
  "tcp_short cb reclen st =
    (if reclen < 2 then Some st
     else if tl_buf st ! 0 = 83 \<and> tl_buf st ! 1 = 10 then process_end_of_session cb st
     else if tl_buf st ! 0 = 72 \<and> tl_buf st ! 1 = 10 then do {
       (st, rx_count) \<leftarrow> rx_wait 0 2 st;
       if rx_count \<noteq> 2 then Some st
       else Some (st\<lparr>tl_hb_count := tl_hb_count st + 1, tl_monitor_hb := HB_ALARM_TIMEOUT\<rparr>)
     }
     else do {
       (st, rx_count) \<leftarrow> rx_wait 0 reclen st;
       if rx_count = int reclen then Some (st\<lparr>tl_part_rx := reclen\<rparr>)
       else if rx_count = -1 then Some st
       else if rx_count = 0 then dir_edge_reconnect cb st
       else Some (st\<lparr>tl_part_rx := tl_part_rx st + nat rx_count\<rparr>)
     })"

definition tcp_step :: "'s tcp_cb \<Rightarrow> 's tcp_lh \<Rightarrow> ('s tcp_lh \<times> bool) option" where
  "tcp_step cb st = do {
     (st, reclen) \<leftarrow> rx_peek (tl_part_rx st) (10 - tl_part_rx st) st;
     if reclen = -1 then Some (st, False)
     else if reclen = 0 then do {
       st \<leftarrow> dir_edge_reconnect cb st;
       Some (tcp_give_up st, False)
     }
     else if nat reclen + tl_part_rx st = 10 then
       if tl_buf st ! 0 = 83 then tcp_sequenced cb st
       else if tl_buf st ! 0 = 43 then do {
         (st, l) \<leftarrow> get_and_send_debug_msg st;
         Some (st, l \<noteq> 0)
       }
       else do { st \<leftarrow> find_next_message st; Some (st, False) }
     else do { st \<leftarrow> tcp_short cb (nat reclen) st; Some (st, False) }
   }"

partial_function (option) tcp_loop :: "'s tcp_cb \<Rightarrow> 's tcp_lh \<Rightarrow> 's tcp_lh option" where
  "tcp_loop cb st = do {
     (st, go) \<leftarrow> tcp_step cb st;
     if go then tcp_loop cb st else Some st
   }"

subsection \<open>One pass of the outer loop\<close>

text \<open>The rest of a message that came in pieces; \<open>True\<close> when the loop over messages follows.\<close>

definition tcp_resume :: "'s tcp_cb \<Rightarrow> 's tcp_lh \<Rightarrow> ('s tcp_lh \<times> bool) option" where
  "tcp_resume cb st =
    (if tl_still_more st = 0 then Some (st, True)
     else do {
       let off = tl_offset st;
       let still = tl_still_more st;
       (st, reclen) \<leftarrow> rx_wait off still st;
       if reclen = int still then do {
         st \<leftarrow> tcp_parse cb (off + still) 0 st;
         Some (st\<lparr>tl_bytes := tl_bytes st + of_nat (off + still), tl_offset := 0, tl_still_more := 0\<rparr>, True)
       }
       else if reclen = -1 then
         if tl_errno st = EAGAIN then Some (st, False)
         else if tl_errno st = ECONNRESET then do {
           st \<leftarrow> dir_edge_reconnect cb st;
           Some (tcp_give_up st, True)
         }
         else Some (st, True)
       else if reclen > 0 then Some (st\<lparr>tl_offset := off + nat reclen, tl_still_more := still - nat reclen\<rparr>, True)
       else do {
         st \<leftarrow> dir_edge_reconnect cb st;
         Some (tcp_give_up st, False)
       }
     })"

definition tcp_ready :: "'s tcp_cb \<Rightarrow> 's tcp_lh \<Rightarrow> 's tcp_lh option" where
  "tcp_ready cb st = do {
     (st, go) \<leftarrow> tcp_resume cb (st\<lparr>tl_monitor_hb := HB_ALARM_TIMEOUT\<rparr>);
     if go then tcp_loop cb st else Some st
   }"

definition tcp_timeout :: "'s tcp_cb \<Rightarrow> 's tcp_lh \<Rightarrow> 's tcp_lh option" where
  "tcp_timeout cb st = (
     let st = st\<lparr>tl_monitor_hb := tl_monitor_hb st - 1\<rparr>;
         st = (if tl_monitor_hb st = 0
               then st\<lparr>tl_app := cb_alarm cb FH_ALERT_SERVER_HB_MISSING (tl_app st), tl_monitor_hb := HB_ALARM_TIMEOUT\<rparr>
               else st) in
     send_hb_msg cb st)"

text \<open>
  A wake-up of \<^verbatim>\<open>select\<close>: an error on a closed socket, a timeout, or data.  An interrupted \<^verbatim>\<open>select\<close> is taken for data.
\<close>

definition tcp_iteration :: "'s tcp_cb \<Rightarrow> 's tcp_lh \<Rightarrow> 's tcp_lh option" where
  "tcp_iteration cb st = (
     let k = tl_k st in
     if \<not> sk_open k then dir_edge_reconnect cb (st\<lparr>tl_errno := EBADF\<rparr>)
     else if sk_rx k = [] then
       (case sk_later k of
          [] \<Rightarrow> tcp_timeout cb st
        | Quiet # es \<Rightarrow> tcp_timeout cb (st\<lparr>tl_k := k\<lparr>sk_later := es\<rparr>\<rparr>)
        | Intr # es \<Rightarrow> tcp_ready cb (st\<lparr>tl_k := k\<lparr>sk_later := es\<rparr>\<rparr>)
        | _ \<Rightarrow> tcp_ready cb (st\<lparr>tl_k := sk_tick k\<rparr>))
     else tcp_ready cb (st\<lparr>tl_k := sk_tick k\<rparr>))"

text \<open>The thread: iterations until it is asked to end.\<close>

partial_function (option) tcp_run :: "'s tcp_cb \<Rightarrow> 's tcp_lh \<Rightarrow> 's tcp_lh option" where
  "tcp_run cb st =
    (if cb_finished cb (tl_app st) then Some st
     else do { st \<leftarrow> tcp_iteration cb st; tcp_run cb st })"

definition fh_shr_tcp_lh_run :: "'s tcp_cb \<Rightarrow> 's tcp_lh \<Rightarrow> 's tcp_lh option" where
  "fh_shr_tcp_lh_run cb st = do { st \<leftarrow> dir_edge_reconnect cb st; tcp_run cb st }"

subsection \<open>Complete messages\<close>

text \<open>The messages of the stream: of the length of their type, with an attribution exactly when the display says so.\<close>

definition edge_frame :: "u8 list \<Rightarrow> bool" where
  "edge_frame m \<longleftrightarrow> 10 \<le> length m \<and> m ! 0 = 83 \<and>
     (case tcp_len_to_rec (m ! 9) of
        None \<Rightarrow> False
      | Some n \<Rightarrow> n \<le> length m \<and> length m = (if m ! 9 = 65 \<and> m ! 45 = 65 then n + 4 else n))"

definition tcp_clean :: "'s tcp_lh \<Rightarrow> bool" where
  "tcp_clean st \<longleftrightarrow> sk_open (tl_k st) \<and> tl_part_rx st = 0 \<and> tl_still_more st = 0 \<and> tl_offset st = 0 \<and>
     \<not> tl_add_order st \<and> tl_len st = 0 \<and> length (tl_buf st) = 2048"

lemma tcp_len_cases:
  assumes "tcp_len_to_rec c = Some n"
  shows "10 < n" "n \<le> 67" "c = 65 \<longleftrightarrow> n = 47"
  using assms by (auto simp: tcp_len_to_rec_def edge_sizes split: if_splits)

lemma edge_frameE:
  assumes "edge_frame m"
  obtains n where "tcp_len_to_rec (m ! 9) = Some n" "n \<le> length m" "m ! 0 = 83"
    "length m = (if m ! 9 = 65 \<and> m ! 45 = 65 then n + 4 else n)"
  using assms by (auto simp: edge_frame_def split: option.splits)

lemma buf_write_front:
  "length bs \<le> length buf \<Longrightarrow> buf_write 0 bs buf = Some (bs @ drop (length bs) buf)"
  by (simp add: buf_write_def)

lemma buf_write_back:
  "length bs + length cs \<le> length buf \<Longrightarrow>
     buf_write (length bs) cs (bs @ drop (length bs) buf) = Some ((bs @ cs) @ drop (length (bs @ cs)) buf)"
  by (simp add: buf_write_def add.commute)

text \<open>Reads while the bytes are there.\<close>

lemma rx_peek_there:
  assumes "sk_open (tl_k st)" and "sk_rx (tl_k st) = bs @ rest" and "bs \<noteq> []" and "off + length bs \<le> length (tl_buf st)"
  shows "rx_peek off (length bs) st =
    Some (st\<lparr>tl_buf := take off (tl_buf st) @ bs @ drop (off + length bs) (tl_buf st)\<rparr>, int (length bs))"
  using assms by (simp add: rx_peek_def recv_peek_def rx_done_def buf_write_def)

lemma rx_wait_there:
  assumes "sk_open (tl_k st)" and "sk_rx (tl_k st) = bs @ rest" and "bs \<noteq> []" and "off + length bs \<le> length (tl_buf st)"
  shows "rx_wait off (length bs) st =
    Some (st\<lparr>tl_k := (tl_k st)\<lparr>sk_rx := rest\<rparr>, tl_buf := take off (tl_buf st) @ bs @ drop (off + length bs) (tl_buf st)\<rparr>,
      int (length bs))"
  using assms by (simp add: rx_wait_def recv_wait_def rx_done_def buf_write_def)

text \<open>What a message leaves behind when the parser takes it.\<close>

definition tcp_took :: "'s tcp_cb \<Rightarrow> u8 list \<Rightarrow> u8 list \<Rightarrow> 's \<Rightarrow> 's tcp_lh \<Rightarrow> 's tcp_lh" where
  "tcp_took cb m rest app st =
     st\<lparr>tl_k := (tl_k st)\<lparr>sk_rx := rest\<rparr>, tl_buf := m @ drop (length m) (tl_buf st), tl_add_order := False,
        tl_app := cb_flush cb app, tl_messages := tl_messages st + 1, tl_len := 0,
        tl_bytes := tl_bytes st + of_nat (the (tcp_len_to_rec (m ! 9))), tl_part_rx := 0\<rparr>"

text \<open>The part of an attributed quote behind the length of its type.\<close>

lemma get_rest_there:
  assumes "sk_open (tl_k st)" and "sk_rx (tl_k st) = t @ rest" and "length t = 4" and "off + 4 \<le> length (tl_buf st)"
  shows "get_rest_of_attributed_data off st =
    Some (st\<lparr>tl_k := (tl_k st)\<lparr>sk_rx := rest\<rparr>, tl_buf := take off (tl_buf st) @ t @ drop (off + 4) (tl_buf st)\<rparr>, 4)"
proof -
  have "t \<noteq> []" using assms(3) by auto
  then show ?thesis
    using rx_wait_there [OF assms(1,2), of off] assms(3,4)
    by (simp add: get_rest_of_attributed_data_def rest_loop.simps [of off 4 0])
qed

lemma tcp_attributed_there:
  assumes op: "sk_open (tl_k st)" and rx: "sk_rx (tl_k st) = t @ rest" and h: "length h = n" "2 \<le> n"
    and buf: "tl_buf st = h @ drop n buf" "length buf = 2048" "n \<le> 67" and l: "tl_len st = 0"
    and t: "length t = (if tl_add_order st \<and> h ! (n - 2) = 65 then 4 else 0)"
  shows "tcp_attributed n st =
    Some (st\<lparr>tl_k := (tl_k st)\<lparr>sk_rx := rest\<rparr>, tl_buf := (h @ t) @ drop (length (h @ t)) buf, tl_len := length t, tl_add_order := False\<rparr>, True)"
proof -
  have nth: "tl_buf st ! (n - 2) = h ! (n - 2)" using h buf by (simp add: nth_append)
  show ?thesis
  proof (cases "tl_add_order st \<and> h ! (n - 2) = 65")
    case True
    have "take n (tl_buf st) = h" "drop (n + 4) (tl_buf st) = drop (n + 4) buf" using h buf by (simp_all add: add.commute)
    then show ?thesis
      using True t get_rest_there [OF op rx, of n] nth h buf by (simp add: tcp_attributed_def)
  next
    case False
    then have "t = []" using t by (auto split: if_splits)
    then have "st\<lparr>tl_k := (tl_k st)\<lparr>sk_rx := rest\<rparr>, tl_buf := (h @ t) @ drop (length (h @ t)) buf, tl_len := length t\<rparr> = st"
      using rx h buf l by simp
    then show ?thesis using False nth by (cases "tl_add_order st") (auto simp: tcp_attributed_def)
  qed
qed

lemma tcp_step_frame:
  assumes m: "edge_frame m" and clean: "tcp_clean st" and rx: "sk_rx (tl_k st) = m @ rest"
  shows "tcp_step cb st = do {
    app \<leftarrow> cb_parse cb (m @ drop (length m) (tl_buf st)) (int (length m)) (m ! 9) (tl_app st);
    Some (tcp_took cb m rest app st, True) }"
proof -
  obtain n where n: "tcp_len_to_rec (m ! 9) = Some n" "n \<le> length m" "m ! 0 = 83"
    "length m = (if m ! 9 = 65 \<and> m ! 45 = 65 then n + 4 else n)" using edge_frameE [OF m] .
  note b = tcp_len_cases [OF n(1)]
  have st: "sk_open (tl_k st)" "tl_part_rx st = 0" "\<not> tl_add_order st" "tl_len st = 0" "length (tl_buf st) = 2048"
    using clean by (simp_all add: tcp_clean_def)
  let ?st1 = "st\<lparr>tl_buf := take 10 m @ drop 10 (tl_buf st)\<rparr>"
  have len: "m \<noteq> []" "length (take 10 m) = 10" "length (take n m) = n" using b(1) n(2) by auto
  have split_rx: "sk_rx (tl_k st) = take j m @ (drop j m @ rest)" for j using rx by simp
  have peek: "rx_peek 0 10 st = Some (?st1, 10)"
    using rx_peek_there [OF st(1) split_rx, of 10 0] st len by simp
  have nth: "(take 10 m @ drop 10 (tl_buf st)) ! 0 = 83" "(take 10 m @ drop 10 (tl_buf st)) ! 9 = m ! 9"
    using n b by (simp_all add: nth_append)
  let ?st2 = "?st1\<lparr>tl_add_order := (m ! 9 = 65)\<rparr>"
  let ?st3 = "?st2\<lparr>tl_k := (tl_k st)\<lparr>sk_rx := drop n m @ rest\<rparr>, tl_buf := take n m @ drop n (tl_buf st)\<rparr>"
  have wait: "rx_wait 0 n ?st2 = Some (?st3, int n)"
    using rx_wait_there [of ?st2 "take n m" "drop n m @ rest" 0] split_rx [of n] st(1,5) len b by simp
  let ?st4 = "?st3\<lparr>tl_k := (tl_k st)\<lparr>sk_rx := rest\<rparr>, tl_buf := m @ drop (length m) (tl_buf st), tl_len := length m - n, tl_add_order := False\<rparr>"
  have at: "tcp_attributed n ?st3 = Some (?st4, True)"
    using tcp_attributed_there [of ?st3 "drop n m" rest "take n m" n "tl_buf st"] st len b n
    by (auto simp: tcp_attributed_def)
  have s2: "(if m ! 9 = 65 then ?st1\<lparr>tl_add_order := True\<rparr> else ?st1) = ?st2"
    using st(3) by (cases st) auto
  have "tcp_sequenced cb ?st1 = do {
      app \<leftarrow> cb_parse cb (m @ drop (length m) (tl_buf st)) (int (length m)) (m ! 9) (tl_app st);
      Some (tcp_took cb m rest app st, True) }"
    using n(1,2) nth wait at st b(1) unfolding tcp_sequenced_def Let_def
    by (simp add: s2 tcp_parse_def tcp_took_def)
  then show ?thesis using peek st nth by (simp add: tcp_step_def)
qed

lemma tcp_took_clean:
  assumes "edge_frame m" and "tcp_clean st"
  shows "tcp_clean (tcp_took cb m rest app st)" "sk_rx (tl_k (tcp_took cb m rest app st)) = rest"
    "sk_later (tl_k (tcp_took cb m rest app st)) = sk_later (tl_k st)"
proof -
  obtain n where n: "tcp_len_to_rec (m ! 9) = Some n" "length m = (if m ! 9 = 65 \<and> m ! 45 = 65 then n + 4 else n)"
    using edge_frameE [OF assms(1)] .
  then have "length m \<le> 2048" using tcp_len_cases [OF n(1)] by (simp split: if_splits)
  then show "tcp_clean (tcp_took cb m rest app st)" using assms(2) by (simp add: tcp_clean_def tcp_took_def)
  show "sk_rx (tl_k (tcp_took cb m rest app st)) = rest" "sk_later (tl_k (tcp_took cb m rest app st)) = sk_later (tl_k st)"
    by (simp_all add: tcp_took_def)
qed

text \<open>
  What a burst of messages means: each is handed to the parser in turn, in a buffer that starts with it, and the
  flush hook is called.
\<close>

fun parse_burst :: "'s tcp_cb \<Rightarrow> u8 list \<Rightarrow> u8 list list \<Rightarrow> 's \<Rightarrow> 's option" where
  "parse_burst cb buf [] app = Some app"
| "parse_burst cb buf (m # ms) app = do {
     app \<leftarrow> cb_parse cb (m @ drop (length m) buf) (int (length m)) (m ! 9) app;
     parse_burst cb (m @ drop (length m) buf) ms (cb_flush cb app)
   }"

definition burst_buf :: "u8 list \<Rightarrow> u8 list list \<Rightarrow> u8 list" where
  "burst_buf buf ms = foldl (\<lambda>b m. m @ drop (length m) b) buf ms"

lemma parse_burst_append:
  "parse_burst cb buf (ms @ ms') app = do { app \<leftarrow> parse_burst cb buf ms app; parse_burst cb (burst_buf buf ms) ms' app }"
proof (induction ms arbitrary: buf app)
  case (Cons m ms)
  then show ?case
    by (cases "cb_parse cb (m @ drop (length m) buf) (int (length m)) (m ! 9) app") (simp_all add: burst_buf_def)
qed (simp add: burst_buf_def)

text \<open>More data may come, but the connection is not at its end.\<close>

definition sk_alive :: "net_event list \<Rightarrow> bool" where
  "sk_alive es \<longleftrightarrow> es = [] \<or> (\<exists>bs es'. es = Seg bs # es')"

lemma tcp_loop_idle:
  assumes "tcp_clean st" and "sk_rx (tl_k st) = []" and "sk_alive (sk_later (tl_k st))"
  shows "tcp_loop cb st = Some (st\<lparr>tl_errno := EAGAIN\<rparr>)"
  using assms by (subst tcp_loop.simps) (auto simp: sk_alive_def tcp_step_def rx_peek_def rx_done_def recv_peek_def tcp_clean_def)

lemma tcp_loop_burst:
  assumes "\<forall>m\<in>set ms. edge_frame m" and "tcp_clean st" and "sk_rx (tl_k st) = concat ms"
    and "sk_alive (sk_later (tl_k st))"
    and "parse_burst cb (tl_buf st) ms (tl_app st) = Some app"
  shows "\<exists>st'. tcp_loop cb st = Some st' \<and> tcp_clean st' \<and> tl_app st' = app \<and>
    tl_k st' = (tl_k st)\<lparr>sk_rx := []\<rparr> \<and> tl_buf st' = burst_buf (tl_buf st) ms \<and>
    tl_messages st' = tl_messages st + of_nat (length ms)"
  using assms
proof (induction ms arbitrary: st)
  case Nil
  then have "tl_k st = (tl_k st)\<lparr>sk_rx := []\<rparr>" by (cases "tl_k st") simp
  then show ?case using Nil tcp_loop_idle [of st cb] by (auto simp: tcp_clean_def burst_buf_def)
next
  case (Cons m ms)
  then obtain app1 where p: "cb_parse cb (m @ drop (length m) (tl_buf st)) (int (length m)) (m ! 9) (tl_app st) = Some app1"
    "parse_burst cb (m @ drop (length m) (tl_buf st)) ms (cb_flush cb app1) = Some app" by (auto split: bind_splits)
  let ?st = "tcp_took cb m (concat ms) app1 st"
  have m: "edge_frame m" "sk_rx (tl_k st) = m @ concat ms" using Cons.prems by simp_all
  have "tcp_loop cb st = tcp_loop cb ?st"
    using tcp_step_frame [OF m(1) Cons.prems(2) m(2), of cb] p(1) by (subst tcp_loop.simps) simp
  moreover have "\<exists>st'. tcp_loop cb ?st = Some st' \<and> tcp_clean st' \<and> tl_app st' = app \<and>
      tl_k st' = (tl_k ?st)\<lparr>sk_rx := []\<rparr> \<and> tl_buf st' = burst_buf (tl_buf ?st) ms \<and>
      tl_messages st' = tl_messages ?st + of_nat (length ms)"
  proof (rule Cons.IH)
    show "tcp_clean ?st" "sk_rx (tl_k ?st) = concat ms" using tcp_took_clean [OF m(1) Cons.prems(2)] by simp_all
    show "sk_alive (sk_later (tl_k ?st))"
      using Cons.prems(4) tcp_took_clean(3) [OF m(1) Cons.prems(2)] by simp
    show "parse_burst cb (tl_buf ?st) ms (tl_app ?st) = Some app" using p(2) by (simp add: tcp_took_def)
  qed (use Cons.prems in simp)
  ultimately show ?case by (auto simp: tcp_took_def burst_buf_def)
qed

subsection \<open>Wake-ups\<close>

text \<open>A number of passes of the outer loop.\<close>

fun tcp_iterations :: "'s tcp_cb \<Rightarrow> nat \<Rightarrow> 's tcp_lh \<Rightarrow> 's tcp_lh option" where
  "tcp_iterations cb 0 st = Some st"
| "tcp_iterations cb (Suc n) st = do { st \<leftarrow> tcp_iteration cb st; tcp_iterations cb n st }"

lemma tcp_iteration_burst:
  assumes "\<forall>m\<in>set ms. edge_frame m" and "tcp_clean st" and "sk_rx (tl_k st) = []"
    and "sk_later (tl_k st) = Seg (concat ms) # es" and "sk_alive es"
    and "parse_burst cb (tl_buf st) ms (tl_app st) = Some app"
  shows "\<exists>st'. tcp_iteration cb st = Some st' \<and> tcp_clean st' \<and> tl_app st' = app \<and>
    sk_rx (tl_k st') = [] \<and> sk_later (tl_k st') = es \<and> tl_buf st' = burst_buf (tl_buf st) ms \<and>
    tl_messages st' = tl_messages st + of_nat (length ms)"
proof -
  let ?st = "st\<lparr>tl_k := sk_tick (tl_k st), tl_monitor_hb := HB_ALARM_TIMEOUT\<rparr>"
  have k: "sk_tick (tl_k st) = (tl_k st)\<lparr>sk_rx := concat ms, sk_later := es\<rparr>"
    using assms(3,4) by (simp add: sk_tick_def)
  have "tcp_iteration cb st = tcp_loop cb ?st"
    using assms(2-4) by (simp add: tcp_iteration_def tcp_ready_def tcp_resume_def tcp_clean_def Let_def)
  moreover have "\<exists>st'. tcp_loop cb ?st = Some st' \<and> tcp_clean st' \<and> tl_app st' = app \<and>
      tl_k st' = (tl_k ?st)\<lparr>sk_rx := []\<rparr> \<and> tl_buf st' = burst_buf (tl_buf ?st) ms \<and>
      tl_messages st' = tl_messages ?st + of_nat (length ms)"
    by (rule tcp_loop_burst) (use assms k in \<open>simp_all add: tcp_clean_def\<close>)
  ultimately show ?thesis using k by auto
qed

lemma tcp_bursts_run:
  assumes "\<forall>ms\<in>set mss. \<forall>m\<in>set ms. edge_frame m" and "tcp_clean st" and "sk_rx (tl_k st) = []"
    and "sk_later (tl_k st) = map (\<lambda>ms. Seg (concat ms)) mss"
    and "parse_burst cb (tl_buf st) (concat mss) (tl_app st) = Some app"
  shows "\<exists>st'. tcp_iterations cb (length mss) st = Some st' \<and> tl_app st' = app \<and> tcp_clean st' \<and>
    sk_rx (tl_k st') = [] \<and> sk_later (tl_k st') = [] \<and>
    tl_messages st' = tl_messages st + of_nat (length (concat mss))"
  using assms
proof (induction mss arbitrary: st)
  case (Cons ms mss)
  let ?es = "map (\<lambda>ms. Seg (concat ms)) mss"
  obtain app1 where p: "parse_burst cb (tl_buf st) ms (tl_app st) = Some app1"
    "parse_burst cb (burst_buf (tl_buf st) ms) (concat mss) app1 = Some app"
    using Cons.prems(5) by (auto simp: parse_burst_append split: bind_splits)
  have "sk_alive ?es" by (cases mss) (simp_all add: sk_alive_def)
  then obtain st1 where s: "tcp_iteration cb st = Some st1" "tcp_clean st1" "tl_app st1 = app1" "sk_rx (tl_k st1) = []"
    "sk_later (tl_k st1) = ?es" "tl_buf st1 = burst_buf (tl_buf st) ms" "tl_messages st1 = tl_messages st + of_nat (length ms)"
    using tcp_iteration_burst [of ms st ?es cb app1] Cons.prems(1-4) p(1) by auto
  have "\<exists>st'. tcp_iterations cb (length mss) st1 = Some st' \<and> tl_app st' = app \<and> tcp_clean st' \<and>
      sk_rx (tl_k st') = [] \<and> sk_later (tl_k st') = [] \<and> tl_messages st' = tl_messages st1 + of_nat (length (concat mss))"
    by (rule Cons.IH) (use Cons.prems(1) s p(2) in simp_all)
  then show ?case using s(1,7) by (auto simp: add.assoc)
qed simp

subsection \<open>Messages in two pieces\<close>

lemma rx_wait_short:
  assumes "sk_open (tl_k st)" and "sk_rx (tl_k st) = bs" and "bs \<noteq> []" and "length bs \<le> n" and "off + length bs \<le> length (tl_buf st)"
  shows "rx_wait off n st =
    Some (st\<lparr>tl_k := (tl_k st)\<lparr>sk_rx := []\<rparr>, tl_buf := take off (tl_buf st) @ bs @ drop (off + length bs) (tl_buf st)\<rparr>,
      int (length bs))"
  using assms by (simp add: rx_wait_def recv_wait_def rx_done_def buf_write_def)

text \<open>The first piece is kept in the buffer.\<close>

lemma tcp_loop_piece:
  assumes a: "10 \<le> length a" "a ! 0 = 83" "tcp_len_to_rec (a ! 9) = Some n" "length a < n"
    and clean: "tcp_clean st" and rx: "sk_rx (tl_k st) = a"
  shows "tcp_loop cb st = Some (st\<lparr>tl_k := (tl_k st)\<lparr>sk_rx := []\<rparr>, tl_buf := a @ drop (length a) (tl_buf st),
    tl_add_order := (a ! 9 = 65), tl_offset := length a, tl_still_more := n - length a\<rparr>)"
proof -
  have st: "sk_open (tl_k st)" "tl_part_rx st = 0" "\<not> tl_add_order st" "length (tl_buf st) = 2048"
    using clean by (simp_all add: tcp_clean_def)
  have n: "n \<le> 67" "a \<noteq> []" using tcp_len_cases [OF a(3)] a(1) by auto
  let ?st1 = "st\<lparr>tl_buf := take 10 a @ drop 10 (tl_buf st)\<rparr>" and ?add = "a ! 9 = 65"
  have peek: "rx_peek 0 10 st = Some (?st1, 10)"
    using rx_peek_there [OF st(1), of "take 10 a" "drop 10 a" 0] st rx a n by (simp add: min_absorb2)
  have nth: "(take 10 a @ drop 10 (tl_buf st)) ! 0 = 83" "(take 10 a @ drop 10 (tl_buf st)) ! 9 = a ! 9"
    using a n by (auto simp: nth_append)
  have s2: "(if ?add then ?st1\<lparr>tl_add_order := True\<rparr> else ?st1) = ?st1\<lparr>tl_add_order := ?add\<rparr>"
    using st(3) by (cases st) auto
  have wait: "rx_wait 0 n (?st1\<lparr>tl_add_order := ?add\<rparr>) =
      Some (st\<lparr>tl_k := (tl_k st)\<lparr>sk_rx := []\<rparr>, tl_buf := a @ drop (length a) (tl_buf st), tl_add_order := ?add\<rparr>, int (length a))"
    using rx_wait_short [of "?st1\<lparr>tl_add_order := ?add\<rparr>" a n 0] st rx a n by simp
  have "tcp_sequenced cb ?st1 = Some (st\<lparr>tl_k := (tl_k st)\<lparr>sk_rx := []\<rparr>, tl_buf := a @ drop (length a) (tl_buf st),
    tl_add_order := ?add, tl_offset := length a, tl_still_more := n - length a\<rparr>, False)"
    using nth wait st a n(2) unfolding tcp_sequenced_def Let_def by (simp add: s2)
  then show ?thesis using peek nth st by (subst tcp_loop.simps) (simp add: tcp_step_def)
qed

subsection \<open>Properties\<close>

text \<open>
  C9.  Every message that arrives is parsed: a connection that delivers messages in bursts, each of any number of
  complete messages, wakes the handler once for each burst, and after the last wake-up all messages were handed to the
  parser, each once, in the order of the stream, with its type and its length, an attributed quote included.  Nothing is left in
  the socket, and all messages were counted.  The parser may do anything but fault.
\<close>

theorem tcp_bursts_parsed:
  assumes "\<forall>ms\<in>set mss. \<forall>m\<in>set ms. edge_frame m" and "tcp_clean st" and "sk_rx (tl_k st) = []"
    and "sk_later (tl_k st) = map (\<lambda>ms. Seg (concat ms)) mss"
    and "parse_burst cb (tl_buf st) (concat mss) (tl_app st) = Some app"
  shows "\<exists>st'. tcp_iterations cb (length mss) st = Some st' \<and> tl_app st' = app \<and> tcp_clean st' \<and>
    sk_rx (tl_k st') = [] \<and> sk_later (tl_k st') = [] \<and>
    tl_messages st' = tl_messages st + of_nat (length (concat mss))"
  using tcp_bursts_run [OF assms] .

text \<open>
  C38.  A message that arrives in two pieces, the first with its header, is lost: the second wake-up completes it in the
  buffer, but calls the parser with the type 0, since the type is a variable of the wake-up; the message is counted
  as received.
\<close>

theorem tcp_split_message_lost:
  assumes "10 \<le> length a" and "b \<noteq> []" and "a ! 0 = 83" and "tcp_len_to_rec (a ! 9) = Some (length (a @ b))"
    and "tcp_clean st" and "sk_rx (tl_k st) = []" and "sk_later (tl_k st) = [Seg a, Seg b]"
    and "cb_parse cb ((a @ b) @ drop (length (a @ b)) (tl_buf st)) (int (length (a @ b))) 0 (tl_app st) = Some app"
  shows "\<exists>st'. tcp_iterations cb 2 st = Some st' \<and> tl_app st' = cb_flush cb app \<and>
    sk_rx (tl_k st') = [] \<and> tl_messages st' = tl_messages st + 1"
proof -
  let ?n = "length (a @ b)"
  have st: "sk_open (tl_k st)" "tl_part_rx st = 0" "tl_still_more st = 0" "\<not> tl_add_order st" "length (tl_buf st) = 2048"
    using assms(5) by (simp_all add: tcp_clean_def)
  have n: "?n \<le> 67" using tcp_len_cases [OF assms(4)] by simp
  let ?k = "(tl_k st)\<lparr>sk_rx := [], sk_later := [Seg b]\<rparr>"
  let ?st1 = "st\<lparr>tl_k := (tl_k st)\<lparr>sk_rx := a, sk_later := [Seg b]\<rparr>, tl_monitor_hb := HB_ALARM_TIMEOUT\<rparr>"
  let ?st2 = "?st1\<lparr>tl_k := ?k, tl_buf := a @ drop (length a) (tl_buf st), tl_add_order := (a ! 9 = 65),
    tl_offset := length a, tl_still_more := length b\<rparr>"
  have "tcp_iteration cb st = tcp_loop cb ?st1"
    using assms(6,7) st by (simp add: tcp_iteration_def tcp_ready_def tcp_resume_def sk_tick_def Let_def)
  also have "\<dots> = Some ?st2"
    using tcp_loop_piece [OF assms(1,3,4), of ?st1 cb] assms(2,5) by (simp add: tcp_clean_def)
  finally have i1: "tcp_iteration cb st = Some ?st2" .
  let ?st3 = "?st2\<lparr>tl_k := (tl_k st)\<lparr>sk_rx := b, sk_later := []\<rparr>, tl_monitor_hb := HB_ALARM_TIMEOUT\<rparr>"
  let ?st4 = "?st3\<lparr>tl_k := (tl_k st)\<lparr>sk_rx := [], sk_later := []\<rparr>, tl_buf := (a @ b) @ drop ?n (tl_buf st)\<rparr>"
  have "rx_wait (length a) (length b) ?st3 = Some (?st4, int (length b))"
    using rx_wait_there [of ?st3 b "[]" "length a"] assms(2) st n by (simp add: add.commute)
  then have r: "tcp_resume cb ?st3 = Some (?st4\<lparr>tl_app := cb_flush cb app, tl_messages := tl_messages st + 1,
      tl_bytes := tl_bytes st + of_nat ?n, tl_offset := 0, tl_still_more := 0\<rparr>, True)" (is "_ = Some (?st5, True)")
    using assms(2,8) by (simp add: tcp_resume_def tcp_parse_def Let_def)
  have l: "tcp_loop cb ?st5 = Some (?st5\<lparr>tl_errno := EAGAIN\<rparr>)"
    using st by (subst tcp_loop.simps) (simp add: tcp_step_def rx_peek_def rx_done_def recv_peek_def)
  have "tcp_iteration cb ?st2 = Some (?st5\<lparr>tl_errno := EAGAIN\<rparr>)"
    using r l st by (simp add: tcp_iteration_def tcp_ready_def sk_tick_def Let_def)
  then show ?thesis using i1 by (simp add: numeral_2_eq_2)
qed

subsection \<open>Witnesses\<close>

text \<open>A parser that notes the types it is called with, and two messages.\<close>

definition tcp_ex_cb :: "u8 list tcp_cb" where
  "tcp_ex_cb = \<lparr>cb_parse = \<lambda>buf len c s. Some (s @ [c]), cb_connect = \<lambda>s. (s, \<lparr>sk_open = True, sk_rx = [], sk_later = []\<rparr>, FH_OK),
     cb_alarm = \<lambda>_ s. s, cb_flush = \<lambda>s. s, cb_new_session = \<lambda>s. s, cb_finished = \<lambda>_. False\<rparr>"

definition tcp_ex_event :: "u8 list" where
  "tcp_ex_event = [83] @ replicate 8 48 @ [83, 79, 10]"

definition tcp_ex_status :: "u8 list" where
  "tcp_ex_status = [83] @ replicate 8 48 @ [72] @ replicate 6 65 @ [84, 10]"

definition tcp_ex_line :: "net_event list \<Rightarrow> u8 list tcp_lh" where
  "tcp_ex_line es = \<lparr>tl_k = \<lparr>sk_open = True, sk_rx = [], sk_later = es\<rparr>, tl_errno = 0, tl_buf = replicate 2048 0, tl_part_rx = 0,
     tl_still_more = 0, tl_offset = 0, tl_add_order = False, tl_len = 0, tl_messages = 0, tl_bytes = 0,
     tl_message_errors = 0, tl_hb_count = 0, tl_monitor_hb = 10, tl_connections = 1, tl_first_time = True, tl_app = []\<rparr>"

lemma tcp_ex_cb_simps [simp]: "cb_parse tcp_ex_cb buf len c s = Some (s @ [c])" "cb_flush tcp_ex_cb s = s"
  by (simp_all add: tcp_ex_cb_def)

lemma tcp_ex_frames: "edge_frame tcp_ex_event" "edge_frame tcp_ex_status"
  "tcp_ex_event ! 9 = 83" "tcp_ex_status ! 9 = 72"
  by (simp_all add: edge_frame_def tcp_ex_event_def tcp_ex_status_def nth_append tcp_len_to_rec_def edge_sizes)

lemma tcp_ex_clean: "tcp_clean (tcp_ex_line es)" "sk_rx (tl_k (tcp_ex_line es)) = []" "sk_later (tl_k (tcp_ex_line es)) = es"
  "tl_app (tcp_ex_line es) = []" "tl_messages (tcp_ex_line es) = 0"
  by (simp_all add: tcp_ex_line_def tcp_clean_def)

theorem tcp_bursts_parsed_witness:
  "\<exists>st'. tcp_iterations tcp_ex_cb 2 (tcp_ex_line [Seg (tcp_ex_event @ tcp_ex_status), Seg tcp_ex_event]) = Some st' \<and>
     tl_app st' = [83, 72, 83] \<and> tl_messages st' = 3"
  using tcp_bursts_parsed [of "[[tcp_ex_event, tcp_ex_status], [tcp_ex_event]]"
      "tcp_ex_line [Seg (tcp_ex_event @ tcp_ex_status), Seg tcp_ex_event]" tcp_ex_cb "[83, 72, 83]"] tcp_ex_frames tcp_ex_clean
  by (auto simp: eval_nat_numeral)

theorem tcp_split_message_lost_witness:
  "\<exists>st'. tcp_iterations tcp_ex_cb 2 (tcp_ex_line [Seg (take 10 tcp_ex_event), Seg (drop 10 tcp_ex_event)]) = Some st' \<and>
     tl_app st' = [0] \<and> tl_messages st' = 1"
proof -
  let ?st = "tcp_ex_line [Seg (take 10 tcp_ex_event), Seg (drop 10 tcp_ex_event)]"
  have len: "length tcp_ex_event = 12" by (simp add: tcp_ex_event_def)
  have "\<exists>st'. tcp_iterations tcp_ex_cb 2 ?st = Some st' \<and> tl_app st' = cb_flush tcp_ex_cb [0] \<and>
      sk_rx (tl_k st') = [] \<and> tl_messages st' = tl_messages ?st + 1"
    by (rule tcp_split_message_lost)
      (use len tcp_ex_clean in \<open>simp_all add: tcp_ex_event_def tcp_len_to_rec_def edge_sizes nth_append\<close>)
  then show ?thesis by (auto simp: tcp_ex_clean)
qed

end
