(* ===== verification/EdgeFeed.thy ===== *)
theory EdgeFeed
  imports TcpLine
begin

section \<open>The DirectEdge feed: the TCP line handler with the message parser\<close>

text \<open>
  The receive loop of \<open>TcpLine\<close> with the parser of \<open>EdgeMsg\<close>: from the bytes of the connection to the order book.
  What the line handler relies on is the locale \<open>message_parser\<close>; the DirectEdge parser is an interpretation.
\<close>

subsection \<open>Parsers behind a TCP line handler\<close>

text \<open>
  A parser with an invariant that takes every complete message, whatever the rest of the receive buffer holds;
  \<open>eff\<close> relates the states before and after a message and the flush that follows it.
\<close>

fun eff_all :: "(u8 list \<Rightarrow> 's \<Rightarrow> 's \<Rightarrow> bool) \<Rightarrow> u8 list list \<Rightarrow> 's \<Rightarrow> 's \<Rightarrow> bool" where
  "eff_all eff [] s s' \<longleftrightarrow> s' = s"
| "eff_all eff (b # bs) s s' \<longleftrightarrow> (\<exists>s1. eff b s s1 \<and> eff_all eff bs s1 s')"

lemma edge_frame_bound: "edge_frame b \<Longrightarrow> length b \<le> 67"
  by (auto simp: edge_frame_def tcp_len_to_rec_def edge_sizes split: if_splits)

locale message_parser =
  fixes cb :: "'s tcp_cb" and inv :: "'s \<Rightarrow> bool" and eff :: "u8 list \<Rightarrow> 's \<Rightarrow> 's \<Rightarrow> bool"
  assumes parse_law: "edge_frame b \<Longrightarrow> length (b @ rest) = 2048 \<Longrightarrow> inv s \<Longrightarrow>
    \<exists>s'. cb_parse cb (b @ rest) (int (length b)) (b ! 9) s = Some s' \<and> inv (cb_flush cb s') \<and> eff b s (cb_flush cb s')"
begin

lemma burst_ok:
  assumes "\<forall>b\<in>set bs. edge_frame b" and "length buf = 2048" and "inv s"
  shows "\<exists>s'. parse_burst cb buf bs s = Some s' \<and> inv s' \<and> eff_all eff bs s s'"
  using assms
proof (induction bs arbitrary: buf s)
  case (Cons b bs)
  have b: "edge_frame b" using Cons.prems(1) by simp
  then have buf: "length (b @ drop (length b) buf) = 2048"
    using Cons.prems(2) edge_frame_bound by fastforce
  then obtain s1 where s1: "cb_parse cb (b @ drop (length b) buf) (int (length b)) (b ! 9) s = Some s1"
    "inv (cb_flush cb s1)" "eff b s (cb_flush cb s1)" using parse_law [OF b _ Cons.prems(3)] by blast
  moreover obtain s' where "parse_burst cb (b @ drop (length b) buf) bs (cb_flush cb s1) = Some s'" "inv s'"
    "eff_all eff bs (cb_flush cb s1) s'" using Cons.IH [OF _ buf s1(2)] Cons.prems(1) by auto
  ultimately show ?case by auto
qed simp

lemma stream_ok:
  assumes "\<forall>bs\<in>set bss. \<forall>b\<in>set bs. edge_frame b" and "tcp_clean st" and "sk_rx (tl_k st) = []"
    and "sk_later (tl_k st) = map (\<lambda>bs. Seg (concat bs)) bss" and "inv (tl_app st)"
  shows "\<exists>st'. tcp_iterations cb (length bss) st = Some st' \<and> inv (tl_app st') \<and> eff_all eff (concat bss) (tl_app st) (tl_app st') \<and>
    tl_messages st' = tl_messages st + of_nat (length (concat bss))"
proof -
  have "length (tl_buf st) = 2048" "\<forall>b\<in>set (concat bss). edge_frame b" using assms(1,2) by (auto simp: tcp_clean_def)
  then obtain s where "parse_burst cb (tl_buf st) (concat bss) (tl_app st) = Some s" "inv s" "eff_all eff (concat bss) (tl_app st) s"
    using burst_ok [OF _ _ assms(5)] by blast
  then show ?thesis using tcp_bursts_run [OF assms(1-4), of cb s] by metis
qed

end

subsection \<open>The DirectEdge parser\<close>

definition edge_parse_cb :: "'d edge_hooks \<Rightarrow> u8 list \<Rightarrow> int \<Rightarrow> u8 \<Rightarrow> 'd edge_state \<Rightarrow> 'd edge_state option" where
  "edge_parse_cb hooks buf len rx_char st = map_option fst (fh_edge_parse_msg hooks buf len rx_char st)"

text \<open>The callbacks of the feed; the flush hook may note what it was told, but does not write the parser's state.\<close>

definition edge_cb ::
  "'d edge_hooks \<Rightarrow> ((edge_msg, 'd) lh_event list \<Rightarrow> (edge_msg, 'd) lh_event list) \<Rightarrow> 'd edge_state tcp_cb \<Rightarrow> 'd edge_state tcp_cb" where
  "edge_cb hooks flush cb = cb\<lparr>cb_parse := edge_parse_cb hooks, cb_flush := (\<lambda>st. st\<lparr>lh_trace := flush (lh_trace st)\<rparr>)\<rparr>"

text \<open>The fields of a message do not depend on what is behind it in the buffer.\<close>

lemma edge_int_loop_prefix: "off + k \<le> length b \<Longrightarrow> edge_int_loop (b @ x) off k y t = edge_int_loop b off k y t"
  by (induction k arbitrary: y t) (simp_all add: rd_def nth_append)

lemma edge_price_loop_prefix: "off + k \<le> length b \<Longrightarrow> edge_price_loop (b @ x) off k y t = edge_price_loop b off k y t"
  by (induction k arbitrary: y t) (simp_all add: rd_def nth_append)

lemma edge_effect_prefix:
  assumes "edge_good c (int (length b))"
  shows "edge_effect m (b @ x) c se bk = edge_effect m b c se bk"
proof -
  have "c = 65 \<Longrightarrow> 45 \<le> length b" "c = 69 \<or> c = 88 \<Longrightarrow> 28 \<le> length b" using assms by (auto simp: edge_good_def)
  then show ?thesis
    by (auto simp: edge_effect_def edge_added_def edge_ref_def edge_num_def edge_price_def fh_dirEdge_convert_int_def
        fh_dirEdge_get_price_def edge_int_loop_prefix edge_price_loop_prefix nth_append)
qed

lemma edge_frame_good: "edge_frame m \<Longrightarrow> edge_good (m ! 9) (int (length m))"
  by (auto simp: edge_frame_def edge_good_def tcp_len_to_rec_def edge_sizes split: if_splits)

definition edge_line_ok :: "nat \<Rightarrow> nat \<Rightarrow> 'd edge_state \<Rightarrow> bool" where
  "edge_line_ok n m st \<longleftrightarrow> tables_ok n m st \<and> lh_ord_enabled st"

definition edge_applied :: "nat \<Rightarrow> u8 list \<Rightarrow> 'd edge_state \<Rightarrow> 'd edge_state \<Rightarrow> bool" where
  "edge_applied m b st st' \<longleftrightarrow> (\<exists>se. book st' = edge_effect m b (b ! 9) se (book st))"

interpretation edge_line: message_parser "edge_cb hooks flush cb" "edge_line_ok n m" "edge_applied m"
  for hooks :: "'d edge_hooks" and flush cb n m
proof
  fix b rest :: "u8 list" and st :: "'d edge_state"
  assume b: "edge_frame b" and len: "length (b @ rest) = 2048" and ok: "edge_line_ok n m st"
  note good = edge_frame_good [OF b]
  have "hook_msg_send hooks = None \<or> b ! 9 \<noteq> 69 \<or> int (length b) = 50" using good by (auto simp: edge_good_def)
  moreover have "tables_ok n m st" "67 \<le> length (b @ rest)" using ok len by (simp_all add: edge_line_ok_def)
  ultimately obtain st1 rc se where p: "fh_edge_parse_msg hooks (b @ rest) (int (length b)) (b ! 9) st = Some (st1, rc)"
    "tables_ok n m st1" "lh_ord_enabled st1" "book st1 = edge_effect m (b @ rest) (b ! 9) se (book st)"
    using edge_parse_msg_ok [of n m st "b @ rest" hooks "b ! 9" "int (length b)"] ok good by (auto simp: edge_line_ok_def)
  let ?st = "st1\<lparr>lh_trace := flush (lh_trace st1)\<rparr>"
  have "edge_line_ok n m ?st" "book ?st = book st1" using p(2,3) by (simp_all add: edge_line_ok_def tables_ok_def book_def)
  then show "\<exists>s'. cb_parse (edge_cb hooks flush cb) (b @ rest) (int (length b)) (b ! 9) st = Some s' \<and>
      edge_line_ok n m (cb_flush (edge_cb hooks flush cb) s') \<and> edge_applied m b st (cb_flush (edge_cb hooks flush cb) s')"
    using p(1,4) edge_effect_prefix [OF good] by (auto simp: edge_cb_def edge_parse_cb_def edge_applied_def)
qed

text \<open>What the messages of a stream mean for the order book, for the symbol entries found on the way.\<close>

definition book_stream :: "nat \<Rightarrow> u8 list list \<Rightarrow> ptr list \<Rightarrow> (ord_key \<rightharpoonup> lkp_ord) \<Rightarrow> ord_key \<rightharpoonup> lkp_ord" where
  "book_stream m bs ses bk = fold (\<lambda>(b, se). edge_effect m b (b ! 9) se) (zip bs ses) bk"

lemma applied_stream:
  "eff_all (edge_applied m) bs st st' \<Longrightarrow> \<exists>ses. length ses = length bs \<and> book st' = book_stream m bs ses (book st)"
proof (induction bs arbitrary: st)
  case (Cons b bs)
  then obtain st1 where st1: "edge_applied m b st st1" "eff_all (edge_applied m) bs st1 st'" by auto
  then obtain se where s: "book st1 = edge_effect m b (b ! 9) se (book st)" by (auto simp: edge_applied_def)
  then obtain ses where "length ses = length bs" "book st' = book_stream m bs ses (book st1)" using Cons.IH [OF st1(2)] by blast
  then show ?case using s by (intro exI [of _ "se # ses"]) (simp add: book_stream_def)
qed (simp add: book_stream_def)

subsection \<open>Properties\<close>

text \<open>
  C10.  From the stream to the order book: a connection that delivers bursts of complete DirectEdge messages, whatever their
  fields, is read without a fault; after the wake-ups the order book is the old one with the effects of all
  messages, each applied once and in the order of the stream, and the tables are well formed.
\<close>

theorem edge_stream_applied:
  assumes "\<forall>bs\<in>set bss. \<forall>b\<in>set bs. edge_frame b"
    and "tcp_clean st" and "sk_rx (tl_k st) = []" and "sk_later (tl_k st) = map (\<lambda>bs. Seg (concat bs)) bss"
    and "tables_ok n m (tl_app st)" and "lh_ord_enabled (tl_app st)"
  shows "\<exists>st' ses. tcp_iterations (edge_cb hooks flush cb) (length bss) st = Some st' \<and> tables_ok n m (tl_app st') \<and>
    length ses = length (concat bss) \<and> book (tl_app st') = book_stream m (concat bss) ses (book (tl_app st)) \<and>
    tl_messages st' = tl_messages st + of_nat (length (concat bss))"
proof -
  have "edge_line_ok n m (tl_app st)" using assms(5,6) by (simp add: edge_line_ok_def)
  then obtain st' where "tcp_iterations (edge_cb hooks flush cb) (length bss) st = Some st'" "edge_line_ok n m (tl_app st')"
    "eff_all (edge_applied m) (concat bss) (tl_app st) (tl_app st')"
    "tl_messages st' = tl_messages st + of_nat (length (concat bss))"
    using edge_line.stream_ok [OF assms(1-4)] by blast
  then show ?thesis using applied_stream by (auto simp: edge_line_ok_def)
qed

subsection \<open>Witness\<close>

definition edge_ex_cb :: "unit edge_state tcp_cb" where
  "edge_ex_cb = \<lparr>cb_parse = \<lambda>_ _ _ _. None, cb_connect = \<lambda>s. (s, \<lparr>sk_open = True, sk_rx = [], sk_later = []\<rparr>, FH_OK),
     cb_alarm = \<lambda>_ s. s, cb_flush = \<lambda>s. s, cb_new_session = \<lambda>s. s, cb_finished = \<lambda>_. False\<rparr>"

text \<open>An attributed order of 100 shares and its execution.\<close>

definition edge_ex_order :: "u8 list" where
  "edge_ex_order = edge_add_wire 34200000 edge_ex_ref 66 100 [65, 65, 80, 76, 32, 32] 123400 [69, 68, 71, 69]"

definition edge_ex_exec :: "u8 list" where
  "edge_ex_exec = [83] @ num_field 8 34200001 @ [69] @ edge_ex_ref @ num_field 6 40 @ replicate 21 48 @ [10]"

definition edge_ex_tcp :: "unit edge_state tcp_lh" where
  "edge_ex_tcp = \<lparr>tl_k = \<lparr>sk_open = True, sk_rx = [], sk_later = [Seg edge_ex_order, Seg edge_ex_exec]\<rparr>, tl_errno = 0,
     tl_buf = replicate 2048 0, tl_part_rx = 0, tl_still_more = 0, tl_offset = 0, tl_add_order = False, tl_len = 0,
     tl_messages = 0, tl_bytes = 0, tl_message_errors = 0, tl_hb_count = 0, tl_monitor_hb = 10, tl_connections = 1,
     tl_first_time = True, tl_app = edge_ex_line\<rparr>"

lemma edge_ex_frames: "edge_frame edge_ex_order" "edge_frame edge_ex_exec"
  "edge_ex_order ! 9 = 65" "edge_ex_exec ! 9 = 69"
proof -
  have "length (num_field 8 34200000) = 8" "length (num_field 8 34200001) = 8" "length (num_field 6 100) = 6"
    "length (num_field 6 40) = 6" "length (num_field 10 123400) = 10" "length edge_ex_ref = 12"
    using dec_digits_length [of 34200000 7] dec_digits_length [of 34200001 7] dec_digits_length [of 100 5]
      dec_digits_length [of 40 5] dec_digits_length [of 123400 9]
    by (simp_all add: num_field_length edge_ex_ref_def)
  then show "edge_frame edge_ex_order" "edge_frame edge_ex_exec" "edge_ex_order ! 9 = 65" "edge_ex_exec ! 9 = 69"
    by (simp_all add: edge_frame_def edge_ex_order_def edge_ex_exec_def edge_add_wire_def nth_append tcp_len_to_rec_def edge_sizes)
qed

theorem edge_stream_applied_witness:
  "\<exists>st' ses. tcp_iterations (edge_cb edge_ex_hooks (\<lambda>tr. tr) edge_ex_cb) 2 edge_ex_tcp = Some st' \<and> tables_ok 2 2 (tl_app st') \<and>
     book (tl_app st') = book_stream 2 [edge_ex_order, edge_ex_exec] ses Map.empty \<and> tl_messages st' = 2"
proof -
  have "tcp_clean edge_ex_tcp" "tl_app edge_ex_tcp = edge_ex_line" "tl_messages edge_ex_tcp = 0"
    "tl_k edge_ex_tcp = \<lparr>sk_open = True, sk_rx = [], sk_later = [Seg edge_ex_order, Seg edge_ex_exec]\<rparr>"
    by (simp_all add: tcp_clean_def edge_ex_tcp_def)
  moreover have "lh_ord_enabled edge_ex_line" by (simp add: edge_ex_line_def)
  ultimately show ?thesis
    using edge_stream_applied [of "[[edge_ex_order], [edge_ex_exec]]" edge_ex_tcp 2 2 edge_ex_hooks "\<lambda>tr. tr" edge_ex_cb]
      edge_ex_frames edge_ex_line_ok by (auto simp: eval_nat_numeral)
qed

end
