(* ===== verification/TcpEnds.thy ===== *)
theory TcpEnds
  imports TcpLine
begin

section \<open>The TCP line handler does not hang\<close>

text \<open>
  Termination of the loop over messages of \<open>TcpLine\<close> on arbitrary bytes.  Each pass that goes on takes bytes from
  the connection.
\<close>

subsection \<open>Wake-ups end\<close>

text \<open>The bytes that are still to come; a connection that will be closed, without debug messages.\<close>

fun ev_bytes :: "net_event list \<Rightarrow> u8 list" where
  "ev_bytes [] = []"
| "ev_bytes (Seg bs # es) = bs @ ev_bytes es"
| "ev_bytes (e # es) = ev_bytes es"

definition sk_bytes :: "tcp_kernel \<Rightarrow> u8 list" where
  "sk_bytes k = sk_rx k @ ev_bytes (sk_later k)"

definition sk_live :: "tcp_kernel \<Rightarrow> bool" where
  "sk_live k \<longleftrightarrow> sk_open k \<and> Fin \<in> set (sk_later k) \<and> 43 \<notin> set (sk_bytes k)"

text \<open>What a read may return, and that the connection stays one that will be closed, with as many bytes less.\<close>

definition sk_read :: "nat \<Rightarrow> nat \<Rightarrow> tcp_kernel \<times> recv_res \<Rightarrow> bool" where
  "sk_read n tot = (\<lambda>(k, r). sk_live k \<and> length (sk_bytes k) \<le> tot \<and>
     (case r of
        Got bs \<Rightarrow> bs \<noteq> [] \<and> length bs \<le> n \<and> 43 \<notin> set bs \<and> length (sk_bytes k) + length bs \<le> tot
      | Zero \<Rightarrow> True
      | Fail e \<Rightarrow> sk_rx k = [] \<and> (\<exists>es. sk_later k = Fin # es)))"

lemma sk_wait_live:
  assumes "Fin \<in> set es" and "43 \<notin> set (ev_bytes es)" and "0 < n"
  shows "\<exists>kr. sk_wait n es = Some kr \<and> sk_read n (length (ev_bytes es)) kr"
  using assms
proof (induction n es rule: sk_wait.induct)
  case (2 n bs es)
  show ?case
  proof (cases "bs = []")
    case False
    moreover have "43 \<notin> set (take n bs)" "43 \<notin> set (drop n bs)" using "2.prems"(2) by (auto dest: in_set_takeD in_set_dropD)
    ultimately show ?thesis using "2.prems" by (auto simp: sk_read_def sk_live_def sk_bytes_def)
  qed (use 2 in simp)
qed (auto simp: sk_read_def sk_live_def sk_bytes_def)

lemma recv_wait_live:
  assumes "sk_live k" and "0 < n"
  shows "\<exists>kr. recv_wait n k = Some kr \<and> sk_read n (length (sk_bytes k)) kr"
proof (cases "sk_rx k = []")
  case True
  then show ?thesis using sk_wait_live [of "sk_later k" n] assms by (auto simp: recv_wait_def sk_live_def sk_bytes_def)
next
  case False
  moreover have "43 \<notin> set (take n (sk_rx k))" "43 \<notin> set (drop n (sk_rx k))"
    using assms(1) by (auto simp: sk_live_def sk_bytes_def dest: in_set_takeD in_set_dropD)
  ultimately show ?thesis using assms by (auto simp: recv_wait_def sk_live_def sk_bytes_def sk_read_def)
qed

lemma recv_peek_live:
  assumes "sk_live k" and "0 < n" and "recv_peek n k = (k', r)"
  shows "sk_live k'" "sk_bytes k' = sk_bytes k" "\<And>bs. r = Got bs \<Longrightarrow> bs \<noteq> [] \<and> length bs \<le> n \<and> 43 \<notin> set bs \<and> length bs \<le> length (sk_rx k')"
  using assms
  by (auto simp: recv_peek_def sk_live_def sk_bytes_def dest: in_set_takeD split: if_splits list.splits net_event.splits)

text \<open>States of the receive loop on such a connection.\<close>

definition tcp_live :: "'s tcp_lh \<Rightarrow> bool" where
  "tcp_live st \<longleftrightarrow> sk_live (tl_k st) \<and> length (tl_buf st) = 2048"

abbreviation tcp_left :: "'s tcp_lh \<Rightarrow> nat" where
  "tcp_left st \<equiv> length (sk_bytes (tl_k st))"

definition rx_post :: "nat \<Rightarrow> 's tcp_lh \<Rightarrow> 's tcp_lh \<times> int \<Rightarrow> bool" where
  "rx_post n st = (\<lambda>(st', r). tcp_live st' \<and> tl_part_rx st' = tl_part_rx st \<and> tl_len st' = tl_len st \<and>
     tcp_left st' \<le> tcp_left st \<and>
     (r = -1 \<and> sk_rx (tl_k st') = [] \<and> (\<exists>es. sk_later (tl_k st') = Fin # es) \<or> r = 0 \<or>
      0 < r \<and> r \<le> int n \<and> tcp_left st' + nat r \<le> tcp_left st))"

lemma wp_rx_wait:
  assumes "tcp_live st" and "0 < n" and "off + n \<le> 2048"
    and "\<And>st' r. rx_post n st (st', r) \<Longrightarrow> succeeds P (g (st', r))"
  shows "succeeds P (Option.bind (rx_wait off n st) g)"
proof -
  obtain k r where k: "recv_wait n (tl_k st) = Some (k, r)" "sk_read n (tcp_left st) (k, r)"
    using recv_wait_live [of "tl_k st" n] assms(1,2) by (auto simp: tcp_live_def)
  show ?thesis
  proof (cases r)
    case (Got bs)
    then have "buf_write off bs (tl_buf st) = Some (take off (tl_buf st) @ bs @ drop (off + length bs) (tl_buf st))"
      using k(2) assms(1,3) by (simp add: buf_write_def tcp_live_def sk_read_def)
    then show ?thesis using Got k assms
      by (auto simp: rx_wait_def rx_done_def sk_read_def rx_post_def tcp_live_def intro!: assms(4))
  next
    case Zero
    then show ?thesis using k assms by (auto simp: rx_wait_def rx_done_def sk_read_def rx_post_def tcp_live_def intro!: assms(4))
  next
    case (Fail e)
    then show ?thesis using k assms by (auto simp: rx_wait_def rx_done_def sk_read_def rx_post_def tcp_live_def intro!: assms(4))
  qed
qed

lemma rest_loop_closed:
  assumes "sk_open (tl_k st)" and "sk_rx (tl_k st) = []" and "sk_later (tl_k st) = Fin # es"
  shows "rest_loop off l 0 st = Some (st, 0)"
proof -
  have "\<lparr>sk_open = True, sk_rx = [], sk_later = Fin # es\<rparr> = tl_k st" using assms by (cases "tl_k st") simp
  then show ?thesis using assms by (subst rest_loop.simps) (simp add: rx_wait_def recv_wait_def rx_done_def)
qed

lemma wp_get_rest:
  assumes "tcp_live st" and "off + 4 \<le> 2048"
    and "\<And>st' l. tcp_live st' \<Longrightarrow> tcp_left st' \<le> tcp_left st \<Longrightarrow> succeeds P (g (st', l))"
  shows "succeeds P (Option.bind (get_rest_of_attributed_data off st) g)"
proof -
  have "succeeds (\<lambda>(st', l). tcp_live st' \<and> tcp_left st' \<le> tcp_left st) (rest_loop off 4 0 st)"
    unfolding rest_loop.simps [of off 4 0]
  proof (rule wp_rx_wait [OF assms(1)], goal_cases)
    case (3 st' r)
    then show ?case using rest_loop_closed [of st' _ off "-1"]
      by (auto simp: rx_post_def succeeds_def tcp_live_def sk_live_def)
  qed (use assms(2) in simp_all)
  then show ?thesis using assms(3) by (auto simp: succeeds_def get_rest_of_attributed_data_def)
qed

text \<open>A parser that does not fault and a server that can be reached.\<close>

definition cb_sound :: "'s tcp_cb \<Rightarrow> bool" where
  "cb_sound cb \<longleftrightarrow> (\<forall>buf n c s. cb_parse cb buf n c s \<noteq> None) \<and> (\<forall>s. snd (snd (cb_connect cb s)) = FH_OK)"

lemma wp_reconnect:
  assumes "cb_sound cb" and "\<And>st'. succeeds P (g st')"
  shows "succeeds P (Option.bind (dir_edge_reconnect cb st) g)"
proof -
  have "\<exists>r. connect_loop (cb_connect cb) fin app = Some r" for fin app
    using assms(1) by (subst connect_loop.simps) (auto simp: cb_sound_def split: prod.splits, metis snd_conv)
  then obtain app k where "connect_loop (cb_connect cb) (cb_finished cb)
      (if tl_first_time st then cb_alarm cb FH_ALERT_TCP_CONNECTION_BROKEN (tl_app st) else tl_app st) = Some (app, k)"
    by (metis surj_pair)
  then show ?thesis using assms(2) by (simp add: dir_edge_reconnect_def Let_def)
qed

definition tcp_post :: "'s tcp_lh \<Rightarrow> 's tcp_lh \<times> bool \<Rightarrow> bool" where
  "tcp_post st = (\<lambda>(st', go). go \<longrightarrow> tcp_live st' \<and> tl_part_rx st' = 0 \<and> tcp_left st' < tcp_left st)"

lemma wp_parse:
  assumes "cb_sound cb" and "\<And>st'. tl_k st' = tl_k st \<Longrightarrow> tl_buf st' = tl_buf st \<Longrightarrow> succeeds P (g st')"
  shows "succeeds P (Option.bind (tcp_parse cb n c st) g)"
proof -
  obtain app where "cb_parse cb (tl_buf st) (int n) c (tl_app st) = Some app" using assms(1) by (fastforce simp: cb_sound_def)
  then show ?thesis using assms(2) [of "st\<lparr>tl_app := cb_flush cb app, tl_messages := tl_messages st + 1\<rparr>"]
    by (simp add: tcp_parse_def)
qed

lemma wp_attributed:
  assumes "tcp_live st" and "n + 4 \<le> 2048"
    and "\<And>st' ok. tcp_live st' \<Longrightarrow> tcp_left st' \<le> tcp_left st \<Longrightarrow> succeeds P (g (st', ok))"
  shows "succeeds P (Option.bind (tcp_attributed n st) g)"
proof -
  have "succeeds (\<lambda>(st', ok). tcp_live st' \<and> tcp_left st' \<le> tcp_left st) (tcp_attributed n st)"
    unfolding tcp_attributed_def using assms(1)
    by (auto intro!: wp_Some wp_get_rest [OF assms(1,2)] simp: tcp_live_def)
  then show ?thesis using assms(3) by (auto simp: succeeds_def)
qed

lemma sequenced_ends:
  assumes cb: "cb_sound cb" and live: "tcp_live st" and part: "tl_part_rx st < 10"
  shows "succeeds (tcp_post st) (tcp_sequenced cb st)"
proof (cases "tcp_len_to_rec (tl_buf st ! 9)")
  case (Some n)
  note b = tcp_len_cases [OF Some]
  let ?st = "if tl_buf st ! 9 = 65 then st\<lparr>tl_add_order := True\<rparr> else st" and ?n = "n - tl_part_rx st"
  have l: "tcp_live ?st" "tcp_left ?st = tcp_left st" using live by (simp_all add: tcp_live_def)
  show ?thesis unfolding tcp_sequenced_def Let_def Some option.case
  proof (rule wp_rx_wait [OF l(1)], goal_cases)
    case (3 st1 r)
    then have s: "tcp_live st1" "r = int ?n \<Longrightarrow> tcp_left st1 < tcp_left st" using l(2) b part by (auto simp: rx_post_def)
    then show ?case using b cb
      by (auto intro!: wp_attributed [OF s(1)] wp_parse [OF cb] wp_reconnect [OF cb] wp_Some simp: tcp_post_def tcp_live_def)
  qed (use b part in simp_all)
qed (simp add: tcp_sequenced_def tcp_post_def succeeds_def)

lemma short_ends:
  assumes cb: "cb_sound cb" and live: "tcp_live st" and len: "reclen \<le> 10"
  shows "succeeds (\<lambda>_. True) (tcp_short cb reclen st)"
proof (cases "reclen < 2")
  case False
  have "succeeds (\<lambda>_. True) (process_end_of_session cb st)"
    using recv_wait_live [of "tl_k st" 2] live by (auto simp: process_end_of_session_def succeeds_def tcp_live_def)
  moreover have "succeeds (\<lambda>_. True) (dir_edge_reconnect cb st')" for st'
    using wp_reconnect [OF cb, of "\<lambda>_. True" Some st'] by (simp add: succeeds_def)
  ultimately show ?thesis unfolding tcp_short_def using False len
    by (auto intro!: wp_rx_wait [OF live] wp_Some)
qed (simp add: tcp_short_def succeeds_def)

lemma find_next_ends:
  assumes "tcp_live st"
  shows "succeeds (\<lambda>_. True) (find_next_message st)"
proof -
  obtain k r where k: "recv_peek 51 (tl_k st) = (k, r)" by force
  have "sk_live k" using recv_peek_live(1) [OF _ _ k] assms by (simp add: tcp_live_def)
  then have "\<exists>kr. recv_wait (Suc n) k = Some kr" for n using recv_wait_live [of k "Suc n"] by blast
  then show ?thesis using k by (cases r) (auto simp: find_next_message_def succeeds_def split: bind_splits)
qed

lemma step_ends:
  assumes cb: "cb_sound cb" and live: "tcp_live st" and part: "tl_part_rx st < 10" "0 < tl_part_rx st \<Longrightarrow> tl_buf st ! 0 \<noteq> 43"
  shows "succeeds (tcp_post st) (tcp_step cb st)"
proof -
  obtain k r where k: "recv_peek (10 - tl_part_rx st) (tl_k st) = (k, r)" by force
  note p = recv_peek_live [OF _ _ k]
  have kl: "sk_live k" "sk_bytes k = sk_bytes (tl_k st)" using p(1,2) live part(1) by (simp_all add: tcp_live_def)
  show ?thesis
  proof (cases r)
    case Zero
    then show ?thesis using k by (auto simp: tcp_step_def rx_peek_def rx_done_def tcp_post_def intro!: wp_reconnect [OF cb] wp_Some)
  next
    case (Fail e)
    then show ?thesis using k by (simp add: tcp_step_def rx_peek_def rx_done_def tcp_post_def succeeds_def)
  next
    case (Got bs)
    let ?p = "tl_part_rx st" and ?buf = "take (tl_part_rx st) (tl_buf st) @ bs @ drop (tl_part_rx st + length bs) (tl_buf st)"
    let ?st = "st\<lparr>tl_k := k, tl_buf := ?buf\<rparr>"
    have bs: "bs \<noteq> []" "length bs \<le> 10 - ?p" "43 \<notin> set bs" using p(3) [OF _ _ Got] live part(1) by (simp_all add: tcp_live_def)
    have pk: "rx_peek ?p (10 - ?p) st = Some (?st, int (length bs))"
      using k Got bs live part(1) by (simp add: rx_peek_def rx_done_def buf_write_def tcp_live_def)
    have l: "tcp_live ?st" "tcp_left ?st = tcp_left st" using kl live bs part(1) by (simp_all add: tcp_live_def)
    have "?buf ! 0 \<noteq> 43"
    proof (cases "?p = 0")
      case True
      then show ?thesis using bs by (cases bs) auto
    qed (use part live in \<open>simp add: nth_append tcp_live_def\<close>)
    moreover have "succeeds (tcp_post st) (tcp_sequenced cb ?st)"
      using sequenced_ends [OF cb l(1)] part(1) l(2) by (simp add: tcp_post_def)
    moreover have "succeeds (tcp_post st) (find_next_message ?st \<bind> (\<lambda>st. Some (st, False)))"
      using find_next_ends [OF l(1)] by (auto simp: succeeds_def tcp_post_def)
    moreover have len10: "length bs \<le> 10" using bs(2) by simp
    moreover have "succeeds (tcp_post st) (tcp_short cb (length bs) ?st \<bind> (\<lambda>st. Some (st, False)))"
      using short_ends [OF cb l(1) len10] by (auto simp: succeeds_def tcp_post_def)
    ultimately show ?thesis using pk bs(1) by (simp add: tcp_step_def)
  qed
qed

lemma loop_ends:
  assumes "cb_sound cb" and "tcp_live st" and "tl_part_rx st < 10" and "0 < tl_part_rx st \<Longrightarrow> tl_buf st ! 0 \<noteq> 43"
  shows "\<exists>st'. tcp_loop cb st = Some st'"
  using assms(2-)
proof (induction "tcp_left st" arbitrary: st rule: less_induct)
  case less
  obtain st1 go where s: "tcp_step cb st = Some (st1, go)" "tcp_post st (st1, go)"
    using step_ends [OF assms(1) less.prems] by (auto simp: succeeds_def)
  show ?case
  proof (cases go)
    case True
    then have "\<exists>st'. tcp_loop cb st1 = Some st'" using less.hyps [of st1] s(2) by (simp add: tcp_post_def)
    then show ?thesis using s(1) True by (subst tcp_loop.simps) simp
  qed (use s(1) in \<open>subst tcp_loop.simps, simp\<close>)
qed



end
