(* ===== verification/Hist.thy ===== *)
theory Hist
  imports Machine
begin

section \<open>Histograms (\<^verbatim>\<open>common/fh_hist.c\<close>)\<close>

text \<open>
  Histograms of latencies: bins of equal size and one for outliers, the number of samples, their sum, the smallest and the
  largest.  The bins and the total are unsigned and wrap; \<^verbatim>\<open>int\<close> and \<^verbatim>\<open>int64_t\<close> values are integers, with the
  wrap-around of products and sums written out.  A division by zero and an index outside the bins are faults, and so is
  a failed assertion.  The average, which is only set for printing, is left out.
\<close>

record fh_hist =
  hg_key :: string
  hg_start :: u64
  hg_stop :: u64
  hg_bincnt :: int
  hg_binsize :: int
  hg_bins :: "u64 list"
  hg_total :: u64
  hg_min :: int
  hg_max :: int
  hg_sum :: int

definition wrap :: "nat \<Rightarrow> int \<Rightarrow> int" where
  "wrap w x = (x + 2 ^ (w - 1)) mod 2 ^ w - 2 ^ (w - 1)"

text \<open>
  The parameters say whether the allocations succeed; a failing \<^verbatim>\<open>strdup\<close> is a failed assertion.  The number of
  bins is converted to \<^verbatim>\<open>size_t\<close>, so a negative one makes the allocation fail.
\<close>

definition fh_hist_new :: "bool \<Rightarrow> bool \<Rightarrow> bool \<Rightarrow> string \<Rightarrow> int \<Rightarrow> int \<Rightarrow> fh_hist option option" where
  "fh_hist_new hist_ok key_ok bins_ok key bincnt binsize =
    (if \<not> hist_ok then Some None
     else if \<not> key_ok then None
     else if \<not> bins_ok \<or> wrap 32 (bincnt + 1) < 0 then Some None
     else Some (Some \<lparr>hg_key = key, hg_start = 0, hg_stop = 0, hg_bincnt = bincnt, hg_binsize = binsize,
            hg_bins = replicate (nat (wrap 32 (bincnt + 1))) 0, hg_total = 0, hg_min = wrap 32 (binsize * bincnt), hg_max = 0, hg_sum = 0\<rparr>))"

definition c_div :: "int \<Rightarrow> int \<Rightarrow> int" where
  "c_div a b = sgn a * sgn b * (\<bar>a\<bar> div \<bar>b\<bar>)"

definition fh_hist_add :: "int \<Rightarrow> fh_hist \<Rightarrow> fh_hist option" where
  "fh_hist_add val hg =
    (if val \<ge> 0 then do {
       let hg = (if val < hg_min hg then hg\<lparr>hg_min := val\<rparr> else hg);
       let hg = (if val > hg_max hg then hg\<lparr>hg_max := val\<rparr> else hg);
       bin \<leftarrow> (if hg_binsize hg = 0 then None else Some (c_div val (hg_binsize hg)));
       let bin = (if bin > hg_bincnt hg then hg_bincnt hg else bin);
       if bin < 0 \<or> bin \<ge> int (length (hg_bins hg)) then None
       else Some (hg\<lparr>hg_bins := (hg_bins hg)[nat bin := hg_bins hg ! nat bin + 1],
                     hg_sum := wrap 64 (hg_sum hg + val), hg_total := hg_total hg + 1\<rparr>)
     }
     else Some hg)"

text \<open>Clearing and copying touch \<^verbatim>\<open>hg_bincnt + 1\<close> bins, and fault when the arrays are shorter.\<close>

definition bins_len :: "fh_hist \<Rightarrow> nat option" where
  "bins_len hg = (let n = wrap 32 (hg_bincnt hg + 1) in if n < 0 \<or> int (length (hg_bins hg)) < n then None else Some (nat n))"

definition fh_hist_reset :: "fh_hist \<Rightarrow> fh_hist option" where
  "fh_hist_reset hg = do {
     n \<leftarrow> bins_len hg;
     Some (hg\<lparr>hg_total := 0, hg_sum := 0, hg_min := wrap 32 (hg_binsize hg * hg_bincnt hg), hg_max := 0,
       hg_bins := replicate n 0 @ drop n (hg_bins hg)\<rparr>)
   }"

definition fh_hist_start :: "u64 \<Rightarrow> fh_hist \<Rightarrow> fh_hist" where
  "fh_hist_start now hg = hg\<lparr>hg_start := now\<rparr>"

definition fh_hist_stop :: "u64 \<Rightarrow> fh_hist \<Rightarrow> fh_hist" where
  "fh_hist_stop now hg = hg\<lparr>hg_stop := now\<rparr>"

definition fh_hist_copy :: "fh_hist \<Rightarrow> fh_hist \<Rightarrow> fh_hist option" where
  "fh_hist_copy hg_from hg_to =
    (if hg_bincnt hg_from \<noteq> hg_bincnt hg_to then None
     else do {
       n \<leftarrow> bins_len hg_from;
       bins_len hg_to;
       Some (hg_to\<lparr>hg_total := hg_total hg_from, hg_sum := hg_sum hg_from, hg_min := hg_min hg_from, hg_max := hg_max hg_from,
         hg_start := hg_start hg_from, hg_stop := hg_stop hg_from, hg_bins := take n (hg_bins hg_from) @ drop n (hg_bins hg_to)\<rparr>)
     })"

subsection \<open>What a histogram stands for\<close>

text \<open>The samples of a bin; the last bin holds all from its lower end on.\<close>

definition in_bin :: "int \<Rightarrow> int \<Rightarrow> nat \<Rightarrow> int \<Rightarrow> bool" where
  "in_bin bincnt binsize i val \<longleftrightarrow> 0 \<le> val \<and> (if int i < bincnt then val div binsize = int i else bincnt \<le> val div binsize)"

definition hist_rep :: "int list \<Rightarrow> fh_hist \<Rightarrow> bool" where
  "hist_rep vals hg \<longleftrightarrow> 0 < hg_binsize hg \<and> 0 \<le> hg_bincnt hg \<and> length (hg_bins hg) = nat (hg_bincnt hg + 1) \<and>
     (\<forall>i < length (hg_bins hg). hg_bins hg ! i = of_nat (length (filter (in_bin (hg_bincnt hg) (hg_binsize hg) i) vals))) \<and>
     hg_total hg = of_nat (length (filter (\<lambda>v. 0 \<le> v) vals)) \<and>
     hg_sum hg = wrap 64 (sum_list (filter (\<lambda>v. 0 \<le> v) vals)) \<and>
     hg_max hg = Max (insert 0 (set vals)) \<and>
     hg_min hg = Min (insert (wrap 32 (hg_binsize hg * hg_bincnt hg)) {v \<in> set vals. 0 \<le> v})"

lemma wrap_0 [simp]: "wrap w 0 = 0" if "0 < w"
proof -
  have "(2::int) ^ (w - 1) mod 2 ^ w = 2 ^ (w - 1)" using that by (intro mod_pos_pos_trivial) auto
  then show ?thesis by (simp add: wrap_def)
qed

lemma wrap_add: "wrap w (wrap w x + y) = wrap w (x + y)"
proof -
  have "(wrap w x + y + 2 ^ (w - 1)) mod 2 ^ w = ((x + 2 ^ (w - 1)) mod 2 ^ w + y) mod 2 ^ w" by (simp add: wrap_def)
  also have "\<dots> = (x + 2 ^ (w - 1) + y) mod 2 ^ w" by (rule mod_add_left_eq)
  also have "x + 2 ^ (w - 1) + y = x + y + 2 ^ (w - 1)" by simp
  finally show ?thesis by (simp add: wrap_def)
qed

lemma c_div_pos: "0 \<le> a \<Longrightarrow> 0 < b \<Longrightarrow> c_div a b = a div b"
  by (cases "a = 0") (simp_all add: c_div_def)

lemma bin_of:
  assumes "0 \<le> val" and "0 < binsize" and "0 \<le> bincnt" and "int i \<le> bincnt"
  shows "in_bin bincnt binsize i val \<longleftrightarrow> i = nat (if val div binsize > bincnt then bincnt else val div binsize)"
proof -
  have "0 \<le> val div binsize" using assms by (simp add: pos_imp_zdiv_nonneg_iff)
  then show ?thesis using assms by (auto simp: in_bin_def)
qed

lemma hist_add_fields:
  assumes "0 \<le> val" and "0 < hg_binsize hg" and "0 \<le> b" and "b < int (length (hg_bins hg))"
    and "b = (if val div hg_binsize hg > hg_bincnt hg then hg_bincnt hg else val div hg_binsize hg)"
  shows "\<exists>hg'. fh_hist_add val hg = Some hg' \<and> hg_bincnt hg' = hg_bincnt hg \<and> hg_binsize hg' = hg_binsize hg \<and>
    hg_bins hg' = (hg_bins hg)[nat b := hg_bins hg ! nat b + 1] \<and> hg_total hg' = hg_total hg + 1 \<and>
    hg_sum hg' = wrap 64 (hg_sum hg + val) \<and> hg_max hg' = max (hg_max hg) val \<and> hg_min hg' = min (hg_min hg) val"
proof -
  have bin: "c_div val (hg_binsize hg) > hg_bincnt hg \<Longrightarrow> b = hg_bincnt hg"
    "\<not> c_div val (hg_binsize hg) > hg_bincnt hg \<Longrightarrow> b = c_div val (hg_binsize hg)" using assms by (simp_all add: c_div_pos)
  show ?thesis
    using assms(1-4) bin unfolding fh_hist_add_def Let_def
    by (cases "val < hg_min hg"; cases "val > hg_max hg"; cases "c_div val (hg_binsize hg) > hg_bincnt hg")
       (simp_all add: min_def max_def)
qed

lemma hist_add_rep:
  assumes "hist_rep vals hg"
  shows "\<exists>hg'. fh_hist_add val hg = Some hg' \<and> hist_rep (vals @ [val]) hg' \<and> hg_bincnt hg' = hg_bincnt hg \<and>
    hg_binsize hg' = hg_binsize hg"
proof (cases "0 \<le> val")
  case True
  let ?n = "hg_bincnt hg" and ?sz = "hg_binsize hg"
  have r: "0 < ?sz" "0 \<le> ?n" "length (hg_bins hg) = nat (?n + 1)"
    "\<And>i. i < nat (?n + 1) \<Longrightarrow> hg_bins hg ! i = of_nat (length (filter (in_bin ?n ?sz i) vals))"
    "hg_total hg = of_nat (length (filter (\<lambda>v. 0 \<le> v) vals))" "hg_sum hg = wrap 64 (sum_list (filter (\<lambda>v. 0 \<le> v) vals))"
    "hg_max hg = Max (insert 0 (set vals))" "hg_min hg = Min (insert (wrap 32 (?sz * ?n)) {v \<in> set vals. 0 \<le> v})"
    using assms by (simp_all add: hist_rep_def)
  define b where "b = (if val div ?sz > ?n then ?n else val div ?sz)"
  have "0 \<le> b" "b < int (length (hg_bins hg))" using r(1-3) True by (auto simp: b_def pos_imp_zdiv_nonneg_iff)
  then obtain hg' where h: "fh_hist_add val hg = Some hg'" "hg_bincnt hg' = ?n" "hg_binsize hg' = ?sz"
    "hg_bins hg' = (hg_bins hg)[nat b := hg_bins hg ! nat b + 1]" "hg_total hg' = hg_total hg + 1"
    "hg_sum hg' = wrap 64 (hg_sum hg + val)" "hg_max hg' = max (hg_max hg) val" "hg_min hg' = min (hg_min hg) val"
    using hist_add_fields [OF True r(1) _ _ b_def] by blast
  have "hg_bins hg' ! i = of_nat (length (filter (in_bin ?n ?sz i) (vals @ [val])))" if "i < nat (?n + 1)" for i
  proof -
    have "in_bin ?n ?sz i val \<longleftrightarrow> i = nat b" unfolding b_def by (rule bin_of) (use True r(1,2) that in simp_all)
    moreover have "nat b < length (hg_bins hg)" using \<open>b < int (length (hg_bins hg))\<close> \<open>0 \<le> b\<close> by linarith
    ultimately show ?thesis using r(3) r(4) [OF that] that h(4) by (cases "i = nat b") simp_all
  qed
  moreover have "hg_max hg' = Max (insert 0 (set (vals @ [val])))"
    using h(7) r(7) Max_insert [of "insert 0 (set vals)" val] by (simp add: insert_commute max.commute del: Max_insert)
  moreover have "insert (wrap 32 (?sz * ?n)) {v \<in> set (vals @ [val]). 0 \<le> v} = insert val (insert (wrap 32 (?sz * ?n)) {v \<in> set vals. 0 \<le> v})"
    using True by auto
  then have "hg_min hg' = Min (insert (wrap 32 (?sz * ?n)) {v \<in> set (vals @ [val]). 0 \<le> v})"
    using h(8) r(8) Min_insert [of "insert (wrap 32 (?sz * ?n)) {v \<in> set vals. 0 \<le> v}" val] by (simp add: min.commute del: Min_insert)
  ultimately have "hist_rep (vals @ [val]) hg'"
    unfolding hist_rep_def using r(1,2,3,5,6) h(2-6) True by (simp add: wrap_add)
  then show ?thesis using h(1-3) by blast
next
  case False
  then have "{v \<in> set (vals @ [val]). 0 \<le> v} = {v \<in> set vals. 0 \<le> v}" by auto
  moreover have "val \<le> Max (insert 0 (set vals))" using False by (intro order.trans [OF _ Max_ge [of _ 0]]) simp_all
  from max_absorb2 [OF this] have "Max (insert 0 (set (vals @ [val]))) = Max (insert 0 (set vals))"
    using Max_insert [of "insert 0 (set vals)" val] by (simp add: insert_commute del: Max_insert)
  ultimately show ?thesis using assms False by (simp add: fh_hist_add_def hist_rep_def in_bin_def)
qed

text \<open>The samples of a sampling period, in their order.\<close>

primrec hist_add_all :: "int list \<Rightarrow> fh_hist \<Rightarrow> fh_hist option" where
  "hist_add_all [] hg = Some hg"
| "hist_add_all (v # vs) hg = do { hg \<leftarrow> fh_hist_add v hg; hist_add_all vs hg }"

lemma hist_add_all_rep:
  "hist_rep vals hg \<Longrightarrow> \<exists>hg'. hist_add_all vs hg = Some hg' \<and> hist_rep (vals @ vs) hg' \<and> hg_bincnt hg' = hg_bincnt hg \<and>
    hg_binsize hg' = hg_binsize hg"
proof (induction vs arbitrary: vals hg)
  case (Cons v vs)
  then obtain hg' where "fh_hist_add v hg = Some hg'" "hist_rep (vals @ [v]) hg'" "hg_bincnt hg' = hg_bincnt hg"
    "hg_binsize hg' = hg_binsize hg" using hist_add_rep by blast
  then show ?case using Cons.IH [of "vals @ [v]" hg'] by simp
qed simp

lemma wrap_id: "0 < w \<Longrightarrow> - (2 ^ (w - 1)) \<le> x \<Longrightarrow> x < 2 ^ (w - 1) \<Longrightarrow> wrap w x = x"
  unfolding wrap_def by (subst mod_pos_pos_trivial) (auto simp: power_eq_if)

lemma hist_clear_rep:
  assumes "0 < hg_binsize hg" and "0 \<le> hg_bincnt hg" and "hg_bins hg = replicate (nat (hg_bincnt hg + 1)) 0" and "hg_total hg = 0"
    and "hg_sum hg = 0" and "hg_max hg = 0" and "hg_min hg = wrap 32 (hg_binsize hg * hg_bincnt hg)"
  shows "hist_rep [] hg"
  using assms by (simp add: hist_rep_def)

lemma hist_new_rep:
  assumes "0 < binsize" and "0 \<le> bincnt" and "bincnt < 2 ^ 31 - 1"
  shows "\<exists>hg. fh_hist_new True True True key bincnt binsize = Some (Some hg) \<and> hist_rep [] hg \<and>
    hg_bincnt hg = bincnt \<and> hg_binsize hg = binsize"
proof -
  have "wrap 32 (bincnt + 1) = bincnt + 1" using assms by (intro wrap_id) simp_all
  then show ?thesis using assms by (simp add: fh_hist_new_def hist_clear_rep)
qed

lemma hist_reset_rep:
  assumes "hist_rep vals hg" and "hg_bincnt hg < 2 ^ 31 - 1"
  shows "\<exists>hg'. fh_hist_reset hg = Some hg' \<and> hist_rep [] hg' \<and> hg_bincnt hg' = hg_bincnt hg \<and> hg_binsize hg' = hg_binsize hg"
proof -
  have "wrap 32 (hg_bincnt hg + 1) = hg_bincnt hg + 1" using assms by (intro wrap_id) (simp_all add: hist_rep_def)
  then show ?thesis using assms(1) by (simp add: fh_hist_reset_def bins_len_def hist_rep_def)
qed

lemma hist_copy_rep:
  assumes "hist_rep vals hg" and "hg_bincnt hg < 2 ^ 31 - 1" and "hist_rep vals' hg'" and "hg_bincnt hg' = hg_bincnt hg"
    and "hg_binsize hg' = hg_binsize hg"
  shows "\<exists>hg''. fh_hist_copy hg hg' = Some hg'' \<and> hist_rep vals hg''"
proof -
  have "wrap 32 (hg_bincnt hg + 1) = hg_bincnt hg + 1" using assms(1,2) by (intro wrap_id) (simp_all add: hist_rep_def)
  then show ?thesis using assms(1,3-) by (simp add: fh_hist_copy_def bins_len_def hist_rep_def)
qed

text \<open>C36. A histogram with at least one value per bin counts its samples: after any sequence of samples, negative ones included,
  no operation has faulted and every bin holds, modulo $2^{64}$, how many non-negative samples fall into it, the last one all
  samples from its lower end on; the total, the sum and the largest sample are those of the non-negative samples, and the
  smallest is the least of them and of the initial bound \<^verbatim>\<open>binsize * bincnt\<close>.\<close>

theorem hist_refines_samples:
  assumes "0 < binsize" and "0 \<le> bincnt" and "bincnt < 2 ^ 31 - 1" and "binsize * bincnt < 2 ^ 31"
  shows "\<exists>hg hg'. fh_hist_new True True True key bincnt binsize = Some (Some hg) \<and> hist_add_all vals hg = Some hg' \<and>
    hg_bins hg' = map (\<lambda>i. of_nat (length (filter (in_bin bincnt binsize i) vals))) [0 ..< nat (bincnt + 1)] \<and>
    hg_total hg' = of_nat (length (filter (\<lambda>v. 0 \<le> v) vals)) \<and>
    hg_sum hg' = wrap 64 (sum_list (filter (\<lambda>v. 0 \<le> v) vals)) \<and>
    hg_max hg' = Max (insert 0 (set vals)) \<and>
    hg_min hg' = Min (insert (binsize * bincnt) {v \<in> set vals. 0 \<le> v})"
proof -
  obtain hg where hg: "fh_hist_new True True True key bincnt binsize = Some (Some hg)" "hist_rep [] hg"
    "hg_bincnt hg = bincnt" "hg_binsize hg = binsize" using hist_new_rep [OF assms(1-3)] by blast
  obtain hg' where hg': "hist_add_all vals hg = Some hg'" "hist_rep vals hg'" "hg_bincnt hg' = bincnt" "hg_binsize hg' = binsize"
    using hist_add_all_rep [OF hg(2), of vals] hg(3,4) by auto
  have "wrap 32 (binsize * bincnt) = binsize * bincnt" using assms by (intro wrap_id) (simp_all add: order.trans [OF _ mult_nonneg_nonneg])
  moreover have "hg_bins hg' = map (\<lambda>i. of_nat (length (filter (in_bin bincnt binsize i) vals))) [0 ..< nat (bincnt + 1)]"
    using hg'(2-) by (intro nth_equalityI) (simp_all add: hist_rep_def)
  ultimately show ?thesis using hg(1) hg' by (auto simp: hist_rep_def)
qed

theorem hist_refines_samples_witness:
  "\<exists>hg hg'. fh_hist_new True True True ''lat'' 2 10 = Some (Some hg) \<and> hist_add_all [3, 25, -4, 12, 40] hg = Some hg' \<and>
    hg_bins hg' = [1, 1, 2] \<and> hg_total hg' = 4 \<and> hg_sum hg' = 80 \<and> hg_max hg' = 40 \<and> hg_min hg' = 3"
proof -
  have "{v \<in> set [3, 25, -4, 12, 40]. 0 \<le> v} = {3, 25, 12, 40 :: int}" by auto
  then show ?thesis
    using hist_refines_samples [of 10 2 "''lat''" "[3, 25, -4, 12, 40]"] by (simp add: in_bin_def wrap_def eval_nat_numeral)
qed

text \<open>The smallest value is right only if some sample lies below the initial bound.\<close>

lemma hist_min_exact:
  assumes "hist_rep vals hg" and "v \<in> set vals" and "0 \<le> v" and "v \<le> hg_binsize hg * hg_bincnt hg" and "hg_binsize hg * hg_bincnt hg < 2 ^ 31"
  shows "hg_min hg = Min {v \<in> set vals. 0 \<le> v}"
proof -
  have "wrap 32 (hg_binsize hg * hg_bincnt hg) = hg_binsize hg * hg_bincnt hg"
    using assms by (intro wrap_id) (auto intro: order.trans [of _ 0])
  moreover have "Min {v \<in> set vals. 0 \<le> v} \<le> v" using assms(2,3) by (intro Min_le) simp_all
  moreover have "{v \<in> set vals. 0 \<le> v} \<noteq> {}" using assms(2,3) by auto
  ultimately show ?thesis using assms(1,4) Min_insert [of "{v \<in> set vals. 0 \<le> v}" "hg_binsize hg * hg_bincnt hg"]
    by (simp add: hist_rep_def min_absorb2)
qed

lemma hist_min_bound: "hist_rep [12] hg \<Longrightarrow> hg_binsize hg = 5 \<Longrightarrow> hg_bincnt hg = 2 \<Longrightarrow> hg_min hg = 10"
  by (auto simp: hist_rep_def wrap_def Collect_conv_if)

end
