(* ===== verification/OpraMsg.thy ===== *)
theory OpraMsg
  imports FastMsg
begin

section \<open>OPRA messages (\<^verbatim>\<open>feeds/opra/fast/codec/fast_decode.c\<close>)\<close>

text \<open>
  The decoders of the OPRA message categories over the FAST codec, and the wrapper of the codec they go
  through.  A decoder fills the message structure and passes most messages on to a processing function; the
  model returns the codec, the length, the message and whether it was passed on.

  The OPRA feed is built with the optimised codec.  All messages of a packet share the storage of one union of 464
  bytes; a decoder clears its own structure in it (only the header, for texts), and strings may be read up to the end of the
  union.  What earlier messages left in the storage is the parameter \<open>stale\<close>, and \<open>indet\<close> is the content of an
  uninitialised variable: \<^verbatim>\<open>decode_u32\<close> ignores that a field could not be decoded and returns it.  Sizes are
  those of the usual 4-byte alignment, without \<^verbatim>\<open>PH2\<close>; logging, throttled by a counter, is left out.
\<close>

subsection \<open>Field tags\<close>

definition OPRA_BASE_TID :: u32 where "OPRA_BASE_TID = 0"

definition MESSAGE_CATEGORY_V2 :: u32 where "MESSAGE_CATEGORY_V2 = MAKE_TAG FAST_TYPE_U32 FAST_OP_COPY OPRA_BASE_TID 0"
definition MESSAGE_TYPE_V2 :: u32 where "MESSAGE_TYPE_V2 = MAKE_TAG FAST_TYPE_U32 FAST_OP_COPY OPRA_BASE_TID 1"
definition PARTICIPANT_ID_V2 :: u32 where "PARTICIPANT_ID_V2 = MAKE_TAG FAST_TYPE_U32 FAST_OP_COPY OPRA_BASE_TID 2"
definition RETRANSMISSION_REQUESTER_V2 :: u32 where "RETRANSMISSION_REQUESTER_V2 = MAKE_TAG FAST_TYPE_U32 FAST_OP_COPY OPRA_BASE_TID 3"
definition MESSAGE_SEQUENCE_NUMBER_V2 :: u32 where "MESSAGE_SEQUENCE_NUMBER_V2 = MAKE_TAG FAST_TYPE_U32 FAST_OP_INCR OPRA_BASE_TID 4"
definition TIME_V2 :: u32 where "TIME_V2 = MAKE_TAG FAST_TYPE_U32 FAST_OP_COPY OPRA_BASE_TID 5"
definition SECURITY_SYMBOL_V2 :: u32 where "SECURITY_SYMBOL_V2 = MAKE_TAG FAST_TYPE_STR FAST_OP_COPY OPRA_BASE_TID 6"
definition EXPIRATION_MONTH_V2 :: u32 where "EXPIRATION_MONTH_V2 = MAKE_TAG FAST_TYPE_U32 FAST_OP_COPY OPRA_BASE_TID 7"
definition EXPIRATION_DATE_V2 :: u32 where "EXPIRATION_DATE_V2 = MAKE_TAG FAST_TYPE_U32 FAST_OP_COPY OPRA_BASE_TID 8"
definition YEAR_V2 :: u32 where "YEAR_V2 = MAKE_TAG FAST_TYPE_U32 FAST_OP_COPY OPRA_BASE_TID 9"
definition STRIKE_PRICE_DENOMINATOR_CODE_V2 :: u32 where "STRIKE_PRICE_DENOMINATOR_CODE_V2 = MAKE_TAG FAST_TYPE_U32 FAST_OP_COPY OPRA_BASE_TID 10"
definition EXPLICIT_STRIKE_PRICE_V2 :: u32 where "EXPLICIT_STRIKE_PRICE_V2 = MAKE_TAG FAST_TYPE_U32 FAST_OP_COPY OPRA_BASE_TID 11"
definition STRIKE_PRICE_CODE_V2 :: u32 where "STRIKE_PRICE_CODE_V2 = MAKE_TAG FAST_TYPE_U32 FAST_OP_COPY OPRA_BASE_TID 12"
definition VOLUME_V2 :: u32 where "VOLUME_V2 = MAKE_TAG FAST_TYPE_U32 FAST_OP_COPY OPRA_BASE_TID 13"
definition OPEN_INT_VOLUME_V2 :: u32 where "OPEN_INT_VOLUME_V2 = MAKE_TAG FAST_TYPE_U32 FAST_OP_COPY OPRA_BASE_TID 14"
definition PREMIUM_PRICE_DENOMINATOR_CODE_V2 :: u32 where "PREMIUM_PRICE_DENOMINATOR_CODE_V2 = MAKE_TAG FAST_TYPE_U32 FAST_OP_COPY OPRA_BASE_TID 15"
definition PREMIUM_PRICE_V2 :: u32 where "PREMIUM_PRICE_V2 = MAKE_TAG FAST_TYPE_U32 FAST_OP_COPY OPRA_BASE_TID 16"
definition OPEN_PRICE_V2 :: u32 where "OPEN_PRICE_V2 = MAKE_TAG FAST_TYPE_U32 FAST_OP_COPY OPRA_BASE_TID 17"
definition HIGH_PRICE_V2 :: u32 where "HIGH_PRICE_V2 = MAKE_TAG FAST_TYPE_U32 FAST_OP_COPY OPRA_BASE_TID 18"
definition LOW_PRICE_V2 :: u32 where "LOW_PRICE_V2 = MAKE_TAG FAST_TYPE_U32 FAST_OP_COPY OPRA_BASE_TID 19"
definition LAST_PRICE_V2 :: u32 where "LAST_PRICE_V2 = MAKE_TAG FAST_TYPE_U32 FAST_OP_COPY OPRA_BASE_TID 20"
definition NET_CHANGE_INDICATOR_V2 :: u32 where "NET_CHANGE_INDICATOR_V2 = MAKE_TAG FAST_TYPE_U32 FAST_OP_COPY OPRA_BASE_TID 21"
definition NET_CHANGE_V2 :: u32 where "NET_CHANGE_V2 = MAKE_TAG FAST_TYPE_U32 FAST_OP_COPY OPRA_BASE_TID 22"
definition UNDERLYING_PRICE_DENOM_V2 :: u32 where "UNDERLYING_PRICE_DENOM_V2 = MAKE_TAG FAST_TYPE_U32 FAST_OP_COPY OPRA_BASE_TID 23"
definition UNDERLYING_STOCK_PRICE_V2 :: u32 where "UNDERLYING_STOCK_PRICE_V2 = MAKE_TAG FAST_TYPE_U32 FAST_OP_COPY OPRA_BASE_TID 24"
definition BID_PRICE_V2 :: u32 where "BID_PRICE_V2 = MAKE_TAG FAST_TYPE_U32 FAST_OP_COPY OPRA_BASE_TID 25"
definition BID_SIZE_V2 :: u32 where "BID_SIZE_V2 = MAKE_TAG FAST_TYPE_U32 FAST_OP_COPY OPRA_BASE_TID 26"
definition OFFER_PRICE_V2 :: u32 where "OFFER_PRICE_V2 = MAKE_TAG FAST_TYPE_U32 FAST_OP_COPY OPRA_BASE_TID 27"
definition OFFER_SIZE_V2 :: u32 where "OFFER_SIZE_V2 = MAKE_TAG FAST_TYPE_U32 FAST_OP_COPY OPRA_BASE_TID 28"
definition SESSION_INDICATOR_V2 :: u32 where "SESSION_INDICATOR_V2 = MAKE_TAG FAST_TYPE_U32 FAST_OP_COPY OPRA_BASE_TID 29"
definition BBO_INDICATOR_V2 :: u32 where "BBO_INDICATOR_V2 = MAKE_TAG FAST_TYPE_U32 FAST_OP_COPY OPRA_BASE_TID 30"
definition BEST_BID_PARTICIPANT_ID_V2 :: u32 where "BEST_BID_PARTICIPANT_ID_V2 = MAKE_TAG FAST_TYPE_U32 FAST_OP_COPY OPRA_BASE_TID 31"
definition BEST_BID_PRICE_DENOMINATOR_CODE_V2 :: u32 where "BEST_BID_PRICE_DENOMINATOR_CODE_V2 = MAKE_TAG FAST_TYPE_U32 FAST_OP_COPY OPRA_BASE_TID 32"
definition BEST_BID_PRICE_V2 :: u32 where "BEST_BID_PRICE_V2 = MAKE_TAG FAST_TYPE_U32 FAST_OP_COPY OPRA_BASE_TID 33"
definition BEST_BID_SIZE_V2 :: u32 where "BEST_BID_SIZE_V2 = MAKE_TAG FAST_TYPE_U32 FAST_OP_COPY OPRA_BASE_TID 34"
definition BEST_OFFER_PARTICIPANT_ID_V2 :: u32 where "BEST_OFFER_PARTICIPANT_ID_V2 = MAKE_TAG FAST_TYPE_U32 FAST_OP_COPY OPRA_BASE_TID 35"
definition BEST_OFFER_PRICE_DENOMINATOR_CODE_V2 :: u32 where "BEST_OFFER_PRICE_DENOMINATOR_CODE_V2 = MAKE_TAG FAST_TYPE_U32 FAST_OP_COPY OPRA_BASE_TID 36"
definition BEST_OFFER_PRICE_V2 :: u32 where "BEST_OFFER_PRICE_V2 = MAKE_TAG FAST_TYPE_U32 FAST_OP_COPY OPRA_BASE_TID 37"
definition BEST_OFFER_SIZE_V2 :: u32 where "BEST_OFFER_SIZE_V2 = MAKE_TAG FAST_TYPE_U32 FAST_OP_COPY OPRA_BASE_TID 38"
definition NUMBER_OF_INDICES_IN_GROUP_V2 :: u32 where "NUMBER_OF_INDICES_IN_GROUP_V2 = MAKE_TAG FAST_TYPE_U32 FAST_OP_COPY OPRA_BASE_TID 39"
definition NUMBER_OF_FOREIGN_CURRENCY_SPOT_VALUES_IN_GROUP_V2 :: u32 where "NUMBER_OF_FOREIGN_CURRENCY_SPOT_VALUES_IN_GROUP_V2 = MAKE_TAG FAST_TYPE_U32 FAST_OP_COPY OPRA_BASE_TID 40"
definition INDEX_SYMBOL_V2 :: u32 where "INDEX_SYMBOL_V2 = MAKE_TAG FAST_TYPE_STR FAST_OP_COPY OPRA_BASE_TID 41"
definition INDEX_VALUE_V2 :: u32 where "INDEX_VALUE_V2 = MAKE_TAG FAST_TYPE_STR FAST_OP_COPY OPRA_BASE_TID 42"
definition BID_INDEX_VALUE_V2 :: u32 where "BID_INDEX_VALUE_V2 = MAKE_TAG FAST_TYPE_STR FAST_OP_COPY OPRA_BASE_TID 43"
definition OFFER_INDEX_VALUE_V2 :: u32 where "OFFER_INDEX_VALUE_V2 = MAKE_TAG FAST_TYPE_STR FAST_OP_COPY OPRA_BASE_TID 44"
definition FCO_SYMBOL_V2 :: u32 where "FCO_SYMBOL_V2 = MAKE_TAG FAST_TYPE_STR FAST_OP_COPY OPRA_BASE_TID 45"
definition DECIMAL_PLACEMENT_INDICATOR_V2 :: u32 where "DECIMAL_PLACEMENT_INDICATOR_V2 = MAKE_TAG FAST_TYPE_U32 FAST_OP_COPY OPRA_BASE_TID 46"
definition FOREIGN_CURRENCY_SPOT_VALUE_V2 :: u32 where "FOREIGN_CURRENCY_SPOT_VALUE_V2 = MAKE_TAG FAST_TYPE_U32 FAST_OP_COPY OPRA_BASE_TID 47"
definition TEXT_V2 :: u32 where "TEXT_V2 = MAKE_TAG FAST_TYPE_STR FAST_OP_COPY OPRA_BASE_TID 48"
definition DEF_MSG_V2 :: u32 where "DEF_MSG_V2 = MAKE_TAG FAST_TYPE_STR FAST_OP_COPY OPRA_BASE_TID 49"

subsection \<open>Messages\<close>

record OpraMsgHdr_v2 =
  participantId :: u8
  retran :: u8
  category :: u8
  msg_type :: u8
  seqNumber :: u32
  msg_time :: u32

record Appendage_v2 =
  partId :: u8
  denominator :: u8
  ap_price :: u32
  ap_size :: u32

text \<open>The union of appendages, by the member that was written.\<close>

datatype BBO_Appendage_v2 =
    NoAppendage | BestOffer Appendage_v2 | BestBid Appendage_v2 | BestBidOffer Appendage_v2 Appendage_v2

text \<open>The fields between header and body that the categories k, d, a and f share, then the bodies.\<close>

record opra_series =
  symbol :: "u8 list"
  expirationMonth :: u8
  expirationDate :: "u8 list"
  year :: "u8 list"
  strikePriceDenomCode :: u8
  explicitStrike :: u32
  strikePriceCode :: u8

record CatkMsg_v2 =
  k_hdr :: OpraMsgHdr_v2
  k_series :: opra_series
  k_premiumPriceDenomCode :: u8
  k_bidQuote :: u32
  k_bidSize :: u32
  k_askQuote :: u32
  k_askSize :: u32
  k_sessionIndicator :: u8
  k_bboIndicator :: u8
  k_bbo :: BBO_Appendage_v2

record CatdMsg_v2 =
  d_hdr :: OpraMsgHdr_v2
  d_series :: opra_series
  d_openIntVolume :: u32

record CataMsg_v2 =
  a_hdr :: OpraMsgHdr_v2
  a_series :: opra_series
  a_volume :: u32
  a_premiumPriceDenomCode :: u8
  a_premium :: u32
  a_sessionIndicator :: u8

record CatfMsg_v2 =
  f_hdr :: OpraMsgHdr_v2
  f_series :: opra_series
  f_volume :: u32
  f_openIntVolume :: u32
  f_premiumPriceDenomCode :: u8
  f_open :: u32
  f_high :: u32
  f_low :: u32
  f_last :: u32
  f_netChangeIndicator :: u8
  f_netChange :: u32
  f_underlyingPriceDenomCode :: u8
  f_underlyingStockPrice :: u32
  f_bidQuote :: u32
  f_askQuote :: u32

record CatOMsg_v2 =
  fo_hdr :: OpraMsgHdr_v2
  fo_symbol :: "u8 list"
  fo_expirationDate :: "u8 list"
  fo_strikePriceCode :: u8
  fo_volume :: u32
  fo_premiumPrice :: u32

record CatUMsg_v2 =
  fu_hdr :: OpraMsgHdr_v2
  fu_symbol :: "u8 list"
  fu_expirationDate :: "u8 list"
  fu_strikePriceCode :: u8
  fu_bidPrice :: u32
  fu_offerPrice :: u32

record CatFMsg_v2 =
  ff_hdr :: OpraMsgHdr_v2
  ff_symbol :: "u8 list"
  ff_expirationDate :: "u8 list"
  ff_strikePriceCode :: u8
  ff_volume :: u32
  ff_openIntVolume :: u32
  ff_open :: u32
  ff_high :: u32
  ff_low :: u32
  ff_last :: u32
  ff_netChangeIndicator :: u8
  ff_netChange :: u32
  ff_underlyingStockPrice :: u32

datatype index_group =
    IndexValue "u8 list"
  | BidOfferIndex "u8 list" "u8 list"
  | FcSpotVal "u8 list" u32

record CatYMsg_v2 =
  y_hdr :: OpraMsgHdr_v2
  y_numOfIndices :: u32
  y_indexGroup :: "(u8 list \<times> index_group) list"

text \<open>The text of an administrative or control message: the bytes from there to the end of the union.\<close>

record CatHMsg_v2 =
  h_hdr :: OpraMsgHdr_v2
  h_text :: "u8 list"

datatype OpraMsg_v2 =
    DefMsg "u8 list"
  | QuoteSizeBody CatkMsg_v2
  | OpenIntBody CatdMsg_v2
  | LastSaleBody CataMsg_v2
  | EodBody CatfMsg_v2
  | FcoLastSale CatOMsg_v2
  | FcoQuote CatUMsg_v2
  | FcoEod CatFMsg_v2
  | UlValueMsg CatYMsg_v2
  | AdminMsg CatHMsg_v2
  | CtrlMsg CatHMsg_v2

subsection \<open>The wrapper of the codec (\<^verbatim>\<open>fast_wrapper.c\<close>)\<close>

record opra_env =
  indet :: "fast_codec \<Rightarrow> u32 \<Rightarrow> u32"
  stale :: "fast_codec \<Rightarrow> u8 list"

definition setBuffer :: "fast_codec \<Rightarrow> u8 list \<Rightarrow> int \<Rightarrow> fast_codec" where
  "setBuffer codec buf n = fast_set_input_buffer codec buf n"

definition decode_new_msg :: "fast_codec \<Rightarrow> (fast_codec \<times> int) option" where
  "decode_new_msg codec = fast_decode_new_msg True codec"

definition decode_end_msg :: "fast_codec \<Rightarrow> fast_codec \<times> int" where
  "decode_end_msg codec = fast_decode_end_msg True codec"

definition decode_u32 :: "opra_env \<Rightarrow> fast_codec \<Rightarrow> u32 \<Rightarrow> (fast_codec \<times> u32) option" where
  "decode_u32 env codec tag =
    do { (codec', rc, temp) \<leftarrow> fast_decode_u32 True codec tag;
         Some (codec', case temp of None \<Rightarrow> indet env codec tag | Some x \<Rightarrow> x) }"

definition decode_str :: "fast_codec \<Rightarrow> u32 \<Rightarrow> u8 list \<Rightarrow> nat \<Rightarrow> (fast_codec \<times> int \<times> u8 list) option" where
  "decode_str codec tag data n = fast_decode_str True codec tag data n"

text \<open>The codec that \<^verbatim>\<open>init_fast\<close> creates, if there is memory for it; the string buffers are static, and so zero.\<close>

definition init_fast :: "bool \<Rightarrow> fast_codec option" where
  "init_fast ok = fast_create_codec ok (\<lambda>_. replicate 1024 0)"

subsection \<open>Shared parts of the decoders\<close>

definition msg_decode_hdr_v2 :: "opra_env \<Rightarrow> u8 \<Rightarrow> fast_codec \<Rightarrow> (fast_codec \<times> OpraMsgHdr_v2) option" where
  "msg_decode_hdr_v2 env cat codec = do {
     (codec, ty) \<leftarrow> decode_u32 env codec MESSAGE_TYPE_V2;
     (codec, part) \<leftarrow> decode_u32 env codec PARTICIPANT_ID_V2;
     (codec, ret) \<leftarrow> decode_u32 env codec RETRANSMISSION_REQUESTER_V2;
     (codec, sn) \<leftarrow> decode_u32 env codec MESSAGE_SEQUENCE_NUMBER_V2;
     (codec, tm) \<leftarrow> decode_u32 env codec TIME_V2;
     Some (codec, \<lparr>participantId = ucast part, retran = ucast ret, category = cat, msg_type = ucast ty, seqNumber = sn, msg_time = tm\<rparr>)
   }"

primrec u32_to_ascii :: "nat \<Rightarrow> u32 \<Rightarrow> u8 list" where
  "u32_to_ascii 0 value = []"
| "u32_to_ascii (Suc n) value =
    (let temp = value div 10 in u32_to_ascii n temp @ [ucast (0x30 + value - temp * 10)])"

text \<open>A symbol: the array is filled with spaces before; the byte behind it is zero, as the structure was cleared.\<close>

definition decode_symbol :: "fast_codec \<Rightarrow> u32 \<Rightarrow> nat \<Rightarrow> (fast_codec \<times> u8 list) option" where
  "decode_symbol codec tag n = do {
     (codec, rc, mem) \<leftarrow> decode_str codec tag (replicate n 0x20 @ [0]) n;
     Some (codec, take n mem)
   }"

definition decode_series :: "opra_env \<Rightarrow> fast_codec \<Rightarrow> (fast_codec \<times> opra_series) option" where
  "decode_series env codec = do {
     (codec, sym) \<leftarrow> decode_symbol codec SECURITY_SYMBOL_V2 5;
     (codec, month) \<leftarrow> decode_u32 env codec EXPIRATION_MONTH_V2;
     (codec, date) \<leftarrow> decode_u32 env codec EXPIRATION_DATE_V2;
     (codec, yr) \<leftarrow> decode_u32 env codec YEAR_V2;
     (codec, den) \<leftarrow> decode_u32 env codec STRIKE_PRICE_DENOMINATOR_CODE_V2;
     (codec, strike) \<leftarrow> decode_u32 env codec EXPLICIT_STRIKE_PRICE_V2;
     (codec, code) \<leftarrow> decode_u32 env codec STRIKE_PRICE_CODE_V2;
     Some (codec, \<lparr>symbol = sym, expirationMonth = ucast month, expirationDate = u32_to_ascii 2 date, year = u32_to_ascii 2 yr,
       strikePriceDenomCode = ucast den, explicitStrike = strike, strikePriceCode = ucast code\<rparr>)
   }"

subsection \<open>The decoders\<close>

type_synonym decoded_msg = "(fast_codec \<times> u32 \<times> OpraMsg_v2 \<times> bool) option"

definition decode_OpraFastDefMsg_v2 :: "opra_env \<Rightarrow> fast_codec \<Rightarrow> decoded_msg" where
  "decode_OpraFastDefMsg_v2 env codec = do {
     (codec', len, body) \<leftarrow> decode_str codec DEF_MSG_V2 (replicate 450 0 @ drop 451 (stale env codec)) 450;
     Some (codec', word_of_int len, DefMsg (take 450 body), False)
   }"

definition decode_appendage :: "opra_env \<Rightarrow> u32 \<Rightarrow> u32 \<Rightarrow> u32 \<Rightarrow> u32 \<Rightarrow> fast_codec \<Rightarrow> (fast_codec \<times> Appendage_v2) option" where
  "decode_appendage env part_tag den_tag price_tag size_tag codec = do {
     (codec, part) \<leftarrow> decode_u32 env codec part_tag;
     (codec, den) \<leftarrow> decode_u32 env codec den_tag;
     (codec, price) \<leftarrow> decode_u32 env codec price_tag;
     (codec, sz) \<leftarrow> decode_u32 env codec size_tag;
     Some (codec, \<lparr>partId = ucast part, denominator = ucast den, ap_price = price, ap_size = sz\<rparr>)
   }"

definition decode_best_offer :: "opra_env \<Rightarrow> fast_codec \<Rightarrow> (fast_codec \<times> Appendage_v2) option" where
  "decode_best_offer env = decode_appendage env BEST_OFFER_PARTICIPANT_ID_V2 BEST_OFFER_PRICE_DENOMINATOR_CODE_V2
     BEST_OFFER_PRICE_V2 BEST_OFFER_SIZE_V2"

definition decode_best_bid :: "opra_env \<Rightarrow> fast_codec \<Rightarrow> (fast_codec \<times> Appendage_v2) option" where
  "decode_best_bid env = decode_appendage env BEST_BID_PARTICIPANT_ID_V2 BEST_BID_PRICE_DENOMINATOR_CODE_V2
     BEST_BID_PRICE_V2 BEST_BID_SIZE_V2"

text \<open>The indicators, by what they append: nothing, the best offer, the best bid, or both.\<close>

definition bbo_none :: "u8 list" where "bbo_none = [65, 66, 68, 69, 70, 72, 73, 74, 76, 32]"
definition bbo_offer :: "u8 list" where "bbo_offer = [67, 71, 75]"
definition bbo_bid :: "u8 list" where "bbo_bid = [77, 80, 78]"

definition decode_bbo :: "opra_env \<Rightarrow> u8 \<Rightarrow> fast_codec \<Rightarrow> (fast_codec \<times> (u32 \<times> BBO_Appendage_v2) option) option" where
  "decode_bbo env ind codec =
    (if ind \<in> set bbo_none then Some (codec, Some (0, NoAppendage))
     else if ind \<in> set bbo_offer then do { (codec, ofr) \<leftarrow> decode_best_offer env codec; Some (codec, Some (12, BestOffer ofr)) }
     else if ind \<in> set bbo_bid then do { (codec, bid) \<leftarrow> decode_best_bid env codec; Some (codec, Some (12, BestBid bid)) }
     else if ind = 79 then do {
       (codec, bid) \<leftarrow> decode_best_bid env codec;
       (codec, ofr) \<leftarrow> decode_best_offer env codec;
       Some (codec, Some (24, BestBidOffer bid ofr))
     }
     else Some (codec, None))"

definition decode_OpraFastQuoteSizeMsg_v2 :: "opra_env \<Rightarrow> fast_codec \<Rightarrow> decoded_msg" where
  "decode_OpraFastQuoteSizeMsg_v2 env codec = do {
     (codec, hdr) \<leftarrow> msg_decode_hdr_v2 env 107 codec;
     (codec, ser) \<leftarrow> decode_series env codec;
     (codec, pden) \<leftarrow> decode_u32 env codec PREMIUM_PRICE_DENOMINATOR_CODE_V2;
     (codec, bid) \<leftarrow> decode_u32 env codec BID_PRICE_V2;
     (codec, bsize) \<leftarrow> decode_u32 env codec BID_SIZE_V2;
     (codec, ask) \<leftarrow> decode_u32 env codec OFFER_PRICE_V2;
     (codec, asize) \<leftarrow> decode_u32 env codec OFFER_SIZE_V2;
     (codec, sess) \<leftarrow> decode_u32 env codec SESSION_INDICATOR_V2;
     (codec, ind) \<leftarrow> decode_u32 env codec BBO_INDICATOR_V2;
     let msg = \<lparr>k_hdr = hdr, k_series = ser, k_premiumPriceDenomCode = ucast pden, k_bidQuote = bid, k_bidSize = bsize,
       k_askQuote = ask, k_askSize = asize, k_sessionIndicator = ucast sess, k_bboIndicator = ucast ind, k_bbo = NoAppendage\<rparr>;
     (codec, app) \<leftarrow> decode_bbo env (ucast ind) codec;
     case app of
       None \<Rightarrow> Some (codec, 0, QuoteSizeBody msg, False)
     | Some (n, bbo) \<Rightarrow> Some (codec, 52 + n, QuoteSizeBody (msg\<lparr>k_bbo := bbo\<rparr>), True)
   }"

definition decode_OpraFastOpenIntMsg_v2 :: "opra_env \<Rightarrow> fast_codec \<Rightarrow> decoded_msg" where
  "decode_OpraFastOpenIntMsg_v2 env codec = do {
     (codec, hdr) \<leftarrow> msg_decode_hdr_v2 env 100 codec;
     (codec, ser) \<leftarrow> decode_series env codec;
     (codec, vol) \<leftarrow> decode_u32 env codec OPEN_INT_VOLUME_V2;
     Some (codec, 36, OpenIntBody \<lparr>d_hdr = hdr, d_series = ser, d_openIntVolume = vol\<rparr>, True)
   }"

definition decode_OpraFastLastSaleMsg_v2 :: "opra_env \<Rightarrow> fast_codec \<Rightarrow> decoded_msg" where
  "decode_OpraFastLastSaleMsg_v2 env codec = do {
     (codec, hdr) \<leftarrow> msg_decode_hdr_v2 env 97 codec;
     (codec, ser) \<leftarrow> decode_series env codec;
     (codec, vol) \<leftarrow> decode_u32 env codec VOLUME_V2;
     (codec, pden) \<leftarrow> decode_u32 env codec PREMIUM_PRICE_DENOMINATOR_CODE_V2;
     (codec, prem) \<leftarrow> decode_u32 env codec PREMIUM_PRICE_V2;
     (codec, sess) \<leftarrow> decode_u32 env codec SESSION_INDICATOR_V2;
     Some (codec, 48, LastSaleBody \<lparr>a_hdr = hdr, a_series = ser, a_volume = vol, a_premiumPriceDenomCode = ucast pden,
       a_premium = prem, a_sessionIndicator = ucast sess\<rparr>, True)
   }"

definition decode_OpraFastEodMsg_v2 :: "opra_env \<Rightarrow> fast_codec \<Rightarrow> decoded_msg" where
  "decode_OpraFastEodMsg_v2 env codec = do {
     (codec, hdr) \<leftarrow> msg_decode_hdr_v2 env 102 codec;
     (codec, ser) \<leftarrow> decode_series env codec;
     (codec, vol) \<leftarrow> decode_u32 env codec VOLUME_V2;
     (codec, oi) \<leftarrow> decode_u32 env codec OPEN_INT_VOLUME_V2;
     (codec, pden) \<leftarrow> decode_u32 env codec PREMIUM_PRICE_DENOMINATOR_CODE_V2;
     (codec, opn) \<leftarrow> decode_u32 env codec OPEN_PRICE_V2;
     (codec, high) \<leftarrow> decode_u32 env codec HIGH_PRICE_V2;
     (codec, low) \<leftarrow> decode_u32 env codec LOW_PRICE_V2;
     (codec, lst) \<leftarrow> decode_u32 env codec LAST_PRICE_V2;
     (codec, nci) \<leftarrow> decode_u32 env codec NET_CHANGE_INDICATOR_V2;
     (codec, nc) \<leftarrow> decode_u32 env codec NET_CHANGE_V2;
     (codec, uden) \<leftarrow> decode_u32 env codec UNDERLYING_PRICE_DENOM_V2;
     (codec, up) \<leftarrow> decode_u32 env codec UNDERLYING_STOCK_PRICE_V2;
     (codec, bid) \<leftarrow> decode_u32 env codec BID_PRICE_V2;
     (codec, ask) \<leftarrow> decode_u32 env codec OFFER_PRICE_V2;
     Some (codec, 84, EodBody \<lparr>f_hdr = hdr, f_series = ser, f_volume = vol, f_openIntVolume = oi, f_premiumPriceDenomCode = ucast pden,
       f_open = opn, f_high = high, f_low = low, f_last = lst, f_netChangeIndicator = ucast nci, f_netChange = nc,
       f_underlyingPriceDenomCode = ucast uden, f_underlyingStockPrice = up, f_bidQuote = bid, f_askQuote = ask\<rparr>, True)
   }"

text \<open>The categories that are decoded only.\<close>

definition decode_OpraFastFcoLastSaleMsg_v2 :: "opra_env \<Rightarrow> fast_codec \<Rightarrow> decoded_msg" where
  "decode_OpraFastFcoLastSaleMsg_v2 env codec = do {
     (codec, hdr) \<leftarrow> msg_decode_hdr_v2 env 79 codec;
     (codec, sym) \<leftarrow> decode_symbol codec SECURITY_SYMBOL_V2 3;
     (codec, date) \<leftarrow> decode_u32 env codec EXPIRATION_DATE_V2;
     (codec, code) \<leftarrow> decode_u32 env codec STRIKE_PRICE_CODE_V2;
     (codec, vol) \<leftarrow> decode_u32 env codec VOLUME_V2;
     (codec, prem) \<leftarrow> decode_u32 env codec PREMIUM_PRICE_V2;
     Some (codec, 28, FcoLastSale \<lparr>fo_hdr = hdr, fo_symbol = sym, fo_expirationDate = u32_to_ascii 2 date, fo_strikePriceCode = ucast code,
       fo_volume = vol, fo_premiumPrice = prem\<rparr>, False)
   }"

definition decode_OpraFastFcoQuoteMsg_v2 :: "opra_env \<Rightarrow> fast_codec \<Rightarrow> decoded_msg" where
  "decode_OpraFastFcoQuoteMsg_v2 env codec = do {
     (codec, hdr) \<leftarrow> msg_decode_hdr_v2 env 85 codec;
     (codec, sym) \<leftarrow> decode_symbol codec SECURITY_SYMBOL_V2 3;
     (codec, date) \<leftarrow> decode_u32 env codec EXPIRATION_DATE_V2;
     (codec, code) \<leftarrow> decode_u32 env codec STRIKE_PRICE_CODE_V2;
     (codec, bid) \<leftarrow> decode_u32 env codec BID_PRICE_V2;
     (codec, ofr) \<leftarrow> decode_u32 env codec OFFER_PRICE_V2;
     Some (codec, 28, FcoQuote \<lparr>fu_hdr = hdr, fu_symbol = sym, fu_expirationDate = u32_to_ascii 2 date, fu_strikePriceCode = ucast code,
       fu_bidPrice = bid, fu_offerPrice = ofr\<rparr>, False)
   }"

definition decode_OpraFastFcoEodMsg_v2 :: "opra_env \<Rightarrow> fast_codec \<Rightarrow> decoded_msg" where
  "decode_OpraFastFcoEodMsg_v2 env codec = do {
     (codec, hdr) \<leftarrow> msg_decode_hdr_v2 env 70 codec;
     (codec, sym) \<leftarrow> decode_symbol codec SECURITY_SYMBOL_V2 3;
     (codec, date) \<leftarrow> decode_u32 env codec EXPIRATION_DATE_V2;
     (codec, code) \<leftarrow> decode_u32 env codec STRIKE_PRICE_CODE_V2;
     (codec, vol) \<leftarrow> decode_u32 env codec VOLUME_V2;
     (codec, oi) \<leftarrow> decode_u32 env codec OPEN_INT_VOLUME_V2;
     (codec, opn) \<leftarrow> decode_u32 env codec OPEN_PRICE_V2;
     (codec, high) \<leftarrow> decode_u32 env codec HIGH_PRICE_V2;
     (codec, low) \<leftarrow> decode_u32 env codec LOW_PRICE_V2;
     (codec, lst) \<leftarrow> decode_u32 env codec LAST_PRICE_V2;
     (codec, nci) \<leftarrow> decode_u32 env codec NET_CHANGE_INDICATOR_V2;
     (codec, nc) \<leftarrow> decode_u32 env codec NET_CHANGE_V2;
     (codec, up) \<leftarrow> decode_u32 env codec UNDERLYING_STOCK_PRICE_V2;
     Some (codec, 56, FcoEod \<lparr>ff_hdr = hdr, ff_symbol = sym, ff_expirationDate = u32_to_ascii 2 date, ff_strikePriceCode = ucast code,
       ff_volume = vol, ff_openIntVolume = oi, ff_open = opn, ff_high = high, ff_low = low, ff_last = lst,
       ff_netChangeIndicator = ucast nci, ff_netChange = nc, ff_underlyingStockPrice = up\<rparr>, False)
   }"

text \<open>
  The groups of an underlying-value message, by message type.  There is room for five; the loop does not test for it.  Behind the
  offer value of the last group is the rest of the union.
\<close>

definition decode_group :: "opra_env \<Rightarrow> u8 \<Rightarrow> u8 list \<Rightarrow> fast_codec \<Rightarrow> (fast_codec \<times> u8 list \<times> index_group) option" where
  "decode_group env ty behind codec =
    (if ty = 32 then do {
       (codec, sym) \<leftarrow> decode_symbol codec INDEX_SYMBOL_V2 3;
       (codec, rc, v) \<leftarrow> decode_str codec INDEX_VALUE_V2 (replicate 8 0 @ [0]) 8;
       Some (codec, sym, IndexValue (take 8 v))
     }
     else if ty = 73 then do {
       (codec, sym) \<leftarrow> decode_symbol codec INDEX_SYMBOL_V2 3;
       (codec, rc, b) \<leftarrow> decode_str codec BID_INDEX_VALUE_V2 (replicate 8 0 @ [0]) 8;
       (codec, rc, v) \<leftarrow> decode_str codec OFFER_INDEX_VALUE_V2 (replicate 8 0 @ behind) 8;
       Some (codec, sym, BidOfferIndex (take 8 b) (take 8 v))
     }
     else do {
       (codec, sym) \<leftarrow> decode_symbol codec FCO_SYMBOL_V2 3;
       (codec, dpi) \<leftarrow> decode_u32 env codec DECIMAL_PLACEMENT_INDICATOR_V2;
       (codec, spot) \<leftarrow> decode_u32 env codec FOREIGN_CURRENCY_SPOT_VALUE_V2;
       Some (codec, sym, FcSpotVal (u32_to_ascii 2 dpi) spot)
     })"

primrec decode_groups :: "nat \<Rightarrow> opra_env \<Rightarrow> u8 \<Rightarrow> u8 list \<Rightarrow> nat \<Rightarrow> fast_codec \<Rightarrow> (fast_codec \<times> (u8 list \<times> index_group) list) option" where
  "decode_groups 0 env ty rest i codec = Some (codec, [])"
| "decode_groups (Suc n) env ty rest i codec =
    (if i \<ge> 5 then None
     else do {
       (codec, sym, grp) \<leftarrow> decode_group env ty (if i < 4 then [0] else rest) codec;
       (codec, gs) \<leftarrow> decode_groups n env ty rest (i + 1) codec;
       Some (codec, (sym, grp) # gs)
     })"

definition decode_OpraFastUlValueMsg_v2 :: "opra_env \<Rightarrow> fast_codec \<Rightarrow> decoded_msg" where
  "decode_OpraFastUlValueMsg_v2 env codec0 = do {
     (codec, hdr) \<leftarrow> msg_decode_hdr_v2 env 89 codec0;
     let ty = msg_type hdr;
     if ty \<notin> {32, 73, 70, 67} then Some (codec, 0, UlValueMsg \<lparr>y_hdr = hdr, y_numOfIndices = 0, y_indexGroup = []\<rparr>, False)
     else do {
       (codec, indices) \<leftarrow> decode_u32 env codec
         (if ty = 32 \<or> ty = 73 then NUMBER_OF_INDICES_IN_GROUP_V2 else NUMBER_OF_FOREIGN_CURRENCY_SPOT_VALUES_IN_GROUP_V2);
       (codec, gs) \<leftarrow> decode_groups (nat (sint indices)) env ty (drop 116 (stale env codec0)) 0 codec;
       Some (codec, 14 + indices * (if ty = 32 then 11 else if ty = 73 then 19 else 13),
         UlValueMsg \<lparr>y_hdr = hdr, y_numOfIndices = indices, y_indexGroup = gs\<rparr>, True)
     }
   }"

definition decode_OpraFastAdminMsg_v2 :: "opra_env \<Rightarrow> fast_codec \<Rightarrow> decoded_msg" where
  "decode_OpraFastAdminMsg_v2 env codec0 = do {
     (codec, hdr) \<leftarrow> msg_decode_hdr_v2 env 67 codec0;
     (codec, bodyLen, text) \<leftarrow> decode_str codec TEXT_V2 (drop 12 (stale env codec0)) 450;
     Some (codec, 12 + (if bodyLen > 0 then word_of_int bodyLen else 0), AdminMsg \<lparr>h_hdr = hdr, h_text = text\<rparr>, True)
   }"

definition decode_OpraFastControlMsg_v2 :: "opra_env \<Rightarrow> fast_codec \<Rightarrow> decoded_msg" where
  "decode_OpraFastControlMsg_v2 env codec0 = do {
     (codec, hdr) \<leftarrow> msg_decode_hdr_v2 env 72 codec0;
     (codec, bodyLen, text) \<leftarrow> decode_str codec TEXT_V2 (drop 12 (stale env codec0)) 450;
     text \<leftarrow> (if bodyLen > 0 then array_set text (nat bodyLen) 0 else Some text);
     Some (codec, 12 + (if bodyLen > 0 then word_of_int bodyLen else 0), CtrlMsg \<lparr>h_hdr = hdr, h_text = text\<rparr>, True)
   }"

subsection \<open>Packets (\<^verbatim>\<open>fast_process.c\<close>)\<close>

text \<open>The table of decoders by category.  Characters beyond 127 are negative in C and, like all that are not in the table,
  go to the default decoder.\<close>

definition FastOpraDecoder :: "opra_env \<Rightarrow> u8 \<Rightarrow> fast_codec \<Rightarrow> decoded_msg" where
  "FastOpraDecoder env cat codec =
    (if cat = 107 then decode_OpraFastQuoteSizeMsg_v2 env codec
     else if cat = 100 then decode_OpraFastOpenIntMsg_v2 env codec
     else if cat = 97 then decode_OpraFastLastSaleMsg_v2 env codec
     else if cat = 102 then decode_OpraFastEodMsg_v2 env codec
     else if cat = 79 then decode_OpraFastFcoLastSaleMsg_v2 env codec
     else if cat = 85 then decode_OpraFastFcoQuoteMsg_v2 env codec
     else if cat = 70 then decode_OpraFastFcoEodMsg_v2 env codec
     else if cat = 89 then decode_OpraFastUlValueMsg_v2 env codec
     else if cat = 67 then decode_OpraFastAdminMsg_v2 env codec
     else if cat = 72 then decode_OpraFastControlMsg_v2 env codec
     else decode_OpraFastDefMsg_v2 env codec)"

text \<open>
  The header of the first message of a packet: category, type, and the sequence number or the time, whichever the
  caller asks for.  \<open>buffer\<close> is the memory from the packet on.
\<close>

definition fast_opra_hdr_info ::
  "opra_env \<Rightarrow> u8 list \<Rightarrow> int \<Rightarrow> bool \<Rightarrow> bool \<Rightarrow> fast_codec \<Rightarrow> (fast_codec \<times> (u8 \<times> u8 \<times> u32 option \<times> u32 option) option) option" where
  "fast_opra_hdr_info env buffer len want_sn want_time codec = do {
     acq_size \<leftarrow> array_get buffer 15;
     if acq_size = 0 then Some (codec, None)
     else do {
       let codec = setBuffer codec (drop 16 buffer) (if acq_size = 0xff then len else uint acq_size);
       (codec, rc) \<leftarrow> decode_new_msg codec;
       if rc < 0 then Some (codec, None)
       else do {
         (codec, cat) \<leftarrow> decode_u32 env codec MESSAGE_CATEGORY_V2;
         (codec, ty) \<leftarrow> decode_u32 env codec MESSAGE_TYPE_V2;
         (codec, sn) \<leftarrow> (if want_sn then do {
             (codec, _) \<leftarrow> decode_u32 env codec PARTICIPANT_ID_V2;
             (codec, _) \<leftarrow> decode_u32 env codec RETRANSMISSION_REQUESTER_V2;
             (codec, sn) \<leftarrow> decode_u32 env codec MESSAGE_SEQUENCE_NUMBER_V2;
             Some (codec, Some sn)
           } else Some (codec, None));
         (codec, tm) \<leftarrow> (if want_time then do {
             (codec, _) \<leftarrow> decode_u32 env codec PARTICIPANT_ID_V2;
             (codec, _) \<leftarrow> decode_u32 env codec RETRANSMISSION_REQUESTER_V2;
             (codec, _) \<leftarrow> decode_u32 env codec MESSAGE_SEQUENCE_NUMBER_V2;
             (codec, tm) \<leftarrow> decode_u32 env codec TIME_V2;
             Some (codec, Some tm)
           } else Some (codec, None));
         Some (codec, Some (ucast cat, ucast ty, sn, tm))
       }
     }
   }"

lemma read_len_decreases: "- 1 - uint (a :: u8) < int n"
  using uint_nonnegative [of a] by linarith

text \<open>
  The loop over the messages: \<open>pos\<close> is the pointer into the packet, \<open>offset\<close> the distance of the next size byte.  The result has the
  number of messages and the ones passed on.
\<close>

function opra_decode_loop ::
  "opra_env \<Rightarrow> u8 list \<Rightarrow> int \<Rightarrow> nat \<Rightarrow> nat \<Rightarrow> int \<Rightarrow> fast_codec \<Rightarrow> (fast_codec \<times> nat \<times> OpraMsg_v2 list) option" where
  "opra_decode_loop env packet rec_len pos offset read_len codec =
    (if read_len \<le> 1 then Some (codec, 0, [])
     else do {
       msize \<leftarrow> array_get packet (pos + offset);
       let pos = pos + offset + 1;
       let read_len = read_len - int offset - 1;
       let codec = setBuffer codec (drop pos packet) (if msize = 0xff then rec_len else uint msize);
       (codec, rc) \<leftarrow> decode_new_msg codec;
       if rc < 0 then Some (codec, 0, [])
       else do {
         (codec, cat) \<leftarrow> decode_u32 env codec MESSAGE_CATEGORY_V2;
         (codec, esize, msg, passed) \<leftarrow> FastOpraDecoder env (ucast cat) codec;
         let (codec, rc) = decode_end_msg codec;
         let out = (if passed then [msg] else []);
         if rc < 0 then Some (codec, 1, out)
         else do {
           (codec, n, msgs) \<leftarrow> opra_decode_loop env packet rec_len (pos + unat msize) 0 (read_len - uint msize) codec;
           Some (codec, n + 1, out @ msgs)
         }
       }
     })"
  by pat_completeness auto
termination
  by (relation "measure (\<lambda>(env, packet, rec_len, pos, offset, read_len, codec). nat read_len)") (auto simp: read_len_decreases)

declare opra_decode_loop.simps [simp del]

text \<open>A packet: start byte, version, sequence number, number of messages, messages, end byte.\<close>

definition fast_opra_decode :: "opra_env \<Rightarrow> u8 list \<Rightarrow> int \<Rightarrow> fast_codec \<Rightarrow> (fast_codec \<times> nat \<times> OpraMsg_v2 list) option" where
  "fast_opra_decode env packet rec_len codec = do {
     version \<leftarrow> array_get packet 1;
     if version \<noteq> 2 then None
     else opra_decode_loop env packet rec_len 1 14 (rec_len - 1) codec
   }"

end
