(* ===== verification/OpraWire.thy ===== *)
theory OpraWire
  imports OpraMsg
begin

section \<open>OPRA messages on the wire\<close>

text \<open>
  The format of FAST messages as OPRA uses it, stated on its own: which bytes carry a list of fields, given the values
  both ends remember from before.  The decoder reads such bytes back field by field.
\<close>

subsection \<open>The format\<close>

datatype fval = FU u32 | FS "u8 list"

text \<open>The remembered values by slot.\<close>

type_synonym cells = "nat \<Rightarrow> fval option"

abbreviation slot :: "u32 \<Rightarrow> nat" where
  "slot tag \<equiv> unat (get_tag_slot tag)"

text \<open>The bits of a presence map given by its bytes; a field behind the map is absent.\<close>

definition present :: "u8 list \<Rightarrow> u32 \<Rightarrow> bool" where
  "present pmap tag \<longleftrightarrow> slot tag < 7 * length pmap \<and> concat (map unpack7 pmap) ! slot tag \<noteq> 0"

text \<open>
  A field that is present is sent with a stop bit, a string without its trailing padding; one that is absent repeats the
  remembered value, or the one after it under the increment operator.
\<close>

fun field_sent :: "u8 list \<Rightarrow> cells \<Rightarrow> u32 \<times> fval \<Rightarrow> u8 list \<Rightarrow> bool" where
  "field_sent pmap c (tag, FU x) bs \<longleftrightarrow>
    (if present pmap tag then bs = u32_bytes (u32_to_size x) x
     else bs = [] \<and> c (slot tag) = Some (FU (if get_tag_op tag = FAST_OP_INCR then x - 1 else x)))"
| "field_sent pmap c (tag, FS s) bs \<longleftrightarrow>
    (if present pmap tag
     then \<exists>k\<in>{1..length s}. bs = stop (take k s) \<and> (\<forall>b\<in>set (take k s). b < 0x80) \<and> (\<forall>b\<in>set (drop k s). b = 0x20)
     else bs = [] \<and> c (slot tag) = Some (FS s))"

fun fields_sent :: "u8 list \<Rightarrow> cells \<Rightarrow> (u32 \<times> fval) list \<Rightarrow> u8 list \<Rightarrow> bool" where
  "fields_sent pmap c [] bs \<longleftrightarrow> bs = []"
| "fields_sent pmap c (f # fs) bs \<longleftrightarrow>
    (\<exists>n\<in>{0..length bs}. field_sent pmap c f (take n bs) \<and> fields_sent pmap (c(slot (fst f) \<mapsto> snd f)) fs (drop n bs))"

definition after_fields :: "(u32 \<times> fval) list \<Rightarrow> cells \<Rightarrow> cells" where
  "after_fields fs c = fold (\<lambda>f c. c(slot (fst f) \<mapsto> snd f)) fs c"

subsection \<open>The decoder's state\<close>

definition opra_codec_ok :: "fast_codec \<Rightarrow> bool" where
  "opra_codec_ok codec \<longleftrightarrow> codec_ok codec \<and> length (pm_bits (fc_pmap codec)) = 56 \<and>
     length (str_values (fc_cv codec ! 0)) = 64 \<and> (\<forall>s < 64. str_values (fc_cv codec ! 0) ! s \<in> {None, Some s}) \<and>
     (\<forall>a. length (fc_strings codec a) = 1024)"

text \<open>The values of a decoder agree with the remembered ones.\<close>

definition remembers :: "fast_codec \<Rightarrow> cells \<Rightarrow> bool" where
  "remembers codec c \<longleftrightarrow> (\<forall>s < 64. case c s of
      None \<Rightarrow> True
    | Some (FU x) \<Rightarrow> cv_valid (fc_cv codec ! 0) ! s \<noteq> 0 \<and> u32_values (fc_cv codec ! 0) ! s = x
    | Some (FS v) \<Rightarrow> str_values (fc_cv codec ! 0) ! s = Some s \<and> take (length v) (fc_strings codec s) = v)"

definition opra_u32_tag :: "u32 \<Rightarrow> bool" where
  "opra_u32_tag tag \<longleftrightarrow> u32_tag_ok tag \<and> get_tag_tid tag = 0 \<and> get_tag_op tag \<in> {FAST_OP_COPY, FAST_OP_INCR}"

definition opra_str_tag :: "u32 \<Rightarrow> bool" where
  "opra_str_tag tag \<longleftrightarrow> get_tag_type tag = FAST_TYPE_STR \<and> get_tag_tid tag = 0 \<and> slot tag < 56 \<and> get_tag_op tag = FAST_OP_COPY"

text \<open>A decoder in the middle of a message: it has the presence map and the fields \<open>fs\<close> are to come.\<close>

definition receiving :: "u8 list \<Rightarrow> u8 list \<Rightarrow> cells \<Rightarrow> (u32 \<times> fval) list \<Rightarrow> fast_codec \<Rightarrow> bool" where
  "receiving rest pmap c fs codec \<longleftrightarrow> opra_codec_ok codec \<and> remembers codec c \<and>
     (\<forall>tag. slot tag < 56 \<longrightarrow> get_pmap codec tag = Some (if present pmap tag then 1 else 0)) \<and>
     (\<exists>body. fc_input codec = body @ rest \<and> int (length body) \<le> fc_input_left codec \<and> fields_sent pmap c fs body)"

lemma advance_cells [simp]:
  "fc_cv (advance codec rest n) = fc_cv codec" "fc_strings (advance codec rest n) = fc_strings codec"
  "opra_codec_ok (advance codec rest n) = opra_codec_ok codec" "remembers (advance codec rest n) c = remembers codec c"
  by (simp_all add: advance_def opra_codec_ok_def codec_ok_def remembers_def cong: option.case_cong fval.case_cong)

lemma remembers_set_u32:
  assumes "opra_codec_ok codec" and "remembers codec c" and "opra_u32_tag tag"
  shows "opra_codec_ok (set_u32_cell codec tag x)" "remembers (set_u32_cell codec tag x) (c(slot tag \<mapsto> FU x))"
proof -
  have ok: "codec_ok codec" "u32_tag_ok tag" "unat (get_tag_tid tag) = 0" using assms by (simp_all add: opra_codec_ok_def opra_u32_tag_def)
  note l = cv_lengths [OF ok(1,2)]
  note s = set_u32_cell_ok [OF ok(1,2), of x]
  have len: "0 < length (fc_cv codec)" using l(1) ok(3) by simp
  show "opra_codec_ok (set_u32_cell codec tag x)"
    using assms(1) s(1) ok(3) len by (auto simp: opra_codec_ok_def set_u32_cell_def Let_def)
  show "remembers (set_u32_cell codec tag x) (c(slot tag \<mapsto> FU x))"
    using assms(2) l ok(3) len
    by (auto simp: remembers_def set_u32_cell_def Let_def nth_list_update split: option.splits fval.splits)
qed

subsection \<open>Reading one field\<close>

lemma next_present:
  assumes "op = get_tag_op tag" and "op \<in> {FAST_OP_COPY, FAST_OP_INCR}" and "get_pmap codec tag = Some 1"
    and "fc_input codec = u32_bytes (u32_to_size x) x @ rest" and "int (u32_to_size x) \<le> fc_input_left codec"
  shows "decode_u32_next opt codec tag = Some (Inr (advance codec rest (u32_to_size x), x))"
proof -
  have "0 < u32_to_size x" using u32_size(1) [of x] by simp
  then show ?thesis
    using assms(1,2) parse_present_u32 [OF assms(3-5), of opt] ops_distinct by (auto simp: decode_u32_next_def Let_def)
qed

lemma next_absent:
  assumes ok: "codec_ok codec" "u32_tag_ok tag" and "op = get_tag_op tag" and "op \<in> {FAST_OP_COPY, FAST_OP_INCR}"
    and "get_pmap codec tag = Some 0" and "u32_cell codec tag = Some y"
  shows "decode_u32_next opt codec tag = Some (Inr (codec, if op = FAST_OP_INCR then y + 1 else y))"
proof -
  have "parse_u32 opt codec tag = Some (codec, 0, 0)" using parse_absent [OF assms(5)] by (simp add: parse_u32_def)
  then show ?thesis
    using assms(3,4,6) cv_u32_access(1) [OF ok] cv_u32_access(2) [OF ok assms(6)] ops_distinct by (auto simp: decode_u32_next_def Let_def)
qed

lemma u32_wire_length: "length (u32_bytes (u32_to_size x) x) = u32_to_size x"
  using u32_size(1) [of x] by (auto simp: u32_wire digits7_def)

lemma receive_u32:
  assumes r: "receiving rest pmap c ((tag, FU x) # fs) codec" and t: "opra_u32_tag tag"
  shows "\<exists>codec'. decode_u32 env codec tag = Some (codec', x) \<and> receiving rest pmap (c(slot tag \<mapsto> FU x)) fs codec'"
proof -
  have ok: "opra_codec_ok codec" "codec_ok codec" "u32_tag_ok tag" "remembers codec c" "unat (get_tag_tid tag) = 0" "slot tag < 56"
    "get_tag_op tag \<in> {FAST_OP_COPY, FAST_OP_INCR}"
    using r t by (auto simp: receiving_def opra_codec_ok_def opra_u32_tag_def u32_tag_ok_def)
  have pm: "get_pmap codec tag = Some (if present pmap tag then 1 else 0)" using r ok(6) by (simp add: receiving_def)
  obtain body n where b: "fc_input codec = body @ rest" "int (length body) \<le> fc_input_left codec" "n \<le> length body"
    "field_sent pmap c (tag, FU x) (take n body)" "fields_sent pmap (c(slot tag \<mapsto> FU x)) fs (drop n body)"
    using r by (auto simp: receiving_def)
  have inp: "fc_input codec = take n body @ (drop n body @ rest)" using b(1) by simp
  have next_x: "decode_u32_next True codec tag = Some (Inr (advance codec (drop n body @ rest) n, x))"
  proof (cases "present pmap tag")
    case True
    have w: "take n body = u32_bytes (u32_to_size x) x" using b(4) True by simp
    then have n: "n = u32_to_size x" using b(3) u32_wire_length [of x] by (metis length_take min.absorb2)
    show ?thesis
      using next_present [OF refl ok(7), of codec x "drop n body @ rest" True] pm True inp w n b(2,3) by simp
  next
    case False
    then have n: "take n body = []" "c (slot tag) = Some (FU (if get_tag_op tag = FAST_OP_INCR then x - 1 else x))" using b(4) by simp_all
    then have "n = 0" using b(3) by auto
    then have "advance codec (drop n body @ rest) n = codec" using b(1) by (simp add: advance_def)
    moreover have "slot tag < 64" using ok(6) by simp
    then have "u32_cell codec tag = Some (if get_tag_op tag = FAST_OP_INCR then x - 1 else x)"
      using ok(4,5) n(2) by (auto simp: remembers_def u32_cell_def Let_def split: option.splits fval.splits)
    ultimately show ?thesis using next_absent [OF ok(2,3) refl ok(7)] pm False by simp
  qed
  let ?codec = "advance codec (drop n body @ rest) n"
  have d: "decode_u32 env codec tag = Some (set_u32_cell ?codec tag x, x)"
    using decode_u32_field [OF ok(2,3) next_x] by (simp add: decode_u32_def)
  have a: "opra_codec_ok ?codec" "remembers ?codec c" using ok(1,4) by simp_all
  note s = remembers_set_u32 [OF a t, of x]
  have "receiving rest pmap (c(slot tag \<mapsto> FU x)) fs (set_u32_cell ?codec tag x)"
    unfolding receiving_def
  proof (intro conjI)
    show "\<forall>tag'. slot tag' < 56 \<longrightarrow> get_pmap (set_u32_cell ?codec tag x) tag' = Some (if present pmap tag' then 1 else 0)"
      using r get_pmap_cong [of "set_u32_cell ?codec tag x" codec] by (simp add: receiving_def)
    show "\<exists>body'. fc_input (set_u32_cell ?codec tag x) = body' @ rest \<and> int (length body') \<le> fc_input_left (set_u32_cell ?codec tag x) \<and>
        fields_sent pmap (c(slot tag \<mapsto> FU x)) fs body'"
      using b(2,3,5) by (intro exI [of _ "drop n body"]) simp
  qed (rule s)+
  then show ?thesis using d by blast
qed

text \<open>Codecs that differ in the string of one slot.\<close>

definition str_frame :: "nat \<Rightarrow> fast_codec \<Rightarrow> fast_codec \<Rightarrow> bool" where
  "str_frame s codec codec' \<longleftrightarrow> opra_codec_ok codec' \<and> fc_input codec' = fc_input codec \<and> fc_input_left codec' = fc_input_left codec \<and>
     fc_pmap codec' = fc_pmap codec \<and> str_values (fc_cv codec' ! 0) ! s = Some s \<and>
     (\<forall>i < 64. i \<noteq> s \<longrightarrow> str_values (fc_cv codec' ! 0) ! i = str_values (fc_cv codec ! 0) ! i \<and>
       cv_valid (fc_cv codec' ! 0) ! i = cv_valid (fc_cv codec ! 0) ! i \<and> fc_strings codec' i = fc_strings codec i) \<and>
     u32_values (fc_cv codec' ! 0) = u32_values (fc_cv codec ! 0)"

lemma cv_get_str_ok:
  assumes ok: "opra_codec_ok codec" and t: "opra_str_tag tag"
  shows "\<exists>codec'. cv_get_str True codec tag = Some (codec', slot tag) \<and> str_frame (slot tag) codec codec' \<and>
    (str_values (fc_cv codec ! 0) ! slot tag = Some (slot tag) \<longrightarrow> codec' = codec)"
proof -
  have s: "slot tag < 64" "unat (get_tag_tid tag) = 0" using t by (simp_all add: opra_str_tag_def)
  have l: "length (fc_cv codec) = 15" "length (str_values (fc_cv codec ! 0)) = 64"
    "str_values (fc_cv codec ! 0) ! slot tag \<in> {None, Some (slot tag)}" "length (fc_strings codec (slot tag)) = 1024"
    using ok s(1) by (simp_all add: opra_codec_ok_def codec_ok_def)
  show ?thesis
  proof (cases "str_values (fc_cv codec ! 0) ! slot tag")
    case None
    let ?cv = "(fc_cv codec ! 0)\<lparr>str_values := (str_values (fc_cv codec ! 0))[slot tag := Some (slot tag)]\<rparr>"
    let ?codec = "codec\<lparr>fc_cv := (fc_cv codec)[0 := ?cv], fc_strings := (fc_strings codec)(slot tag := (fc_strings codec (slot tag))[0 := 0])\<rparr>"
    have "fc_strings codec (slot tag) \<noteq> []" using l(4) by auto
    then have "cv_get_str True codec tag = Some (?codec, slot tag)"
      using None l s by (simp add: cv_get_str_def cv_get_tag_state_def array_get_def array_set_def cv_put_def Let_def)
    moreover have "codec_ok ?codec"
      using ok l by (auto simp: opra_codec_ok_def codec_ok_def dest!: subsetD [OF set_update_subset_insert])
    then have "str_frame (slot tag) codec ?codec"
      using ok l s by (auto simp: str_frame_def opra_codec_ok_def nth_list_update)
    ultimately show ?thesis using None by auto
  next
    case (Some a)
    then have "a = slot tag" using l(3) by simp
    then show ?thesis using Some l s ok
      by (auto simp: cv_get_str_def cv_get_tag_state_def array_get_def str_frame_def)
  qed
qed

text \<open>Storing a string.\<close>

lemma cv_set_str_ok:
  assumes ok: "opra_codec_ok codec" and t: "opra_str_tag tag" and n: "n < 1024" "n \<le> length data"
  shows "\<exists>codec'. cv_set_str True codec tag data (int n) = Some codec' \<and> str_frame (slot tag) codec codec' \<and>
    take n (fc_strings codec' (slot tag)) = take n data"
proof -
  obtain c1 where c1: "cv_get_str True codec tag = Some (c1, slot tag)" "str_frame (slot tag) codec c1"
    using cv_get_str_ok [OF ok t] by blast
  have s: "slot tag < 64" "unat (get_tag_tid tag) = 0" using t by (simp_all add: opra_str_tag_def)
  have ok1: "opra_codec_ok c1" using c1(2) by (simp add: str_frame_def)
  then have l: "length (fc_cv c1) = 15" "length (cv_valid (fc_cv c1 ! 0)) = 64" "length (fc_strings c1 (slot tag)) = 1024"
    by (auto simp: opra_codec_ok_def codec_ok_def)
  let ?str = "(take n data @ drop n (fc_strings c1 (slot tag)))[n := 0]"
  let ?codec = "c1\<lparr>fc_strings := (fc_strings c1)(slot tag := ?str),
    fc_cv := (fc_cv c1)[0 := (fc_cv c1 ! 0)\<lparr>cv_valid := (cv_valid (fc_cv c1 ! 0))[slot tag := 1]\<rparr>]\<rparr>"
  have "fc_cv c1 \<noteq> []" using l(1) by auto
  then have "cv_set_str True codec tag data (int n) = Some ?codec"
    using c1(1) n l s
    by (simp add: cv_set_str_def mem_copy_def array_set_def cv_set_valid_def cv_get_tag_state_def array_get_def cv_put_def)
  moreover have "codec_ok ?codec"
    using ok1 l by (auto simp: opra_codec_ok_def codec_ok_def dest!: subsetD [OF set_update_subset_insert])
  then have "str_frame (slot tag) codec ?codec"
    using ok1 c1(2) l s n by (auto simp: str_frame_def opra_codec_ok_def nth_list_update)
  moreover have "take n (fc_strings ?codec (slot tag)) = take n data" using n by simp
  ultimately show ?thesis by blast
qed

lemma str_frame_remembers:
  assumes "str_frame (slot tag) codec codec'" and "remembers codec c" and "take (length v) (fc_strings codec' (slot tag)) = v"
  shows "remembers codec' (c(slot tag \<mapsto> FS v))"
  unfolding remembers_def
proof (intro allI impI)
  fix s :: nat assume s: "s < 64"
  show "case (c(slot tag \<mapsto> FS v)) s of None \<Rightarrow> True
    | Some (FU x) \<Rightarrow> cv_valid (fc_cv codec' ! 0) ! s \<noteq> 0 \<and> u32_values (fc_cv codec' ! 0) ! s = x
    | Some (FS v) \<Rightarrow> str_values (fc_cv codec' ! 0) ! s = Some s \<and> take (length v) (fc_strings codec' s) = v"
    using assms s by (cases "s = slot tag") (auto simp: str_frame_def remembers_def split: option.splits fval.splits)
qed

lemma parse_str_present:
  assumes "get_pmap codec tag = Some 1" and "bs \<noteq> []" and "\<forall>b\<in>set bs. b < 0x80" and "length bs \<le> n" and "n \<le> length data"
    and "fc_input codec = stop bs @ rest" and "int (length bs) \<le> fc_input_left codec"
  shows "parse_str True codec tag data n = Some (advance codec rest (length bs), bs @ drop (length bs) data, int (length bs))"
  using parse_stop [OF assms(2-4), of 0 data "fc_input_left codec" rest] assms(1,4-)
  by (simp add: parse_str_def parse_bytes_def advance_def)

lemma decode_str_unfold:
  assumes "opra_str_tag tag"
  shows "decode_str codec tag data n = do {
       (codec, data, k) \<leftarrow> parse_str True codec tag data n;
       if k < 0 then Some (codec, -1, data)
       else if k > 0 then do {
         codec \<leftarrow> cv_set_str True codec tag data (int n);
         Some (codec, if k < int n then k else int n, data)
       }
       else do {
         (codec, a) \<leftarrow> cv_get_str True codec tag;
         data \<leftarrow> mem_copy data 0 (fc_strings codec a) (int n);
         k \<leftarrow> str_len data;
         Some (codec, if int k < int n then int k else int n, data)
       } }"
  using assms ops_distinct
  by (simp add: decode_str_def fast_decode_str_def opra_str_tag_def check_codec_def check_type_def Let_def cong: if_cong)

lemma receive_str:
  assumes r: "receiving rest pmap c ((tag, FS v) # fs) codec" and t: "opra_str_tag tag"
    and n: "length v < 1024" "v \<noteq> []"
  shows "\<exists>codec'. decode_symbol codec tag (length v) = Some (codec', v) \<and> receiving rest pmap (c(slot tag \<mapsto> FS v)) fs codec'"
proof -
  let ?n = "length v" and ?data = "replicate (length v) 0x20 @ [0 :: u8]"
  have ok: "opra_codec_ok codec" "remembers codec c" "slot tag < 56" using r t by (simp_all add: receiving_def opra_str_tag_def)
  have pm: "get_pmap codec tag = Some (if present pmap tag then 1 else 0)" using r ok(3) by (simp add: receiving_def)
  obtain body m where b: "fc_input codec = body @ rest" "int (length body) \<le> fc_input_left codec" "m \<le> length body"
    "field_sent pmap c (tag, FS v) (take m body)" "fields_sent pmap (c(slot tag \<mapsto> FS v)) fs (drop m body)"
    using r by (auto simp: receiving_def)
  have inp: "fc_input codec = take m body @ (drop m body @ rest)" using b(1) by simp
  let ?codec = "advance codec (drop m body @ rest) m"
  have "\<exists>codec' k mem. decode_str codec tag ?data ?n = Some (codec', k, mem) \<and> take ?n mem = v \<and> str_frame (slot tag) ?codec codec' \<and>
      take ?n (fc_strings codec' (slot tag)) = v"
  proof (cases "present pmap tag")
    case True
    then obtain k where k: "1 \<le> k" "k \<le> ?n" "take m body = stop (take k v)" "\<forall>b\<in>set (take k v). b < 0x80" "\<forall>b\<in>set (drop k v). b = 0x20"
      using b(4) by auto
    have l: "length (take k v) = k" using k(2) by simp
    have m: "m = k" using b(3) k(3) l by (metis length_take min.absorb2 stop_length)
    have sp: "drop k v = replicate (?n - k) 0x20" using k(5) by (intro replicate_eqI) auto
    let ?mem = "take k v @ drop k ?data"
    have mem: "?mem = v @ [0]" using k(2) sp by (metis append.assoc append_take_drop_id diff_is_0_eq drop_append drop_replicate length_replicate append_Nil2 drop0)
    have p: "parse_str True codec tag ?data ?n = Some (?codec, v @ [0], int k)"
      unfolding mem [symmetric] using parse_str_present [of codec tag "take k v" ?n ?data "drop m body @ rest"] pm True k l m b(2,3) inp n(2) by auto
    obtain codec' where c: "cv_set_str True ?codec tag (v @ [0]) (int ?n) = Some codec'" "str_frame (slot tag) ?codec codec'"
      "take ?n (fc_strings codec' (slot tag)) = v"
      using cv_set_str_ok [OF _ t n(1), of ?codec "v @ [0]"] ok(1) by auto
    show ?thesis using p c k(1) by (simp add: decode_str_unfold [OF t])
  next
    case False
    then have e: "take m body = []" "c (slot tag) = Some (FS v)" using b(4) by simp_all
    then have "m = 0" using b(3) by auto
    then have a: "?codec = codec" using b(1) by (simp add: advance_def)
    have cell: "str_values (fc_cv codec ! 0) ! slot tag = Some (slot tag)" "take ?n (fc_strings codec (slot tag)) = v"
      using ok(2,3) e(2) by (auto simp: remembers_def dest!: spec [of _ "slot tag"])
    obtain codec' where c: "cv_get_str True codec tag = Some (codec', slot tag)" "str_frame (slot tag) codec codec'" "codec' = codec"
      using cv_get_str_ok [OF ok(1) t] cell(1) by blast
    have l: "length (fc_strings codec (slot tag)) = 1024" using ok(1) by (simp add: opra_codec_ok_def)
    have mc: "mem_copy ?data 0 (fc_strings codec (slot tag)) (int ?n) = Some (v @ [0])"
      using l n(1) cell(2) by (simp add: mem_copy_def)
    have "parse_str True codec tag ?data ?n = Some (codec, ?data, 0)" using pm False by (simp add: parse_str_def)
    then show ?thesis using c mc cell(2) a by (simp add: decode_str_unfold [OF t] str_len_def)
  qed
  then obtain codec' k mem where d: "decode_str codec tag ?data ?n = Some (codec', k, mem)" "take ?n mem = v"
    "str_frame (slot tag) ?codec codec'" "take ?n (fc_strings codec' (slot tag)) = v" by blast
  have f: "opra_codec_ok codec'" "fc_pmap codec' = fc_pmap codec" "fc_input codec' = drop m body @ rest"
    "fc_input_left codec' = fc_input_left codec - int m" using d(3) by (simp_all add: str_frame_def)
  have "receiving rest pmap (c(slot tag \<mapsto> FS v)) fs codec'"
    unfolding receiving_def
  proof (intro conjI)
    show "remembers codec' (c(slot tag \<mapsto> FS v))" using str_frame_remembers [OF d(3) _ d(4)] ok(2) by simp
    show "\<forall>tag'. slot tag' < 56 \<longrightarrow> get_pmap codec' tag' = Some (if present pmap tag' then 1 else 0)"
      using r get_pmap_cong [OF f(2)] by (simp add: receiving_def)
    show "\<exists>body'. fc_input codec' = body' @ rest \<and> int (length body') \<le> fc_input_left codec' \<and>
        fields_sent pmap (c(slot tag \<mapsto> FS v)) fs body'"
      using b(2,3,5) f(3,4) by (intro exI [of _ "drop m body"]) simp
  qed (rule f(1))
  then show ?thesis using d(1,2) by (simp add: decode_symbol_def)
qed

end
