(* ===== verification/OpraDecode.thy ===== *)
theory OpraDecode
  imports OpraWire
begin

section \<open>OPRA messages are decoded\<close>

text \<open>
  The fields that make up a message of each category, and that the decoders return the message whose
  fields are on the wire.
\<close>

subsection \<open>Fields of a message\<close>

definition hdr_fields :: "OpraMsgHdr_v2 \<Rightarrow> (u32 \<times> fval) list" where
  "hdr_fields h = [(MESSAGE_TYPE_V2, FU (ucast (msg_type h))), (PARTICIPANT_ID_V2, FU (ucast (participantId h))),
     (RETRANSMISSION_REQUESTER_V2, FU (ucast (retran h))), (MESSAGE_SEQUENCE_NUMBER_V2, FU (seqNumber h)), (TIME_V2, FU (msg_time h))]"

text \<open>Two decimal digits.\<close>

definition two_digits :: "u8 list \<Rightarrow> bool" where
  "two_digits ds \<longleftrightarrow> length ds = 2 \<and> (\<forall>d\<in>set ds. 0x30 \<le> d \<and> d \<le> 0x39)"

definition digits_u32 :: "u8 list \<Rightarrow> u32" where
  "digits_u32 ds = 10 * (ucast (ds ! 0) - 0x30) + (ucast (ds ! 1) - 0x30)"

definition series_fields :: "opra_series \<Rightarrow> (u32 \<times> fval) list" where
  "series_fields s = [(SECURITY_SYMBOL_V2, FS (symbol s)), (EXPIRATION_MONTH_V2, FU (ucast (expirationMonth s))),
     (EXPIRATION_DATE_V2, FU (digits_u32 (expirationDate s))), (YEAR_V2, FU (digits_u32 (year s))),
     (STRIKE_PRICE_DENOMINATOR_CODE_V2, FU (ucast (strikePriceDenomCode s))), (EXPLICIT_STRIKE_PRICE_V2, FU (explicitStrike s)),
     (STRIKE_PRICE_CODE_V2, FU (ucast (strikePriceCode s)))]"

definition offer_fields :: "Appendage_v2 \<Rightarrow> (u32 \<times> fval) list" where
  "offer_fields a = [(BEST_OFFER_PARTICIPANT_ID_V2, FU (ucast (partId a))), (BEST_OFFER_PRICE_DENOMINATOR_CODE_V2, FU (ucast (denominator a))),
     (BEST_OFFER_PRICE_V2, FU (ap_price a)), (BEST_OFFER_SIZE_V2, FU (ap_size a))]"

definition bid_fields :: "Appendage_v2 \<Rightarrow> (u32 \<times> fval) list" where
  "bid_fields a = [(BEST_BID_PARTICIPANT_ID_V2, FU (ucast (partId a))), (BEST_BID_PRICE_DENOMINATOR_CODE_V2, FU (ucast (denominator a))),
     (BEST_BID_PRICE_V2, FU (ap_price a)), (BEST_BID_SIZE_V2, FU (ap_size a))]"

fun bbo_fields :: "BBO_Appendage_v2 \<Rightarrow> (u32 \<times> fval) list" where
  "bbo_fields NoAppendage = []"
| "bbo_fields (BestOffer a) = offer_fields a"
| "bbo_fields (BestBid a) = bid_fields a"
| "bbo_fields (BestBidOffer b a) = bid_fields b @ offer_fields a"

fun bbo_fits :: "u8 \<Rightarrow> BBO_Appendage_v2 \<Rightarrow> bool" where
  "bbo_fits ind NoAppendage = (ind \<in> set bbo_none)"
| "bbo_fits ind (BestOffer a) = (ind \<in> set bbo_offer)"
| "bbo_fits ind (BestBid a) = (ind \<in> set bbo_bid)"
| "bbo_fits ind (BestBidOffer b a) = (ind = 79)"

fun body_fields :: "OpraMsg_v2 \<Rightarrow> (u32 \<times> fval) list" where
  "body_fields (QuoteSizeBody m) = hdr_fields (k_hdr m) @ series_fields (k_series m) @
     [(PREMIUM_PRICE_DENOMINATOR_CODE_V2, FU (ucast (k_premiumPriceDenomCode m))), (BID_PRICE_V2, FU (k_bidQuote m)),
      (BID_SIZE_V2, FU (k_bidSize m)), (OFFER_PRICE_V2, FU (k_askQuote m)), (OFFER_SIZE_V2, FU (k_askSize m)),
      (SESSION_INDICATOR_V2, FU (ucast (k_sessionIndicator m))), (BBO_INDICATOR_V2, FU (ucast (k_bboIndicator m)))] @ bbo_fields (k_bbo m)"
| "body_fields (OpenIntBody m) = hdr_fields (d_hdr m) @ series_fields (d_series m) @ [(OPEN_INT_VOLUME_V2, FU (d_openIntVolume m))]"
| "body_fields (LastSaleBody m) = hdr_fields (a_hdr m) @ series_fields (a_series m) @
     [(VOLUME_V2, FU (a_volume m)), (PREMIUM_PRICE_DENOMINATOR_CODE_V2, FU (ucast (a_premiumPriceDenomCode m))),
      (PREMIUM_PRICE_V2, FU (a_premium m)), (SESSION_INDICATOR_V2, FU (ucast (a_sessionIndicator m)))]"
| "body_fields (EodBody m) = hdr_fields (f_hdr m) @ series_fields (f_series m) @
     [(VOLUME_V2, FU (f_volume m)), (OPEN_INT_VOLUME_V2, FU (f_openIntVolume m)),
      (PREMIUM_PRICE_DENOMINATOR_CODE_V2, FU (ucast (f_premiumPriceDenomCode m))), (OPEN_PRICE_V2, FU (f_open m)),
      (HIGH_PRICE_V2, FU (f_high m)), (LOW_PRICE_V2, FU (f_low m)), (LAST_PRICE_V2, FU (f_last m)),
      (NET_CHANGE_INDICATOR_V2, FU (ucast (f_netChangeIndicator m))), (NET_CHANGE_V2, FU (f_netChange m)),
      (UNDERLYING_PRICE_DENOM_V2, FU (ucast (f_underlyingPriceDenomCode m))), (UNDERLYING_STOCK_PRICE_V2, FU (f_underlyingStockPrice m)),
      (BID_PRICE_V2, FU (f_bidQuote m)), (OFFER_PRICE_V2, FU (f_askQuote m))]"
| "body_fields (FcoLastSale m) = hdr_fields (fo_hdr m) @
     [(SECURITY_SYMBOL_V2, FS (fo_symbol m)), (EXPIRATION_DATE_V2, FU (digits_u32 (fo_expirationDate m))),
      (STRIKE_PRICE_CODE_V2, FU (ucast (fo_strikePriceCode m))), (VOLUME_V2, FU (fo_volume m)), (PREMIUM_PRICE_V2, FU (fo_premiumPrice m))]"
| "body_fields (FcoQuote m) = hdr_fields (fu_hdr m) @
     [(SECURITY_SYMBOL_V2, FS (fu_symbol m)), (EXPIRATION_DATE_V2, FU (digits_u32 (fu_expirationDate m))),
      (STRIKE_PRICE_CODE_V2, FU (ucast (fu_strikePriceCode m))), (BID_PRICE_V2, FU (fu_bidPrice m)), (OFFER_PRICE_V2, FU (fu_offerPrice m))]"
| "body_fields (FcoEod m) = hdr_fields (ff_hdr m) @
     [(SECURITY_SYMBOL_V2, FS (ff_symbol m)), (EXPIRATION_DATE_V2, FU (digits_u32 (ff_expirationDate m))),
      (STRIKE_PRICE_CODE_V2, FU (ucast (ff_strikePriceCode m))), (VOLUME_V2, FU (ff_volume m)),
      (OPEN_INT_VOLUME_V2, FU (ff_openIntVolume m)), (OPEN_PRICE_V2, FU (ff_open m)),
      (HIGH_PRICE_V2, FU (ff_high m)), (LOW_PRICE_V2, FU (ff_low m)), (LAST_PRICE_V2, FU (ff_last m)),
      (NET_CHANGE_INDICATOR_V2, FU (ucast (ff_netChangeIndicator m))), (NET_CHANGE_V2, FU (ff_netChange m)),
      (UNDERLYING_STOCK_PRICE_V2, FU (ff_underlyingStockPrice m))]"
| "body_fields _ = []"

definition series_ok :: "opra_series \<Rightarrow> bool" where
  "series_ok s \<longleftrightarrow> length (symbol s) = 5 \<and> two_digits (expirationDate s) \<and> two_digits (year s)"

text \<open>Messages that the format can carry; the categories with texts and index groups are not among them.\<close>

fun msg_ok :: "OpraMsg_v2 \<Rightarrow> bool" where
  "msg_ok (QuoteSizeBody m) \<longleftrightarrow> category (k_hdr m) = 107 \<and> series_ok (k_series m) \<and> bbo_fits (k_bboIndicator m) (k_bbo m)"
| "msg_ok (OpenIntBody m) \<longleftrightarrow> category (d_hdr m) = 100 \<and> series_ok (d_series m)"
| "msg_ok (LastSaleBody m) \<longleftrightarrow> category (a_hdr m) = 97 \<and> series_ok (a_series m)"
| "msg_ok (EodBody m) \<longleftrightarrow> category (f_hdr m) = 102 \<and> series_ok (f_series m)"
| "msg_ok (FcoLastSale m) \<longleftrightarrow> category (fo_hdr m) = 79 \<and> length (fo_symbol m) = 3 \<and> two_digits (fo_expirationDate m)"
| "msg_ok (FcoQuote m) \<longleftrightarrow> category (fu_hdr m) = 85 \<and> length (fu_symbol m) = 3 \<and> two_digits (fu_expirationDate m)"
| "msg_ok (FcoEod m) \<longleftrightarrow> category (ff_hdr m) = 70 \<and> length (ff_symbol m) = 3 \<and> two_digits (ff_expirationDate m)"
| "msg_ok _ \<longleftrightarrow> False"

fun msg_category :: "OpraMsg_v2 \<Rightarrow> u8" where
  "msg_category (QuoteSizeBody m) = 107"
| "msg_category (OpenIntBody m) = 100"
| "msg_category (LastSaleBody m) = 97"
| "msg_category (EodBody m) = 102"
| "msg_category (FcoLastSale m) = 79"
| "msg_category (FcoQuote m) = 85"
| "msg_category (FcoEod m) = 70"
| "msg_category (UlValueMsg m) = 89"
| "msg_category (AdminMsg m) = 67"
| "msg_category (CtrlMsg m) = 72"
| "msg_category (DefMsg m) = 0"

text \<open>The categories whose messages are passed on.\<close>

fun passed_on :: "OpraMsg_v2 \<Rightarrow> bool" where
  "passed_on (FcoLastSale m) = False"
| "passed_on (FcoQuote m) = False"
| "passed_on (FcoEod m) = False"
| "passed_on (DefMsg m) = False"
| "passed_on _ = True"

subsection \<open>Rules for reading\<close>

text \<open>
  A computation that returns, with a result as required; and a decoder with the fields \<open>fs\<close> to come, that will
  then remember \<open>e\<close>.
\<close>

definition returns :: "('a \<Rightarrow> bool) \<Rightarrow> 'a option \<Rightarrow> bool" where
  "returns Q r \<longleftrightarrow> (\<exists>x. r = Some x \<and> Q x)"

definition to_come :: "u8 list \<Rightarrow> u8 list \<Rightarrow> cells \<Rightarrow> (u32 \<times> fval) list \<Rightarrow> fast_codec \<Rightarrow> bool" where
  "to_come rest pmap e fs codec \<longleftrightarrow> (\<exists>c. receiving rest pmap c fs codec \<and> after_fields fs c = e)"

lemma returns_Some: "Q x \<Longrightarrow> returns Q (Some x)"
  by (simp add: returns_def)

lemma returns_bind: "returns R r \<Longrightarrow> (\<And>x. R x \<Longrightarrow> returns Q (f x)) \<Longrightarrow> returns Q (r \<bind> f)"
  by (auto simp: returns_def)

lemma read_u32:
  "to_come rest pmap e ((tag, FU x) # fs) codec \<Longrightarrow> opra_u32_tag tag \<Longrightarrow>
    (\<And>codec'. to_come rest pmap e fs codec' \<Longrightarrow> returns Q (f (codec', x))) \<Longrightarrow> returns Q (decode_u32 env codec tag \<bind> f)"
  using receive_u32 [of rest pmap _ tag x fs codec env] by (fastforce simp: to_come_def returns_def after_fields_def)

lemma read_symbol:
  "to_come rest pmap e ((tag, FS v) # fs) codec \<Longrightarrow> opra_str_tag tag \<Longrightarrow> n = length v \<Longrightarrow> 0 < n \<Longrightarrow> n < 1024 \<Longrightarrow>
    (\<And>codec'. to_come rest pmap e fs codec' \<Longrightarrow> returns Q (f (codec', v))) \<Longrightarrow> returns Q (decode_symbol codec tag n \<bind> f)"
  using receive_str [of rest pmap _ tag v fs codec] by (fastforce simp: to_come_def returns_def after_fields_def)

lemmas opra_u32_tags =
  MESSAGE_CATEGORY_V2_def MESSAGE_TYPE_V2_def PARTICIPANT_ID_V2_def RETRANSMISSION_REQUESTER_V2_def MESSAGE_SEQUENCE_NUMBER_V2_def
  TIME_V2_def EXPIRATION_MONTH_V2_def EXPIRATION_DATE_V2_def YEAR_V2_def STRIKE_PRICE_DENOMINATOR_CODE_V2_def EXPLICIT_STRIKE_PRICE_V2_def
  STRIKE_PRICE_CODE_V2_def VOLUME_V2_def OPEN_INT_VOLUME_V2_def PREMIUM_PRICE_DENOMINATOR_CODE_V2_def PREMIUM_PRICE_V2_def
  OPEN_PRICE_V2_def HIGH_PRICE_V2_def LOW_PRICE_V2_def LAST_PRICE_V2_def NET_CHANGE_INDICATOR_V2_def NET_CHANGE_V2_def
  UNDERLYING_PRICE_DENOM_V2_def UNDERLYING_STOCK_PRICE_V2_def BID_PRICE_V2_def BID_SIZE_V2_def OFFER_PRICE_V2_def OFFER_SIZE_V2_def
  SESSION_INDICATOR_V2_def BBO_INDICATOR_V2_def BEST_BID_PARTICIPANT_ID_V2_def BEST_BID_PRICE_DENOMINATOR_CODE_V2_def BEST_BID_PRICE_V2_def
  BEST_BID_SIZE_V2_def BEST_OFFER_PARTICIPANT_ID_V2_def BEST_OFFER_PRICE_DENOMINATOR_CODE_V2_def BEST_OFFER_PRICE_V2_def
  BEST_OFFER_SIZE_V2_def NUMBER_OF_INDICES_IN_GROUP_V2_def NUMBER_OF_FOREIGN_CURRENCY_SPOT_VALUES_IN_GROUP_V2_def
  DECIMAL_PLACEMENT_INDICATOR_V2_def FOREIGN_CURRENCY_SPOT_VALUE_V2_def

lemmas opra_str_tags = SECURITY_SYMBOL_V2_def INDEX_SYMBOL_V2_def INDEX_VALUE_V2_def BID_INDEX_VALUE_V2_def OFFER_INDEX_VALUE_V2_def
  FCO_SYMBOL_V2_def TEXT_V2_def DEF_MSG_V2_def

lemma opra_u32_tags_ok [simp]:
  "opra_u32_tag MESSAGE_CATEGORY_V2" "opra_u32_tag MESSAGE_TYPE_V2" "opra_u32_tag PARTICIPANT_ID_V2"
  "opra_u32_tag RETRANSMISSION_REQUESTER_V2" "opra_u32_tag MESSAGE_SEQUENCE_NUMBER_V2" "opra_u32_tag TIME_V2"
  "opra_u32_tag EXPIRATION_MONTH_V2" "opra_u32_tag EXPIRATION_DATE_V2" "opra_u32_tag YEAR_V2"
  "opra_u32_tag STRIKE_PRICE_DENOMINATOR_CODE_V2" "opra_u32_tag EXPLICIT_STRIKE_PRICE_V2"
  "opra_u32_tag STRIKE_PRICE_CODE_V2" "opra_u32_tag VOLUME_V2" "opra_u32_tag OPEN_INT_VOLUME_V2"
  "opra_u32_tag PREMIUM_PRICE_DENOMINATOR_CODE_V2" "opra_u32_tag PREMIUM_PRICE_V2" "opra_u32_tag OPEN_PRICE_V2"
  "opra_u32_tag HIGH_PRICE_V2" "opra_u32_tag LOW_PRICE_V2" "opra_u32_tag LAST_PRICE_V2"
  "opra_u32_tag NET_CHANGE_INDICATOR_V2" "opra_u32_tag NET_CHANGE_V2" "opra_u32_tag UNDERLYING_PRICE_DENOM_V2"
  "opra_u32_tag UNDERLYING_STOCK_PRICE_V2" "opra_u32_tag BID_PRICE_V2" "opra_u32_tag BID_SIZE_V2"
  "opra_u32_tag OFFER_PRICE_V2" "opra_u32_tag OFFER_SIZE_V2" "opra_u32_tag SESSION_INDICATOR_V2"
  "opra_u32_tag BBO_INDICATOR_V2" "opra_u32_tag BEST_BID_PARTICIPANT_ID_V2"
  "opra_u32_tag BEST_BID_PRICE_DENOMINATOR_CODE_V2" "opra_u32_tag BEST_BID_PRICE_V2" "opra_u32_tag BEST_BID_SIZE_V2"
  "opra_u32_tag BEST_OFFER_PARTICIPANT_ID_V2" "opra_u32_tag BEST_OFFER_PRICE_DENOMINATOR_CODE_V2"
  "opra_u32_tag BEST_OFFER_PRICE_V2" "opra_u32_tag BEST_OFFER_SIZE_V2" "opra_u32_tag NUMBER_OF_INDICES_IN_GROUP_V2"
  "opra_u32_tag NUMBER_OF_FOREIGN_CURRENCY_SPOT_VALUES_IN_GROUP_V2" "opra_u32_tag DECIMAL_PLACEMENT_INDICATOR_V2"
  "opra_u32_tag FOREIGN_CURRENCY_SPOT_VALUE_V2"
  by (simp_all add: opra_u32_tags MAKE_TAG_def opra_u32_tag_def u32_tag_ok_def tag_parts FAST_TYPE_U32_def FAST_OP_NONE_def
      FAST_OP_COPY_def FAST_OP_INCR_def FAST_OP_DELTA_def OPRA_BASE_TID_def)

lemma opra_str_tags_ok [simp]:
  "opra_str_tag SECURITY_SYMBOL_V2" "opra_str_tag INDEX_SYMBOL_V2" "opra_str_tag INDEX_VALUE_V2"
  "opra_str_tag BID_INDEX_VALUE_V2" "opra_str_tag OFFER_INDEX_VALUE_V2" "opra_str_tag FCO_SYMBOL_V2" "opra_str_tag TEXT_V2"
  "opra_str_tag DEF_MSG_V2"
  by (simp_all add: opra_str_tags MAKE_TAG_def opra_str_tag_def tag_parts FAST_TYPE_STR_def FAST_OP_COPY_def OPRA_BASE_TID_def)

lemma ucast_u8 [simp]: "(ucast (ucast (x :: u8) :: u32) :: u8) = x"
  by transfer (simp add: take_bit_take_bit)

lemma last_digit:
  assumes "v < 2 ^ 32"
  shows "(ucast (0x30 + of_nat v - of_nat (v div 10) * 10 :: u32) :: u8) = of_nat (48 + v mod 10)"
    "(of_nat v div 10 :: u32) = of_nat (v div 10)"
proof -
  show d: "(of_nat v div 10 :: u32) = of_nat (v div 10)"
    using assms by (simp add: word_unat_eq_iff unat_div unat_of_nat)
  have "v = v mod 10 + v div 10 * 10" by simp
  then have "(of_nat v :: u32) = of_nat (v mod 10) + of_nat (v div 10) * 10" by (metis of_nat_add of_nat_mult of_nat_numeral)
  then have "(0x30 + of_nat v - of_nat (v div 10) * 10 :: u32) = of_nat (48 + v mod 10)" by simp
  moreover have "(ucast (of_nat k :: u32) :: u8) = of_nat k" for k
    by (simp only: word_unat_eq_iff unsigned_ucast_eq unat_of_nat take_bit_eq_mod) (simp add: mod_mod_cancel)
  ultimately show "(ucast (0x30 + of_nat v - of_nat (v div 10) * 10 :: u32) :: u8) = of_nat (48 + v mod 10)" by metis
qed

lemma two_digits_ascii:
  assumes "two_digits ds"
  shows "u32_to_ascii 2 (digits_u32 ds) = ds"
proof -
  obtain a b where ds: "ds = [a, b]" using assms by (auto simp: two_digits_def length_Suc_conv numeral_2_eq_2)
  have r: "48 \<le> unat a" "unat a \<le> 57" "48 \<le> unat b" "unat b \<le> 57"
    using assms ds by (simp_all add: two_digits_def word_le_nat_alt)
  define v where "v = 10 * (unat a - 48) + (unat b - 48)"
  have "(ucast x - 0x30 :: u32) = of_nat (unat x - 48)" if "48 \<le> unat x" for x :: u8
    using that unat_lt [of x] by (simp add: of_nat_diff)
  then have "digits_u32 ds = of_nat v" using r by (simp add: digits_u32_def ds v_def)
  moreover have "v < 100" "v div 10 = unat a - 48" "v mod 10 = unat b - 48"
  proof -
    obtain i j where ij: "unat a = 48 + i" "unat b = 48 + j" using r(1,3) nat_le_iff_add by metis
    then show "v < 100" "v div 10 = unat a - 48" "v mod 10 = unat b - 48" using r by (simp_all add: v_def)
  qed
  moreover have "u32_to_ascii 2 (of_nat v) = [of_nat (48 + v div 10 mod 10), of_nat (48 + v mod 10)]"
  proof -
    have "v < 2 ^ 32" "v div 10 < 2 ^ 32" using \<open>v < 100\<close> by simp_all
    note d = last_digit [OF this(1)] last_digit [OF this(2)]
    show ?thesis unfolding numeral_2_eq_2 u32_to_ascii.simps Let_def d(2,4) by (simp add: d(1,3) del: of_nat_add)
  qed
  moreover have "(of_nat (48 + (unat x - 48)) :: u8) = x" if "48 \<le> unat x" for x :: u8 using that by simp
  ultimately show ?thesis using r ds by simp
qed

subsection \<open>The decoders\<close>

lemma read_hdr:
  assumes "to_come rest pmap e (hdr_fields h @ fs) codec" and "category h = cat"
    and k: "\<And>codec'. to_come rest pmap e fs codec' \<Longrightarrow> returns Q (f (codec', h))"
  shows "returns Q (msg_decode_hdr_v2 env cat codec \<bind> f)"
proof -
  have h: "\<lparr>participantId = participantId h, retran = retran h, category = cat, msg_type = msg_type h, seqNumber = seqNumber h,
    msg_time = msg_time h\<rparr> = h" using assms(2) by simp
  show ?thesis using assms(1)
    by (simp add: hdr_fields_def msg_decode_hdr_v2_def Option.bind_assoc prod.case_eq_if)
       ((erule read_u32, simp, simp)+, simp add: h k)
qed

lemma read_series:
  assumes "to_come rest pmap e (series_fields s @ fs) codec" and ok: "series_ok s"
    and k: "\<And>codec'. to_come rest pmap e fs codec' \<Longrightarrow> returns Q (f (codec', s))"
  shows "returns Q (decode_series env codec \<bind> f)"
proof -
  have s: "\<lparr>symbol = symbol s, expirationMonth = expirationMonth s, expirationDate = expirationDate s, year = year s,
    strikePriceDenomCode = strikePriceDenomCode s, explicitStrike = explicitStrike s, strikePriceCode = strikePriceCode s\<rparr> = s" by simp
  have d: "length (symbol s) = 5" "u32_to_ascii 2 (digits_u32 (expirationDate s)) = expirationDate s"
    "u32_to_ascii 2 (digits_u32 (year s)) = year s" using ok two_digits_ascii by (simp_all add: series_ok_def)
  show ?thesis using assms(1)
    by (simp add: series_fields_def decode_series_def Option.bind_assoc prod.case_eq_if)
       (erule read_symbol, (simp add: d(1))+, (erule read_u32, simp, simp add: d(2,3))+, simp add: s k)
qed

lemma read_appendages:
  assumes k: "\<And>codec'. to_come rest pmap e fs codec' \<Longrightarrow> returns Q (f (codec', a))"
  shows "to_come rest pmap e (offer_fields a @ fs) codec \<Longrightarrow> returns Q (decode_best_offer env codec \<bind> f)"
    "to_come rest pmap e (bid_fields a @ fs) codec \<Longrightarrow> returns Q (decode_best_bid env codec \<bind> f)"
proof -
  have a: "\<lparr>partId = partId a, denominator = denominator a, ap_price = ap_price a, ap_size = ap_size a\<rparr> = a" by simp
  show "to_come rest pmap e (offer_fields a @ fs) codec \<Longrightarrow> returns Q (decode_best_offer env codec \<bind> f)"
    by (simp add: offer_fields_def decode_best_offer_def decode_appendage_def Option.bind_assoc prod.case_eq_if)
       ((erule read_u32, simp, simp)+, simp add: a k)
  show "to_come rest pmap e (bid_fields a @ fs) codec \<Longrightarrow> returns Q (decode_best_bid env codec \<bind> f)"
    by (simp add: bid_fields_def decode_best_bid_def decode_appendage_def Option.bind_assoc prod.case_eq_if)
       ((erule read_u32, simp, simp)+, simp add: a k)
qed

lemma read_bbo:
  assumes "to_come rest pmap e (bbo_fields bbo @ fs) codec" and fit: "bbo_fits ind bbo"
    and k: "\<And>codec' n. to_come rest pmap e fs codec' \<Longrightarrow> returns Q (f (codec', Some (n, bbo)))"
  shows "returns Q (decode_bbo env ind codec \<bind> f)"
proof (cases bbo)
  case NoAppendage
  then show ?thesis using assms by (simp add: decode_bbo_def)
next
  case (BestOffer a)
  then have "ind \<notin> set bbo_none" "ind \<in> set bbo_offer" using fit by (auto simp: bbo_none_def bbo_offer_def)
  then show ?thesis using assms(1) BestOffer
    by (simp add: decode_bbo_def Option.bind_assoc prod.case_eq_if) (erule read_appendages [rotated], simp add: k [unfolded BestOffer])
next
  case (BestBid a)
  then have "ind \<notin> set bbo_none" "ind \<notin> set bbo_offer" "ind \<in> set bbo_bid"
    using fit by (auto simp: bbo_none_def bbo_offer_def bbo_bid_def)
  then show ?thesis using assms(1) BestBid
    by (simp add: decode_bbo_def Option.bind_assoc prod.case_eq_if) (erule read_appendages [rotated], simp add: k [unfolded BestBid])
next
  case (BestBidOffer b a)
  then have "ind \<notin> set bbo_none" "ind \<notin> set bbo_offer" "ind \<notin> set bbo_bid" "ind = 79"
    using fit by (auto simp: bbo_none_def bbo_offer_def bbo_bid_def)
  then show ?thesis using assms(1) BestBidOffer
    by (simp add: decode_bbo_def Option.bind_assoc prod.case_eq_if)
       (erule read_appendages [rotated], simp, erule read_appendages [rotated], simp add: k [unfolded BestBidOffer])
qed

text \<open>Every decoder returns the message whose fields are to come.\<close>

abbreviation (input) decoded :: "u8 list \<Rightarrow> u8 list \<Rightarrow> cells \<Rightarrow> (u32 \<times> fval) list \<Rightarrow> OpraMsg_v2 \<Rightarrow> decoded_msg \<Rightarrow> bool" where
  "decoded rest pmap e fs m \<equiv> returns (\<lambda>(codec', len, m', p). m' = m \<and> p = passed_on m \<and> to_come rest pmap e fs codec')"

lemma quote_decoded:
  assumes "to_come rest pmap e (body_fields (QuoteSizeBody m) @ fs) codec" and "msg_ok (QuoteSizeBody m)"
  shows "decoded rest pmap e fs (QuoteSizeBody m) (decode_OpraFastQuoteSizeMsg_v2 env codec)"
  using assms
  by (simp add: decode_OpraFastQuoteSizeMsg_v2_def prod.case_eq_if)
     (elim conjE, erule read_hdr, assumption, simp, erule read_series, assumption, simp,
      (erule read_u32, simp, simp)+, erule read_bbo, simp, simp add: returns_Some)

lemma open_int_decoded:
  assumes "to_come rest pmap e (body_fields (OpenIntBody m) @ fs) codec" and "msg_ok (OpenIntBody m)"
  shows "decoded rest pmap e fs (OpenIntBody m) (decode_OpraFastOpenIntMsg_v2 env codec)"
  using assms
  by (simp add: decode_OpraFastOpenIntMsg_v2_def prod.case_eq_if)
     (elim conjE, erule read_hdr, assumption, simp, erule read_series, assumption, simp,
      (erule read_u32, simp, simp)+, simp add: returns_Some)

lemma last_sale_decoded:
  assumes "to_come rest pmap e (body_fields (LastSaleBody m) @ fs) codec" and "msg_ok (LastSaleBody m)"
  shows "decoded rest pmap e fs (LastSaleBody m) (decode_OpraFastLastSaleMsg_v2 env codec)"
  using assms
  by (simp add: decode_OpraFastLastSaleMsg_v2_def prod.case_eq_if)
     (elim conjE, erule read_hdr, assumption, simp, erule read_series, assumption, simp,
      (erule read_u32, simp, simp)+, simp add: returns_Some)

lemma eod_decoded:
  assumes "to_come rest pmap e (body_fields (EodBody m) @ fs) codec" and "msg_ok (EodBody m)"
  shows "decoded rest pmap e fs (EodBody m) (decode_OpraFastEodMsg_v2 env codec)"
  using assms
  by (simp add: decode_OpraFastEodMsg_v2_def prod.case_eq_if)
     (elim conjE, erule read_hdr, assumption, simp, erule read_series, assumption, simp,
      (erule read_u32, simp, simp)+, simp add: returns_Some)

lemma fco_last_sale_decoded:
  assumes "to_come rest pmap e (body_fields (FcoLastSale m) @ fs) codec" and "msg_ok (FcoLastSale m)"
  shows "decoded rest pmap e fs (FcoLastSale m) (decode_OpraFastFcoLastSaleMsg_v2 env codec)"
  using assms
  by (simp add: decode_OpraFastFcoLastSaleMsg_v2_def prod.case_eq_if)
     (elim conjE, erule read_hdr, assumption, simp, erule read_symbol, simp, simp, simp, simp, simp,
      (erule read_u32, simp, simp add: two_digits_ascii)+, simp add: returns_Some)

lemma fco_quote_decoded:
  assumes "to_come rest pmap e (body_fields (FcoQuote m) @ fs) codec" and "msg_ok (FcoQuote m)"
  shows "decoded rest pmap e fs (FcoQuote m) (decode_OpraFastFcoQuoteMsg_v2 env codec)"
  using assms
  by (simp add: decode_OpraFastFcoQuoteMsg_v2_def prod.case_eq_if)
     (elim conjE, erule read_hdr, assumption, simp, erule read_symbol, simp, simp, simp, simp, simp,
      (erule read_u32, simp, simp add: two_digits_ascii)+, simp add: returns_Some)

lemma fco_eod_decoded:
  assumes "to_come rest pmap e (body_fields (FcoEod m) @ fs) codec" and "msg_ok (FcoEod m)"
  shows "decoded rest pmap e fs (FcoEod m) (decode_OpraFastFcoEodMsg_v2 env codec)"
  using assms
  by (simp add: decode_OpraFastFcoEodMsg_v2_def prod.case_eq_if)
     (elim conjE, erule read_hdr, assumption, simp, erule read_symbol, simp, simp, simp, simp, simp,
      (erule read_u32, simp, simp add: two_digits_ascii)+, simp add: returns_Some)

lemmas category_decoded = quote_decoded open_int_decoded last_sale_decoded eod_decoded fco_last_sale_decoded fco_quote_decoded fco_eod_decoded

lemma message_decoded:
  assumes "to_come rest pmap e (body_fields m @ fs) codec" and "msg_ok m"
  shows "decoded rest pmap e fs m (FastOpraDecoder env (msg_category m) codec)"
  using assms by (cases m) (simp_all add: FastOpraDecoder_def category_decoded del: body_fields.simps msg_ok.simps(1-7) passed_on.simps)

subsection \<open>Messages with their presence map\<close>

definition msg_fields :: "OpraMsg_v2 \<Rightarrow> (u32 \<times> fval) list" where
  "msg_fields m = (MESSAGE_CATEGORY_V2, FU (ucast (msg_category m))) # body_fields m"

text \<open>The bytes of a message: the presence map, up to a byte with the stop bit, and the fields that are present.\<close>

definition message_sent :: "cells \<Rightarrow> OpraMsg_v2 \<Rightarrow> u8 list \<Rightarrow> bool" where
  "message_sent c m bs \<longleftrightarrow> msg_ok m \<and> (\<exists>k\<in>{1..8}. k \<le> length bs \<and>
     (let pmap = map (\<lambda>b. b AND 0x7f) (take k bs) in take k bs = stop pmap \<and> fields_sent pmap c (msg_fields m) (drop k bs)))"

lemma low7_small: "(b AND 0x7f :: u8) < 0x80"
  by (simp add: word_less_nat_alt order.strict_trans1 [OF unat_and_le])

lemma unpack7_bits: "length pmap \<le> 8 \<Longrightarrow> i < 7 * length pmap \<Longrightarrow> concat (map unpack7 pmap) ! i \<in> {0, 1}"
proof -
  assume "i < 7 * length pmap"
  moreover have "length (concat (map unpack7 pmap)) = 7 * length pmap" by (induction pmap) (simp_all add: unpack7_def)
  ultimately have "concat (map unpack7 pmap) ! i \<in> set (concat (map unpack7 pmap))" by (metis nth_mem)
  then show ?thesis by (auto simp: unpack7_def split: if_splits)
qed

lemma new_msg_received:
  assumes ok: "opra_codec_ok codec" "remembers codec c" and pm: "pmap \<noteq> []" "length pmap \<le> 8" "\<forall>b\<in>set pmap. b < 0x80"
    and fs: "fields_sent pmap c fs body" and n: "int (length pmap + length body) \<le> n"
  shows "\<exists>codec' rc. decode_new_msg (setBuffer codec (stop pmap @ body @ rest) n) = Some (codec', rc) \<and> 0 \<le> rc \<and>
    receiving rest pmap c fs codec'"
proof -
  let ?buf = "setBuffer codec (stop pmap @ body @ rest) n"
  let ?codec = "?buf\<lparr>fc_input := body @ rest, fc_input_left := n - int (length pmap),
      fc_pmap := (fc_pmap codec)\<lparr>pm_bits := concat (map unpack7 pmap) @ drop (7 * length pmap) (pm_bits (fc_pmap codec)),
        pm_size := word_of_int (7 * int (length pmap))\<rparr>\<rparr>"
  have l: "length (concat (map unpack7 pmap)) = 7 * length pmap" by (induction pmap) (simp_all add: unpack7_def)
  have d: "decode_new_msg ?buf = Some (?codec, int (length pmap))"
    using parse_pmap_stop [OF pm(1,3,2), of ?buf "body @ rest" True] ok(1) n
    by (simp add: decode_new_msg_def fast_decode_new_msg_def check_codec_def setBuffer_def fast_set_input_buffer_def opra_codec_ok_def)
  have b: "opra_codec_ok ?codec" "remembers ?codec c"
    using ok pm(2) l by (simp_all add: opra_codec_ok_def codec_ok_def remembers_def setBuffer_def fast_set_input_buffer_def
        cong: option.case_cong fval.case_cong)
  have s: "unat (word_of_int (7 * int (length pmap)) :: u32) = 7 * length pmap"
  proof -
    have "(word_of_int (7 * int (length pmap)) :: u32) = word_of_nat (7 * length pmap)" by simp
    then show ?thesis using pm(2) by (simp only: unat_of_nat) simp
  qed
  have "get_pmap ?codec tag = Some (if present pmap tag then 1 else 0)" if "slot tag < 56" for tag
    using s l unpack7_bits [OF pm(2), of "slot tag"] ok(1) that
    by (auto simp: get_pmap_def Let_def present_def word_le_nat_alt array_get_def nth_append opra_codec_ok_def)
  then have "receiving rest pmap c fs ?codec"
    unfolding receiving_def using b fs n by (auto intro!: exI [of _ body])
  then show ?thesis using d by auto
qed

lemma message_opened:
  assumes ok: "opra_codec_ok codec" "remembers codec c" and m: "message_sent c m bs" and n: "int (length bs) \<le> n"
  shows "\<exists>codec' rc pmap. decode_new_msg (setBuffer codec (bs @ rest) n) = Some (codec', rc) \<and> 0 \<le> rc \<and>
    to_come rest pmap (after_fields (msg_fields m) c) (msg_fields m) codec'"
proof -
  obtain k where k: "1 \<le> k" "k \<le> 8" "k \<le> length bs"
    and pm: "take k bs = stop (map (\<lambda>b. b AND 0x7f) (take k bs))"
    and fs: "fields_sent (map (\<lambda>b. b AND 0x7f) (take k bs)) c (msg_fields m) (drop k bs)"
    using m by (auto simp: message_sent_def Let_def)
  define pmap where "pmap = map (\<lambda>b. b AND 0x7f) (take k bs)"
  have p: "pmap \<noteq> []" "length pmap \<le> 8" "\<forall>b\<in>set pmap. b < 0x80" "length pmap = k" using k low7_small by (auto simp: pmap_def)
  have bs: "bs @ rest = stop pmap @ drop k bs @ rest" using pm by (metis append.assoc append_take_drop_id pmap_def)
  obtain codec' rc where "decode_new_msg (setBuffer codec (bs @ rest) n) = Some (codec', rc)" "0 \<le> rc"
    "receiving rest pmap c (msg_fields m) codec'"
    using new_msg_received [OF ok p(1-3) fs [folded pmap_def], of n rest] n k p(4) unfolding bs by auto
  then show ?thesis by (auto simp: to_come_def)
qed

lemma to_come_ok: "to_come rest pmap e fs codec \<Longrightarrow> opra_codec_ok codec"
  by (auto simp: to_come_def receiving_def)

text \<open>One turn of the loop.\<close>

lemma message_received:
  assumes ok: "opra_codec_ok codec" "remembers codec c" and m: "message_sent c m bs" and n: "int (length bs) \<le> n"
  shows "\<exists>codec1 rc codec2 codec3 len. decode_new_msg (setBuffer codec (bs @ rest) n) = Some (codec1, rc) \<and> 0 \<le> rc \<and>
    decode_u32 env codec1 MESSAGE_CATEGORY_V2 = Some (codec2, ucast (msg_category m)) \<and>
    FastOpraDecoder env (msg_category m) codec2 = Some (codec3, len, m, passed_on m) \<and>
    opra_codec_ok codec3 \<and> remembers codec3 (after_fields (msg_fields m) c)"
proof -
  let ?e = "after_fields (msg_fields m) c"
  have mo: "msg_ok m" using m by (simp add: message_sent_def)
  obtain codec1 rc pmap where c1: "decode_new_msg (setBuffer codec (bs @ rest) n) = Some (codec1, rc)" "0 \<le> rc"
    "to_come rest pmap ?e (msg_fields m) codec1" using message_opened [OF assms] by blast
  then obtain codec2 where c2: "decode_u32 env codec1 MESSAGE_CATEGORY_V2 = Some (codec2, ucast (msg_category m))"
    "to_come rest pmap ?e (body_fields m) codec2"
    using read_u32 [of rest pmap ?e MESSAGE_CATEGORY_V2 "ucast (msg_category m)" "body_fields m" codec1
        "\<lambda>(codec2, x). x = ucast (msg_category m) \<and> to_come rest pmap ?e (body_fields m) codec2" Some env]
    by (auto simp: msg_fields_def returns_def)
  then obtain codec3 len where c3: "FastOpraDecoder env (msg_category m) codec2 = Some (codec3, len, m, passed_on m)"
    "to_come rest pmap ?e [] codec3"
    using message_decoded [of rest pmap ?e m "[]" codec2 env] mo by (auto simp: returns_def)
  then have "opra_codec_ok codec3" "remembers codec3 ?e" by (auto simp: to_come_def receiving_def after_fields_def)
  then show ?thesis using c1 c2(1) c3(1) by blast
qed

subsection \<open>Packets\<close>

text \<open>
  The messages of a packet, each behind a byte with its size.  The size of the last one may be given as 255; the loop then
  takes the message for 255 bytes long, so it must not be longer.
\<close>

fun messages_sent :: "cells \<Rightarrow> OpraMsg_v2 list \<Rightarrow> u8 list \<Rightarrow> bool" where
  "messages_sent c [] bs \<longleftrightarrow> bs = []"
| "messages_sent c (m # ms) bs \<longleftrightarrow> bs \<noteq> [] \<and>
    (let n = unat (hd bs) in n < 255 \<and> n < length bs \<and> message_sent c m (take n (tl bs)) \<and>
       messages_sent (after_fields (msg_fields m) c) ms (drop n (tl bs)) \<or>
     n = 255 \<and> ms = [] \<and> length (tl bs) \<le> 255 \<and> message_sent c m (tl bs))"

definition after_messages :: "OpraMsg_v2 list \<Rightarrow> cells \<Rightarrow> cells" where
  "after_messages ms c = fold (\<lambda>m. after_fields (msg_fields m)) ms c"

lemma end_msg_optimised: "decode_end_msg codec = (codec, 0)"
  by (simp add: decode_end_msg_def fast_decode_end_msg_def check_codec_def)

lemma loop_turn:
  assumes ok: "opra_codec_ok codec" "remembers codec c" and m: "message_sent c m bs"
    and p: "drop (pos + offset) packet = sz # bs @ rest" and r: "read_len > 1" "int (length bs) \<le> rec_len"
    and sz: "unat sz = 255 \<or> unat sz = length bs"
  shows "\<exists>codec'. opra_codec_ok codec' \<and> remembers codec' (after_fields (msg_fields m) c) \<and>
    opra_decode_loop env packet rec_len pos offset read_len codec = do {
      (codec, n, msgs) \<leftarrow> opra_decode_loop env packet rec_len (pos + offset + 1 + unat sz) 0 (read_len - int offset - 1 - uint sz) codec';
      Some (codec, n + 1, (if passed_on m then [m] else []) @ msgs) }"
proof -
  let ?n = "if sz = 0xff then rec_len else uint sz"
  have n: "int (length bs) \<le> ?n"
  proof (cases "sz = 0xff")
    case False
    then have "unat sz \<noteq> 255" by (simp add: word_unat_eq_iff)
    then show ?thesis using sz False by (simp add: uint_nat)
  qed (simp add: r(2))
  have l: "pos + offset < length packet" "packet ! (pos + offset) = sz" "drop (pos + offset + 1) packet = bs @ rest"
    using p by (auto simp: drop_Suc nth_via_drop tl_drop [symmetric] intro: ccontr)
  obtain codec1 rc codec2 codec3 len where t: "decode_new_msg (setBuffer codec (bs @ rest) ?n) = Some (codec1, rc)" "0 \<le> rc"
    "decode_u32 env codec1 MESSAGE_CATEGORY_V2 = Some (codec2, ucast (msg_category m))"
    "FastOpraDecoder env (msg_category m) codec2 = Some (codec3, len, m, passed_on m)"
    "opra_codec_ok codec3" "remembers codec3 (after_fields (msg_fields m) c)"
    using message_received [OF ok m n, of rest env] by blast
  have "opra_decode_loop env packet rec_len pos offset read_len codec = do {
      (codec, n, msgs) \<leftarrow> opra_decode_loop env packet rec_len (pos + offset + 1 + unat sz) 0 (read_len - int offset - 1 - uint sz) codec3;
      Some (codec, n + 1, (if passed_on m then [m] else []) @ msgs) }"
    using r(1) l t(1-4) by (subst opra_decode_loop.simps) (simp add: array_get_def Let_def end_msg_optimised)
  then show ?thesis using t(5,6) by blast
qed

lemma loop_done: "read_len \<le> 1 \<Longrightarrow> opra_decode_loop env packet rec_len pos offset read_len codec = Some (codec, 0, [])"
  by (subst opra_decode_loop.simps) simp

lemma loop_decodes:
  assumes "messages_sent c ms bs" and "opra_codec_ok codec" and "remembers codec c" and "drop (pos + offset) packet = bs @ rest"
    and "read_len = int (length bs) + 1 + int offset" and "int (length bs) \<le> rec_len" and "ms \<noteq> [] \<or> offset = 0"
  shows "\<exists>codec'. opra_decode_loop env packet rec_len pos offset read_len codec = Some (codec', length ms, filter passed_on ms) \<and>
    opra_codec_ok codec' \<and> remembers codec' (after_messages ms c)"
  using assms
proof (induction ms arbitrary: c bs codec pos offset read_len)
  case Nil
  then show ?case by (simp add: loop_done after_messages_def)
next
  case (Cons m ms)
  obtain sz bs' where bs: "bs = sz # bs'" using Cons.prems(1) by (cases bs) auto
  have r: "read_len > 1" using Cons.prems(5) bs by simp
  consider (sized) "unat sz < 255" "unat sz \<le> length bs'" "message_sent c m (take (unat sz) bs')"
      "messages_sent (after_fields (msg_fields m) c) ms (drop (unat sz) bs')"
    | (last) "unat sz = 255" "ms = []" "length bs' \<le> 255" "message_sent c m bs'"
    using Cons.prems(1) unfolding bs messages_sent.simps Let_def list.sel by (elim conjE disjE) (simp_all add: less_Suc_eq_le)
  then show ?case
  proof cases
    case sized
    let ?b1 = "take (unat sz) bs'" and ?b2 = "drop (unat sz) bs'"
    have p: "drop (pos + offset) packet = sz # ?b1 @ (?b2 @ rest)" using Cons.prems(4) bs by simp
    have "length ?b1 \<le> length bs" using bs by simp
    then have s: "int (length ?b1) \<le> rec_len" "unat sz = 255 \<or> unat sz = length ?b1" using Cons.prems(6) sized(2) by (linarith, simp)
    obtain codec1 where t: "opra_codec_ok codec1" "remembers codec1 (after_fields (msg_fields m) c)"
      "opra_decode_loop env packet rec_len pos offset read_len codec = do {
        (codec, n, msgs) \<leftarrow> opra_decode_loop env packet rec_len (pos + offset + 1 + unat sz) 0 (read_len - int offset - 1 - uint sz) codec1;
        Some (codec, n + 1, (if passed_on m then [m] else []) @ msgs) }"
      using loop_turn [OF Cons.prems(2,3) sized(3) p r s] by blast
    have dr: "drop (pos + offset + 1 + unat sz + 0) packet = ?b2 @ rest"
    proof -
      have "drop (pos + offset + 1 + unat sz) packet = drop (1 + unat sz) (drop (pos + offset) packet)"
        by (simp only: drop_drop) (simp only: ac_simps)
      also have "\<dots> = ?b2 @ rest" unfolding p using sized(2) by simp
      finally show ?thesis by simp
    qed
    have rl: "read_len - int offset - 1 - uint sz = int (length ?b2) + 1 + int 0"
      unfolding Cons.prems(5) bs uint_nat using sized(2) by (simp only: length_drop length_Cons of_nat_diff of_nat_Suc of_nat_0)
    have rc: "int (length ?b2) \<le> rec_len" using Cons.prems(6) bs by simp
    obtain codec2 where
      "opra_decode_loop env packet rec_len (pos + offset + 1 + unat sz) 0 (read_len - int offset - 1 - uint sz) codec1 =
        Some (codec2, length ms, filter passed_on ms)"
      "opra_codec_ok codec2" "remembers codec2 (after_messages ms (after_fields (msg_fields m) c))"
      using Cons.IH [OF sized(4) t(1,2) dr rl rc disjI2 [OF refl]] by blast
    then show ?thesis unfolding t(3) by (simp add: after_messages_def)
  next
    case last
    have p: "drop (pos + offset) packet = sz # bs' @ rest" using Cons.prems(4) bs by simp
    have s: "int (length bs') \<le> rec_len" using Cons.prems(6) bs by simp
    obtain codec1 where t: "opra_codec_ok codec1" "remembers codec1 (after_fields (msg_fields m) c)"
      "opra_decode_loop env packet rec_len pos offset read_len codec = do {
        (codec, n, msgs) \<leftarrow> opra_decode_loop env packet rec_len (pos + offset + 1 + unat sz) 0 (read_len - int offset - 1 - uint sz) codec1;
        Some (codec, n + 1, (if passed_on m then [m] else []) @ msgs) }"
      using loop_turn [OF Cons.prems(2,3) last(4) p r s disjI1 [OF last(1)]] by blast
    have "read_len - int offset - 1 - uint sz \<le> 1" unfolding Cons.prems(5) bs uint_nat last(1) using last(3) by simp
    from loop_done [OF this] show ?thesis unfolding t(3) using t(1,2) last(2) by (simp add: after_messages_def)
  qed
qed


subsection \<open>Two ways to send a message\<close>

text \<open>Every message can be sent with all of its fields present, and one that only counts on can be sent with none.\<close>

fun field_bytes :: "u32 \<times> fval \<Rightarrow> u8 list" where
  "field_bytes (tag, FU x) = u32_bytes (u32_to_size x) x"
| "field_bytes (tag, FS s) = stop s"

fun field_fits :: "u32 \<times> fval \<Rightarrow> bool" where
  "field_fits (tag, FU x) \<longleftrightarrow> slot tag < 56"
| "field_fits (tag, FS s) \<longleftrightarrow> slot tag < 56 \<and> s \<noteq> [] \<and> (\<forall>b\<in>set s. b < 0x80)"

definition full_message :: "OpraMsg_v2 \<Rightarrow> u8 list" where
  "full_message m = stop (replicate 8 0x7f) @ concat (map field_bytes (msg_fields m))"

lemmas numeral_replicate = replicate_Suc [where n = "pred_numeral k" for k, folded numeral_eq_Suc]

lemma full_pmap: "present (replicate 8 0x7f) tag \<longleftrightarrow> slot tag < 56"
proof -
  have "unpack7 0x7f = replicate 7 1" by (simp add: unpack7_def bit_mask_def upt_rec numeral_replicate)
  then have "concat (map unpack7 (replicate 8 0x7f)) = replicate 56 1" by (simp add: numeral_replicate)
  then show ?thesis by (auto simp: present_def)
qed

lemma empty_pmap: "\<not> present [0] tag"
proof -
  have "unpack7 0 = replicate 7 0" by (simp add: unpack7_def upt_rec numeral_replicate)
  then show ?thesis by (simp add: present_def)
qed

lemma fields_sent_Cons:
  "field_sent pmap c f b1 \<Longrightarrow> fields_sent pmap (c(slot (fst f) \<mapsto> snd f)) fs b2 \<Longrightarrow> fields_sent pmap c (f # fs) (b1 @ b2)"
  by (auto intro!: bexI [of _ "length b1"])

lemma fields_sent_full: "\<forall>f\<in>set fs. field_fits f \<Longrightarrow> fields_sent (replicate 8 0x7f) c fs (concat (map field_bytes fs))"
proof (induction fs arbitrary: c)
  case (Cons f fs)
  have "field_sent (replicate 8 0x7f) c f (field_bytes f)"
    using Cons.prems by (cases f rule: field_bytes.cases) (auto simp: full_pmap Suc_le_eq intro!: bexI [where x = "length (_ :: u8 list)"])
  then show ?case using fields_sent_Cons [OF _ Cons.IH] Cons.prems by simp
qed simp

lemma full_message_sent:
  assumes "msg_ok m" and "\<forall>f\<in>set (msg_fields m). field_fits f"
  shows "message_sent c m (full_message m)"
proof -
  have "map (\<lambda>b. b AND 0x7f) (stop (replicate 8 0x7f)) = replicate 8 0x7f" by (simp add: eval_nat_numeral)
  then show ?thesis
    using assms fields_sent_full [OF assms(2), of c]
    by (auto simp: message_sent_def full_message_def Let_def intro!: bexI [of _ 8])
qed

lemma fields_repeated:
  "fields_sent [0] c [] []"
  "c (slot tag) = Some (FU (if get_tag_op tag = FAST_OP_INCR then x - 1 else x)) \<Longrightarrow> fields_sent [0] (c(slot tag \<mapsto> FU x)) fs [] \<Longrightarrow>
    fields_sent [0] c ((tag, FU x) # fs) []"
  "c (slot tag) = Some (FS s) \<Longrightarrow> fields_sent [0] (c(slot tag \<mapsto> FS s)) fs [] \<Longrightarrow> fields_sent [0] c ((tag, FS s) # fs) []"
  by (simp_all add: empty_pmap)

lemma remembers_nothing: "remembers codec (\<lambda>_. None)"
  by (simp add: remembers_def)

lemma init_fast_ok: "opra_codec_ok (the (init_fast True))"
  by (simp add: init_fast_def fast_create_codec_def opra_codec_ok_def codec_ok_def MAX_PMAP_BITS_def MAX_PMAP_BYTES_def MAX_TAG_def
      TAG_MAX_TID_def)

definition ex_msg :: "u32 \<Rightarrow> OpraMsg_v2" where
  "ex_msg sn = OpenIntBody \<lparr>
     d_hdr = \<lparr>participantId = 65, retran = 32, category = 100, msg_type = 32, seqNumber = sn, msg_time = 93000000\<rparr>,
     d_series = \<lparr>symbol = [73, 66, 77, 32, 32], expirationMonth = 65, expirationDate = [0x31, 0x36], year = [0x31, 0x30],
       strikePriceDenomCode = 65, explicitStrike = 1250, strikePriceCode = 65\<rparr>,
     d_openIntVolume = 4200\<rparr>"

definition ex_packet :: "u32 \<Rightarrow> u8 list" where
  "ex_packet sn = of_nat (length (full_message (ex_msg sn))) # full_message (ex_msg sn) @ [1, 0x80]"

lemma slots:
  "slot MESSAGE_CATEGORY_V2 = 0" "slot MESSAGE_TYPE_V2 = 1" "slot PARTICIPANT_ID_V2 = 2" "slot RETRANSMISSION_REQUESTER_V2 = 3"
  "slot MESSAGE_SEQUENCE_NUMBER_V2 = 4" "slot TIME_V2 = 5" "slot SECURITY_SYMBOL_V2 = 6" "slot EXPIRATION_MONTH_V2 = 7"
  "slot EXPIRATION_DATE_V2 = 8" "slot YEAR_V2 = 9" "slot STRIKE_PRICE_DENOMINATOR_CODE_V2 = 10" "slot EXPLICIT_STRIKE_PRICE_V2 = 11"
  "slot STRIKE_PRICE_CODE_V2 = 12" "slot OPEN_INT_VOLUME_V2 = 14"
  by (simp_all add: opra_u32_tags opra_str_tags MAKE_TAG_def tag_parts FAST_TYPE_U32_def FAST_TYPE_STR_def FAST_OP_COPY_def FAST_OP_INCR_def
      OPRA_BASE_TID_def)

lemma ex_ops:
  "get_tag_op MESSAGE_SEQUENCE_NUMBER_V2 = FAST_OP_INCR" "get_tag_op MESSAGE_CATEGORY_V2 \<noteq> FAST_OP_INCR" "get_tag_op MESSAGE_TYPE_V2 \<noteq> FAST_OP_INCR"
  "get_tag_op PARTICIPANT_ID_V2 \<noteq> FAST_OP_INCR" "get_tag_op RETRANSMISSION_REQUESTER_V2 \<noteq> FAST_OP_INCR" "get_tag_op TIME_V2 \<noteq> FAST_OP_INCR"
  "get_tag_op EXPIRATION_MONTH_V2 \<noteq> FAST_OP_INCR" "get_tag_op EXPIRATION_DATE_V2 \<noteq> FAST_OP_INCR" "get_tag_op YEAR_V2 \<noteq> FAST_OP_INCR"
  "get_tag_op STRIKE_PRICE_DENOMINATOR_CODE_V2 \<noteq> FAST_OP_INCR" "get_tag_op EXPLICIT_STRIKE_PRICE_V2 \<noteq> FAST_OP_INCR"
  "get_tag_op STRIKE_PRICE_CODE_V2 \<noteq> FAST_OP_INCR" "get_tag_op OPEN_INT_VOLUME_V2 \<noteq> FAST_OP_INCR"
  by (simp_all add: opra_u32_tags MAKE_TAG_def tag_parts FAST_TYPE_U32_def FAST_OP_COPY_def FAST_OP_INCR_def OPRA_BASE_TID_def)

lemma ex_msg_parts: "msg_ok (ex_msg sn)" "\<forall>f\<in>set (msg_fields (ex_msg sn)). field_fits f" "passed_on (ex_msg sn)"
  by (simp_all add: ex_msg_def series_ok_def two_digits_def msg_fields_def hdr_fields_def series_fields_def slots)

lemma ex_msg_repeated: "message_sent (after_fields (msg_fields (ex_msg sn)) c) (ex_msg (sn + 1)) [0x80]"
proof -
  have "fields_sent [0] (after_fields (msg_fields (ex_msg sn)) c) (msg_fields (ex_msg (sn + 1))) []"
    unfolding ex_msg_def msg_fields_def body_fields.simps hdr_fields_def series_fields_def append.simps after_fields_def
    by (intro fields_repeated) (simp_all add: slots ex_ops)
  then show ?thesis using ex_msg_parts(1) by (auto simp: message_sent_def Let_def intro!: bexI [of _ 1])
qed

lemma ex_message_length: "length (full_message (ex_msg sn)) < 60"
proof -
  have "length (u32_bytes (u32_to_size x) x) \<le> 5" for x using u32_size(1) [of x] by (simp add: u32_wire_length)
  note this [of sn]
  then show ?thesis
    by (simp add: full_message_def ex_msg_def msg_fields_def hdr_fields_def series_fields_def digits_u32_def)
       (simp add: u32_to_size_def u32_bytes_def)
qed

lemma ex_packet_sent: "messages_sent c [ex_msg sn, ex_msg (sn + 1)] (ex_packet sn)"
proof -
  let ?n = "length (full_message (ex_msg sn))"
  have n: "unat (of_nat ?n :: u8) = ?n" using ex_message_length [of sn] by (simp add: unat_of_nat)
  then show ?thesis using full_message_sent [OF ex_msg_parts(1,2), of c sn] ex_message_length [of sn] ex_msg_repeated [of sn c]
    by (simp add: ex_packet_def Let_def)
qed


end
