(* ===== verification/OpraLine.thy ===== *)
theory OpraLine
  imports Machine
begin

section \<open>OPRA lines (\<^verbatim>\<open>feeds/opra/fast/common/fh_opra_lh.c\<close>)\<close>

text \<open>
  Two lines, A and B, carry the same packets.  They share a window of 512 sequence numbers, with which packets seen on the
  other line are recognised.  A line is given by its side; the notifications about the shared line are collected in order.
  Sequence numbers are 32 bits wide, and so are the sums of the code.  The list of options, the configuration and names,
  sockets and jitter statistics are left out, and so is logging.
\<close>

subsection \<open>State\<close>

definition WINSZ :: nat where "WINSZ = 512"
definition WINSZ_MASK :: u32 where "WINSZ_MASK = 511"

definition OPRA_FTLINE_STATE_OK :: u32 where "OPRA_FTLINE_STATE_OK = 1"
definition OPRA_FTLINE_STATE_STALE :: u32 where "OPRA_FTLINE_STATE_STALE = 2"

definition OPRA_FTLINE_EVENT_STATE :: u32 where "OPRA_FTLINE_EVENT_STATE = 1"
definition OPRA_FTLINE_EVENT_SN_RESET :: u32 where "OPRA_FTLINE_EVENT_SN_RESET = 2"
definition OPRA_FTLINE_EVENT_SN_RESET_JUMP :: u32 where "OPRA_FTLINE_EVENT_SN_RESET_JUMP = 3"

record fh_opra_line_stats =
  lst_pkt_rx :: u64
  lst_pkt_errs :: u64
  lst_pkt_dups :: u64
  lst_pkt_late :: u64
  lst_pkt_until_reset :: u64
  lst_pkt_bad_times :: u64
  lst_pkt_seq_jump :: u64
  lst_pkt_wrap_noreset :: u64
  lst_msg_rx :: u64
  lst_msg_loss :: u64
  lst_msg_recovered :: u64
  lst_msg_late :: u64
  lst_bytes :: u64

record lh_ftline =
  ftl_reset_sn :: u32
  ftl_seq_num :: u32
  ftl_missing :: u32
  ftl_window :: "u32 list"
  ftl_state :: u32
  ftl_time :: u32

record lh_line =
  l_stats :: fh_opra_line_stats
  l_reset :: u32
  l_tap :: u32
  l_seq_num :: u32

record opra_lh =
  lh_ft :: lh_ftline
  lh_lines :: "bool \<Rightarrow> lh_line"
  lh_events :: "u32 list"

definition upd_ft :: "(lh_ftline \<Rightarrow> lh_ftline) \<Rightarrow> opra_lh \<Rightarrow> opra_lh" where
  "upd_ft f s = s\<lparr>lh_ft := f (lh_ft s)\<rparr>"

definition upd_line :: "bool \<Rightarrow> (lh_line \<Rightarrow> lh_line) \<Rightarrow> opra_lh \<Rightarrow> opra_lh" where
  "upd_line side f s = s\<lparr>lh_lines := (lh_lines s)(side := f (lh_lines s side))\<rparr>"

definition count_line :: "bool \<Rightarrow> (fh_opra_line_stats \<Rightarrow> fh_opra_line_stats) \<Rightarrow> opra_lh \<Rightarrow> opra_lh" where
  "count_line side f = upd_line side (\<lambda>l. l\<lparr>l_stats := f (l_stats l)\<rparr>)"

subsection \<open>Operations\<close>

definition fh_opra_lh_clr_stats :: "opra_lh \<Rightarrow> opra_lh" where
  "fh_opra_lh_clr_stats s = s\<lparr>lh_lines := (\<lambda>side. (lh_lines s side)\<lparr>l_stats :=
     \<lparr>lst_pkt_rx = 0, lst_pkt_errs = 0, lst_pkt_dups = 0, lst_pkt_late = 0, lst_pkt_until_reset = 0, lst_pkt_bad_times = 0,
      lst_pkt_seq_jump = 0, lst_pkt_wrap_noreset = 0, lst_msg_rx = 0, lst_msg_loss = 0, lst_msg_recovered = 0, lst_msg_late = 0,
      lst_bytes = 0\<rparr>\<rparr>)\<rparr>"

definition fh_opra_lh_late_opt :: "bool \<Rightarrow> opra_lh \<Rightarrow> opra_lh" where
  "fh_opra_lh_late_opt side = count_line side (\<lambda>st. st\<lparr>lst_msg_late := lst_msg_late st + 1\<rparr>)"

text \<open>The window as if all numbers up to \<open>base_sn\<close> had arrived.\<close>

definition lh_win_init :: "u32 \<Rightarrow> u32 list" where
  "lh_win_init base_sn =
    (let base_idx = base_sn AND WINSZ_MASK; base_sn = base_sn - base_idx
     in map (\<lambda>i. if i \<le> unat base_idx then base_sn + of_nat i else base_sn + of_nat i - of_nat WINSZ) [0..<WINSZ])"

definition lh_ftline_notify :: "u32 \<Rightarrow> opra_lh \<Rightarrow> opra_lh" where
  "lh_ftline_notify ev s = s\<lparr>lh_events := lh_events s @ [ev]\<rparr>"

definition lh_line_reset :: "bool \<Rightarrow> u32 \<Rightarrow> opra_lh \<Rightarrow> opra_lh" where
  "lh_line_reset side reset_sn s =
    (if l_reset (lh_lines s side) \<noteq> 0 then upd_line side (\<lambda>l. l\<lparr>l_reset := 0\<rparr>) s
     else
       let s = upd_line (\<not> side) (\<lambda>l. l\<lparr>l_reset := 1\<rparr>) s;
           s = upd_ft (\<lambda>ftl. ftl\<lparr>ftl_reset_sn := reset_sn, ftl_seq_num := reset_sn\<rparr>) s;
           s = upd_line side (\<lambda>l. l\<lparr>l_seq_num := reset_sn\<rparr>) s;
           s = upd_ft (\<lambda>ftl. ftl\<lparr>ftl_window := lh_win_init reset_sn\<rparr>) s;
           s = (if ftl_missing (lh_ft s) > 0 then
                  let s = (if ftl_state (lh_ft s) \<noteq> OPRA_FTLINE_STATE_STALE
                           then lh_ftline_notify OPRA_FTLINE_EVENT_STATE (upd_ft (\<lambda>ftl. ftl\<lparr>ftl_state := OPRA_FTLINE_STATE_STALE\<rparr>) s)
                           else s)
                  in upd_ft (\<lambda>ftl. ftl\<lparr>ftl_missing := 0\<rparr>) s
                else s)
       in upd_ft (\<lambda>ftl. ftl\<lparr>ftl_time := 0\<rparr>) s)"

text \<open>One message number of a packet; the answer is whether it is dropped.  An index into the window is in range.\<close>

definition win_message :: "bool \<Rightarrow> u32 \<Rightarrow> opra_lh \<Rightarrow> opra_lh \<times> bool" where
  "win_message side msg_sn s =
    (let idx = unat (msg_sn AND WINSZ_MASK);
         ftl = lh_ft s;
         win_sn = ftl_window ftl ! idx;
         (s, drop) =
           (if msg_sn = ftl_seq_num ftl + 1 then (upd_ft (\<lambda>ftl. ftl\<lparr>ftl_seq_num := msg_sn\<rparr>) s, False)
            else if msg_sn \<le> ftl_seq_num ftl then
              if win_sn = msg_sn then (count_line side (\<lambda>st. st\<lparr>lst_pkt_dups := lst_pkt_dups st + 1\<rparr>) s, True)
              else if msg_sn = win_sn + of_nat WINSZ then
                let s = count_line side (\<lambda>st. st\<lparr>lst_msg_recovered := lst_msg_recovered st + 1\<rparr>) s
                in (if ftl_missing ftl > 0 then upd_ft (\<lambda>ftl. ftl\<lparr>ftl_missing := ftl_missing ftl - 1\<rparr>) s else s, False)
              else (count_line side (\<lambda>st. st\<lparr>lst_pkt_late := lst_pkt_late st + 1\<rparr>) s, True)
            else
              let s = (if ftl_seq_num ftl \<noteq> 0 then
                         let gap = msg_sn - (ftl_seq_num ftl + 1);
                             s = upd_ft (\<lambda>ftl. ftl\<lparr>ftl_missing := ftl_missing ftl + gap\<rparr>) s
                         in count_line side (\<lambda>st. st\<lparr>lst_msg_loss := lst_msg_loss st + ucast gap\<rparr>) s
                       else s)
              in (upd_ft (\<lambda>ftl. ftl\<lparr>ftl_seq_num := msg_sn\<rparr>) s, False))
     in if drop then (s, True)
        else
          let s = (if msg_sn \<noteq> win_sn + of_nat WINSZ \<and> ftl_state (lh_ft s) \<noteq> OPRA_FTLINE_STATE_STALE
                   then lh_ftline_notify OPRA_FTLINE_EVENT_STATE (upd_ft (\<lambda>ftl. ftl\<lparr>ftl_state := OPRA_FTLINE_STATE_STALE\<rparr>) s)
                   else s)
          in (upd_ft (\<lambda>ftl. ftl\<lparr>ftl_window := (ftl_window ftl)[idx := msg_sn]\<rparr>) s, False))"

primrec win_messages :: "nat \<Rightarrow> bool \<Rightarrow> u32 \<Rightarrow> opra_lh \<Rightarrow> opra_lh \<times> bool" where
  "win_messages 0 side msg_sn s = (s, False)"
| "win_messages (Suc n) side msg_sn s =
    (let (s, drop) = win_message side msg_sn s in if drop then (s, True) else win_messages n side (msg_sn + 1) s)"

definition fh_opra_lh_win_update :: "bool \<Rightarrow> u32 \<Rightarrow> u32 \<Rightarrow> opra_lh \<Rightarrow> opra_lh \<times> bool" where
  "fh_opra_lh_win_update side msg_sn num_msgs s = win_messages (nat (sint num_msgs)) side msg_sn s"

definition fh_opra_convert_time :: "u32 \<Rightarrow> u32" where
  "fh_opra_convert_time t = t mod 1000 + (t mod 100000 div 1000) * 1000 + (t mod 10000000 div 100000) * 60000 +
     (t mod 1000000000 div 10000000) * 60 * 60 * 1000"

text \<open>Whether a packet is to be dropped.  \<open>jump\<close> is the configured threshold for jumps of the sequence number.\<close>

definition is_dup_tail :: "u32 \<Rightarrow> bool \<Rightarrow> u32 \<Rightarrow> u32 \<Rightarrow> opra_lh \<Rightarrow> opra_lh \<times> bool" where
  "is_dup_tail jump side msg_sn num_msgs s =
    (let s = (if msg_sn \<ge> l_seq_num (lh_lines s side) + jump then
                count_line side (\<lambda>st. st\<lparr>lst_pkt_seq_jump := lst_pkt_seq_jump st + 1\<rparr>)
                  (lh_ftline_notify OPRA_FTLINE_EVENT_SN_RESET_JUMP (lh_line_reset side (msg_sn - 1) s))
              else s);
         s = (if msg_sn > l_seq_num (lh_lines s side) then upd_line side (\<lambda>l. l\<lparr>l_seq_num := msg_sn + (num_msgs - 1)\<rparr>) s else s)
     in if l_reset (lh_lines s side) \<noteq> 0
        then (count_line side (\<lambda>st. st\<lparr>lst_pkt_until_reset := lst_pkt_until_reset st + 1\<rparr>) s, True)
        else fh_opra_lh_win_update side msg_sn num_msgs s)"

definition is_dup_head :: "u32 \<Rightarrow> opra_lh \<Rightarrow> opra_lh" where
  "is_dup_head msg_time s =
    (let s = (if ftl_state (lh_ft s) = 0
              then lh_ftline_notify OPRA_FTLINE_EVENT_STATE (upd_ft (\<lambda>ftl. ftl\<lparr>ftl_state := OPRA_FTLINE_STATE_STALE\<rparr>) s)
              else s)
     in if ftl_time (lh_ft s) = 0 \<or> msg_time > ftl_time (lh_ft s) then upd_ft (\<lambda>ftl. ftl\<lparr>ftl_time := msg_time\<rparr>) s else s)"

definition fh_opra_lh_is_dup :: "u32 \<Rightarrow> bool \<Rightarrow> u8 \<Rightarrow> u8 \<Rightarrow> u32 \<Rightarrow> u32 \<Rightarrow> u32 \<Rightarrow> opra_lh \<Rightarrow> opra_lh \<times> bool" where
  "fh_opra_lh_is_dup jump side msg_cat msg_type msg_sn num_msgs msg_time s =
    (let s = is_dup_head msg_time s
     in if msg_cat = 72 then
          if msg_type = 67 then
            (lh_line_reset side msg_sn (lh_ftline_notify OPRA_FTLINE_EVENT_STATE
               (upd_ft (\<lambda>ftl. ftl\<lparr>ftl_state := OPRA_FTLINE_STATE_OK\<rparr>) s)), False)
          else if msg_type = 75 then
            is_dup_tail jump side msg_sn num_msgs (lh_ftline_notify OPRA_FTLINE_EVENT_SN_RESET (lh_line_reset side msg_sn s))
          else if msg_type = 65 then is_dup_tail jump side msg_sn num_msgs (lh_line_reset side msg_sn s)
          else if msg_type = 78 then (s, False)
          else is_dup_tail jump side msg_sn num_msgs s
        else if msg_cat = 67 then (s, False)
        else is_dup_tail jump side msg_sn num_msgs s)"

subsection \<open>What the window stands for\<close>

text \<open>
  The highest number and the set of all numbers seen, where those up to the last reset count as seen.  A number behind the
  highest is accepted if the one 512 before it is the newest seen in its place.
\<close>

type_synonym seen = "int \<times> int set"

definition newest_before :: "int set \<Rightarrow> int \<Rightarrow> bool" where
  "newest_before S x \<longleftrightarrow> x - 512 \<in> S \<and> (\<forall>z\<in>S. x \<le> z \<longrightarrow> z mod 512 \<noteq> x mod 512)"

definition accepts :: "seen \<Rightarrow> int \<Rightarrow> bool" where
  "accepts a x \<longleftrightarrow> x > fst a \<or> newest_before (snd a) x"

definition see :: "int \<Rightarrow> seen \<Rightarrow> seen" where
  "see x a = (max (fst a) x, insert x (snd a))"

text \<open>The numbers of a packet up to the first that is not accepted, and whether there was one.\<close>

primrec offer :: "nat \<Rightarrow> int \<Rightarrow> seen \<Rightarrow> seen \<times> bool" where
  "offer 0 x a = (a, False)"
| "offer (Suc n) x a = (if accepts a x then offer n (x + 1) (see x a) else (a, True))"

definition SN_LIMIT :: int where "SN_LIMIT = 2 ^ 32 - 512"

definition newest :: "int set \<Rightarrow> int \<Rightarrow> int \<Rightarrow> bool" where
  "newest S r y \<longleftrightarrow> y \<in> S \<and> y mod 512 = r \<and> (\<forall>z\<in>S. z mod 512 = r \<longrightarrow> z \<le> y)"

definition window_rel :: "seen \<Rightarrow> lh_ftline \<Rightarrow> bool" where
  "window_rel a ftl \<longleftrightarrow> 0 \<le> fst a \<and> fst a < SN_LIMIT \<and> uint (ftl_seq_num ftl) = fst a \<and> snd a \<subseteq> {..fst a} \<and>
     length (ftl_window ftl) = 512 \<and>
     (\<forall>r < 512. \<exists>y. newest (snd a) (int r) y \<and> - 512 \<le> y \<and> ftl_window ftl ! r = word_of_int y)"

lemma uint_sn: "0 \<le> x \<Longrightarrow> x < SN_LIMIT \<Longrightarrow> uint (word_of_int x :: u32) = x"
  by (simp add: SN_LIMIT_def uint_word_of_int_eq take_bit_int_eq_self_iff)

lemma window_index: "0 \<le> x \<Longrightarrow> x < SN_LIMIT \<Longrightarrow> unat (word_of_int x AND WINSZ_MASK :: u32) = nat (x mod 512)"
proof -
  assume x: "0 \<le> x" "x < SN_LIMIT"
  have "WINSZ_MASK = mask 9" by (simp add: WINSZ_MASK_def mask_eq_exp_minus_1)
  then have "word_of_int x AND WINSZ_MASK = take_bit 9 (word_of_int x :: u32)" by (simp add: take_bit_eq_mask)
  moreover have "uint (take_bit 9 (word_of_int x :: u32)) = x mod 512"
    by (simp only: unsigned_take_bit_eq uint_sn [OF x]) (simp add: take_bit_eq_mod)
  ultimately show ?thesis by (simp add: unat_eq_nat_uint)
qed

lemma word_of_int_inj_near:
  assumes "- 512 \<le> y" and "y < 2 ^ 32" and "0 \<le> x" and "x < SN_LIMIT"
  shows "(word_of_int y :: u32) = word_of_int x \<longleftrightarrow> y = x"
proof
  assume "(word_of_int y :: u32) = word_of_int x"
  then have "y mod 4294967296 = x mod 4294967296" by (simp add: word_of_int_eq_iff take_bit_eq_mod)
  then have "4294967296 dvd y - x" by (simp add: mod_eq_dvd_iff)
  moreover have "\<bar>y - x\<bar> < 4294967296" using assms by (simp add: SN_LIMIT_def)
  ultimately show "y = x" using dvd_imp_le_int [of "y - x" 4294967296] by auto
qed simp

lemma window_entry:
  assumes "window_rel a ftl" and "0 < x" and "x < SN_LIMIT"
  obtains y where "newest (snd a) (x mod 512) y" "- 512 \<le> y" "y \<le> fst a"
    "ftl_window ftl ! unat (word_of_int x AND WINSZ_MASK :: u32) = word_of_int y"
proof -
  have "nat (x mod 512) < 512" by simp
  then obtain y where "newest (snd a) (int (nat (x mod 512))) y" "- 512 \<le> y" "ftl_window ftl ! nat (x mod 512) = word_of_int y"
    using assms(1) unfolding window_rel_def by blast
  moreover from this(1) have "y \<le> fst a" using assms(1) by (auto simp: newest_def window_rel_def)
  ultimately show ?thesis using that [of y] window_index [of x] assms(2,3) by simp
qed

text \<open>The comparison with the window decides whether a number behind the highest is accepted.\<close>

lemma newest_before_window:
  assumes "newest S (x mod 512) y"
  shows "newest_before S x \<longleftrightarrow> y = x - 512"
proof
  assume b: "newest_before S x"
  have y: "y \<in> S" "y mod 512 = x mod 512" "\<forall>z\<in>S. z mod 512 = x mod 512 \<longrightarrow> z \<le> y" using assms by (simp_all add: newest_def)
  then have "512 dvd x - y" by (metis mod_eq_dvd_iff)
  moreover have "x - 512 \<le> y" "\<not> x \<le> y" using b y by (auto simp: newest_before_def)
  ultimately show "y = x - 512" using dvd_imp_le_int [of "x - y" 512] by simp
next
  assume "y = x - 512"
  then show "newest_before S x" using assms by (auto simp: newest_def newest_before_def)
qed

subsection \<open>The filter\<close>

text \<open>What matters of a state: the highest number, the window, and of each line whether it waits for a reset and its number.\<close>

definition same_line_state :: "opra_lh \<Rightarrow> opra_lh \<Rightarrow> bool" where
  "same_line_state s s' \<longleftrightarrow> (\<forall>side. l_reset (lh_lines s' side) = l_reset (lh_lines s side) \<and> l_seq_num (lh_lines s' side) = l_seq_num (lh_lines s side) \<and>
     l_tap (lh_lines s' side) = l_tap (lh_lines s side))"

lemma same_line_state_refl [simp]: "same_line_state s s"
  by (simp add: same_line_state_def)

lemma same_line_state_trans [trans]: "same_line_state s s1 \<Longrightarrow> same_line_state s1 s2 \<Longrightarrow> same_line_state s s2"
  by (simp add: same_line_state_def)

lemmas lh_state_defs = upd_ft_def upd_line_def count_line_def lh_ftline_notify_def

lemma count_line_line [simp]:
  "l_reset (lh_lines (count_line side f s) x) = l_reset (lh_lines s x)" "l_seq_num (lh_lines (count_line side f s) x) = l_seq_num (lh_lines s x)"
  "l_tap (lh_lines (count_line side f s) x) = l_tap (lh_lines s x)"
  by (simp_all add: lh_state_defs)

lemma lh_state_frame [simp]:
  "lh_ft (count_line side f s) = lh_ft s" "same_line_state s (count_line side f s')  = same_line_state s s'"
  "lh_ft (upd_ft g s) = g (lh_ft s)" "lh_lines (upd_ft g s) = lh_lines s" "same_line_state s (upd_ft g s') = same_line_state s s'"
  "lh_ft (lh_ftline_notify ev s) = lh_ft s" "lh_lines (lh_ftline_notify ev s) = lh_lines s"
  "same_line_state s (lh_ftline_notify ev s') = same_line_state s s'" "lh_ft (upd_line side h s) = lh_ft s"
  by (simp_all only: same_line_state_def count_line_line) (simp_all add: lh_state_defs)

text \<open>The last part of \<^verbatim>\<open>fh_opra_lh_win_update\<close>'s loop: a number that is not dropped enters the window.\<close>

lemma enter_window:
  "lh_ft (if c then lh_ftline_notify ev (upd_ft (\<lambda>ftl. ftl\<lparr>ftl_state := st\<rparr>) s) else s) =
    (if c then (lh_ft s)\<lparr>ftl_state := st\<rparr> else lh_ft s)"
  "same_line_state s0 (if c then lh_ftline_notify ev (upd_ft (\<lambda>ftl. ftl\<lparr>ftl_state := st\<rparr>) s) else s) = same_line_state s0 s"
  by simp_all

lemma win_message_cases:
  fixes s :: opra_lh and msg_sn :: u32
  defines "seq \<equiv> ftl_seq_num (lh_ft s)" and "idx \<equiv> unat (msg_sn AND WINSZ_MASK)" and "win \<equiv> ftl_window (lh_ft s)"
  obtains (dropped) s1 where "win_message side msg_sn s = (s1, True)" "msg_sn \<noteq> seq + 1" "msg_sn \<le> seq" "msg_sn \<noteq> win ! idx + 512"
      "lh_ft s1 = lh_ft s" "same_line_state s s1"
  | (behind) s1 where "win_message side msg_sn s = (s1, False)" "msg_sn \<noteq> seq + 1" "msg_sn \<le> seq" "msg_sn = win ! idx + 512"
      "ftl_seq_num (lh_ft s1) = seq" "ftl_window (lh_ft s1) = win[idx := msg_sn]" "same_line_state s s1"
  | (ahead) s1 where "win_message side msg_sn s = (s1, False)" "msg_sn = seq + 1 \<or> \<not> msg_sn \<le> seq"
      "ftl_seq_num (lh_ft s1) = msg_sn" "ftl_window (lh_ft s1) = win[idx := msg_sn]" "same_line_state s s1"
proof -
  consider (d) "msg_sn \<noteq> seq + 1" "msg_sn \<le> seq" "msg_sn \<noteq> win ! idx + 512" | (b) "msg_sn \<noteq> seq + 1" "msg_sn \<le> seq" "msg_sn = win ! idx + 512"
    | (n) "msg_sn = seq + 1" | (g) "msg_sn \<noteq> seq + 1" "\<not> msg_sn \<le> seq" by blast
  then show ?thesis
  proof cases
    case d
    show ?thesis
    proof (rule dropped)
      show "win_message side msg_sn s = ((if win ! idx = msg_sn then count_line side (\<lambda>st. st\<lparr>lst_pkt_dups := lst_pkt_dups st + 1\<rparr>) s
          else count_line side (\<lambda>st. st\<lparr>lst_pkt_late := lst_pkt_late st + 1\<rparr>) s), True)"
        using d by (simp add: win_message_def Let_def seq_def idx_def win_def WINSZ_def)
    qed (use d in simp_all)
  next
    case b
    have ne: "win ! idx \<noteq> msg_sn" using b(3) by auto
    obtain s1 where "win_message side msg_sn s = (s1, False)" "ftl_seq_num (lh_ft s1) = seq" "ftl_window (lh_ft s1) = win[idx := msg_sn]"
      "same_line_state s s1"
      using b(1,2) ne b(3) [symmetric]
      by (cases "ftl_missing (lh_ft s) > 0") (simp_all add: win_message_def Let_def seq_def idx_def win_def WINSZ_def)
    then show ?thesis using behind b by blast
  next
    case n
    obtain s1 where "win_message side msg_sn s = (s1, False)" "ftl_seq_num (lh_ft s1) = msg_sn" "ftl_window (lh_ft s1) = win[idx := msg_sn]"
      "same_line_state s s1"
      using n by (simp add: win_message_def Let_def seq_def idx_def win_def WINSZ_def enter_window del: lh_state_frame(6))
    then show ?thesis using ahead n by blast
  next
    case g
    obtain s1 where "win_message side msg_sn s = (s1, False)" "ftl_seq_num (lh_ft s1) = msg_sn" "ftl_window (lh_ft s1) = win[idx := msg_sn]"
      "same_line_state s s1"
      using g by (cases "ftl_seq_num (lh_ft s) \<noteq> 0") (simp_all add: win_message_def Let_def seq_def idx_def win_def WINSZ_def enter_window)
    then show ?thesis using ahead g by blast
  qed
qed

lemma win_message_effect:
  fixes s :: opra_lh and msg_sn :: u32
  defines "seq \<equiv> ftl_seq_num (lh_ft s)" and "idx \<equiv> unat (msg_sn AND WINSZ_MASK)" and "win \<equiv> ftl_window (lh_ft s)"
  assumes "win_message side msg_sn s = (s', d)"
  shows "d \<longleftrightarrow> msg_sn \<noteq> seq + 1 \<and> msg_sn \<le> seq \<and> msg_sn \<noteq> win ! idx + 512"
    "ftl_seq_num (lh_ft s') = (if msg_sn \<noteq> seq + 1 \<and> msg_sn \<le> seq then seq else msg_sn)"
    "ftl_window (lh_ft s') = (if d then win else win[idx := msg_sn])" "same_line_state s s'"
proof -
  have "(d \<longleftrightarrow> msg_sn \<noteq> seq + 1 \<and> msg_sn \<le> seq \<and> msg_sn \<noteq> win ! idx + 512) \<and>
    ftl_seq_num (lh_ft s') = (if msg_sn \<noteq> seq + 1 \<and> msg_sn \<le> seq then seq else msg_sn) \<and>
    ftl_window (lh_ft s') = (if d then win else win[idx := msg_sn]) \<and> same_line_state s s'"
  proof (cases rule: win_message_cases [of side msg_sn s])
    case (dropped s1)
    have "s' = s1" "d" using assms(4) dropped(1) by simp_all
    then show ?thesis using dropped(2-) by (simp add: seq_def idx_def win_def)
  next
    case (behind s1)
    have "s' = s1" "\<not> d" using assms(4) behind(1) by simp_all
    then show ?thesis
    proof (intro conjI)
      show "d = (msg_sn \<noteq> seq + 1 \<and> msg_sn \<le> seq \<and> msg_sn \<noteq> win ! idx + 512)"
        using \<open>\<not> d\<close> behind(4) unfolding seq_def idx_def win_def by blast
    qed (use behind(2,3,5-) \<open>s' = s1\<close> \<open>\<not> d\<close> in \<open>simp_all add: seq_def idx_def win_def\<close>)
  next
    case (ahead s1)
    have "s' = s1" "\<not> d" using assms(4) ahead(1) by simp_all
    then show ?thesis using ahead(2-) by (auto simp: seq_def idx_def win_def)
  qed
  then show "d \<longleftrightarrow> msg_sn \<noteq> seq + 1 \<and> msg_sn \<le> seq \<and> msg_sn \<noteq> win ! idx + 512"
    "ftl_seq_num (lh_ft s') = (if msg_sn \<noteq> seq + 1 \<and> msg_sn \<le> seq then seq else msg_sn)"
    "ftl_window (lh_ft s') = (if d then win else win[idx := msg_sn])" "same_line_state s s'" by blast+
qed

lemma newest_insert:
  assumes "newest S r y" and "x mod 512 = r" and "y < x"
  shows "newest (insert x S) r x"
  using assms by (force simp: newest_def)

lemma win_message_simulates:
  assumes rel: "window_rel a (lh_ft s)" and x: "0 < x" "x < SN_LIMIT"
    and w: "win_message side (word_of_int x) s = (s', d)"
  shows "d \<longleftrightarrow> \<not> accepts a x" "window_rel (if d then a else see x a) (lh_ft s')" "same_line_state s s'"
proof -
  obtain top S where a: "a = (top, S)" by fastforce
  let ?seq = "ftl_seq_num (lh_ft s)" and ?win = "ftl_window (lh_ft s)" and ?sn = "word_of_int x :: u32"
  let ?idx = "unat (?sn AND WINSZ_MASK)"
  have r: "0 \<le> top" "top < SN_LIMIT" "uint ?seq = top" "S \<subseteq> {..top}" "length ?win = 512"
    "\<forall>r < 512. \<exists>y. newest S (int r) y \<and> - 512 \<le> y \<and> ?win ! r = word_of_int y"
    using rel by (simp_all add: window_rel_def a)
  obtain y where y: "newest S (x mod 512) y" "- 512 \<le> y" "y \<le> top" "?win ! ?idx = word_of_int y"
    using window_entry [OF rel x] by (auto simp: a)
  have ux: "uint ?sn = x" using uint_sn x by simp
  have seq: "?seq = word_of_int top" unfolding r(3) [symmetric] by (rule word_of_int_uint [symmetric])
  have c1: "?sn = ?seq + 1 \<longleftrightarrow> x = top + 1"
  proof -
    have "?seq + 1 = word_of_int (top + 1)" unfolding seq by simp
    moreover have "(word_of_int (top + 1) :: u32) = word_of_int x \<longleftrightarrow> top + 1 = x"
      using r(1,2) x by (intro word_of_int_inj_near) (simp_all add: SN_LIMIT_def)
    ultimately show ?thesis by metis
  qed
  have c2: "?sn \<le> ?seq \<longleftrightarrow> x \<le> top" using ux r(3) by (simp add: word_le_def)
  have c3: "?sn = ?win ! ?idx + 512 \<longleftrightarrow> y = x - 512"
  proof -
    have "?win ! ?idx + 512 = word_of_int (y + 512)" using y(4) by simp
    moreover have "(word_of_int (y + 512) :: u32) = word_of_int x \<longleftrightarrow> y + 512 = x"
      using y(2,3) r(2) x by (intro word_of_int_inj_near) (simp_all add: SN_LIMIT_def)
    ultimately show ?thesis by (metis add_diff_cancel_right' diff_add_cancel)
  qed
  note e = win_message_effect [OF w]
  show d: "d \<longleftrightarrow> \<not> accepts a x"
    unfolding e(1) c1 c2 c3 accepts_def a newest_before_window [OF y(1), symmetric] by auto
  show "same_line_state s s'" by (rule e(4))
  have top: "uint (ftl_seq_num (lh_ft s')) = max top x" unfolding e(2) c1 c2 using r(3) ux by auto
  show "window_rel (if d then a else see x a) (lh_ft s')"
  proof (cases d)
    case True
    then have "x \<le> top" using d by (simp add: accepts_def a)
    then show ?thesis using rel e(3) top True by (simp add: window_rel_def a)
  next
    case False
    have yx: "y < x" using False d y(1,3) newest_before_window [OF y(1)] by (auto simp: accepts_def a)
    have idx: "?idx = nat (x mod 512)" using window_index x by simp
    have "\<exists>y. newest (insert x S) (int i) y \<and> - 512 \<le> y \<and> (?win[?idx := ?sn]) ! i = word_of_int y" if i: "i < 512" for i
    proof (cases "i = ?idx")
      case True
      then show ?thesis using newest_insert [OF y(1) refl yx] i r(5) x(1) idx by (intro exI [of _ x]) simp
    next
      case False
      then have ne: "x mod 512 \<noteq> int i" using idx by auto
      obtain z where "newest S (int i) z" "- 512 \<le> z" "?win ! i = word_of_int z" using r(6) i by blast
      then show ?thesis using ne False by (intro exI [of _ z]) (auto simp: newest_def)
    qed
    then show ?thesis using r(1,2,4,5) x top e(3) False by (auto simp: window_rel_def see_def a)
  qed
qed

lemma win_messages_simulate:
  assumes "window_rel a (lh_ft s)" and "0 < x" and "x + int n \<le> SN_LIMIT"
  shows "\<exists>s'. win_messages n side (word_of_int x) s = (s', snd (offer n x a)) \<and> window_rel (fst (offer n x a)) (lh_ft s') \<and>
    same_line_state s s'"
  using assms
proof (induction n arbitrary: x a s)
  case (Suc n)
  obtain s1 d where w: "win_message side (word_of_int x) s = (s1, d)" by fastforce
  have x: "0 < x" "x < SN_LIMIT" using Suc.prems by simp_all
  note m = win_message_simulates [OF Suc.prems(1) x w]
  show ?case
  proof (cases d)
    case True
    then show ?thesis using w m by simp
  next
    case False
    then obtain s' where "win_messages n side (word_of_int (x + 1)) s1 = (s', snd (offer n (x + 1) (see x a)))"
      "window_rel (fst (offer n (x + 1) (see x a))) (lh_ft s')" "same_line_state s1 s'"
      using Suc.IH [of "see x a" s1 "x + 1"] m(2) Suc.prems(2,3) by auto
    then show ?thesis using w m(1,3) False by (auto intro: same_line_state_trans)
  qed
qed simp

lemma is_dup_head_frame:
  "same_line_state s (is_dup_head tm s)" "ftl_seq_num (lh_ft (is_dup_head tm s)) = ftl_seq_num (lh_ft s)"
  "ftl_window (lh_ft (is_dup_head tm s)) = ftl_window (lh_ft s)" "ftl_missing (lh_ft (is_dup_head tm s)) = ftl_missing (lh_ft s)"
  by (simp_all add: is_dup_head_def Let_def)

end
