(* ===== verification/OpraFilter.thy ===== *)
theory OpraFilter
  imports OpraLine
begin

section \<open>Packets on two lines\<close>

text \<open>The duplicate filter over sequences of packets on both lines, against the set of numbers seen.\<close>

text \<open>A packet as the filter sees it: line, category and type of its first message, number, count and time.\<close>

type_synonym opra_pkt = "bool \<times> u8 \<times> u8 \<times> u32 \<times> u32 \<times> u32"

fun filter_step :: "u32 \<Rightarrow> opra_pkt \<Rightarrow> opra_lh \<Rightarrow> (opra_lh \<times> bool) option" where
  "filter_step jump (side, cat, ty, sn, num, tm) s = Some (fh_opra_lh_is_dup jump side cat ty sn num tm s)"

text \<open>The abstract state: the numbers seen, and the number of each line.\<close>

type_synonym filter_state = "seen \<times> (bool \<Rightarrow> int)"

definition filter_rel :: "filter_state \<Rightarrow> opra_lh \<Rightarrow> bool" where
  "filter_rel a s \<longleftrightarrow> window_rel (fst a) (lh_ft s) \<and>
     (\<forall>side. l_reset (lh_lines s side) = 0 \<and> uint (l_seq_num (lh_lines s side)) = snd a side)"

text \<open>Data packets with numbers in range that do not jump ahead of their line by the threshold.\<close>

fun filter_adm :: "u32 \<Rightarrow> filter_state \<Rightarrow> opra_pkt \<Rightarrow> bool" where
  "filter_adm jump (a, ls) (side, cat, ty, sn, num, tm) \<longleftrightarrow> cat \<noteq> 72 \<and> cat \<noteq> 67 \<and> 0 < uint sn \<and> 0 < uint num \<and> uint num < 1000 \<and>
     uint sn + uint num \<le> SN_LIMIT \<and> ls side + uint jump < 2 ^ 32 \<and> uint sn < ls side + uint jump"

fun filter_out :: "filter_state \<Rightarrow> opra_pkt \<Rightarrow> bool" where
  "filter_out (a, ls) (side, cat, ty, sn, num, tm) = snd (offer (unat num) (uint sn) a)"

fun filter_upd :: "filter_state \<Rightarrow> opra_pkt \<Rightarrow> filter_state" where
  "filter_upd (a, ls) (side, cat, ty, sn, num, tm) =
    (fst (offer (unat num) (uint sn) a), ls(side := if uint sn > ls side then uint sn + uint num - 1 else ls side))"

lemma is_dup_data:
  assumes "cat \<noteq> 72" and "cat \<noteq> 67"
  shows "fh_opra_lh_is_dup jump side cat ty sn num tm s = is_dup_tail jump side sn num (is_dup_head tm s)"
  using assms by (simp add: fh_opra_lh_is_dup_def)

lemma window_rel_cong:
  "window_rel a ftl \<Longrightarrow> ftl_seq_num ftl' = ftl_seq_num ftl \<Longrightarrow> ftl_window ftl' = ftl_window ftl \<Longrightarrow> window_rel a ftl'"
  by (simp add: window_rel_def)

lemma upd_line_line:
  "lh_lines (upd_line side f s) x = (if x = side then f (lh_lines s side) else lh_lines s x)"
  by (simp add: upd_line_def)

lemma is_dup_tail_simulates:
  assumes rel: "filter_rel (a, ls) s" and adm: "filter_adm jump (a, ls) (side, cat, ty, sn, num, tm)"
  shows "\<exists>s'. is_dup_tail jump side sn num s = (s', filter_out (a, ls) (side, cat, ty, sn, num, tm)) \<and>
    filter_rel (filter_upd (a, ls) (side, cat, ty, sn, num, tm)) s'"
proof -
  have ad: "0 < uint sn" "0 < uint num" "uint num < 1000" "uint sn + uint num \<le> SN_LIMIT" "ls side + uint jump < 2 ^ 32"
    "uint sn < ls side + uint jump" using adm by simp_all
  have l: "l_reset (lh_lines s x) = 0" "uint (l_seq_num (lh_lines s x)) = ls x" for x using rel by (simp_all add: filter_rel_def)
  have "uint (l_seq_num (lh_lines s side) + jump) = ls side + uint jump"
    using ad(5) l(2) [of side] uint_ge_0 [of jump] uint_ge_0 [of "l_seq_num (lh_lines s side)"]
    by (simp add: uint_word_ariths mod_pos_pos_trivial)
  then have nojump: "\<not> sn \<ge> l_seq_num (lh_lines s side) + jump" using ad(6) by (simp add: word_le_def)
  let ?s = "if sn > l_seq_num (lh_lines s side) then upd_line side (\<lambda>l. l\<lparr>l_seq_num := sn + (num - 1)\<rparr>) s else s"
  have r: "l_reset (lh_lines ?s x) = 0" for x using l by (simp add: upd_line_line)
  have un: "int (unat num) = uint num" by simp
  have "unat num < 1000" using ad(3) un by linarith
  then have n: "nat (sint num) = unat num" using sint_small [of num] by simp
  have sn: "word_of_int (uint sn) = sn" by simp
  have "window_rel a (lh_ft ?s)" using rel by (simp add: filter_rel_def)
  then obtain s' where w: "win_messages (unat num) side sn ?s = (s', snd (offer (unat num) (uint sn) a))"
    "window_rel (fst (offer (unat num) (uint sn) a)) (lh_ft s')" "same_line_state ?s s'"
    using win_messages_simulate [of a ?s "uint sn" "unat num" side] ad(1,4) unfolding sn un by blast
  have t: "is_dup_tail jump side sn num s = (s', snd (offer (unat num) (uint sn) a))"
    using nojump r [of side] w(1) n by (simp add: is_dup_tail_def Let_def fh_opra_lh_win_update_def)
  have "uint (sn + (num - 1)) = uint sn + uint num - 1"
  proof -
    have "uint (num - 1) = uint num - 1" using ad(2) by (simp add: uint_minus_simple_alt word_le_def uint_sub_if')
    then show ?thesis using ad by (simp add: uint_add_lem [THEN iffD1] SN_LIMIT_def)
  qed
  then have "uint (l_seq_num (lh_lines ?s x)) =
      (ls(side := if uint sn > ls side then uint sn + uint num - 1 else ls side)) x" for x
    using l(2) ad(2) by (auto simp: upd_line_line word_less_def)
  then have "filter_rel (filter_upd (a, ls) (side, cat, ty, sn, num, tm)) s'"
    using w(2,3) r by (simp add: filter_rel_def same_line_state_def)
  then show ?thesis using t by simp
qed

interpretation opra_filter: simulating_machine "filter_step jump" "filter_adm jump" filter_rel filter_out filter_upd for jump
proof unfold_locales
  fix a s i assume rel: "filter_rel a s" and adm: "filter_adm jump a i"
  obtain x ls where a: "a = (x, ls)" by fastforce
  obtain side cat ty sn num tm where i: "i = (side, cat, ty, sn, num, tm)" using prod_cases6 by blast
  have c: "cat \<noteq> 72" "cat \<noteq> 67" using adm by (simp_all add: a i)
  let ?s = "is_dup_head tm s"
  have "window_rel x (lh_ft ?s)" using rel window_rel_cong [OF _ is_dup_head_frame(2,3)] by (simp add: filter_rel_def a)
  then have "filter_rel a ?s" using rel is_dup_head_frame(1) [of s tm] by (simp add: filter_rel_def same_line_state_def a)
  then show "\<exists>s'. filter_step jump i s = Some (s', filter_out a i) \<and> filter_rel (filter_upd a i) s'"
    using is_dup_tail_simulates [of x ls ?s jump side cat ty sn num tm] adm unfolding a i by (simp add: is_dup_data [OF c])
qed

subsection \<open>Numbers seen\<close>

definition seen_ok :: "seen \<Rightarrow> bool" where
  "seen_ok a \<longleftrightarrow> snd a \<subseteq> {..fst a}"

lemma see_ok: "seen_ok a \<Longrightarrow> seen_ok (see x a)"
  by (auto simp: seen_ok_def see_def)

lemma accepts_new: "seen_ok a \<Longrightarrow> accepts a x \<Longrightarrow> x \<notin> snd a"
  by (auto simp: seen_ok_def accepts_def newest_before_def)

lemma offer_new:
  assumes "seen_ok a"
  shows "seen_ok (fst (offer n x a))" "snd a \<subseteq> snd (fst (offer n x a))"
    "\<not> snd (offer n x a) \<Longrightarrow> y \<in> {x ..< x + int n} \<Longrightarrow> y \<notin> snd a \<and> y \<in> snd (fst (offer n x a))"
  using assms
proof (induction n arbitrary: x a)
  case (Suc n)
  {
    case 1
    then show ?case using Suc.IH(1) see_ok by simp
  next
    case 2
    then show ?case using Suc.IH(2) [OF see_ok [OF 2], of x "x + 1"] by (auto simp: see_def)
  next
    case 3
    have acc: "accepts a x" "\<not> snd (offer n (x + 1) (see x a))" using 3(1) by (auto split: if_splits)
    show ?case
    proof (cases "y = x")
      case True
      then show ?thesis using acc accepts_new [OF 3(3) acc(1)] Suc.IH(2) [OF see_ok [OF 3(3)], of x "x + 1"] by (auto simp: see_def)
    next
      case False
      then have "y \<in> {x + 1 ..< x + 1 + int n}" using 3(2) by simp
      then show ?thesis using Suc.IH(3) [OF acc(2) _ see_ok [OF 3(3)]] acc(1) by (auto simp: see_def)
    qed
  }
qed auto

text \<open>The numbers of a packet, and those of the packets that were not dropped.\<close>

fun pkt_numbers :: "opra_pkt \<Rightarrow> int list" where
  "pkt_numbers (side, cat, ty, sn, num, tm) = [uint sn .. uint sn + uint num - 1]"

definition processed :: "opra_pkt list \<Rightarrow> bool list \<Rightarrow> int list" where
  "processed ps ds = concat (map (\<lambda>(p, d). if d then [] else pkt_numbers p) (zip ps ds))"

lemma processed_distinct:
  assumes "seen_ok (fst a)" and "adm_run (filter_adm jump) filter_upd a ps"
  shows "distinct (processed ps (abstract_run filter_out filter_upd a ps)) \<and>
    set (processed ps (abstract_run filter_out filter_upd a ps)) \<inter> snd (fst a) = {}"
  using assms
proof (induction ps arbitrary: a)
  case (Cons p ps)
  obtain x ls where a: "a = (x, ls)" by fastforce
  obtain side cat ty sn num tm where p: "p = (side, cat, ty, sn, num, tm)" using prod_cases6 by blast
  let ?o = "offer (unat num) (uint sn) x"
  have ok: "seen_ok x" using Cons.prems(1) by (simp add: a)
  note o = offer_new [OF ok, of "unat num" "uint sn"]
  have un: "int (unat num) = uint num" by simp
  have nums: "set (pkt_numbers p) = {uint sn ..< uint sn + int (unat num)}" "distinct (pkt_numbers p)"
    unfolding un by (auto simp: p)
  let ?rest = "processed ps (abstract_run filter_out filter_upd (filter_upd a p) ps)"
  have upd: "fst (filter_upd a p) = fst ?o" by (simp add: a p)
  have ih: "distinct ?rest" "set ?rest \<inter> snd (fst ?o) = {}"
    using Cons.IH [of "filter_upd a p"] Cons.prems o(1) unfolding upd by simp_all
  have e: "processed (p # ps) (abstract_run filter_out filter_upd a (p # ps)) = (if snd ?o then [] else pkt_numbers p) @ ?rest"
    by (simp add: processed_def a p)
  have fa: "fst a = x" by (simp add: a)
  show ?case
  proof (cases "snd ?o")
    case True
    then show ?thesis using ih o(2) unfolding e fa by auto
  next
    case False
    have "set (pkt_numbers p) \<inter> snd x = {}" "set (pkt_numbers p) \<subseteq> snd (fst ?o)" using o(3) [OF False] unfolding nums(1) by blast+
    then show ?thesis using ih o(2) nums(2) False unfolding e fa by auto
  qed
qed (simp add: processed_def)

subsection \<open>Resets\<close>

lemma win_init_rel:
  assumes "uint base < SN_LIMIT" and "ftl_seq_num ftl = base" and "ftl_window ftl = lh_win_init base"
  shows "window_rel (uint base, {..uint base}) ftl"
proof -
  let ?b = "uint base"
  let ?r = "?b mod 512"
  have b: "0 \<le> ?b" "base = word_of_int ?b" by simp_all
  have idx: "unat (base AND WINSZ_MASK) = nat ?r" using window_index [of ?b] assms(1) by simp
  have low: "base - (base AND WINSZ_MASK) = word_of_int (?b - ?r)"
  proof -
    have "uint (base AND WINSZ_MASK) = ?r" using idx by (metis of_nat_unat int_nat_eq pos_mod_sign zero_less_numeral of_nat_0_le_iff)
    then have "base AND WINSZ_MASK = word_of_int ?r" by (metis word_of_int_uint)
    then have "base - (base AND WINSZ_MASK) = word_of_int ?b - word_of_int ?r" by simp
    then show ?thesis by (simp only: wi_hom_sub)
  qed
  have "\<exists>y. newest {..?b} (int i) y \<and> - 512 \<le> y \<and> lh_win_init base ! i = word_of_int y" if i: "i < 512" for i
  proof -
    let ?y = "if int i \<le> ?r then ?b - ?r + int i else ?b - ?r + int i - 512"
    have "lh_win_init base ! i = word_of_int ?y"
      using i idx low by (auto simp: lh_win_init_def Let_def WINSZ_def nat_le_iff le_nat_iff)
    moreover have "newest {..?b} (int i) ?y"
    proof -
      have m: "(?b - ?r + int i) mod 512 = int i" using i by (simp add: minus_mod_eq_mult_div)
      have "z \<le> ?y" if "z \<le> ?b" "z mod 512 = int i" for z
      proof -
        have d: "z div 512 \<le> ?b div 512" using that(1) by (rule zdiv_mono1) simp
        have z: "z = 512 * (z div 512) + int i" using that(2) mult_div_mod_eq [of 512 z] by simp
        have q: "512 * (?b div 512) + ?r = ?b" by (rule mult_div_mod_eq)
        show ?thesis
        proof (cases "int i \<le> ?r")
          case True
          then have "?y = ?b - ?r + int i" by simp
          then show ?thesis using d z q by linarith
        next
          case False
          then have "z div 512 \<noteq> ?b div 512" using z q that(1) by linarith
          moreover have "?y = ?b - ?r + int i - 512" using False by simp
          ultimately show ?thesis using d z q by linarith
        qed
      qed
      moreover have "?y \<le> ?b" using i pos_mod_bound [of 512 ?b] by auto
      moreover have "(?b - ?r + int i - 512) mod 512 = int i" using m by simp
      ultimately show ?thesis using m by (auto simp: newest_def)
    qed
    moreover have "?r \<le> ?b" using b(1) by (simp add: zmod_le_nonneg_dividend)
    then have "- 512 \<le> ?y" by auto
    ultimately show ?thesis by blast
  qed
  then show ?thesis using assms b(1) by (simp add: window_rel_def lh_win_init_def Let_def WINSZ_def)
qed

text \<open>The start of day on one line, then on the other.\<close>

definition start_of_day :: "u32 \<Rightarrow> bool \<Rightarrow> u32 \<Rightarrow> u32 \<Rightarrow> u32 \<Rightarrow> opra_lh \<Rightarrow> opra_lh" where
  "start_of_day jump side sn num tm s = fst (fh_opra_lh_is_dup jump side 72 67 sn num tm s)"

lemma line_reset_first:
  assumes "l_reset (lh_lines s side) = 0"
  shows "ftl_seq_num (lh_ft (lh_line_reset side sn s)) = sn" "ftl_window (lh_ft (lh_line_reset side sn s)) = lh_win_init sn"
    "l_reset (lh_lines (lh_line_reset side sn s) x) = (if x = side then 0 else 1)"
    "l_seq_num (lh_lines (lh_line_reset side sn s) x) = (if x = side then sn else l_seq_num (lh_lines s x))"
  using assms by (auto simp: lh_line_reset_def Let_def upd_line_line)

lemma line_reset_second:
  assumes "l_reset (lh_lines s side) \<noteq> 0"
  shows "lh_ft (lh_line_reset side sn s) = lh_ft s"
    "l_reset (lh_lines (lh_line_reset side sn s) x) = (if x = side then 0 else l_reset (lh_lines s x))"
    "l_seq_num (lh_lines (lh_line_reset side sn s) x) = l_seq_num (lh_lines s x)"
  using assms by (simp_all add: lh_line_reset_def upd_line_line)

lemma start_of_day_reset:
  "\<exists>s1. start_of_day jump side sn num tm s = lh_line_reset side sn s1 \<and> same_line_state s s1 \<and>
    ftl_seq_num (lh_ft s1) = ftl_seq_num (lh_ft s) \<and> ftl_window (lh_ft s1) = ftl_window (lh_ft s)"
  by (simp add: start_of_day_def fh_opra_lh_is_dup_def Let_def)
     (rule exI, rule conjI, rule refl, simp add: is_dup_head_frame)

lemma start_of_day_rel:
  assumes r: "l_reset (lh_lines s side) = 0" and sn: "uint sn < SN_LIMIT"
  shows "filter_rel ((uint sn, {..uint sn}), \<lambda>x. if x = side then uint sn else uint (l_seq_num (lh_lines s x)))
    (start_of_day jump (\<not> side) sn' num' tm' (start_of_day jump side sn num tm s))"
proof -
  obtain s1 where s1: "start_of_day jump side sn num tm s = lh_line_reset side sn s1" "same_line_state s s1"
    using start_of_day_reset by blast
  let ?s = "lh_line_reset side sn s1"
  obtain s2 where s2: "start_of_day jump (\<not> side) sn' num' tm' ?s = lh_line_reset (\<not> side) sn' s2" "same_line_state ?s s2"
    "ftl_seq_num (lh_ft s2) = ftl_seq_num (lh_ft ?s)" "ftl_window (lh_ft s2) = ftl_window (lh_ft ?s)"
    using start_of_day_reset by blast
  have r1: "l_reset (lh_lines s1 side) = 0" using r s1(2) by (simp add: same_line_state_def)
  note f = line_reset_first [OF r1, of sn]
  have r2: "l_reset (lh_lines s2 (\<not> side)) \<noteq> 0" using f(3) s2(2) by (simp add: same_line_state_def)
  note g = line_reset_second [OF r2, of sn']
  have "window_rel (uint sn, {..uint sn}) (lh_ft s2)" using f(1,2) s2(3,4) by (intro win_init_rel sn) simp_all
  then show ?thesis
    using g f(3,4) s1(2) s2(2) unfolding s1(1) s2(1) by (auto simp: filter_rel_def same_line_state_def)
qed



subsection \<open>A line that lags behind\<close>

lemma offer_fresh_run: "fst a < x \<Longrightarrow> offer n x a = (((if n = 0 then fst a else x + int n - 1), snd a \<union> {x ..< x + int n}), False)"
proof (induction n arbitrary: x a)
  case 0
  then show ?case by (cases a) simp
next
  case (Suc n)
  have see: "accepts a x" "see x a = (x, insert x (snd a))" using Suc.prems by (simp_all add: accepts_def see_def)
  have "insert x (snd a) \<union> {x + 1 ..< x + 1 + int n} = snd a \<union> {x ..< x + int (Suc n)}" by auto
  then show ?case using Suc.IH [of "(x, insert x (snd a))" "x + 1"] see by simp
qed

text \<open>C20. A line that was silent while the other one went on, and comes back late by at least the threshold, rewinds the filter: its packets are
  taken for a jump ahead, although their numbers were seen, so they are processed again, and the other line is cut off until it is reset.\<close>

theorem opra_lagging_line_rewinds:
  assumes rel: "filter_rel (a, ls) s" and cat: "cat \<noteq> 72" "cat \<noteq> 67" and lag: "ls side + uint jump \<le> uint sn" "uint sn \<le> fst a"
    and num: "0 < uint num" "uint num < 1000" and sn: "0 < uint sn" "uint sn + uint num \<le> SN_LIMIT"
  shows "\<exists>s'. fh_opra_lh_is_dup jump side cat ty sn num tm s = (s', False) \<and> l_reset (lh_lines s' (\<not> side)) = 1 \<and>
    window_rel (uint sn + uint num - 1, {..uint sn + uint num - 1}) (lh_ft s')"
proof -
  let ?s = "is_dup_head tm s"
  have l: "l_reset (lh_lines ?s x) = 0" "uint (l_seq_num (lh_lines ?s x)) = ls x" for x
    using rel is_dup_head_frame(1) [of s tm] by (simp_all add: filter_rel_def same_line_state_def)
  have "uint (l_seq_num (lh_lines ?s side) + jump) = ls side + uint jump"
    using lag(1) sn(2) num(1) l(2) [of side] uint_ge_0 [of jump] uint_ge_0 [of "l_seq_num (lh_lines ?s side)"]
    by (simp add: uint_word_ariths mod_pos_pos_trivial SN_LIMIT_def)
  then have jump: "sn \<ge> l_seq_num (lh_lines ?s side) + jump" using lag(1) by (simp add: word_le_def)
  let ?s1 = "count_line side (\<lambda>st. st\<lparr>lst_pkt_seq_jump := lst_pkt_seq_jump st + 1\<rparr>)
    (lh_ftline_notify OPRA_FTLINE_EVENT_SN_RESET_JUMP (lh_line_reset side (sn - 1) ?s))"
  note f = line_reset_first [OF l(1), where side = side and sn = "sn - 1"]
  have u1: "uint (sn - 1) = uint sn - 1" using sn(1) by (simp add: uint_sub_if' word_le_def)
  then have gt: "sn > l_seq_num (lh_lines ?s1 side)" using f(4) by (simp add: word_less_def)
  let ?s2 = "upd_line side (\<lambda>l. l\<lparr>l_seq_num := sn + (num - 1)\<rparr>) ?s1"
  have w: "window_rel (uint sn - 1, {..uint sn - 1}) (lh_ft ?s2)"
    using win_init_rel [of "sn - 1" "lh_ft ?s2"] f(1,2) u1 sn(2) num(1) by simp
  have r: "l_reset (lh_lines ?s2 side) = 0" "l_reset (lh_lines ?s2 (\<not> side)) = 1" using f(3) by (simp_all add: upd_line_line)
  have un: "int (unat num) = uint num" by simp
  have "unat num < 1000" using num(2) un by linarith
  then have n: "nat (sint num) = unat num" using sint_small [of num] by simp
  have o: "offer (unat num) (uint sn) (uint sn - 1, {..uint sn - 1}) = ((uint sn + uint num - 1, {..uint sn + uint num - 1}), False)"
  proof -
    have "{..uint sn - 1} \<union> {uint sn ..< uint sn + uint num} = {..uint sn + uint num - 1}" using num(1) by auto
    moreover have "unat num \<noteq> 0" using num(1) by (auto simp: unat_eq_0)
    ultimately show ?thesis using offer_fresh_run [of "(uint sn - 1, {..uint sn - 1})" "uint sn" "unat num"] by simp
  qed
  have "word_of_int (uint sn) = sn" by simp
  then obtain s' where "win_messages (unat num) side sn ?s2 = (s', False)"
    "window_rel (uint sn + uint num - 1, {..uint sn + uint num - 1}) (lh_ft s')" "same_line_state ?s2 s'"
    using win_messages_simulate [OF w sn(1), of "unat num" side] sn(2) o un by auto
  moreover have "is_dup_tail jump side sn num ?s = win_messages (unat num) side sn ?s2"
    using jump gt r(1) n by (simp add: is_dup_tail_def Let_def fh_opra_lh_win_update_def)
  ultimately show ?thesis using r(2) by (simp add: is_dup_data [OF cat] same_line_state_def)
qed

subsection \<open>Witnesses\<close>

definition ex_line :: lh_line where
  "ex_line = \<lparr>l_stats = \<lparr>lst_pkt_rx = 0, lst_pkt_errs = 0, lst_pkt_dups = 0, lst_pkt_late = 0, lst_pkt_until_reset = 0, lst_pkt_bad_times = 0,
      lst_pkt_seq_jump = 0, lst_pkt_wrap_noreset = 0, lst_msg_rx = 0, lst_msg_loss = 0, lst_msg_recovered = 0, lst_msg_late = 0,
      lst_bytes = 0\<rparr>, l_reset = 0, l_tap = 0, l_seq_num = 0\<rparr>"

definition ex_lh :: opra_lh where
  "ex_lh = \<lparr>lh_ft = \<lparr>ftl_reset_sn = 0, ftl_seq_num = 0, ftl_missing = 0, ftl_window = replicate 512 0, ftl_state = 0, ftl_time = 0\<rparr>,
     lh_lines = \<lambda>_. ex_line, lh_events = []\<rparr>"

definition ex_pkts :: "opra_pkt list" where
  "ex_pkts = [(True, 107, 32, 1, 2, 5), (False, 107, 32, 1, 2, 5), (False, 97, 32, 5, 1, 6), (True, 107, 32, 3, 2, 6)]"

definition ex_open :: opra_lh where
  "ex_open = start_of_day 1000 False 0 1 0 (start_of_day 1000 True 0 1 0 ex_lh)"

lemma ex_open_rel: "filter_rel ((0, {..0}), \<lambda>_. 0) ex_open"
  using start_of_day_rel [of ex_lh True 0 1000 0 1 0 1 0]
  by (simp add: ex_open_def ex_lh_def ex_line_def SN_LIMIT_def if_distrib cong: if_cong)

lemma ex_pkts_adm: "adm_run (filter_adm 1000) filter_upd ((0, {..0}), \<lambda>_. 0) ex_pkts"
  by (simp add: ex_pkts_def SN_LIMIT_def)



theorem opra_lagging_line_rewinds_witness:
  "\<exists>s s'. filter_rel ((2700, {..0} \<union> {900, 1800, 2700}), \<lambda>x. if x then 2700 else 0) s \<and>
    fh_opra_lh_is_dup 1000 False 107 32 1800 1 5 s = (s', False) \<and> l_reset (lh_lines s' True) = 1"
proof -
  let ?ps = "[(True, 107, 32, 900, 1, 5), (True, 107, 32, 1800, 1, 5), (True, 107, 32, 2700, 1, 5)] :: opra_pkt list"
  have "adm_run (filter_adm 1000) filter_upd ((0, {..0}), \<lambda>_. 0) ?ps" by (simp add: SN_LIMIT_def)
  from opra_filter.run_simulates [OF ex_open_rel this] obtain s where s: "filter_rel (foldl filter_upd ((0, {..0}), \<lambda>_. 0) ?ps) s" by blast
  have "foldl filter_upd ((0, {..0}), \<lambda>_. 0) ?ps = ((2700, insert 2700 (insert 1800 (insert 900 {..0}))), (\<lambda>_. 0)(True := 2700))"
    by (simp add: accepts_def see_def)
  moreover have "(\<lambda>_. 0)(True := 2700) = (\<lambda>x. if x then 2700 else (0 :: int))" by (auto simp: fun_eq_iff)
  moreover have "insert 2700 (insert 1800 (insert 900 {..0})) = {..0 :: int} \<union> {900, 1800, 2700}" by auto
  ultimately have r: "filter_rel ((2700, {..0} \<union> {900, 1800, 2700}), \<lambda>x. if x then 2700 else 0) s" using s by simp
  then show ?thesis using opra_lagging_line_rewinds [OF r, of 107 False 1000 1800 1 32 5] by (auto simp: SN_LIMIT_def)
qed

end
