(* ===== verification/Opra.thy ===== *)
theory Opra
  imports OpraDecode OpraFilter
begin

section \<open>The OPRA feed (\<^verbatim>\<open>feeds/opra/fast/v2/fh_opra_lh_v2.c\<close>)\<close>

text \<open>
  The processing of a packet: version, numbers, the header of the first message, the duplicate filter and the decoder, and its
  effect over sequences of packets on the two lines.
\<close>

text \<open>How a packet ends.  The numbers of a tapped packet are recorded by another component.\<close>

datatype pkt_result =
    PktError
  | PktTapped u8 u8 u32 u32
  | PktDropped
  | PktProcessed nat "OpraMsg_v2 list"

definition ascii_num :: "u8 list \<Rightarrow> u32" where
  "ascii_num cs = foldl (\<lambda>n c. n * 10 + (ucast c - 48)) 0 cs"

definition fh_opra_pkt_process ::
  "opra_env \<Rightarrow> u32 \<Rightarrow> bool \<Rightarrow> u8 list \<Rightarrow> int \<Rightarrow> fast_codec \<times> opra_lh \<Rightarrow> ((fast_codec \<times> opra_lh) \<times> pkt_result) option" where
  "fh_opra_pkt_process env jump side buffer len st = (case st of (codec, s) \<Rightarrow> do {
     version \<leftarrow> array_get buffer 1;
     if version \<noteq> 2 then Some ((codec, count_line side (\<lambda>st. st\<lparr>lst_pkt_errs := lst_pkt_errs st + 1\<rparr>) s), PktError)
     else if length buffer < 15 then None
     else do {
       let msg_sn = ascii_num (take 10 (drop 2 buffer));
       let num_msgs = ascii_num (take 3 (drop 12 buffer));
       (codec, info) \<leftarrow> fast_opra_hdr_info env buffer len False True codec;
       case info of
         None \<Rightarrow> Some ((codec, count_line side (\<lambda>st. st\<lparr>lst_pkt_errs := lst_pkt_errs st + 1\<rparr>) s), PktError)
       | Some (cat, ty, _, tm) \<Rightarrow> do {
           msg_time \<leftarrow> tm;
           if l_tap (lh_lines s side) \<noteq> 0
           then Some ((codec, count_line side (\<lambda>st. st\<lparr>lst_msg_rx := lst_msg_rx st + ucast num_msgs\<rparr>) s), PktTapped cat ty msg_sn num_msgs)
           else do {
             let (s, dup) = fh_opra_lh_is_dup jump side cat ty msg_sn num_msgs msg_time s;
             if dup then Some ((codec, s), PktDropped)
             else do {
               (codec, n, msgs) \<leftarrow> fast_opra_decode env buffer len codec;
               Some ((codec, count_line side (\<lambda>st. st\<lparr>lst_msg_rx := lst_msg_rx st + of_nat n\<rparr>) s), PktProcessed n msgs)
             }
           }
         }
     }
   })"

subsection \<open>Packets as they are sent\<close>

text \<open>A packet that can be read on its own: a number, messages, their bytes, and what follows it in memory.\<close>

type_synonym sent_pkt = "bool \<times> nat \<times> OpraMsg_v2 list \<times> u8 list \<times> u8 list"

definition zero_field :: "nat \<Rightarrow> nat \<Rightarrow> u8 list" where
  "zero_field w n = map digit_char (replicate (w - length (dec_digits n)) 0 @ dec_digits n)"

fun pkt_bytes :: "sent_pkt \<Rightarrow> u8 list" where
  "pkt_bytes (side, sn, ms, bs, rest) = 1 # 2 # zero_field 10 sn @ zero_field 3 (length ms) @ bs @ 3 # rest"

fun pkt_step :: "opra_env \<Rightarrow> u32 \<Rightarrow> sent_pkt \<Rightarrow> fast_codec \<times> opra_lh \<Rightarrow> ((fast_codec \<times> opra_lh) \<times> pkt_result) option" where
  "pkt_step env jump (side, sn, ms, bs, rest) st = fh_opra_pkt_process env jump side (pkt_bytes (side, sn, ms, bs, rest)) (16 + int (length bs)) st"

fun msg_hdr :: "OpraMsg_v2 \<Rightarrow> OpraMsgHdr_v2" where
  "msg_hdr (QuoteSizeBody m) = k_hdr m"
| "msg_hdr (OpenIntBody m) = d_hdr m"
| "msg_hdr (LastSaleBody m) = a_hdr m"
| "msg_hdr (EodBody m) = f_hdr m"
| "msg_hdr (FcoLastSale m) = fo_hdr m"
| "msg_hdr (FcoQuote m) = fu_hdr m"
| "msg_hdr (FcoEod m) = ff_hdr m"
| "msg_hdr (UlValueMsg m) = y_hdr m"
| "msg_hdr (AdminMsg m) = h_hdr m"
| "msg_hdr (CtrlMsg m) = h_hdr m"
| "msg_hdr (DefMsg _) = \<lparr>participantId = 0, retran = 0, category = 0, msg_type = 0, seqNumber = 0, msg_time = 0\<rparr>"

text \<open>What the filter sees of it.\<close>

fun filter_view :: "sent_pkt \<Rightarrow> opra_pkt" where
  "filter_view (side, sn, ms, bs, rest) =
    (side, msg_category (hd ms), msg_type (msg_hdr (hd ms)), of_nat sn, of_nat (length ms), msg_time (msg_hdr (hd ms)))"

fun pkt_adm :: "u32 \<Rightarrow> filter_state \<Rightarrow> sent_pkt \<Rightarrow> bool" where
  "pkt_adm jump a (side, sn, ms, bs, rest) \<longleftrightarrow> ms \<noteq> [] \<and> messages_sent (\<lambda>_. None) ms bs \<and> sn < 10 ^ 10 \<and> length ms < 1000 \<and>
     filter_adm jump a (filter_view (side, sn, ms, bs, rest))"

fun pkt_out :: "filter_state \<Rightarrow> sent_pkt \<Rightarrow> pkt_result" where
  "pkt_out a (side, sn, ms, bs, rest) =
    (if filter_out a (filter_view (side, sn, ms, bs, rest)) then PktDropped else PktProcessed (length ms) (filter passed_on ms))"

definition pkt_upd :: "filter_state \<Rightarrow> sent_pkt \<Rightarrow> filter_state" where
  "pkt_upd a p = filter_upd a (filter_view p)"

definition pkt_rel :: "filter_state \<Rightarrow> fast_codec \<times> opra_lh \<Rightarrow> bool" where
  "pkt_rel a st \<longleftrightarrow> opra_codec_ok (fst st) \<and> filter_rel a (snd st) \<and> (\<forall>side. l_tap (lh_lines (snd st) side) = 0)"

lemma ascii_num_digits: "\<forall>d\<in>set ds. d < 10 \<Longrightarrow> ascii_num (map digit_char ds) = of_nat (digits_val ds)"
proof (induction ds rule: rev_induct)
  case (snoc d ds)
  then show ?case by (simp add: ascii_num_def digit_char_diff [where 'a = 32, simplified])
qed (simp add: ascii_num_def)

lemma zero_field_num:
  assumes "n < 10 ^ Suc w"
  shows "ascii_num (zero_field (Suc w) n) = of_nat n" "length (zero_field (Suc w) n) = Suc w"
proof -
  let ?ds = "replicate (Suc w - length (dec_digits n)) 0 @ dec_digits n"
  have "\<forall>d\<in>set ?ds. d < 10" using dec_digits_lt by auto
  then show "ascii_num (zero_field (Suc w) n) = of_nat n"
    unfolding zero_field_def by (simp only: ascii_num_digits digits_val_zeros digits_val_dec)
  show "length (zero_field (Suc w) n) = Suc w" using dec_digits_length [OF assms] by (simp add: zero_field_def)
qed

lemma body_starts_with_header: "msg_ok m \<Longrightarrow> \<exists>fs. body_fields m = hdr_fields (msg_hdr m) @ fs"
  by (cases m) simp_all

lemma hdr_info_received:
  assumes ok: "opra_codec_ok codec" and ms: "messages_sent (\<lambda>_. None) (m # ms) bs" and h: "length hdr = 15" and len: "int (length bs) \<le> len"
  shows "\<exists>codec'. fast_opra_hdr_info env (hdr @ bs @ rest) len False True codec =
      Some (codec', Some (msg_category m, msg_type (msg_hdr m), None, Some (msg_time (msg_hdr m)))) \<and> opra_codec_ok codec'"
proof -
  obtain sz bs' where bs: "bs = sz # bs'" using ms by (cases bs) auto
  obtain b1 where m: "message_sent (\<lambda>_. None) m b1" "\<exists>b2. bs' = b1 @ b2" "unat sz = 255 \<or> unat sz = length b1" "sz \<noteq> 0"
  proof -
    consider "unat sz < 255" "unat sz \<le> length bs'" "message_sent (\<lambda>_. None) m (take (unat sz) bs')" | "unat sz = 255" "message_sent (\<lambda>_. None) m bs'"
      using ms unfolding bs messages_sent.simps Let_def list.sel by (elim conjE disjE) (simp_all add: less_Suc_eq_le)
    then show ?thesis
    proof cases
      case 1
      have "sz \<noteq> 0" using 1(3) by (auto simp: message_sent_def)
      then show ?thesis using that [OF 1(3)] 1(2) by (metis append_take_drop_id length_take min.absorb2)
    next
      case 2
      have "sz \<noteq> 0" using 2(1) by auto
      then show ?thesis using that [OF 2(2)] 2(1) by auto
    qed
  qed
  then obtain b2 where b2: "bs' = b1 @ b2" by blast
  let ?n = "if sz = 0xff then len else uint sz"
  have n: "int (length b1) \<le> ?n"
  proof (cases "sz = 0xff")
    case False
    then have "unat sz \<noteq> 255" by (simp add: word_unat_eq_iff)
    then show ?thesis using m(3) False by (simp add: uint_nat)
  qed (use len bs b2 in simp)
  have mo: "msg_ok m" using m(1) by (simp add: message_sent_def)
  obtain codec1 rc pmap where c1: "decode_new_msg (setBuffer codec (b1 @ (b2 @ rest)) ?n) = Some (codec1, rc)" "0 \<le> rc"
    "to_come (b2 @ rest) pmap (after_fields (msg_fields m) (\<lambda>_. None)) (msg_fields m) codec1"
    using message_opened [OF ok remembers_nothing m(1) n] by blast
  obtain fs where fs: "msg_fields m = (MESSAGE_CATEGORY_V2, FU (ucast (msg_category m))) # hdr_fields (msg_hdr m) @ fs"
    using body_starts_with_header [OF mo] by (auto simp: msg_fields_def)
  let ?e = "after_fields (msg_fields m) (\<lambda>_. None)"
  have "to_come (b2 @ rest) pmap ?e ((MESSAGE_CATEGORY_V2, FU (ucast (msg_category m))) # hdr_fields (msg_hdr m) @ fs) codec1"
    using c1(3) by (simp only: fs [symmetric])
  then have "returns (\<lambda>(codec', info). info = Some (msg_category m, msg_type (msg_hdr m), None, Some (msg_time (msg_hdr m))) \<and>
      to_come (b2 @ rest) pmap ?e fs codec') (fast_opra_hdr_info env (hdr @ bs @ rest) len False True codec)"
    using c1(1,2) m(4) h
    by (simp add: fast_opra_hdr_info_def array_get_def bs b2 hdr_fields_def nth_append Option.bind_assoc prod.case_eq_if)
       ((erule read_u32, simp, simp)+, simp add: returns_Some)
  then show ?thesis using to_come_ok by (auto simp: returns_def)
qed

subsection \<open>Packets on two lines\<close>

text \<open>No step of the filter touches the tap of a line.\<close>

lemma win_messages_tap: "l_tap (lh_lines (fst (win_messages n side sn s)) x) = l_tap (lh_lines s x)"
proof (induction n arbitrary: sn s)
  case (Suc n)
  obtain s1 d where w: "win_message side sn s = (s1, d)" by fastforce
  then show ?case using win_message_effect(4) [OF w] Suc.IH [of "sn + 1" s1] by (simp add: same_line_state_def)
qed simp

lemma line_reset_tap: "l_tap (lh_lines (lh_line_reset side sn s) x) = l_tap (lh_lines s x)"
  by (simp add: lh_line_reset_def Let_def upd_line_line)

lemma is_dup_tail_tap: "l_tap (lh_lines (fst (is_dup_tail jump side sn num s)) x) = l_tap (lh_lines s x)"
  by (simp add: is_dup_tail_def Let_def fh_opra_lh_win_update_def win_messages_tap upd_line_line line_reset_tap)

lemma is_dup_data_tap:
  assumes "cat \<noteq> 72" and "cat \<noteq> 67"
  shows "l_tap (lh_lines (fst (fh_opra_lh_is_dup jump side cat ty sn num tm s)) x) = l_tap (lh_lines s x)"
  using is_dup_head_frame(1) [of s tm] by (simp add: is_dup_data [OF assms] is_dup_tail_tap same_line_state_def)

lemma filter_rel_count [simp]: "filter_rel a (count_line side f s) = filter_rel a s"
  by (simp add: filter_rel_def)

lemma packet_decodes:
  assumes "opra_codec_ok codec" and "messages_sent (\<lambda>_. None) ms bs" and "ms \<noteq> []" and "length hdr = 15"
  shows "\<exists>codec'. opra_decode_loop env (hdr @ bs @ rest) (16 + int (length bs)) 1 14 (15 + int (length bs)) codec =
      Some (codec', length ms, filter passed_on ms) \<and> opra_codec_ok codec'"
  using loop_decodes [OF assms(2,1) remembers_nothing, of 1 14 "hdr @ bs @ rest" rest "15 + int (length bs)" "16 + int (length bs)" env]
    assms(3,4) by auto

lemma pkt_step_simulates:
  assumes rel: "pkt_rel a st" and adm: "pkt_adm jump a (side, sn, ms, bs, rest)"
  shows "\<exists>st'. pkt_step env jump (side, sn, ms, bs, rest) st = Some (st', pkt_out a (side, sn, ms, bs, rest)) \<and>
    pkt_rel (pkt_upd a (side, sn, ms, bs, rest)) st'"
proof -
  obtain codec s where st: "st = (codec, s)" by fastforce
  obtain m ms' where ms: "ms = m # ms'" using adm by (cases ms) auto
  let ?p = "(side, sn, ms, bs, rest)"
  let ?hdr = "1 # 2 # zero_field 10 sn @ zero_field 3 (length ms)"
  let ?ty = "msg_type (msg_hdr m)" and ?tm = "msg_time (msg_hdr m)"
  have ok: "opra_codec_ok codec" "filter_rel a s" "l_tap (lh_lines s side) = 0" for side using rel by (simp_all add: pkt_rel_def st)
  have sent: "messages_sent (\<lambda>_. None) (m # ms') bs" "sn < 10 ^ Suc 9" "length ms < 10 ^ Suc 2" "filter_adm jump a (filter_view ?p)"
    using adm by (simp_all add: ms)
  have num: "ascii_num (zero_field 10 sn) = of_nat sn" "length (zero_field 10 sn) = 10"
    "ascii_num (zero_field 3 (length ms)) = of_nat (length ms)" "length (zero_field 3 (length ms)) = 3"
    using zero_field_num [OF sent(2)] zero_field_num [OF sent(3)] by (simp_all add: eval_nat_numeral)
  have hdr: "length ?hdr = 15" using num(2,4) by simp
  have bytes: "pkt_bytes ?p = ?hdr @ bs @ (3 # rest)" by simp
  have len: "int (length bs) \<le> 16 + int (length bs)" by simp
  obtain codec1 where h: "fast_opra_hdr_info env (?hdr @ bs @ (3 # rest)) (16 + int (length bs)) False True codec =
      Some (codec1, Some (msg_category m, ?ty, None, Some ?tm))" "opra_codec_ok codec1"
    using hdr_info_received [OF ok(1) sent(1) hdr len] by blast
  obtain s1 where f: "fh_opra_lh_is_dup jump side (msg_category m) ?ty (of_nat sn) (of_nat (length ms)) ?tm s = (s1, filter_out a (filter_view ?p))"
    "filter_rel (filter_upd a (filter_view ?p)) s1"
    using opra_filter.step_simulates [OF ok(2) sent(4)] by (auto simp: ms)
  have cat: "msg_category m \<noteq> 72" "msg_category m \<noteq> 67" using sent(4) by (cases a, simp add: ms)+
  have tap: "l_tap (lh_lines s1 x) = 0" for x
    using is_dup_data_tap [OF cat, of jump side ?ty "of_nat sn" "of_nat (length ms)" ?tm s x] f(1) ok(3) by simp
  obtain codec2 where d: "opra_decode_loop env (?hdr @ bs @ (3 # rest)) (16 + int (length bs)) 1 14 (15 + int (length bs)) codec1 =
      Some (codec2, length ms, filter passed_on ms)" "opra_codec_ok codec2"
    using packet_decodes [OF h(2) sent(1) _ hdr] by (auto simp: ms)
  let ?b = "?hdr @ bs @ (3 # rest)"
  have b: "array_get ?b 1 = Some 2" "\<not> length ?b < 15" "ascii_num (take 10 (drop 2 ?b)) = of_nat sn"
    "ascii_num (take 3 (drop 12 ?b)) = of_nat (length ms)"
    using num by (simp_all add: array_get_def)
  have dec: "fast_opra_decode env ?b (16 + int (length bs)) codec1 = Some (codec2, length ms, filter passed_on ms)"
    using d(1) by (simp add: fast_opra_decode_def array_get_def)
  have "pkt_step env jump ?p st = (if filter_out a (filter_view ?p) then Some ((codec1, s1), PktDropped)
      else Some ((codec2, count_line side (\<lambda>st. st\<lparr>lst_msg_rx := lst_msg_rx st + of_nat (length ms)\<rparr>) s1),
        PktProcessed (length ms) (filter passed_on ms)))"
    unfolding pkt_step.simps bytes fh_opra_pkt_process_def st prod.case
    by (simp only: b h(1) f(1) ok(3) dec Option.bind.bind_lunit Let_def prod.case option.case if_False simp_thms)
  then show ?thesis using h(2) d(2) f(2) tap by (simp add: pkt_rel_def pkt_upd_def del: filter_view.simps)
qed

interpretation opra_feed: simulating_machine "pkt_step env jump" "pkt_adm jump" pkt_rel pkt_out pkt_upd for env jump
proof unfold_locales
  fix a st i assume "pkt_rel a st" and "pkt_adm jump a i"
  then show "\<exists>st'. pkt_step env jump i st = Some (st', pkt_out a i) \<and> pkt_rel (pkt_upd a i) st'"
    using pkt_step_simulates by (cases i rule: prod_cases5) blast
qed


definition ex_sent :: "bool \<Rightarrow> nat \<Rightarrow> sent_pkt" where
  "ex_sent side sn = (side, sn, [ex_msg (of_nat sn), ex_msg (of_nat sn + 1)], ex_packet (of_nat sn), [])"


end
