(* ===== verification/Spec2Isabelle.thy ===== *)
theory Spec2Isabelle
  imports Itch Bats FastMsg ArcaPublish TcpConfig EdgeFeed TcpEnds Hist Opra
begin

text \<open>
  A verification library for the FeedHandler Community Edition, a C program that receives the
  multicast and TCP feeds of stock and option exchanges, decodes their messages and hands them to plugins.

  \<^bold>\<open>The program.\<close>  Each feed process has lines; a line receives the same numbered messages on two
  connections.  A parser (\<^verbatim>\<open>feeds/itch\<close>, \<^verbatim>\<open>feeds/bats\<close>, and others) takes a packet, drops the messages the
  line has seen, notes numbers that were skipped in a gap list (\<^verbatim>\<open>feeds/shared/gap_mgmt\<close>) so that the
  other connection can fill them in, decodes the rest, looks up and updates symbols and orders
  (\<^verbatim>\<open>feeds/shared/lookup_tables\<close>), and calls the hooks of the plugins.  The lookup tables are hash tables
  (\<^verbatim>\<open>common/fh_htable.c\<close>, hashing with \<^verbatim>\<open>common/missing/jhash.h\<close>) over memory pools (\<^verbatim>\<open>common/fh_mpool.c\<close>), and
  so is the gap list.  The OPRA feed is compressed with the FAST codec (\<^verbatim>\<open>feeds/opra/fast/codec\<close>).

  \<^bold>\<open>Conventions.\<close>  C integers are words of their width, so arithmetic wraps; an \<^verbatim>\<open>int\<close> that holds a
  length or a return code is an integer.  A function that can end in a fault (a NULL
  dereference, an access outside an array, a failed assertion) returns an option with
  \<open>None\<close> for the fault; ordinary error codes are values.  Pointers into pools are addresses, and pool and
  node contents are maps from addresses, so aliasing is part of the model.  Code that is not
  in the sources is a parameter: the memory the system hands out (an arena address or \<open>None\<close>), the
  clock (\<open>now\<close>), and the plugins' hooks, functions from all they have been told to what they
  return.  Logging is left out.

  \<^bold>\<open>The theories.\<close>

  \<^item> \<open>Prelude\<close>: types, status codes, lemmas on words, lists and options.

  \<^item> \<open>Machine\<close>: runs of an operation that may fault over a list of inputs, the states they reach, and
  the locale \<open>total_machine\<close>: an operation that keeps an invariant never faults in a run; the locale
  \<open>refining_machine\<close>: its runs give the answers of an abstract machine; and \<open>simulating_machine\<close>, the same for a relation
  between abstract and concrete states.

  \<^item> \<open>Mpool\<close> (\<^verbatim>\<open>common/fh_mpool.c\<close>): growth, creation, get and put.  Chunks of a block do not overlap, and
  no chunk is handed out twice; the locale \<open>chunk_pool\<close> states this for the clients.

  \<^item> \<open>Jhash\<close>, \<open>Htable\<close> (\<^verbatim>\<open>jhash.h\<close>, \<^verbatim>\<open>common/fh_htable.c\<close>): the hash functions; creation, growth, put, lookup and
  delete.  A table of fixed size behaves as a bounded finite map, and growing keeps every lookup; the
  locale is \<open>keyed_table\<close>.

  \<^item> \<open>GapFill\<close> (\<^verbatim>\<open>fh_shr_gap_fill.[ch]\<close>): the doubly linked list of gaps, push, find, delete with splitting
  and reuse of the oldest node, and expiry.  The list represents a set of missing numbers; every
  operation keeps it well formed and changes the set as stated, and runs on a new list of at least
  two nodes never fault.  The interface the parsers use is the locale \<open>gap_tracker\<close>.

  \<^item> \<open>Lookup\<close> (\<^verbatim>\<open>fh_shr_lkp_order.c\<close>, \<^verbatim>\<open>fh_shr_lkp_symbol.c\<close>): the order table refines a bounded map from
  order keys to orders; a symbol is found or created; the locale is \<open>entry_table\<close>.

  \<^item> \<open>Feed\<close>, \<open>LineBook\<close>: what the parsers share.  The state of a line (its counters, next expected
  number, gap list, tables and what plugins were told), reads of the receive buffer, alerts,
  delivery, expiry of gaps; the order book of a line as a map, and rules that step through a
  handler.

  \<^item> \<open>ItchMsg\<close>, \<open>Itch\<close> (\<^verbatim>\<open>fh_itch_parse.c\<close>): the fifteen message handlers, numeric and price fields, the
  duplicate filter over messages, the message and packet parsers and initialisation.  No sequence
  of packets faults, each sequence number is processed at most once, and a message has exactly
  the effect on the order book its type and fields say.

  \<^item> \<open>BatsMsg\<close>, \<open>Bats\<close> (\<^verbatim>\<open>fh_bats_parse.c\<close>): the thirteen handlers of PITCH 2.0, the duplicate filter over
  packets, the packet parser with gap filling, initialisation.  The effect of a message, a packet
  in order, runs in which no gap is filled, and what goes wrong when a packet fills part of a gap.

  \<^item> \<open>Fast\<close>, \<open>FastMsg\<close> (\<^verbatim>\<open>fast_api.c\<close>): tags, current values, the presence map, the decoder of both builds
  and the encoder.  Messages of unsigned integers survive encoding and decoding under all
  operators, and the decoder is safe on arbitrary bytes.

  \<^item> \<open>ArcaSeq\<close>, \<open>ArcaPublish\<close> (\<^verbatim>\<open>feeds/arca/common/seq_handling.c\<close>, \<^verbatim>\<open>fh_feed_group.[ch]\<close>): the two feeds of an
  ArcaBook group, the window of bits for missing numbers, and the decision to publish a packet, which
  filters the numbers that neither feed has delivered.  Any interleaving of the feeds publishes a new number
  exactly once while numbers stay in reach of the window; what happens outside is stated too.

  \<^item> \<open>Config\<close>, \<open>CfgLoad\<close> (\<^verbatim>\<open>fh_config.c\<close>, \<^verbatim>\<open>fh_cfg_parse.y\<close>, \<^verbatim>\<open>feeds/shared/config\<close>): the actions that build a
  configuration tree, lookups by dotted paths, numbers, and the loaders of tables, connections, lines
  and processes.  A configuration builds the tree it denotes, and a process written to a
  tree is loaded back.

  \<^item> \<open>EdgeMsg\<close>, \<open>Edge\<close>, \<open>EdgeLogin\<close> (\<^verbatim>\<open>feeds/directedge/common\<close>): the seven handlers of the DirectEdge messages and the
  message parser, the conversions of sequence numbers, the login and connecting.  Every message has the
  effect of its type and fields, messages in the wire format are decoded, and a login ends as stated on every answer.

  \<^item> \<open>TcpLine\<close>, \<open>TcpEnds\<close>, \<open>TcpConfig\<close>, \<open>EdgeFeed\<close> (\<^verbatim>\<open>feeds/shared/tcp_feed/fh_shr_tcp_lh.c\<close>): the receive thread of the TCP
  feeds over a model of stream sockets, and its configuration.  Complete messages are all parsed, in order; the loop over
  messages ends on any bytes; the locale \<open>message_parser\<close> states what the thread needs of a parser, and its instance
  for the DirectEdge parser shows that the stream is applied to the order book.

  \<^item> \<open>Hist\<close> (\<^verbatim>\<open>common/fh_hist.c\<close>): histograms; after any samples the bins, the total, the sum and the extremes are
  those of the samples, with the bound that the minimum starts from.

  \<^item> \<open>OpraMsg\<close>, \<open>OpraWire\<close>, \<open>OpraDecode\<close> (\<^verbatim>\<open>fast_opra.h\<close>, \<^verbatim>\<open>fast_wrapper.c\<close>, \<^verbatim>\<open>fast_decode.c\<close>, \<^verbatim>\<open>fast_process.c\<close>): the field tags,
  messages and decoders of the OPRA feed and the loop over the messages of a packet; the wire format, stated on its own as a relation
  between messages, remembered values and bytes; packets in that format are decoded into the messages they were sent with.

  \<^item> \<open>OpraLine\<close>, \<open>OpraFilter\<close> (\<^verbatim>\<open>fh_opra_lh.c\<close>): a pair of OPRA lines with its window of 512 numbers, resets and counters.  The
  duplicate filter refines one over the set of all numbers seen, takes no number twice, and rewinds when a lagging line returns.

  \<^item> \<open>Opra\<close> (\<^verbatim>\<open>fh_opra_lh_v2.c\<close>): the processing of a packet, which composes the two: packets on both lines are filtered and
  decoded without a fault.

  \<^bold>\<open>Bounds and termination.\<close>  The loops over list nodes are \<open>partial_function\<close>s, where a cyclic list would
  give \<open>None\<close>; that they return is part of every theorem about them.  The loops of the TCP line handler
  are \<open>partial_function\<close>s too, where \<open>None\<close> also stands for a read that waits forever; \<open>TcpEnds\<close> shows when they return.
  All other loops recurse over the bytes or the count they run over.  Sequence numbers are kept at 64 bits; the gap size
  is computed in 32 bits as in the code, so the theorems on gaps assume a new number less than
  \<open>2 ^ 32\<close> ahead (which the 32-bit numbers of BATS always are).

  \<^bold>\<open>Not modelled.\<close>  Multicast sockets, threads, poll loops, system monitoring and the management service, which
  are system calls; logging and the formatting of error texts; the generated scanner and parser of
  configuration files; the option table and the publishing of OPRA messages; the messages of the ArcaBook feed.
\<close>

end
